(* ===== verification/Prelude.thy ===== *)
theory Prelude
  imports Main "HOL-Library.Word"
begin

text \<open>
  What every component of the model shares: the ways a run of the C program can stop early,
  the command type (a state transformer that may fail), the loop combinators with their
  fuel, and the weakest-precondition calculus in which the component lemmas are proved.

  A C function that reads or writes static variables is a command
  \<open>'s \<Rightarrow> failure + 'a \<times> 's\<close> over the record of those variables. Statements are sequenced with
  \<open>bnd\<close>; everything that ends the process is an \<open>Inl\<close>, so the code after it does not run.
\<close>

section \<open>Failures\<close>

text \<open>
  \<^item> \<open>Assert_failed\<close>: \<open>assert\<close> of basic.h, which prints and calls \<open>exit(2)\<close>;
  \<^item> \<open>Error_exit n msg arg\<close>: \<open>error\<close> of basic.h, which prints its message (line \<open>n\<close>, text
    \<open>msg\<close>, offending text \<open>arg\<close>) and calls \<open>exit(1)\<close>;
  \<^item> \<open>Out_of_memory\<close>: \<open>exit(1)\<close> of \<open>arena_push\<close>;
  \<^item> \<open>Bad_access\<close>: a read or write outside the object a pointer points into, or through a
    null pointer (undefined behaviour in C);
  \<^item> \<open>Out_of_fuel\<close>: the loop or recursion did not stop within the bound of the model.
\<close>

datatype failure =
    Assert_failed
  | Error_exit int string string
  | Out_of_memory
  | Bad_access
  | Out_of_fuel

type_synonym 'a result = "failure + 'a"
type_synonym ('s, 'a) cmd = "'s \<Rightarrow> failure + ('a \<times> 's)"

section \<open>Commands\<close>

definition ret :: "'a \<Rightarrow> ('s, 'a) cmd" where
  "ret x = (\<lambda>s. Inr (x, s))"

definition fail :: "failure \<Rightarrow> ('s, 'a) cmd" where
  "fail f = (\<lambda>s. Inl f)"

definition bnd :: "('s, 'a) cmd \<Rightarrow> ('a \<Rightarrow> ('s, 'b) cmd) \<Rightarrow> ('s, 'b) cmd" where
  "bnd m f = (\<lambda>s. case m s of Inl e \<Rightarrow> Inl e | Inr (x, s') \<Rightarrow> f x s')"

definition gets :: "('s \<Rightarrow> 'a) \<Rightarrow> ('s, 'a) cmd" where
  "gets g = (\<lambda>s. Inr (g s, s))"

definition modify :: "('s \<Rightarrow> 's) \<Rightarrow> ('s, unit) cmd" where
  "modify g = (\<lambda>s. Inr ((), g s))"

definition lift :: "'a result \<Rightarrow> ('s, 'a) cmd" where
  "lift r = (\<lambda>s. case r of Inl e \<Rightarrow> Inl e | Inr x \<Rightarrow> Inr (x, s))"

text \<open>The assertion \<open>assert(b)\<close>.\<close>

definition assert_cmd :: "bool \<Rightarrow> ('s, unit) cmd" where
  "assert_cmd b = (if b then ret () else fail Assert_failed)"

text \<open>A read of one element of a C object, here a list: outside it, the access is bad.\<close>

definition rd :: "'a list \<Rightarrow> nat \<Rightarrow> 'a result" where
  "rd xs i = (if i < length xs then Inr (xs ! i) else Inl Bad_access)"

text \<open>Sequencing without a state, for the functions that touch no static variable.\<close>

definition bnd_r :: "'a result \<Rightarrow> ('a \<Rightarrow> 'b result) \<Rightarrow> 'b result" where
  "bnd_r r f = (case r of Inl e \<Rightarrow> Inl e | Inr x \<Rightarrow> f x)"

lemma bnd_assoc: "bnd (bnd m f) g = bnd m (\<lambda>x. bnd (f x) g)"
  by (auto simp: bnd_def fun_eq_iff split: sum.splits prod.splits)

lemma bnd_r_simps [simp]:
  "bnd_r (Inl e) f = Inl e"
  "bnd_r (Inr x) f = f x"
  by (simp_all add: bnd_r_def)

lemma bnd_r_Inr_iff: "bnd_r r f = Inr y \<longleftrightarrow> (\<exists>x. r = Inr x \<and> f x = Inr y)"
  by (cases r) auto

lemma rd_Inr [simp]: "i < length xs \<Longrightarrow> rd xs i = Inr (xs ! i)"
  by (simp add: rd_def)

lemma rd_Inl [simp]: "\<not> i < length xs \<Longrightarrow> rd xs i = Inl Bad_access"
  by (simp add: rd_def)

text \<open>A failure other than lack of fuel: one that the C code itself ends with.\<close>

definition stops :: "failure \<Rightarrow> bool" where
  "stops f \<longleftrightarrow> f \<noteq> Out_of_fuel"

lemma stops_simps [simp]:
  "stops Assert_failed" "stops Bad_access" "stops Out_of_memory" "stops (Error_exit n msg arg)"
  "\<not> stops Out_of_fuel"
  by (simp_all add: stops_def)

lemma bnd_r_stops:
  "bnd_r r f = Inl x \<Longrightarrow> (\<And>y. r = Inl y \<Longrightarrow> stops y) \<Longrightarrow> (\<And>y. r = Inr y \<Longrightarrow> f y = Inl x \<Longrightarrow> stops x)
   \<Longrightarrow> stops x"
  by (cases r) auto

section \<open>Loops\<close>

text \<open>
  \<open>while_cmd n c b\<close> is \<open>while (c) b\<close>, at most \<open>n\<close> iterations of it; \<open>repeat_cmd n b\<close> is a
  \<open>do ... while\<close> loop whose body says whether to go on (\<open>None\<close>) or to stop with a value;
  \<open>while_list n c b acc\<close> is the list-building loop of the parser,
  \<open>while (c) { append(acc, b()); }\<close>.
\<close>

primrec while_cmd :: "nat \<Rightarrow> ('s \<Rightarrow> bool) \<Rightarrow> ('s, unit) cmd \<Rightarrow> ('s, unit) cmd" where
  "while_cmd 0 c b = fail Out_of_fuel"
| "while_cmd (Suc n) c b =
     bnd (gets c) (\<lambda>go. if go then bnd b (\<lambda>_. while_cmd n c b) else ret ())"

primrec repeat_cmd :: "nat \<Rightarrow> ('s, 'a option) cmd \<Rightarrow> ('s, 'a) cmd" where
  "repeat_cmd 0 b = fail Out_of_fuel"
| "repeat_cmd (Suc n) b =
     bnd b (\<lambda>r. case r of None \<Rightarrow> repeat_cmd n b | Some x \<Rightarrow> ret x)"

primrec while_list ::
  "nat \<Rightarrow> ('s, bool) cmd \<Rightarrow> ('s, 'a) cmd \<Rightarrow> 'a list \<Rightarrow> ('s, 'a list) cmd" where
  "while_list 0 c b acc = fail Out_of_fuel"
| "while_list (Suc n) c b acc =
     bnd c (\<lambda>go. if go then bnd b (\<lambda>x. while_list n c b (acc @ [x])) else ret acc)"

section \<open>Weakest preconditions\<close>

text \<open>
  \<open>wp m Q E s\<close>: run from \<open>s\<close>, the command \<open>m\<close> either returns in a state and with a value that
  satisfy \<open>Q\<close>, or stops with a failure that satisfies \<open>E\<close>. Since commands are total
  functions, this is total correctness up to the failures \<open>E\<close> admits; with
  \<open>E f = (f \<noteq> Out_of_fuel)\<close> it says that the C code stops.
\<close>

definition wp :: "('s, 'a) cmd \<Rightarrow> ('a \<Rightarrow> 's \<Rightarrow> bool) \<Rightarrow> (failure \<Rightarrow> bool) \<Rightarrow> 's \<Rightarrow> bool" where
  "wp m Q E s = (case m s of Inl f \<Rightarrow> E f | Inr (x, s') \<Rightarrow> Q x s')"

named_theorems wp_simps \<open>equations that push wp through the commands\<close>

lemma wp_ret [wp_simps]: "wp (ret x) Q E s \<longleftrightarrow> Q x s"
  by (simp add: wp_def ret_def)

lemma wp_fail [wp_simps]: "wp (fail f) Q E s \<longleftrightarrow> E f"
  by (simp add: wp_def fail_def)

lemma wp_bnd [wp_simps]: "wp (bnd m f) Q E s \<longleftrightarrow> wp m (\<lambda>x. wp (f x) Q E) E s"
  by (auto simp: wp_def bnd_def split: sum.splits prod.splits)

lemma wp_gets [wp_simps]: "wp (gets g) Q E s \<longleftrightarrow> Q (g s) s"
  by (simp add: wp_def gets_def)

lemma wp_modify [wp_simps]: "wp (modify g) Q E s \<longleftrightarrow> Q () (g s)"
  by (simp add: wp_def modify_def)

lemma wp_lift [wp_simps]:
  "wp (lift r) Q E s \<longleftrightarrow> (case r of Inl f \<Rightarrow> E f | Inr x \<Rightarrow> Q x s)"
  by (simp add: wp_def lift_def split: sum.splits)

lemma wp_assert [wp_simps]:
  "wp (assert_cmd b) Q E s \<longleftrightarrow> (if b then Q () s else E Assert_failed)"
  by (simp add: assert_cmd_def wp_simps)

lemma wp_if [wp_simps]:
  "wp (if b then m else m') Q E s \<longleftrightarrow> (if b then wp m Q E s else wp m' Q E s)"
  by simp

lemma wp_ifI:
  "(b \<Longrightarrow> wp m Q E s) \<Longrightarrow> (\<not> b \<Longrightarrow> wp m' Q E s) \<Longrightarrow> wp (if b then m else m') Q E s"
  by simp

lemma wp_case_option [wp_simps]:
  "wp (case r of None \<Rightarrow> m | Some x \<Rightarrow> f x) Q E s \<longleftrightarrow>
     (case r of None \<Rightarrow> wp m Q E s | Some x \<Rightarrow> wp (f x) Q E s)"
  by (simp split: option.splits)

lemma wp_let [wp_simps]: "wp (let x = e in f x) Q E s \<longleftrightarrow> wp (f e) Q E s"
  by simp

lemma wp_conseq:
  assumes "wp m Q E s" and "\<And>x s'. Q x s' \<Longrightarrow> Q' x s'" and "\<And>f. E f \<Longrightarrow> E' f"
  shows "wp m Q' E' s"
  using assms by (auto simp: wp_def split: sum.splits)

lemma wp_InrD: "wp m Q E s \<Longrightarrow> m s = Inr (x, s') \<Longrightarrow> Q x s'"
  by (simp add: wp_def)

lemma wp_InlD: "wp m Q E s \<Longrightarrow> m s = Inl f \<Longrightarrow> E f"
  by (simp add: wp_def)

lemma wp_conj: "wp m Q E s \<Longrightarrow> wp m Q' E s \<Longrightarrow> wp m (\<lambda>x s'. Q x s' \<and> Q' x s') E s"
  by (auto simp: wp_def split: sum.splits)

text \<open>A loop whose body keeps \<open>I\<close> and decreases a measure needs only fuel above the measure.\<close>

lemma wp_while_cmd:
  assumes "I s" and "\<mu> s < n"
    and step: "\<And>s. I s \<Longrightarrow> c s \<Longrightarrow> wp b (\<lambda>_ s'. I s' \<and> \<mu> s' < \<mu> s) E s"
    and stop: "\<And>s. I s \<Longrightarrow> \<not> c s \<Longrightarrow> Q () s"
  shows "wp (while_cmd n c b) Q E s"
  using assms(1,2)
proof (induction n arbitrary: s)
  case 0
  then show ?case by simp
next
  case (Suc n)
  show ?case
  proof (cases "c s")
    case True
    have "wp b (\<lambda>_. wp (while_cmd n c b) Q E) E s"
      by (rule wp_conseq [OF step [OF Suc.prems(1) True]]) (use Suc in auto)
    with True show ?thesis by (simp add: wp_simps)
  next
    case False
    with Suc.prems(1) stop show ?thesis by (simp add: wp_simps)
  qed
qed

lemma wp_repeat_cmd:
  assumes "I s" and "\<mu> s < n"
    and step: "\<And>s. I s \<Longrightarrow>
      wp b (\<lambda>r s'. case r of None \<Rightarrow> I s' \<and> \<mu> s' < \<mu> s | Some x \<Rightarrow> Q x s') E s"
  shows "wp (repeat_cmd n b) Q E s"
  using assms(1,2)
proof (induction n arbitrary: s)
  case 0
  then show ?case by simp
next
  case (Suc n)
  have "wp b (\<lambda>r. wp (case r of None \<Rightarrow> repeat_cmd n b | Some x \<Rightarrow> ret x) Q E) E s"
    by (rule wp_conseq [OF step [OF Suc.prems(1)]])
      (use Suc in \<open>auto simp: wp_simps split: option.splits\<close>)
  then show ?case by (simp add: wp_simps)
qed

lemma wp_while_list:
  assumes "I acc s" and "\<mu> s < n"
    and step: "\<And>acc s. I acc s \<Longrightarrow>
      wp c (\<lambda>go s'. if go then wp b (\<lambda>x s''. I (acc @ [x]) s'' \<and> \<mu> s'' < \<mu> s) E s'
                    else Q acc s') E s"
  shows "wp (while_list n c b acc) Q E s"
  using assms(1,2)
proof (induction n arbitrary: acc s)
  case 0
  then show ?case by simp
next
  case (Suc n)
  have "wp c (\<lambda>go. wp (if go then bnd b (\<lambda>x. while_list n c b (acc @ [x])) else ret acc) Q E) E s"
  proof (rule wp_conseq [OF step [OF Suc.prems(1)]])
    fix go s'
    assume go: "if go then wp b (\<lambda>x s''. I (acc @ [x]) s'' \<and> \<mu> s'' < \<mu> s) E s' else Q acc s'"
    show "wp (if go then bnd b (\<lambda>x. while_list n c b (acc @ [x])) else ret acc) Q E s'"
    proof (cases go)
      case True
      then have "wp b (\<lambda>x s''. I (acc @ [x]) s'' \<and> \<mu> s'' < \<mu> s) E s'" using go by simp
      then have "wp b (\<lambda>x. wp (while_list n c b (acc @ [x])) Q E) E s'"
        by (rule wp_conseq) (use Suc in auto)
      with True show ?thesis by (simp add: wp_bnd)
    next
      case False
      with go show ?thesis by (simp add: wp_ret)
    qed
  qed
  then show ?case by (simp add: wp_bnd)
qed

end
