(* ===== verification/Cstr.thy ===== *)
theory Cstr
  imports Prelude
begin

text \<open>
  The character and string helpers of basic.c. A C string is a pointer into a byte object,
  here a list of characters with its terminating NUL in it and an index; an index outside
  the list is a read outside the object, so each loop either stops at its own test or
  reports \<open>Bad_access\<close>. The lemmas say what each helper computes on a terminated string and
  when it stays inside the object.
\<close>

abbreviation NUL :: char where "NUL \<equiv> CHR 0x00"
abbreviation TAB :: char where "TAB \<equiv> CHR 0x09"
abbreviation LF :: char where "LF \<equiv> CHR 0x0A"
abbreviation CR :: char where "CR \<equiv> CHR 0x0D"
abbreviation BACKSLASH :: char where "BACKSLASH \<equiv> CHR 0x5C"

text \<open>The value of a character, which the comparisons below are made on.\<close>

definition code :: "char \<Rightarrow> int" where
  "code c = of_char c"

lemma code_inject [simp]: "code a = code b \<longleftrightarrow> a = b"
  by (simp add: code_def)

section \<open>Character classes\<close>

definition cstr_is_letter :: "char \<Rightarrow> bool" where
  "cstr_is_letter c \<longleftrightarrow>
     (code (CHR ''A'') \<le> code c \<and> code c \<le> code (CHR ''Z'')) \<or>
     (code (CHR ''a'') \<le> code c \<and> code c \<le> code (CHR ''z''))"

definition cstr_is_digit :: "char \<Rightarrow> int \<Rightarrow> bool result" where
  "cstr_is_digit c base =
     (if base = 10 then
        Inr (code (CHR ''0'') \<le> code c \<and> code c \<le> code (CHR ''9''))
      else if base = 16 then
        Inr ((code (CHR ''0'') \<le> code c \<and> code c \<le> code (CHR ''9'')) \<or>
             (code (CHR ''a'') \<le> code c \<and> code c \<le> code (CHR ''f'')) \<or>
             (code (CHR ''A'') \<le> code c \<and> code c \<le> code (CHR ''F'')))
      else if base = 8 then
        Inr (code (CHR ''0'') \<le> code c \<and> code c \<le> code (CHR ''7''))
      else if base = 2 then
        Inr (c = CHR ''0'' \<or> c = CHR ''1'')
      else Inl Assert_failed)"

definition cstr_is_ascii_printable :: "char \<Rightarrow> bool" where
  "cstr_is_ascii_printable c \<longleftrightarrow> code (CHR '' '') \<le> code c \<and> code c \<le> code (CHR ''~'')"

definition cstr_is_whitespace :: "char \<Rightarrow> bool" where
  "cstr_is_whitespace c \<longleftrightarrow> c = CHR '' '' \<or> c = LF \<or> c = CR \<or> c = TAB"

text \<open>The bases the lexer passes.\<close>

definition valid_base :: "int \<Rightarrow> bool" where
  "valid_base b \<longleftrightarrow> b = 2 \<or> b = 8 \<or> b = 10 \<or> b = 16"

lemma cstr_is_digit_total: "valid_base b \<Longrightarrow> \<exists>v. cstr_is_digit c b = Inr v"
  by (auto simp: valid_base_def cstr_is_digit_def)

lemma cstr_is_digit_bad_base: "\<not> valid_base b \<Longrightarrow> cstr_is_digit c b = Inl Assert_failed"
  by (auto simp: valid_base_def cstr_is_digit_def)

section \<open>Strings\<close>

text \<open>\<open>while (*str++ != 0) len++\<close>, from index \<open>i\<close> with \<open>len\<close> counted so far.\<close>

function cstr_len :: "string \<Rightarrow> nat \<Rightarrow> int \<Rightarrow> int result" where
  "cstr_len str i len =
     (if i < length str then
        (if str ! i \<noteq> NUL then cstr_len str (Suc i) (len + 1) else Inr len)
      else Inl Bad_access)"
  by pat_completeness auto
termination
  by (relation "measure (\<lambda>(str, i, len). length str - i)") auto

text \<open>
  \<open>do *dest++ = *src++; while (*src)\<close>: the bytes written, in order (the destination is
  assumed large enough; the caller's pointer after the last byte is the returned length).
\<close>

function cstr_copy :: "string \<Rightarrow> nat \<Rightarrow> string \<Rightarrow> string result" where
  "cstr_copy src i written =
     (if i < length src then
        (if Suc i < length src then
           (if src ! Suc i \<noteq> NUL then cstr_copy src (Suc i) (written @ [src ! i])
            else Inr (written @ [src ! i]))
         else Inl Bad_access)
      else Inl Bad_access)"
  by pat_completeness auto
termination
  by (relation "measure (\<lambda>(src, i, w). length src - i)") auto

text \<open>\<open>do *dest++ = *src++; while (src <= end)\<close>.\<close>

function cstr_copy_substr :: "string \<Rightarrow> nat \<Rightarrow> nat \<Rightarrow> string \<Rightarrow> string result" where
  "cstr_copy_substr src i e written =
     (if i < length src then
        (if Suc i \<le> e then cstr_copy_substr src (Suc i) e (written @ [src ! i])
         else Inr (written @ [src ! i]))
      else Inl Bad_access)"
  by pat_completeness auto
termination
  by (relation "measure (\<lambda>(src, i, e, w). length src - i)") auto

function cstr_start_with :: "string \<Rightarrow> nat \<Rightarrow> string \<Rightarrow> nat \<Rightarrow> bool result" where
  "cstr_start_with str i prefix j =
     (if i < length str \<and> j < length prefix then
        (if str ! i = prefix ! j then
           (if Suc j < length prefix then
              (if prefix ! Suc j = NUL then Inr True
               else cstr_start_with str (Suc i) prefix (Suc j))
            else Inl Bad_access)
         else Inr (prefix ! j = NUL))
      else Inl Bad_access)"
  by pat_completeness auto
termination
  by (relation "measure (\<lambda>(str, i, prefix, j). length prefix - j)") auto

function cstr_match :: "string \<Rightarrow> nat \<Rightarrow> string \<Rightarrow> nat \<Rightarrow> bool result" where
  "cstr_match a i b j =
     (if i < length a \<and> j < length b then
        (if a ! i = b ! j then
           (if Suc i < length a then
              (if a ! Suc i = NUL then
                 (if Suc j < length b then Inr (a ! Suc i = b ! Suc j) else Inl Bad_access)
               else cstr_match a (Suc i) b (Suc j))
            else Inl Bad_access)
         else Inr False)
      else Inl Bad_access)"
  by pat_completeness auto
termination
  by (relation "measure (\<lambda>(a, i, b, j). length a - i)") auto

declare cstr_len.simps [simp del] cstr_copy.simps [simp del] cstr_copy_substr.simps [simp del]
  cstr_start_with.simps [simp del] cstr_match.simps [simp del]

text \<open>The object of a terminated string with the content \<open>s\<close>, and its content.\<close>

definition cstring :: "string \<Rightarrow> string" where
  "cstring s = s @ [NUL]"

definition nul_free :: "string \<Rightarrow> bool" where
  "nul_free s \<longleftrightarrow> NUL \<notin> set s"

lemma nul_free_simps [simp]:
  "nul_free []"
  "nul_free (c # s) \<longleftrightarrow> c \<noteq> NUL \<and> nul_free s"
  "nul_free (s @ t) \<longleftrightarrow> nul_free s \<and> nul_free t"
  by (auto simp: nul_free_def)

lemma nul_free_nth: "nul_free s \<Longrightarrow> i < length s \<Longrightarrow> s ! i \<noteq> NUL"
  by (metis nul_free_def nth_mem)

lemma cstring_nth:
  "i < length s \<Longrightarrow> cstring s ! i = s ! i"
  "cstring s ! length s = NUL"
  by (simp_all add: cstring_def nth_append)

lemma length_cstring [simp]: "length (cstring s) = Suc (length s)"
  by (simp add: cstring_def)

lemma cstring_nth_NUL_iff:
  "nul_free s \<Longrightarrow> i \<le> length s \<Longrightarrow> cstring s ! i = NUL \<longleftrightarrow> i = length s"
  by (metis cstring_nth le_neq_implies_less nul_free_nth)

lemma cstr_len_from:
  "nul_free s \<Longrightarrow> i \<le> length s \<Longrightarrow>
   cstr_len (cstring s) i n = Inr (n + int (length s - i))"
proof (induction "length s - i" arbitrary: i n)
  case 0
  then show ?case
    by (subst cstr_len.simps) (simp add: cstring_nth_NUL_iff)
next
  case (Suc k)
  then have "i < length s" by simp
  with Suc.hyps(1) [of "Suc i" "n + 1"] Suc.hyps(2) Suc.prems show ?case
    by (subst cstr_len.simps) (simp add: cstring_nth_NUL_iff)
qed

text \<open>
  \<open>cstr_match\<close> at equal distances from the start: what is left of the strings decides, and
  the run stays inside both objects unless both are at their terminator.
\<close>

lemma drop_eq_step:
  assumes "i < length s" and "i < length t"
  shows "drop i s = drop i t \<longleftrightarrow> s ! i = t ! i \<and> drop (Suc i) s = drop (Suc i) t"
  using assms by (metis Cons_nth_drop_Suc list.inject)

lemma cstr_match_from:
  assumes s: "nul_free s" and t: "nul_free t"
  shows "i \<le> length s \<Longrightarrow> i \<le> length t \<Longrightarrow> i < length s \<or> i < length t \<Longrightarrow>
    cstr_match (cstring s) i (cstring t) i = Inr (drop i s = drop i t)"
proof (induction "length s - i" arbitrary: i)
  case 0
  then have i: "i = length s" "i < length t" by auto
  then have "cstring s ! i \<noteq> cstring t ! i"
    using t by (metis cstring_nth nul_free_nth)
  with i show ?case by (subst cstr_match.simps) auto
next
  case (Suc k)
  then have i: "i < length s" by simp
  show ?case
  proof (cases "cstring s ! i = cstring t ! i")
    case False
    then have "drop i s \<noteq> drop i t"
      using i by (metis Suc.prems(2) cstring_nth(1) drop_eq_Nil drop_eq_step le_neq_implies_less
          linorder_not_less)
    with False i Suc.prems show ?thesis by (subst cstr_match.simps) simp
  next
    case True
    have t_i: "i < length t"
      using True i s Suc.prems by (metis cstring_nth le_neq_implies_less nul_free_nth)
    have eq: "s ! i = t ! i" using True i t_i by (simp add: cstring_nth)
    show ?thesis
    proof (cases "Suc i = length s")
      case True
      then have "cstr_match (cstring s) i (cstring t) i = Inr (cstring t ! Suc i = NUL)"
        using i t_i eq by (subst cstr_match.simps) (auto simp: cstring_nth)
      moreover have "cstring t ! Suc i = NUL \<longleftrightarrow> Suc i = length t"
        using t t_i by (intro cstring_nth_NUL_iff) auto
      moreover have "drop i s = drop i t \<longleftrightarrow> Suc i = length t"
        using True i t_i eq by (auto simp: drop_eq_step)
      ultimately show ?thesis by simp
    next
      case False
      then have "cstring s ! Suc i \<noteq> NUL" using s i by (simp add: cstring_nth_NUL_iff)
      moreover have "cstr_match (cstring s) (Suc i) (cstring t) (Suc i) =
          Inr (drop (Suc i) s = drop (Suc i) t)"
        by (rule Suc.hyps(1)) (use Suc False i t_i in auto)
      ultimately show ?thesis
        using i t_i eq by (subst cstr_match.simps) (simp add: cstring_nth drop_eq_step)
    qed
  qed
qed

lemma cstr_match_strings:
  "nul_free s \<Longrightarrow> nul_free t \<Longrightarrow> s \<noteq> [] \<or> t \<noteq> [] \<Longrightarrow>
   cstr_match (cstring s) 0 (cstring t) 0 = Inr (s = t)"
  using cstr_match_from [of s t 0] by auto

lemma cstr_match_empty: "cstr_match (cstring []) 0 (cstring []) 0 = Inl Bad_access"
  by (subst cstr_match.simps) (simp add: cstring_def)

lemma cstr_start_with_from:
  assumes s: "nul_free s" and p: "nul_free p"
  shows "i \<le> length s \<Longrightarrow> i < length p \<Longrightarrow>
    cstr_start_with (cstring s) i (cstring p) i = Inr (take (length p - i) (drop i s) = drop i p)"
proof (induction "length p - i" arbitrary: i)
  case 0
  then show ?case by simp
next
  case (Suc k)
  note i = Suc.prems
  show ?case
  proof (cases "cstring s ! i = cstring p ! i")
    case False
    have "take (length p - i) (drop i s) \<noteq> drop i p"
    proof
      assume eq: "take (length p - i) (drop i s) = drop i p"
      then have "i < length s" using i by (metis drop_all drop_eq_Nil linorder_not_le take_Nil)
      moreover have "s ! i = p ! i"
        using arg_cong [OF eq, of "\<lambda>l. l ! 0"] i calculation by simp
      ultimately show False using False i by (simp add: cstring_nth)
    qed
    moreover have "cstring p ! i \<noteq> NUL" using i p by (simp add: cstring_nth nul_free_nth)
    ultimately show ?thesis using False i by (subst cstr_start_with.simps) simp
  next
    case True
    have s_i: "i < length s"
      using True i p by (metis cstring_nth le_neq_implies_less nul_free_nth)
    have eq: "s ! i = p ! i" using True i s_i by (simp add: cstring_nth)
    have step: "take (length p - i) (drop i s) = drop i p \<longleftrightarrow>
        take (length p - Suc i) (drop (Suc i) s) = drop (Suc i) p"
      using i s_i eq
      by (metis Cons_nth_drop_Suc Suc_diff_Suc list.inject take_Suc_Cons)
    show ?thesis
    proof (cases "Suc i = length p")
      case True
      then show ?thesis
        using i s_i eq step
        by (subst cstr_start_with.simps) (auto simp: cstring_nth)
    next
      case False
      then have "cstring p ! Suc i \<noteq> NUL" using p i by (simp add: cstring_nth_NUL_iff)
      moreover have "cstr_start_with (cstring s) (Suc i) (cstring p) (Suc i) =
          Inr (take (length p - Suc i) (drop (Suc i) s) = drop (Suc i) p)"
        by (rule Suc.hyps(1)) (use Suc False s_i in auto)
      ultimately show ?thesis
        using i s_i eq step False by (subst cstr_start_with.simps) (simp add: cstring_nth)
    qed
  qed
qed

lemma cstr_start_with_strings:
  "nul_free s \<Longrightarrow> nul_free p \<Longrightarrow> p \<noteq> [] \<Longrightarrow>
   cstr_start_with (cstring s) 0 (cstring p) 0 = Inr (take (length p) s = p)"
  using cstr_start_with_from [of s p 0] by auto

section \<open>Properties\<close>

text \<open>
  C40: \<open>cstr_match\<close> decides equality of two terminated strings, except that for two empty
  strings it reads past their terminators; \<open>cstr_start_with\<close> decides the prefix relation for
  every prefix that is not empty.
\<close>

theorem cstr_comparisons_correct:
  assumes "nul_free s" and "nul_free t"
  shows "cstr_match (cstring s) 0 (cstring t) 0 = (if s = [] \<and> t = [] then Inl Bad_access else Inr (s = t)) \<and>
    (t \<noteq> [] \<longrightarrow> cstr_start_with (cstring s) 0 (cstring t) 0 = Inr (take (length t) s = t))"
  using cstr_match_strings [OF assms] cstr_match_empty cstr_start_with_strings [OF assms] by auto

theorem cstr_comparisons_correct_witness:
  "cstr_match (cstring ''in'') 0 (cstring ''int'') 0 = Inr False \<and>
   cstr_start_with (cstring ''--print-ast'') 0 (cstring ''--'') 0 = Inr True"
  using cstr_comparisons_correct [of "''in''" "''int''"] cstr_comparisons_correct [of "''--print-ast''" "''--''"]
  by simp

end
