(* ===== verification/Hash.thy ===== *)
theory Hash
  imports Cstr
begin

text \<open>
  hash.c: the string and byte hashes that pick the buckets of the attribute tables and of
  the symbol table. All arithmetic is on 32-bit words, as \<open>uint32_t\<close> computes it, and the
  product with SIGMA on 64-bit words. The lemmas give the range of the result, which is what
  makes the bucket index of both tables legal.
\<close>

unbundle bit_operations_syntax

type_synonym u32 = "32 word"
type_synonym u64 = "64 word"

definition HASH_P :: u32 where "HASH_P = 257"
definition HASH_Q :: u32 where "HASH_Q = 4294967029"
definition HASH_SIGMA :: u32 where "HASH_SIGMA = 2654435769"

text \<open>A byte of a string, as \<open>uint8_t\<close> promoted to \<open>uint32_t\<close>.\<close>

definition byte :: "char \<Rightarrow> u32" where
  "byte c = word_of_int (code c)"

text \<open>
  \<open>fold_string\<close> stops at the terminating NUL; \<open>fold_bytes\<close> takes \<open>length\<close> bytes from an
  object that must hold them.
\<close>

fun fold_string :: "string \<Rightarrow> u32 \<Rightarrow> u32" where
  "fold_string [] K = K"
| "fold_string (c # s) K = (if c = NUL then K else fold_string s ((HASH_P * K + byte c) mod HASH_Q))"

function fold_bytes :: "string \<Rightarrow> int \<Rightarrow> int \<Rightarrow> u32 \<Rightarrow> u32 result" where
  "fold_bytes bytes i len K =
     (if i < len then
        bnd_r (rd bytes (nat i)) (\<lambda>b. fold_bytes bytes (i + 1) len ((HASH_P * K + byte b) mod HASH_Q))
      else Inr K)"
  by pat_completeness auto
termination
  by (relation "measure (\<lambda>(bytes, i, len, K). nat (len - i))") auto

declare fold_bytes.simps [simp del]

text \<open>
  \<open>((uint32_t)Ksigma) >> (32 - m)\<close>: the shift distance is the unsigned difference; a
  distance of 32 or more is undefined in C, so \<open>m = 0\<close> and \<open>m > 32\<close> are bad.
\<close>

definition multiply_hash :: "u32 \<Rightarrow> u32 \<Rightarrow> u32 result" where
  "multiply_hash K m =
     (let Ksigma = (ucast K :: u64) * (ucast HASH_SIGMA :: u64);
          shift = 32 - m
      in if shift < 32 then Inr (drop_bit (unat shift) (ucast Ksigma)) else Inl Bad_access)"

text \<open>
  \<open>multiply_hash(K, m) % ((1 << m) - 1)\<close>. The shift \<open>1 << m\<close> is on \<open>int\<close>, so it is defined
  for \<open>m < 31\<close> only.
\<close>

definition bucket_of :: "u32 \<Rightarrow> u32 \<Rightarrow> u32 result" where
  "bucket_of K m =
     (if m < 31 then
        bnd_r (multiply_hash K m) (\<lambda>h. Inr (h mod (push_bit (unat m) 1 - 1)))
      else Inl Bad_access)"

definition hash_string :: "string \<Rightarrow> u32 \<Rightarrow> u32 result" where
  "hash_string s m = bucket_of (fold_string s 0) m"

definition hash_bytes :: "string \<Rightarrow> int \<Rightarrow> u32 \<Rightarrow> u32 result" where
  "hash_bytes bytes len m = bnd_r (fold_bytes bytes 0 len 0) (\<lambda>K. bucket_of K m)"

section \<open>Range\<close>

lemma shift_distance: "0 < m \<Longrightarrow> m < (31 :: u32) \<Longrightarrow> 32 - m < 32 \<and> unat (32 - m) = 32 - unat m"
  by unat_arith

lemma multiply_hash_defined:
  assumes "0 < m" and "m < (31 :: u32)"
  obtains h where "multiply_hash K m = Inr h" and "unat h < 2 ^ unat m"
proof -
  define k where "k = (ucast ((ucast K :: u64) * (ucast HASH_SIGMA :: u64)) :: u32)"
  have "multiply_hash K m = Inr (drop_bit (unat (32 - m)) k)"
    using shift_distance [OF assms] by (simp add: multiply_hash_def k_def)
  moreover have "unat (drop_bit (unat (32 - m)) k) < 2 ^ unat m"
  proof -
    have m: "unat m \<le> 32" using assms(2) by unat_arith
    have "unat k < 2 ^ 32" using unsigned_less [of k] by simp
    also have "(2::nat) ^ 32 = 2 ^ unat m * 2 ^ (32 - unat m)"
      using m by (simp flip: power_add)
    finally have "unat k div 2 ^ (32 - unat m) < 2 ^ unat m"
      by (simp add: less_mult_imp_div_less)
    then show ?thesis
      using shift_distance [OF assms]
      by (simp only: unat_drop_bit_eq) (simp only: drop_bit_eq_div)
  qed
  ultimately show thesis by (rule that)
qed

lemma unat_exp: "n < 32 \<Longrightarrow> unat (2 ^ n :: u32) = 2 ^ n"
proof -
  assume n: "n < 32"
  then have "(2 :: nat) ^ n < 2 ^ 32" by (intro power_strict_increasing) auto
  then have "unat (of_nat (2 ^ n) :: u32) = 2 ^ n"
    by (simp only: unat_of_nat take_bit_eq_mod) simp
  then show ?thesis by simp
qed

lemma mask_unat: "m < (31 :: u32) \<Longrightarrow> unat (push_bit (unat m) 1 - 1 :: u32) = 2 ^ unat m - 1"
proof -
  assume "m < 31"
  then have m: "unat m < 32" by unat_arith
  then have "(2 ^ unat m :: u32) \<noteq> 0"
    using unat_exp [OF m] by auto
  then have "unat (2 ^ unat m - 1 :: u32) = 2 ^ unat m - 1"
    using unat_exp [OF m] by (simp add: unat_minus_one)
  then show ?thesis
    by (simp only: push_bit_of_1)
qed

text \<open>Both hashes are in \<open>[0, 2^m - 1)\<close>, for the logarithms of table sizes the program uses.\<close>

lemma bucket_of_defined:
  assumes "0 < m" and "m < (31 :: u32)"
  obtains h where "bucket_of K m = Inr h" and "unat h < 2 ^ unat m - 1"
proof -
  obtain h where h: "multiply_hash K m = Inr h"
    using multiply_hash_defined [OF assms] .
  have "0 < unat m" using assms(1) by unat_arith
  then have "(2::nat) ^ 1 \<le> 2 ^ unat m" by (intro power_increasing) auto
  then have "unat (h mod (push_bit (unat m) 1 - 1)) < 2 ^ unat m - 1"
    by (simp only: unat_mod_distrib mask_unat [OF assms(2)]) simp
  then show thesis
    using that h assms(2) by (simp add: bucket_of_def)
qed

section \<open>Properties\<close>

text \<open>
  For every string and every table size \<open>2^m - 1\<close> with \<open>0 < m < 31\<close>, \<open>hash_string\<close> gives an
  index of the table, as its comment says.
\<close>

theorem hash_string_in_table:
  assumes "0 < m" and "m < (31 :: u32)"
  shows "\<exists>h. hash_string s m = Inr h \<and> unat h < 2 ^ unat m - 1"
  using bucket_of_defined [OF assms] unfolding hash_string_def by metis

theorem hash_string_in_table_witness: "\<exists>h. hash_string ''action'' 5 = Inr h \<and> unat h < 31"
  using hash_string_in_table [of 5 "''action''"] by simp

end
