(* ===== verification/Arena.thy ===== *)
theory Arena
  imports Hash
begin

text \<open>
  The page allocator of arena.c. The reserved address range is handed out in page-sized
  blocks; each block is described by a \<open>struct PageBlock\<close>, a node of a doubly linked list,
  which lives in memory the allocator got from itself (\<open>pageblock_storage\<close>). The model keeps
  the nodes in a store from addresses to records, so the pointer updates are the code's;
  address 0 is the null pointer. \<open>struct Arena\<close> objects are addressed too, because the
  allocator's own arena can be the argument of \<open>arena_push\<close> and is also reached from inside
  it. \<open>access\<close> says which addresses are readable and writable after the \<open>mprotect\<close> calls; the updates
  of blocks do not test it, and \<open>descriptors_accessible\<close> (ArenaProps) shows that every block in use lies in accessible memory.

  The operating system is a parameter: the page size, the result of \<open>mmap\<close> (\<open>None\<close> for
  MAP_FAILED) and whether a call of \<open>mprotect\<close> succeeds.
\<close>

type_synonym addr = int

record page_block =
  next_block :: addr
  prev_block :: addr
  memory_begin :: addr
  memory_end :: addr

record arena =
  owned_pages :: addr
  memory_avail :: addr
  memory_limit :: addr

record os =
  os_getpagesize :: int
  os_mmap :: "int \<Rightarrow> addr option"
  os_mprotect :: "addr \<Rightarrow> int \<Rightarrow> bool \<Rightarrow> bool"

record mem =
  page_size :: int
  total_page_count :: int
  page_memory_start :: addr
  first_block :: addr
  block_freelist_head :: addr
  recycled_block_structs :: addr
  blocks :: "addr \<Rightarrow> page_block"
  arenas :: "addr \<Rightarrow> arena"
  accessible :: "addr \<Rightarrow> bool"

definition zero_block :: page_block where
  "zero_block = \<lparr>next_block = 0, prev_block = 0, memory_begin = 0, memory_end = 0\<rparr>"

definition zero_arena :: arena where
  "zero_arena = \<lparr>owned_pages = 0, memory_avail = 0, memory_limit = 0\<rparr>"

text \<open>\<open>sizeof(struct PageBlock)\<close>, and the address of the static \<open>pageblock_storage\<close>.\<close>

definition SIZEOF_PAGEBLOCK :: int where "SIZEOF_PAGEBLOCK = 32"
definition PAGEBLOCK_STORAGE :: addr where "PAGEBLOCK_STORAGE = 8"

text \<open>The static variables before \<open>init_memory\<close>, all zero; nothing is accessible.\<close>

definition boot_mem :: mem where
  "boot_mem = \<lparr>page_size = 0, total_page_count = 0, page_memory_start = 0, first_block = 0,
     block_freelist_head = 0, recycled_block_structs = 0, blocks = (\<lambda>_. zero_block),
     arenas = (\<lambda>_. zero_arena), accessible = (\<lambda>_. False)\<rparr>"

definition upd_block :: "addr \<Rightarrow> (page_block \<Rightarrow> page_block) \<Rightarrow> (mem, unit) cmd" where
  "upd_block p f = modify (\<lambda>m. m\<lparr>blocks := (blocks m)(p := f (blocks m p))\<rparr>)"

definition upd_arena :: "addr \<Rightarrow> (arena \<Rightarrow> arena) \<Rightarrow> (mem, unit) cmd" where
  "upd_arena a f = modify (\<lambda>m. m\<lparr>arenas := (arenas m)(a := f (arenas m a))\<rparr>)"

text \<open>\<open>mprotect\<close> with its error path: \<open>perror\<close> and \<open>exit(1)\<close>.\<close>

definition mprotect :: "os \<Rightarrow> addr \<Rightarrow> int \<Rightarrow> bool \<Rightarrow> (mem, unit) cmd" where
  "mprotect os b len rw =
     (if os_mprotect os b len rw then
        modify (\<lambda>m. m\<lparr>accessible :=
          (\<lambda>a. if b \<le> a \<and> a < b + len then rw else accessible m a)\<rparr>)
      else fail (Error_exit 0 ''mprotect'' ''''))"

text \<open>
  The amount in pages is an integer division, so the surrounding \<open>ceil\<close> has no effect.
\<close>

definition init_memory :: "os \<Rightarrow> int \<Rightarrow> (mem, unit) cmd" where
  "init_memory os memory_amount =
     (let ps = os_getpagesize os; n = memory_amount div ps in
      bnd (modify (\<lambda>m. m\<lparr>page_size := ps, total_page_count := n\<rparr>)) (\<lambda>_.
      case os_mmap os (n * ps) of
        None \<Rightarrow> fail (Error_exit 0 ''mmap'' '''')
      | Some start \<Rightarrow>
          bnd (modify (\<lambda>m. m\<lparr>page_memory_start := start\<rparr>)) (\<lambda>_.
          bnd (mprotect os start (1 * ps) True) (\<lambda>_.
          bnd (modify (\<lambda>m. m\<lparr>first_block := start\<rparr>)) (\<lambda>_.
          bnd (upd_block start (\<lambda>_. zero_block\<lparr>memory_begin := start,
                 memory_end := start + 1 * ps\<rparr>)) (\<lambda>_.
          bnd (modify (\<lambda>m. m\<lparr>block_freelist_head := start + SIZEOF_PAGEBLOCK\<rparr>)) (\<lambda>_.
          bnd (upd_block (start + SIZEOF_PAGEBLOCK) (\<lambda>_. zero_block\<lparr>
                 memory_begin := start + 1 * ps,
                 memory_end := start + 1 * ps + (n - 1) * ps\<rparr>)) (\<lambda>_.
          upd_arena PAGEBLOCK_STORAGE (\<lambda>_. \<lparr>owned_pages = start,
            memory_avail = start + SIZEOF_PAGEBLOCK + SIZEOF_PAGEBLOCK,
            memory_limit = start + 1 * ps\<rparr>)))))))))"

section \<open>Block lists\<close>

text \<open>
  The walks along \<open>next_block\<close>. A list of distinct nodes inside the reserved range has fewer
  nodes than the range has bytes, so that many steps are enough; a cyclic list runs out of
  fuel, as the C loop would not end.
\<close>

definition walk_fuel :: "mem \<Rightarrow> nat" where
  "walk_fuel m = Suc (nat (total_page_count m * page_size m))"

primrec find_fit :: "nat \<Rightarrow> (addr \<Rightarrow> page_block) \<Rightarrow> addr \<Rightarrow> int \<Rightarrow> addr result" where
  "find_fit 0 h b amount = Inl Out_of_fuel"
| "find_fit (Suc n) h b amount =
     (if b = 0 then Inr 0
      else if memory_end (h b) - memory_begin (h b) \<ge> amount then Inr b
      else find_fit n h (next_block (h b)) amount)"

definition find_block_first_fit :: "int \<Rightarrow> (mem, addr) cmd" where
  "find_block_first_fit requested_memory_amount =
     (\<lambda>m. lift (find_fit (walk_fuel m) (blocks m) (block_freelist_head m)
                  requested_memory_amount) m)"

definition recycle_block_struct :: "addr \<Rightarrow> (mem, unit) cmd" where
  "recycle_block_struct block =
     bnd (upd_block block (\<lambda>_. zero_block)) (\<lambda>_.
     bnd (gets recycled_block_structs) (\<lambda>r.
     bnd (upd_block block (\<lambda>b. b\<lparr>next_block := r\<rparr>)) (\<lambda>_.
     modify (\<lambda>m. m\<lparr>recycled_block_structs := block\<rparr>))))"

text \<open>The first node of the list that begins at or before \<open>new_begin\<close>; 0 if there is none.\<close>

primrec find_left :: "nat \<Rightarrow> (addr \<Rightarrow> page_block) \<Rightarrow> addr \<Rightarrow> addr \<Rightarrow> addr result" where
  "find_left 0 h p new_begin = Inl Out_of_fuel"
| "find_left (Suc n) h p new_begin =
     (if p = 0 then Inr 0
      else if memory_begin (h p) \<le> new_begin then Inr p
      else find_left n h (next_block (h p)) new_begin)"

text \<open>The first half of \<open>block_insert_and_coalesce\<close>: the new node is linked in.\<close>

definition block_link ::
  "addr \<Rightarrow> addr \<Rightarrow> addr \<Rightarrow> (mem, addr \<times> addr) cmd" where
  "block_link block_list left_neighbour new_block =
     (if left_neighbour \<noteq> 0 then
        bnd (gets (\<lambda>m. next_block (blocks m left_neighbour))) (\<lambda>right_neighbour.
        bnd (upd_block left_neighbour (\<lambda>b. b\<lparr>next_block := new_block\<rparr>)) (\<lambda>_.
        bnd (upd_block new_block (\<lambda>b. b\<lparr>prev_block := left_neighbour\<rparr>)) (\<lambda>_.
        bnd (upd_block new_block (\<lambda>b. b\<lparr>next_block := right_neighbour\<rparr>)) (\<lambda>_.
        bnd (if right_neighbour \<noteq> 0 then
               upd_block right_neighbour (\<lambda>b. b\<lparr>prev_block := new_block\<rparr>)
             else ret ()) (\<lambda>_.
        ret (right_neighbour, block_list))))))
      else
        bnd (upd_block new_block (\<lambda>b. b\<lparr>next_block := block_list\<rparr>)) (\<lambda>_.
        bnd (upd_block block_list (\<lambda>b. b\<lparr>prev_block := new_block\<rparr>)) (\<lambda>_.
        bnd (gets (\<lambda>m. next_block (blocks m new_block))) (\<lambda>right_neighbour.
        ret (right_neighbour, new_block)))))"

text \<open>The second half: neighbours that touch the new block are merged with it.\<close>

definition block_coalesce ::
  "addr \<Rightarrow> addr \<Rightarrow> addr \<Rightarrow> addr \<Rightarrow> (mem, addr) cmd" where
  "block_coalesce merged_list left_neighbour right_neighbour new_block =
     bnd (gets (\<lambda>m. left_neighbour \<noteq> 0 \<and>
            memory_end (blocks m left_neighbour) = memory_begin (blocks m new_block)))
       (\<lambda>stitch_left.
     bnd (gets (\<lambda>m. right_neighbour \<noteq> 0 \<and>
            memory_begin (blocks m right_neighbour) = memory_end (blocks m new_block)))
       (\<lambda>stitch_right.
     bnd (if stitch_left \<and> stitch_right then
            bnd (gets (\<lambda>m. blocks m right_neighbour)) (\<lambda>r.
            bnd (upd_block left_neighbour (\<lambda>b. b\<lparr>memory_end := memory_end r\<rparr>)) (\<lambda>_.
            bnd (upd_block left_neighbour (\<lambda>b. b\<lparr>next_block := next_block r\<rparr>)) (\<lambda>_.
            bnd (if next_block r \<noteq> 0 then
                   upd_block (next_block r) (\<lambda>b. b\<lparr>prev_block := left_neighbour\<rparr>)
                 else ret ()) (\<lambda>_.
            bnd (recycle_block_struct right_neighbour) (\<lambda>_.
            ret merged_list)))))
          else if stitch_left then
            bnd (gets (\<lambda>m. blocks m new_block)) (\<lambda>nb.
            bnd (upd_block left_neighbour (\<lambda>b. b\<lparr>memory_end := memory_end nb\<rparr>)) (\<lambda>_.
            bnd (upd_block left_neighbour (\<lambda>b. b\<lparr>next_block := right_neighbour\<rparr>)) (\<lambda>_.
            bnd (if right_neighbour \<noteq> 0 then
                   upd_block right_neighbour (\<lambda>b. b\<lparr>prev_block := left_neighbour\<rparr>)
                 else ret ()) (\<lambda>_.
            ret merged_list))))
          else if stitch_right then
            bnd (gets (\<lambda>m. blocks m new_block)) (\<lambda>nb.
            bnd (upd_block right_neighbour (\<lambda>b. b\<lparr>memory_begin := memory_begin nb\<rparr>)) (\<lambda>_.
            bnd (upd_block right_neighbour (\<lambda>b. b\<lparr>prev_block := left_neighbour\<rparr>)) (\<lambda>_.
            if left_neighbour \<noteq> 0 then
              bnd (upd_block left_neighbour (\<lambda>b. b\<lparr>next_block := right_neighbour\<rparr>)) (\<lambda>_.
              ret merged_list)
            else ret right_neighbour)))
          else ret merged_list) (\<lambda>merged_list'.
     bnd (if stitch_left \<or> stitch_right then recycle_block_struct new_block else ret ())
       (\<lambda>_. ret merged_list'))))"

definition block_insert_and_coalesce :: "addr \<Rightarrow> addr \<Rightarrow> (mem, addr) cmd" where
  "block_insert_and_coalesce block_list new_block =
     (if block_list = 0 then ret new_block
      else
        bnd (\<lambda>m. lift (find_left (walk_fuel m) (blocks m) block_list
                         (memory_begin (blocks m new_block))) m) (\<lambda>left_neighbour.
        bnd (block_link block_list left_neighbour new_block) (\<lambda>(right_neighbour, merged_list).
        block_coalesce merged_list left_neighbour right_neighbour new_block)))"

section \<open>Arenas\<close>

text \<open>
  \<open>arena_push\<close> and \<open>get_new_block_struct\<close> call each other. Only the outer call can find its
  arena full: the nested one works on \<open>pageblock_storage\<close>, and if that is full too it gets a
  fresh page before it asks for the next node, so three levels are enough.

  Sizes are \<open>uint32_t\<close>; \<open>find_block_first_fit\<close> takes an \<open>int\<close>, and so is
  \<open>size_in_page_multiples\<close>, so both are read as signed.
\<close>

definition size_in_page_multiples :: "int \<Rightarrow> u32 \<Rightarrow> int" where
  "size_in_page_multiples ps sz =
     sint ((sz + word_of_int ps - 1) AND NOT (word_of_int (ps - 1)))"

definition get_new_block_struct :: "(u32 \<Rightarrow> (mem, addr) cmd) \<Rightarrow> (mem, addr) cmd" where
  "get_new_block_struct push_pageblock_storage =
     bnd (gets recycled_block_structs) (\<lambda>block.
     bnd (if block \<noteq> 0 then
            bnd (gets (\<lambda>m. next_block (blocks m block))) (\<lambda>nx.
            bnd (modify (\<lambda>m. m\<lparr>recycled_block_structs := nx\<rparr>)) (\<lambda>_.
            ret block))
          else push_pageblock_storage (word_of_int SIZEOF_PAGEBLOCK)) (\<lambda>block'.
     bnd (upd_block block' (\<lambda>_. zero_block)) (\<lambda>_.
     ret block')))"

definition alloc_block_range :: "addr \<Rightarrow> u32 \<Rightarrow> (mem, addr \<times> addr) cmd" where
  "alloc_block_range free_block sz =
     bnd (gets (\<lambda>m. (blocks m free_block, size_in_page_multiples (page_size m) sz)))
       (\<lambda>(fb, pages).
     if pages < memory_end fb - memory_begin fb then
       bnd (upd_block free_block (\<lambda>b. b\<lparr>memory_begin := memory_begin fb + pages\<rparr>)) (\<lambda>_.
       ret (memory_begin fb, memory_begin fb + pages))
     else if pages = memory_end fb - memory_begin fb then
       bnd (upd_block free_block (\<lambda>b. b\<lparr>memory_begin := memory_end fb\<rparr>)) (\<lambda>_.
       ret (memory_begin fb, memory_end fb))
     else fail Assert_failed)"

primrec arena_push_level :: "nat \<Rightarrow> os \<Rightarrow> addr \<Rightarrow> u32 \<Rightarrow> (mem, addr) cmd" where
  "arena_push_level 0 os arena sz = fail Out_of_fuel"
| "arena_push_level (Suc n) os arena sz =
     bnd (assert_cmd (0 < sz)) (\<lambda>_.
     bnd (gets (\<lambda>m. arenas m arena)) (\<lambda>ar.
     bnd (if memory_avail ar + uint sz \<ge> memory_limit ar then
            bnd (find_block_first_fit (sint sz)) (\<lambda>free_block.
            if free_block = 0 then fail Out_of_memory
            else
              bnd (alloc_block_range free_block sz) (\<lambda>(alloc_memory_begin, alloc_memory_end).
              bnd (mprotect os alloc_memory_begin (alloc_memory_end - alloc_memory_begin) True)
                (\<lambda>_.
              bnd (upd_arena arena (\<lambda>a. a\<lparr>memory_avail := alloc_memory_begin\<rparr>)) (\<lambda>_.
              bnd (upd_arena arena (\<lambda>a. a\<lparr>memory_limit := alloc_memory_end\<rparr>)) (\<lambda>_.
              bnd (get_new_block_struct (arena_push_level n os PAGEBLOCK_STORAGE))
                (\<lambda>alloc_block.
              bnd (upd_block alloc_block (\<lambda>b. b\<lparr>memory_begin := alloc_memory_begin\<rparr>)) (\<lambda>_.
              bnd (upd_block alloc_block (\<lambda>b. b\<lparr>memory_end := alloc_memory_end\<rparr>)) (\<lambda>_.
              bnd (gets (\<lambda>m. owned_pages (arenas m arena))) (\<lambda>owned.
              bnd (block_insert_and_coalesce owned alloc_block) (\<lambda>owned'.
              bnd (upd_arena arena (\<lambda>a. a\<lparr>owned_pages := owned'\<rparr>)) (\<lambda>_.
              gets (\<lambda>m. memory_avail (arenas m arena)))))))))))))
          else ret (memory_avail ar)) (\<lambda>client_memory.
     bnd (upd_arena arena (\<lambda>a. a\<lparr>memory_avail := client_memory + uint sz\<rparr>)) (\<lambda>_.
     ret client_memory))))"

definition arena_push :: "os \<Rightarrow> addr \<Rightarrow> u32 \<Rightarrow> (mem, addr) cmd" where
  "arena_push os = arena_push_level 3 os"

text \<open>\<open>ZERO_MEMORY_ON_FREE\<close> is 0, so the pages keep their contents.\<close>

primrec delete_pages :: "nat \<Rightarrow> os \<Rightarrow> addr \<Rightarrow> (mem, unit) cmd" where
  "delete_pages 0 os p = fail Out_of_fuel"
| "delete_pages (Suc n) os p =
     (if p = 0 then ret ()
      else
        bnd (gets (\<lambda>m. blocks m p)) (\<lambda>b.
        bnd (mprotect os (memory_begin b) (memory_end b - memory_begin b) False) (\<lambda>_.
        bnd (gets block_freelist_head) (\<lambda>fl.
        bnd (block_insert_and_coalesce fl p) (\<lambda>fl'.
        bnd (modify (\<lambda>m. m\<lparr>block_freelist_head := fl'\<rparr>)) (\<lambda>_.
        delete_pages n os (next_block b)))))))"

definition arena_delete :: "os \<Rightarrow> addr \<Rightarrow> (mem, unit) cmd" where
  "arena_delete os arena =
     bnd (\<lambda>m. delete_pages (walk_fuel m) os (owned_pages (arenas m arena)) m) (\<lambda>_.
     upd_arena arena (\<lambda>_. zero_arena))"

end
