(* ===== verification/UArray.thy ===== *)
theory UArray
  imports Arena
begin

text \<open>
  \<open>struct UnboundedArray\<close> of arena.c: an array that grows by segments of doubling size, so
  that elements never move. Segment \<open>k\<close> holds the \<open>2^k\<close> elements from index \<open>2^k - 1\<close> on. The
  model keeps the segment table of 24 pointers; a segment is its address and its slots, where
  \<open>None\<close> is a slot nothing was written to. Segments come from \<open>arena_push\<close> of the arena model.

  The interface \<open>growable_array\<close> states what the lexer and the symbol table rely on: the
  array is the list of the elements appended to it. The interpretation proves it for the
  segmented array, and the two clients then work on that list.
\<close>

record 'a uarray =
  segment_table :: "(addr \<times> 'a option list) option list"
  elem_size :: int
  elem_count :: int
  capacity :: int
  storage :: addr

definition SEGMENTS :: nat where "SEGMENTS = 24"

text \<open>
  \<open>floor(log10(x) / log10(2))\<close>, for the positive arguments the array passes: the exponent of
  the largest power of two that is at most \<open>x\<close>.
\<close>

fun floor_log2 :: "nat \<Rightarrow> nat" where
  "floor_log2 x = (if x < 2 then 0 else Suc (floor_log2 (x div 2)))"

declare floor_log2.simps [simp del]

definition array_init :: "int \<Rightarrow> addr \<Rightarrow> 'a uarray" where
  "array_init esize st = \<lparr>segment_table = replicate SEGMENTS None, elem_size = esize,
     elem_count = 0, capacity = 0, storage = st\<rparr>"

text \<open>The segment and the offset of index \<open>i\<close>.\<close>

definition array_elem_at_i :: "'a uarray \<Rightarrow> int \<Rightarrow> (nat \<times> nat) result" where
  "array_elem_at_i a i =
     (let segment_index = floor_log2 (nat (i + 1));
          elem_offset = nat (i - (2 ^ segment_index - 1))
      in bnd_r (rd (segment_table a) segment_index) (\<lambda>_. Inr (segment_index, elem_offset)))"

definition array_get :: "'a uarray \<Rightarrow> int \<Rightarrow> (nat \<times> nat) result" where
  "array_get a i =
     (if 0 \<le> i \<and> i < elem_count a then array_elem_at_i a i else Inl Assert_failed)"

text \<open>Reading and writing through the slot pointer.\<close>

definition slot_read :: "'a uarray \<Rightarrow> nat \<times> nat \<Rightarrow> 'a result" where
  "slot_read a slot =
     bnd_r (rd (segment_table a) (fst slot)) (\<lambda>seg.
     case seg of None \<Rightarrow> Inl Bad_access
     | Some (p, slots) \<Rightarrow> bnd_r (rd slots (snd slot)) (\<lambda>v.
         case v of None \<Rightarrow> Inl Bad_access | Some x \<Rightarrow> Inr x))"

definition slot_write :: "'a uarray \<Rightarrow> nat \<times> nat \<Rightarrow> 'a \<Rightarrow> 'a uarray result" where
  "slot_write a slot x =
     bnd_r (rd (segment_table a) (fst slot)) (\<lambda>seg.
     case seg of None \<Rightarrow> Inl Bad_access
     | Some (p, slots) \<Rightarrow>
         (if snd slot < length slots then
            Inr (a\<lparr>segment_table :=
              (segment_table a)[fst slot := Some (p, slots[snd slot := Some x])]\<rparr>)
          else Inl Bad_access))"

definition array_read :: "'a uarray \<Rightarrow> int \<Rightarrow> 'a result" where
  "array_read a i = bnd_r (array_get a i) (slot_read a)"

definition array_set :: "'a uarray \<Rightarrow> int \<Rightarrow> 'a \<Rightarrow> 'a uarray result" where
  "array_set a i x =
     (if 0 \<le> i \<and> i < elem_count a then
        bnd_r (array_elem_at_i a i) (\<lambda>slot. slot_write a slot x)
      else Inl Assert_failed)"

text \<open>The first half of \<open>array_append\<close>: a full array gets its next segment.\<close>

definition array_grow :: "os \<Rightarrow> 'a uarray \<Rightarrow> (mem, 'a uarray) cmd" where
  "array_grow os a =
     (if elem_count a \<ge> capacity a then
        (let segment_index = floor_log2 (nat (elem_count a + 1));
             segment_capacity = 2 ^ segment_index
         in bnd (arena_push os (storage a) (word_of_int (segment_capacity * elem_size a)))
              (\<lambda>p.
            if segment_index < length (segment_table a) then
              ret (a\<lparr>segment_table := (segment_table a)[segment_index :=
                       Some (p, replicate (nat segment_capacity) None)],
                     capacity := capacity a + segment_capacity\<rparr>)
            else fail Bad_access))
      else ret a)"

definition array_append :: "os \<Rightarrow> 'a uarray \<Rightarrow> 'a \<Rightarrow> (mem, 'a uarray) cmd" where
  "array_append os a x =
     bnd (array_grow os a) (\<lambda>a1.
     let a2 = a1\<lparr>elem_count := elem_count a1 + 1\<rparr>
     in lift (array_set a2 (elem_count a2 - 1) x))"

section \<open>The segment arithmetic\<close>

lemma floor_log2_bounds: "0 < x \<Longrightarrow> 2 ^ floor_log2 x \<le> x \<and> x < 2 ^ Suc (floor_log2 x)"
proof (induction x rule: floor_log2.induct)
  case (1 x)
  show ?case
  proof (cases "x < 2")
    case True
    with "1.prems" have "x = 1" by simp
    then show ?thesis by (simp add: floor_log2.simps)
  next
    case False
    then have "2 ^ floor_log2 (x div 2) \<le> x div 2 \<and> x div 2 < 2 ^ Suc (floor_log2 (x div 2))"
      using "1.IH" by simp
    with False show ?thesis by (subst (1 2) floor_log2.simps) auto
  qed
qed

lemma floor_log2_unique: "2 ^ k \<le> x \<Longrightarrow> x < 2 ^ Suc k \<Longrightarrow> floor_log2 x = k"
proof -
  assume a: "2 ^ k \<le> x" "x < 2 ^ Suc k"
  moreover have "(0::nat) < 2 ^ k" by simp
  ultimately have "0 < x" by linarith
  then have b: "2 ^ floor_log2 x \<le> x" "x < 2 ^ Suc (floor_log2 x)"
    using floor_log2_bounds by auto
  have "2 ^ k < (2::nat) ^ Suc (floor_log2 x)" and "2 ^ floor_log2 x < (2::nat) ^ Suc k"
    using a b by linarith+
  then show "floor_log2 x = k" by (auto simp: power_strict_increasing_iff simp del: power_Suc)
qed

text \<open>
  \<open>n_segments a\<close> segments are allocated, each at its full size, and nothing beyond; the
  elements of \<open>xs\<close> are in their slots.
\<close>

definition seg_of :: "nat \<Rightarrow> nat" where "seg_of i = floor_log2 (Suc i)"
definition off_of :: "nat \<Rightarrow> nat" where "off_of i = Suc i - 2 ^ seg_of i"

lemma seg_off: "i = 2 ^ seg_of i - 1 + off_of i" "off_of i < 2 ^ seg_of i" "2 ^ seg_of i \<le> Suc i"
proof -
  show "2 ^ seg_of i \<le> Suc i" using floor_log2_bounds [of "Suc i"] by (simp add: seg_of_def)
  moreover have "Suc i < 2 ^ Suc (seg_of i)"
    using floor_log2_bounds [of "Suc i"] by (simp add: seg_of_def)
  moreover have "(0::nat) < 2 ^ seg_of i" by simp
  ultimately show "i = 2 ^ seg_of i - 1 + off_of i" "off_of i < 2 ^ seg_of i"
    unfolding off_of_def by simp_all
qed

lemma seg_off_inject: "seg_of i = seg_of j \<Longrightarrow> off_of i = off_of j \<Longrightarrow> i = j"
  using seg_off(1) by metis

lemma seg_of_less: "Suc i < 2 ^ k \<Longrightarrow> seg_of i < k"
proof -
  assume "Suc i < 2 ^ k"
  then have "(2::nat) ^ seg_of i < 2 ^ k" using seg_off(3) [of i] by linarith
  then show ?thesis by simp
qed

definition array_holds :: "'a uarray \<Rightarrow> 'a list \<Rightarrow> bool" where
  "array_holds a xs \<longleftrightarrow>
     length (segment_table a) = SEGMENTS \<and>
     elem_count a = int (length xs) \<and>
     (\<exists>k \<le> SEGMENTS. capacity a = 2 ^ k - 1 \<and> length xs < 2 ^ k \<and>
        (\<forall>j < k. \<exists>p slots. segment_table a ! j = Some (p, slots) \<and> length slots = 2 ^ j)) \<and>
     (\<forall>i < length xs. \<forall>p slots. segment_table a ! seg_of i = Some (p, slots) \<longrightarrow>
        slots ! off_of i = Some (xs ! i))"

lemma array_holds_slot:
  assumes "array_holds a xs" and "i < length xs"
  obtains p slots where "segment_table a ! seg_of i = Some (p, slots)"
    and "length slots = 2 ^ seg_of i" and "slots ! off_of i = Some (xs ! i)"
    and "seg_of i < SEGMENTS"
proof -
  obtain k where k: "k \<le> SEGMENTS" "length xs < 2 ^ k"
    "\<forall>j < k. \<exists>p slots. segment_table a ! j = Some (p, slots) \<and> length slots = 2 ^ j"
    using assms(1) by (auto simp: array_holds_def)
  have "seg_of i < k" using assms(2) k(2) by (intro seg_of_less) linarith
  then obtain p slots where "segment_table a ! seg_of i = Some (p, slots)"
      "length slots = 2 ^ seg_of i" using k(3) by blast
  moreover from this have "slots ! off_of i = Some (xs ! i)"
    using assms by (auto simp: array_holds_def)
  ultimately show thesis using that \<open>seg_of i < k\<close> k(1) by auto
qed

lemma array_elem_at_i_nat:
  "seg_of i < length (segment_table a) \<Longrightarrow>
   array_elem_at_i a (int i) = Inr (seg_of i, off_of i)"
proof -
  have "nat (int i + 1) = Suc i" by simp
  moreover have "nat (int i - (2 ^ seg_of i - 1)) = off_of i"
  proof -
    have "int (off_of i) = int i + 1 - 2 ^ seg_of i"
      using seg_off(3) [of i] by (simp add: off_of_def of_nat_diff)
    then show ?thesis by simp
  qed
  ultimately show "seg_of i < length (segment_table a) \<Longrightarrow> ?thesis"
    by (simp add: array_elem_at_i_def Let_def flip: seg_of_def)
qed

lemma array_read_holds:
  assumes "array_holds a xs" and "i < length xs"
  shows "array_read a (int i) = Inr (xs ! i)"
proof -
  obtain p slots where s: "segment_table a ! seg_of i = Some (p, slots)"
    "length slots = 2 ^ seg_of i" "slots ! off_of i = Some (xs ! i)" "seg_of i < SEGMENTS"
    using array_holds_slot [OF assms] .
  have "length (segment_table a) = SEGMENTS" "elem_count a = int (length xs)"
    using assms(1) by (auto simp: array_holds_def)
  with s assms(2) seg_off(2) [of i] show ?thesis
    by (simp add: array_read_def array_get_def array_elem_at_i_nat slot_read_def)
qed

lemma array_read_outside:
  "array_holds a xs \<Longrightarrow> i < 0 \<or> int (length xs) \<le> i \<Longrightarrow> array_read a i = Inl Assert_failed"
  by (auto simp: array_read_def array_get_def array_holds_def)

text \<open>Writing slot \<open>i\<close>, for an index already covered by the segments.\<close>

lemma slot_write_holds:
  assumes len: "length (segment_table a) = SEGMENTS" and cnt: "elem_count a = int (length xs)"
    and k: "k \<le> SEGMENTS" "capacity a = 2 ^ k - 1" "length xs < 2 ^ k"
      "\<forall>j < k. \<exists>p slots. segment_table a ! j = Some (p, slots) \<and> length slots = 2 ^ j"
    and old: "\<forall>j < length xs. j \<noteq> i \<longrightarrow> (\<forall>p slots.
      segment_table a ! seg_of j = Some (p, slots) \<longrightarrow> slots ! off_of j = Some (xs ! j))"
    and i: "i < length xs"
  shows "\<exists>a'. array_set a (int i) (xs ! i) = Inr a' \<and> array_holds a' xs"
proof -
  have si: "seg_of i < k" using i k(3) by (intro seg_of_less) linarith
  then obtain p slots where s: "segment_table a ! seg_of i = Some (p, slots)"
    "length slots = 2 ^ seg_of i" using k(4) by blast
  define a' where "a' = a\<lparr>segment_table :=
    (segment_table a)[seg_of i := Some (p, slots[off_of i := Some (xs ! i)])]\<rparr>"
  have "array_set a (int i) (xs ! i) = Inr a'"
    using s si k(1) i len cnt seg_off(2) [of i]
    by (simp add: array_set_def array_elem_at_i_nat slot_write_def a'_def)
  moreover have "array_holds a' xs"
    unfolding array_holds_def
  proof (intro conjI allI impI)
    show "length (segment_table a') = SEGMENTS" "elem_count a' = int (length xs)"
      using len cnt by (simp_all add: a'_def)
    show "\<exists>k\<le>SEGMENTS. capacity a' = 2 ^ k - 1 \<and> length xs < 2 ^ k \<and>
        (\<forall>j<k. \<exists>p slots. segment_table a' ! j = Some (p, slots) \<and> length slots = 2 ^ j)"
    proof (intro exI [of _ k] conjI allI impI)
      fix j assume "j < k"
      then show "\<exists>p slots. segment_table a' ! j = Some (p, slots) \<and> length slots = 2 ^ j"
        using k s si len by (cases "j = seg_of i") (auto simp: a'_def)
    qed (use k in \<open>simp_all add: a'_def\<close>)
    fix j q sl
    assume j: "j < length xs" and sl: "segment_table a' ! seg_of j = Some (q, sl)"
    show "sl ! off_of j = Some (xs ! j)"
    proof (cases "seg_of j = seg_of i")
      case True
      then have sl': "sl = slots[off_of i := Some (xs ! i)]"
        using sl si k(1) len by (simp add: a'_def)
      show ?thesis
      proof (cases "j = i")
        case True
        then show ?thesis using sl' s(2) seg_off(2) [of i] by simp
      next
        case False
        then have "off_of j \<noteq> off_of i" using True seg_off_inject by blast
        then show ?thesis using sl' old j False True s(1) by simp
      qed
    next
      case False
      then show ?thesis using sl old j by (auto simp: a'_def)
    qed
  qed
  ultimately show ?thesis by blast
qed

lemma array_set_holds:
  assumes h: "array_holds a xs" and i: "i < length xs"
  shows "\<exists>a'. array_set a (int i) x = Inr a' \<and> array_holds a' (xs[i := x])"
proof -
  obtain k where k: "k \<le> SEGMENTS" "capacity a = 2 ^ k - 1" "length xs < 2 ^ k"
    "\<forall>j < k. \<exists>p slots. segment_table a ! j = Some (p, slots) \<and> length slots = 2 ^ j"
    using h by (auto simp: array_holds_def)
  have "\<exists>a'. array_set a (int i) (xs[i := x] ! i) = Inr a' \<and> array_holds a' (xs[i := x])"
    by (rule slot_write_holds [where k = k]) (use h k i in \<open>auto simp: array_holds_def\<close>)
  then show ?thesis using i by simp
qed

lemma array_grow_holds:
  assumes h: "array_holds a xs" and run: "array_grow os a m = Inr (b, m')"
  obtains k where "k \<le> SEGMENTS" "capacity b = 2 ^ k - 1" "Suc (length xs) < 2 ^ k"
    "\<forall>j < k. \<exists>p slots. segment_table b ! j = Some (p, slots) \<and> length slots = 2 ^ j"
    "length (segment_table b) = SEGMENTS" "elem_count b = int (length xs)"
    "\<forall>j < length xs. \<forall>p slots. segment_table b ! seg_of j = Some (p, slots) \<longrightarrow>
       slots ! off_of j = Some (xs ! j)"
proof -
  obtain k where k: "k \<le> SEGMENTS" "capacity a = 2 ^ k - 1" "length xs < 2 ^ k"
    "\<forall>j < k. \<exists>p slots. segment_table a ! j = Some (p, slots) \<and> length slots = 2 ^ j"
    using h by (auto simp: array_holds_def)
  have len: "length (segment_table a) = SEGMENTS" and cnt: "elem_count a = int (length xs)"
    using h by (auto simp: array_holds_def)
  have old: "\<forall>j < length xs. \<forall>p slots. segment_table a ! seg_of j = Some (p, slots) \<longrightarrow>
      slots ! off_of j = Some (xs ! j)"
    using h by (auto simp: array_holds_def)
  show thesis
  proof (cases "elem_count a \<ge> capacity a")
    case False
    then have "int (length xs + 1) < int (2 ^ k)"
      using k(2) cnt by simp
    then have "Suc (length xs) < 2 ^ k"
      by (simp only: of_nat_less_iff)
    moreover have "b = a" using run False by (simp add: array_grow_def ret_def)
    ultimately show thesis using that k len cnt old by blast
  next
    case True
    have "2 ^ k - 1 \<le> int (length xs)" using True k(2) cnt by simp
    then have "int (2 ^ k) \<le> int (Suc (length xs))" by simp
    then have "2 ^ k \<le> Suc (length xs)" by (simp only: of_nat_le_iff)
    then have xs: "Suc (length xs) = 2 ^ k" using k(3) by linarith
    have "nat (elem_count a + 1) = Suc (length xs)" using cnt by simp
    then have "nat (elem_count a + 1) = 2 ^ k" using xs by (simp only:)
    then have seg: "floor_log2 (nat (elem_count a + 1)) = k"
      by (simp only:) (intro floor_log2_unique, simp_all)
    obtain p m1 where
      "arena_push os (storage a) (word_of_int (2 ^ k * elem_size a)) m = Inr (p, m1)"
      and kS: "k < SEGMENTS" and
      b: "b = a\<lparr>segment_table := (segment_table a)[k := Some (p, replicate (nat (2 ^ k)) None)],
        capacity := capacity a + 2 ^ k\<rparr>"
    proof (cases "arena_push os (storage a) (word_of_int (2 ^ k * elem_size a)) m")
      case (Inl e)
      with run True seg show thesis by (simp add: array_grow_def bnd_def Let_def)
    next
      case (Inr r)
      with run True seg len that [of "fst r" "snd r"] show thesis
        by (cases r)
          (simp add: array_grow_def bnd_def ret_def fail_def Let_def split: if_splits)
    qed
    show thesis
    proof (rule that [of "Suc k"])
      show "capacity b = 2 ^ Suc k - 1" using b k(2) by simp
      show "Suc (length xs) < 2 ^ Suc k" using xs by simp
      show "\<forall>j<Suc k. \<exists>p slots. segment_table b ! j = Some (p, slots) \<and> length slots = 2 ^ j"
        using k(4) len kS by (auto simp: b less_Suc_eq nat_power_eq)
      show "\<forall>j<length xs. \<forall>p slots. segment_table b ! seg_of j = Some (p, slots) \<longrightarrow>
          slots ! off_of j = Some (xs ! j)"
      proof (intro allI impI)
        fix j p' slots
        assume j: "j < length xs" and s: "segment_table b ! seg_of j = Some (p', slots)"
        have "seg_of j < k" using j xs by (intro seg_of_less) auto
        then show "slots ! off_of j = Some (xs ! j)"
          using s old j by (auto simp: b)
      qed
    qed (use b kS len cnt in simp_all)
  qed
qed

lemma array_append_holds:
  assumes h: "array_holds a xs" and run: "array_append os a x m = Inr (a', m')"
  shows "array_holds a' (xs @ [x])"
proof -
  obtain b m1 where grow: "array_grow os a m = Inr (b, m1)"
    and set: "array_set (b\<lparr>elem_count := elem_count b + 1\<rparr>) (elem_count b) x = Inr a'"
    using run
    by (auto simp: array_append_def bnd_def lift_def Let_def split: sum.splits prod.splits)
  obtain k where k: "k \<le> SEGMENTS" "capacity b = 2 ^ k - 1" "Suc (length xs) < 2 ^ k"
    "\<forall>j < k. \<exists>p slots. segment_table b ! j = Some (p, slots) \<and> length slots = 2 ^ j"
    "length (segment_table b) = SEGMENTS" "elem_count b = int (length xs)"
    "\<forall>j < length xs. \<forall>p slots. segment_table b ! seg_of j = Some (p, slots) \<longrightarrow>
       slots ! off_of j = Some (xs ! j)"
    using array_grow_holds [OF h grow] .
  have "\<exists>c. array_set (b\<lparr>elem_count := elem_count b + 1\<rparr>) (int (length xs))
      ((xs @ [x]) ! length xs) = Inr c \<and> array_holds c (xs @ [x])"
    by (rule slot_write_holds [where k = k]) (use k in \<open>auto simp: nth_append\<close>)
  with set k(6) show ?thesis by auto
qed

lemma array_init_holds: "array_holds (array_init es st) []"
  by (auto simp: array_holds_def array_init_def)

section \<open>The interface\<close>

text \<open>
  What a client of a growable array relies on: \<open>holds v xs\<close> relates the array to the list of
  its elements, and get, set and append are those of lists. Appending may stop (no memory),
  so its law is about the runs that return.
\<close>

locale growable_array =
  fixes holds :: "'v \<Rightarrow> 'a list \<Rightarrow> bool"
    and read_at :: "'v \<Rightarrow> int \<Rightarrow> 'a result"
    and set_at :: "'v \<Rightarrow> int \<Rightarrow> 'a \<Rightarrow> 'v result"
    and append_to :: "'v \<Rightarrow> 'a \<Rightarrow> ('m, 'v) cmd"
  assumes read_in: "holds v xs \<Longrightarrow> i < length xs \<Longrightarrow> read_at v (int i) = Inr (xs ! i)"
    and read_out: "holds v xs \<Longrightarrow> j < 0 \<or> int (length xs) \<le> j \<Longrightarrow>
      read_at v j = Inl Assert_failed"
    and set_in: "holds v xs \<Longrightarrow> i < length xs \<Longrightarrow>
      \<exists>v'. set_at v (int i) x = Inr v' \<and> holds v' (xs[i := x])"
    and append: "holds v xs \<Longrightarrow> append_to v x m = Inr (v', m') \<Longrightarrow> holds v' (xs @ [x])"
begin

primrec append_list :: "'v \<Rightarrow> 'a list \<Rightarrow> ('m, 'v) cmd" where
  "append_list v [] = ret v"
| "append_list v (y # ys) = bnd (append_to v y) (\<lambda>v'. append_list v' ys)"

lemma append_list_holds:
  "holds v xs \<Longrightarrow> append_list v ys m = Inr (v', m') \<Longrightarrow> holds v' (xs @ ys)"
proof (induction ys arbitrary: v xs m)
  case Nil
  then show ?case by (simp add: ret_def)
next
  case (Cons y ys)
  from Cons.prems(2) obtain w mw where
    "append_to v y m = Inr (w, mw)" "append_list w ys mw = Inr (v', m')"
    by (auto simp: bnd_def split: sum.splits prod.splits)
  with Cons.IH [of w "xs @ [y]"] append [OF Cons.prems(1)] show ?case by simp
qed

text \<open>Elements keep their place while others are appended.\<close>

lemma read_after_appends:
  assumes "holds v xs" and "append_list v ys m = Inr (v', m')" and "i < length xs"
  shows "read_at v' (int i) = Inr (xs ! i)"
  using read_in [OF append_list_holds [OF assms(1,2)], of i] assms(3)
  by (simp add: nth_append)

lemma read_last_appended:
  assumes "holds v xs" and "append_to v x m = Inr (v', m')"
  shows "read_at v' (int (length xs)) = Inr x"
  using read_in [OF append [OF assms], of "length xs"] by simp

lemma set_read:
  assumes "holds v xs" and "i < length xs" and "j < length xs" and "set_at v (int i) x = Inr v'"
  shows "read_at v' (int j) = Inr (if j = i then x else xs ! j)"
proof -
  obtain w where "set_at v (int i) x = Inr w" "holds w (xs[i := x])"
    using set_in [OF assms(1,2)] by blast
  with assms(4) read_in [of v' "xs[i := x]" j] assms(3) show ?thesis by (simp add: nth_list_update)
qed

end

interpretation ua: growable_array array_holds array_read array_set "array_append os"
  for os :: os
  by unfold_locales
    (simp_all add: array_read_holds array_read_outside array_set_holds array_append_holds)

section \<open>Properties\<close>

text \<open>
  C24: an array that holds a list holds the list with the new element at its end after
  \<open>array_append\<close> returns, so that every index reads the element of that list, elements already
  there keep their place when a new segment is added, and an index outside fails the
  assertion of \<open>array_get\<close>.
\<close>

theorem array_append_refines_list:
  assumes "array_holds a xs" and "array_append os a x m = Inr (a', m')"
  shows "array_holds a' (xs @ [x]) \<and>
    (\<forall>i < length xs. array_read a' (int i) = Inr (xs ! i)) \<and>
    array_read a' (int (length xs)) = Inr x \<and>
    array_read a' (int (length xs) + 1) = Inl Assert_failed"
proof -
  have app: "array_holds a' (xs @ [x])" by (rule ua.append [OF assms])
  have "array_read a' (int i) = Inr (xs ! i)" if "i < length xs" for i
    using ua.read_in [OF app, of i] that by (simp add: nth_append)
  with app ua.read_last_appended [OF assms] ua.read_out [OF app, of "int (length xs) + 1"]
  show ?thesis by simp
qed

text \<open>An array of two segments, the second one with a free slot.\<close>

definition two_segments :: "nat uarray" where
  "two_segments = (array_init 8 8)\<lparr>segment_table :=
     [Some (100, [Some 5]), Some (200, [Some 6, None])] @ replicate 22 None,
     elem_count := 2, capacity := 3\<rparr>"

lemma two_segments_holds: "array_holds two_segments [5, 6]"
proof -
  have seg: "seg_of 0 = 0" "seg_of 1 = 1" "off_of 0 = 0" "off_of 1 = 0"
    by (simp_all add: seg_of_def off_of_def floor_log2.simps)
  have "\<exists>k \<le> SEGMENTS. capacity two_segments = 2 ^ k - 1 \<and> length [5, 6 :: nat] < 2 ^ k \<and>
      (\<forall>j < k. \<exists>p slots. segment_table two_segments ! j = Some (p, slots) \<and> length slots = 2 ^ j)"
    by (rule exI [of _ 2]) (auto simp: SEGMENTS_def two_segments_def numeral_eq_Suc less_Suc_eq)
  with seg show ?thesis
    by (auto simp: array_holds_def two_segments_def array_init_def SEGMENTS_def less_Suc_eq
        numeral_2_eq_2)
qed

theorem array_append_refines_list_witness:
  "\<forall>os. \<exists>a' m'. array_append os two_segments 7 boot_mem = Inr (a', m') \<and> array_read a' 2 = Inr 7"
proof
  fix os
  have "case array_append os two_segments 7 boot_mem of Inl f \<Rightarrow> False | Inr _ \<Rightarrow> True"
    by (simp add: array_append_def array_grow_def two_segments_def array_init_def bnd_def ret_def Let_def
        lift_def array_set_def array_elem_at_i_def floor_log2.simps slot_write_def)
  then obtain a' m' where run: "array_append os two_segments 7 boot_mem = Inr (a', m')"
    by (auto split: sum.splits)
  from array_append_refines_list [OF two_segments_holds run] run
  show "\<exists>a' m'. array_append os two_segments 7 boot_mem = Inr (a', m') \<and> array_read a' 2 = Inr 7" by simp
qed

end
