(* ===== verification/AstKinds.thy ===== *)
theory AstKinds
  imports UArray
begin

text \<open>
  The enumerations of ast.h and the syntax tree node. Trailing underscores of the
  enumerators are dropped.

  A node is an object with a kind, an id, a line and a hash table of attributes; it is a
  value here: its chains are lists, newest entry first, and an attribute holds the tree, the
  list of trees, the integer, the string or the operator its \<open>void*\<close> points to
  (\<open>V_Ast None\<close> and \<open>V_AstList None\<close> are null pointers). A \<open>bool\<close> is an integer, as
  basic.h defines it. The tag the C code gives an attribute
  is kept beside the value, since nothing makes the two agree.

  \<open>struct AstList\<close>, a doubly linked list with a sentinel that is only appended to and walked
  from its head, is the list of its elements.
\<close>

datatype (plugins only: code size) ast_kind =
    Ast_NONE | Ast_Name | Ast_BaseType | Ast_ConstDecl | Ast_ExternDecl | Ast_FunctionProto
   | Ast_ActionDecl | Ast_HeaderDecl | Ast_HeaderUnionDecl | Ast_StructDecl | Ast_EnumDecl
   | Ast_TypeDecl | Ast_Parser | Ast_Control | Ast_Package | Ast_Instantiation | Ast_Error
   | Ast_MatchKind | Ast_FunctionDecl | Ast_Dontcare | Ast_IntTypeSize | Ast_Int | Ast_Bool
   | Ast_StringLiteral | Ast_Tuple | Ast_TupleKeyset | Ast_HeaderStack | Ast_SpecdType
   | Ast_StructField | Ast_SpecdId | Ast_ParserType | Ast_Argument | Ast_VarDecl
   | Ast_DirectApplic | Ast_ArrayIndex | Ast_Parameter | Ast_Lvalue | Ast_AssignmentStmt
   | Ast_MethodCallStmt | Ast_EmptyStmt | Ast_Default | Ast_SelectExpr | Ast_SelectCase
   | Ast_ParserState | Ast_ControlType | Ast_KeyElement | Ast_ActionRef | Ast_TableEntry
   | Ast_TableProp_Key | Ast_TableProp_Actions | Ast_TableProp_Entries
   | Ast_TableProp_SingleEntry | Ast_TableDecl | Ast_IfStmt | Ast_ExitStmt | Ast_ReturnStmt
   | Ast_SwitchLabel | Ast_SwitchCase | Ast_SwitchStmt | Ast_BlockStmt
   | Ast_ExpressionListExpr | Ast_CastExpr | Ast_UnaryExpr | Ast_BinaryExpr | Ast_KvPair
   | Ast_MemberSelectExpr | Ast_IndexedArrayExpr | Ast_FunctionCallExpr | Ast_TypeArgsExpr
   | Ast_P4Program

datatype (plugins only: code size) ast_base_type_kind =
    AstBaseType_NONE | AstBaseType_Bool | AstBaseType_Error | AstBaseType_Int
   | AstBaseType_Bit | AstBaseType_Varbit | AstBaseType_String

datatype (plugins only: code size) ast_expr_operator =
    AstExprOp_NONE | AstExprOp_Add | AstExprOp_Sub | AstExprOp_Mul | AstExprOp_Div
   | AstExprOp_And | AstExprOp_Or | AstExprOp_Equal | AstExprOp_NotEqual | AstExprOp_Less
   | AstExprOp_Greater | AstExprOp_LessEqual | AstExprOp_GreaterEqual | AstExprOp_BitAnd
   | AstExprOp_BitOr | AstExprOp_BitXor | AstExprOp_BitShiftLeft | AstExprOp_BitShiftRight
   | AstExprOp_Mask | AstExprOp_Minus | AstExprOp_LogNot | AstExprOp_BitNot

datatype (plugins only: code size) ast_param_direction =
    AstParamDir_NONE | AstParamDir_In | AstParamDir_Out | AstParamDir_InOut

datatype (plugins only: code size) ast_attribute_type =
    AstAttr_NONE | AstAttr_Ast | AstAttr_AstList | AstAttr_Integer | AstAttr_String
   | AstAttr_ExprOperator

definition AST_ATTRTABLE_CAPACITY_LOG2 :: u32 where "AST_ATTRTABLE_CAPACITY_LOG2 = 4"
definition AST_ATTRTABLE_CAPACITY :: int where "AST_ATTRTABLE_CAPACITY = 15"

datatype (plugins only: code size) ast =
    Ast (kind_of: ast_kind) (id_of: int) (line_of: int) (attr_count_of: int)
      (attrs_of: "attribute list list")
and attribute =
    Attribute (attr_type: ast_attribute_type) (attr_name: string) (attr_value: attr_value)
and attr_value =
    V_Ast "ast option"
  | V_AstList "ast list option"
  | V_Integer int
  | V_String string
  | V_ExprOperator ast_expr_operator

end
