(* ===== verification/AstTab.thy ===== *)
theory AstTab
  imports AstKinds
begin

text \<open>
  ast.c: the attribute table of a syntax tree node, \<open>AST_ATTRTABLE_CAPACITY = 15\<close> chains of
  entries indexed by the hash of the attribute's name, and the iterator over it. Names are
  compared with \<open>cstr_match\<close>, which is equality on the nonempty names used
  (\<open>cstr_match_strings\<close> of Cstr); on empty names, which no caller passes, the two differ. A new
  entry is taken to find memory (the exit of \<open>arena_push\<close> at ast.c:66 is left out). The interface \<open>keyed_table\<close> says what a table of named
  values promises; the attribute table is shown to keep it.
\<close>

section \<open>Operations\<close>

definition attr_hash :: "string \<Rightarrow> nat result" where
  "attr_hash name = bnd_r (hash_string name AST_ATTRTABLE_CAPACITY_LOG2) (\<lambda>h. Inr (unat h))"

primrec find_attr :: "attribute list \<Rightarrow> string \<Rightarrow> attribute option" where
  "find_attr [] name = None"
| "find_attr (e # es) name = (if attr_name e = name then Some e else find_attr es name)"

definition ast_getattr :: "ast \<Rightarrow> string \<Rightarrow> attr_value option result" where
  "ast_getattr ast name =
     bnd_r (attr_hash name) (\<lambda>h.
     bnd_r (rd (attrs_of ast) h) (\<lambda>chain.
     Inr (case find_attr chain name of None \<Rightarrow> None | Some e \<Rightarrow> Some (attr_value e))))"

primrec set_entry ::
  "attribute list \<Rightarrow> string \<Rightarrow> attr_value \<Rightarrow> ast_attribute_type \<Rightarrow> attribute list" where
  "set_entry [] name v ty = []"
| "set_entry (e # es) name v ty =
     (if attr_name e = name then Attribute ty (attr_name e) v # es
      else e # set_entry es name v ty)"

definition ast_setattr ::
  "ast \<Rightarrow> string \<Rightarrow> attr_value \<Rightarrow> ast_attribute_type \<Rightarrow> ast result" where
  "ast_setattr ast name v ty =
     bnd_r (attr_hash name) (\<lambda>h.
     bnd_r (rd (attrs_of ast) h) (\<lambda>chain.
     case find_attr chain name of
       Some e \<Rightarrow>
         Inr (Ast (kind_of ast) (id_of ast) (line_of ast) (attr_count_of ast)
                ((attrs_of ast)[h := set_entry chain name v ty]))
     | None \<Rightarrow>
         (if attr_count_of ast < AST_ATTRTABLE_CAPACITY then
            Inr (Ast (kind_of ast) (id_of ast) (line_of ast) (attr_count_of ast + 1)
                   ((attrs_of ast)[h := Attribute ty name v # chain]))
          else Inl Assert_failed)))"

text \<open>A node as \<open>memset\<close> leaves it, before its attributes are set.\<close>

definition blank_ast :: "ast_kind \<Rightarrow> int \<Rightarrow> int \<Rightarrow> ast" where
  "blank_ast kind nid line = Ast kind nid line 0 (replicate (nat AST_ATTRTABLE_CAPACITY) [])"

text \<open>
  The iterator: the node, the chain number, and what is left of that chain from the current
  entry on (empty for a null \<open>attr_at\<close>).
\<close>

record attr_iter =
  it_ast :: ast
  it_table_i :: nat
  it_attr_at :: "attribute list"

function next_chain :: "ast \<Rightarrow> nat \<Rightarrow> attr_iter" where
  "next_chain ast i =
     (if i < nat AST_ATTRTABLE_CAPACITY \<and> i < length (attrs_of ast) then
        (if attrs_of ast ! i \<noteq> [] then
           \<lparr>it_ast = ast, it_table_i = i, it_attr_at = attrs_of ast ! i\<rparr>
         else next_chain ast (Suc i))
      else \<lparr>it_ast = ast, it_table_i = i, it_attr_at = []\<rparr>)"
  by pat_completeness auto
termination
  by (relation "measure (\<lambda>(ast, i). length (attrs_of ast) - i)") auto

declare next_chain.simps [simp del]

definition ast_attriter_init :: "ast \<Rightarrow> attr_iter" where
  "ast_attriter_init ast = next_chain ast 0"

definition ast_attriter_get_next :: "attr_iter \<Rightarrow> attr_iter" where
  "ast_attriter_get_next iter =
     (case it_attr_at iter of
        [] \<Rightarrow> iter
      | e # es \<Rightarrow>
          (if es \<noteq> [] then iter\<lparr>it_attr_at := es\<rparr>
           else next_chain (it_ast iter) (Suc (it_table_i iter))))"

text \<open>\<open>for (attr = init; attr; attr = get_next)\<close>: the entries in the order of the loop.\<close>

primrec iter_entries :: "nat \<Rightarrow> attr_iter \<Rightarrow> attribute list result" where
  "iter_entries 0 iter = Inl Out_of_fuel"
| "iter_entries (Suc n) iter =
     (case it_attr_at iter of
        [] \<Rightarrow> Inr []
      | e # es \<Rightarrow>
          bnd_r (iter_entries n (ast_attriter_get_next iter)) (\<lambda>rest. Inr (e # rest)))"

definition ast_attributes :: "ast \<Rightarrow> attribute list result" where
  "ast_attributes ast = iter_entries (Suc (length (concat (attrs_of ast)))) (ast_attriter_init ast)"

text \<open>\<open>ast_list_append_link\<close> and the walk from \<open>ast_list_first_link\<close>.\<close>

definition ast_list_append :: "ast list \<Rightarrow> ast \<Rightarrow> ast list" where
  "ast_list_append xs x = xs @ [x]"

section \<open>Hashing of names\<close>

lemma attr_hash_defined:
  obtains h where "attr_hash name = Inr h" and "h < 15"
proof -
  have "(0 :: u32) < AST_ATTRTABLE_CAPACITY_LOG2" "AST_ATTRTABLE_CAPACITY_LOG2 < 31"
    by (simp_all add: AST_ATTRTABLE_CAPACITY_LOG2_def)
  then obtain h where "hash_string name AST_ATTRTABLE_CAPACITY_LOG2 = Inr h"
    and "unat h < 2 ^ unat AST_ATTRTABLE_CAPACITY_LOG2 - 1"
    unfolding hash_string_def by (rule bucket_of_defined)
  then show thesis
    using that by (auto simp: attr_hash_def AST_ATTRTABLE_CAPACITY_LOG2_def)
qed

text \<open>
  A table as the operations build it: 15 chains, each entry in the chain of its name's hash,
  no name twice in a chain, and the count is the number of entries.
\<close>

definition attr_wf :: "ast \<Rightarrow> bool" where
  "attr_wf ast \<longleftrightarrow>
     length (attrs_of ast) = 15 \<and>
     (\<forall>i < 15. \<forall>e \<in> set (attrs_of ast ! i). attr_hash (attr_name e) = Inr i) \<and>
     (\<forall>i < 15. distinct (map attr_name (attrs_of ast ! i))) \<and>
     attr_count_of ast = int (length (concat (attrs_of ast)))"

definition attr_lookup :: "ast \<Rightarrow> string \<Rightarrow> (attr_value \<times> ast_attribute_type) option" where
  "attr_lookup ast name =
     (case attr_hash name of Inl f \<Rightarrow> None
      | Inr h \<Rightarrow> map_option (\<lambda>e. (attr_value e, attr_type e)) (find_attr (attrs_of ast ! h) name))"

lemma attr_wf_blank: "attr_wf (blank_ast kind nid line)"
  by (auto simp: attr_wf_def blank_ast_def AST_ATTRTABLE_CAPACITY_def concat_replicate_trivial)

lemma ast_getattr_lookup:
  "attr_wf ast \<Longrightarrow> ast_getattr ast name = Inr (map_option fst (attr_lookup ast name))"
  by (rule attr_hash_defined [of name])
    (auto simp: ast_getattr_def attr_lookup_def attr_wf_def split: option.splits)

lemma find_attr_None: "find_attr es name = None \<longleftrightarrow> name \<notin> attr_name ` set es"
  by (induction es) auto

lemma find_attr_set_entry:
  "find_attr (set_entry es name v ty) n =
     (if n = name \<and> find_attr es name \<noteq> None then Some (Attribute ty name v) else find_attr es n)"
  by (induction es) auto

lemma set_entry_names [simp]: "map attr_name (set_entry es name v ty) = map attr_name es"
  by (induction es) auto

lemma set_entry_names_set: "attr_name ` set (set_entry es name v ty) = attr_name ` set es"
  by (metis list.set_map set_entry_names)

lemma length_set_entry [simp]: "length (set_entry es name v ty) = length es"
  by (metis length_map set_entry_names)

lemma length_concat_update:
  "i < length xss \<Longrightarrow>
   length (concat (xss[i := ys])) + length (xss ! i) = length (concat xss) + length ys"
  by (induction xss arbitrary: i) (auto split: nat.splits)

text \<open>The two ways \<open>ast_setattr\<close> returns, and its one failure.\<close>

lemma ast_setattr_cases:
  assumes wf: "attr_wf ast" and h: "attr_hash name = Inr h" "h < 15"
  shows "ast_setattr ast name v ty =
    (if find_attr (attrs_of ast ! h) name \<noteq> None then
       Inr (Ast (kind_of ast) (id_of ast) (line_of ast) (attr_count_of ast)
              ((attrs_of ast)[h := set_entry (attrs_of ast ! h) name v ty]))
     else if attr_count_of ast < 15 then
       Inr (Ast (kind_of ast) (id_of ast) (line_of ast) (attr_count_of ast + 1)
              ((attrs_of ast)[h := Attribute ty name v # attrs_of ast ! h]))
     else Inl Assert_failed)"
  using wf h
  by (auto simp: ast_setattr_def attr_wf_def AST_ATTRTABLE_CAPACITY_def split: option.splits)

lemma ast_setattr_wf:
  assumes wf: "attr_wf ast" and run: "ast_setattr ast name v ty = Inr ast'"
  shows "attr_wf ast'"
proof -
  obtain h where h: "attr_hash name = Inr h" "h < 15" by (rule attr_hash_defined)
  let ?chain = "attrs_of ast ! h"
  have len: "h < length (attrs_of ast)" using wf h by (simp add: attr_wf_def)
  show ?thesis
  proof (cases "find_attr ?chain name = None")
    case False
    then have ast': "ast' = Ast (kind_of ast) (id_of ast) (line_of ast) (attr_count_of ast)
        ((attrs_of ast)[h := set_entry ?chain name v ty])"
      using run ast_setattr_cases [OF wf h, of v ty] by simp
    have "\<forall>e \<in> set (set_entry ?chain name v ty). attr_hash (attr_name e) = Inr h"
      using wf h set_entry_names_set [of ?chain name v ty]
      unfolding attr_wf_def by (metis imageE image_eqI)
    moreover have "length (concat ((attrs_of ast)[h := set_entry ?chain name v ty])) =
        length (concat (attrs_of ast))"
      using length_concat_update [OF len, of "set_entry ?chain name v ty"] by simp
    ultimately show ?thesis
      using wf h unfolding attr_wf_def ast' by (auto simp: nth_list_update)
  next
    case True
    then have ast': "ast' = Ast (kind_of ast) (id_of ast) (line_of ast) (attr_count_of ast + 1)
        ((attrs_of ast)[h := Attribute ty name v # ?chain])"
      using run ast_setattr_cases [OF wf h, of v ty] by (simp split: if_splits)
    have "length (concat ((attrs_of ast)[h := Attribute ty name v # ?chain])) =
        Suc (length (concat (attrs_of ast)))"
      using length_concat_update [OF len, of "Attribute ty name v # ?chain"] by simp
    then show ?thesis
      using wf h True unfolding attr_wf_def ast'
      by (auto simp: nth_list_update find_attr_None)
  qed
qed

lemma ast_setattr_lookup:
  assumes wf: "attr_wf ast" and run: "ast_setattr ast name v ty = Inr ast'"
  shows "attr_lookup ast' n = (if n = name then Some (v, ty) else attr_lookup ast n)"
proof -
  obtain h where h: "attr_hash name = Inr h" "h < 15" by (rule attr_hash_defined)
  obtain k where k: "attr_hash n = Inr k" "k < 15" by (rule attr_hash_defined)
  have len: "length (attrs_of ast) = 15" using wf by (simp add: attr_wf_def)
  show ?thesis
    using run ast_setattr_cases [OF wf h, of v ty] h k len
    by (auto simp: attr_lookup_def nth_list_update find_attr_set_entry split: if_splits)
qed

lemma ast_setattr_frame:
  "ast_setattr ast name v ty = Inr ast' \<Longrightarrow>
   kind_of ast' = kind_of ast \<and> id_of ast' = id_of ast \<and> line_of ast' = line_of ast"
  by (auto simp: ast_setattr_def bnd_r_Inr_iff split: option.splits if_splits)

lemma ast_setattr_full:
  assumes wf: "attr_wf ast"
  shows "ast_setattr ast name v ty = Inl Assert_failed \<longleftrightarrow>
    attr_lookup ast name = None \<and> 15 \<le> attr_count_of ast"
proof -
  obtain h where h: "attr_hash name = Inr h" "h < 15" by (rule attr_hash_defined)
  show ?thesis
    using ast_setattr_cases [OF wf h, of v ty] h by (auto simp: attr_lookup_def)
qed

lemma ast_setattr_total:
  "attr_wf ast \<Longrightarrow> attr_count_of ast < 15 \<Longrightarrow> \<exists>ast'. ast_setattr ast name v ty = Inr ast'"
  by (rule attr_hash_defined [of name]) (auto simp: ast_setattr_cases)

section \<open>Tables of named values\<close>

text \<open>
  The contract of a table keyed by names: a store that returns changes the looked-up value
  of its own name only, and keeps the table well formed.
\<close>

locale keyed_table =
  fixes invar :: "'t \<Rightarrow> bool"
    and lookup :: "'t \<Rightarrow> string \<Rightarrow> 'v option"
    and store :: "'t \<Rightarrow> string \<Rightarrow> 'v \<Rightarrow> 't result"
  assumes store_invar: "invar t \<Longrightarrow> store t k v = Inr t' \<Longrightarrow> invar t'"
    and store_lookup: "invar t \<Longrightarrow> store t k v = Inr t' \<Longrightarrow>
      lookup t' n = (if n = k then Some v else lookup t n)"
begin

primrec store_all :: "'t \<Rightarrow> (string \<times> 'v) list \<Rightarrow> 't result" where
  "store_all t [] = Inr t"
| "store_all t (kv # kvs) = bnd_r (store t (fst kv) (snd kv)) (\<lambda>t'. store_all t' kvs)"

lemma store_all_invar: "invar t \<Longrightarrow> store_all t kvs = Inr t' \<Longrightarrow> invar t'"
  by (induction kvs arbitrary: t) (auto simp: bnd_r_Inr_iff dest: store_invar)

text \<open>Of several values stored under one name, the last one counts.\<close>

lemma store_all_lookup:
  "invar t \<Longrightarrow> store_all t kvs = Inr t' \<Longrightarrow> lookup t' = lookup t ++ map_of (rev kvs)"
proof (induction kvs arbitrary: t)
  case Nil
  then show ?case by simp
next
  case (Cons kv kvs)
  then obtain u where u: "store t (fst kv) (snd kv) = Inr u" "store_all u kvs = Inr t'"
    by (auto simp: bnd_r_Inr_iff)
  have "lookup u = (lookup t)(fst kv \<mapsto> snd kv)"
    using store_lookup [OF Cons.prems(1) u(1)] by auto
  then show ?case
    using Cons.IH [OF store_invar [OF Cons.prems(1) u(1)] u(2)] by (simp add: map_add_upd_left fun_eq_iff map_add_def split: option.splits)
qed

lemma store_all_other:
  "invar t \<Longrightarrow> store_all t kvs = Inr t' \<Longrightarrow> n \<notin> fst ` set kvs \<Longrightarrow> lookup t' n = lookup t n"
  by (simp add: store_all_lookup map_add_dom_app_simps dom_map_of_conv_image_fst)

end

interpretation attrs: keyed_table attr_wf attr_lookup
  "\<lambda>ast name vt. ast_setattr ast name (fst vt) (snd vt)"
  by unfold_locales (auto simp: ast_setattr_wf ast_setattr_lookup)

section \<open>The iterator\<close>

definition iter_rest :: "attr_iter \<Rightarrow> attribute list" where
  "iter_rest iter = it_attr_at iter @
     (if it_attr_at iter = [] then []
      else concat (drop (Suc (it_table_i iter)) (take 15 (attrs_of (it_ast iter)))))"

lemma next_chain_rest:
  "iter_rest (next_chain ast i) = concat (drop i (take 15 (attrs_of ast))) \<and> it_ast (next_chain ast i) = ast"
proof (induction ast i rule: next_chain.induct)
  case (1 ast i)
  show ?case
  proof (cases "i < 15 \<and> i < length (attrs_of ast)")
    case True
    then have "i < length (take 15 (attrs_of ast))" by simp
    then have "concat (drop i (take 15 (attrs_of ast))) =
        attrs_of ast ! i @ concat (drop (Suc i) (take 15 (attrs_of ast)))"
      using True by (metis Cons_nth_drop_Suc concat.simps(2) nth_take)
    then show ?thesis
      using "1.IH" True
      by (subst (1 2) next_chain.simps) (auto simp: iter_rest_def AST_ATTRTABLE_CAPACITY_def)
  next
    case False
    then show ?thesis
      by (subst (1 2) next_chain.simps) (auto simp: iter_rest_def AST_ATTRTABLE_CAPACITY_def)
  qed
qed

lemma get_next_rest:
  "it_attr_at iter = e # es \<Longrightarrow>
   iter_rest iter = e # iter_rest (ast_attriter_get_next iter) \<and>
   it_ast (ast_attriter_get_next iter) = it_ast iter"
  using next_chain_rest [of "it_ast iter" "Suc (it_table_i iter)"]
  by (auto simp: ast_attriter_get_next_def iter_rest_def)

lemma iter_entries_rest: "length (iter_rest iter) < n \<Longrightarrow> iter_entries n iter = Inr (iter_rest iter)"
proof (induction n arbitrary: iter)
  case 0
  then show ?case by simp
next
  case (Suc n)
  show ?case
  proof (cases "it_attr_at iter")
    case Nil
    then show ?thesis by (simp add: iter_rest_def)
  next
    case (Cons e es)
    note step = get_next_rest [OF Cons]
    then have "iter_entries n (ast_attriter_get_next iter) =
        Inr (iter_rest (ast_attriter_get_next iter))"
      using Suc.prems by (intro Suc.IH) auto
    with Cons step show ?thesis by simp
  qed
qed

text \<open>The iteration meets the first 15 chains, from the first to the last.\<close>

lemma ast_attributes_concat: "ast_attributes ast = Inr (concat (take 15 (attrs_of ast)))"
proof -
  have "length (concat (take 15 (attrs_of ast))) \<le> length (concat (attrs_of ast))"
    by (metis append_take_drop_id concat_append le_add1 length_append)
  then show ?thesis
    using next_chain_rest [of ast 0]
    by (simp add: ast_attributes_def ast_attriter_init_def iter_entries_rest del: iter_entries.simps)
qed

lemma ast_attributes_all: "length (attrs_of ast) = 15 \<Longrightarrow> ast_attributes ast = Inr (concat (attrs_of ast))"
  by (simp add: ast_attributes_concat)

section \<open>Properties\<close>

text \<open>
  C20: after \<open>ast_setattr(ast, name, v, ty)\<close>, \<open>ast_getattr\<close> finds \<open>v\<close> under \<open>name\<close>, and under
  every other name what it found before, whatever the hashes of the names are.
\<close>

theorem ast_getattr_after_setattr:
  assumes "attr_wf ast" and "ast_setattr ast name v ty = Inr ast'"
  shows "ast_getattr ast' n = (if n = name then Inr (Some v) else ast_getattr ast n)"
  using assms attrs.store_lookup [of ast name "(v, ty)" ast' n] attrs.store_invar [of ast name "(v, ty)" ast']
  by (simp add: ast_getattr_lookup)

theorem ast_getattr_after_setattr_witness:
  "\<exists>ast'. ast_setattr (blank_ast Ast_Name 1 1) ''name'' (V_String ''x'') AstAttr_String = Inr ast' \<and>
     ast_getattr ast' ''name'' = Inr (Some (V_String ''x''))"
proof -
  obtain ast' where "ast_setattr (blank_ast Ast_Name 1 1) ''name'' (V_String ''x'') AstAttr_String = Inr ast'"
    using ast_setattr_total [OF attr_wf_blank, of Ast_Name 1 1 "''name''"] by (auto simp: blank_ast_def)
  with ast_getattr_after_setattr [OF attr_wf_blank this, of "''name''"] show ?thesis by simp
qed

text \<open>
  C37: \<open>ast_setattr\<close> fails its assertion exactly when the name is new and the node already has
  15 attributes; there is no other failure.
\<close>

theorem ast_setattr_fails_iff_full:
  assumes "attr_wf ast"
  shows "ast_setattr ast name v ty = Inl f \<longleftrightarrow>
    f = Assert_failed \<and> ast_getattr ast name = Inr None \<and> 15 \<le> attr_count_of ast"
proof -
  obtain h where h: "attr_hash name = Inr h" "h < 15" by (rule attr_hash_defined)
  show ?thesis
    using ast_setattr_cases [OF assms h, of v ty] ast_getattr_lookup [OF assms] h
    by (auto simp: attr_lookup_def split: option.splits)
qed

theorem ast_setattr_fails_iff_full_witness:
  "ast_setattr (blank_ast Ast_Name 1 1) ''name'' (V_Integer 1) AstAttr_Integer \<noteq> Inl Assert_failed"
  using ast_setattr_fails_iff_full [OF attr_wf_blank, of Ast_Name 1 1 "''name''" "V_Integer 1"
      AstAttr_Integer Assert_failed]
  by (simp add: blank_ast_def)

lemma attr_entries_distinct:
  assumes wf: "attr_wf ast"
  shows "distinct (map attr_name (concat (attrs_of ast)))"
proof -
  have "distinct (map attr_name (concat bs))"
    if "\<forall>i < length bs. distinct (map attr_name (bs ! i))"
      "\<forall>i < length bs. \<forall>e \<in> set (bs ! i). attr_hash (attr_name e) = Inr (i + off)" for bs off
    using that
  proof (induction bs arbitrary: off)
    case (Cons b bs)
    have rest: "distinct (map attr_name b)" "\<forall>i < length bs. distinct (map attr_name (bs ! i))"
      "\<forall>e \<in> set b. attr_hash (attr_name e) = Inr off"
      "\<forall>i < length bs. \<forall>e \<in> set (bs ! i). attr_hash (attr_name e) = Inr (i + Suc off)"
      using Cons.prems by (auto simp: All_less_Suc2)
    have "attr_hash (attr_name e) \<noteq> Inr off" if e: "e \<in> set (concat bs)" for e
    proof -
      obtain c where c: "c \<in> set bs" "e \<in> set c" using e by auto
      then obtain i where "i < length bs" "bs ! i = c" by (auto simp: in_set_conv_nth)
      with c rest(4) show ?thesis by auto
    qed
    then show ?case using rest(1,3) Cons.IH [OF rest(2,4)] by fastforce
  qed simp
  from this [of "attrs_of ast" 0] wf show ?thesis by (simp add: attr_wf_def)
qed

lemma attr_lookup_entries:
  assumes wf: "attr_wf ast"
  shows "attr_lookup ast n = Some (v, ty) \<longleftrightarrow> Attribute ty n v \<in> set (concat (attrs_of ast))"
proof -
  obtain h where h: "attr_hash n = Inr h" "h < 15" by (rule attr_hash_defined)
  have len: "length (attrs_of ast) = 15" using wf by (simp add: attr_wf_def)
  have chain: "find_attr es n = Some e \<longleftrightarrow> e \<in> set es \<and> attr_name e = n"
    if "distinct (map attr_name es)" for es e
    using that by (induction es) (auto simp: image_iff)
  have d: "distinct (map attr_name (attrs_of ast ! h))" using wf h by (simp add: attr_wf_def)
  have "Attribute ty n v \<in> set (concat (attrs_of ast)) \<longleftrightarrow> Attribute ty n v \<in> set (attrs_of ast ! h)"
  proof
    assume "Attribute ty n v \<in> set (concat (attrs_of ast))"
    then obtain c where c: "c \<in> set (attrs_of ast)" "Attribute ty n v \<in> set c" by auto
    then obtain i where i: "i < 15" "attrs_of ast ! i = c" using len by (auto simp: in_set_conv_nth)
    then have "attr_hash n = Inr i" using wf c by (fastforce simp: attr_wf_def)
    with h i c show "Attribute ty n v \<in> set (attrs_of ast ! h)" by simp
  qed (use h len in auto)
  also have "\<dots> \<longleftrightarrow> find_attr (attrs_of ast ! h) n = Some (Attribute ty n v)"
    using chain [OF d] by simp
  also have "\<dots> \<longleftrightarrow> attr_lookup ast n = Some (v, ty)"
  proof (cases "find_attr (attrs_of ast ! h) n")
    case (Some e)
    then have "attr_name e = n" using chain [OF d] by simp
    with Some h show ?thesis by (cases e) (auto simp: attr_lookup_def)
  qed (use h in \<open>simp add: attr_lookup_def\<close>)
  finally show ?thesis by simp
qed

text \<open>
  C21: the loop over \<open>ast_attriter_init\<close> and \<open>ast_attriter_get_next\<close> ends and meets every
  attribute of the node exactly once, with the value and type \<open>ast_setattr\<close> stored last.
\<close>

theorem ast_iterator_enumerates:
  assumes "attr_wf ast"
  shows "\<exists>es. ast_attributes ast = Inr es \<and> distinct (map attr_name es) \<and>
    (\<forall>ty n v. Attribute ty n v \<in> set es \<longleftrightarrow> attr_lookup ast n = Some (v, ty)) \<and>
    attr_count_of ast = int (length es)"
proof (intro exI conjI)
  show "ast_attributes ast = Inr (concat (attrs_of ast))"
    using assms by (intro ast_attributes_all) (simp add: attr_wf_def)
  show "distinct (map attr_name (concat (attrs_of ast)))" by (rule attr_entries_distinct [OF assms])
  show "\<forall>ty n v. Attribute ty n v \<in> set (concat (attrs_of ast)) \<longleftrightarrow> attr_lookup ast n = Some (v, ty)"
    using attr_lookup_entries [OF assms] by blast
  show "attr_count_of ast = int (length (concat (attrs_of ast)))" using assms by (simp add: attr_wf_def)
qed

theorem ast_iterator_enumerates_witness: "\<exists>es. ast_attributes (blank_ast Ast_Name 1 1) = Inr es"
  using ast_iterator_enumerates [OF attr_wf_blank, of Ast_Name 1 1] by blast

end
