(* ===== verification/Token.thy ===== *)
theory Token
  imports UArray
begin

text \<open>
  token.h: the token classes and \<open>struct Token\<close>. The union of the token is used for integers
  only (its string member is never read), so the record has the three integer fields:
  \<open>flags\<close> is the bit set of AstIntegerFlags, \<open>width\<close> and \<open>value\<close> are what the lexer stored.
\<close>

datatype (plugins only: code size) token_class =
    Token_None | Token_Semicolon | Token_Identifier | Token_TypeIdentifier | Token_String
   | Token_Integer | Token_ParenthOpen | Token_ParenthClose | Token_AngleOpen
   | Token_AngleClose | Token_BraceOpen | Token_BraceClose | Token_BracketOpen
   | Token_BracketClose | Token_Dontcare | Token_Colon | Token_DotPrefix | Token_Comma
   | Token_Minus | Token_UnaryMinus | Token_Plus | Token_Star | Token_Slash | Token_Equal
   | Token_TwoEqual | Token_ExclamationEqual | Token_Exclamation | Token_TwoPipe
   | Token_AngleOpenEqual | Token_AngleCloseEqual | Token_Tilda | Token_Ampersand
   | Token_TwoAmpersand | Token_ThreeAmpersand | Token_Pipe | Token_Circumflex
   | Token_TwoAngleOpen | Token_TwoAngleClose | Token_Comment | Token_Action | Token_Actions
   | Token_Enum | Token_In | Token_Package | Token_Select | Token_Switch | Token_Tuple
   | Token_Void | Token_Apply | Token_Control | Token_Error | Token_Header | Token_InOut
   | Token_Parser | Token_State | Token_Table | Token_Entries | Token_Key | Token_Typedef
   | Token_Type | Token_Bool | Token_True | Token_False | Token_Default | Token_Extern
   | Token_HeaderUnion | Token_Int | Token_Bit | Token_Varbit | Token_Out
   | Token_StringLiteral | Token_Transition | Token_Else | Token_Exit | Token_If
   | Token_MatchKind | Token_Return | Token_Struct | Token_Const | Token_Unknown
   | Token_StartOfInput | Token_EndOfInput | Token_LexicalError

text \<open>The bits of \<open>enum AstIntegerFlags\<close>.\<close>

definition AstInteger_HasWidth :: u32 where "AstInteger_HasWidth = 1"
definition AstInteger_IsSigned :: u32 where "AstInteger_IsSigned = 2"

record token =
  klass :: token_class
  lexeme :: string
  tk_line_nr :: int
  i_flags :: u32
  i_width :: int
  i_value :: int

text \<open>\<open>memset(token, 0, sizeof(*token))\<close>.\<close>

definition zero_token :: token where
  "zero_token = \<lparr>klass = Token_None, lexeme = [], tk_line_nr = 0,
     i_flags = 0, i_width = 0, i_value = 0\<rparr>"

end
