(* ===== verification/Symtab.thy ===== *)
theory Symtab
  imports Hash Token
begin

text \<open>
  symtable.c: the symbol table, a hash table of entries, one per name, each with three stacks
  of symbols (keyword, type, identifier) linked by \<open>next_in_scope\<close>. A stack is the list of
  its symbols, the current one first; a chain of entries (\<open>next_entry\<close>) is a list too. The
  array of chains is the list of its elements (interface \<open>growable_array\<close> of UArray).

  The \<open>ast\<close> of a symbol is stored and never read; it is the id of the node here (0 for the
  null pointer of a keyword). Memory is not counted, with one exception: the temporary array
  of \<open>get_symtable_entry\<close> is asked for with a size in elements instead of bytes, and the model
  has the number of bytes it gets, so that a write past it is a \<open>Bad_access\<close>.
\<close>

datatype symbol_kind = Symbol_None | Symbol_Keyword | Symbol_Type | Symbol_Ident

record symbol =
  ident_kind :: symbol_kind
  sym_name :: string
  sym_scope_level :: int
  sym_ast :: int
  sym_token_klass :: token_class

record symtable_entry =
  ent_name :: string
  id_kw :: "symbol list"
  id_type :: "symbol list"
  id_ident :: "symbol list"

text \<open>\<open>page_bytes\<close> is the static \<open>page_size\<close> of arena.c.\<close>

record symtable =
  st_buckets :: "symtable_entry list list"
  capacity_log2 :: nat
  capacity_of :: int
  entry_count :: int
  scope_level :: int
  page_bytes :: int

section \<open>Scopes\<close>

definition push_scope :: "symtable \<Rightarrow> symtable" where
  "push_scope st = st\<lparr>scope_level := scope_level st + 1\<rparr>"

definition scope_delete_symbol :: "int \<Rightarrow> symbol list \<Rightarrow> symbol list result" where
  "scope_delete_symbol level syms =
     (case syms of
        [] \<Rightarrow> Inr []
      | s # rest \<Rightarrow>
          (if sym_scope_level s > level - 1 then
             (case rest of
                [] \<Rightarrow> Inr []
              | t # _ \<Rightarrow> if sym_scope_level t \<le> level then Inr rest else Inl Assert_failed)
           else Inr []))"

definition pop_entry :: "int \<Rightarrow> symtable_entry \<Rightarrow> symtable_entry result" where
  "pop_entry level e =
     bnd_r (scope_delete_symbol level (id_kw e)) (\<lambda>kw.
     bnd_r (scope_delete_symbol level (id_type e)) (\<lambda>ty.
     bnd_r (scope_delete_symbol level (id_ident e)) (\<lambda>idt.
     Inr (e\<lparr>id_kw := kw, id_type := ty, id_ident := idt\<rparr>))))"

primrec map_r :: "('a \<Rightarrow> 'b result) \<Rightarrow> 'a list \<Rightarrow> 'b list result" where
  "map_r f [] = Inr []"
| "map_r f (x # xs) = bnd_r (f x) (\<lambda>y. bnd_r (map_r f xs) (\<lambda>ys. Inr (y # ys)))"

definition pop_scope :: "symtable \<Rightarrow> symtable result" where
  "pop_scope st =
     (if scope_level st > 0 then
        (if capacity_of st \<le> int (length (st_buckets st)) then
           bnd_r (map_r (map_r (pop_entry (scope_level st)))
                    (take (nat (capacity_of st)) (st_buckets st))) (\<lambda>popped.
           Inr (st\<lparr>st_buckets := popped @ drop (nat (capacity_of st)) (st_buckets st),
                  scope_level := scope_level st - 1\<rparr>))
         else Inl Assert_failed)
      else Inl Assert_failed)"

section \<open>Entries\<close>

primrec find_entry :: "symtable_entry list \<Rightarrow> string \<Rightarrow> symtable_entry option" where
  "find_entry [] name = None"
| "find_entry (e # es) name = (if ent_name e = name then Some e else find_entry es name)"

primrec update_entry ::
  "(symtable_entry \<Rightarrow> symtable_entry) \<Rightarrow> string \<Rightarrow> symtable_entry list \<Rightarrow> symtable_entry list" where
  "update_entry f name [] = []"
| "update_entry f name (e # es) = (if ent_name e = name then f e # es else e # update_entry f name es)"

definition bucket_index :: "string \<Rightarrow> nat \<Rightarrow> nat result" where
  "bucket_index name k = bnd_r (hash_string name (word_of_nat k)) (\<lambda>h. Inr (unat h))"

text \<open>An access to the array of chains asserts that the index is in range.\<close>

definition bucket_at :: "symtable \<Rightarrow> nat \<Rightarrow> symtable_entry list result" where
  "bucket_at st h = (if h < length (st_buckets st) then Inr (st_buckets st ! h) else Inl Assert_failed)"

definition bucket_set :: "symtable \<Rightarrow> nat \<Rightarrow> symtable_entry list \<Rightarrow> symtable result" where
  "bucket_set st h es =
     (if h < length (st_buckets st) then Inr (st\<lparr>st_buckets := (st_buckets st)[h := es]\<rparr>)
      else Inl Assert_failed)"

text \<open>The bytes of the pages a fresh arena gets for a request of \<open>n\<close> bytes.\<close>

definition fresh_bytes :: "int \<Rightarrow> int \<Rightarrow> int" where
  "fresh_bytes page n = page * ((n + page - 1) div page)"

definition SIZEOF_POINTER :: int where "SIZEOF_POINTER = 8"

text \<open>The loop that puts the saved entries back, at the front of their chains.\<close>

primrec reinsert :: "symtable_entry list \<Rightarrow> symtable \<Rightarrow> symtable result" where
  "reinsert [] st = Inr st"
| "reinsert (e # es) st =
     bnd_r (bucket_index (ent_name e) (capacity_log2 st)) (\<lambda>h.
     bnd_r (bucket_at st h) (\<lambda>chain.
     bnd_r (bucket_set st h (e # chain)) (\<lambda>st'. reinsert es st')))"

text \<open>
  \<open>get_symtable_entry\<close> when \<open>entry_count >= capacity\<close>: the entries are saved, the array is
  extended and cleared, the entries are put back under the new capacity. The shift
  \<open>1 << capacity_log2\<close> is on \<open>int\<close>.
\<close>

definition grow_symtable :: "symtable \<Rightarrow> symtable result" where
  "grow_symtable st =
     (if capacity_of st \<le> int (length (st_buckets st)) then
        (let saved = concat (take (nat (capacity_of st)) (st_buckets st));
             k = capacity_log2 st + 1;
             cap = 2 ^ k - 1;
             len = int (length (st_buckets st)) + (cap - entry_count st)
         in if SIZEOF_POINTER * int (length saved) > fresh_bytes (page_bytes st) (capacity_of st)
            then Inl Bad_access
            else if int (length saved) \<noteq> entry_count st then Inl Assert_failed
            else if k \<ge> 31 then Inl Bad_access
            else if len < cap then Inl Assert_failed
            else reinsert saved
                   (st\<lparr>capacity_log2 := k, capacity_of := cap,
                      st_buckets := replicate (nat cap) [] @ replicate (nat len - nat cap) []\<rparr>))
      else Inl Assert_failed)"

definition null_entry :: "string \<Rightarrow> symtable_entry" where
  "null_entry name = \<lparr>ent_name = name, id_kw = [], id_type = [], id_ident = []\<rparr>"

definition insert_entry :: "string \<Rightarrow> symtable \<Rightarrow> (symtable_entry \<times> symtable) result" where
  "insert_entry name st =
     bnd_r (bucket_index name (capacity_log2 st)) (\<lambda>h.
     bnd_r (bucket_at st h) (\<lambda>chain.
     bnd_r (bucket_set st h (null_entry name # chain)) (\<lambda>st'.
     Inr (null_entry name, st'\<lparr>entry_count := entry_count st' + 1\<rparr>))))"

definition get_symtable_entry :: "string \<Rightarrow> (symtable, symtable_entry) cmd" where
  "get_symtable_entry name = (\<lambda>st.
     bnd_r (bucket_index name (capacity_log2 st)) (\<lambda>h.
     bnd_r (bucket_at st h) (\<lambda>chain.
     case find_entry chain name of
       Some e \<Rightarrow> Inr (e, st)
     | None \<Rightarrow>
         bnd_r (if entry_count st \<ge> capacity_of st then grow_symtable st else Inr st) (\<lambda>st'.
         insert_entry name st'))))"

text \<open>A store through the pointer that \<open>get_symtable_entry\<close> returned.\<close>

definition store_entry :: "string \<Rightarrow> (symtable_entry \<Rightarrow> symtable_entry) \<Rightarrow> (symtable, unit) cmd" where
  "store_entry name f = (\<lambda>st.
     bnd_r (bucket_index name (capacity_log2 st)) (\<lambda>h.
     bnd_r (bucket_at st h) (\<lambda>chain.
     bnd_r (bucket_set st h (update_entry f name chain)) (\<lambda>st'. Inr ((), st')))))"

definition declared_in :: "int \<Rightarrow> symbol list \<Rightarrow> bool" where
  "declared_in level syms = (case syms of [] \<Rightarrow> False | s # _ \<Rightarrow> sym_scope_level s \<ge> level)"

definition name_is_declared :: "string \<Rightarrow> symbol_kind \<Rightarrow> (symtable, bool) cmd" where
  "name_is_declared name kind =
     bnd (get_symtable_entry name) (\<lambda>e.
     bnd (gets scope_level) (\<lambda>level.
     if kind = Symbol_Keyword then ret (declared_in level (id_kw e))
     else if kind = Symbol_Type then ret (declared_in level (id_type e))
     else if kind = Symbol_Ident then ret (declared_in level (id_ident e))
     else fail Assert_failed))"

definition new_type :: "string \<Rightarrow> int \<Rightarrow> int \<Rightarrow> (symtable, symbol) cmd" where
  "new_type name ast line =
     bnd (get_symtable_entry name) (\<lambda>_.
     bnd (gets (\<lambda>st. \<lparr>ident_kind = Symbol_Type, sym_name = name, sym_scope_level = scope_level st,
                     sym_ast = ast, sym_token_klass = Token_None\<rparr>)) (\<lambda>sym.
     bnd (store_entry name (\<lambda>e. e\<lparr>id_type := sym # id_type e\<rparr>)) (\<lambda>_. ret sym)))"

definition new_ident :: "string \<Rightarrow> int \<Rightarrow> int \<Rightarrow> (symtable, symbol) cmd" where
  "new_ident name ast line =
     bnd (get_symtable_entry name) (\<lambda>_.
     bnd (gets (\<lambda>st. \<lparr>ident_kind = Symbol_Ident, sym_name = name, sym_scope_level = scope_level st,
                     sym_ast = ast, sym_token_klass = Token_None\<rparr>)) (\<lambda>sym.
     bnd (store_entry name (\<lambda>e. e\<lparr>id_ident := sym # id_ident e\<rparr>)) (\<lambda>_. ret sym)))"

definition add_keyword :: "string \<Rightarrow> token_class \<Rightarrow> (symtable, unit) cmd" where
  "add_keyword name k =
     bnd (get_symtable_entry name) (\<lambda>e.
     bnd (assert_cmd (id_kw e = [])) (\<lambda>_.
     bnd (gets (\<lambda>st. \<lparr>ident_kind = Symbol_Keyword, sym_name = name, sym_scope_level = scope_level st,
                     sym_ast = 0, sym_token_klass = k\<rparr>)) (\<lambda>sym.
     store_entry name (\<lambda>e. e\<lparr>id_kw := [sym]\<rparr>))))"

definition keyword_table :: "(string \<times> token_class) list" where
  "keyword_table =
     [(''action'', Token_Action), (''actions'', Token_Actions), (''entries'', Token_Entries),
      (''enum'', Token_Enum), (''in'', Token_In), (''package'', Token_Package),
      (''select'', Token_Select), (''switch'', Token_Switch), (''tuple'', Token_Tuple),
      (''control'', Token_Control), (''error'', Token_Error), (''header'', Token_Header),
      (''inout'', Token_InOut), (''parser'', Token_Parser), (''state'', Token_State),
      (''table'', Token_Table), (''key'', Token_Key), (''typedef'', Token_Typedef),
      (''type'', Token_Type), (''default'', Token_Default), (''extern'', Token_Extern),
      (''header_union'', Token_HeaderUnion), (''out'', Token_Out),
      (''transition'', Token_Transition), (''else'', Token_Else), (''exit'', Token_Exit),
      (''if'', Token_If), (''match_kind'', Token_MatchKind), (''return'', Token_Return),
      (''struct'', Token_Struct), (''apply'', Token_Apply), (''const'', Token_Const),
      (''bool'', Token_Bool), (''true'', Token_True), (''false'', Token_False),
      (''void'', Token_Void), (''int'', Token_Int), (''bit'', Token_Bit),
      (''varbit'', Token_Varbit), (''string'', Token_String)]"

primrec add_keywords :: "(string \<times> token_class) list \<Rightarrow> (symtable, unit) cmd" where
  "add_keywords [] = ret ()"
| "add_keywords (kw # kws) = bnd (add_keyword (fst kw) (snd kw)) (\<lambda>_. add_keywords kws)"

definition add_all_keywords :: "(symtable, unit) cmd" where
  "add_all_keywords = add_keywords keyword_table"

text \<open>
  \<open>symtable_init\<close>: the array is made afresh, then one null chain is appended for each index
  from \<open>entry_count\<close> (0 at both calls) to the capacity.
\<close>

definition symtable_init :: "(symtable, unit) cmd" where
  "symtable_init = (\<lambda>st.
     if capacity_log2 st < 31 then
       (let cap = 2 ^ capacity_log2 st - 1 in
        add_all_keywords (st\<lparr>capacity_of := cap,
          st_buckets := replicate (nat (cap - entry_count st)) []\<rparr>))
     else Inl Bad_access)"

definition symtable_flush :: "(symtable, unit) cmd" where
  "symtable_flush =
     bnd (modify (\<lambda>st. st\<lparr>entry_count := 0, scope_level := 0\<rparr>)) (\<lambda>_. symtable_init)"

text \<open>The static initialisers of the file.\<close>

definition symtable_start :: "int \<Rightarrow> symtable" where
  "symtable_start page =
     \<lparr>st_buckets = [], capacity_log2 = 5, capacity_of = 0, entry_count = 0, scope_level = 0,
      page_bytes = page\<rparr>"

end
