(* ===== verification/ParseBase.thy ===== *)
theory ParseBase
  imports AstTab Symtab
begin

text \<open>
  build_ast.c, the ground of the parser: its static variables, the token cursor with the
  reclassification of identifiers, the tests of the lookahead, and node construction.

  \<open>token\<close> always points at \<open>tokens_array[token_at]\<close>, so the state has the index alone; a
  change of a token's class is an update of the list. An \<open>error(...)\<close> ends the process, so the
  nested \<open>if (test) \<open>...\<close> else error(...)\<close> of the source is a sequence here: test, continue.
  \<open>expect k msg\<close> is \<open>if (token->klass == k) next_token(); else error(msg)\<close>.

  Nodes are values: setting an attribute gives a new tree. Nodes, lists, links and attributes are taken to
  find memory: the exit with ``Out of memory'' that every \<open>arena_push\<close> of the parser may take is left out, so a run of
  the program can end earlier than here, and never goes on longer. A list begins empty, as the \<open>memset\<close> before
  \<open>ast_list_init\<close> leaves it.
\<close>

record parser =
  ps_tokens :: "token list"
  token_at :: nat
  prev_token_at :: nat
  node_id :: int
  node_count :: int
  ps_symtable :: symtable

type_synonym 'a P = "(parser, 'a) cmd"

definition symtable_cmd :: "(symtable, 'a) cmd \<Rightarrow> 'a P" where
  "symtable_cmd m = (\<lambda>s.
     case m (ps_symtable s) of
       Inl f \<Rightarrow> Inl f
     | Inr (x, st) \<Rightarrow> Inr (x, s\<lparr>ps_symtable := st\<rparr>))"

section \<open>The token cursor\<close>

definition current_token :: "token P" where
  "current_token = (\<lambda>s. lift (rd (ps_tokens s) (token_at s)) s)"

text \<open>From index \<open>i\<close> on, the first token that is no comment; \<open>array_get\<close> asserts its index.\<close>

function skip_comments :: "token list \<Rightarrow> nat \<Rightarrow> nat result" where
  "skip_comments ts i =
     (if i < length ts then
        (if klass (ts ! i) = Token_Comment then skip_comments ts (Suc i) else Inr i)
      else Inl Assert_failed)"
  by pat_completeness auto
termination
  by (relation "measure (\<lambda>(ts, i). length ts - i)") auto

declare skip_comments.simps [simp del]

text \<open>The class an identifier gets from its symbol table entry.\<close>

definition identifier_class :: "symtable_entry \<Rightarrow> token_class" where
  "identifier_class e =
     (if id_kw e \<noteq> [] \<and> ident_kind (hd (id_kw e)) = Symbol_Keyword then
        sym_token_klass (hd (id_kw e))
      else if id_type e \<noteq> [] \<and> ident_kind (hd (id_type e)) = Symbol_Type then
        Token_TypeIdentifier
      else Token_Identifier)"

definition set_token_class :: "token_class \<Rightarrow> unit P" where
  "set_token_class k = modify (\<lambda>s.
     s\<lparr>ps_tokens := (ps_tokens s)[token_at s := (ps_tokens s ! token_at s)\<lparr>klass := k\<rparr>]\<rparr>)"

definition next_tok :: "unit P" where
  "next_tok =
     bnd (gets (\<lambda>s. token_at s < length (ps_tokens s))) (\<lambda>ok.
     bnd (assert_cmd ok) (\<lambda>_.
     bnd (modify (\<lambda>s. s\<lparr>prev_token_at := token_at s\<rparr>)) (\<lambda>_.
     bnd ((\<lambda>s. lift (skip_comments (ps_tokens s) (Suc (token_at s))) s)) (\<lambda>i.
     bnd (modify (\<lambda>s. s\<lparr>token_at := i\<rparr>)) (\<lambda>_.
     bnd current_token (\<lambda>t.
     if klass t = Token_Identifier then
          bnd (symtable_cmd (get_symtable_entry (lexeme t))) (\<lambda>entry.
          set_token_class (identifier_class entry))
        else ret ()))))))"

definition peek_token :: "token P" where
  "peek_token =
     bnd (modify (\<lambda>s. s\<lparr>prev_token_at := token_at s\<rparr>)) (\<lambda>_.
     bnd next_tok (\<lambda>_.
     bnd current_token (\<lambda>t.
     bnd (modify (\<lambda>s. s\<lparr>token_at := prev_token_at s\<rparr>)) (\<lambda>_.
     ret t))))"

section \<open>Tests of a token\<close>

definition token_is_typeName :: "token \<Rightarrow> bool" where
  "token_is_typeName t \<longleftrightarrow> klass t = Token_TypeIdentifier \<or> klass t = Token_DotPrefix"

definition token_is_prefixedType :: "token \<Rightarrow> bool" where
  "token_is_prefixedType t \<longleftrightarrow> klass t = Token_TypeIdentifier \<or> klass t = Token_DotPrefix"

definition token_is_baseType :: "token \<Rightarrow> bool" where
  "token_is_baseType t \<longleftrightarrow>
     klass t = Token_Bool \<or> klass t = Token_Error \<or> klass t = Token_Int \<or>
     klass t = Token_Bit \<or> klass t = Token_Varbit \<or> klass t = Token_String"

definition token_is_typeRef :: "token \<Rightarrow> bool" where
  "token_is_typeRef t \<longleftrightarrow>
     token_is_baseType t \<or> token_is_prefixedType t \<or> klass t = Token_Tuple"

definition token_is_direction :: "token \<Rightarrow> bool" where
  "token_is_direction t \<longleftrightarrow>
     klass t = Token_In \<or> klass t = Token_Out \<or> klass t = Token_InOut"

definition token_is_parameter :: "token \<Rightarrow> bool" where
  "token_is_parameter t \<longleftrightarrow> token_is_direction t \<or> token_is_typeRef t"

definition token_is_derivedTypeDeclaration :: "token \<Rightarrow> bool" where
  "token_is_derivedTypeDeclaration t \<longleftrightarrow>
     klass t = Token_Header \<or> klass t = Token_HeaderUnion \<or> klass t = Token_Struct \<or>
     klass t = Token_Enum"

definition token_is_typeDeclaration :: "token \<Rightarrow> bool" where
  "token_is_typeDeclaration t \<longleftrightarrow>
     token_is_derivedTypeDeclaration t \<or> klass t = Token_Typedef \<or> klass t = Token_Type \<or>
     klass t = Token_Parser \<or> klass t = Token_Control \<or> klass t = Token_Package"

definition token_is_nonTypeName :: "token \<Rightarrow> bool" where
  "token_is_nonTypeName t \<longleftrightarrow>
     klass t = Token_Identifier \<or> klass t = Token_Apply \<or> klass t = Token_Key \<or>
     klass t = Token_Actions \<or> klass t = Token_State \<or> klass t = Token_Entries \<or>
     klass t = Token_Type"

definition token_is_name :: "token \<Rightarrow> bool" where
  "token_is_name t \<longleftrightarrow> token_is_nonTypeName t \<or> klass t = Token_TypeIdentifier"

definition token_is_nonTableKwName :: "token \<Rightarrow> bool" where
  "token_is_nonTableKwName t \<longleftrightarrow>
     klass t = Token_Identifier \<or> klass t = Token_TypeIdentifier \<or> klass t = Token_Apply \<or>
     klass t = Token_State \<or> klass t = Token_Type"

definition token_is_typeArg :: "token \<Rightarrow> bool" where
  "token_is_typeArg t \<longleftrightarrow>
     klass t = Token_Dontcare \<or> token_is_typeRef t \<or> token_is_nonTypeName t"

definition token_is_typeParameterList :: "token \<Rightarrow> bool" where
  "token_is_typeParameterList t \<longleftrightarrow> token_is_name t"

definition token_is_typeOrVoid :: "token \<Rightarrow> bool" where
  "token_is_typeOrVoid t \<longleftrightarrow>
     token_is_typeRef t \<or> klass t = Token_Void \<or> klass t = Token_Identifier"

definition token_is_actionRef :: "token \<Rightarrow> bool" where
  "token_is_actionRef t \<longleftrightarrow>
     klass t = Token_DotPrefix \<or> token_is_nonTypeName t \<or> klass t = Token_ParenthOpen"

definition token_is_tableProperty :: "token \<Rightarrow> bool" where
  "token_is_tableProperty t \<longleftrightarrow>
     klass t = Token_Key \<or> klass t = Token_Actions \<or> klass t = Token_Const \<or>
     klass t = Token_Entries \<or> token_is_nonTableKwName t"

definition token_is_switchLabel :: "token \<Rightarrow> bool" where
  "token_is_switchLabel t \<longleftrightarrow> token_is_name t \<or> klass t = Token_Default"

definition token_is_expressionPrimary :: "token \<Rightarrow> bool" where
  "token_is_expressionPrimary t \<longleftrightarrow>
     klass t = Token_Integer \<or> klass t = Token_True \<or> klass t = Token_False \<or>
     klass t = Token_StringLiteral \<or> klass t = Token_DotPrefix \<or> token_is_nonTypeName t \<or>
     klass t = Token_BraceOpen \<or> klass t = Token_ParenthOpen \<or> klass t = Token_Exclamation \<or>
     klass t = Token_Tilda \<or> klass t = Token_UnaryMinus \<or> token_is_typeName t \<or>
     klass t = Token_Error \<or> token_is_prefixedType t"

definition token_is_expression :: "token \<Rightarrow> bool" where
  "token_is_expression t \<longleftrightarrow> token_is_expressionPrimary t"

definition token_is_methodPrototype :: "token \<Rightarrow> bool" where
  "token_is_methodPrototype t \<longleftrightarrow> token_is_typeOrVoid t \<or> klass t = Token_TypeIdentifier"

definition token_is_structField :: "token \<Rightarrow> bool" where
  "token_is_structField t \<longleftrightarrow> token_is_typeRef t"

definition token_is_specifiedIdentifier :: "token \<Rightarrow> bool" where
  "token_is_specifiedIdentifier t \<longleftrightarrow> token_is_name t"

definition token_is_declaration :: "token \<Rightarrow> bool" where
  "token_is_declaration t \<longleftrightarrow>
     klass t = Token_Const \<or> klass t = Token_Extern \<or> klass t = Token_Action \<or>
     klass t = Token_Parser \<or> token_is_typeDeclaration t \<or> klass t = Token_Control \<or>
     token_is_typeRef t \<or> klass t = Token_Error \<or> klass t = Token_MatchKind \<or>
     token_is_typeOrVoid t \<or> klass t = Token_DotPrefix"

definition token_is_lvalue :: "token \<Rightarrow> bool" where
  "token_is_lvalue t \<longleftrightarrow> token_is_nonTypeName t \<or> klass t = Token_DotPrefix"

definition token_is_assignmentOrMethodCallStatement :: "token \<Rightarrow> bool" where
  "token_is_assignmentOrMethodCallStatement t \<longleftrightarrow>
     token_is_lvalue t \<or> klass t = Token_ParenthOpen \<or> klass t = Token_AngleOpen \<or>
     klass t = Token_Equal"

definition token_is_statement :: "token \<Rightarrow> bool" where
  "token_is_statement t \<longleftrightarrow>
     token_is_assignmentOrMethodCallStatement t \<or> token_is_typeName t \<or> klass t = Token_If \<or>
     klass t = Token_Semicolon \<or> klass t = Token_BraceOpen \<or> klass t = Token_Exit \<or>
     klass t = Token_Return \<or> klass t = Token_Switch"

definition token_is_statementOrDeclaration :: "token \<Rightarrow> bool" where
  "token_is_statementOrDeclaration t \<longleftrightarrow>
     token_is_typeRef t \<or> klass t = Token_Const \<or> token_is_statement t"

definition token_is_argument :: "token \<Rightarrow> bool" where
  "token_is_argument t \<longleftrightarrow>
     token_is_expression t \<or> token_is_name t \<or> klass t = Token_Dontcare"

definition token_is_parserLocalElement :: "token \<Rightarrow> bool" where
  "token_is_parserLocalElement t \<longleftrightarrow> klass t = Token_Const \<or> token_is_typeRef t"

definition token_is_parserStatement :: "token \<Rightarrow> bool" where
  "token_is_parserStatement t \<longleftrightarrow>
     token_is_assignmentOrMethodCallStatement t \<or> token_is_typeName t \<or>
     klass t = Token_BraceOpen \<or> klass t = Token_Const \<or> token_is_typeRef t \<or>
     klass t = Token_Semicolon"

definition token_is_simpleKeysetExpression :: "token \<Rightarrow> bool" where
  "token_is_simpleKeysetExpression t \<longleftrightarrow>
     token_is_expression t \<or> klass t = Token_Default \<or> klass t = Token_Dontcare"

definition token_is_keysetExpression :: "token \<Rightarrow> bool" where
  "token_is_keysetExpression t \<longleftrightarrow>
     klass t = Token_Tuple \<or> token_is_simpleKeysetExpression t"

definition token_is_selectCase :: "token \<Rightarrow> bool" where
  "token_is_selectCase t \<longleftrightarrow> token_is_keysetExpression t"

definition token_is_controlLocalDeclaration :: "token \<Rightarrow> bool" where
  "token_is_controlLocalDeclaration t \<longleftrightarrow>
     klass t = Token_Const \<or> klass t = Token_Action \<or> klass t = Token_Table \<or>
     token_is_typeRef t \<or> token_is_typeRef t"

definition token_is_realTypeArg :: "token \<Rightarrow> bool" where
  "token_is_realTypeArg t \<longleftrightarrow> klass t = Token_Dontcare \<or> token_is_typeRef t"

definition token_is_binaryOperator :: "token \<Rightarrow> bool" where
  "token_is_binaryOperator t \<longleftrightarrow>
     klass t = Token_Star \<or> klass t = Token_Slash \<or> klass t = Token_Plus \<or>
     klass t = Token_Minus \<or> klass t = Token_AngleOpenEqual \<or> klass t = Token_AngleCloseEqual \<or>
     klass t = Token_AngleOpen \<or> klass t = Token_AngleClose \<or>
     klass t = Token_ExclamationEqual \<or> klass t = Token_TwoEqual \<or> klass t = Token_TwoPipe \<or>
     klass t = Token_TwoAmpersand \<or> klass t = Token_Pipe \<or> klass t = Token_Ampersand \<or>
     klass t = Token_Circumflex \<or> klass t = Token_TwoAngleOpen \<or>
     klass t = Token_TwoAngleClose \<or> klass t = Token_ThreeAmpersand \<or> klass t = Token_Equal"

definition token_is_exprOperator :: "token \<Rightarrow> bool" where
  "token_is_exprOperator t \<longleftrightarrow>
     token_is_binaryOperator t \<or> klass t = Token_DotPrefix \<or> klass t = Token_BracketOpen \<or>
     klass t = Token_ParenthOpen \<or> klass t = Token_AngleOpen"

section \<open>Branching on the current token\<close>

definition if_tok :: "(token \<Rightarrow> bool) \<Rightarrow> 'a P \<Rightarrow> 'a P \<Rightarrow> 'a P" where
  "if_tok test m m' = bnd current_token (\<lambda>t. if test t then m else m')"

definition has_class :: "token_class \<Rightarrow> token \<Rightarrow> bool" where
  "has_class k t \<longleftrightarrow> klass t = k"

definition if_class :: "token_class \<Rightarrow> 'a P \<Rightarrow> 'a P \<Rightarrow> 'a P" where
  "if_class k = if_tok (has_class k)"

definition expected :: "string \<Rightarrow> 'a P" where
  "expected msg = bnd current_token (\<lambda>t. fail (Error_exit (tk_line_nr t) msg (lexeme t)))"

definition expect :: "token_class \<Rightarrow> string \<Rightarrow> unit P" where
  "expect k msg = if_class k next_tok (expected msg)"

definition require :: "(token \<Rightarrow> bool) \<Rightarrow> string \<Rightarrow> unit P" where
  "require test msg = if_tok test (ret ()) (expected msg)"

section \<open>Nodes\<close>

definition new_ast_node :: "ast_kind \<Rightarrow> ast P" where
  "new_ast_node kind =
     bnd current_token (\<lambda>t.
     bnd (gets node_id) (\<lambda>n.
     bnd (modify (\<lambda>s. s\<lparr>node_id := n + 1, node_count := node_count s + 1\<rparr>)) (\<lambda>_.
     ret (blank_ast kind n (tk_line_nr t)))))"

definition set_ast :: "string \<Rightarrow> ast option \<Rightarrow> ast \<Rightarrow> ast P" where
  "set_ast name v node = lift (ast_setattr node name (V_Ast v) AstAttr_Ast)"

definition set_list :: "string \<Rightarrow> ast list option \<Rightarrow> ast \<Rightarrow> ast P" where
  "set_list name v node = lift (ast_setattr node name (V_AstList v) AstAttr_AstList)"

definition set_int :: "string \<Rightarrow> int \<Rightarrow> ast \<Rightarrow> ast P" where
  "set_int name v node = lift (ast_setattr node name (V_Integer v) AstAttr_Integer)"

definition set_bool :: "string \<Rightarrow> bool \<Rightarrow> ast \<Rightarrow> ast P" where
  "set_bool name v node = set_int name (if v then 1 else 0) node"

definition set_op :: "ast_expr_operator \<Rightarrow> ast \<Rightarrow> ast P" where
  "set_op v node = lift (ast_setattr node ''op'' (V_ExprOperator v) AstAttr_ExprOperator)"

definition set_lexeme :: "string \<Rightarrow> ast \<Rightarrow> ast P" where
  "set_lexeme name node =
     bnd current_token (\<lambda>t. lift (ast_setattr node name (V_String (lexeme t)) AstAttr_String))"

text \<open>\<open>ast_setattr(node, name, build(), ...)\<close>: the builder runs first.\<close>

definition attr_ast :: "string \<Rightarrow> ast P \<Rightarrow> ast \<Rightarrow> ast P" where
  "attr_ast name m node = bnd m (\<lambda>x. set_ast name (Some x) node)"

definition attr_list :: "string \<Rightarrow> ast list option P \<Rightarrow> ast \<Rightarrow> ast P" where
  "attr_list name m node = bnd m (\<lambda>xs. set_list name xs node)"

text \<open>The enumerators as the integers the C code stores.\<close>

definition direction_code :: "ast_param_direction \<Rightarrow> int" where
  "direction_code d =
     (case d of AstParamDir_NONE \<Rightarrow> 0 | AstParamDir_In \<Rightarrow> 1 | AstParamDir_Out \<Rightarrow> 2
      | AstParamDir_InOut \<Rightarrow> 3)"

definition base_type_code :: "ast_base_type_kind \<Rightarrow> int" where
  "base_type_code k =
     (case k of AstBaseType_NONE \<Rightarrow> 0 | AstBaseType_Bool \<Rightarrow> 1 | AstBaseType_Error \<Rightarrow> 2
      | AstBaseType_Int \<Rightarrow> 3 | AstBaseType_Bit \<Rightarrow> 4 | AstBaseType_Varbit \<Rightarrow> 5
      | AstBaseType_String \<Rightarrow> 6)"

section \<open>Recursion and loops\<close>

text \<open>
  The five functions declared at the head of build_ast.c are the ones through which the
  parser is recursive. Every other function takes an environment with a handler for calls of
  these five and a bound on loop rounds; the knot is tied in ParseProgram.
\<close>

datatype call =
    Call_expression int
  | Call_typeRef
  | Call_blockStatement
  | Call_statement "ast option"
  | Call_parserStatement

record env =
  rounds :: nat
  handler :: "call \<Rightarrow> ast P"

text \<open>\<open>x, x, ..., x\<close> and \<open>x x ... x\<close>, at least one of each.\<close>

definition comma_list :: "env \<Rightarrow> ast P \<Rightarrow> ast list P" where
  "comma_list e item =
     bnd item (\<lambda>x.
     while_list (rounds e) (if_class Token_Comma (ret True) (ret False))
       (bnd next_tok (\<lambda>_. item)) [x])"

definition rep_list :: "env \<Rightarrow> (token \<Rightarrow> bool) \<Rightarrow> ast P \<Rightarrow> ast list P" where
  "rep_list e test item =
     bnd item (\<lambda>x. while_list (rounds e) (if_tok test (ret True) (ret False)) item [x])"

text \<open>\<open>struct AstList* xs = 0; if (test(token)) { xs = ... }\<close>\<close>

definition opt_list :: "(token \<Rightarrow> bool) \<Rightarrow> ast list P \<Rightarrow> ast list option P" where
  "opt_list test m = if_tok test (bnd m (\<lambda>xs. ret (Some xs))) (ret None)"

end
