(* ===== verification/ParseTypes.thy ===== *)
theory ParseTypes
  imports ParseBase
begin

text \<open>
  build_ast.c, names, types, parameters, prototypes and the declarations made of them.
  A function that returns a null pointer when its token does not match returns \<open>None\<close>; one
  that calls \<open>error\<close> then returns the node itself.
\<close>

section \<open>Names\<close>

text \<open>\<open>new_type(ast_getattr(name, "name"), name, token->line_nr)\<close>\<close>

definition declare_type :: "ast \<Rightarrow> unit P" where
  "declare_type node =
     bnd current_token (\<lambda>t.
     bnd (lift (ast_getattr node ''name'')) (\<lambda>v.
     case v of
          Some (V_String s) \<Rightarrow>
            bnd (symtable_cmd (new_type s (id_of node) (tk_line_nr t))) (\<lambda>_. ret ())
        | _ \<Rightarrow> fail Bad_access))"

definition build_nonTypeName :: "bool \<Rightarrow> ast P" where
  "build_nonTypeName is_type =
     bnd (require token_is_nonTypeName ''non-type name was expected'') (\<lambda>_.
     bnd (new_ast_node Ast_Name) (\<lambda>node.
     bnd (set_lexeme ''name'' node) (\<lambda>node.
     bnd (if is_type then declare_type node else ret ()) (\<lambda>_.
     bnd next_tok (\<lambda>_.
     ret node)))))"

definition build_name :: "bool \<Rightarrow> ast P" where
  "build_name is_type =
     if_tok token_is_name
       (if_tok token_is_nonTypeName (build_nonTypeName is_type)
       (if_class Token_TypeIdentifier
          (bnd (new_ast_node Ast_Name) (\<lambda>type_name.
           bnd (set_lexeme ''name'' type_name) (\<lambda>type_name.
           bnd next_tok (\<lambda>_.
           ret type_name))))
       (fail Assert_failed)))
     (expected ''name was expected'')"

definition build_typeParameterList :: "env \<Rightarrow> ast list option P" where
  "build_typeParameterList e =
     if_tok token_is_typeParameterList
       (bnd (comma_list e (build_name True)) (\<lambda>params. ret (Some params)))
       (expected ''name was expected'')"

definition build_optTypeParameters :: "env \<Rightarrow> ast list option P" where
  "build_optTypeParameters e =
     if_class Token_AngleOpen
       (bnd next_tok (\<lambda>_.
        bnd (require token_is_typeParameterList ''name was expected'') (\<lambda>_.
        bnd (build_typeParameterList e) (\<lambda>params.
        bnd (expect Token_AngleClose ''`>` was expected'') (\<lambda>_.
        ret params)))))
       (ret None)"

section \<open>Parameters\<close>

definition build_typeArg :: "env \<Rightarrow> ast P" where
  "build_typeArg e =
     if_tok token_is_typeArg
       (if_class Token_Dontcare
          (bnd (new_ast_node Ast_Dontcare) (\<lambda>dontcare.
           bnd next_tok (\<lambda>_.
           ret dontcare)))
       (if_tok token_is_typeRef (handler e Call_typeRef)
       (if_tok token_is_nonTypeName (build_nonTypeName False)
       (fail Assert_failed))))
     (expected ''type argument was expected'')"

definition build_direction :: "ast_param_direction P" where
  "build_direction =
     if_tok token_is_direction
       (bnd (if_class Token_In (ret AstParamDir_In)
                 (if_class Token_Out (ret AstParamDir_Out)
                 (if_class Token_InOut (ret AstParamDir_InOut)
                 (fail Assert_failed)))) (\<lambda>dir.
        bnd next_tok (\<lambda>_.
        ret dir)))
       (ret AstParamDir_NONE)"

definition build_parameter :: "env \<Rightarrow> ast P" where
  "build_parameter e =
     bnd (new_ast_node Ast_Parameter) (\<lambda>param.
     bnd build_direction (\<lambda>dir.
     bnd (set_int ''direction'' (direction_code dir) param) (\<lambda>param.
     bnd (require token_is_typeRef ''type was expected'') (\<lambda>_.
     bnd (attr_ast ''type'' (handler e Call_typeRef) param) (\<lambda>param.
     bnd (require token_is_name ''name was expected'') (\<lambda>_.
     bnd (attr_ast ''name'' (build_name False) param) (\<lambda>param.
     if_class Token_Equal
          (bnd next_tok (\<lambda>_.
           bnd (require token_is_expression ''expression was expected'') (\<lambda>_.
           attr_ast ''init_expr'' (handler e (Call_expression 1)) param)))
          (ret param))))))))"

definition build_parameterList :: "env \<Rightarrow> ast list option P" where
  "build_parameterList e = opt_list token_is_parameter (comma_list e (build_parameter e))"

definition build_typeOrVoid :: "env \<Rightarrow> bool \<Rightarrow> ast P" where
  "build_typeOrVoid e is_type =
     if_tok token_is_typeOrVoid
       (if_tok token_is_typeRef (handler e Call_typeRef)
       (if_class Token_Void
          (bnd (new_ast_node Ast_Name) (\<lambda>void_name.
           bnd (set_lexeme ''name'' void_name) (\<lambda>void_name.
           bnd next_tok (\<lambda>_.
           ret void_name))))
       (if_class Token_Identifier
          (bnd (new_ast_node Ast_Name) (\<lambda>node.
           bnd (set_lexeme ''name'' node) (\<lambda>node.
           bnd (if is_type then declare_type node else ret ()) (\<lambda>_.
           bnd next_tok (\<lambda>_.
           ret node)))))
       (fail Assert_failed))))
     (expected ''type was expected'')"

section \<open>Prototypes\<close>

definition build_functionPrototype :: "env \<Rightarrow> ast option \<Rightarrow> ast P" where
  "build_functionPrototype e type_ref =
     bnd (require (\<lambda>t. token_is_typeOrVoid t \<or> type_ref \<noteq> None) ''type was expected'') (\<lambda>_.
     bnd (new_ast_node Ast_FunctionProto) (\<lambda>proto.
     bnd (case type_ref of
                   Some ref \<Rightarrow> set_ast ''return_type'' (Some ref) proto
                 | None \<Rightarrow> attr_ast ''return_type'' (build_typeOrVoid e True) proto) (\<lambda>proto.
     bnd (require token_is_name ''function name was expected'') (\<lambda>_.
     bnd (attr_ast ''name'' (build_name False) proto) (\<lambda>proto.
     bnd (attr_list ''type_params'' (build_optTypeParameters e) proto) (\<lambda>proto.
     bnd (expect Token_ParenthOpen ''`(` was expected'') (\<lambda>_.
     bnd (attr_list ''params'' (build_parameterList e) proto) (\<lambda>proto.
     bnd (expect Token_ParenthClose ''`)` was expected'') (\<lambda>_.
     ret proto)))))))))"

text \<open>The look at the next token happens on a type identifier only, as with \<open>&&\<close>.\<close>

definition build_methodPrototype :: "env \<Rightarrow> ast P" where
  "build_methodPrototype e =
     bnd (require token_is_methodPrototype ''type was expected'') (\<lambda>_.
     bnd (if_class Token_TypeIdentifier
                  (bnd peek_token (\<lambda>t. ret (klass t = Token_ParenthOpen)))
                  (ret False)) (\<lambda>ctor.
     bnd (if ctor then
                   bnd (new_ast_node Ast_FunctionProto) (\<lambda>proto.
                   bnd (attr_ast ''name'' (build_name False) proto) (\<lambda>proto.
                   bnd (expect Token_ParenthOpen ''`(` as expected'') (\<lambda>_.
                   bnd (attr_list ''params'' (build_parameterList e) proto) (\<lambda>proto.
                   bnd (expect Token_ParenthClose ''`)` was expected'') (\<lambda>_.
                   ret proto)))))
                 else if_tok token_is_typeOrVoid (build_functionPrototype e None)
                   (expected ''type was expected'')) (\<lambda>proto.
     bnd (expect Token_Semicolon ''`;` was expected'') (\<lambda>_.
     ret proto))))"

definition build_methodPrototypes :: "env \<Rightarrow> ast list option P" where
  "build_methodPrototypes e =
     opt_list token_is_methodPrototype
       (rep_list e token_is_methodPrototype (build_methodPrototype e))"

definition build_externDeclaration :: "env \<Rightarrow> ast option P" where
  "build_externDeclaration e =
     if_class Token_Extern
       (bnd next_tok (\<lambda>_.
        bnd (new_ast_node Ast_ExternDecl) (\<lambda>extern_decl.
        bnd (if_tok (\<lambda>t. token_is_typeOrVoid t \<and> token_is_nonTypeName t)
               (bnd current_token (\<lambda>t.
                if token_is_typeOrVoid t then bnd peek_token (\<lambda>p. ret (token_is_name p))
                else ret False))
             (if_tok token_is_typeOrVoid (ret True)
             (if_tok token_is_nonTypeName (ret False)
             (expected ''extern declaration was expected'')))) (\<lambda>is_function_proto.
        if is_function_proto then
             bnd (build_functionPrototype e None) (\<lambda>decl.
             bnd (expect Token_Semicolon ''`;` was expected'') (\<lambda>_.
             ret (Some decl)))
           else
             bnd (attr_ast ''name'' (build_nonTypeName True) extern_decl) (\<lambda>extern_decl.
             bnd (attr_list ''type_params'' (build_optTypeParameters e) extern_decl) (\<lambda>extern_decl.
             bnd (expect Token_BraceOpen ''`{` was expected'') (\<lambda>_.
             bnd (attr_list ''method_protos'' (build_methodPrototypes e) extern_decl) (\<lambda>extern_decl.
             bnd (expect Token_BraceClose ''`}` was expected'') (\<lambda>_.
             ret (Some extern_decl))))))))))
       (ret None)"

section \<open>Literals\<close>

definition build_integer :: "ast option P" where
  "build_integer =
     if_class Token_Integer
       (bnd (new_ast_node Ast_Int) (\<lambda>int_node.
        bnd current_token (\<lambda>t.
        bnd (set_int ''flags'' (uint (i_flags t)) int_node) (\<lambda>int_node.
        bnd (set_int ''width'' (i_width t) int_node) (\<lambda>int_node.
        bnd (set_int ''value'' (i_value t) int_node) (\<lambda>int_node.
        bnd next_tok (\<lambda>_.
        ret (Some int_node))))))))
       (ret None)"

definition build_boolean :: "ast option P" where
  "build_boolean =
     if_tok (\<lambda>t. klass t = Token_True \<or> klass t = Token_False)
       (bnd (new_ast_node Ast_Bool) (\<lambda>bool_node.
        bnd (set_int ''value'' 0 bool_node) (\<lambda>bool_node.
        bnd (if_class Token_True (set_int ''value'' 1 bool_node) (ret bool_node)) (\<lambda>bool_node.
        bnd next_tok (\<lambda>_.
        ret (Some bool_node))))))
       (ret None)"

definition build_stringLiteral :: "ast option P" where
  "build_stringLiteral =
     if_class Token_StringLiteral
       (bnd (new_ast_node Ast_StringLiteral) (\<lambda>node.
        bnd (set_lexeme ''value'' node) (\<lambda>node.
        bnd next_tok (\<lambda>_.
        ret (Some node)))))
       (ret None)"

section \<open>Types\<close>

definition build_integerTypeSize :: "env \<Rightarrow> ast P" where
  "build_integerTypeSize e =
     bnd (new_ast_node Ast_IntTypeSize) (\<lambda>type_size.
     if_class Token_Integer
          (bnd build_integer (\<lambda>v. set_ast ''size'' v type_size))
        (if_class Token_ParenthOpen
          (attr_ast ''size'' (handler e (Call_expression 1)) type_size)
        (expected ''`(` was expected'')))"

text \<open>The tail shared by \<open>int\<close>, \<open>bit\<close> and \<open>varbit\<close>: an optional size in angle brackets.\<close>

definition build_optSize :: "env \<Rightarrow> ast \<Rightarrow> ast P" where
  "build_optSize e base_type =
     if_class Token_AngleOpen
       (bnd next_tok (\<lambda>_.
        bnd (attr_ast ''size'' (build_integerTypeSize e) base_type) (\<lambda>base_type.
        bnd (expect Token_AngleClose ''`>` was expected'') (\<lambda>_.
        ret base_type))))
       (ret base_type)"

definition build_baseType :: "env \<Rightarrow> ast P" where
  "build_baseType e =
     bnd (require token_is_baseType ''type as expected'') (\<lambda>_.
     bnd (new_ast_node Ast_BaseType) (\<lambda>base_type.
     if_class Token_Bool
          (bnd (set_int ''base_type'' (base_type_code AstBaseType_Bool) base_type) (\<lambda>base_type.
           bnd next_tok (\<lambda>_.
           ret base_type)))
        (if_class Token_Error
          (bnd (set_int ''base_type'' (base_type_code AstBaseType_Error) base_type) (\<lambda>base_type.
           bnd next_tok (\<lambda>_.
           ret base_type)))
        (if_class Token_Int
          (bnd (set_int ''base_type'' (base_type_code AstBaseType_Int) base_type) (\<lambda>base_type.
           bnd next_tok (\<lambda>_.
           build_optSize e base_type)))
        (if_class Token_Bit
          (bnd (set_int ''base_type'' (base_type_code AstBaseType_Bit) base_type) (\<lambda>base_type.
           bnd next_tok (\<lambda>_.
           build_optSize e base_type)))
        (if_class Token_Varbit
          (bnd (set_int ''base_type'' (base_type_code AstBaseType_Varbit) base_type) (\<lambda>base_type.
           bnd next_tok (\<lambda>_.
           build_optSize e base_type)))
        (if_class Token_String
          (bnd (set_int ''base_type'' (base_type_code AstBaseType_String) base_type) (\<lambda>base_type.
           bnd next_tok (\<lambda>_.
           ret base_type)))
        (fail Assert_failed))))))))"

definition build_typeArgumentList :: "env \<Rightarrow> ast list option P" where
  "build_typeArgumentList e = opt_list token_is_typeArg (comma_list e (build_typeArg e))"

definition build_tupleType :: "env \<Rightarrow> ast P" where
  "build_tupleType e =
     bnd (expect Token_Tuple ''`tuple` was expected'') (\<lambda>_.
     bnd (new_ast_node Ast_Tuple) (\<lambda>node.
     bnd (expect Token_AngleOpen ''`<` was expected'') (\<lambda>_.
     bnd (attr_list ''type_args'' (build_typeArgumentList e) node) (\<lambda>node.
     bnd (expect Token_AngleClose ''`>` was expected'') (\<lambda>_.
     ret node)))))"

definition build_headerStackType :: "env \<Rightarrow> ast P" where
  "build_headerStackType e =
     bnd (expect Token_BracketOpen ''`[` was expected'') (\<lambda>_.
     bnd (new_ast_node Ast_HeaderStack) (\<lambda>stack.
     bnd (require token_is_expression ''an expression expected'') (\<lambda>_.
     bnd (attr_ast ''stack_expr'' (handler e (Call_expression 1)) stack) (\<lambda>stack.
     bnd (expect Token_BracketClose ''`]` was expected'') (\<lambda>_.
     ret stack)))))"

definition build_specializedType :: "env \<Rightarrow> ast P" where
  "build_specializedType e =
     bnd (expect Token_AngleOpen ''`<` was expected'') (\<lambda>_.
     bnd (new_ast_node Ast_SpecdType) (\<lambda>node.
     bnd (attr_list ''type_args'' (build_typeArgumentList e) node) (\<lambda>node.
     bnd (expect Token_AngleClose ''`>` was expected'') (\<lambda>_.
     ret node))))"

definition build_prefixedType :: "ast P" where
  "build_prefixedType =
     bnd (if_class Token_DotPrefix (bnd next_tok (\<lambda>_.
                                    ret True)) (ret False)) (\<lambda>is_dotprefixed.
     if_class Token_TypeIdentifier
          (bnd (new_ast_node Ast_Name) (\<lambda>node.
           bnd (set_lexeme ''name'' node) (\<lambda>node.
           bnd (set_bool ''is_dotprefixed'' is_dotprefixed node) (\<lambda>node.
           bnd next_tok (\<lambda>_.
           ret node)))))
          (expected ''type was expected''))"

definition build_typeName :: "env \<Rightarrow> ast P" where
  "build_typeName e =
     bnd (require token_is_typeName ''type was expected'') (\<lambda>_.
     bnd build_prefixedType (\<lambda>node.
     bnd (if_class Token_AngleOpen
                  (bnd (build_specializedType e) (\<lambda>specd_type.
                   set_ast ''name'' (Some node) specd_type))
                  (ret node)) (\<lambda>node.
     if_class Token_BracketOpen
          (bnd (build_headerStackType e) (\<lambda>stack_type.
           set_ast ''name'' (Some node) stack_type))
          (ret node))))"

definition build_typeRef :: "env \<Rightarrow> ast P" where
  "build_typeRef e =
     if_tok token_is_typeRef
       (if_tok token_is_baseType (build_baseType e)
       (if_tok token_is_typeName (build_typeName e)
       (if_class Token_Tuple (build_tupleType e)
       (fail Assert_failed))))
     (expected ''type was expected'')"

section \<open>Struct-like declarations\<close>

definition build_structField :: "env \<Rightarrow> ast P" where
  "build_structField e =
     bnd (new_ast_node Ast_StructField) (\<lambda>field.
     bnd (require token_is_typeRef ''struct field was expected'') (\<lambda>_.
     bnd (attr_ast ''type'' (handler e Call_typeRef) field) (\<lambda>field.
     bnd (require token_is_name ''name was expected'') (\<lambda>_.
     bnd (attr_ast ''name'' (build_name False) field) (\<lambda>field.
     bnd (expect Token_Semicolon ''`;` was expected'') (\<lambda>_.
     ret field))))))"

definition build_structFieldList :: "env \<Rightarrow> ast list option P" where
  "build_structFieldList e =
     opt_list token_is_structField (rep_list e token_is_structField (build_structField e))"

text \<open>The common body of the three declarations, after the keyword.\<close>

definition build_fields_decl :: "env \<Rightarrow> ast_kind \<Rightarrow> ast P" where
  "build_fields_decl e kind =
     bnd (new_ast_node kind) (\<lambda>decl.
     bnd (require token_is_name ''name was expected'') (\<lambda>_.
     bnd (attr_ast ''name'' (build_name True) decl) (\<lambda>decl.
     bnd (expect Token_BraceOpen ''`{` was expected'') (\<lambda>_.
     bnd (attr_list ''fields'' (build_structFieldList e) decl) (\<lambda>decl.
     bnd (expect Token_BraceClose ''`}` was expected'') (\<lambda>_.
     ret decl))))))"

definition build_headerTypeDeclaration :: "env \<Rightarrow> ast P" where
  "build_headerTypeDeclaration e =
     bnd (expect Token_Header ''`header` was expected'') (\<lambda>_.
     build_fields_decl e Ast_HeaderDecl)"

definition build_headerUnionDeclaration :: "env \<Rightarrow> ast P" where
  "build_headerUnionDeclaration e =
     bnd (expect Token_HeaderUnion ''`header_union` was expected'') (\<lambda>_.
     build_fields_decl e Ast_HeaderUnionDecl)"

definition build_structTypeDeclaration :: "env \<Rightarrow> ast P" where
  "build_structTypeDeclaration e =
     bnd (expect Token_Struct ''`struct` was expected'') (\<lambda>_.
     build_fields_decl e Ast_StructDecl)"

definition build_initializer :: "env \<Rightarrow> ast P" where
  "build_initializer e = handler e (Call_expression 1)"

definition build_optInitializer :: "env \<Rightarrow> ast option P" where
  "build_optInitializer e =
     if_class Token_Equal
       (bnd next_tok (\<lambda>_.
        bnd (build_initializer e) (\<lambda>init.
        ret (Some init))))
       (ret None)"

definition build_specifiedIdentifier :: "env \<Rightarrow> ast P" where
  "build_specifiedIdentifier e =
     bnd (require token_is_specifiedIdentifier ''name was expected'') (\<lambda>_.
     bnd (new_ast_node Ast_SpecdId) (\<lambda>node.
     bnd (attr_ast ''name'' (build_name False) node) (\<lambda>node.
     if_class Token_Equal
          (bnd next_tok (\<lambda>_.
           bnd (require token_is_expression ''an expression was expected'') (\<lambda>_.
           attr_ast ''init_expr'' (build_initializer e) node)))
          (ret node))))"

definition build_specifiedIdentifierList :: "env \<Rightarrow> ast list option P" where
  "build_specifiedIdentifierList e =
     opt_list token_is_specifiedIdentifier (comma_list e (build_specifiedIdentifier e))"

definition build_enumDeclaration :: "env \<Rightarrow> ast P" where
  "build_enumDeclaration e =
     bnd (expect Token_Enum ''`enum` was expected'') (\<lambda>_.
     bnd (new_ast_node Ast_EnumDecl) (\<lambda>decl.
     bnd (if_class Token_Bit
                  (bnd next_tok (\<lambda>_.
                   bnd (expect Token_AngleOpen ''`<` was expected'') (\<lambda>_.
                   bnd (require (has_class Token_Integer) ''an integer was expected'') (\<lambda>_.
                   bnd build_integer (\<lambda>v.
                   bnd (set_ast ''type_size'' v decl) (\<lambda>decl.
                   bnd (expect Token_AngleClose ''`>` was expected'') (\<lambda>_.
                   ret decl)))))))
                  (ret decl)) (\<lambda>decl.
     bnd (require token_is_name ''name was expected'') (\<lambda>_.
     bnd (attr_ast ''name'' (build_name True) decl) (\<lambda>decl.
     bnd (expect Token_BraceOpen ''`{` was expected'') (\<lambda>_.
     bnd (require token_is_specifiedIdentifier ''name was expected'') (\<lambda>_.
     bnd (attr_list ''id_list'' (build_specifiedIdentifierList e) decl) (\<lambda>decl.
     bnd (expect Token_BraceClose ''`}` was expected'') (\<lambda>_.
     ret decl)))))))))"

definition build_derivedTypeDeclaration :: "env \<Rightarrow> ast P" where
  "build_derivedTypeDeclaration e =
     if_tok token_is_derivedTypeDeclaration
       (if_class Token_Header (build_headerTypeDeclaration e)
       (if_class Token_HeaderUnion (build_headerUnionDeclaration e)
       (if_class Token_Struct (build_structTypeDeclaration e)
       (if_class Token_Enum (build_enumDeclaration e)
       (fail Assert_failed)))))
     (expected ''structure declaration was expected'')"

text \<open>
  \<open>keyword name <type parameters> ( parameters )\<close>: the parser, control and package types.
\<close>

definition build_type_with_params :: "env \<Rightarrow> ast_kind \<Rightarrow> ast P" where
  "build_type_with_params e kind =
     bnd (new_ast_node kind) (\<lambda>decl.
     bnd (require token_is_name ''name was expected'') (\<lambda>_.
     bnd (attr_ast ''name'' (build_name True) decl) (\<lambda>decl.
     bnd (attr_list ''type_params'' (build_optTypeParameters e) decl) (\<lambda>decl.
     bnd (expect Token_ParenthOpen ''`(` was expected'') (\<lambda>_.
     bnd (attr_list ''params'' (build_parameterList e) decl) (\<lambda>decl.
     bnd (expect Token_ParenthClose ''`)` was expected'') (\<lambda>_.
     ret decl)))))))"

definition build_parserTypeDeclaration :: "env \<Rightarrow> ast P" where
  "build_parserTypeDeclaration e =
     bnd (expect Token_Parser ''`parser` was expected'') (\<lambda>_.
     build_type_with_params e Ast_ParserType)"

definition build_controlTypeDeclaration :: "env \<Rightarrow> ast P" where
  "build_controlTypeDeclaration e =
     bnd (expect Token_Control ''`control` was expected'') (\<lambda>_.
     build_type_with_params e Ast_ControlType)"

definition build_packageTypeDeclaration :: "env \<Rightarrow> ast P" where
  "build_packageTypeDeclaration e =
     bnd (expect Token_Package ''`package` was expected'') (\<lambda>_.
     build_type_with_params e Ast_Package)"

definition build_optConstructorParameters :: "env \<Rightarrow> ast list option P" where
  "build_optConstructorParameters e =
     if_class Token_ParenthOpen
       (bnd next_tok (\<lambda>_.
        bnd (build_parameterList e) (\<lambda>ctor_params.
        bnd (expect Token_ParenthClose ''`)` was expected'') (\<lambda>_.
        ret ctor_params))))
       (ret None)"

definition build_constantDeclaration :: "env \<Rightarrow> ast P" where
  "build_constantDeclaration e =
     bnd (expect Token_Const ''`const` was expected'') (\<lambda>_.
     bnd (new_ast_node Ast_ConstDecl) (\<lambda>decl.
     bnd (require token_is_typeRef ''type was expected'') (\<lambda>_.
     bnd (attr_ast ''type_ref'' (handler e Call_typeRef) decl) (\<lambda>decl.
     bnd (require token_is_name ''name was expected'') (\<lambda>_.
     bnd (attr_ast ''name'' (build_name False) decl) (\<lambda>decl.
     bnd (expect Token_Equal ''`=` was expected'') (\<lambda>_.
     bnd (require token_is_expression ''an expression was expected'') (\<lambda>_.
     bnd (attr_ast ''expr'' (handler e (Call_expression 1)) decl) (\<lambda>decl.
     bnd (expect Token_Semicolon ''`;` expected'') (\<lambda>_.
     ret decl))))))))))"

definition build_typedefDeclaration :: "env \<Rightarrow> ast P" where
  "build_typedefDeclaration e =
     bnd (require (\<lambda>t. klass t = Token_Typedef \<or> klass t = Token_Type) ''type definition was expected'') (\<lambda>_.
     bnd (if_class Token_Typedef (bnd next_tok (\<lambda>_.
                                  ret True))
                     (if_class Token_Type (bnd next_tok (\<lambda>_.
                                           ret False))
                     (fail Assert_failed))) (\<lambda>is_typedef.
     bnd (require (\<lambda>t. token_is_typeRef t \<or> token_is_derivedTypeDeclaration t) ''type was expected'') (\<lambda>_.
     bnd (new_ast_node Ast_TypeDecl) (\<lambda>type_decl.
     bnd (set_bool ''is_typedef'' is_typedef type_decl) (\<lambda>type_decl.
     bnd (if_tok token_is_typeRef
                       (attr_ast ''type_ref'' (handler e Call_typeRef) type_decl)
                    (if_tok token_is_derivedTypeDeclaration
                       (attr_ast ''type_ref'' (build_derivedTypeDeclaration e) type_decl)
                    (fail Assert_failed))) (\<lambda>type_decl.
     bnd (require token_is_name ''name was expected'') (\<lambda>_.
     bnd (attr_ast ''name'' (build_name True) type_decl) (\<lambda>type_decl.
     bnd (expect Token_Semicolon ''`;` expected'') (\<lambda>_.
     ret type_decl)))))))))"

end
