(* ===== verification/ParseExpr.thy ===== *)
theory ParseExpr
  imports ParseTypes
begin

text \<open>
  build_ast.c, expressions: primaries, the precedence-climbing loop of \<open>build_expression\<close>,
  arguments and array indices. The loop variable \<open>expr\<close> is the accumulator of \<open>expr_loop\<close>;
  \<open>expr_step\<close> is one round, and returns \<open>None\<close> where the C code has \<open>break\<close>.
\<close>

section \<open>Arguments\<close>

definition build_argument :: "env \<Rightarrow> ast P" where
  "build_argument e =
     if_tok token_is_argument
       (if_tok token_is_expression (handler e (Call_expression 1))
       (if_tok token_is_name
          (bnd (new_ast_node Ast_Argument) (\<lambda>named_arg.
           bnd (attr_ast ''name'' (build_name False) named_arg) (\<lambda>named_arg.
           bnd (expect Token_Equal ''`=` was expected'') (\<lambda>_.
           bnd (require token_is_expression ''an expression was expected'') (\<lambda>_.
           attr_ast ''init_expr'' (handler e (Call_expression 1)) named_arg)))))
       (if_class Token_Dontcare
          (bnd (new_ast_node Ast_Dontcare) (\<lambda>dontcare_arg.
           bnd next_tok (\<lambda>_.
           ret dontcare_arg)))
       (fail Assert_failed))))
     (expected ''an argument was expected'')"

definition build_argumentList :: "env \<Rightarrow> ast list option P" where
  "build_argumentList e = opt_list token_is_argument (comma_list e (build_argument e))"

definition build_arrayIndex :: "env \<Rightarrow> ast P" where
  "build_arrayIndex e =
     bnd (new_ast_node Ast_ArrayIndex) (\<lambda>index.
     bnd (require token_is_expression ''an expression was expected'') (\<lambda>_.
     bnd (attr_ast ''index'' (handler e (Call_expression 1)) index) (\<lambda>index.
     if_class Token_Colon
          (bnd next_tok (\<lambda>_.
           bnd (require token_is_expression ''an expression was expected'') (\<lambda>_.
           attr_ast ''colon_index'' (handler e (Call_expression 1)) index)))
          (ret index))))"

definition build_expressionList :: "env \<Rightarrow> ast list option P" where
  "build_expressionList e =
     opt_list token_is_expression (comma_list e (handler e (Call_expression 1)))"

definition build_realTypeArg :: "env \<Rightarrow> ast P" where
  "build_realTypeArg e =
     if_class Token_Dontcare (bnd next_tok (\<lambda>_.
                              new_ast_node Ast_Dontcare))
     (if_tok token_is_typeRef (handler e Call_typeRef)
     (expected ''type argument was expected''))"

definition build_realTypeArgumentList :: "env \<Rightarrow> ast list option P" where
  "build_realTypeArgumentList e =
     opt_list token_is_realTypeArg (comma_list e (build_realTypeArg e))"

section \<open>Primaries\<close>

text \<open>A literal builder returns null on another token only; here its token has been tested.\<close>

definition non_null :: "ast option P \<Rightarrow> ast P" where
  "non_null m = bnd m (\<lambda>r. case r of Some node \<Rightarrow> ret node | None \<Rightarrow> fail Bad_access)"

definition build_unary :: "env \<Rightarrow> ast_expr_operator \<Rightarrow> ast P" where
  "build_unary e op =
     bnd next_tok (\<lambda>_.
     bnd (new_ast_node Ast_UnaryExpr) (\<lambda>unary_expr.
     bnd (set_op op unary_expr) (\<lambda>unary_expr.
     attr_ast ''expr'' (handler e (Call_expression 1)) unary_expr)))"

definition build_dotPrimary :: "env \<Rightarrow> ast P" where
  "build_dotPrimary e =
     bnd next_tok (\<lambda>_.
     if_class Token_Identifier
          (bnd (build_nonTypeName False) (set_bool ''is_dotprefixed'' True))
        (if_class Token_TypeIdentifier
          (bnd (build_typeName e) (set_bool ''is_dotprefixed'' True))
        (expected ''unexpected token'')))"

definition build_parenPrimary :: "env \<Rightarrow> ast P" where
  "build_parenPrimary e =
     bnd next_tok (\<lambda>_.
     if_tok token_is_typeRef
          (bnd (new_ast_node Ast_CastExpr) (\<lambda>cast.
           bnd (attr_ast ''to_type'' (handler e Call_typeRef) cast) (\<lambda>cast.
           bnd (expect Token_ParenthClose ''`)` was expected'') (\<lambda>_.
           attr_ast ''expr'' (handler e (Call_expression 1)) cast))))
        (if_tok token_is_expression
          (bnd (handler e (Call_expression 1)) (\<lambda>primary.
           bnd (expect Token_ParenthClose ''`)` was expected'') (\<lambda>_.
           ret primary)))
        (expected ''an expression was expected'')))"

text \<open>
  The last case: \<open>next_token\<close> comes before the node is made, so the name is that of the token
  after \<open>error\<close>, and it is stored under the tag \<open>AstAttr_Ast\<close> although it is a string.
\<close>

definition build_errorPrimary :: "ast P" where
  "build_errorPrimary =
     bnd next_tok (\<lambda>_.
     bnd (new_ast_node Ast_Name) (\<lambda>node.
     bnd current_token (\<lambda>t.
     lift (ast_setattr node ''name'' (V_String (lexeme t)) AstAttr_Ast))))"

definition build_expressionPrimary :: "env \<Rightarrow> ast P" where
  "build_expressionPrimary e =
     if_tok token_is_expression
       (if_class Token_Integer (non_null build_integer)
       (if_class Token_True (non_null build_boolean)
       (if_class Token_False (non_null build_boolean)
       (if_class Token_StringLiteral (non_null build_stringLiteral)
       (if_class Token_DotPrefix (build_dotPrimary e)
       (if_tok token_is_nonTypeName (build_nonTypeName False)
       (if_class Token_BraceOpen
          (bnd next_tok (\<lambda>_.
           bnd (new_ast_node Ast_ExpressionListExpr) (\<lambda>expr_list.
           bnd (attr_list ''expr_list'' (build_expressionList e) expr_list) (\<lambda>expr_list.
           bnd (expect Token_BraceClose ''`}` was expected'') (\<lambda>_.
           ret expr_list)))))
       (if_class Token_ParenthOpen (build_parenPrimary e)
       (if_class Token_Exclamation (build_unary e AstExprOp_LogNot)
       (if_class Token_Tilda (build_unary e AstExprOp_BitNot)
       (if_class Token_UnaryMinus (build_unary e AstExprOp_Minus)
       (if_tok token_is_typeName (build_typeName e)
       (if_class Token_Error build_errorPrimary
       (fail Assert_failed))))))))))))))
     (expected ''an expression was expected'')"

section \<open>Operators\<close>

definition get_operator_priority :: "token \<Rightarrow> int result" where
  "get_operator_priority t =
     (if klass t = Token_TwoAmpersand \<or> klass t = Token_TwoPipe then Inr 1
      else if klass t = Token_TwoEqual \<or> klass t = Token_ExclamationEqual \<or>
        klass t = Token_AngleOpen \<or> klass t = Token_AngleClose \<or>
        klass t = Token_AngleOpenEqual \<or> klass t = Token_AngleCloseEqual then Inr 2
      else if klass t = Token_Plus \<or> klass t = Token_Minus \<or>
        klass t = Token_Ampersand \<or> klass t = Token_Pipe \<or> klass t = Token_Circumflex \<or>
        klass t = Token_TwoAngleOpen \<or> klass t = Token_TwoAngleClose then Inr 3
      else if klass t = Token_Star \<or> klass t = Token_Slash then Inr 4
      else if klass t = Token_ThreeAmpersand then Inr 5
      else Inl Assert_failed)"

definition token_to_binop :: "token \<Rightarrow> ast_expr_operator" where
  "token_to_binop t =
     (if klass t = Token_TwoAmpersand then AstExprOp_And
      else if klass t = Token_TwoPipe then AstExprOp_Or
      else if klass t = Token_TwoEqual then AstExprOp_Equal
      else if klass t = Token_ExclamationEqual then AstExprOp_NotEqual
      else if klass t = Token_AngleOpen then AstExprOp_Less
      else if klass t = Token_AngleClose then AstExprOp_Greater
      else if klass t = Token_AngleOpenEqual then AstExprOp_LessEqual
      else if klass t = Token_AngleCloseEqual then AstExprOp_GreaterEqual
      else if klass t = Token_Plus then AstExprOp_Add
      else if klass t = Token_Minus then AstExprOp_Sub
      else if klass t = Token_Star then AstExprOp_Mul
      else if klass t = Token_Slash then AstExprOp_Div
      else if klass t = Token_Ampersand then AstExprOp_BitAnd
      else if klass t = Token_Pipe then AstExprOp_BitOr
      else if klass t = Token_Circumflex then AstExprOp_BitXor
      else if klass t = Token_TwoAngleOpen then AstExprOp_BitShiftLeft
      else if klass t = Token_TwoAngleClose then AstExprOp_BitShiftRight
      else if klass t = Token_ThreeAmpersand then AstExprOp_Mask
      else AstExprOp_NONE)"

definition member_step :: "ast \<Rightarrow> ast P" where
  "member_step expr =
     bnd next_tok (\<lambda>_.
     bnd (new_ast_node Ast_MemberSelectExpr) (\<lambda>select_expr.
     bnd (set_ast ''expr'' (Some expr) select_expr) (\<lambda>select_expr.
     bnd (require token_is_name ''name was expected'') (\<lambda>_.
     attr_ast ''member_name'' (build_name False) select_expr))))"

definition index_step :: "env \<Rightarrow> ast \<Rightarrow> ast P" where
  "index_step e expr =
     bnd next_tok (\<lambda>_.
     bnd (new_ast_node Ast_IndexedArrayExpr) (\<lambda>index_expr.
     bnd (set_ast ''expr'' (Some expr) index_expr) (\<lambda>index_expr.
     bnd (attr_ast ''index_expr'' (build_arrayIndex e) index_expr) (\<lambda>index_expr.
     bnd (expect Token_BracketClose ''`]` was expected'') (\<lambda>_.
     ret index_expr)))))"

definition call_step :: "env \<Rightarrow> ast \<Rightarrow> ast P" where
  "call_step e expr =
     bnd next_tok (\<lambda>_.
     bnd (new_ast_node Ast_FunctionCallExpr) (\<lambda>call_expr.
     bnd (set_ast ''expr'' (Some expr) call_expr) (\<lambda>call_expr.
     bnd (attr_list ''args'' (build_argumentList e) call_expr) (\<lambda>call_expr.
     bnd (expect Token_ParenthClose ''`)` was expected'') (\<lambda>_.
     ret call_expr)))))"

definition type_args_step :: "env \<Rightarrow> ast \<Rightarrow> ast P" where
  "type_args_step e expr =
     bnd next_tok (\<lambda>_.
     bnd (new_ast_node Ast_TypeArgsExpr) (\<lambda>args_expr.
     bnd (set_ast ''expr'' (Some expr) args_expr) (\<lambda>args_expr.
     bnd (attr_list ''type_args'' (build_realTypeArgumentList e) args_expr) (\<lambda>args_expr.
     bnd (expect Token_AngleClose ''`>` was expected'') (\<lambda>_.
     ret args_expr)))))"

definition kv_step :: "env \<Rightarrow> ast \<Rightarrow> ast P" where
  "kv_step e expr =
     bnd next_tok (\<lambda>_.
     bnd (new_ast_node Ast_KvPair) (\<lambda>kv_pair.
     bnd (set_ast ''name'' (Some expr) kv_pair) (\<lambda>kv_pair.
     attr_ast ''expr'' (handler e (Call_expression 1)) kv_pair)))"

definition binary_step :: "env \<Rightarrow> int \<Rightarrow> ast \<Rightarrow> ast option P" where
  "binary_step e priority_threshold expr =
     bnd current_token (\<lambda>t.
     bnd (lift (get_operator_priority t)) (\<lambda>priority.
     if priority \<ge> priority_threshold then
          bnd (new_ast_node Ast_BinaryExpr) (\<lambda>bin_expr.
          bnd (set_ast ''left_operand'' (Some expr) bin_expr) (\<lambda>bin_expr.
          bnd (set_op (token_to_binop t) bin_expr) (\<lambda>bin_expr.
          bnd next_tok (\<lambda>_.
          bnd (attr_ast ''right_operand'' (handler e (Call_expression (priority + 1))) bin_expr) (\<lambda>bin_expr.
          ret (Some bin_expr))))))
        else ret None))"

definition some_step :: "ast P \<Rightarrow> ast option P" where
  "some_step m = bnd m (\<lambda>x. ret (Some x))"

definition expr_step :: "env \<Rightarrow> int \<Rightarrow> ast \<Rightarrow> ast option P" where
  "expr_step e priority_threshold expr =
     if_class Token_DotPrefix (some_step (member_step expr))
     (if_class Token_BracketOpen (some_step (index_step e expr))
     (if_class Token_ParenthOpen (some_step (call_step e expr))
     (bnd (if_class Token_AngleOpen
                        (bnd peek_token (\<lambda>p. ret (token_is_realTypeArg p)))
                        (ret False)) (\<lambda>type_args.
      if type_args then some_step (type_args_step e expr)
         else
           if_class Token_Equal (some_step (kv_step e expr))
           (if_tok token_is_binaryOperator (binary_step e priority_threshold expr)
           (fail Assert_failed))))))"

primrec expr_loop :: "nat \<Rightarrow> env \<Rightarrow> int \<Rightarrow> ast \<Rightarrow> ast P" where
  "expr_loop 0 e priority_threshold expr = fail Out_of_fuel"
| "expr_loop (Suc n) e priority_threshold expr =
     if_tok token_is_exprOperator
       (bnd (expr_step e priority_threshold expr) (\<lambda>r.
        case r of None \<Rightarrow> ret expr | Some expr' \<Rightarrow> expr_loop n e priority_threshold expr'))
       (ret expr)"

definition build_expression :: "env \<Rightarrow> int \<Rightarrow> ast P" where
  "build_expression e priority_threshold =
     bnd (require token_is_expression ''an expression was expected'') (\<lambda>_.
     bnd (build_expressionPrimary e) (\<lambda>expr.
     expr_loop (rounds e) e priority_threshold expr))"

end
