(* ===== verification/ParseStmt.thy ===== *)
theory ParseStmt
  imports ParseExpr
begin

text \<open>
  build_ast.c, statements: lvalues, assignments and calls, local declarations, the statements
  of parser states with the select expression, and the statements of control blocks.
\<close>

section \<open>Lvalues, assignments and calls\<close>

text \<open>
  The test \<open>if (token_is_nonTypeName)\<close> is of the function's address, so it always holds and
  the \<open>error\<close> in its else branch is dead code.
\<close>

definition build_prefixedNonTypeName :: "ast P" where
  "build_prefixedNonTypeName =
     bnd (if_class Token_DotPrefix (bnd next_tok (\<lambda>_.
                                    ret True)) (ret False)) (\<lambda>is_dotprefixed.
     bnd (build_nonTypeName False) (\<lambda>node.
     set_bool ''is_dotprefixed'' is_dotprefixed node))"

definition build_lvalueExpr :: "env \<Rightarrow> ast P" where
  "build_lvalueExpr e =
     if_class Token_DotPrefix
       (bnd next_tok (\<lambda>_.
        bnd (build_name False) (\<lambda>dot_member.
        set_bool ''is_dotprefixed'' True dot_member)))
     (if_class Token_BracketOpen
       (bnd next_tok (\<lambda>_.
        bnd (build_arrayIndex e) (\<lambda>expr.
        bnd (expect Token_BracketClose ''`]` was expected'') (\<lambda>_.
        ret expr))))
     (expected ''lvalue was expected''))"

definition token_is_lvalueExpr :: "token \<Rightarrow> bool" where
  "token_is_lvalueExpr t \<longleftrightarrow> klass t = Token_DotPrefix \<or> klass t = Token_BracketOpen"

definition build_lvalue :: "env \<Rightarrow> ast P" where
  "build_lvalue e =
     bnd (require token_is_lvalue ''lvalue was expected'') (\<lambda>_.
     bnd (new_ast_node Ast_Lvalue) (\<lambda>lvalue.
     bnd (attr_ast ''name'' build_prefixedNonTypeName lvalue) (\<lambda>lvalue.
     if_tok token_is_lvalueExpr
          (bnd (rep_list e token_is_lvalueExpr (build_lvalueExpr e)) (\<lambda>lvalue_expr.
           set_list ''expr'' (Some lvalue_expr) lvalue))
          (ret lvalue))))"

definition build_assignmentOrMethodCallStatement :: "env \<Rightarrow> ast P" where
  "build_assignmentOrMethodCallStatement e =
     bnd (require token_is_lvalue ''lvalue was expected'') (\<lambda>_.
     bnd (build_lvalue e) (\<lambda>lvalue.
     bnd (if_class Token_AngleOpen
                       (bnd next_tok (\<lambda>_.
                        bnd (build_typeArgumentList e) (\<lambda>type_args.
                        bnd (expect Token_AngleClose ''`>` was expected'') (\<lambda>_.
                        ret type_args))))
                       (ret None)) (\<lambda>type_args.
     bnd (if_class Token_ParenthOpen
                  (bnd next_tok (\<lambda>_.
                   bnd (new_ast_node Ast_MethodCallStmt) (\<lambda>call_stmt.
                   bnd (set_ast ''lvalue'' (Some lvalue) call_stmt) (\<lambda>call_stmt.
                   bnd (set_list ''type_args'' type_args call_stmt) (\<lambda>call_stmt.
                   bnd (attr_list ''args'' (build_argumentList e) call_stmt) (\<lambda>call_stmt.
                   bnd (expect Token_ParenthClose ''`)` was expected'') (\<lambda>_.
                   ret call_stmt)))))))
               (if_class Token_Equal
                  (bnd next_tok (\<lambda>_.
                   bnd (new_ast_node Ast_AssignmentStmt) (\<lambda>assgn_stmt.
                   bnd (set_ast ''lvalue'' (Some lvalue) assgn_stmt) (\<lambda>assgn_stmt.
                   attr_ast ''expr'' (handler e (Call_expression 1)) assgn_stmt))))
               (expected ''assignment or function call was expected''))) (\<lambda>stmt.
     bnd (expect Token_Semicolon ''`;` expected'') (\<lambda>_.
     ret stmt)))))"

section \<open>Local declarations\<close>

definition build_variableDeclaration :: "env \<Rightarrow> ast option \<Rightarrow> ast P" where
  "build_variableDeclaration e type_ref =
     bnd (require (\<lambda>t. token_is_typeRef t \<or> type_ref \<noteq> None) ''type was expected'') (\<lambda>_.
     bnd (new_ast_node Ast_VarDecl) (\<lambda>decl.
     bnd (case type_ref of
                  Some ref \<Rightarrow> set_ast ''type'' (Some ref) decl
                | None \<Rightarrow> attr_ast ''type'' (handler e Call_typeRef) decl) (\<lambda>decl.
     bnd (require token_is_name ''name was expected'') (\<lambda>_.
     bnd (attr_ast ''name'' (build_name False) decl) (\<lambda>decl.
     bnd (build_optInitializer e) (\<lambda>init.
     bnd (set_ast ''init_expr'' init decl) (\<lambda>decl.
     bnd (expect Token_Semicolon ''`;` was expected'') (\<lambda>_.
     ret decl))))))))"

definition build_instantiation :: "env \<Rightarrow> ast option \<Rightarrow> ast P" where
  "build_instantiation e type_ref =
     bnd (require (\<lambda>t. token_is_typeRef t \<or> type_ref \<noteq> None) ''type was expected'') (\<lambda>_.
     bnd (new_ast_node Ast_Instantiation) (\<lambda>inst.
     bnd (case type_ref of
                  Some ref \<Rightarrow> set_ast ''type_ref'' (Some ref) inst
                | None \<Rightarrow> attr_ast ''type_ref'' (handler e Call_typeRef) inst) (\<lambda>inst.
     bnd (expect Token_ParenthOpen ''`(` was expected'') (\<lambda>_.
     bnd (attr_list ''args'' (build_argumentList e) inst) (\<lambda>inst.
     bnd (expect Token_ParenthClose ''`)` was expected'') (\<lambda>_.
     bnd (require token_is_name ''instance name was expected'') (\<lambda>_.
     bnd (attr_ast ''name'' (build_name False) inst) (\<lambda>inst.
     bnd (expect Token_Semicolon ''`;` was expected'') (\<lambda>_.
     ret inst)))))))))"

definition build_directApplication :: "env \<Rightarrow> ast option \<Rightarrow> ast P" where
  "build_directApplication e type_name =
     bnd (require (\<lambda>t. token_is_typeName t \<or> type_name \<noteq> None) ''type name was expected'') (\<lambda>_.
     bnd (new_ast_node Ast_DirectApplic) (\<lambda>applic.
     bnd (case type_name of
                    Some n \<Rightarrow> set_ast ''name'' (Some n) applic
                  | None \<Rightarrow> attr_ast ''name'' (build_typeName e) applic) (\<lambda>applic.
     bnd (expect Token_DotPrefix ''`.` was expected'') (\<lambda>_.
     bnd (expect Token_Apply ''`apply` was expected'') (\<lambda>_.
     bnd (expect Token_ParenthOpen ''`(` was expected'') (\<lambda>_.
     bnd (attr_list ''args'' (build_argumentList e) applic) (\<lambda>applic.
     bnd (expect Token_ParenthClose ''`)` was expected'') (\<lambda>_.
     bnd (expect Token_Semicolon ''`;` was expected'') (\<lambda>_.
     ret applic)))))))))"

definition build_parserLocalElement :: "env \<Rightarrow> ast P" where
  "build_parserLocalElement e =
     if_tok token_is_parserLocalElement
       (if_class Token_Const (build_constantDeclaration e)
       (if_tok token_is_typeRef
          (bnd (handler e Call_typeRef) (\<lambda>type_ref.
           if_class Token_ParenthOpen (build_instantiation e (Some type_ref))
              (if_tok token_is_name (build_variableDeclaration e (Some type_ref))
              (expected ''unexpected token''))))
       (fail Assert_failed)))
     (expected ''local declaration was expected'')"

definition build_parserLocalElements :: "env \<Rightarrow> ast list option P" where
  "build_parserLocalElements e =
     opt_list token_is_parserLocalElement
       (rep_list e token_is_parserLocalElement (build_parserLocalElement e))"

section \<open>Parser states\<close>

definition build_parserStatements :: "env \<Rightarrow> ast list option P" where
  "build_parserStatements e =
     opt_list token_is_parserStatement
       (rep_list e token_is_parserStatement (handler e Call_parserStatement))"

definition build_parserBlockStatements :: "env \<Rightarrow> ast P" where
  "build_parserBlockStatements e =
     bnd (require (has_class Token_BraceOpen) ''`{` was expected'') (\<lambda>_.
     bnd (new_ast_node Ast_BlockStmt) (\<lambda>stmt.
     bnd next_tok (\<lambda>_.
     bnd (attr_list ''stmt_list'' (build_parserStatements e) stmt) (\<lambda>stmt.
     bnd (expect Token_BraceClose ''`}` was expected'') (\<lambda>_.
     ret stmt)))))"

text \<open>On \<open>;\<close> a node is made but the token is not consumed.\<close>

definition build_parserStatement :: "env \<Rightarrow> ast P" where
  "build_parserStatement e =
     if_tok token_is_typeRef
       (bnd (handler e Call_typeRef) (\<lambda>type_ref.
        if_tok token_is_name (build_variableDeclaration e (Some type_ref))
             (build_directApplication e (Some type_ref))))
     (if_tok token_is_assignmentOrMethodCallStatement (build_assignmentOrMethodCallStatement e)
     (if_class Token_BraceOpen (build_parserBlockStatements e)
     (if_class Token_Const (build_constantDeclaration e)
     (if_class Token_Semicolon (new_ast_node Ast_EmptyStmt)
     (expected ''statement was expected'')))))"

definition build_simpleKeysetExpression :: "env \<Rightarrow> ast P" where
  "build_simpleKeysetExpression e =
     if_tok token_is_expression (handler e (Call_expression 1))
     (if_class Token_Default (bnd next_tok (\<lambda>_.
                              new_ast_node Ast_Default))
     (if_class Token_Dontcare (bnd next_tok (\<lambda>_.
                               new_ast_node Ast_Dontcare))
     (expected ''keyset expression was expected'')))"

text \<open>The \<open>memset\<close> of the list clears only the size of a pointer; the model begins with an empty list as everywhere.\<close>

definition build_tupleKeysetExpression :: "env \<Rightarrow> ast P" where
  "build_tupleKeysetExpression e =
     bnd (require (has_class Token_ParenthOpen) ''`(` was expected'') (\<lambda>_.
     bnd (new_ast_node Ast_TupleKeyset) (\<lambda>tuple_keyset.
     bnd next_tok (\<lambda>_.
     bnd (comma_list e (build_simpleKeysetExpression e)) (\<lambda>exprs.
     bnd (set_list ''expr_list'' (Some exprs) tuple_keyset) (\<lambda>tuple_keyset.
     bnd (expect Token_ParenthClose ''`)` was expected'') (\<lambda>_.
     ret tuple_keyset))))))"

definition build_keysetExpression :: "env \<Rightarrow> ast P" where
  "build_keysetExpression e =
     if_class Token_ParenthOpen (build_tupleKeysetExpression e)
     (if_tok token_is_simpleKeysetExpression (build_simpleKeysetExpression e)
     (expected ''keyset expression was expected''))"

definition build_selectCase :: "env \<Rightarrow> ast P" where
  "build_selectCase e =
     bnd (require token_is_keysetExpression ''keyset expression was expected'') (\<lambda>_.
     bnd (new_ast_node Ast_SelectCase) (\<lambda>select_case.
     bnd (attr_ast ''keyset'' (build_keysetExpression e) select_case) (\<lambda>select_case.
     bnd (expect Token_Colon ''`:` was expected'') (\<lambda>_.
     bnd (require token_is_name ''name was expected'') (\<lambda>_.
     bnd (attr_ast ''name'' (build_name False) select_case) (\<lambda>select_case.
     bnd (expect Token_Semicolon ''`;` expected'') (\<lambda>_.
     ret select_case)))))))"

definition build_selectCaseList :: "env \<Rightarrow> ast list option P" where
  "build_selectCaseList e =
     opt_list token_is_selectCase (rep_list e token_is_selectCase (build_selectCase e))"

definition build_selectExpression :: "env \<Rightarrow> ast P" where
  "build_selectExpression e =
     bnd (expect Token_Select ''`select` was expected'') (\<lambda>_.
     bnd (new_ast_node Ast_SelectExpr) (\<lambda>select_expr.
     bnd (expect Token_ParenthOpen ''`(` was expected'') (\<lambda>_.
     bnd (attr_list ''expr_list'' (build_expressionList e) select_expr) (\<lambda>select_expr.
     bnd (expect Token_ParenthClose ''`)` was expected'') (\<lambda>_.
     bnd (expect Token_BraceOpen ''`{` was expected'') (\<lambda>_.
     bnd (attr_list ''case_list'' (build_selectCaseList e) select_expr) (\<lambda>select_expr.
     bnd (expect Token_BraceClose ''`}` was expected'') (\<lambda>_.
     ret select_expr))))))))"

definition build_stateExpression :: "env \<Rightarrow> ast P" where
  "build_stateExpression e =
     if_tok token_is_name
       (bnd (build_name False) (\<lambda>state_expr.
        bnd (expect Token_Semicolon ''`;` was expected'') (\<lambda>_.
        ret state_expr)))
     (if_class Token_Select (build_selectExpression e)
     (expected ''state expression was expected''))"

definition build_transitionStatement :: "env \<Rightarrow> ast P" where
  "build_transitionStatement e =
     bnd (expect Token_Transition ''`transition` was expected'') (\<lambda>_.
     build_stateExpression e)"

definition build_parserState :: "env \<Rightarrow> ast P" where
  "build_parserState e =
     bnd (expect Token_State ''`state` was expected'') (\<lambda>_.
     bnd (new_ast_node Ast_ParserState) (\<lambda>state.
     bnd (attr_ast ''name'' (build_name False) state) (\<lambda>state.
     bnd (expect Token_BraceOpen ''`{` was expected'') (\<lambda>_.
     bnd (attr_list ''stmt_list'' (build_parserStatements e) state) (\<lambda>state.
     bnd (attr_ast ''trans_stmt'' (build_transitionStatement e) state) (\<lambda>state.
     bnd (expect Token_BraceClose ''`}` was expected'') (\<lambda>_.
     ret state)))))))"

definition build_parserStates :: "env \<Rightarrow> ast list option P" where
  "build_parserStates e =
     if_class Token_State
       (bnd (rep_list e (has_class Token_State) (build_parserState e)) (\<lambda>states. ret (Some states)))
       (expected ''`state` was expected'')"

section \<open>Statements of control blocks\<close>

definition build_conditionalStatement :: "env \<Rightarrow> ast P" where
  "build_conditionalStatement e =
     bnd (expect Token_If ''`if` was expected'') (\<lambda>_.
     bnd (new_ast_node Ast_IfStmt) (\<lambda>if_stmt.
     bnd (expect Token_ParenthOpen ''`(` was expected'') (\<lambda>_.
     bnd (require token_is_expression ''an expression was expected'') (\<lambda>_.
     bnd (attr_ast ''cond_expr'' (handler e (Call_expression 1)) if_stmt) (\<lambda>if_stmt.
     bnd (expect Token_ParenthClose ''`)` was expected'') (\<lambda>_.
     bnd (require token_is_statement ''statement was expected'') (\<lambda>_.
     bnd (attr_ast ''stmt'' (handler e (Call_statement None)) if_stmt) (\<lambda>if_stmt.
     if_class Token_Else
          (bnd next_tok (\<lambda>_.
           bnd (require token_is_statement ''statement was expected'') (\<lambda>_.
           attr_ast ''else_stmt'' (handler e (Call_statement None)) if_stmt)))
          (ret if_stmt)))))))))"

definition build_exitStatement :: "ast P" where
  "build_exitStatement =
     bnd (expect Token_Exit ''`exit` was expected'') (\<lambda>_.
     bnd (new_ast_node Ast_ExitStmt) (\<lambda>exit_stmt.
     bnd (expect Token_Semicolon ''`;` expected'') (\<lambda>_.
     ret exit_stmt)))"

definition build_returnStatement :: "env \<Rightarrow> ast P" where
  "build_returnStatement e =
     bnd (expect Token_Return ''`return` was expected'') (\<lambda>_.
     bnd (new_ast_node Ast_ReturnStmt) (\<lambda>ret_stmt.
     bnd (if_tok token_is_expression
                      (attr_ast ''expr'' (handler e (Call_expression 1)) ret_stmt)
                      (ret ret_stmt)) (\<lambda>ret_stmt.
     bnd (expect Token_Semicolon ''`;` expected'') (\<lambda>_.
     ret ret_stmt))))"

definition build_switchLabel :: "ast P" where
  "build_switchLabel =
     if_tok token_is_name
       (bnd (new_ast_node Ast_SwitchLabel) (\<lambda>name_label.
        attr_ast ''name'' (build_name False) name_label))
     (if_class Token_Default (bnd next_tok (\<lambda>_.
                              new_ast_node Ast_Default))
     (expected ''switch label was expected''))"

definition build_switchCase :: "env \<Rightarrow> ast P" where
  "build_switchCase e =
     bnd (require token_is_switchLabel ''switch label was expected'') (\<lambda>_.
     bnd (new_ast_node Ast_SwitchCase) (\<lambda>switch_case.
     bnd (attr_ast ''label'' build_switchLabel switch_case) (\<lambda>switch_case.
     bnd (expect Token_Colon ''`:` was expected'') (\<lambda>_.
     if_class Token_BraceOpen
          (attr_ast ''stmt'' (handler e Call_blockStatement) switch_case)
          (ret switch_case)))))"

definition build_switchCases :: "env \<Rightarrow> ast list option P" where
  "build_switchCases e =
     opt_list token_is_switchLabel (rep_list e token_is_switchLabel (build_switchCase e))"

definition build_switchStatement :: "env \<Rightarrow> ast P" where
  "build_switchStatement e =
     bnd (expect Token_Switch ''`switch` was expected'') (\<lambda>_.
     bnd (new_ast_node Ast_SwitchStmt) (\<lambda>stmt.
     bnd (expect Token_ParenthOpen ''`(` was expected'') (\<lambda>_.
     bnd (attr_ast ''expr'' (handler e (Call_expression 1)) stmt) (\<lambda>stmt.
     bnd (expect Token_ParenthClose ''`)` was expected'') (\<lambda>_.
     bnd (expect Token_BraceOpen ''`{` was expected'') (\<lambda>_.
     bnd (attr_list ''switch_cases'' (build_switchCases e) stmt) (\<lambda>stmt.
     bnd (expect Token_BraceClose ''`}` was expected'') (\<lambda>_.
     ret stmt))))))))"

definition build_statement :: "env \<Rightarrow> ast option \<Rightarrow> ast P" where
  "build_statement e type_name =
     if_tok (\<lambda>t. token_is_typeName t \<or> type_name \<noteq> None) (build_directApplication e type_name)
     (if_tok token_is_assignmentOrMethodCallStatement (build_assignmentOrMethodCallStatement e)
     (if_class Token_If (build_conditionalStatement e)
     (if_class Token_Semicolon (bnd next_tok (\<lambda>_.
                                new_ast_node Ast_EmptyStmt))
     (if_class Token_BraceOpen (handler e Call_blockStatement)
     (if_class Token_Exit build_exitStatement
     (if_class Token_Return (build_returnStatement e)
     (if_class Token_Switch (build_switchStatement e)
     (expected ''statement was expected''))))))))"

definition build_statementOrDecl :: "env \<Rightarrow> ast option P" where
  "build_statementOrDecl e =
     if_tok token_is_statementOrDeclaration
       (bnd (if_tok token_is_typeRef
               (bnd (handler e Call_typeRef) (\<lambda>type_ref.
                if_class Token_ParenthOpen (build_instantiation e (Some type_ref))
                   (if_tok token_is_name (build_variableDeclaration e (Some type_ref))
                   (handler e (Call_statement (Some type_ref))))))
            (if_tok token_is_statement (handler e (Call_statement None))
            (if_class Token_Const (build_constantDeclaration e)
            (fail Assert_failed))))
       (\<lambda>stmt. ret (Some stmt)))
       (ret None)"

definition build_statementOrDeclList :: "env \<Rightarrow> ast list option P" where
  "build_statementOrDeclList e =
     opt_list token_is_statementOrDeclaration
       (rep_list e token_is_statementOrDeclaration (non_null (build_statementOrDecl e)))"

definition build_blockStatement :: "env \<Rightarrow> ast P" where
  "build_blockStatement e =
     bnd (require (has_class Token_BraceOpen) ''`{` was expected'') (\<lambda>_.
     bnd (new_ast_node Ast_BlockStmt) (\<lambda>stmt.
     bnd next_tok (\<lambda>_.
     bnd (attr_list ''stmt_list'' (build_statementOrDeclList e) stmt) (\<lambda>stmt.
     bnd (expect Token_BraceClose ''`}` was expected'') (\<lambda>_.
     ret stmt)))))"

end
