(* ===== verification/ParseProgram.thy ===== *)
theory ParseProgram
  imports ParseStmt
begin

text \<open>
  build_ast.c, the top level: parsers, controls with their actions and tables, error and match
  kind declarations, functions and the program; then the knot of the recursion.
\<close>

section \<open>Parsers and actions\<close>

definition build_parserDeclaration :: "env \<Rightarrow> ast P" where
  "build_parserDeclaration e =
     bnd (require (has_class Token_Parser) ''`parser` was expected'') (\<lambda>_.
     bnd (new_ast_node Ast_Parser) (\<lambda>decl.
     bnd (attr_ast ''type_decl'' (build_parserTypeDeclaration e) decl) (\<lambda>decl.
     if_class Token_Semicolon (bnd next_tok (\<lambda>_.
                               ret decl))
          (bnd (attr_list ''ctor_params'' (build_optConstructorParameters e) decl) (\<lambda>decl.
           bnd (expect Token_BraceOpen ''`{` was expected'') (\<lambda>_.
           bnd (attr_list ''local_elements'' (build_parserLocalElements e) decl) (\<lambda>decl.
           bnd (attr_list ''states'' (build_parserStates e) decl) (\<lambda>decl.
           bnd (expect Token_BraceClose ''`}` was expected'') (\<lambda>_.
           ret decl)))))))))"

definition build_actionDeclaration :: "env \<Rightarrow> ast P" where
  "build_actionDeclaration e =
     bnd (expect Token_Action ''`action` was expected'') (\<lambda>_.
     bnd (new_ast_node Ast_ActionDecl) (\<lambda>decl.
     bnd (require token_is_name ''name was expected'') (\<lambda>_.
     bnd (attr_ast ''name'' (build_name False) decl) (\<lambda>decl.
     bnd (expect Token_ParenthOpen ''`(` was expected'') (\<lambda>_.
     bnd (attr_list ''params'' (build_parameterList e) decl) (\<lambda>decl.
     bnd (expect Token_ParenthClose ''`}` was expected'') (\<lambda>_.
     bnd (require (has_class Token_BraceOpen) ''`{` was expected'') (\<lambda>_.
     attr_ast ''stmt'' (handler e Call_blockStatement) decl))))))))"

section \<open>Tables\<close>

definition build_keyElement :: "env \<Rightarrow> ast P" where
  "build_keyElement e =
     bnd (require token_is_expression ''an expression was expected'') (\<lambda>_.
     bnd (new_ast_node Ast_KeyElement) (\<lambda>key_elem.
     bnd (attr_ast ''expr'' (handler e (Call_expression 1)) key_elem) (\<lambda>key_elem.
     bnd (expect Token_Colon ''`:` was expected'') (\<lambda>_.
     bnd (attr_ast ''name'' (build_name False) key_elem) (\<lambda>key_elem.
     bnd (expect Token_Semicolon ''`;` was expected'') (\<lambda>_.
     ret key_elem))))))"

definition build_keyElementList :: "env \<Rightarrow> ast list option P" where
  "build_keyElementList e =
     opt_list token_is_expression (rep_list e token_is_expression (build_keyElement e))"

definition build_actionRef :: "env \<Rightarrow> ast P" where
  "build_actionRef e =
     bnd (require (\<lambda>t. klass t = Token_DotPrefix \<or> token_is_nonTypeName t)
          ''non-type name was expected'') (\<lambda>_.
     bnd (new_ast_node Ast_ActionRef) (\<lambda>ref.
     bnd (attr_ast ''name'' build_prefixedNonTypeName ref) (\<lambda>ref.
     if_class Token_ParenthOpen
          (bnd next_tok (\<lambda>_.
           bnd (attr_list ''args'' (build_argumentList e) ref) (\<lambda>ref.
           bnd (expect Token_ParenthClose ''`)` was expected'') (\<lambda>_.
           ret ref))))
          (ret ref))))"

definition build_actionList :: "env \<Rightarrow> ast list option P" where
  "build_actionList e =
     opt_list token_is_actionRef
       (rep_list e token_is_actionRef
         (bnd (build_actionRef e) (\<lambda>ref.
          bnd (expect Token_Semicolon ''`;` was expected'') (\<lambda>_.
          ret ref))))"

definition build_entry :: "env \<Rightarrow> ast P" where
  "build_entry e =
     bnd (require token_is_keysetExpression ''keyset was expected'') (\<lambda>_.
     bnd (new_ast_node Ast_TableEntry) (\<lambda>entry.
     bnd (attr_ast ''keyset'' (build_keysetExpression e) entry) (\<lambda>entry.
     bnd (expect Token_Colon ''`:` was expected'') (\<lambda>_.
     bnd (attr_ast ''action'' (build_actionRef e) entry) (\<lambda>entry.
     bnd (expect Token_Semicolon ''`;` was expected'') (\<lambda>_.
     ret entry))))))"

definition build_entriesList :: "env \<Rightarrow> ast list option P" where
  "build_entriesList e =
     if_tok token_is_keysetExpression
       (bnd (rep_list e token_is_keysetExpression (build_entry e)) (\<lambda>entries. ret (Some entries)))
       (expected ''keyset expression was expected'')"

text \<open>\<open>= { list }\<close>, the body of the three properties with a list.\<close>

definition build_braced_prop :: "string \<Rightarrow> ast list option P \<Rightarrow> ast \<Rightarrow> ast P" where
  "build_braced_prop name m prop =
     bnd (expect Token_Equal ''`=` was expected'') (\<lambda>_.
     bnd (expect Token_BraceOpen ''`{` was expected'') (\<lambda>_.
     bnd (attr_list name m prop) (\<lambda>prop.
     bnd (expect Token_BraceClose ''`}` was expected'') (\<lambda>_.
     ret prop))))"

definition build_tableProperty :: "env \<Rightarrow> ast P" where
  "build_tableProperty e =
     bnd (require token_is_tableProperty ''table property was expected'') (\<lambda>_.
     bnd (if_class Token_Const (bnd next_tok (\<lambda>_.
                                ret True)) (ret False)) (\<lambda>is_const.
     if_class Token_Key
          (bnd next_tok (\<lambda>_.
           bnd (new_ast_node Ast_TableProp_Key) (\<lambda>key_prop.
           build_braced_prop ''keyelem_list'' (build_keyElementList e) key_prop)))
        (if_class Token_Actions
          (bnd next_tok (\<lambda>_.
           bnd (new_ast_node Ast_TableProp_Actions) (\<lambda>actions_prop.
           build_braced_prop ''action_list'' (build_actionList e) actions_prop)))
        (if_class Token_Entries
          (bnd next_tok (\<lambda>_.
           bnd (new_ast_node Ast_TableProp_Entries) (\<lambda>entries_prop.
           bnd (set_bool ''is_const'' is_const entries_prop) (\<lambda>entries_prop.
           build_braced_prop ''entries'' (build_entriesList e) entries_prop))))
        (if_tok token_is_nonTableKwName
          (bnd (new_ast_node Ast_TableProp_SingleEntry) (\<lambda>entry_prop.
           bnd (attr_ast ''name'' (build_name False) entry_prop) (\<lambda>entry_prop.
           bnd (expect Token_Equal ''`=` was expected'') (\<lambda>_.
           bnd (attr_ast ''init_expr'' (build_initializer e) entry_prop) (\<lambda>entry_prop.
           bnd (expect Token_Semicolon ''`;` was expected'') (\<lambda>_.
           ret entry_prop))))))
        (fail Assert_failed))))))"

definition build_tablePropertyList :: "env \<Rightarrow> ast list option P" where
  "build_tablePropertyList e =
     if_tok token_is_tableProperty
       (bnd (rep_list e token_is_tableProperty (build_tableProperty e)) (\<lambda>props. ret (Some props)))
       (expected ''table property was expected'')"

definition build_tableDeclaration :: "env \<Rightarrow> ast P" where
  "build_tableDeclaration e =
     bnd (expect Token_Table ''`table` was expected'') (\<lambda>_.
     bnd (new_ast_node Ast_TableDecl) (\<lambda>table.
     bnd (attr_ast ''name'' (build_name False) table) (\<lambda>table.
     bnd (expect Token_BraceOpen ''`{` was expected'') (\<lambda>_.
     bnd (attr_list ''prop_list'' (build_tablePropertyList e) table) (\<lambda>table.
     bnd (expect Token_BraceClose ''`}` was expected'') (\<lambda>_.
     ret table))))))"

section \<open>Controls\<close>

definition build_controlLocalDeclaration :: "env \<Rightarrow> ast P" where
  "build_controlLocalDeclaration e =
     if_class Token_Const (build_constantDeclaration e)
     (if_class Token_Action (build_actionDeclaration e)
     (if_class Token_Table (build_tableDeclaration e)
     (if_tok token_is_typeRef
        (bnd (handler e Call_typeRef) (\<lambda>type_ref.
         if_class Token_ParenthOpen (build_instantiation e (Some type_ref))
            (if_tok token_is_name (build_variableDeclaration e (Some type_ref))
            (expected ''unexpected token''))))
     (expected ''local declaration was expected''))))"

definition build_controlLocalDeclarations :: "env \<Rightarrow> ast list option P" where
  "build_controlLocalDeclarations e =
     opt_list token_is_controlLocalDeclaration
       (rep_list e token_is_controlLocalDeclaration (build_controlLocalDeclaration e))"

definition build_controlDeclaration :: "env \<Rightarrow> ast P" where
  "build_controlDeclaration e =
     bnd (require (has_class Token_Control) ''`control` was expected'') (\<lambda>_.
     bnd (new_ast_node Ast_Control) (\<lambda>decl.
     bnd (attr_ast ''type_decl'' (build_controlTypeDeclaration e) decl) (\<lambda>decl.
     if_class Token_Semicolon (bnd next_tok (\<lambda>_.
                               ret decl))
          (bnd (attr_list ''ctor_params'' (build_optConstructorParameters e) decl) (\<lambda>decl.
           bnd (expect Token_BraceOpen ''`{` was expected'') (\<lambda>_.
           bnd (attr_list ''local_decls'' (build_controlLocalDeclarations e) decl) (\<lambda>decl.
           bnd (expect Token_Apply ''`apply` was expected'') (\<lambda>_.
           bnd (attr_ast ''apply_stmt'' (handler e Call_blockStatement) decl) (\<lambda>decl.
           bnd (expect Token_BraceClose ''`}` was expected'') (\<lambda>_.
           ret decl))))))))))"

section \<open>Declarations\<close>

definition build_typeDeclaration :: "env \<Rightarrow> ast P" where
  "build_typeDeclaration e =
     if_tok token_is_typeDeclaration
       (if_tok token_is_derivedTypeDeclaration (build_derivedTypeDeclaration e)
       (if_tok (\<lambda>t. klass t = Token_Typedef \<or> klass t = Token_Type) (build_typedefDeclaration e)
       (if_class Token_Parser (build_parserDeclaration e)
       (if_class Token_Control (build_controlDeclaration e)
       (if_class Token_Package
          (bnd (build_packageTypeDeclaration e) (\<lambda>decl.
           bnd (expect Token_Semicolon ''`;` expected'') (\<lambda>_.
           ret decl)))
       (fail Assert_failed))))))
     (expected ''type declaration was expected'')"

definition build_identifierList :: "env \<Rightarrow> ast list option P" where
  "build_identifierList e =
     if_tok token_is_name
       (bnd (comma_list e (build_name False)) (\<lambda>ids. ret (Some ids)))
       (expected ''name was expected'')"

text \<open>\<open>{ identifiers }\<close> after \<open>error\<close> or \<open>match_kind\<close>.\<close>

definition build_id_list_decl :: "env \<Rightarrow> ast_kind \<Rightarrow> ast P" where
  "build_id_list_decl e kind =
     bnd (new_ast_node kind) (\<lambda>decl.
     bnd (expect Token_BraceOpen ''`{` was expected'') (\<lambda>_.
     bnd (require token_is_name ''name was expected'') (\<lambda>_.
     bnd (attr_list ''id_list'' (build_identifierList e) decl) (\<lambda>decl.
     bnd (expect Token_BraceClose ''`}` was expected'') (\<lambda>_.
     ret decl)))))"

definition build_errorDeclaration :: "env \<Rightarrow> ast P" where
  "build_errorDeclaration e =
     bnd (expect Token_Error ''`error` was expected'') (\<lambda>_.
     build_id_list_decl e Ast_Error)"

definition build_matchKindDeclaration :: "env \<Rightarrow> ast P" where
  "build_matchKindDeclaration e =
     bnd (expect Token_MatchKind ''`match_kind` was expected'') (\<lambda>_.
     build_id_list_decl e Ast_MatchKind)"

definition build_functionDeclaration :: "env \<Rightarrow> ast \<Rightarrow> ast P" where
  "build_functionDeclaration e type_ref =
     bnd (require token_is_typeOrVoid ''type was expected'') (\<lambda>_.
     bnd (new_ast_node Ast_FunctionDecl) (\<lambda>decl.
     bnd (attr_ast ''proto'' (build_functionPrototype e (Some type_ref)) decl) (\<lambda>decl.
     bnd (require (has_class Token_BraceOpen) ''`{` was expected'') (\<lambda>_.
     attr_ast ''stmt'' (handler e Call_blockStatement) decl))))"

definition build_declaration :: "env \<Rightarrow> ast option P" where
  "build_declaration e =
     if_tok token_is_declaration
       (if_class Token_Const (some_step (build_constantDeclaration e))
       (if_class Token_Extern (build_externDeclaration e)
       (if_class Token_Action (some_step (build_actionDeclaration e))
       (if_tok token_is_typeDeclaration (some_step (build_typeDeclaration e))
       (if_class Token_Error (some_step (build_errorDeclaration e))
       (if_class Token_MatchKind (some_step (build_matchKindDeclaration e))
       (if_tok token_is_typeRef
          (bnd (handler e Call_typeRef) (\<lambda>type_ref.
           if_class Token_ParenthOpen (some_step (build_instantiation e (Some type_ref)))
              (if_tok token_is_name (some_step (build_functionDeclaration e type_ref))
              (expected ''unexpected token''))))
       (if_tok token_is_typeOrVoid
          (some_step (bnd (handler e Call_typeRef) (build_functionDeclaration e)))
       (fail Assert_failed)))))))))
     (expected ''top-level declaration as expected'')"

primrec p4program_loop :: "nat \<Rightarrow> env \<Rightarrow> ast list \<Rightarrow> ast list P" where
  "p4program_loop 0 e decls = fail Out_of_fuel"
| "p4program_loop (Suc n) e decls =
     if_tok token_is_declaration
       (bnd (non_null (build_declaration e)) (\<lambda>decl. p4program_loop n e (decls @ [decl])))
     (if_class Token_Semicolon
       (bnd next_tok (\<lambda>_. p4program_loop n e decls))
     (ret decls))"

definition build_p4program :: "env \<Rightarrow> ast P" where
  "build_p4program e =
     bnd (new_ast_node Ast_P4Program) (\<lambda>program.
     bnd (p4program_loop (rounds e) e []) (\<lambda>decls.
     bnd (set_list ''decl_list'' (Some decls) program) (\<lambda>program.
     bnd (require (has_class Token_EndOfInput) ''unexpected token'') (\<lambda>_.
     ret program))))"

section \<open>The knot\<close>

text \<open>
  \<open>build n c\<close>: the call \<open>c\<close> with at most \<open>n\<close> nested calls of the five functions, and at most
  \<open>n\<close> rounds of each loop.
\<close>

definition env_of :: "nat \<Rightarrow> (call \<Rightarrow> ast P) \<Rightarrow> env" where
  "env_of n h = \<lparr>rounds = n, handler = h\<rparr>"

definition dispatch :: "env \<Rightarrow> call \<Rightarrow> ast P" where
  "dispatch e c =
     (case c of
        Call_expression priority_threshold \<Rightarrow> build_expression e priority_threshold
      | Call_typeRef \<Rightarrow> build_typeRef e
      | Call_blockStatement \<Rightarrow> build_blockStatement e
      | Call_statement type_name \<Rightarrow> build_statement e type_name
      | Call_parserStatement \<Rightarrow> build_parserStatement e)"

primrec build :: "nat \<Rightarrow> call \<Rightarrow> ast P" where
  "build 0 c = fail Out_of_fuel"
| "build (Suc n) c = dispatch (env_of n (build n)) c"

definition parse_env :: "nat \<Rightarrow> env" where
  "parse_env n = env_of n (build n)"

text \<open>
  \<open>build_ast_program\<close>, with the symbol table as \<open>symtable_init\<close> leaves it. The statics
  \<open>node_id\<close> and \<open>node_count\<close> start at 1 and 0.
\<close>

definition init_parser :: "token list \<Rightarrow> symtable \<Rightarrow> parser" where
  "init_parser ts st =
     \<lparr>ps_tokens = ts, token_at = 0, prev_token_at = 0, node_id = 1, node_count = 0,
      ps_symtable = st\<rparr>"

definition build_ast_program :: "nat \<Rightarrow> ast P" where
  "build_ast_program n =
     bnd (gets (\<lambda>s. ps_tokens s \<noteq> [])) (\<lambda>nonempty.
     bnd (assert_cmd nonempty) (\<lambda>_.
     bnd (modify (\<lambda>s. s\<lparr>token_at := 0\<rparr>)) (\<lambda>_.
     bnd next_tok (\<lambda>_.
     build_p4program (parse_env n)))))"

text \<open>Two levels of calls per token, and a few more.\<close>

definition parse_fuel :: "token list \<Rightarrow> nat" where
  "parse_fuel ts = 2 * length ts + 2"

end
