(* ===== verification/SymtabProps.thy ===== *)
theory SymtabProps
  imports Symtab AstTab
begin

text \<open>
  The symbol table as a map from names to entries. The invariant: the array has a chain for
  each hash value of the current capacity, an entry is in the chain of its name's hash, no
  name occurs twice, and \<open>entry_count\<close> counts the entries. Every operation keeps it; growing
  keeps the map. Then what scopes do to declarations, and what they do to keywords.
\<close>

section \<open>Hashing\<close>

lemma bucket_index_defined:
  assumes "0 < k" and "k < 31"
  obtains h where "bucket_index name k = Inr h" and "h < 2 ^ k - 1"
proof -
  have "k < 2 ^ 32" using assms(2) by simp
  then have k: "unat (word_of_nat k :: u32) = k"
    by (simp add: unat_of_nat take_bit_nat_eq_self_iff)
  have "(0 :: u32) < word_of_nat k" "(word_of_nat k :: u32) < 31"
    using assms k by (auto simp: word_less_nat_alt)
  then obtain h where "hash_string name (word_of_nat k) = Inr h"
    and "unat h < 2 ^ unat (word_of_nat k :: u32) - 1"
    unfolding hash_string_def by (rule bucket_of_defined)
  with k that show thesis by (auto simp: bucket_index_def)
qed

section \<open>Chains\<close>

lemma find_entry_None: "find_entry es name = None \<longleftrightarrow> name \<notin> ent_name ` set es"
  by (induction es) auto

lemma find_entry_name: "find_entry es name = Some e \<Longrightarrow> ent_name e = name \<and> e \<in> set es"
  by (induction es) (auto split: if_splits)

lemma find_entry_in: "distinct (map ent_name es) \<Longrightarrow> e \<in> set es \<Longrightarrow> find_entry es (ent_name e) = Some e"
  by (induction es) (auto simp: image_iff)

lemma update_entry_names:
  "(\<And>e. ent_name (f e) = ent_name e) \<Longrightarrow> map ent_name (update_entry f name es) = map ent_name es"
  by (induction es) auto

lemma length_update_entry [simp]: "length (update_entry f name es) = length es"
  by (induction es) auto

lemma find_update_entry:
  "(\<And>e. ent_name (f e) = ent_name e) \<Longrightarrow>
   find_entry (update_entry f name es) n =
     (if n = name then map_option f (find_entry es name) else find_entry es n)"
  by (induction es) auto

definition chains_wf :: "nat \<Rightarrow> symtable_entry list list \<Rightarrow> bool" where
  "chains_wf k bs \<longleftrightarrow>
     0 < k \<and> k < 31 \<and> length bs = 2 ^ k - 1 \<and>
     (\<forall>i < length bs. \<forall>e \<in> set (bs ! i). bucket_index (ent_name e) k = Inr i) \<and>
     (\<forall>i < length bs. distinct (map ent_name (bs ! i)))"

definition chains_lookup :: "nat \<Rightarrow> symtable_entry list list \<Rightarrow> string \<Rightarrow> symtable_entry option" where
  "chains_lookup k bs name =
     (case bucket_index name k of Inl f \<Rightarrow> None | Inr h \<Rightarrow> find_entry (bs ! h) name)"

lemma distinct_concat_placed:
  "\<forall>i < length bs. distinct (map ent_name (bs ! i)) \<Longrightarrow>
   \<forall>i < length bs. \<forall>e \<in> set (bs ! i). place (ent_name e) = Some (i + off) \<Longrightarrow>
   distinct (map ent_name (concat bs))"
proof (induction bs arbitrary: off)
  case Nil
  then show ?case by simp
next
  case (Cons b bs)
  have rest: "distinct (map ent_name b)" "\<forall>i < length bs. distinct (map ent_name (bs ! i))"
    "\<forall>e \<in> set b. place (ent_name e) = Some off"
    "\<forall>i < length bs. \<forall>e \<in> set (bs ! i). place (ent_name e) = Some (i + Suc off)"
    using Cons.prems by (auto simp: All_less_Suc2)
  then have "distinct (map ent_name (concat bs))" using Cons.IH by blast
  moreover have "place (ent_name e) \<noteq> Some off" if e: "e \<in> set (concat bs)" for e
  proof -
    obtain b' where b': "b' \<in> set bs" "e \<in> set b'" using e by auto
    then obtain i where "i < length bs" "bs ! i = b'" by (auto simp: in_set_conv_nth)
    with b' have "i < length bs" "e \<in> set (bs ! i)" by simp_all
    with rest(4) show ?thesis by auto
  qed
  ultimately show ?case using rest(1,3) by fastforce
qed

lemma chains_wf_names_distinct:
  assumes "chains_wf k bs"
  shows "distinct (map ent_name (concat bs))"
proof (rule distinct_concat_placed)
  show "\<forall>i < length bs. \<forall>e \<in> set (bs ! i).
      (case bucket_index (ent_name e) k of Inl f \<Rightarrow> None | Inr h \<Rightarrow> Some h) = Some (i + 0)"
    using assms by (simp add: chains_wf_def)
qed (use assms in \<open>simp add: chains_wf_def\<close>)

lemma chains_lookup_concat:
  assumes wf: "chains_wf k bs"
  shows "chains_lookup k bs name = find_entry (concat bs) name"
proof (cases "find_entry (concat bs) name")
  case None
  obtain h where h: "bucket_index name k = Inr h" "h < length bs"
    using wf by (auto simp: chains_wf_def intro: bucket_index_defined [of k name])
  then have "bs ! h \<in> set bs" by simp
  then have "find_entry (bs ! h) name = None"
    using None by (auto simp: find_entry_None)
  then show ?thesis using None h by (simp add: chains_lookup_def)
next
  case (Some e)
  then obtain b where e: "ent_name e = name" "e \<in> set b" "b \<in> set bs"
    using find_entry_name by fastforce
  then obtain i where "i < length bs" "bs ! i = b" by (auto simp: in_set_conv_nth)
  then have "bucket_index name k = Inr i" "distinct (map ent_name (bs ! i))"
    using wf e by (auto simp: chains_wf_def)
  then show ?thesis
    using Some e \<open>bs ! i = b\<close> find_entry_in [of "bs ! i" e] by (simp add: chains_lookup_def)
qed

text \<open>Putting a new entry at the front of its chain.\<close>

lemma chains_insert:
  assumes wf: "chains_wf k bs" and h: "bucket_index (ent_name e) k = Inr h"
    and new: "chains_lookup k bs (ent_name e) = None"
  shows "h < length bs" "chains_wf k (bs[h := e # bs ! h])"
    "chains_lookup k (bs[h := e # bs ! h]) n =
       (if n = ent_name e then Some e else chains_lookup k bs n)"
    "length (concat (bs[h := e # bs ! h])) = Suc (length (concat bs))"
proof -
  obtain h' where "bucket_index (ent_name e) k = Inr h'" "h' < 2 ^ k - 1"
    using wf by (auto simp: chains_wf_def intro: bucket_index_defined [of k "ent_name e"])
  with h wf show hl: "h < length bs" by (simp add: chains_wf_def)
  have "find_entry (bs ! h) (ent_name e) = None" using new h by (simp add: chains_lookup_def)
  then have fresh: "ent_name e \<notin> ent_name ` set (bs ! h)" by (simp add: find_entry_None)
  then show "chains_wf k (bs[h := e # bs ! h])"
    using wf h hl by (auto simp: chains_wf_def nth_list_update)
  obtain g where g: "bucket_index n k = Inr g" "g < 2 ^ k - 1"
    using wf by (auto simp: chains_wf_def intro: bucket_index_defined [of k n])
  show "chains_lookup k (bs[h := e # bs ! h]) n =
       (if n = ent_name e then Some e else chains_lookup k bs n)"
    using g h hl by (auto simp: chains_lookup_def nth_list_update)
  show "length (concat (bs[h := e # bs ! h])) = Suc (length (concat bs))"
    using length_concat_update [OF hl, of "e # bs ! h"] by simp
qed

text \<open>Updating the entry of a name in place.\<close>

lemma chains_update:
  assumes wf: "chains_wf k bs" and h: "bucket_index name k = Inr h"
    and f: "\<And>e. ent_name (f e) = ent_name e"
  shows "h < length bs" "chains_wf k (bs[h := update_entry f name (bs ! h)])"
    "chains_lookup k (bs[h := update_entry f name (bs ! h)]) n =
       (if n = name then map_option f (chains_lookup k bs name) else chains_lookup k bs n)"
    "length (concat (bs[h := update_entry f name (bs ! h)])) = length (concat bs)"
proof -
  obtain h' where "bucket_index name k = Inr h'" "h' < 2 ^ k - 1"
    using wf by (auto simp: chains_wf_def intro: bucket_index_defined [of k name])
  with h wf show hl: "h < length bs" by (simp add: chains_wf_def)
  have names: "map ent_name (update_entry f name (bs ! h)) = map ent_name (bs ! h)"
    using f by (rule update_entry_names)
  then have "ent_name ` set (update_entry f name (bs ! h)) = ent_name ` set (bs ! h)"
    by (metis list.set_map)
  then have "bucket_index (ent_name e) k = Inr h" if "e \<in> set (update_entry f name (bs ! h))" for e
    using that wf hl unfolding chains_wf_def by (metis image_eqI imageE)
  then show "chains_wf k (bs[h := update_entry f name (bs ! h)])"
    using wf names hl by (auto simp: chains_wf_def nth_list_update)
  obtain g where g: "bucket_index n k = Inr g" "g < 2 ^ k - 1"
    using wf by (auto simp: chains_wf_def intro: bucket_index_defined [of k n])
  show "chains_lookup k (bs[h := update_entry f name (bs ! h)]) n =
       (if n = name then map_option f (chains_lookup k bs name) else chains_lookup k bs n)"
    using g h hl by (auto simp: chains_lookup_def nth_list_update find_update_entry [OF f])
  show "length (concat (bs[h := update_entry f name (bs ! h)])) = length (concat bs)"
    using length_concat_update [OF hl, of "update_entry f name (bs ! h)"] by simp
qed

text \<open>Putting the saved entries back.\<close>

definition with_buckets :: "symtable \<Rightarrow> symtable_entry list list \<Rightarrow> symtable" where
  "with_buckets st bs = st\<lparr>st_buckets := bs\<rparr>"

lemma reinsert_wf:
  "chains_wf (capacity_log2 st) (st_buckets st) \<Longrightarrow> distinct (map ent_name es) \<Longrightarrow>
   (\<And>e. e \<in> set es \<Longrightarrow> chains_lookup (capacity_log2 st) (st_buckets st) (ent_name e) = None) \<Longrightarrow>
   \<exists>bs. reinsert es st = Inr (st\<lparr>st_buckets := bs\<rparr>) \<and> chains_wf (capacity_log2 st) bs \<and>
     length (concat bs) = length (concat (st_buckets st)) + length es \<and>
     (\<forall>n. chains_lookup (capacity_log2 st) bs n =
       (case find_entry es n of Some e \<Rightarrow> Some e
        | None \<Rightarrow> chains_lookup (capacity_log2 st) (st_buckets st) n))"
proof (induction es arbitrary: st)
  case Nil
  then show ?case by (intro exI [of _ "st_buckets st"]) simp
next
  case (Cons e es)
  let ?k = "capacity_log2 st" and ?bs = "st_buckets st"
  obtain h where h: "bucket_index (ent_name e) ?k = Inr h" "h < 2 ^ ?k - 1"
    using Cons.prems(1) by (auto simp: chains_wf_def intro: bucket_index_defined [of ?k "ent_name e"])
  have new: "chains_lookup ?k ?bs (ent_name e) = None" using Cons.prems(3) by simp
  note ins = chains_insert [OF Cons.prems(1) h(1) new]
  let ?st = "st\<lparr>st_buckets := ?bs[h := e # ?bs ! h]\<rparr>"
  have run: "reinsert (e # es) st = reinsert es ?st"
    using h ins(1) by (simp add: bucket_at_def bucket_set_def)
  have "chains_lookup ?k (st_buckets ?st) (ent_name e') = None" if "e' \<in> set es" for e'
    using that Cons.prems(2,3) ins(3) by (force simp: image_iff)
  with ins(2) Cons.prems(2) have "\<exists>bs. reinsert es ?st = Inr (?st\<lparr>st_buckets := bs\<rparr>) \<and>
    chains_wf ?k bs \<and> length (concat bs) = length (concat (st_buckets ?st)) + length es \<and>
    (\<forall>n. chains_lookup ?k bs n = (case find_entry es n of Some e \<Rightarrow> Some e
        | None \<Rightarrow> chains_lookup ?k (st_buckets ?st) n))"
    using Cons.IH [of ?st] by (simp cong: option.case_cong)
  then obtain bs where bs: "reinsert es ?st = Inr (?st\<lparr>st_buckets := bs\<rparr>)" "chains_wf ?k bs"
    "length (concat bs) = length (concat (st_buckets ?st)) + length es"
    "\<forall>n. chains_lookup ?k bs n = (case find_entry es n of Some e \<Rightarrow> Some e
        | None \<Rightarrow> chains_lookup ?k (st_buckets ?st) n)"
    by blast
  show ?case
  proof (intro exI [of _ bs] conjI allI)
    fix n
    have "ent_name e \<notin> ent_name ` set es" using Cons.prems(2) by simp
    then show "chains_lookup ?k bs n = (case find_entry (e # es) n of Some e \<Rightarrow> Some e
        | None \<Rightarrow> chains_lookup ?k ?bs n)"
      using bs(4) ins(3) by (auto split: option.splits simp: find_entry_None)
  qed (use run bs ins(4) in simp_all)
qed

section \<open>The table\<close>

definition symtable_wf :: "symtable \<Rightarrow> bool" where
  "symtable_wf st \<longleftrightarrow>
     chains_wf (capacity_log2 st) (st_buckets st) \<and>
     capacity_of st = 2 ^ capacity_log2 st - 1 \<and>
     entry_count st = int (length (concat (st_buckets st))) \<and>
     entry_count st \<le> capacity_of st"

definition st_lookup :: "symtable \<Rightarrow> string \<Rightarrow> symtable_entry option" where
  "st_lookup st name = chains_lookup (capacity_log2 st) (st_buckets st) name"

text \<open>Everything but the entries and the capacity.\<close>

definition same_scope :: "symtable \<Rightarrow> symtable \<Rightarrow> bool" where
  "same_scope st st' \<longleftrightarrow> scope_level st' = scope_level st \<and> page_bytes st' = page_bytes st"

lemma chains_empty: "0 < k \<Longrightarrow> k < 31 \<Longrightarrow> chains_wf k (replicate (2 ^ k - 1) [])"
  by (simp add: chains_wf_def)

lemma chains_lookup_empty:
  "0 < k \<Longrightarrow> k < 31 \<Longrightarrow> chains_lookup k (replicate (2 ^ k - 1) []) name = None"
  by (rule bucket_index_defined [of k name]) (auto simp: chains_lookup_def)

lemma nat_capacity: "nat (2 ^ k - 1) = 2 ^ k - 1"
  by (simp add: nat_diff_distrib nat_power_eq)

text \<open>The table can grow: the temporary array is large enough and the capacity is an \<open>int\<close>.\<close>

definition can_grow :: "symtable \<Rightarrow> bool" where
  "can_grow st \<longleftrightarrow>
     capacity_log2 st < 30 \<and>
     SIZEOF_POINTER * capacity_of st \<le> fresh_bytes (page_bytes st) (capacity_of st)"

lemma grow_symtable_cases:
  assumes wf: "symtable_wf st" and full: "entry_count st = capacity_of st"
  shows "grow_symtable st =
    (if can_grow st then
       reinsert (concat (st_buckets st))
         (st\<lparr>capacity_log2 := Suc (capacity_log2 st), capacity_of := 2 ^ Suc (capacity_log2 st) - 1,
            st_buckets := replicate (2 ^ Suc (capacity_log2 st) - 1) []\<rparr>)
     else Inl Bad_access)"
proof -
  let ?k = "capacity_log2 st" and ?bs = "st_buckets st"
  have len: "length ?bs = 2 ^ ?k - 1"
    and cap: "capacity_of st = 2 ^ ?k - 1" and cnt: "entry_count st = int (length (concat ?bs))"
    using wf by (simp_all add: symtable_wf_def chains_wf_def)
  have all: "take (nat (capacity_of st)) ?bs = ?bs"
    using cap len nat_capacity [of ?k] by simp
  have ilen: "int (length ?bs) = capacity_of st"
    using cap len by (simp add: of_nat_diff)
  have saved: "int (length (concat ?bs)) = capacity_of st" using cnt full by simp
  show ?thesis
    unfolding grow_symtable_def Let_def all ilen saved full
    by (simp add: can_grow_def nat_capacity [of "Suc ?k", simplified])
qed

lemma grow_symtable_wf:
  assumes wf: "symtable_wf st" and full: "entry_count st = capacity_of st" and grow: "can_grow st"
  shows "\<exists>st'. grow_symtable st = Inr st' \<and> symtable_wf st' \<and> st_lookup st' = st_lookup st \<and>
    same_scope st st' \<and> entry_count st' = entry_count st \<and> entry_count st' < capacity_of st'"
proof -
  let ?k = "capacity_log2 st" and ?bs = "st_buckets st"
  let ?e = "replicate (2 ^ Suc ?k - 1) []"
  let ?st = "st\<lparr>capacity_log2 := Suc ?k, capacity_of := 2 ^ Suc ?k - 1, st_buckets := ?e\<rparr>"
  have k': "Suc ?k < 31" using grow by (simp add: can_grow_def)
  have cap: "capacity_of st = 2 ^ ?k - 1" and cnt: "entry_count st = int (length (concat ?bs))"
    using wf by (simp_all add: symtable_wf_def)
  have e: "chains_wf (Suc ?k) ?e" "chains_lookup (Suc ?k) ?e n = None" for n
    using chains_empty [OF _ k'] chains_lookup_empty [OF _ k'] by blast+
  have d: "distinct (map ent_name (concat ?bs))"
    by (rule chains_wf_names_distinct [of ?k]) (use wf in \<open>simp add: symtable_wf_def\<close>)
  have "\<exists>bs. reinsert (concat ?bs) ?st = Inr (?st\<lparr>st_buckets := bs\<rparr>) \<and>
    chains_wf (capacity_log2 ?st) bs \<and>
    length (concat bs) = length (concat (st_buckets ?st)) + length (concat ?bs) \<and>
    (\<forall>n. chains_lookup (capacity_log2 ?st) bs n =
      (case find_entry (concat ?bs) n of Some e \<Rightarrow> Some e
       | None \<Rightarrow> chains_lookup (capacity_log2 ?st) (st_buckets ?st) n))"
    by (rule reinsert_wf) (use e d in \<open>simp_all del: replicate_Suc power_Suc\<close>)
  then obtain bs where r0: "reinsert (concat ?bs) ?st = Inr (?st\<lparr>st_buckets := bs\<rparr>)"
    and w: "chains_wf (capacity_log2 ?st) bs"
    and len0: "length (concat bs) = length (concat (st_buckets ?st)) + length (concat ?bs)"
    and look: "\<forall>n. chains_lookup (capacity_log2 ?st) bs n =
      (case find_entry (concat ?bs) n of Some e \<Rightarrow> Some e
       | None \<Rightarrow> chains_lookup (capacity_log2 ?st) (st_buckets ?st) n)"
    by blast
  have look': "chains_lookup (Suc ?k) bs n = find_entry (concat ?bs) n" for n
    using spec [OF look, of n] e(2) [of n] by (simp del: replicate_Suc power_Suc split: option.splits)
  have bs: "reinsert (concat ?bs) ?st = Inr (?st\<lparr>st_buckets := bs\<rparr>)" "chains_wf (Suc ?k) bs"
    "length (concat bs) = length (concat ?bs)"
    "\<forall>n. chains_lookup (Suc ?k) bs n = find_entry (concat ?bs) n"
    using r0 w len0 look' by (simp_all add: concat_replicate_trivial)
  let ?st' = "?st\<lparr>st_buckets := bs\<rparr>"
  have more: "(2::int) ^ ?k - 1 < 2 ^ Suc ?k - 1" by simp
  have "grow_symtable st = Inr ?st'"
    using grow_symtable_cases [OF wf full] grow bs(1) by simp
  moreover have "st_lookup ?st' = st_lookup st"
    using wf bs(4) chains_lookup_concat by (auto simp: st_lookup_def symtable_wf_def)
  moreover have "symtable_wf ?st'" "same_scope st ?st'" "entry_count ?st' < capacity_of ?st'"
    using bs(2,3) cnt cap full more by (simp_all add: symtable_wf_def same_scope_def)
  ultimately show ?thesis by (intro exI [of _ ?st']) simp
qed

lemma insert_entry_wf:
  assumes wf: "symtable_wf st" and new: "st_lookup st name = None"
    and room: "entry_count st < capacity_of st"
  shows "\<exists>st'. insert_entry name st = Inr (null_entry name, st') \<and> symtable_wf st' \<and>
    st_lookup st' = (st_lookup st)(name \<mapsto> null_entry name) \<and> same_scope st st' \<and>
    entry_count st' = entry_count st + 1 \<and> capacity_of st' = capacity_of st"
proof -
  let ?k = "capacity_log2 st" and ?bs = "st_buckets st"
  have wfc: "chains_wf ?k ?bs" using wf by (simp add: symtable_wf_def)
  obtain h where h: "bucket_index name ?k = Inr h" "h < 2 ^ ?k - 1"
    using wfc by (auto simp: chains_wf_def intro: bucket_index_defined [of ?k name])
  have nm: "ent_name (null_entry name) = name" by (simp add: null_entry_def)
  note ins = chains_insert [OF wfc, of "null_entry name" h, unfolded nm, OF h(1)
      new [unfolded st_lookup_def]]
  let ?st = "st\<lparr>st_buckets := ?bs[h := null_entry name # ?bs ! h], entry_count := entry_count st + 1\<rparr>"
  have "insert_entry name st = Inr (null_entry name, ?st)"
    using h ins(1) by (simp add: insert_entry_def bucket_at_def bucket_set_def)
  moreover have "symtable_wf ?st" using ins wf room by (simp add: symtable_wf_def)
  moreover have "st_lookup ?st = (st_lookup st)(name \<mapsto> null_entry name)"
    using ins(3) by (auto simp: st_lookup_def)
  ultimately show ?thesis by (auto simp: same_scope_def)
qed

text \<open>
  \<open>get_symtable_entry\<close>, whenever it returns: the entry of the name, made if there was none,
  and no other entry changes, also when the table grows on the way.
\<close>

definition entry_or_null :: "symtable \<Rightarrow> string \<Rightarrow> symtable_entry" where
  "entry_or_null st name = (case st_lookup st name of Some e \<Rightarrow> e | None \<Rightarrow> null_entry name)"

definition get_post :: "string \<Rightarrow> symtable \<Rightarrow> symtable_entry \<Rightarrow> symtable \<Rightarrow> bool" where
  "get_post name st e st' \<longleftrightarrow>
     symtable_wf st' \<and> e = entry_or_null st name \<and>
     st_lookup st' = (st_lookup st)(name \<mapsto> e) \<and> same_scope st st' \<and>
     entry_count st' = (if st_lookup st name = None then entry_count st + 1 else entry_count st)"

lemma get_symtable_entry_post:
  assumes wf: "symtable_wf st" and run: "get_symtable_entry name st = Inr (e, st')"
  shows "get_post name st e st'"
proof -
  let ?k = "capacity_log2 st" and ?bs = "st_buckets st"
  have wfc: "chains_wf ?k ?bs" using wf by (simp add: symtable_wf_def)
  obtain h where h: "bucket_index name ?k = Inr h" "h < 2 ^ ?k - 1"
    using wfc by (auto simp: chains_wf_def intro: bucket_index_defined [of ?k name])
  have hl: "h < length ?bs" using h wfc by (simp add: chains_wf_def)
  have lk: "st_lookup st name = find_entry (?bs ! h) name"
    using h by (simp add: st_lookup_def chains_lookup_def)
  show ?thesis
  proof (cases "find_entry (?bs ! h) name")
    case (Some x)
    then have "e = x" "st' = st" using run h hl by (auto simp: get_symtable_entry_def bucket_at_def)
    then show ?thesis
      using Some lk wf by (auto simp: get_post_def entry_or_null_def same_scope_def)
  next
    case None
    obtain st1 where st1: "symtable_wf st1" "st_lookup st1 = st_lookup st" "same_scope st st1"
      "entry_count st1 = entry_count st" "entry_count st1 < capacity_of st1"
      "insert_entry name st1 = Inr (e, st')"
    proof (cases "entry_count st \<ge> capacity_of st")
      case True
      then have full: "entry_count st = capacity_of st" using wf by (simp add: symtable_wf_def)
      from True obtain st1 where "grow_symtable st = Inr st1" "insert_entry name st1 = Inr (e, st')"
        using run h hl None
        by (auto simp: get_symtable_entry_def bucket_at_def bnd_r_Inr_iff)
      moreover have "can_grow st"
        using calculation grow_symtable_cases [OF wf full] by (auto split: if_splits)
      ultimately show ?thesis using grow_symtable_wf [OF wf full] that by fastforce
    next
      case False
      with run h hl None wf that [of st] show ?thesis
        by (simp add: get_symtable_entry_def bucket_at_def same_scope_def)
    qed
    have "st_lookup st1 name = None" using st1(2) lk None by simp
    from insert_entry_wf [OF st1(1) this st1(5)] obtain st2 where st2:
      "insert_entry name st1 = Inr (null_entry name, st2)" "symtable_wf st2"
      "st_lookup st2 = (st_lookup st1)(name \<mapsto> null_entry name)" "same_scope st1 st2"
      "entry_count st2 = entry_count st1 + 1" by blast
    then show ?thesis
      using st1 lk None by (auto simp: get_post_def entry_or_null_def same_scope_def)
  qed
qed

text \<open>It returns unless the table is full and cannot grow.\<close>

lemma get_symtable_entry_returns:
  assumes wf: "symtable_wf st"
    and room: "st_lookup st name \<noteq> None \<or> entry_count st < capacity_of st \<or> can_grow st"
  shows "\<exists>e st'. get_symtable_entry name st = Inr (e, st')"
proof -
  let ?k = "capacity_log2 st" and ?bs = "st_buckets st"
  have wfc: "chains_wf ?k ?bs" using wf by (simp add: symtable_wf_def)
  obtain h where h: "bucket_index name ?k = Inr h" "h < 2 ^ ?k - 1"
    using wfc by (auto simp: chains_wf_def intro: bucket_index_defined [of ?k name])
  have hl: "h < length ?bs" using h wfc by (simp add: chains_wf_def)
  have lk: "st_lookup st name = find_entry (?bs ! h) name"
    using h by (simp add: st_lookup_def chains_lookup_def)
  show ?thesis
  proof (cases "find_entry (?bs ! h) name")
    case (Some x)
    with h hl show ?thesis by (simp add: get_symtable_entry_def bucket_at_def)
  next
    case None
    obtain st1 where st1: "symtable_wf st1" "st_lookup st1 = st_lookup st"
      "entry_count st1 < capacity_of st1"
      "(if entry_count st \<ge> capacity_of st then grow_symtable st else Inr st) = Inr st1"
    proof (cases "entry_count st \<ge> capacity_of st")
      case True
      then have "entry_count st = capacity_of st" "can_grow st"
        using wf room lk None by (auto simp: symtable_wf_def)
      from grow_symtable_wf [OF wf this] that True show ?thesis by auto
    next
      case False
      with wf that [of st] show ?thesis by simp
    qed
    have "st_lookup st1 name = None" using st1(2) lk None by simp
    from insert_entry_wf [OF st1(1) this st1(3)] st1(4) h hl None show ?thesis
      by (auto simp: get_symtable_entry_def bucket_at_def)
  qed
qed

lemma store_entry_post:
  assumes wf: "symtable_wf st" and f: "\<And>e. ent_name (f e) = ent_name e"
  shows "\<exists>st'. store_entry name f st = Inr ((), st') \<and> symtable_wf st' \<and>
    st_lookup st' = (st_lookup st)(name := map_option f (st_lookup st name)) \<and>
    same_scope st st' \<and> entry_count st' = entry_count st"
proof -
  let ?k = "capacity_log2 st" and ?bs = "st_buckets st"
  have wfc: "chains_wf ?k ?bs" using wf by (simp add: symtable_wf_def)
  obtain h where h: "bucket_index name ?k = Inr h" "h < 2 ^ ?k - 1"
    using wfc by (auto simp: chains_wf_def intro: bucket_index_defined [of ?k name])
  note upd = chains_update [OF wfc h(1), of f, OF f]
  let ?st = "st\<lparr>st_buckets := ?bs[h := update_entry f name (?bs ! h)]\<rparr>"
  have "store_entry name f st = Inr ((), ?st)"
    using h upd(1) by (simp add: store_entry_def bucket_at_def bucket_set_def)
  moreover have "symtable_wf ?st" using upd(2,4) wf by (auto simp: symtable_wf_def)
  moreover have "st_lookup ?st = (st_lookup st)(name := map_option f (st_lookup st name))"
    using upd(3) by (auto simp: st_lookup_def)
  ultimately show ?thesis by (auto simp: same_scope_def)
qed

section \<open>Declarations\<close>

text \<open>The three symbol stacks of a name; a name without an entry has empty ones.\<close>

definition symbols :: "symtable \<Rightarrow> string \<Rightarrow> symbol list \<times> symbol list \<times> symbol list" where
  "symbols st name =
     (let e = entry_or_null st name in (id_kw e, id_type e, id_ident e))"

lemma get_post_symbols: "get_post name st e st' \<Longrightarrow> symbols st' = symbols st"
  by (auto simp: get_post_def symbols_def entry_or_null_def Let_def split: option.splits)

lemma symtable_wf_entry_name: "symtable_wf st \<Longrightarrow> st_lookup st n = Some e \<Longrightarrow> ent_name e = n"
  by (auto simp: st_lookup_def chains_lookup_def split: sum.splits dest: find_entry_name)

text \<open>What \<open>name_is_declared\<close> answers: the top symbol of the kind's stack is of this scope or a later one.\<close>

lemma name_is_declared_post:
  assumes wf: "symtable_wf st" and run: "name_is_declared name kind st = Inr (b, st')"
  shows "symtable_wf st' \<and> symbols st' = symbols st \<and> same_scope st st' \<and>
    b = (case symbols st name of (kw, ty, idt) \<Rightarrow>
      declared_in (scope_level st)
        (if kind = Symbol_Keyword then kw else if kind = Symbol_Type then ty else idt))"
proof -
  obtain e st1 where get: "get_symtable_entry name st = Inr (e, st1)"
    using run by (auto simp: name_is_declared_def bnd_def split: sum.splits)
  have post: "get_post name st e st1" by (rule get_symtable_entry_post [OF wf get])
  then have "st' = st1"
    using run get
    by (auto simp: name_is_declared_def bnd_def gets_def ret_def fail_def split: if_splits)
  with run get post show ?thesis
    using get_post_symbols [OF post]
    by (auto simp: name_is_declared_def bnd_def gets_def ret_def fail_def get_post_def
        same_scope_def symbols_def Let_def split: if_splits)
qed

text \<open>A declaration pushes its symbol on the stack of its kind and changes nothing else.\<close>

lemma new_ident_post:
  assumes wf: "symtable_wf st" and run: "new_ident name ast line st = Inr (sy, st')"
  shows "symtable_wf st' \<and> same_scope st st' \<and> sym_scope_level sy = scope_level st \<and>
    symbols st' = (symbols st)(name :=
      (case symbols st name of (kw, ty, idt) \<Rightarrow> (kw, ty, sy # idt)))"
proof -
  obtain e st1 where get: "get_symtable_entry name st = Inr (e, st1)"
    using run by (auto simp: new_ident_def bnd_def split: sum.splits)
  have post: "get_post name st e st1" by (rule get_symtable_entry_post [OF wf get])
  let ?sym = "\<lparr>ident_kind = Symbol_Ident, sym_name = name, sym_scope_level = scope_level st,
    sym_ast = ast, sym_token_klass = Token_None\<rparr>"
  obtain st2 where st2: "store_entry name (\<lambda>e. e\<lparr>id_ident := ?sym # id_ident e\<rparr>) st1 = Inr ((), st2)"
    "symtable_wf st2" "same_scope st1 st2"
    "st_lookup st2 = (st_lookup st1)(name := map_option (\<lambda>e. e\<lparr>id_ident := ?sym # id_ident e\<rparr>)
       (st_lookup st1 name))"
    using store_entry_post [of st1 "\<lambda>e. e\<lparr>id_ident := ?sym # id_ident e\<rparr>" name] post
    by (auto simp: get_post_def)
  have "sy = ?sym" "st' = st2"
    using run get st2(1) post
    by (auto simp: new_ident_def bnd_def gets_def ret_def get_post_def same_scope_def)
  then show ?thesis
    using st2 post
    by (auto simp: get_post_def same_scope_def symbols_def entry_or_null_def Let_def fun_eq_iff
        split: option.splits)
qed

lemma new_type_post:
  assumes wf: "symtable_wf st" and run: "new_type name ast line st = Inr (sy, st')"
  shows "symtable_wf st' \<and> same_scope st st' \<and> sym_scope_level sy = scope_level st \<and>
    symbols st' = (symbols st)(name :=
      (case symbols st name of (kw, ty, idt) \<Rightarrow> (kw, sy # ty, idt)))"
proof -
  obtain e st1 where get: "get_symtable_entry name st = Inr (e, st1)"
    using run by (auto simp: new_type_def bnd_def split: sum.splits)
  have post: "get_post name st e st1" by (rule get_symtable_entry_post [OF wf get])
  let ?sym = "\<lparr>ident_kind = Symbol_Type, sym_name = name, sym_scope_level = scope_level st,
    sym_ast = ast, sym_token_klass = Token_None\<rparr>"
  obtain st2 where st2: "store_entry name (\<lambda>e. e\<lparr>id_type := ?sym # id_type e\<rparr>) st1 = Inr ((), st2)"
    "symtable_wf st2" "same_scope st1 st2"
    "st_lookup st2 = (st_lookup st1)(name := map_option (\<lambda>e. e\<lparr>id_type := ?sym # id_type e\<rparr>)
       (st_lookup st1 name))"
    using store_entry_post [of st1 "\<lambda>e. e\<lparr>id_type := ?sym # id_type e\<rparr>" name] post
    by (auto simp: get_post_def)
  have "sy = ?sym" "st' = st2"
    using run get st2(1) post
    by (auto simp: new_type_def bnd_def gets_def ret_def get_post_def same_scope_def)
  then show ?thesis
    using st2 post
    by (auto simp: get_post_def same_scope_def symbols_def entry_or_null_def Let_def fun_eq_iff
        split: option.splits)
qed

section \<open>Scopes\<close>

text \<open>
  What is left of a stack when a scope closes: one symbol is taken off if it belongs to the
  scope; if the top symbol is of an outer scope the whole stack is dropped.
\<close>

definition popped :: "int \<Rightarrow> symbol list \<Rightarrow> symbol list" where
  "popped level syms =
     (case syms of [] \<Rightarrow> [] | s # rest \<Rightarrow> if level \<le> sym_scope_level s then rest else [])"

lemma scope_delete_popped: "scope_delete_symbol level syms = Inr syms' \<Longrightarrow> syms' = popped level syms"
  by (auto simp: scope_delete_symbol_def popped_def split: list.splits if_splits)

lemma map_r_Inr: "map_r f xs = Inr ys \<longleftrightarrow> list_all2 (\<lambda>x y. f x = Inr y) xs ys"
  by (induction xs arbitrary: ys) (auto simp: bnd_r_Inr_iff list_all2_Cons1)

definition pop_symbols :: "int \<Rightarrow> symtable_entry \<Rightarrow> symtable_entry" where
  "pop_symbols level e =
     e\<lparr>id_kw := popped level (id_kw e), id_type := popped level (id_type e),
       id_ident := popped level (id_ident e)\<rparr>"

lemma pop_entry_symbols: "pop_entry level e = Inr e' \<Longrightarrow> e' = pop_symbols level e"
  by (auto simp: pop_entry_def pop_symbols_def bnd_r_Inr_iff dest!: scope_delete_popped)

lemma map_r_function: "(\<And>x y. f x = Inr y \<Longrightarrow> y = g x) \<Longrightarrow> map_r f xs = Inr ys \<Longrightarrow> ys = map g xs"
  by (induction xs arbitrary: ys) (auto simp: bnd_r_Inr_iff)

lemma find_entry_map:
  "(\<And>e. ent_name (f e) = ent_name e) \<Longrightarrow> find_entry (map f es) n = map_option f (find_entry es n)"
  by (induction es) auto

lemma pop_scope_buckets:
  assumes wf: "symtable_wf st" and run: "pop_scope st = Inr st'"
  shows "0 < scope_level st \<and>
    st' = st\<lparr>st_buckets := map (map (pop_symbols (scope_level st))) (st_buckets st),
             scope_level := scope_level st - 1\<rparr>"
proof -
  have all: "take (nat (capacity_of st)) (st_buckets st) = st_buckets st"
    "drop (nat (capacity_of st)) (st_buckets st) = []"
    using wf nat_capacity [of "capacity_log2 st"] by (simp_all add: symtable_wf_def chains_wf_def)
  obtain bs where "map_r (map_r (pop_entry (scope_level st))) (st_buckets st) = Inr bs"
    and "st' = st\<lparr>st_buckets := bs, scope_level := scope_level st - 1\<rparr>" "0 < scope_level st"
    using run unfolding pop_scope_def all by (auto simp: bnd_r_Inr_iff split: if_splits)
  moreover have "bs = map (map (pop_symbols (scope_level st))) (st_buckets st)"
    by (rule map_r_function [OF _ calculation(1)]) (rule map_r_function, rule pop_entry_symbols)
  ultimately show ?thesis by simp
qed

lemma pop_scope_post:
  assumes wf: "symtable_wf st" and run: "pop_scope st = Inr st'"
  shows "symtable_wf st' \<and> scope_level st' = scope_level st - 1 \<and>
    symbols st' name = (case symbols st name of (kw, ty, idt) \<Rightarrow>
      (popped (scope_level st) kw, popped (scope_level st) ty, popped (scope_level st) idt))"
proof -
  let ?f = "pop_symbols (scope_level st)"
  have f: "ent_name (?f e) = ent_name e" for e by (simp add: pop_symbols_def)
  have st': "st' = st\<lparr>st_buckets := map (map ?f) (st_buckets st), scope_level := scope_level st - 1\<rparr>"
    using pop_scope_buckets [OF wf run] by simp
  have names: "ent_name \<circ> ?f = ent_name" using f by auto
  have "length (concat (map (map ?f) bs)) = length (concat bs)" for bs :: "symtable_entry list list"
    by (induction bs) auto
  then have "symtable_wf st'"
    using wf f by (auto simp: symtable_wf_def chains_wf_def st' names)
  moreover have "st_lookup st' name = map_option ?f (st_lookup st name)"
  proof -
    obtain h where "bucket_index name (capacity_log2 st) = Inr h" "h < length (st_buckets st)"
      using wf by (auto simp: symtable_wf_def chains_wf_def
          intro: bucket_index_defined [of "capacity_log2 st" name])
    then show ?thesis by (simp add: st_lookup_def chains_lookup_def st' find_entry_map [OF f])
  qed
  ultimately show ?thesis
    by (auto simp: symbols_def entry_or_null_def Let_def st' pop_symbols_def null_entry_def
        popped_def split: option.splits)
qed

text \<open>A declaration of an outer scope is forgotten when an inner scope closes.\<close>

lemma popped_outer: "syms \<noteq> [] \<Longrightarrow> sym_scope_level (hd syms) < level \<Longrightarrow> popped level syms = []"
  by (cases syms) (auto simp: popped_def)

section \<open>Properties\<close>

text \<open>The symbol table keeps the contract of a table of named values.\<close>

definition entry_symbols :: "symtable_entry \<Rightarrow> symbol list \<times> symbol list \<times> symbol list" where
  "entry_symbols e = (id_kw e, id_type e, id_ident e)"

definition set_symbols :: "symbol list \<times> symbol list \<times> symbol list \<Rightarrow> symtable_entry \<Rightarrow> symtable_entry" where
  "set_symbols v e = (case v of (kw, ty, idt) \<Rightarrow> e\<lparr>id_kw := kw, id_type := ty, id_ident := idt\<rparr>)"

definition store_symbols ::
  "symtable \<Rightarrow> string \<Rightarrow> symbol list \<times> symbol list \<times> symbol list \<Rightarrow> symtable result" where
  "store_symbols st name v =
     (case bnd (get_symtable_entry name) (\<lambda>_. store_entry name (set_symbols v)) st of
        Inl f \<Rightarrow> Inl f | Inr (_, st') \<Rightarrow> Inr st')"

lemma store_symbols_post:
  assumes wf: "symtable_wf st" and run: "store_symbols st name v = Inr st'"
  shows "symtable_wf st' \<and> map_option entry_symbols (st_lookup st' n) =
    (if n = name then Some v else map_option entry_symbols (st_lookup st n))"
proof -
  obtain e st1 where get: "get_symtable_entry name st = Inr (e, st1)"
    using run by (auto simp: store_symbols_def bnd_def split: sum.splits)
  have post: "get_post name st e st1" by (rule get_symtable_entry_post [OF wf get])
  have keep: "ent_name (set_symbols v e) = ent_name e" for e
    by (simp add: set_symbols_def split: prod.splits)
  obtain st2 where st2: "store_entry name (set_symbols v) st1 = Inr ((), st2)" "symtable_wf st2"
    "st_lookup st2 = (st_lookup st1)(name := map_option (set_symbols v) (st_lookup st1 name))"
    using store_entry_post [of st1 "set_symbols v" name, OF _ keep] post by (auto simp: get_post_def)
  have "st' = st2" using run get st2(1) by (simp add: store_symbols_def bnd_def)
  then show ?thesis
    using st2 post by (auto simp: get_post_def entry_symbols_def set_symbols_def split: prod.splits)
qed

interpretation symtab: keyed_table symtable_wf
  "\<lambda>st name. map_option entry_symbols (st_lookup st name)" store_symbols
  by unfold_locales (use store_symbols_post in blast)+

text \<open>
  C7: \<open>get_symtable_entry\<close> returns the entry of the name, a fresh empty one if there was none,
  and afterwards every name, the new one included, finds the same symbols as before, even
  when the call grows and rehashes the table.
\<close>

theorem get_symtable_entry_keeps_symbols:
  assumes "symtable_wf st" and "get_symtable_entry name st = Inr (e, st')"
  shows "symtable_wf st' \<and> ent_name e = name \<and> (id_kw e, id_type e, id_ident e) = symbols st name \<and>
    symbols st' = symbols st \<and> st_lookup st' name = Some e \<and> scope_level st' = scope_level st"
proof -
  have post: "get_post name st e st'" by (rule get_symtable_entry_post [OF assms])
  then have "ent_name e = name"
    using symtable_wf_entry_name [OF assms(1)]
    by (auto simp: get_post_def entry_or_null_def null_entry_def split: option.splits)
  then show ?thesis
    using post get_post_symbols [OF post]
    by (simp add: get_post_def same_scope_def symbols_def Let_def)
qed

definition empty_symtable :: "nat \<Rightarrow> symtable" where
  "empty_symtable k =
     (symtable_start 4096)\<lparr>capacity_log2 := k, capacity_of := 2 ^ k - 1,
        st_buckets := replicate (2 ^ k - 1) []\<rparr>"

lemma empty_symtable_wf: "0 < k \<Longrightarrow> k < 31 \<Longrightarrow> symtable_wf (empty_symtable k)"
  using chains_empty [of k]
  by (simp add: symtable_wf_def empty_symtable_def symtable_start_def concat_replicate_trivial)

lemma empty_symtable_symbols:
  assumes "0 < k" and "k < 31"
  shows "symbols (empty_symtable k) name = ([], [], [])"
proof -
  have "st_lookup (empty_symtable k) name = None"
    using chains_lookup_empty [OF assms] by (simp add: st_lookup_def empty_symtable_def)
  then show ?thesis by (simp add: symbols_def entry_or_null_def null_entry_def Let_def)
qed

lemma empty_symtable_returns: "\<exists>e st'. get_symtable_entry name (empty_symtable 5) = Inr (e, st')"
  by (rule get_symtable_entry_returns [OF empty_symtable_wf])
    (simp_all add: empty_symtable_def symtable_start_def)

theorem get_symtable_entry_keeps_symbols_witness:
  "\<exists>e st'. get_symtable_entry ''x'' (empty_symtable 5) = Inr (e, st') \<and> ent_name e = ''x''"
  using empty_symtable_returns [of "''x''"]
    get_symtable_entry_keeps_symbols [OF empty_symtable_wf, of 5 "''x''"]
  by auto

text \<open>
  C36: with pages of 4096 bytes, a table of a capacity up to 511 has room for every further name:
  \<open>get_symtable_entry\<close> returns.
\<close>

theorem get_symtable_entry_total:
  assumes "symtable_wf st" and "page_bytes st = 4096" and "capacity_log2 st \<le> 9"
  shows "\<exists>e st'. get_symtable_entry name st = Inr (e, st')"
proof (rule get_symtable_entry_returns [OF assms(1)])
  have k: "0 < capacity_log2 st" and cap: "capacity_of st = 2 ^ capacity_log2 st - 1"
    using assms(1) by (simp_all add: symtable_wf_def chains_wf_def)
  have "capacity_log2 st \<in> {1, 2, 3, 4, 5, 6, 7, 8, 9}" using k assms(3) by auto
  then have "can_grow st"
    using assms(2) cap by (auto simp: can_grow_def fresh_bytes_def SIZEOF_POINTER_def)
  then show "st_lookup st name \<noteq> None \<or> entry_count st < capacity_of st \<or> can_grow st" by simp
qed

theorem get_symtable_entry_total_witness:
  "\<exists>e st'. get_symtable_entry ''x'' (empty_symtable 9) = Inr (e, st')"
  by (rule get_symtable_entry_total [OF empty_symtable_wf])
    (simp_all add: empty_symtable_def symtable_start_def)

text \<open>
  C35: the temporary array is requested with a size in elements, not in bytes, so with pages of
  4096 bytes a table that is full at 1023 names (or at any later capacity) writes past it when
  a new name comes.
\<close>

theorem get_symtable_entry_overflows:
  assumes "symtable_wf st" and "page_bytes st = 4096" and "10 \<le> capacity_log2 st"
    and "entry_count st = capacity_of st" and "st_lookup st name = None"
  shows "get_symtable_entry name st = Inl Bad_access"
proof -
  let ?k = "capacity_log2 st" and ?bs = "st_buckets st"
  have wfc: "chains_wf ?k ?bs" and cap: "capacity_of st = 2 ^ ?k - 1"
    using assms(1) by (simp_all add: symtable_wf_def)
  obtain h where h: "bucket_index name ?k = Inr h" "h < length ?bs"
    using wfc by (auto simp: chains_wf_def intro: bucket_index_defined [of ?k name])
  have "(2::int) ^ 10 \<le> 2 ^ ?k" using assms(3) by (intro power_increasing) auto
  then have "1023 \<le> capacity_of st" using cap by simp
  moreover have "4096 * ((c + 4095) div 4096) \<le> c + 4095" for c :: int
    using mult_div_mod_eq [of 4096 "c + 4095"] pos_mod_sign [of 4096 "c + 4095"] by linarith
  ultimately have "\<not> can_grow st"
    using assms(2) by (auto simp: can_grow_def fresh_bytes_def SIZEOF_POINTER_def not_le
        intro: le_less_trans)
  then show ?thesis
    using assms h grow_symtable_cases [OF assms(1,4)]
    by (simp add: get_symtable_entry_def bucket_at_def st_lookup_def chains_lookup_def)
qed

text \<open>A full table is reached by entering 1023 names.\<close>

lemma full_symtable:
  "n \<le> 1023 \<Longrightarrow> \<exists>st. symtable_wf st \<and> page_bytes st = 4096 \<and> capacity_log2 st = 10 \<and>
     entry_count st = int n \<and> (\<forall>m > n. st_lookup st (replicate m (CHR ''a'')) = None)"
proof (induction n)
  case 0
  show ?case
  proof (intro exI conjI)
    show "symtable_wf (empty_symtable 10)" by (rule empty_symtable_wf) simp_all
    show "\<forall>m > 0. st_lookup (empty_symtable 10) (replicate m (CHR ''a'')) = None"
      using chains_lookup_empty [of 10] by (simp add: st_lookup_def empty_symtable_def)
  qed (simp_all add: empty_symtable_def symtable_start_def)
next
  case (Suc n)
  then obtain st where st: "symtable_wf st" "page_bytes st = 4096" "capacity_log2 st = 10"
    "entry_count st = int n" "\<forall>m > n. st_lookup st (replicate m (CHR ''a'')) = None" by auto
  have cap: "capacity_of st = 1023" using st(1,3) by (simp add: symtable_wf_def)
  have new: "st_lookup st (replicate (Suc n) (CHR ''a'')) = None"
    by (rule st(5) [rule_format]) simp
  obtain st' where st': "symtable_wf st'" "same_scope st st'" "entry_count st' = entry_count st + 1"
    "st_lookup st' = (st_lookup st)(replicate (Suc n) (CHR ''a'') \<mapsto> null_entry (replicate (Suc n) (CHR ''a'')))"
    "capacity_of st' = capacity_of st"
    using insert_entry_wf [OF st(1) new] st(4) cap Suc.prems by auto
  have "(2::int) ^ capacity_log2 st' = 2 ^ 10" using st'(1,5) cap by (simp add: symtable_wf_def)
  then have "capacity_log2 st' = 10" by (rule power_inject_exp [THEN iffD1, rotated]) simp
  moreover have "replicate m (CHR ''a'') \<noteq> replicate (Suc n) (CHR ''a'')" if "m > Suc n" for m
  proof
    assume "replicate m (CHR ''a'') = replicate (Suc n) (CHR ''a'')"
    then have "m = Suc n" by (metis length_replicate)
    with that show False by simp
  qed
  ultimately show ?case
    using st st' by (intro exI [of _ st']) (simp add: same_scope_def)
qed

theorem get_symtable_entry_overflows_witness:
  "\<exists>st. entry_count st = 1023 \<and> get_symtable_entry (replicate 1024 (CHR ''a'')) st = Inl Bad_access"
proof -
  obtain st where st: "symtable_wf st" "page_bytes st = 4096" "capacity_log2 st = 10"
    "entry_count st = 1023" "\<forall>m > 1023. st_lookup st (replicate m (CHR ''a'')) = None"
    using full_symtable [of 1023] by auto
  then have "capacity_of st = 1023" by (simp add: symtable_wf_def)
  with get_symtable_entry_overflows [OF st(1,2), of "replicate 1024 (CHR ''a'')"] st
  show ?thesis by (intro exI [of _ st]) simp
qed

text \<open>
  C28: closing a scope takes one symbol of the scope off each stack, and drops every stack whose
  top symbol was declared in an outer scope: the declarations of the outer scopes, which should
  be visible again, are lost.
\<close>

theorem pop_scope_forgets_outer:
  assumes "symtable_wf st" and "pop_scope st = Inr st'"
  shows "symtable_wf st' \<and> scope_level st' = scope_level st - 1 \<and>
    symbols st' name = (case symbols st name of (kw, ty, idt) \<Rightarrow>
      (popped (scope_level st) kw, popped (scope_level st) ty, popped (scope_level st) idt)) \<and>
    (\<forall>syms. syms \<noteq> [] \<and> sym_scope_level (hd syms) < scope_level st \<longrightarrow>
       popped (scope_level st) syms = [])"
  using pop_scope_post [OF assms] popped_outer by blast

theorem pop_scope_forgets_outer_witness:
  "\<exists>st'. pop_scope ((empty_symtable 5)\<lparr>scope_level := 1\<rparr>) = Inr st' \<and> scope_level st' = 0"
proof -
  let ?st = "(empty_symtable 5)\<lparr>scope_level := 1\<rparr>"
  have wf: "symtable_wf ?st" using empty_symtable_wf [of 5] by (auto simp: symtable_wf_def)
  have "map_r (map_r f) (replicate n []) = Inr (replicate n [])"
    for f :: "symtable_entry \<Rightarrow> symtable_entry result" and n
    by (induction n) simp_all
  then obtain st' where "pop_scope ?st = Inr st'"
    by (auto simp: pop_scope_def empty_symtable_def symtable_start_def)
  with pop_scope_forgets_outer [OF wf this] show ?thesis by auto
qed

end
