(* ===== verification/Stops.thy ===== *)
theory Stops
  imports SymtabProps
begin

text \<open>
  The operations of the symbol table and of the attribute table have no loop that could run
  for ever: whatever failure they end with, it is not lack of fuel.
\<close>

lemma hash_string_stops: "hash_string s m = Inl f \<Longrightarrow> stops f"
  by (auto simp: hash_string_def bucket_of_def multiply_hash_def Let_def split: if_splits elim!: bnd_r_stops)

lemma bucket_index_stops: "bucket_index name k = Inl f \<Longrightarrow> stops f"
  unfolding bucket_index_def by (erule bnd_r_stops) (auto dest: hash_string_stops)

lemma bucket_at_stops: "bucket_at st h = Inl f \<Longrightarrow> stops f"
  by (auto simp: bucket_at_def split: if_splits)

lemma bucket_set_stops: "bucket_set st h es = Inl f \<Longrightarrow> stops f"
  by (auto simp: bucket_set_def split: if_splits)

lemmas bucket_stops = bucket_index_stops bucket_at_stops bucket_set_stops

lemma reinsert_stops: "reinsert es st = Inl f \<Longrightarrow> stops f"
proof (induction es arbitrary: st)
  case (Cons e es)
  from Cons.prems show ?case
    by (auto elim!: bnd_r_stops dest: bucket_stops Cons.IH)
qed simp

lemma grow_symtable_stops: "grow_symtable st = Inl f \<Longrightarrow> stops f"
  by (auto simp: grow_symtable_def Let_def split: if_splits dest: reinsert_stops)

lemma insert_entry_stops: "insert_entry name st = Inl f \<Longrightarrow> stops f"
  by (auto simp: insert_entry_def elim!: bnd_r_stops dest: bucket_stops)

lemma get_symtable_entry_stops: "get_symtable_entry name st = Inl f \<Longrightarrow> stops f"
  by (auto simp: get_symtable_entry_def elim!: bnd_r_stops split: option.splits if_splits
      dest: bucket_stops grow_symtable_stops insert_entry_stops)

lemma store_entry_stops: "store_entry name g st = Inl f \<Longrightarrow> stops f"
  by (auto simp: store_entry_def elim!: bnd_r_stops dest: bucket_stops)

lemma new_type_stops: "new_type name ast line st = Inl f \<Longrightarrow> stops f"
  by (auto simp: new_type_def bnd_def gets_def ret_def split: sum.splits
      dest: get_symtable_entry_stops store_entry_stops)

lemma attr_hash_stops: "attr_hash name = Inl f \<Longrightarrow> stops f"
  unfolding attr_hash_def by (erule bnd_r_stops) (auto dest: hash_string_stops)

lemma rd_stops: "rd xs i = Inl f \<Longrightarrow> stops f"
  by (auto simp: rd_def split: if_splits)

lemma ast_setattr_stops: "ast_setattr node name v ty = Inl f \<Longrightarrow> stops f"
  by (auto simp: ast_setattr_def elim!: bnd_r_stops split: option.splits if_splits
      dest: attr_hash_stops rd_stops)

lemma ast_getattr_stops: "ast_getattr node name = Inl f \<Longrightarrow> stops f"
  by (auto simp: ast_getattr_def elim!: bnd_r_stops dest: attr_hash_stops rd_stops)

lemma new_ident_stops: "new_ident name ast line st = Inl f \<Longrightarrow> stops f"
  by (auto simp: new_ident_def bnd_def gets_def ret_def split: sum.splits
      dest: get_symtable_entry_stops store_entry_stops)

lemma name_is_declared_stops: "name_is_declared name kind st = Inl f \<Longrightarrow> stops f"
  by (auto simp: name_is_declared_def bnd_def gets_def ret_def fail_def split: sum.splits if_splits
      dest: get_symtable_entry_stops)

lemma add_keyword_stops: "add_keyword name k st = Inl f \<Longrightarrow> stops f"
  by (auto simp: add_keyword_def bnd_def gets_def ret_def assert_cmd_def fail_def
      split: sum.splits if_splits dest: get_symtable_entry_stops store_entry_stops)

lemma add_keywords_stops: "add_keywords kws st = Inl f \<Longrightarrow> stops f"
proof (induction kws arbitrary: st)
  case (Cons kw kws)
  then show ?case by (auto simp: bnd_def split: sum.splits dest: add_keyword_stops)
qed (simp add: ret_def)

lemma symtable_init_stops: "symtable_init st = Inl f \<Longrightarrow> stops f"
  by (auto simp: symtable_init_def add_all_keywords_def Let_def split: if_splits dest: add_keywords_stops)

lemma symtable_flush_stops: "symtable_flush st = Inl f \<Longrightarrow> stops f"
  by (simp add: symtable_flush_def bnd_def modify_def symtable_init_stops)

lemma map_r_stops: "map_r f xs = Inl y \<Longrightarrow> (\<And>x y. f x = Inl y \<Longrightarrow> stops y) \<Longrightarrow> stops y"
proof (induction xs)
  case (Cons x xs)
  then show ?case by (cases "f x"; cases "map_r f xs") auto
qed simp

lemma pop_scope_stops:
  assumes "pop_scope st = Inl f"
  shows "stops f"
proof -
  have del: "stops f" if "scope_delete_symbol l syms = Inl f" for l syms f
    using that by (auto simp: scope_delete_symbol_def split: list.splits if_splits)
  have entry: "stops f" if "pop_entry l e = Inl f" for l e f
    using that unfolding pop_entry_def by (elim bnd_r_stops) (auto dest: del)
  have chain: "stops f" if "map_r (pop_entry l) es = Inl f" for l es f
    using map_r_stops [OF that entry] .
  have chains: "stops f" if "map_r (map_r (pop_entry l)) bs = Inl f" for l bs f
    using map_r_stops [OF that chain] .
  from assms show ?thesis
    unfolding pop_scope_def by (auto split: if_splits elim!: bnd_r_stops dest: chains)
qed

end
