(* ===== verification/ParseCalc.thy ===== *)
theory ParseCalc
  imports ParseProgram Stops
begin

text \<open>
  A calculus for the commands of the parser, to show that the parser stops. A command \<open>stays\<close>
  if it never moves the token cursor back, and \<open>eats\<close> if it moves the cursor over at least one
  token whenever it returns; neither runs out of fuel from a state with at most \<open>N\<close> tokens
  left. The rules of both predicates follow the syntax of the commands, so the simplifier
  proves them for a builder from the definition of the builder.

  The invariant \<open>parse_inv\<close> carries the one condition on the text: no \<open>;\<close> stands directly
  after \<open>{\<close>, \<open>}\<close> or \<open>;\<close>. It is needed because \<open>build_parserStatement\<close> does not consume the
  \<open>;\<close> of an empty statement.
\<close>

section \<open>The invariant\<close>

definition structural :: "token_class set" where
  "structural = {Token_Comment, Token_Semicolon, Token_BraceOpen, Token_BraceClose}"

definition closers :: "token_class set" where
  "closers = {Token_Semicolon, Token_BraceOpen, Token_BraceClose}"

text \<open>The last token before \<open>i\<close> that is no comment opens or closes a block or ends a statement.\<close>

definition closed_at :: "token list \<Rightarrow> nat \<Rightarrow> bool" where
  "closed_at ts i \<longleftrightarrow>
     (\<exists>j<i. klass (ts ! j) \<in> closers \<and> (\<forall>k<i. j < k \<longrightarrow> klass (ts ! k) = Token_Comment))"

definition no_empty_statement :: "token list \<Rightarrow> bool" where
  "no_empty_statement ts \<longleftrightarrow>
     (\<forall>i<length ts. klass (ts ! i) = Token_Semicolon \<longrightarrow> \<not> closed_at ts i)"

text \<open>No keyword is a punctuation token.\<close>

definition keywords_safe :: "symtable \<Rightarrow> bool" where
  "keywords_safe st \<longleftrightarrow>
     (\<forall>name. \<forall>sy \<in> set (fst (symbols st name)). sym_token_klass sy \<notin> structural)"

definition parse_inv :: "parser \<Rightarrow> bool" where
  "parse_inv s \<longleftrightarrow>
     token_at s < length (ps_tokens s) \<and> no_empty_statement (ps_tokens s) \<and>
     symtable_wf (ps_symtable s) \<and> keywords_safe (ps_symtable s)"

definition left :: "parser \<Rightarrow> nat" where
  "left s = length (ps_tokens s) - token_at s"

definition closed :: "parser \<Rightarrow> bool" where
  "closed s \<longleftrightarrow> closed_at (ps_tokens s) (token_at s)"

lemma closed_no_semicolon:
  "parse_inv s \<Longrightarrow> closed s \<Longrightarrow> klass (ps_tokens s ! token_at s) \<noteq> Token_Semicolon"
  by (auto simp: parse_inv_def closed_def no_empty_statement_def)

text \<open>Giving an identifier another class that is no punctuation changes neither predicate.\<close>

lemma reclassify:
  assumes "klass (ts ! j) \<notin> structural" and "k \<notin> structural" and "c \<in> structural"
  shows "klass (ts[j := (ts ! j)\<lparr>klass := k\<rparr>] ! i) = c \<longleftrightarrow> klass (ts ! i) = c"
  using assms by (cases "j < length ts") (auto simp: nth_list_update list_update_beyond)

lemma closed_at_reclassify:
  assumes "klass (ts ! j) \<notin> structural" and "k \<notin> structural"
  shows "closed_at (ts[j := (ts ! j)\<lparr>klass := k\<rparr>]) i \<longleftrightarrow> closed_at ts i"
proof -
  have "klass (ts[j := (ts ! j)\<lparr>klass := k\<rparr>] ! n) \<in> closers \<longleftrightarrow> klass (ts ! n) \<in> closers" for n
    using reclassify [OF assms] by (auto simp: closers_def structural_def)
  then show ?thesis
    using reclassify [OF assms, of Token_Comment] by (simp add: closed_at_def structural_def)
qed

lemma no_empty_reclassify:
  assumes "klass (ts ! j) \<notin> structural" and "k \<notin> structural"
  shows "no_empty_statement (ts[j := (ts ! j)\<lparr>klass := k\<rparr>]) \<longleftrightarrow> no_empty_statement ts"
  using closed_at_reclassify [OF assms] reclassify [OF assms, of Token_Semicolon]
  by (simp add: no_empty_statement_def structural_def)

lemma skip_comments_Inr:
  "skip_comments ts i = Inr j \<Longrightarrow>
   i \<le> j \<and> j < length ts \<and> klass (ts ! j) \<noteq> Token_Comment \<and>
   (\<forall>k. i \<le> k \<and> k < j \<longrightarrow> klass (ts ! k) = Token_Comment)"
proof (induction ts i rule: skip_comments.induct)
  case (1 ts i)
  show ?case
  proof (cases "i < length ts \<and> klass (ts ! i) = Token_Comment")
    case True
    then have "skip_comments ts (Suc i) = Inr j"
      using "1.prems" by (simp add: skip_comments.simps [of ts i])
    with "1.IH" True show ?thesis by (auto simp: Suc_le_eq) (metis le_neq_implies_less)
  next
    case False
    with "1.prems" show ?thesis by (auto simp: skip_comments.simps [of ts i] split: if_splits)
  qed
qed

lemma skip_comments_stops: "skip_comments ts i = Inl f \<Longrightarrow> stops f"
proof (induction ts i rule: skip_comments.induct)
  case (1 ts i)
  then show ?case by (auto simp: skip_comments.simps [of ts i] split: if_splits)
qed

lemma get_entry_inv:
  assumes "symtable_wf st" "keywords_safe st" "get_symtable_entry name st = Inr (e, st')"
  shows "symtable_wf st' \<and> keywords_safe st' \<and> identifier_class e \<notin> structural"
proof -
  note post = get_symtable_entry_post [OF assms(1,3)]
  have "id_kw e = fst (symbols st name)"
    using post by (simp add: get_post_def symbols_def Let_def)
  then have "\<forall>sy \<in> set (id_kw e). sym_token_klass sy \<notin> structural"
    using assms(2) by (simp add: keywords_safe_def)
  then have "identifier_class e \<notin> structural"
    by (cases "id_kw e") (auto simp: identifier_class_def structural_def)
  moreover have "keywords_safe st'"
    using assms(2) get_post_symbols [OF post] by (simp add: keywords_safe_def)
  ultimately show ?thesis using post by (simp add: get_post_def)
qed

lemma new_type_inv:
  assumes "symtable_wf st" "keywords_safe st" "new_type name ast line st = Inr (sy, st')"
  shows "symtable_wf st' \<and> keywords_safe st'"
  using new_type_post [OF assms(1,3)] assms(2)
  by (auto simp: keywords_safe_def split: prod.splits) (metis fst_conv)

section \<open>Weakest preconditions of the cursor commands\<close>

lemma wp_lift_of:
  "wp (\<lambda>s. lift (g s) s) Q E s \<longleftrightarrow> (case g s of Inl f \<Rightarrow> E f | Inr x \<Rightarrow> Q x s)"
  by (simp add: wp_def lift_def split: sum.splits)

lemma wp_current_token:
  "wp current_token Q E s \<longleftrightarrow>
     (if token_at s < length (ps_tokens s) then Q (ps_tokens s ! token_at s) s else E Bad_access)"
  by (simp add: current_token_def wp_lift_of)

lemma wp_symtable_cmd:
  "wp (symtable_cmd m) Q E s \<longleftrightarrow>
     (case m (ps_symtable s) of Inl f \<Rightarrow> E f | Inr (x, st) \<Rightarrow> Q x (s\<lparr>ps_symtable := st\<rparr>))"
  by (simp add: wp_def symtable_cmd_def split: sum.splits prod.splits)

lemmas wp_parser = wp_simps wp_lift_of wp_current_token wp_symtable_cmd

text \<open>\<open>next_token\<close> moves right, over comments only, and keeps the invariant.\<close>

lemma next_tok_post:
  assumes inv: "parse_inv s"
  shows "wp next_tok (\<lambda>_ s'. parse_inv s' \<and> left s' < left s \<and> token_at s < token_at s' \<and>
      prev_token_at s' = token_at s \<and>
      length (ps_tokens s') = length (ps_tokens s) \<and>
      (klass (ps_tokens s ! token_at s) \<in> closers \<longrightarrow> closed s')) stops s"
proof (cases "skip_comments (ps_tokens s) (Suc (token_at s))")
  case (Inl f)
  then show ?thesis
    using inv skip_comments_stops [OF Inl] by (simp add: next_tok_def wp_parser parse_inv_def)
next
  case (Inr j)
  let ?ts = "ps_tokens s"
  have j: "token_at s < j" "j < length ?ts"
    "\<forall>k. token_at s < k \<and> k < j \<longrightarrow> klass (?ts ! k) = Token_Comment"
    using skip_comments_Inr [OF Inr] by auto
  have cl: "klass (?ts ! token_at s) \<in> closers \<Longrightarrow> closed_at ?ts j"
    using j by (auto simp: closed_at_def)
  have st: "symtable_wf (ps_symtable s)" "keywords_safe (ps_symtable s)"
    "no_empty_statement ?ts" "token_at s < length ?ts"
    using inv by (simp_all add: parse_inv_def)
  show ?thesis
  proof (cases "klass (?ts ! j) = Token_Identifier")
    case False
    with Inr j st cl show ?thesis
      by (auto simp: next_tok_def wp_parser parse_inv_def left_def closed_def)
  next
    case True
    then have plain: "klass (?ts ! j) \<notin> structural" by (simp add: structural_def)
    show ?thesis
    proof (cases "get_symtable_entry (lexeme (?ts ! j)) (ps_symtable s)")
      case (Inl f)
      with True Inr j st show ?thesis
        using get_symtable_entry_stops [OF Inl]
        by (simp add: next_tok_def wp_parser)
    next
      fix r assume "get_symtable_entry (lexeme (?ts ! j)) (ps_symtable s) = Inr r"
      then obtain e st' where get: "get_symtable_entry (lexeme (?ts ! j)) (ps_symtable s) = Inr (e, st')"
        by (cases r) auto
      note e = get_entry_inv [OF st(1,2) get]
      show ?thesis
        using True Inr j st cl e get plain no_empty_reclassify [OF plain, of "identifier_class e"]
          closed_at_reclassify [OF plain, of "identifier_class e"]
        by (auto simp: next_tok_def wp_parser set_token_class_def parse_inv_def left_def closed_def)
    qed
  qed
qed

section \<open>Commands that stay and commands that eat\<close>

text \<open>From at most \<open>N\<close> tokens, \<open>m\<close> keeps the invariant and moves over at least \<open>k\<close> tokens.\<close>

definition moves :: "nat \<Rightarrow> nat \<Rightarrow> 'a P \<Rightarrow> bool" where
  "moves N k m \<longleftrightarrow> (\<forall>s. parse_inv s \<and> left s \<le> N \<longrightarrow>
     wp m (\<lambda>_ s'. parse_inv s' \<and> left s' + k \<le> left s) stops s)"

abbreviation stays :: "nat \<Rightarrow> 'a P \<Rightarrow> bool" where "stays N \<equiv> moves N 0"
abbreviation eats :: "nat \<Rightarrow> 'a P \<Rightarrow> bool" where "eats N \<equiv> moves N (Suc 0)"

named_theorems eats \<open>which commands stay, and which eat a token\<close>

lemma movesI:
  "(\<And>s. parse_inv s \<Longrightarrow> left s \<le> N \<Longrightarrow>
     wp m (\<lambda>_ s'. parse_inv s' \<and> left s' + k \<le> left s) stops s) \<Longrightarrow> moves N k m"
  by (simp add: moves_def)

lemma movesD:
  "moves N k m \<Longrightarrow> parse_inv s \<Longrightarrow> left s \<le> N \<Longrightarrow>
   wp m (\<lambda>_ s'. parse_inv s' \<and> left s' + k \<le> left s) stops s"
  by (simp add: moves_def)

lemma moves_mono:
  assumes "moves N k m" and "M \<le> N" and "j \<le> k"
  shows "moves M j m"
  by (rule movesI, rule wp_conseq [OF movesD [OF assms(1)]]) (use assms in auto)

lemma eats_stays: "eats N m \<Longrightarrow> stays N m"
  by (erule moves_mono) simp_all

text \<open>What runs after \<open>k\<close> tokens are eaten runs with \<open>k\<close> tokens less.\<close>

lemma moves_bnd:
  assumes m: "moves N k m" and f: "\<And>x. moves (N - k) j (f x)"
  shows "moves N (k + j) (bnd m f)"
proof (rule movesI)
  fix s assume s: "parse_inv s" "left s \<le> N"
  show "wp (bnd m f) (\<lambda>_ s'. parse_inv s' \<and> left s' + (k + j) \<le> left s) stops s"
    unfolding wp_bnd
  proof (rule wp_conseq [OF movesD [OF m s]])
    fix x s' assume "parse_inv s' \<and> left s' + k \<le> left s"
    with s show "wp (f x) (\<lambda>_ s''. parse_inv s'' \<and> left s'' + (k + j) \<le> left s) stops s'"
      by (intro wp_conseq [OF movesD [OF f]]) auto
  qed simp
qed

lemma stays_bnd [eats]: "stays N m \<Longrightarrow> (\<And>x. stays N (f x)) \<Longrightarrow> stays N (bnd m f)"
  using moves_bnd [where k = 0 and j = 0 and f = f] by simp

lemma eats_bnd_rest [eats]: "stays N m \<Longrightarrow> (\<And>x. eats N (f x)) \<Longrightarrow> eats N (bnd m f)"
  using moves_bnd [where k = 0 and j = "Suc 0" and f = f] by simp

lemma eats_bnd_after: "eats (Suc N) m \<Longrightarrow> (\<And>x. stays N (f x)) \<Longrightarrow> eats (Suc N) (bnd m f)"
  using moves_bnd [where N = "Suc N" and k = "Suc 0" and j = 0 and f = f] by simp

lemma eats_bnd_first [eats]:
  assumes "eats N m" and "\<And>x. stays N (f x)"
  shows "eats N (bnd m f)"
  using moves_bnd [OF assms(1), where j = 0 and f = f] moves_mono [OF assms(2)] by simp

lemma stays_bnd_after: "eats (Suc N) m \<Longrightarrow> (\<And>x. stays N (f x)) \<Longrightarrow> stays (Suc N) (bnd m f)"
  by (rule eats_stays) (rule eats_bnd_after)

subsection \<open>Simple commands\<close>

lemma moves_ret [eats]: "stays N (ret x)"
  by (simp add: moves_def wp_simps)

lemma moves_fail [eats]: "stops f \<Longrightarrow> moves N k (fail f)"
  by (simp add: moves_def wp_simps)

lemma moves_assert [eats]: "stays N (assert_cmd b)"
  by (simp add: moves_def wp_simps)

lemma moves_gets [eats]: "stays N (gets g)"
  by (simp add: moves_def wp_simps)

lemma moves_lift [eats]: "(\<And>f. r = Inl f \<Longrightarrow> stops f) \<Longrightarrow> stays N (lift r)"
  by (simp add: moves_def wp_simps split: sum.splits)

lemma moves_current_token [eats]: "stays N current_token"
  by (simp add: moves_def wp_current_token)

lemma moves_next_tok [eats]: "eats N next_tok"
  by (rule movesI, rule wp_conseq [OF next_tok_post]) auto

lemma moves_peek_token [eats]: "stays N peek_token"
proof (rule movesI)
  fix s assume "parse_inv s"
  then have "parse_inv (s\<lparr>prev_token_at := token_at s\<rparr>)" by (simp add: parse_inv_def)
  note step = next_tok_post [OF this]
  show "wp peek_token (\<lambda>_ s'. parse_inv s' \<and> left s' + 0 \<le> left s) stops s"
    unfolding peek_token_def wp_bnd wp_modify
    by (rule wp_conseq [OF step])
      (use \<open>parse_inv s\<close> in \<open>auto simp: wp_parser parse_inv_def left_def\<close>)
qed

lemma moves_if [eats]: "(b \<Longrightarrow> moves N k m) \<Longrightarrow> (\<not> b \<Longrightarrow> moves N k m') \<Longrightarrow> moves N k (if b then m else m')"
  by simp

lemma moves_case_option [eats]:
  "moves N k m \<Longrightarrow> (\<And>x. moves N k (f x)) \<Longrightarrow> moves N k (case r of None \<Rightarrow> m | Some x \<Rightarrow> f x)"
  by (cases r) simp_all

lemma moves_if_tok [eats]: "moves N k m \<Longrightarrow> moves N k m' \<Longrightarrow> moves N k (if_tok test m m')"
  using moves_bnd [OF moves_current_token, where f = "\<lambda>t. if test t then m else m'"]
  by (simp add: if_tok_def)

lemma moves_if_class [eats]: "moves N k m \<Longrightarrow> moves N k m' \<Longrightarrow> moves N k (if_class c m m')"
  by (simp add: if_class_def eats)

lemma moves_expected [eats]: "moves N k (expected msg)"
  unfolding expected_def
  by (rule moves_bnd [OF moves_current_token, where j = k, simplified]) (simp add: eats)

lemma moves_expect [eats]: "eats N (expect c msg)"
  by (simp add: expect_def eats)

lemma moves_require [eats]: "stays N (require test msg)"
  by (simp add: require_def eats)

lemma moves_new_ast_node [eats]: "stays N (new_ast_node kind)"
  by (auto simp: moves_def new_ast_node_def wp_parser parse_inv_def left_def)

lemma moves_set_ast [eats]: "stays N (set_ast name v node)"
  by (auto simp: set_ast_def intro: eats dest: ast_setattr_stops)

lemma moves_set_list [eats]: "stays N (set_list name v node)"
  by (auto simp: set_list_def intro: moves_lift dest: ast_setattr_stops)

lemma moves_set_int [eats]: "stays N (set_int name v node)"
  by (auto simp: set_int_def intro: moves_lift dest: ast_setattr_stops)

lemma moves_set_bool [eats]: "stays N (set_bool name v node)"
  by (simp add: set_bool_def eats)

lemma moves_set_op [eats]: "stays N (set_op v node)"
  by (auto simp: set_op_def intro: moves_lift dest: ast_setattr_stops)

lemma moves_set_lexeme [eats]: "stays N (set_lexeme name node)"
  unfolding set_lexeme_def
  by (intro stays_bnd moves_current_token moves_lift) (erule ast_setattr_stops)

lemma moves_attr_ast [eats]: "moves N k m \<Longrightarrow> moves N k (attr_ast name m node)"
  unfolding attr_ast_def by (rule moves_bnd [where j = 0, simplified]) (simp_all add: eats)

lemma moves_attr_list [eats]: "moves N k m \<Longrightarrow> moves N k (attr_list name m node)"
  unfolding attr_list_def by (rule moves_bnd [where j = 0, simplified]) (simp_all add: eats)

lemma stays_new_type [eats]: "stays N (symtable_cmd (new_type name ast line))"
proof (rule movesI)
  fix s assume inv: "parse_inv s"
  show "wp (symtable_cmd (new_type name ast line)) (\<lambda>_ s'. parse_inv s' \<and> left s' + 0 \<le> left s) stops s"
  proof (cases "new_type name ast line (ps_symtable s)")
    case (Inl f)
    then show ?thesis by (simp add: wp_symtable_cmd new_type_stops)
  next
    fix r assume run: "new_type name ast line (ps_symtable s) = Inr r"
    then obtain sy st where "new_type name ast line (ps_symtable s) = Inr (sy, st)" by (cases r) auto
    with inv show ?thesis
      using new_type_inv [of "ps_symtable s" name ast line sy st]
      by (simp add: wp_symtable_cmd parse_inv_def left_def)
  qed
qed

lemma moves_declare_type [eats]: "stays N (declare_type node)"
proof -
  have "stays N (case v of Some (V_String s) \<Rightarrow>
      bnd (symtable_cmd (new_type s (id_of node) (tk_line_nr t))) (\<lambda>_. ret ()) | _ \<Rightarrow> fail Bad_access)"
    for v t
    by (simp add: eats split: option.split attr_value.split)
  then show ?thesis
    unfolding declare_type_def
    by (intro stays_bnd moves_current_token moves_lift) (auto dest: ast_getattr_stops)
qed

lemma moves_some_step [eats]: "moves N k m \<Longrightarrow> moves N k (some_step m)"
  unfolding some_step_def by (rule moves_bnd [where j = 0, simplified]) (simp_all add: eats)

subsection \<open>Lists\<close>

lemma moves_while_list:
  assumes "N < n" and "stays N c" and "eats N b"
  shows "stays N (while_list n c b acc)"
proof (rule movesI)
  fix s assume s: "parse_inv s" "left s \<le> N"
  show "wp (while_list n c b acc) (\<lambda>_ s'. parse_inv s' \<and> left s' + 0 \<le> left s) stops s"
  proof (rule wp_while_list [where I = "\<lambda>_ s'. parse_inv s' \<and> left s' \<le> left s" and \<mu> = left])
    fix acc t assume t: "parse_inv t \<and> left t \<le> left s"
    show "wp c (\<lambda>go s'. if go then wp b (\<lambda>x s''. (parse_inv s'' \<and> left s'' \<le> left s) \<and> left s'' < left t) stops s'
        else parse_inv s' \<and> left s' + 0 \<le> left s) stops t"
    proof (rule wp_conseq [OF movesD [OF assms(2)]])
      fix go s' assume "parse_inv s' \<and> left s' + 0 \<le> left t"
      with s t show "if go then wp b (\<lambda>x s''. (parse_inv s'' \<and> left s'' \<le> left s) \<and> left s'' < left t) stops s'
          else parse_inv s' \<and> left s' + 0 \<le> left s"
        by (auto intro!: wp_conseq [OF movesD [OF assms(3)]])
    qed (use s t in auto)
  qed (use s assms(1) in auto)
qed

definition env_ok :: "nat \<Rightarrow> env \<Rightarrow> bool" where
  "env_ok N e \<longleftrightarrow> N < rounds e \<and> (\<forall>c. c \<noteq> Call_parserStatement \<longrightarrow> eats N (handler e c))"

lemma moves_handler [eats]: "env_ok N e \<Longrightarrow> c \<noteq> Call_parserStatement \<Longrightarrow> eats N (handler e c)"
  by (simp add: env_ok_def)

lemma stays_handler [eats]: "env_ok N e \<Longrightarrow> c \<noteq> Call_parserStatement \<Longrightarrow> stays N (handler e c)"
  by (simp add: moves_handler eats_stays)

lemma moves_comma_list [eats]: "env_ok N e \<Longrightarrow> moves N k item \<Longrightarrow> moves N k (comma_list e item)"
  unfolding comma_list_def
  by (rule moves_bnd [where j = 0, simplified])
    (auto simp: env_ok_def eats intro: moves_mono intro!: moves_while_list eats_bnd_first)

lemma moves_rep_list [eats]: "env_ok N e \<Longrightarrow> eats N item \<Longrightarrow> eats N (rep_list e test item)"
  unfolding rep_list_def
  by (rule eats_bnd_first) (auto simp: env_ok_def eats intro!: moves_while_list)

lemma stays_opt_list [eats]: "stays N m \<Longrightarrow> stays N (opt_list test m)"
  by (simp add: opt_list_def eats)

end
