(* ===== verification/Keywords.thy ===== *)
theory Keywords
  imports SymtabProps
begin

text \<open>
  The table that \<open>symtable_init\<close> and \<open>symtable_flush\<close> leave: the keywords of P4 with their token
  classes, and nothing else. The scanner does not know keywords; the parser finds them here.
\<close>

section \<open>Small tables\<close>

lemma small_table_returns:
  assumes wf: "symtable_wf st" and page: "page_bytes st = 4096" and small: "entry_count st \<le> 500"
  shows "\<exists>e st'. get_symtable_entry name st = Inr (e, st')"
proof (rule get_symtable_entry_returns [OF wf])
  have cap: "capacity_of st = 2 ^ capacity_log2 st - 1" and k: "0 < capacity_log2 st"
    using wf by (simp_all add: symtable_wf_def chains_wf_def)
  have "can_grow st" if "capacity_of st \<le> 500"
  proof -
    have "(2::int) ^ capacity_log2 st < 2 ^ 9" using that cap by simp
    then have "capacity_log2 st < 9" by (rule power_less_imp_less_exp [rotated]) simp
    then have "capacity_log2 st \<in> {1, 2, 3, 4, 5, 6, 7, 8}" using k by auto
    then show ?thesis using page cap by (auto simp: can_grow_def fresh_bytes_def SIZEOF_POINTER_def)
  qed
  then show "st_lookup st name \<noteq> None \<or> entry_count st < capacity_of st \<or> can_grow st"
    using small by linarith
qed

section \<open>Adding keywords\<close>

definition keyword_symbol :: "int \<Rightarrow> string \<Rightarrow> token_class \<Rightarrow> symbol" where
  "keyword_symbol level name k =
     \<lparr>ident_kind = Symbol_Keyword, sym_name = name, sym_scope_level = level, sym_ast = 0,
      sym_token_klass = k\<rparr>"

definition with_keyword :: "symtable \<Rightarrow> string \<Rightarrow> token_class \<Rightarrow> symtable \<Rightarrow> bool" where
  "with_keyword st name k st' \<longleftrightarrow>
     symtable_wf st' \<and> same_scope st st' \<and> entry_count st' \<le> entry_count st + 1 \<and>
     symbols st' = (symbols st)(name := ([keyword_symbol (scope_level st) name k], snd (symbols st name)))"

lemma add_keyword_post:
  assumes wf: "symtable_wf st" and run: "add_keyword name k st = Inr ((), st')"
  shows "with_keyword st name k st'"
proof -
  obtain e st1 where get: "get_symtable_entry name st = Inr (e, st1)"
    using run by (auto simp: add_keyword_def bnd_def split: sum.splits)
  have post: "get_post name st e st1" by (rule get_symtable_entry_post [OF wf get])
  let ?f = "\<lambda>e. e\<lparr>id_kw := [keyword_symbol (scope_level st) name k]\<rparr>"
  obtain st2 where st2: "store_entry name ?f st1 = Inr ((), st2)" "symtable_wf st2" "same_scope st1 st2"
    "st_lookup st2 = (st_lookup st1)(name := map_option ?f (st_lookup st1 name))"
    "entry_count st2 = entry_count st1"
    using store_entry_post [of st1 ?f name] post by (auto simp: get_post_def)
  have "st' = st2"
    using run get post st2(1)
    by (auto simp: add_keyword_def bnd_def assert_cmd_def ret_def fail_def gets_def get_post_def
        same_scope_def keyword_symbol_def split: if_splits)
  then show ?thesis
    using st2 post
    by (auto simp: with_keyword_def get_post_def same_scope_def symbols_def entry_or_null_def Let_def
        fun_eq_iff split: option.splits)
qed

lemma add_keyword_returns:
  assumes wf: "symtable_wf st" and page: "page_bytes st = 4096" and small: "entry_count st \<le> 500"
    and new: "fst (symbols st name) = []"
  shows "\<exists>st'. add_keyword name k st = Inr ((), st')"
proof -
  obtain e st1 where get: "get_symtable_entry name st = Inr (e, st1)"
    using small_table_returns [OF wf page small] by blast
  have post: "get_post name st e st1" by (rule get_symtable_entry_post [OF wf get])
  have e: "id_kw e = []" using post new by (simp add: get_post_def symbols_def Let_def)
  let ?f = "\<lambda>e. e\<lparr>id_kw := [keyword_symbol (scope_level st) name k]\<rparr>"
  obtain st2 where st2: "store_entry name ?f st1 = Inr ((), st2)"
    using store_entry_post [of st1 ?f name] post by (auto simp: get_post_def)
  with get e post show ?thesis
    by (simp add: add_keyword_def bnd_def assert_cmd_def ret_def gets_def get_post_def same_scope_def
        keyword_symbol_def)
qed

lemma add_keywords_post:
  "symtable_wf st \<Longrightarrow> distinct (map fst kws) \<Longrightarrow> add_keywords kws st = Inr ((), st') \<Longrightarrow>
   symtable_wf st' \<and> same_scope st st' \<and>
     (\<forall>name. symbols st' name =
       (case map_of kws name of None \<Rightarrow> symbols st name
        | Some k \<Rightarrow> ([keyword_symbol (scope_level st) name k], snd (symbols st name))))"
proof (induction kws arbitrary: st)
  case Nil
  then show ?case by (simp add: ret_def same_scope_def)
next
  case (Cons kw kws)
  obtain name k where kw: "kw = (name, k)" by (cases kw)
  obtain st1 where run: "add_keyword name k st = Inr ((), st1)" "add_keywords kws st1 = Inr ((), st')"
    using Cons.prems(3) kw by (auto simp: bnd_def split: sum.splits)
  note st1 = add_keyword_post [OF Cons.prems(1) run(1)]
  have st': "symtable_wf st' \<and> same_scope st1 st' \<and>
    (\<forall>n. symbols st' n = (case map_of kws n of None \<Rightarrow> symbols st1 n
        | Some k \<Rightarrow> ([keyword_symbol (scope_level st1) n k], snd (symbols st1 n))))"
    by (rule Cons.IH [OF _ _ run(2)]) (use Cons.prems st1 in \<open>auto simp: with_keyword_def\<close>)
  have "map_of kws name = None" using Cons.prems(2) kw by (simp add: map_of_eq_None_iff)
  then have "symbols st' n = (case map_of (kw # kws) n of None \<Rightarrow> symbols st n
        | Some k \<Rightarrow> ([keyword_symbol (scope_level st) n k], snd (symbols st n)))" for n
    using st' st1 kw by (auto simp: with_keyword_def same_scope_def split: option.splits)
  with st' st1 show ?case by (simp add: with_keyword_def same_scope_def)
qed

lemma add_keywords_returns:
  "symtable_wf st \<Longrightarrow> page_bytes st = 4096 \<Longrightarrow> entry_count st + int (length kws) \<le> 500 \<Longrightarrow>
   distinct (map fst kws) \<Longrightarrow> \<forall>name \<in> fst ` set kws. fst (symbols st name) = [] \<Longrightarrow>
   \<exists>st'. add_keywords kws st = Inr ((), st')"
proof (induction kws arbitrary: st)
  case (Cons kw kws)
  obtain name k where kw: "kw = (name, k)" by (cases kw)
  obtain st1 where run: "add_keyword name k st = Inr ((), st1)"
    using add_keyword_returns [of st name k] Cons.prems kw by auto
  note st1 = add_keyword_post [OF Cons.prems(1) run]
  have "\<exists>st'. add_keywords kws st1 = Inr ((), st')"
    by (rule Cons.IH) (use Cons.prems st1 kw in \<open>auto simp: with_keyword_def same_scope_def\<close>)
  with run kw show ?case by (simp add: bnd_def)
qed (simp add: ret_def)

text \<open>What a table holds that has the keywords at scope level \<open>level\<close> and nothing else.\<close>

definition keyword_symbols :: "int \<Rightarrow> string \<Rightarrow> symbol list \<times> symbol list \<times> symbol list" where
  "keyword_symbols level name =
     (case map_of keyword_table name of
        None \<Rightarrow> ([], [], [])
      | Some k \<Rightarrow> ([keyword_symbol level name k], [], []))"

lemma keyword_table_distinct: "distinct (map fst keyword_table)"
  by (simp add: keyword_table_def)

lemma symtable_init_post:
  assumes none: "entry_count st = 0" and k: "0 < capacity_log2 st"
    and run: "symtable_init st = Inr ((), st')"
  shows "symtable_wf st' \<and> same_scope st st' \<and> symbols st' = keyword_symbols (scope_level st)"
proof -
  let ?k = "capacity_log2 st"
  let ?st = "st\<lparr>capacity_of := 2 ^ ?k - 1, st_buckets := replicate (2 ^ ?k - 1) []\<rparr>"
  have k31: "?k < 31" and kws: "add_keywords keyword_table ?st = Inr ((), st')"
    using run none nat_capacity [of ?k]
    by (auto simp: symtable_init_def add_all_keywords_def Let_def split: if_splits)
  have wf: "symtable_wf ?st"
    using chains_empty [OF k k31] none by (simp add: symtable_wf_def concat_replicate_trivial)
  have empty: "symbols ?st name = ([], [], [])" for name
    using chains_lookup_empty [OF k k31]
    by (simp add: symbols_def entry_or_null_def st_lookup_def null_entry_def Let_def)
  show ?thesis
    using add_keywords_post [OF wf keyword_table_distinct kws] empty
    by (auto simp: keyword_symbols_def same_scope_def fun_eq_iff split: option.splits)
qed

lemma symtable_init_returns:
  assumes none: "entry_count st = 0" and k: "0 < capacity_log2 st" "capacity_log2 st < 31"
    and page: "page_bytes st = 4096"
  shows "\<exists>st'. symtable_init st = Inr ((), st')"
proof -
  let ?k = "capacity_log2 st"
  let ?st = "st\<lparr>capacity_of := 2 ^ ?k - 1, st_buckets := replicate (2 ^ ?k - 1) []\<rparr>"
  have wf: "symtable_wf ?st"
    using chains_empty [OF k] none by (simp add: symtable_wf_def concat_replicate_trivial)
  have empty: "symbols ?st name = ([], [], [])" for name
    using chains_lookup_empty [OF k]
    by (simp add: symbols_def entry_or_null_def st_lookup_def null_entry_def Let_def)
  have "\<exists>st'. add_keywords keyword_table ?st = Inr ((), st')"
    by (rule add_keywords_returns [OF wf])
      (use none page empty keyword_table_distinct in \<open>auto simp: keyword_table_def\<close>)
  then show ?thesis
    using none k nat_capacity [of ?k] by (simp add: symtable_init_def add_all_keywords_def Let_def)
qed

section \<open>The keywords of P4\<close>

text \<open>
  The specification: how the class of a keyword is written in a program, class by class in the order of
  token.h. The terminals of the grammar (p4\_grammar.bnf) are written in the same way.
\<close>

definition p4_keywords :: "(token_class \<times> string) list" where
  "p4_keywords =
     [(Token_Action, ''action''), (Token_Actions, ''actions''), (Token_Enum, ''enum''), (Token_In, ''in''),
      (Token_Package, ''package''), (Token_Select, ''select''), (Token_Switch, ''switch''), (Token_Tuple, ''tuple''),
      (Token_Void, ''void''), (Token_Apply, ''apply''), (Token_Control, ''control''), (Token_Error, ''error''),
      (Token_Header, ''header''), (Token_InOut, ''inout''), (Token_Parser, ''parser''), (Token_State, ''state''),
      (Token_Table, ''table''), (Token_Entries, ''entries''), (Token_Key, ''key''), (Token_Typedef, ''typedef''),
      (Token_Type, ''type''), (Token_Bool, ''bool''), (Token_True, ''true''), (Token_False, ''false''),
      (Token_Default, ''default''), (Token_Extern, ''extern''), (Token_HeaderUnion, ''header_union''), (Token_Int, ''int''),
      (Token_Bit, ''bit''), (Token_Varbit, ''varbit''), (Token_String, ''string''), (Token_Out, ''out''),
      (Token_Transition, ''transition''), (Token_Else, ''else''), (Token_Exit, ''exit''), (Token_If, ''if''),
      (Token_MatchKind, ''match_kind''), (Token_Return, ''return''), (Token_Struct, ''struct''), (Token_Const, ''const'')]"

definition keyword_text :: "token_class \<Rightarrow> string option" where
  "keyword_text = map_of p4_keywords"

lemma p4_keywords_distinct: "distinct (map fst p4_keywords)"
  by (simp add: p4_keywords_def)

lemma p4_keywords_table: "(k, name) \<in> set p4_keywords \<longleftrightarrow> (name, k) \<in> set keyword_table"
proof -
  have "\<forall>(k, name) \<in> set p4_keywords. (name, k) \<in> set keyword_table"
    by (simp add: p4_keywords_def keyword_table_def)
  moreover have "\<forall>(name, k) \<in> set keyword_table. (k, name) \<in> set p4_keywords"
    by (simp add: p4_keywords_def keyword_table_def)
  ultimately show ?thesis by blast
qed

lemma keyword_text_table: "keyword_text k = Some name \<longleftrightarrow> map_of keyword_table name = Some k"
  by (simp add: keyword_text_def map_of_eq_Some_iff p4_keywords_distinct keyword_table_distinct p4_keywords_table)

text \<open>
  C16: \<open>symtable_init\<close> succeeds on a table with no entries (pages of 4096 bytes). Afterwards every
  one of the 40 keywords of P4 has exactly one symbol, of its own token class and at the current scope
  level, and no other name has any symbol.
\<close>

theorem symtable_init_declares_keywords:
  assumes "entry_count st = 0" and "0 < capacity_log2 st" and "capacity_log2 st < 31"
    and "page_bytes st = 4096"
  shows "\<exists>st'. symtable_init st = Inr ((), st') \<and> symtable_wf st' \<and>
    scope_level st' = scope_level st \<and> page_bytes st' = 4096 \<and>
    (\<forall>k name. keyword_text k = Some name \<longrightarrow>
       symbols st' name = ([\<lparr>ident_kind = Symbol_Keyword, sym_name = name, sym_scope_level = scope_level st,
         sym_ast = 0, sym_token_klass = k\<rparr>], [], [])) \<and>
    (\<forall>name. name \<notin> {w. \<exists>k. keyword_text k = Some w} \<longrightarrow> symbols st' name = ([], [], []))"
proof -
  obtain st' where run: "symtable_init st = Inr ((), st')"
    using symtable_init_returns [OF assms] by blast
  have "symbols st' name = ([], [], [])" if "\<nexists>k. keyword_text k = Some name" for name
    using symtable_init_post [OF assms(1,2) run] that
    by (cases "map_of keyword_table name") (simp_all add: keyword_symbols_def keyword_text_table)
  moreover have "symbols st' name = ([\<lparr>ident_kind = Symbol_Keyword, sym_name = name, sym_scope_level = scope_level st,
         sym_ast = 0, sym_token_klass = k\<rparr>], [], [])" if "keyword_text k = Some name" for k name
    using symtable_init_post [OF assms(1,2) run] that
    by (simp add: keyword_symbols_def keyword_text_table keyword_symbol_def)
  ultimately show ?thesis
    using symtable_init_post [OF assms(1,2) run] assms(4) run by (intro exI [of _ st']) (simp add: same_scope_def)
qed

theorem symtable_init_declares_keywords_witness:
  "\<exists>st. symtable_init (symtable_start 4096) = Inr ((), st) \<and>
     map sym_token_klass (fst (symbols st ''varbit'')) = [Token_Varbit] \<and>
     map sym_token_klass (fst (symbols st ''select'')) = [Token_Select] \<and> fst (symbols st ''x'') = []"
proof -
  have start: "entry_count (symtable_start 4096) = 0" "0 < capacity_log2 (symtable_start 4096)"
    "capacity_log2 (symtable_start 4096) < 31" "page_bytes (symtable_start 4096) = 4096"
    by (simp_all add: symtable_start_def)
  have "keyword_text Token_Varbit = Some ''varbit''" "keyword_text Token_Select = Some ''select''"
    by (simp_all add: keyword_text_def p4_keywords_def)
  moreover have "keyword_text k \<noteq> Some ''x''" for k
    by (simp add: keyword_text_table keyword_table_def)
  ultimately show ?thesis
    using symtable_init_declares_keywords [OF start] by fastforce
qed

section \<open>Declarations\<close>

lemma new_ident_returns:
  assumes "symtable_wf st" and "page_bytes st = 4096" and "entry_count st \<le> 500"
  shows "\<exists>sy st'. new_ident name ast line st = Inr (sy, st') \<and> entry_count st' \<le> entry_count st + 1"
proof -
  obtain e st1 where get: "get_symtable_entry name st = Inr (e, st1)"
    using small_table_returns [OF assms] by blast
  have post: "get_post name st e st1" by (rule get_symtable_entry_post [OF assms(1) get])
  let ?f = "\<lambda>e. e\<lparr>id_ident := \<lparr>ident_kind = Symbol_Ident, sym_name = name,
    sym_scope_level = scope_level st1, sym_ast = ast, sym_token_klass = Token_None\<rparr> # id_ident e\<rparr>"
  obtain st2 where "store_entry name ?f st1 = Inr ((), st2)" "entry_count st2 = entry_count st1"
    using store_entry_post [of st1 ?f name] post by (auto simp: get_post_def)
  with get post show ?thesis by (simp add: new_ident_def bnd_def gets_def ret_def get_post_def)
qed

lemma name_is_declared_returns:
  assumes "symtable_wf st" and "page_bytes st = 4096" and "entry_count st \<le> 500" and "kind \<noteq> Symbol_None"
  shows "\<exists>b st'. name_is_declared name kind st = Inr (b, st')"
  using small_table_returns [OF assms(1-3), of name] assms(4)
  by (cases kind) (auto simp: name_is_declared_def bnd_def gets_def ret_def)

text \<open>
  C34: after \<open>new_ident\<close> the name is declared as an identifier in the current scope; its symbol is
  on top of the identifier stack of the name, and no other stack of any name changes.
\<close>

theorem declared_after_new_ident:
  assumes "symtable_wf st" and "new_ident name ast line st = Inr (sy, st1)"
    and "name_is_declared name Symbol_Ident st1 = Inr (b, st2)"
  shows "b \<and> sym_scope_level sy = scope_level st \<and> scope_level st2 = scope_level st \<and>
    symbols st2 name = (fst (symbols st name), fst (snd (symbols st name)), sy # snd (snd (symbols st name))) \<and>
    (\<forall>n. n \<noteq> name \<longrightarrow> symbols st2 n = symbols st n)"
proof -
  note new = new_ident_post [OF assms(1,2)]
  then have "symtable_wf st1" by simp
  from name_is_declared_post [OF this assms(3)] new show ?thesis
    by (auto simp: same_scope_def declared_in_def split: prod.splits)
qed

theorem declared_after_new_ident_witness:
  "\<exists>sy st1 st2. new_ident ''x'' 7 1 (empty_symtable 5) = Inr (sy, st1) \<and>
     name_is_declared ''x'' Symbol_Ident st1 = Inr (True, st2)"
proof -
  have start: "page_bytes (empty_symtable 5) = 4096" "entry_count (empty_symtable 5) \<le> 500"
    "entry_count (empty_symtable 5) = 0"
    by (simp_all add: empty_symtable_def symtable_start_def)
  have wf: "symtable_wf (empty_symtable 5)" by (rule empty_symtable_wf) simp_all
  obtain sy st1 where new: "new_ident ''x'' 7 1 (empty_symtable 5) = Inr (sy, st1)" "entry_count st1 \<le> 1"
    using new_ident_returns [OF wf start(1,2), of "''x''" 7 1] start(3) by auto
  have "symtable_wf st1" "page_bytes st1 = 4096"
    using new_ident_post [OF wf new(1)] start(1) by (simp_all add: same_scope_def)
  then obtain b st2 where "name_is_declared ''x'' Symbol_Ident st1 = Inr (b, st2)"
    using name_is_declared_returns [of st1 Symbol_Ident "''x''"] new(2) by auto
  with declared_after_new_ident [OF wf new(1) this] new(1) show ?thesis by auto
qed

end
