(* ===== verification/ParseRun.thy ===== *)
theory ParseRun
  imports ParseCalc Keywords
begin

text \<open>
  Exact runs of the parser. The class the parser gives an identifier depends on the symbols of
  its name only, so as long as nothing is declared the array the parser works on is known in
  advance: \<open>us\<close>, every token with its final class. The judgment \<open>runs \<sigma> us i m j Q\<close> says that \<open>m\<close>,
  started at token \<open>i\<close> of \<open>us\<close> with symbols \<open>\<sigma>\<close>, returns at token \<open>j\<close> with a result in \<open>Q\<close>.
\<close>

section \<open>Tokens with their final class\<close>

type_synonym symbol_map = "string \<Rightarrow> symbol list \<times> symbol list \<times> symbol list"

definition name_class :: "symbol list \<times> symbol list \<times> symbol list \<Rightarrow> token_class" where
  "name_class v = (case v of (kw, ty, idt) \<Rightarrow>
     if kw \<noteq> [] \<and> ident_kind (hd kw) = Symbol_Keyword then sym_token_klass (hd kw)
     else if ty \<noteq> [] \<and> ident_kind (hd ty) = Symbol_Type then Token_TypeIdentifier
     else Token_Identifier)"

definition resolve :: "symbol_map \<Rightarrow> token \<Rightarrow> token" where
  "resolve \<sigma> t = (if klass t = Token_Identifier then t\<lparr>klass := name_class (\<sigma> (lexeme t))\<rparr> else t)"

lemma resolve_idem: "resolve \<sigma> (resolve \<sigma> t) = resolve \<sigma> t"
  by (cases t) (simp add: resolve_def)

lemma lexeme_resolve [simp]: "lexeme (resolve \<sigma> t) = lexeme t"
  by (simp add: resolve_def)

text \<open>
  The table has room for the names of \<open>us\<close> it does not know yet: with pages of 4096 bytes a
  lookup among up to 500 names returns.
\<close>

definition roomy :: "token list \<Rightarrow> symtable \<Rightarrow> bool" where
  "roomy us st \<longleftrightarrow> symtable_wf st \<and> page_bytes st = 4096 \<and>
     entry_count st + int (card {n \<in> lexeme ` set us. st_lookup st n = None}) \<le> 501"

definition ready_at :: "symbol_map \<Rightarrow> token list \<Rightarrow> nat \<Rightarrow> parser \<Rightarrow> bool" where
  "ready_at \<sigma> us i s \<longleftrightarrow> map (resolve \<sigma>) (ps_tokens s) = us \<and> token_at s = i \<and> i < length us \<and>
     ps_tokens s ! i = us ! i \<and> (\<forall>t \<in> set us. klass t \<noteq> Token_Comment) \<and>
     symbols (ps_symtable s) = \<sigma> \<and> roomy us (ps_symtable s)"

lemma ready_atD:
  assumes "ready_at \<sigma> us i s"
  shows "length (ps_tokens s) = length us" "token_at s = i" "i < length us" "ps_tokens s ! i = us ! i"
    "\<And>j. j < length us \<Longrightarrow> us ! j = resolve \<sigma> (ps_tokens s ! j)"
    "\<And>j. j < length us \<Longrightarrow> klass (us ! j) \<noteq> Token_Comment"
    "symbols (ps_symtable s) = \<sigma>" "roomy us (ps_symtable s)"
proof -
  have m: "us = map (resolve \<sigma>) (ps_tokens s)" using assms unfolding ready_at_def by blast
  show "length (ps_tokens s) = length us" by (simp add: m)
  show "us ! j = resolve \<sigma> (ps_tokens s ! j)" if "j < length us" for j
    unfolding m by (rule nth_map) (use that m in simp)
qed (use assms in \<open>simp_all add: ready_at_def\<close>)

lemma roomy_get:
  assumes "roomy us st" and "name \<in> lexeme ` set us"
  obtains e st' where "get_symtable_entry name st = Inr (e, st')" "roomy us st'"
    "symbols st' = symbols st" "identifier_class e = name_class (symbols st name)"
proof -
  let ?new = "\<lambda>st. {n \<in> lexeme ` set us. st_lookup st n = None}"
  have wf: "symtable_wf st" and page: "page_bytes st = 4096"
    and room: "entry_count st + int (card (?new st)) \<le> 501"
    using assms(1) by (simp_all add: roomy_def)
  have "\<exists>e st'. get_symtable_entry name st = Inr (e, st')"
  proof (cases "st_lookup st name = None")
    case True
    then have "0 < card (?new st)" using assms(2) by (auto simp: card_gt_0_iff)
    with room have "entry_count st \<le> 500" by linarith
    then show ?thesis by (rule small_table_returns [OF wf page])
  next
    case False
    then show ?thesis by (intro get_symtable_entry_returns [OF wf]) simp
  qed
  then obtain e st' where get: "get_symtable_entry name st = Inr (e, st')" by blast
  have post: "get_post name st e st'" by (rule get_symtable_entry_post [OF wf get])
  have card: "int (card (?new st')) = int (card (?new st)) - (if st_lookup st name = None then 1 else 0)"
  proof (cases "st_lookup st name = None")
    case True
    then have "?new st = insert name (?new st')" "name \<notin> ?new st'"
      using assms(2) post by (auto simp: get_post_def)
    then show ?thesis using True by simp
  next
    case False
    then have "?new st' = ?new st" using post by (auto simp: get_post_def)
    then show ?thesis using False by simp
  qed
  have "roomy us st'"
    using post room page card by (auto simp: roomy_def get_post_def same_scope_def split: if_splits)
  moreover have "identifier_class e = name_class (symbols st name)"
    using post by (simp add: get_post_def symbols_def Let_def identifier_class_def name_class_def)
  ultimately show thesis using that [OF get] get_post_symbols [OF post] by simp
qed

section \<open>Runs\<close>

definition runs :: "symbol_map \<Rightarrow> token list \<Rightarrow> nat \<Rightarrow> 'a P \<Rightarrow> nat \<Rightarrow> ('a \<Rightarrow> bool) \<Rightarrow> bool" where
  "runs \<sigma> us i m j Q \<longleftrightarrow> (\<forall>s. ready_at \<sigma> us i s \<longrightarrow>
     wp m (\<lambda>x s'. ready_at \<sigma> us j s' \<and> Q x) (\<lambda>_. False) s)"

lemma runsI:
  "(\<And>s. ready_at \<sigma> us i s \<Longrightarrow> wp m (\<lambda>x s'. ready_at \<sigma> us j s' \<and> Q x) (\<lambda>_. False) s) \<Longrightarrow>
   runs \<sigma> us i m j Q"
  by (simp add: runs_def)

lemma runs_result:
  assumes "runs \<sigma> us i m j Q" and "ready_at \<sigma> us i s"
  obtains x s' where "m s = Inr (x, s')" "ready_at \<sigma> us j s'" "Q x"
proof -
  have "wp m (\<lambda>x s'. ready_at \<sigma> us j s' \<and> Q x) (\<lambda>_. False) s" using assms by (simp add: runs_def)
  then show thesis using that by (cases "m s") (auto simp: wp_def)
qed

lemma runs_ret: "Q x \<Longrightarrow> runs \<sigma> us i (ret x) i Q"
  by (simp add: runs_def wp_simps)

lemma runs_bnd:
  "runs \<sigma> us i m j R \<Longrightarrow> (\<And>x. R x \<Longrightarrow> runs \<sigma> us j (f x) k Q) \<Longrightarrow> runs \<sigma> us i (bnd m f) k Q"
  unfolding runs_def wp_bnd by (blast intro: wp_conseq)

lemma runs_weaken: "runs \<sigma> us i m j R \<Longrightarrow> (\<And>x. R x \<Longrightarrow> Q x) \<Longrightarrow> runs \<sigma> us i m j Q"
  unfolding runs_def by (blast intro: wp_conseq)

lemma runs_current: "runs \<sigma> us i current_token i (\<lambda>t. t = us ! i)"
  by (auto simp: runs_def wp_parser ready_at_def)

lemma runs_if_tok: "runs \<sigma> us i (if test (us ! i) then m else m') j Q \<Longrightarrow> runs \<sigma> us i (if_tok test m m') j Q"
  unfolding if_tok_def by (rule runs_bnd [OF runs_current]) simp

lemma runs_if_class:
  "runs \<sigma> us i (if klass (us ! i) = k then m else m') j Q \<Longrightarrow> runs \<sigma> us i (if_class k m m') j Q"
  unfolding if_class_def by (rule runs_if_tok) (simp add: has_class_def)

lemma runs_require: "test (us ! i) \<Longrightarrow> runs \<sigma> us i (require test msg) i (\<lambda>_. True)"
  unfolding require_def by (rule runs_if_tok) (simp add: runs_ret)

lemma runs_next:
  assumes "Suc i < length us"
  shows "runs \<sigma> us i next_tok (Suc i) (\<lambda>_. True)"
proof (rule runsI)
  fix s assume s: "ready_at \<sigma> us i s"
  let ?t = "ps_tokens s ! Suc i"
  note len = ready_atD(1) [OF s] and us = ready_atD(5) [OF s assms]
  have m: "map (resolve \<sigma>) (ps_tokens s) = us" using s unfolding ready_at_def by blast
  have "klass (us ! Suc i) \<noteq> Token_Comment" by (rule ready_atD(6) [OF s assms])
  then have nc: "klass ?t \<noteq> Token_Comment" using us by (auto simp: resolve_def split: if_splits)
  then have skip: "skip_comments (ps_tokens s) (Suc i) = Inr (Suc i)"
    using assms len by (simp add: skip_comments.simps [of "ps_tokens s" "Suc i"])
  show "wp next_tok (\<lambda>x s'. ready_at \<sigma> us (Suc i) s' \<and> True) (\<lambda>_. False) s"
  proof (cases "klass ?t = Token_Identifier")
    case False
    then have "?t = us ! Suc i" using us by (simp add: resolve_def)
    with False s skip assms len show ?thesis
      by (auto simp: next_tok_def wp_parser ready_at_def)
  next
    case True
    have "lexeme ?t \<in> lexeme ` set us" using us assms lexeme_resolve [of \<sigma> ?t] by (metis image_eqI nth_mem)
    then obtain e st' where get: "get_symtable_entry (lexeme ?t) (ps_symtable s) = Inr (e, st')"
      "roomy us st'" "symbols st' = \<sigma>" "identifier_class e = name_class (\<sigma> (lexeme ?t))"
      using roomy_get [of us "ps_symtable s" "lexeme ?t"] s by (auto simp: ready_at_def)
    then have eq: "?t\<lparr>klass := identifier_class e\<rparr> = us ! Suc i" using True us by (simp add: resolve_def)
    then have "map (resolve \<sigma>) ((ps_tokens s)[Suc i := ?t\<lparr>klass := identifier_class e\<rparr>]) = us"
      using us resolve_idem [of \<sigma> ?t] m list_update_id [of us "Suc i"] by (simp add: map_update)
    with True s skip assms len get eq show ?thesis
      by (auto simp: next_tok_def wp_parser ready_at_def set_token_class_def)
  qed
qed

lemma runs_expect: "klass (us ! i) = k \<Longrightarrow> Suc i < length us \<Longrightarrow> runs \<sigma> us i (expect k msg) (Suc i) (\<lambda>_. True)"
  unfolding expect_def by (rule runs_if_class) (simp add: runs_next)

text \<open>Looking ahead may give the next token its class, and comes back.\<close>

lemma runs_peek:
  assumes "Suc i < length us"
  shows "runs \<sigma> us i peek_token i (\<lambda>t. t = us ! Suc i)"
proof (rule runsI)
  fix s assume s: "ready_at \<sigma> us i s"
  then have s1: "ready_at \<sigma> us i (s\<lparr>prev_token_at := token_at s\<rparr>)" by (simp add: ready_at_def)
  have frame: "wp next_tok (\<lambda>_ s'. prev_token_at s' = i \<and> ps_tokens s' ! i = us ! i) (\<lambda>_. True)
      (s\<lparr>prev_token_at := token_at s\<rparr>)"
  proof (cases "skip_comments (ps_tokens s) (Suc i)")
    case (Inr j)
    have ti: "token_at s = i" "ps_tokens s ! i = us ! i" using s by (simp_all add: ready_at_def)
    have "i < j" using skip_comments_Inr [OF Inr] by simp
    then show ?thesis
      using Inr ti by (auto simp: next_tok_def wp_parser set_token_class_def split: sum.splits)
  qed (use s in \<open>simp add: next_tok_def wp_parser ready_at_def\<close>)
  have "wp next_tok (\<lambda>_ s'. ready_at \<sigma> us (Suc i) s' \<and> prev_token_at s' = i \<and> ps_tokens s' ! i = us ! i)
      (\<lambda>_. False) (s\<lparr>prev_token_at := token_at s\<rparr>)" (is "wp next_tok ?R _ _")
    using frame runs_next [OF assms, of \<sigma>, unfolded runs_def, rule_format, OF s1]
    by (auto simp: wp_def split: sum.splits)
  note after = this
  show "wp peek_token (\<lambda>x s'. ready_at \<sigma> us i s' \<and> x = us ! Suc i) (\<lambda>_. False) s"
    unfolding peek_token_def wp_bnd wp_modify
  proof (rule wp_conseq [OF after], goal_cases)
    case (1 x s')
    then have "ready_at \<sigma> us i (s'\<lparr>token_at := i\<rparr>)" by (simp add: ready_at_def)
    moreover have "token_at s' = Suc i" "Suc i < length (ps_tokens s')" "ps_tokens s' ! Suc i = us ! Suc i"
      using ready_atD(1-4) [of \<sigma> us "Suc i" s'] 1 by simp_all
    ultimately show ?case using 1 by (simp add: wp_parser)
  qed simp
qed

section \<open>Nodes\<close>

text \<open>A node of kind \<open>k\<close> with exactly the attributes \<open>m\<close>, \<open>c\<close> of them at most.\<close>

definition node :: "ast_kind \<Rightarrow> int \<Rightarrow> (string \<rightharpoonup> attr_value \<times> ast_attribute_type) \<Rightarrow> ast \<Rightarrow> bool" where
  "node k c m a \<longleftrightarrow> kind_of a = k \<and> attr_wf a \<and> attr_lookup a = m \<and> attr_count_of a \<le> c"

lemma runs_new: "runs \<sigma> us i (new_ast_node k) i (node k 0 Map.empty)"
proof -
  have "attr_lookup (blank_ast k n l) = Map.empty" for n l
  proof
    fix name
    obtain h where "attr_hash name = Inr h" "h < 15" by (rule attr_hash_defined)
    then show "attr_lookup (blank_ast k n l) name = None"
      by (simp add: attr_lookup_def blank_ast_def AST_ATTRTABLE_CAPACITY_def)
  qed
  then show ?thesis
    by (auto simp: runs_def new_ast_node_def wp_parser ready_at_def node_def attr_wf_blank)
      (simp_all add: blank_ast_def)
qed

lemma runs_setattr:
  assumes "node k c m a" and "c < 15"
  shows "runs \<sigma> us i (lift (ast_setattr a name v ty)) i (node k (c + 1) (m(name \<mapsto> (v, ty))))"
proof -
  have a: "attr_wf a" "attr_count_of a < 15" "attr_count_of a \<le> c" "attr_lookup a = m" "kind_of a = k"
    using assms by (simp_all add: node_def)
  obtain a' where a': "ast_setattr a name v ty = Inr a'" using ast_setattr_total [OF a(1,2)] by blast
  have "attr_count_of a' \<le> attr_count_of a + 1"
    using a' by (auto simp: ast_setattr_def bnd_r_Inr_iff split: option.splits if_splits)
  then have "node k (c + 1) (m(name \<mapsto> (v, ty))) a'"
    using a a' ast_setattr_wf [OF a(1) a'] ast_setattr_lookup [OF a(1) a'] ast_setattr_frame [OF a']
    by (auto simp: node_def)
  then show ?thesis using a' by (auto simp: runs_def wp_parser)
qed

lemma runs_set_ast:
  "node k c m a \<Longrightarrow> c < 15 \<Longrightarrow>
   runs \<sigma> us i (set_ast name v a) i (node k (c + 1) (m(name \<mapsto> (V_Ast v, AstAttr_Ast))))"
  by (simp add: set_ast_def runs_setattr)

lemma runs_set_int:
  "node k c m a \<Longrightarrow> c < 15 \<Longrightarrow>
   runs \<sigma> us i (set_int name v a) i (node k (c + 1) (m(name \<mapsto> (V_Integer v, AstAttr_Integer))))"
  by (simp add: set_int_def runs_setattr)

lemma runs_set_op:
  "node k c m a \<Longrightarrow> c < 15 \<Longrightarrow>
   runs \<sigma> us i (set_op v a) i (node k (c + 1) (m(''op'' \<mapsto> (V_ExprOperator v, AstAttr_ExprOperator))))"
  by (simp add: set_op_def runs_setattr)

lemma runs_set_lexeme:
  "node k c m a \<Longrightarrow> c < 15 \<Longrightarrow>
   runs \<sigma> us i (set_lexeme name a) i (node k (c + 1) (m(name \<mapsto> (V_String (lexeme (us ! i)), AstAttr_String))))"
  unfolding set_lexeme_def by (rule runs_bnd [OF runs_current]) (simp add: runs_setattr)

lemma runs_attr_ast:
  "runs \<sigma> us i b j Q \<Longrightarrow> node k c m a \<Longrightarrow> c < 15 \<Longrightarrow>
   runs \<sigma> us i (attr_ast name b a) j
     (\<lambda>y. \<exists>x. Q x \<and> node k (c + 1) (m(name \<mapsto> (V_Ast (Some x), AstAttr_Ast))) y)"
  unfolding attr_ast_def by (rule runs_bnd, assumption) (rule runs_weaken [OF runs_set_ast], auto)

lemma runs_attr_list:
  "runs \<sigma> us i b j Q \<Longrightarrow> node k c m a \<Longrightarrow> c < 15 \<Longrightarrow>
   runs \<sigma> us i (attr_list name b a) j
     (\<lambda>y. \<exists>x. Q x \<and> node k (c + 1) (m(name \<mapsto> (V_AstList x, AstAttr_AstList))) y)"
  unfolding attr_list_def set_list_def by (rule runs_bnd, assumption) (rule runs_weaken [OF runs_setattr], auto)

text \<open>The first command of a sequence, for \<open>intro\<close>.\<close>

named_theorems runs_seq \<open>one rule per command in front of a sequence\<close>

lemma runs_seq_next [runs_seq]:
  "Suc i < length us \<Longrightarrow> runs \<sigma> us (Suc i) (f ()) k Q \<Longrightarrow> runs \<sigma> us i (bnd next_tok f) k Q"
  by (rule runs_bnd [OF runs_next]) auto

lemma runs_seq_require [runs_seq]:
  "test (us ! i) \<Longrightarrow> runs \<sigma> us i (f ()) k Q \<Longrightarrow> runs \<sigma> us i (bnd (require test msg) f) k Q"
  by (rule runs_bnd [where R = "\<lambda>_. True"], rule runs_require) auto

lemma runs_seq_expect [runs_seq]:
  "klass (us ! i) = c \<Longrightarrow> Suc i < length us \<Longrightarrow> runs \<sigma> us (Suc i) (f ()) k Q \<Longrightarrow>
   runs \<sigma> us i (bnd (expect c msg) f) k Q"
  by (rule runs_bnd [OF runs_expect]) auto

lemma runs_seq_ret [runs_seq]: "runs \<sigma> us i (f x) k Q \<Longrightarrow> runs \<sigma> us i (bnd (ret x) f) k Q"
  by (simp add: bnd_def ret_def)

lemma runs_seq_current [runs_seq]: "runs \<sigma> us i (f (us ! i)) k Q \<Longrightarrow> runs \<sigma> us i (bnd current_token f) k Q"
  by (rule runs_bnd [OF runs_current]) simp

lemma runs_seq_new [runs_seq]:
  "(\<And>a. node n 0 Map.empty a \<Longrightarrow> runs \<sigma> us i (f a) k Q) \<Longrightarrow> runs \<sigma> us i (bnd (new_ast_node n) f) k Q"
  by (rule runs_bnd [OF runs_new])

lemma runs_seq_lexeme [runs_seq]:
  "node n c m a \<Longrightarrow> c < 15 \<Longrightarrow>
   (\<And>b. node n (c + 1) (m(name \<mapsto> (V_String (lexeme (us ! i)), AstAttr_String))) b \<Longrightarrow> runs \<sigma> us i (f b) k Q) \<Longrightarrow>
   runs \<sigma> us i (bnd (set_lexeme name a) f) k Q"
  by (rule runs_bnd [OF runs_set_lexeme])

lemma runs_seq_int [runs_seq]:
  "node n c m a \<Longrightarrow> c < 15 \<Longrightarrow>
   (\<And>b. node n (c + 1) (m(name \<mapsto> (V_Integer v, AstAttr_Integer))) b \<Longrightarrow> runs \<sigma> us i (f b) k Q) \<Longrightarrow>
   runs \<sigma> us i (bnd (set_int name v a) f) k Q"
  by (rule runs_bnd [OF runs_set_int])

lemma runs_seq_op [runs_seq]:
  "node n c m a \<Longrightarrow> c < 15 \<Longrightarrow>
   (\<And>b. node n (c + 1) (m(''op'' \<mapsto> (V_ExprOperator v, AstAttr_ExprOperator))) b \<Longrightarrow> runs \<sigma> us i (f b) k Q) \<Longrightarrow>
   runs \<sigma> us i (bnd (set_op v a) f) k Q"
  by (rule runs_bnd [OF runs_set_op])

lemma runs_seq_ast [runs_seq]:
  "node n c m a \<Longrightarrow> c < 15 \<Longrightarrow>
   (\<And>b. node n (c + 1) (m(name \<mapsto> (V_Ast v, AstAttr_Ast))) b \<Longrightarrow> runs \<sigma> us i (f b) k Q) \<Longrightarrow>
   runs \<sigma> us i (bnd (set_ast name v a) f) k Q"
  by (rule runs_bnd [OF runs_set_ast])

lemma runs_seq_attr_ast:
  "runs \<sigma> us i b j P \<Longrightarrow> node n c m a \<Longrightarrow> c < 15 \<Longrightarrow>
   (\<And>x y. P x \<Longrightarrow> node n (c + 1) (m(name \<mapsto> (V_Ast (Some x), AstAttr_Ast))) y \<Longrightarrow> runs \<sigma> us j (f y) k Q) \<Longrightarrow>
   runs \<sigma> us i (bnd (attr_ast name b a) f) k Q"
  by (rule runs_bnd [OF runs_attr_ast]) auto

lemma runs_seq_attr_list:
  "runs \<sigma> us i b j P \<Longrightarrow> node n c m a \<Longrightarrow> c < 15 \<Longrightarrow>
   (\<And>x y. P x \<Longrightarrow> node n (c + 1) (m(name \<mapsto> (V_AstList x, AstAttr_AstList))) y \<Longrightarrow> runs \<sigma> us j (f y) k Q) \<Longrightarrow>
   runs \<sigma> us i (bnd (attr_list name b a) f) k Q"
  by (rule runs_bnd [OF runs_attr_list]) auto

end
