(* ===== verification/ParseTerm.thy ===== *)
theory ParseTerm
  imports ParseCalc
begin

text \<open>
  The parser stops. One lemma per function of build_ast.c says that it moves the token cursor
  right (\<open>eats\<close>) or does not move it back (\<open>stays\<close>), given that the five recursive calls do;
  the functions behind the five calls eat a token before they call back. By induction on the
  fuel, \<open>2 * left + 2\<close> levels of calls are enough. The exception is the statement \<open>;\<close> of a
  parser state, which the parser never passes.
\<close>

section \<open>Rules for the functions behind a recursive call\<close>

named_theorems eats_first \<open>which commands eat a token before they call a handler\<close>

lemmas [eats_first] = eats_bnd_after stays_bnd_after

lemma eats_less: "eats (Suc N) m \<Longrightarrow> eats N m"
  by (erule moves_mono) simp_all

lemma moves_eats_stays [eats]: "eats N m \<Longrightarrow> stays N m"
  by (rule eats_stays)

lemma moves_setattr [eats]: "stays N (lift (ast_setattr node name v ty))"
  by (rule moves_lift) (erule ast_setattr_stops)

section \<open>Names, types and declarations\<close>

lemma moves_build_nonTypeName [eats]: "eats N (build_nonTypeName is_type)"
  by (simp add: build_nonTypeName_def eats)

lemma moves_build_name [eats]: "eats N (build_name is_type)"
  by (simp add: build_name_def eats)

lemma moves_build_typeParameterList [eats]: "env_ok N e \<Longrightarrow> eats N (build_typeParameterList e)"
  by (simp add: build_typeParameterList_def eats)

lemma moves_build_optTypeParameters [eats]: "env_ok N e \<Longrightarrow> stays N (build_optTypeParameters e)"
  by (simp add: build_optTypeParameters_def eats)

lemma moves_build_typeArg [eats]: "env_ok N e \<Longrightarrow> eats N (build_typeArg e)"
  by (simp add: build_typeArg_def eats)

lemma moves_build_direction [eats]: "stays N build_direction"
  by (simp add: build_direction_def eats)

lemma moves_build_parameter [eats]: "env_ok N e \<Longrightarrow> eats N (build_parameter e)"
  by (simp add: build_parameter_def eats)

lemma moves_build_parameterList [eats]: "env_ok N e \<Longrightarrow> stays N (build_parameterList e)"
  by (simp add: build_parameterList_def eats)

lemma moves_build_typeOrVoid [eats]: "env_ok N e \<Longrightarrow> eats N (build_typeOrVoid e is_type)"
  by (simp add: build_typeOrVoid_def eats)

lemma moves_build_functionPrototype [eats]: "env_ok N e \<Longrightarrow> eats N (build_functionPrototype e type_ref)"
  by (simp add: build_functionPrototype_def eats)

lemma moves_build_methodPrototype [eats]: "env_ok N e \<Longrightarrow> eats N (build_methodPrototype e)"
  by (simp add: build_methodPrototype_def eats)

lemma moves_build_methodPrototypes [eats]: "env_ok N e \<Longrightarrow> stays N (build_methodPrototypes e)"
  by (simp add: build_methodPrototypes_def eats)

lemma moves_build_externDeclaration [eats]: "env_ok N e \<Longrightarrow> stays N (build_externDeclaration e)"
  by (simp add: build_externDeclaration_def eats)

lemma moves_build_integer [eats]: "stays N build_integer"
  by (simp add: build_integer_def eats)

lemma moves_build_boolean [eats]: "stays N build_boolean"
  by (simp add: build_boolean_def eats)

lemma moves_build_stringLiteral [eats]: "stays N build_stringLiteral"
  by (simp add: build_stringLiteral_def eats)

lemma moves_build_integerTypeSize [eats]: "env_ok N e \<Longrightarrow> stays N (build_integerTypeSize e)"
  by (simp add: build_integerTypeSize_def eats)

lemma moves_build_optSize [eats]: "env_ok N e \<Longrightarrow> stays N (build_optSize e base_type)"
  by (simp add: build_optSize_def eats)

lemma first_build_baseType [eats_first]: "env_ok N e \<Longrightarrow> eats (Suc N) (build_baseType e)"
  by (simp add: build_baseType_def eats_first eats)

lemma moves_build_baseType [eats]: "env_ok N e \<Longrightarrow> eats N (build_baseType e)"
  by (rule eats_less) (rule first_build_baseType)

lemma moves_build_typeArgumentList [eats]: "env_ok N e \<Longrightarrow> stays N (build_typeArgumentList e)"
  by (simp add: build_typeArgumentList_def eats)

lemma first_build_tupleType [eats_first]: "env_ok N e \<Longrightarrow> eats (Suc N) (build_tupleType e)"
  by (simp add: build_tupleType_def eats_first eats)

lemma moves_build_tupleType [eats]: "env_ok N e \<Longrightarrow> eats N (build_tupleType e)"
  by (rule eats_less) (rule first_build_tupleType)

lemma moves_build_headerStackType [eats]: "env_ok N e \<Longrightarrow> eats N (build_headerStackType e)"
  by (simp add: build_headerStackType_def eats)

lemma moves_build_specializedType [eats]: "env_ok N e \<Longrightarrow> eats N (build_specializedType e)"
  by (simp add: build_specializedType_def eats)

lemma moves_build_prefixedType [eats]: "eats N build_prefixedType"
  by (simp add: build_prefixedType_def eats)

lemma first_build_typeName [eats_first]: "env_ok N e \<Longrightarrow> eats (Suc N) (build_typeName e)"
  by (simp add: build_typeName_def eats_first eats)

lemma moves_build_typeName [eats]: "env_ok N e \<Longrightarrow> eats N (build_typeName e)"
  by (rule eats_less) (rule first_build_typeName)

lemma first_build_typeRef [eats_first]: "env_ok N e \<Longrightarrow> eats (Suc N) (build_typeRef e)"
  by (simp add: build_typeRef_def eats_first eats)

lemma moves_build_typeRef [eats]: "env_ok N e \<Longrightarrow> eats N (build_typeRef e)"
  by (rule eats_less) (rule first_build_typeRef)

lemma moves_build_structField [eats]: "env_ok N e \<Longrightarrow> eats N (build_structField e)"
  by (simp add: build_structField_def eats)

lemma moves_build_structFieldList [eats]: "env_ok N e \<Longrightarrow> stays N (build_structFieldList e)"
  by (simp add: build_structFieldList_def eats)

lemma moves_build_fields_decl [eats]: "env_ok N e \<Longrightarrow> eats N (build_fields_decl e kind)"
  by (simp add: build_fields_decl_def eats)

lemma moves_build_headerTypeDeclaration [eats]: "env_ok N e \<Longrightarrow> eats N (build_headerTypeDeclaration e)"
  by (simp add: build_headerTypeDeclaration_def eats)

lemma moves_build_headerUnionDeclaration [eats]: "env_ok N e \<Longrightarrow> eats N (build_headerUnionDeclaration e)"
  by (simp add: build_headerUnionDeclaration_def eats)

lemma moves_build_structTypeDeclaration [eats]: "env_ok N e \<Longrightarrow> eats N (build_structTypeDeclaration e)"
  by (simp add: build_structTypeDeclaration_def eats)

lemma moves_build_initializer [eats]: "env_ok N e \<Longrightarrow> eats N (build_initializer e)"
  by (simp add: build_initializer_def eats)

lemma moves_build_optInitializer [eats]: "env_ok N e \<Longrightarrow> stays N (build_optInitializer e)"
  by (simp add: build_optInitializer_def eats)

lemma moves_build_specifiedIdentifier [eats]: "env_ok N e \<Longrightarrow> eats N (build_specifiedIdentifier e)"
  by (simp add: build_specifiedIdentifier_def eats)

lemma moves_build_specifiedIdentifierList [eats]: "env_ok N e \<Longrightarrow> stays N (build_specifiedIdentifierList e)"
  by (simp add: build_specifiedIdentifierList_def eats)

lemma moves_build_enumDeclaration [eats]: "env_ok N e \<Longrightarrow> eats N (build_enumDeclaration e)"
  by (simp add: build_enumDeclaration_def eats)

lemma moves_build_derivedTypeDeclaration [eats]: "env_ok N e \<Longrightarrow> eats N (build_derivedTypeDeclaration e)"
  by (simp add: build_derivedTypeDeclaration_def eats)

lemma moves_build_type_with_params [eats]: "env_ok N e \<Longrightarrow> eats N (build_type_with_params e kind)"
  by (simp add: build_type_with_params_def eats)

lemma moves_build_parserTypeDeclaration [eats]: "env_ok N e \<Longrightarrow> eats N (build_parserTypeDeclaration e)"
  by (simp add: build_parserTypeDeclaration_def eats)

lemma moves_build_controlTypeDeclaration [eats]: "env_ok N e \<Longrightarrow> eats N (build_controlTypeDeclaration e)"
  by (simp add: build_controlTypeDeclaration_def eats)

lemma moves_build_packageTypeDeclaration [eats]: "env_ok N e \<Longrightarrow> eats N (build_packageTypeDeclaration e)"
  by (simp add: build_packageTypeDeclaration_def eats)

lemma moves_build_optConstructorParameters [eats]: "env_ok N e \<Longrightarrow> stays N (build_optConstructorParameters e)"
  by (simp add: build_optConstructorParameters_def eats)

lemma first_build_constantDeclaration [eats_first]: "env_ok N e \<Longrightarrow> eats (Suc N) (build_constantDeclaration e)"
  by (simp add: build_constantDeclaration_def eats_first eats)

lemma moves_build_constantDeclaration [eats]: "env_ok N e \<Longrightarrow> eats N (build_constantDeclaration e)"
  by (rule eats_less) (rule first_build_constantDeclaration)

lemma moves_build_typedefDeclaration [eats]: "env_ok N e \<Longrightarrow> eats N (build_typedefDeclaration e)"
  by (simp add: build_typedefDeclaration_def eats)

section \<open>Expressions\<close>

text \<open>\<open>non_null\<close> moves inside a command, so a builder with a null result eats when it has a node.\<close>

lemma non_null_simps [eats]:
  "non_null (some_step m) = m"
  "non_null (if_tok test n n') = if_tok test (non_null n) (non_null n')"
  "non_null (if_class k n n') = if_class k (non_null n) (non_null n')"
  "non_null (if b then n else n') = (if b then non_null n else non_null n')"
  "non_null (bnd c f) = bnd c (\<lambda>x. non_null (f x))"
  "non_null (fail x) = fail x"
  "non_null (expected msg) = expected msg"
  "non_null (ret None) = fail Bad_access"
  "non_null (ret (Some node)) = ret node"
  by (auto simp: non_null_def some_step_def if_class_def if_tok_def expected_def bnd_def fail_def ret_def
      fun_eq_iff split: sum.splits prod.splits)

lemma moves_non_null_integer [eats]: "eats N (non_null build_integer)"
  by (simp add: build_integer_def eats)

lemma moves_non_null_boolean [eats]: "eats N (non_null build_boolean)"
  by (simp add: build_boolean_def eats)

lemma moves_non_null_stringLiteral [eats]: "eats N (non_null build_stringLiteral)"
  by (simp add: build_stringLiteral_def eats)

lemma moves_build_argument [eats]: "env_ok N e \<Longrightarrow> eats N (build_argument e)"
  by (simp add: build_argument_def eats)

lemma moves_build_argumentList [eats]: "env_ok N e \<Longrightarrow> stays N (build_argumentList e)"
  by (simp add: build_argumentList_def eats)

lemma moves_build_arrayIndex [eats]: "env_ok N e \<Longrightarrow> eats N (build_arrayIndex e)"
  by (simp add: build_arrayIndex_def eats)

lemma moves_build_expressionList [eats]: "env_ok N e \<Longrightarrow> stays N (build_expressionList e)"
  by (simp add: build_expressionList_def eats)

lemma moves_build_realTypeArg [eats]: "env_ok N e \<Longrightarrow> eats N (build_realTypeArg e)"
  by (simp add: build_realTypeArg_def eats)

lemma moves_build_realTypeArgumentList [eats]: "env_ok N e \<Longrightarrow> stays N (build_realTypeArgumentList e)"
  by (simp add: build_realTypeArgumentList_def eats)

lemma first_build_unary [eats_first]: "env_ok N e \<Longrightarrow> eats (Suc N) (build_unary e op)"
  by (simp add: build_unary_def eats_first eats)

lemma moves_build_unary [eats]: "env_ok N e \<Longrightarrow> eats N (build_unary e op)"
  by (rule eats_less) (rule first_build_unary)

lemma first_build_dotPrimary [eats_first]: "env_ok N e \<Longrightarrow> eats (Suc N) (build_dotPrimary e)"
  by (simp add: build_dotPrimary_def eats_first eats)

lemma moves_build_dotPrimary [eats]: "env_ok N e \<Longrightarrow> eats N (build_dotPrimary e)"
  by (rule eats_less) (rule first_build_dotPrimary)

lemma first_build_parenPrimary [eats_first]: "env_ok N e \<Longrightarrow> eats (Suc N) (build_parenPrimary e)"
  by (simp add: build_parenPrimary_def eats_first eats)

lemma moves_build_parenPrimary [eats]: "env_ok N e \<Longrightarrow> eats N (build_parenPrimary e)"
  by (rule eats_less) (rule first_build_parenPrimary)

lemma moves_build_errorPrimary [eats]: "eats N build_errorPrimary"
  by (simp add: build_errorPrimary_def eats)

lemma first_build_expressionPrimary [eats_first]: "env_ok N e \<Longrightarrow> eats (Suc N) (build_expressionPrimary e)"
  by (simp add: build_expressionPrimary_def eats_first eats)

lemma moves_build_expressionPrimary [eats]: "env_ok N e \<Longrightarrow> eats N (build_expressionPrimary e)"
  by (rule eats_less) (rule first_build_expressionPrimary)

lemma moves_member_step [eats]: "eats N (member_step expr)"
  by (simp add: member_step_def eats)

lemma moves_index_step [eats]: "env_ok N e \<Longrightarrow> eats N (index_step e expr)"
  by (simp add: index_step_def eats)

lemma moves_call_step [eats]: "env_ok N e \<Longrightarrow> eats N (call_step e expr)"
  by (simp add: call_step_def eats)

lemma moves_type_args_step [eats]: "env_ok N e \<Longrightarrow> eats N (type_args_step e expr)"
  by (simp add: type_args_step_def eats)

lemma moves_kv_step [eats]: "env_ok N e \<Longrightarrow> eats N (kv_step e expr)"
  by (simp add: kv_step_def eats)

text \<open>One round of the operator loop eats a token unless it stops the loop.\<close>

definition may_eat :: "nat \<Rightarrow> 'a option P \<Rightarrow> bool" where
  "may_eat N m \<longleftrightarrow> (\<forall>s. parse_inv s \<and> left s \<le> N \<longrightarrow>
     wp m (\<lambda>r s'. parse_inv s' \<and> left s' \<le> left s \<and> (r \<noteq> None \<longrightarrow> left s' < left s)) stops s)"

lemma may_eatI:
  "(\<And>s. parse_inv s \<Longrightarrow> left s \<le> N \<Longrightarrow>
     wp m (\<lambda>r s'. parse_inv s' \<and> left s' \<le> left s \<and> (r \<noteq> None \<longrightarrow> left s' < left s)) stops s) \<Longrightarrow> may_eat N m"
  by (simp add: may_eat_def)

lemma may_eatD:
  "may_eat N m \<Longrightarrow> parse_inv s \<Longrightarrow> left s \<le> N \<Longrightarrow>
   wp m (\<lambda>r s'. parse_inv s' \<and> left s' \<le> left s \<and> (r \<noteq> None \<longrightarrow> left s' < left s)) stops s"
  by (simp add: may_eat_def)

lemma may_eat_eats:
  assumes "eats N m"
  shows "may_eat N m"
  by (rule may_eatI, rule wp_conseq [OF movesD [OF assms]]) auto

lemma may_eat_ret_None: "may_eat N (ret None)"
  by (simp add: may_eat_def wp_ret)

lemma may_eat_fail: "stops f \<Longrightarrow> may_eat N (fail f)"
  by (simp add: may_eat_def wp_fail)

lemma may_eat_bnd:
  assumes "stays N m" and "\<And>x. may_eat N (f x)"
  shows "may_eat N (bnd m f)"
proof (rule may_eatI)
  fix s assume s: "parse_inv s" "left s \<le> N"
  show "wp (bnd m f) (\<lambda>r s'. parse_inv s' \<and> left s' \<le> left s \<and> (r \<noteq> None \<longrightarrow> left s' < left s)) stops s"
    unfolding wp_bnd
  proof (rule wp_conseq [OF movesD [OF assms(1) s]])
    fix x s' assume "parse_inv s' \<and> left s' + 0 \<le> left s"
    with s have s': "parse_inv s'" "left s' \<le> N" "left s' \<le> left s" by auto
    show "wp (f x) (\<lambda>r s'. parse_inv s' \<and> left s' \<le> left s \<and> (r \<noteq> None \<longrightarrow> left s' < left s)) stops s'"
      by (rule wp_conseq [OF may_eatD [OF assms(2) s'(1,2)]]) (use s' in auto)
  qed simp
qed

lemma may_eat_if: "may_eat N m \<Longrightarrow> may_eat N m' \<Longrightarrow> may_eat N (if b then m else m')"
  by simp

lemma may_eat_if_tok: "may_eat N m \<Longrightarrow> may_eat N m' \<Longrightarrow> may_eat N (if_tok test m m')"
  unfolding if_tok_def by (intro may_eat_bnd may_eat_if moves_current_token)

lemma may_eat_if_class: "may_eat N m \<Longrightarrow> may_eat N m' \<Longrightarrow> may_eat N (if_class k m m')"
  unfolding if_class_def by (rule may_eat_if_tok)

lemma get_operator_priority_stops: "get_operator_priority t = Inl f \<Longrightarrow> stops f"
  by (auto simp: get_operator_priority_def split: if_splits)

lemma may_eat_binary_step:
  assumes "env_ok N e"
  shows "may_eat N (binary_step e p expr)"
  unfolding binary_step_def
  by (intro may_eat_bnd may_eat_if may_eat_ret_None may_eat_eats moves_current_token moves_lift)
    (use assms in \<open>auto simp: eats dest: get_operator_priority_stops\<close>)

lemma may_eat_expr_step:
  assumes "env_ok N e"
  shows "may_eat N (expr_step e p expr)"
  unfolding expr_step_def
  by (intro may_eat_if_class may_eat_if_tok may_eat_if may_eat_bnd may_eat_binary_step may_eat_fail
      may_eat_eats assms)
    (use assms in \<open>simp_all add: eats\<close>)

text \<open>Each further round of the loop has a token less, so \<open>N + 1\<close> rounds are enough.\<close>

lemma moves_expr_loop:
  assumes "env_ok N e" and "N < n"
  shows "stays N (expr_loop n e p expr)"
proof (rule movesI)
  fix s assume s: "parse_inv s" "left s \<le> N"
  have "wp (expr_loop n e p expr) (\<lambda>_ s'. parse_inv s' \<and> left s' \<le> left s) stops s"
    if "left s < n" "left s \<le> N" "parse_inv s" for n s
    using that
  proof (induction n arbitrary: s expr)
    case (Suc n)
    let ?f = "\<lambda>r. case r of None \<Rightarrow> ret expr | Some expr' \<Rightarrow> expr_loop n e p expr'"
    have "wp (expr_step e p expr) (\<lambda>r. wp (?f r) (\<lambda>_ s'. parse_inv s' \<and> left s' \<le> left s) stops) stops s"
    proof (rule wp_conseq [OF may_eatD [OF may_eat_expr_step [OF assms(1)] Suc.prems(3,2)]])
      fix r :: "ast option" and s' assume r: "parse_inv s' \<and> left s' \<le> left s \<and> (r \<noteq> None \<longrightarrow> left s' < left s)"
      show "wp (?f r) (\<lambda>_ s'. parse_inv s' \<and> left s' \<le> left s) stops s'"
      proof (cases r)
        case None
        with r show ?thesis by (simp add: wp_ret)
      next
        case (Some expr')
        with r Suc.prems have "left s' < n" "left s' \<le> N" "parse_inv s'" by auto
        show ?thesis
          unfolding Some option.case
          by (rule wp_conseq [OF Suc.IH [OF \<open>left s' < n\<close> \<open>left s' \<le> N\<close> \<open>parse_inv s'\<close>, of expr']])
            (use r in auto)
      qed
    qed simp
    with Suc.prems(3) show ?case
      by (simp add: if_tok_def wp_bnd wp_current_token wp_if wp_ret)
  qed simp
  from this [of s n] s assms(2) show "wp (expr_loop n e p expr) (\<lambda>_ s'. parse_inv s' \<and> left s' + 0 \<le> left s) stops s"
    by simp
qed

lemma first_build_expression [eats_first]: "env_ok N e \<Longrightarrow> eats (Suc N) (build_expression e p)"
  unfolding build_expression_def
  by (intro eats_bnd_rest moves_require eats_bnd_after first_build_expressionPrimary moves_expr_loop)
    (simp_all add: env_ok_def)

lemma moves_build_expression [eats]: "env_ok N e \<Longrightarrow> eats N (build_expression e p)"
  by (rule eats_less) (rule first_build_expression)

section \<open>Statements\<close>

lemma moves_build_prefixedNonTypeName [eats]: "eats N build_prefixedNonTypeName"
  by (simp add: build_prefixedNonTypeName_def eats)

lemma moves_build_lvalueExpr [eats]: "env_ok N e \<Longrightarrow> eats N (build_lvalueExpr e)"
  by (simp add: build_lvalueExpr_def eats)

lemma first_build_lvalue [eats_first]: "env_ok N e \<Longrightarrow> eats (Suc N) (build_lvalue e)"
  by (simp add: build_lvalue_def eats_first eats)

lemma moves_build_lvalue [eats]: "env_ok N e \<Longrightarrow> eats N (build_lvalue e)"
  by (rule eats_less) (rule first_build_lvalue)

lemma first_build_assignmentOrMethodCallStatement [eats_first]: "env_ok N e \<Longrightarrow> eats (Suc N) (build_assignmentOrMethodCallStatement e)"
  by (simp add: build_assignmentOrMethodCallStatement_def eats_first eats)

lemma moves_build_assignmentOrMethodCallStatement [eats]: "env_ok N e \<Longrightarrow> eats N (build_assignmentOrMethodCallStatement e)"
  by (rule eats_less) (rule first_build_assignmentOrMethodCallStatement)

lemma moves_build_variableDeclaration [eats]: "env_ok N e \<Longrightarrow> eats N (build_variableDeclaration e type_ref)"
  by (simp add: build_variableDeclaration_def eats)

lemma moves_build_instantiation [eats]: "env_ok N e \<Longrightarrow> eats N (build_instantiation e type_ref)"
  by (simp add: build_instantiation_def eats)

lemma first_build_directApplication [eats_first]: "env_ok N e \<Longrightarrow> eats (Suc N) (build_directApplication e type_name)"
  by (simp add: build_directApplication_def eats_first eats)

lemma moves_build_directApplication [eats]: "env_ok N e \<Longrightarrow> eats N (build_directApplication e type_name)"
  by (rule eats_less) (rule first_build_directApplication)

lemma moves_build_parserLocalElement [eats]: "env_ok N e \<Longrightarrow> eats N (build_parserLocalElement e)"
  by (simp add: build_parserLocalElement_def eats)

lemma moves_build_parserLocalElements [eats]: "env_ok N e \<Longrightarrow> stays N (build_parserLocalElements e)"
  by (simp add: build_parserLocalElements_def eats)

lemma moves_build_simpleKeysetExpression [eats]: "env_ok N e \<Longrightarrow> eats N (build_simpleKeysetExpression e)"
  by (simp add: build_simpleKeysetExpression_def eats)

lemma moves_build_tupleKeysetExpression [eats]: "env_ok N e \<Longrightarrow> eats N (build_tupleKeysetExpression e)"
  by (simp add: build_tupleKeysetExpression_def eats)

lemma moves_build_keysetExpression [eats]: "env_ok N e \<Longrightarrow> eats N (build_keysetExpression e)"
  by (simp add: build_keysetExpression_def eats)

lemma moves_build_selectCase [eats]: "env_ok N e \<Longrightarrow> eats N (build_selectCase e)"
  by (simp add: build_selectCase_def eats)

lemma moves_build_selectCaseList [eats]: "env_ok N e \<Longrightarrow> stays N (build_selectCaseList e)"
  by (simp add: build_selectCaseList_def eats)

lemma moves_build_selectExpression [eats]: "env_ok N e \<Longrightarrow> eats N (build_selectExpression e)"
  by (simp add: build_selectExpression_def eats)

lemma moves_build_stateExpression [eats]: "env_ok N e \<Longrightarrow> eats N (build_stateExpression e)"
  by (simp add: build_stateExpression_def eats)

lemma moves_build_transitionStatement [eats]: "env_ok N e \<Longrightarrow> eats N (build_transitionStatement e)"
  by (simp add: build_transitionStatement_def eats)

lemma first_build_conditionalStatement [eats_first]: "env_ok N e \<Longrightarrow> eats (Suc N) (build_conditionalStatement e)"
  by (simp add: build_conditionalStatement_def eats_first eats)

lemma moves_build_conditionalStatement [eats]: "env_ok N e \<Longrightarrow> eats N (build_conditionalStatement e)"
  by (rule eats_less) (rule first_build_conditionalStatement)

lemma moves_build_exitStatement [eats]: "eats N build_exitStatement"
  by (simp add: build_exitStatement_def eats)

lemma first_build_returnStatement [eats_first]: "env_ok N e \<Longrightarrow> eats (Suc N) (build_returnStatement e)"
  by (simp add: build_returnStatement_def eats_first eats)

lemma moves_build_returnStatement [eats]: "env_ok N e \<Longrightarrow> eats N (build_returnStatement e)"
  by (rule eats_less) (rule first_build_returnStatement)

lemma moves_build_switchLabel [eats]: "eats N build_switchLabel"
  by (simp add: build_switchLabel_def eats)

lemma moves_build_switchCase [eats]: "env_ok N e \<Longrightarrow> eats N (build_switchCase e)"
  by (simp add: build_switchCase_def eats)

lemma moves_build_switchCases [eats]: "env_ok N e \<Longrightarrow> stays N (build_switchCases e)"
  by (simp add: build_switchCases_def eats)

lemma first_build_switchStatement [eats_first]: "env_ok N e \<Longrightarrow> eats (Suc N) (build_switchStatement e)"
  by (simp add: build_switchStatement_def eats_first eats)

lemma moves_build_switchStatement [eats]: "env_ok N e \<Longrightarrow> eats N (build_switchStatement e)"
  by (rule eats_less) (rule first_build_switchStatement)

lemma moves_non_null_statementOrDecl [eats]: "env_ok N e \<Longrightarrow> eats N (non_null (build_statementOrDecl e))"
  by (simp add: build_statementOrDecl_def eats)

lemma moves_build_statementOrDeclList [eats]: "env_ok N e \<Longrightarrow> stays N (build_statementOrDeclList e)"
  by (simp add: build_statementOrDeclList_def eats)

lemma first_build_blockStatement [eats_first]: "env_ok N e \<Longrightarrow> eats (Suc N) (build_blockStatement e)"
  by (simp add: build_blockStatement_def eats_first eats)

lemma moves_build_blockStatement [eats]: "env_ok N e \<Longrightarrow> eats N (build_blockStatement e)"
  by (rule eats_less) (rule first_build_blockStatement)

section \<open>Parser states\<close>

text \<open>
  A parser statement eats a token only when the statement before it is complete. So \<open>cmoves\<close>
  starts from a closed state only, and \<open>closes\<close> says that a command ends in one.
\<close>

definition cmoves :: "nat \<Rightarrow> nat \<Rightarrow> 'a P \<Rightarrow> bool" where
  "cmoves N k m \<longleftrightarrow> (\<forall>s. parse_inv s \<and> closed s \<and> left s \<le> N \<longrightarrow>
     wp m (\<lambda>_ s'. parse_inv s' \<and> left s' + k \<le> left s) stops s)"

definition closes :: "'a P \<Rightarrow> bool" where
  "closes m \<longleftrightarrow> (\<forall>s. wp m (\<lambda>_. closed) (\<lambda>_. True) s)"

definition keeps_closed :: "'a P \<Rightarrow> bool" where
  "keeps_closed m \<longleftrightarrow> (\<forall>s. closed s \<longrightarrow> wp m (\<lambda>_. closed) (\<lambda>_. True) s)"

definition parse_env_ok :: "nat \<Rightarrow> env \<Rightarrow> bool" where
  "parse_env_ok N e \<longleftrightarrow> env_ok N e \<and> cmoves N (Suc 0) (handler e Call_parserStatement) \<and>
     keeps_closed (handler e Call_parserStatement)"

lemma parse_env_ok_env_ok [eats]: "parse_env_ok N e \<Longrightarrow> env_ok N e"
  by (simp add: parse_env_ok_def)

lemma moves_cmoves: "moves N k m \<Longrightarrow> cmoves N k m"
  by (simp add: moves_def cmoves_def)

lemma cmovesI:
  "(\<And>s. parse_inv s \<Longrightarrow> closed s \<Longrightarrow> left s \<le> N \<Longrightarrow>
     wp m (\<lambda>_ s'. parse_inv s' \<and> left s' + k \<le> left s) stops s) \<Longrightarrow> cmoves N k m"
  by (simp add: cmoves_def)

lemma cmovesD:
  "cmoves N k m \<Longrightarrow> parse_inv s \<Longrightarrow> closed s \<Longrightarrow> left s \<le> N \<Longrightarrow>
   wp m (\<lambda>_ s'. parse_inv s' \<and> left s' + k \<le> left s) stops s"
  by (simp add: cmoves_def)

lemma cmoves_bnd:
  assumes m: "cmoves N 0 m" and f: "\<And>x. stays N (f x)"
  shows "cmoves N 0 (bnd m f)"
proof (rule cmovesI)
  fix s assume s: "parse_inv s" "closed s" "left s \<le> N"
  show "wp (bnd m f) (\<lambda>_ s'. parse_inv s' \<and> left s' + 0 \<le> left s) stops s"
    unfolding wp_bnd
  proof (rule wp_conseq [OF cmovesD [OF m s]])
    fix x s' assume s': "parse_inv s' \<and> left s' + 0 \<le> left s"
    then have "parse_inv s'" "left s' \<le> N" using s by auto
    then show "wp (f x) (\<lambda>_ s''. parse_inv s'' \<and> left s'' + 0 \<le> left s) stops s'"
      by (intro wp_conseq [OF movesD [OF f]]) (use s' in auto)
  qed simp
qed

lemma cmoves_if_tok: "cmoves N k m \<Longrightarrow> cmoves N k m' \<Longrightarrow> cmoves N k (if_tok test m m')"
  by (simp add: cmoves_def if_tok_def wp_bnd wp_current_token wp_if)

lemma cmoves_if_class: "cmoves N k m \<Longrightarrow> cmoves N k m' \<Longrightarrow> cmoves N k (if_class c m m')"
  by (simp add: if_class_def cmoves_if_tok)

text \<open>After a complete statement the current token is no semicolon.\<close>

lemma cmoves_no_semicolon: "cmoves N k m' \<Longrightarrow> cmoves N k (if_class Token_Semicolon m m')"
  using closed_no_semicolon
  by (auto simp: cmoves_def if_class_def if_tok_def wp_bnd wp_current_token wp_if has_class_def)

lemma wp_ret_fun: "wp (ret x) Q E = Q x"
  by (simp add: wp_ret fun_eq_iff)

lemma wp_trivial: "(\<And>x s'. Q x s') \<Longrightarrow> wp m Q (\<lambda>_. True) s"
  by (auto simp: wp_def split: sum.splits)

lemma closes_bnd: "(\<And>x. closes (f x)) \<Longrightarrow> closes (bnd m f)"
  unfolding closes_def wp_bnd by (auto intro: wp_trivial)

lemma closes_fail: "closes (fail f)"
  by (simp add: closes_def wp_fail)

lemma closes_if_tok: "closes m \<Longrightarrow> closes m' \<Longrightarrow> closes (if_tok test m m')"
  unfolding if_tok_def by (rule closes_bnd) simp

lemma closes_if_class: "closes m \<Longrightarrow> closes m' \<Longrightarrow> closes (if_class c m m')"
  unfolding if_class_def by (rule closes_if_tok)

lemma closes_expected: "closes (expected msg)"
  unfolding expected_def by (intro closes_bnd closes_fail)

lemma closes_keeps_closed: "closes m \<Longrightarrow> keeps_closed m"
  by (simp add: closes_def keeps_closed_def)

lemma keeps_closed_if_tok: "keeps_closed m \<Longrightarrow> keeps_closed m' \<Longrightarrow> keeps_closed (if_tok test m m')"
  by (simp add: keeps_closed_def if_tok_def wp_bnd wp_current_token wp_if)

lemma keeps_closed_if_class: "keeps_closed m \<Longrightarrow> keeps_closed m' \<Longrightarrow> keeps_closed (if_class c m m')"
  unfolding if_class_def by (rule keeps_closed_if_tok)

lemma keeps_closed_new_ast_node: "keeps_closed (new_ast_node kind)"
  by (auto simp: keeps_closed_def new_ast_node_def wp_parser closed_def)

lemma next_tok_closes:
  "wp next_tok (\<lambda>_ s'. klass (ps_tokens s ! token_at s) \<in> closers \<longrightarrow> closed s') (\<lambda>_. True) s"
proof (cases "skip_comments (ps_tokens s) (Suc (token_at s))")
  case (Inr j)
  note j = skip_comments_Inr [OF Inr]
  have "closed_at (ps_tokens s) j" "closed_at ((ps_tokens s)[j := t]) j"
    if "klass (ps_tokens s ! token_at s) \<in> closers" for t
    using that j unfolding closed_at_def by (auto intro!: exI [of _ "token_at s"])
  with Inr show ?thesis
    by (auto simp: next_tok_def wp_parser set_token_class_def closed_def
        split: sum.splits prod.splits)
qed (simp add: next_tok_def wp_parser)

lemma closes_expect: "c \<in> closers \<Longrightarrow> closes (bnd (expect c msg) (\<lambda>_. ret x))"
proof -
  assume c: "c \<in> closers"
  have "wp next_tok (\<lambda>_. closed) (\<lambda>_. True) s" if "klass (ps_tokens s ! token_at s) = c" for s
    by (rule wp_conseq [OF next_tok_closes]) (use that c in auto)
  then show ?thesis
    by (simp add: expect_def if_class_def if_tok_def closes_def wp_bnd wp_current_token has_class_def
        wp_if wp_ret_fun expected_def wp_fail)
qed

lemmas closes_rules = closes_bnd closes_expect closes_if_tok closes_if_class closes_fail closes_expected

text \<open>An opening brace leaves a closed state behind.\<close>

lemma wp_open:
  assumes inv: "parse_inv s" and c: "klass (ps_tokens s ! token_at s) \<in> closers"
    and N: "left s \<le> Suc N" and f: "cmoves N 0 (f ())"
  shows "wp (bnd next_tok f) (\<lambda>_ s'. parse_inv s' \<and> left s' < left s) stops s"
  unfolding wp_bnd
proof (rule wp_conseq [OF next_tok_post [OF inv]])
  fix x s'
  assume "parse_inv s' \<and> left s' < left s \<and> token_at s < token_at s' \<and> prev_token_at s' = token_at s \<and>
    length (ps_tokens s') = length (ps_tokens s) \<and>
    (klass (ps_tokens s ! token_at s) \<in> closers \<longrightarrow> closed s')"
  with c N have s': "parse_inv s'" "closed s'" "left s' \<le> N" "left s' < left s" by auto
  show "wp (f x) (\<lambda>_ s''. parse_inv s'' \<and> left s'' < left s) stops s'"
    using wp_conseq [OF cmovesD [OF f s'(1-3)]] s'(4) by (cases x) auto
qed simp

lemma moves_open:
  assumes "c \<in> closers" and f: "cmoves N 0 (f ())"
  shows "eats N (bnd (expect c msg) f)"
proof (rule movesI)
  fix s assume s: "parse_inv s" "left s \<le> N"
  have eq: "bnd (expect c msg) f = if_class c (bnd next_tok f) (expected msg)"
    by (auto simp: expect_def if_class_def if_tok_def bnd_def expected_def fail_def fun_eq_iff
        split: sum.splits prod.splits)
  have "wp (bnd next_tok f) (\<lambda>_ s'. parse_inv s' \<and> left s' < left s) stops s"
    if "klass (ps_tokens s ! token_at s) = c"
    by (rule wp_open [of s N f]) (use s f assms(1) that in auto)
  then show "wp (bnd (expect c msg) f) (\<lambda>_ s'. parse_inv s' \<and> left s' + Suc 0 \<le> left s) stops s"
    using s(1) unfolding eq
    by (simp add: if_class_def if_tok_def wp_bnd wp_current_token wp_if has_class_def expected_def
        wp_fail Suc_le_eq)
qed

lemma moves_open_block:
  assumes "c \<in> closers" and f: "\<And>node. cmoves N 0 (f node)"
  shows "eats (Suc N) (bnd (require (has_class c) msg) (\<lambda>_. bnd (new_ast_node kind) (\<lambda>node.
    bnd next_tok (\<lambda>_. f node))))"
proof (rule movesI)
  fix s assume s: "parse_inv s" "left s \<le> Suc N"
  have "wp (bnd next_tok (\<lambda>_. f node)) (\<lambda>_ s'. parse_inv s' \<and> left s' < left s) stops
      (s\<lparr>node_id := i, node_count := n\<rparr>)"
    if "klass (ps_tokens s ! token_at s) = c" for node i n
    using wp_open [of "s\<lparr>node_id := i, node_count := n\<rparr>" N "\<lambda>_. f node"] s f assms(1) that
    by (simp add: parse_inv_def left_def)
  then show "wp (bnd (require (has_class c) msg) (\<lambda>_. bnd (new_ast_node kind) (\<lambda>node.
      bnd next_tok (\<lambda>_. f node)))) (\<lambda>_ s'. parse_inv s' \<and> left s' + Suc 0 \<le> left s) stops s"
    using s(1)
    by (simp add: require_def if_tok_def wp_parser has_class_def expected_def new_ast_node_def
        Suc_le_eq)
qed

lemma cmoves_parserStatements:
  assumes "parse_env_ok N e"
  shows "cmoves N 0 (build_parserStatements e)"
proof -
  let ?m = "handler e Call_parserStatement"
  let ?I = "\<lambda>s s'. parse_inv s' \<and> closed s' \<and> left s' \<le> left s"
  have N: "N < rounds e" and item: "cmoves N (Suc 0) ?m" "keeps_closed ?m"
    using assms by (simp_all add: parse_env_ok_def env_ok_def)
  have step: "wp ?m (\<lambda>_ s'. ?I s s' \<and> left s' < left t) stops t"
    if "?I s t" "left s \<le> N" for s t
  proof -
    have "wp ?m (\<lambda>_ s'. parse_inv s' \<and> left s' + Suc 0 \<le> left t) stops t"
      by (rule cmovesD [OF item(1)]) (use that in auto)
    moreover have "wp ?m (\<lambda>_. closed) (\<lambda>_. True) t" using item(2) that(1) by (simp add: keeps_closed_def)
    ultimately show ?thesis using that(1) by (auto simp: wp_def split: sum.splits)
  qed
  have loop: "wp (while_list (rounds e) (if_tok token_is_parserStatement (ret True) (ret False)) ?m acc)
      (\<lambda>_. ?I s) stops t" if "?I s t" "left s \<le> N" for acc s t
    by (rule wp_while_list [where I = "\<lambda>_. ?I s" and \<mu> = left])
      (use that N step in \<open>auto simp: if_tok_def wp_bnd wp_current_token wp_ret parse_inv_def\<close>)
  have "wp (build_parserStatements e) (\<lambda>_. ?I s) stops s"
    if s: "parse_inv s" "closed s" "left s \<le> N" for s
  proof -
    have "wp ?m (\<lambda>x. wp (while_list (rounds e) (if_tok token_is_parserStatement (ret True) (ret False)) ?m [x])
        (\<lambda>_. ?I s) stops) stops s"
      by (rule wp_conseq [OF step [of s s]]) (use s loop in auto)
    then show ?thesis
      using s
      by (simp add: build_parserStatements_def opt_list_def rep_list_def if_tok_def wp_bnd
          wp_current_token wp_if wp_ret_fun parse_inv_def)
  qed
  then show ?thesis by (auto simp: cmoves_def intro: wp_conseq)
qed


lemma first_build_parserBlockStatements [eats_first]:
  assumes "parse_env_ok N e"
  shows "eats (Suc N) (build_parserBlockStatements e)"
proof -
  have "cmoves N 0 (attr_list ''stmt_list'' (build_parserStatements e) node)" for node
    unfolding attr_list_def by (intro cmoves_bnd cmoves_parserStatements assms) (simp add: eats)
  then show ?thesis
    unfolding build_parserBlockStatements_def
    by (intro moves_open_block cmoves_bnd) (simp_all add: eats closers_def)
qed

lemma moves_build_parserState [eats]:
  assumes "parse_env_ok N e"
  shows "eats N (build_parserState e)"
proof -
  have env: "env_ok N e" using assms by (simp add: eats)
  have body: "cmoves N 0 (attr_list ''stmt_list'' (build_parserStatements e) node)" for node
    unfolding attr_list_def by (intro cmoves_bnd cmoves_parserStatements assms) (simp add: eats)
  have "stays N (bnd (expect Token_BraceOpen msg)
      (\<lambda>_. bnd (attr_list ''stmt_list'' (build_parserStatements e) state)
        (\<lambda>state. bnd (attr_ast ''trans_stmt'' (build_transitionStatement e) state)
        (\<lambda>state. bnd (expect Token_BraceClose msg') (\<lambda>_. ret state)))))" for msg msg' state
    by (intro eats_stays moves_open cmoves_bnd body) (use env in \<open>simp_all add: eats closers_def\<close>)
  with env show ?thesis
    by (simp add: build_parserState_def eats)
qed

lemma moves_build_parserStates [eats]: "parse_env_ok N e \<Longrightarrow> eats N (build_parserStates e)"
  by (simp add: build_parserStates_def eats)

text \<open>A parser statement, given that a type reference at its start eats.\<close>

lemma cmoves_build_parserStatement:
  assumes "parse_env_ok N e" and "eats (Suc N) (handler e Call_typeRef)"
  shows "cmoves (Suc N) (Suc 0) (build_parserStatement e)"
proof -
  have env: "env_ok N e" using assms(1) by (simp add: eats)
  show ?thesis
    unfolding build_parserStatement_def
    by (intro cmoves_if_tok cmoves_if_class cmoves_no_semicolon moves_cmoves eats_bnd_after
        first_build_assignmentOrMethodCallStatement first_build_parserBlockStatements
        first_build_constantDeclaration moves_expected assms env)
      (use env in \<open>simp_all add: eats\<close>)
qed

lemma closes_parts:
  "closes (build_variableDeclaration e type_ref)" "closes (build_directApplication e type_ref)"
  "closes (build_assignmentOrMethodCallStatement e)" "closes (build_parserBlockStatements e)"
  "closes (build_constantDeclaration e)"
  unfolding build_variableDeclaration_def build_directApplication_def build_constantDeclaration_def
    build_assignmentOrMethodCallStatement_def build_parserBlockStatements_def
  by (intro closes_expect closes_bnd; simp add: closers_def)+

lemma keeps_closed_build_parserStatement: "keeps_closed (build_parserStatement e)"
  unfolding build_parserStatement_def
  by (intro keeps_closed_if_tok keeps_closed_if_class keeps_closed_new_ast_node closes_keeps_closed
      closes_if_tok closes_parts closes_bnd closes_expected)

section \<open>The program\<close>

lemma moves_build_actionDeclaration [eats]: "env_ok N e \<Longrightarrow> eats N (build_actionDeclaration e)"
  by (simp add: build_actionDeclaration_def eats)

lemma moves_build_keyElement [eats]: "env_ok N e \<Longrightarrow> eats N (build_keyElement e)"
  by (simp add: build_keyElement_def eats)

lemma moves_build_keyElementList [eats]: "env_ok N e \<Longrightarrow> stays N (build_keyElementList e)"
  by (simp add: build_keyElementList_def eats)

lemma moves_build_actionRef [eats]: "env_ok N e \<Longrightarrow> eats N (build_actionRef e)"
  by (simp add: build_actionRef_def eats)

lemma moves_build_actionList [eats]: "env_ok N e \<Longrightarrow> stays N (build_actionList e)"
  by (simp add: build_actionList_def eats)

lemma moves_build_entry [eats]: "env_ok N e \<Longrightarrow> eats N (build_entry e)"
  by (simp add: build_entry_def eats)

lemma moves_build_entriesList [eats]: "env_ok N e \<Longrightarrow> eats N (build_entriesList e)"
  by (simp add: build_entriesList_def eats)

lemma moves_build_braced_prop [eats]: "stays N m \<Longrightarrow> eats N (build_braced_prop name m prop)"
  by (simp add: build_braced_prop_def eats)

lemma moves_build_tableProperty [eats]: "env_ok N e \<Longrightarrow> eats N (build_tableProperty e)"
  by (simp add: build_tableProperty_def eats)

lemma moves_build_tablePropertyList [eats]: "env_ok N e \<Longrightarrow> eats N (build_tablePropertyList e)"
  by (simp add: build_tablePropertyList_def eats)

lemma moves_build_tableDeclaration [eats]: "env_ok N e \<Longrightarrow> eats N (build_tableDeclaration e)"
  by (simp add: build_tableDeclaration_def eats)

lemma moves_build_controlLocalDeclaration [eats]: "env_ok N e \<Longrightarrow> eats N (build_controlLocalDeclaration e)"
  by (simp add: build_controlLocalDeclaration_def eats)

lemma moves_build_controlLocalDeclarations [eats]: "env_ok N e \<Longrightarrow> stays N (build_controlLocalDeclarations e)"
  by (simp add: build_controlLocalDeclarations_def eats)

lemma moves_build_controlDeclaration [eats]: "env_ok N e \<Longrightarrow> eats N (build_controlDeclaration e)"
  by (simp add: build_controlDeclaration_def eats)

lemma moves_build_parserDeclaration [eats]: "parse_env_ok N e \<Longrightarrow> eats N (build_parserDeclaration e)"
  by (simp add: build_parserDeclaration_def eats)

lemma moves_build_typeDeclaration [eats]: "parse_env_ok N e \<Longrightarrow> eats N (build_typeDeclaration e)"
  by (simp add: build_typeDeclaration_def eats)

lemma moves_build_identifierList [eats]: "env_ok N e \<Longrightarrow> eats N (build_identifierList e)"
  by (simp add: build_identifierList_def eats)

lemma moves_build_id_list_decl [eats]: "env_ok N e \<Longrightarrow> eats N (build_id_list_decl e kind)"
  by (simp add: build_id_list_decl_def eats)

lemma moves_build_errorDeclaration [eats]: "env_ok N e \<Longrightarrow> eats N (build_errorDeclaration e)"
  by (simp add: build_errorDeclaration_def eats)

lemma moves_build_matchKindDeclaration [eats]: "env_ok N e \<Longrightarrow> eats N (build_matchKindDeclaration e)"
  by (simp add: build_matchKindDeclaration_def eats)

lemma moves_build_functionDeclaration [eats]: "env_ok N e \<Longrightarrow> eats N (build_functionDeclaration e type_ref)"
  by (simp add: build_functionDeclaration_def eats)

lemma moves_build_declaration [eats]: "parse_env_ok N e \<Longrightarrow> eats N (non_null (build_declaration e))"
  by (simp add: build_declaration_def build_externDeclaration_def eats)

lemma moves_p4program_loop:
  assumes "parse_env_ok N e" and "N < n"
  shows "stays N (p4program_loop n e decls)"
proof (rule movesI)
  fix s assume s: "parse_inv s" "left s \<le> N"
  have "wp (p4program_loop n e decls) (\<lambda>_ s'. parse_inv s' \<and> left s' \<le> left s) stops s"
    if "left s < n" "left s \<le> N" "parse_inv s" for n s
    using that
  proof (induction n arbitrary: s decls)
    case (Suc n)
    have go: "wp m (\<lambda>x. wp (p4program_loop n e (f x)) (\<lambda>_ s'. parse_inv s' \<and> left s' \<le> left s) stops) stops s"
      if "eats N m" for m :: "'x P" and f
    proof (rule wp_conseq [OF movesD [OF that Suc.prems(3,2)]])
      fix x s' assume s': "parse_inv s' \<and> left s' + Suc 0 \<le> left s"
      then have less: "left s' < n" "left s' \<le> N" "parse_inv s'" using Suc.prems by auto
      show "wp (p4program_loop n e (f x)) (\<lambda>_ s''. parse_inv s'' \<and> left s'' \<le> left s) stops s'"
        by (rule wp_conseq [OF Suc.IH [OF less]]) (use s' in auto)
    qed simp
    have "token_at s < length (ps_tokens s)" using Suc.prems(3) by (simp add: parse_inv_def)
    then show ?case
      using go [OF moves_build_declaration [OF assms(1)], of "\<lambda>d. decls @ [d]"]
        go [OF moves_next_tok, of "\<lambda>_. decls"] Suc.prems(3)
      by (simp add: if_class_def if_tok_def wp_bnd wp_current_token wp_if wp_ret)
  qed simp
  from this [of s n] s assms(2)
  show "wp (p4program_loop n e decls) (\<lambda>_ s'. parse_inv s' \<and> left s' + 0 \<le> left s) stops s"
    by simp
qed

lemma moves_build_p4program: "parse_env_ok N e \<Longrightarrow> stays N (build_p4program e)"
  unfolding build_p4program_def
  by (intro stays_bnd moves_p4program_loop) (simp_all add: eats env_ok_def parse_env_ok_def)

section \<open>The knot\<close>

text \<open>
  A call made before a token is eaten is of a lower rank: a statement of any kind may call a
  type reference or a block at once.
\<close>

definition call_rank :: "call \<Rightarrow> nat" where
  "call_rank c = (case c of Call_statement _ \<Rightarrow> 1 | Call_parserStatement \<Rightarrow> 1 | _ \<Rightarrow> 0)"

lemma first_build_statement:
  assumes "env_ok N e" and "eats (Suc N) (handler e Call_blockStatement)"
  shows "eats (Suc N) (build_statement e type_name)"
  using assms by (simp add: build_statement_def build_exitStatement_def eats_first eats)

lemma keeps_closed_build: "keeps_closed (build n Call_parserStatement)"
  by (cases n)
    (simp_all add: dispatch_def keeps_closed_build_parserStatement closes_keeps_closed closes_fail)

lemma build_moves:
  assumes "2 * N + call_rank c < n"
  shows "if c = Call_parserStatement then cmoves N (Suc 0) (build n c) else eats N (build n c)"
  using assms
proof (induction n arbitrary: N c)
  case (Suc n)
  show ?case
  proof (cases N)
    case 0
    then have "eats N (build (Suc n) c)" by (auto simp: moves_def parse_inv_def left_def)
    then show ?thesis using moves_cmoves by (auto simp del: build.simps)
  next
    case (Suc M)
    let ?e = "env_of n (build n)"
    have IH: "eats K (build n c')" if "2 * K + call_rank c' < n" "c' \<noteq> Call_parserStatement" for K c'
      using Suc.IH [of K c'] that by simp
    have rank: "call_rank c' \<le> 1" for c' by (simp add: call_rank_def split: call.splits)
    have less: "2 * M + call_rank c' < n" for c'
      using rank [of c'] Suc.prems Suc by linarith
    have env: "parse_env_ok M ?e"
      using IH [OF less] Suc.IH [OF less, of Call_parserStatement] less [of Call_typeRef]
      by (simp add: parse_env_ok_def env_ok_def env_of_def keeps_closed_build)
    then have env': "env_ok M ?e" by (simp add: eats)
    have now: "eats (Suc M) (handler ?e c')" if "call_rank c' = 0" "call_rank c = 1" "c' \<noteq> Call_parserStatement" for c'
      using IH [of "Suc M" c'] that Suc.prems Suc by (simp add: env_of_def)
    show ?thesis
    proof (cases c)
      case (Call_statement t)
      then show ?thesis
        using first_build_statement [OF env' now] Suc by (simp add: dispatch_def call_rank_def)
    next
      case Call_parserStatement
      then show ?thesis
        using cmoves_build_parserStatement [OF env now] Suc by (simp add: dispatch_def call_rank_def)
    qed (use env' Suc in \<open>simp_all add: dispatch_def eats_first\<close>)
  qed
qed simp

lemma parse_env_ok_parse_env: "2 * N + 1 < n \<Longrightarrow> parse_env_ok N (parse_env n)"
  using build_moves [of N _ n]
  by (auto simp: parse_env_ok_def env_ok_def parse_env_def env_of_def keeps_closed_build
      call_rank_def split: call.splits)

lemma build_ast_program_stops:
  assumes inv: "parse_inv s" and fuel: "2 * length (ps_tokens s) \<le> n"
  shows "wp (build_ast_program n) (\<lambda>_. parse_inv) stops s"
proof -
  let ?s = "s\<lparr>token_at := 0\<rparr>"
  have s: "parse_inv ?s" "ps_tokens s \<noteq> []" using inv by (auto simp: parse_inv_def)
  have "wp next_tok (\<lambda>_. wp (build_p4program (parse_env n)) (\<lambda>_. parse_inv) stops) stops ?s"
  proof (rule wp_conseq [OF next_tok_post [OF s(1)]])
    fix x s'
    assume "parse_inv s' \<and> left s' < left ?s \<and> token_at ?s < token_at s' \<and>
      prev_token_at s' = token_at ?s \<and> length (ps_tokens s') = length (ps_tokens ?s) \<and>
      (klass (ps_tokens ?s ! token_at ?s) \<in> closers \<longrightarrow> closed s')"
    then have s': "parse_inv s'" "2 * left s' + 1 < n" using fuel by (auto simp: left_def)
    show "wp (build_p4program (parse_env n)) (\<lambda>_. parse_inv) stops s'"
      using wp_conseq [OF movesD [OF moves_build_p4program [OF parse_env_ok_parse_env [OF s'(2)]] s'(1)]]
      by auto
  qed simp
  then show ?thesis using s(2) by (simp add: build_ast_program_def wp_parser)
qed

section \<open>Properties\<close>

text \<open>
  C2: the parser stops: run with fuel \<open>parse_fuel\<close> or more, it returns a tree or fails with a
  diagnostic or an assertion, but does not run out of fuel, for every token array in which no
  \<open>;\<close> stands directly after \<open>{\<close>, \<open>}\<close> or \<open>;\<close>, comments aside.
\<close>

theorem parser_terminates:
  assumes "symtable_wf st" and "keywords_safe st" and "no_empty_statement ts" and "parse_fuel ts \<le> n"
  shows "build_ast_program n (init_parser ts st) \<noteq> Inl Out_of_fuel"
proof (cases "ts = []")
  case False
  then have "parse_inv (init_parser ts st)"
    using assms by (simp add: parse_inv_def init_parser_def)
  from build_ast_program_stops [OF this, of n] assms(4)
  show ?thesis by (auto simp: wp_def init_parser_def parse_fuel_def)
qed (simp add: build_ast_program_def init_parser_def bnd_def gets_def assert_cmd_def fail_def)

theorem parser_terminates_witness:
  "build_ast_program 6 (init_parser [zero_token, zero_token\<lparr>klass := Token_Semicolon\<rparr>] (empty_symtable 5))
     \<noteq> Inl Out_of_fuel"
proof (rule parser_terminates)
  show "no_empty_statement [zero_token, zero_token\<lparr>klass := Token_Semicolon\<rparr>]"
    by (auto simp: no_empty_statement_def closed_at_def closers_def zero_token_def less_Suc_eq)
  show "keywords_safe (empty_symtable 5)"
    by (simp add: keywords_safe_def empty_symtable_symbols)
qed (simp_all add: empty_symtable_wf parse_fuel_def)

text \<open>One statement \<open>;\<close> of a parser state makes a node and leaves the cursor where it is.\<close>

definition nodes_made :: "nat \<Rightarrow> parser \<Rightarrow> parser" where
  "nodes_made k s = s\<lparr>node_id := node_id s + int k, node_count := node_count s + int k\<rparr>"

lemma nodes_made_fields [simp]:
  "token_at (nodes_made k s) = token_at s" "ps_tokens (nodes_made k s) = ps_tokens s"
  "nodes_made k (nodes_made j s) = nodes_made (k + j) s"
  by (simp_all add: nodes_made_def)

lemma build_semicolon:
  assumes "token_at s < length (ps_tokens s)" and "klass (ps_tokens s ! token_at s) = Token_Semicolon"
  shows "\<exists>node. kind_of node = Ast_EmptyStmt \<and> build (Suc n) Call_parserStatement s = Inr (node, nodes_made 1 s)"
  using assms
  by (simp add: dispatch_def build_parserStatement_def if_class_def if_tok_def has_class_def bnd_def
      current_token_def lift_def token_is_typeRef_def token_is_baseType_def token_is_prefixedType_def
      token_is_assignmentOrMethodCallStatement_def token_is_lvalue_def token_is_nonTypeName_def
      new_ast_node_def gets_def modify_def ret_def nodes_made_def blank_ast_def)

abbreviation statements_loop :: "nat \<Rightarrow> nat \<Rightarrow> ast list \<Rightarrow> ast list P" where
  "statements_loop m n \<equiv>
     while_list m (if_tok token_is_parserStatement (ret True) (ret False)) (build n Call_parserStatement)"

lemma semicolon_round:
  assumes "token_at s < length (ps_tokens s)" and "klass (ps_tokens s ! token_at s) = Token_Semicolon"
  shows "\<exists>node. kind_of node = Ast_EmptyStmt \<and>
    statements_loop (Suc m) (Suc n) acc s = statements_loop m (Suc n) (acc @ [node]) (nodes_made 1 s)"
proof -
  obtain node where "kind_of node = Ast_EmptyStmt" "build (Suc n) Call_parserStatement s = Inr (node, nodes_made 1 s)"
    using build_semicolon [OF assms] by blast
  then show ?thesis
    using assms
    by (intro exI [of _ node])
      (simp add: if_tok_def bnd_def current_token_def lift_def ret_def token_is_parserStatement_def del: build.simps)
qed

lemma semicolon_rounds:
  "token_at s < length (ps_tokens s) \<Longrightarrow> klass (ps_tokens s ! token_at s) = Token_Semicolon \<Longrightarrow>
   \<exists>nodes. length nodes = k \<and> (\<forall>x\<in>set nodes. kind_of x = Ast_EmptyStmt) \<and>
     statements_loop (k + m) (Suc n) acc s = statements_loop m (Suc n) (acc @ nodes) (nodes_made k s)"
proof (induction k arbitrary: s acc)
  case 0
  then show ?case by (simp add: nodes_made_def)
next
  case (Suc k)
  obtain x where x: "kind_of x = Ast_EmptyStmt"
    "statements_loop (Suc (k + m)) (Suc n) acc s = statements_loop (k + m) (Suc n) (acc @ [x]) (nodes_made 1 s)"
    using semicolon_round [OF Suc.prems] by blast
  obtain xs where xs: "length xs = k" "\<forall>x\<in>set xs. kind_of x = Ast_EmptyStmt"
    "statements_loop (k + m) (Suc n) (acc @ [x]) (nodes_made 1 s) =
       statements_loop m (Suc n) ((acc @ [x]) @ xs) (nodes_made k (nodes_made 1 s))"
    using Suc.IH [of "nodes_made 1 s" "acc @ [x]"] Suc.prems by auto
  show ?case
    by (rule exI [of _ "x # xs"]) (use x xs in \<open>simp del: while_list.simps build.simps\<close>)
qed

text \<open>
  C27: an empty statement \<open>;\<close> of a parser state, which the grammar allows (p4\_grammar.bnf), is never
  passed: after any number of rounds the loop of \<open>build_parserStatements\<close> is at its beginning again, in the
  same state but for the node counters, which have grown by a node for each round, and with one more empty
  statement in its list for each round. No number of rounds is enough for it to return. Each round pushes a link and
  a node, which the model of the parser takes to succeed, so the program ends when the reserved memory is used up (the pushes
  on an arena are bounded by \<open>ArenaProps.pushes_bounded\<close>), with ``Out of memory'' for a source that has no error.
\<close>

theorem parser_state_semicolon_not_passed:
  assumes "token_at s < length (ps_tokens s)" and "klass (ps_tokens s ! token_at s) = Token_Semicolon"
    and "k \<le> n"
  shows "(\<exists>nodes. length nodes = Suc k \<and> (\<forall>x\<in>set nodes. kind_of x = Ast_EmptyStmt) \<and>
      build_parserStatements (parse_env (Suc n)) s =
        bnd (while_list (Suc n - k) (if_tok token_is_parserStatement (ret True) (ret False))
              (handler (parse_env (Suc n)) Call_parserStatement) nodes) (\<lambda>xs. ret (Some xs))
          (s\<lparr>node_id := node_id s + int (Suc k), node_count := node_count s + int (Suc k)\<rparr>)) \<and>
    build_parserStatements (parse_env n) s = Inl Out_of_fuel"
proof
  have loop: "build_parserStatements (parse_env (Suc m)) s =
      bnd (statements_loop (Suc m) (Suc m) [x]) (\<lambda>xs. ret (Some xs)) (nodes_made 1 s)"
    if "build (Suc m) Call_parserStatement s = Inr (x, nodes_made 1 s)" for m x
    using that assms(1,2)
    by (simp add: build_parserStatements_def opt_list_def rep_list_def if_tok_def bnd_def
        current_token_def lift_def token_is_parserStatement_def parse_env_def env_of_def
        del: build.simps while_list.simps)
  have rounds: "\<exists>nodes. length nodes = Suc k \<and> (\<forall>x\<in>set nodes. kind_of x = Ast_EmptyStmt) \<and>
      build_parserStatements (parse_env (Suc m)) s =
        bnd (statements_loop (Suc m - k) (Suc m) nodes) (\<lambda>xs. ret (Some xs)) (nodes_made (Suc k) s)"
    if "k \<le> Suc m" for m k
  proof -
    obtain x where x: "kind_of x = Ast_EmptyStmt" "build (Suc m) Call_parserStatement s = Inr (x, nodes_made 1 s)"
      using build_semicolon [OF assms(1,2)] by blast
    obtain xs where "length xs = k" "\<forall>x\<in>set xs. kind_of x = Ast_EmptyStmt"
      "statements_loop (k + (Suc m - k)) (Suc m) [x] (nodes_made 1 s) =
         statements_loop (Suc m - k) (Suc m) ([x] @ xs) (nodes_made k (nodes_made 1 s))"
      using semicolon_rounds [of "nodes_made 1 s" k "Suc m - k" m "[x]"] assms(1,2) by auto
    with x loop [OF x(2)] that show ?thesis
      by (intro exI [of _ "x # xs"]) (simp add: bnd_def del: build.simps while_list.simps)
  qed
  show "\<exists>nodes. length nodes = Suc k \<and> (\<forall>x\<in>set nodes. kind_of x = Ast_EmptyStmt) \<and>
      build_parserStatements (parse_env (Suc n)) s =
        bnd (while_list (Suc n - k) (if_tok token_is_parserStatement (ret True) (ret False))
              (handler (parse_env (Suc n)) Call_parserStatement) nodes) (\<lambda>xs. ret (Some xs))
          (s\<lparr>node_id := node_id s + int (Suc k), node_count := node_count s + int (Suc k)\<rparr>)"
    using rounds [of k n] assms(3) by (simp add: parse_env_def env_of_def nodes_made_def del: build.simps while_list.simps)
  show "build_parserStatements (parse_env n) s = Inl Out_of_fuel"
  proof (cases n)
    case 0
    with assms show ?thesis
      by (simp add: build_parserStatements_def opt_list_def rep_list_def if_tok_def bnd_def
          current_token_def lift_def token_is_parserStatement_def parse_env_def env_of_def fail_def)
  next
    case (Suc m)
    from rounds [of "Suc m" m] show ?thesis by (auto simp: Suc bnd_def fail_def simp del: build.simps)
  qed
qed

theorem parser_state_semicolon_not_passed_witness:
  "let s = init_parser [zero_token\<lparr>klass := Token_Semicolon\<rparr>] (empty_symtable 5) in
   (\<exists>nodes. length nodes = 401 \<and> (\<forall>x\<in>set nodes. kind_of x = Ast_EmptyStmt) \<and>
     build_parserStatements (parse_env 1001) s =
       bnd (while_list 601 (if_tok token_is_parserStatement (ret True) (ret False))
             (handler (parse_env 1001) Call_parserStatement) nodes) (\<lambda>xs. ret (Some xs))
         (s\<lparr>node_id := 402, node_count := 401\<rparr>)) \<and>
   build_parserStatements (parse_env 1000) s = Inl Out_of_fuel"
  using parser_state_semicolon_not_passed [of "init_parser [zero_token\<lparr>klass := Token_Semicolon\<rparr>] (empty_symtable 5)" 400 1000]
  by (simp add: init_parser_def Let_def del: build.simps while_list.simps)

end
