(* ===== verification/ExprParse.thy ===== *)
theory ExprParse
  imports ParseRun ParseTerm
begin

text \<open>
  Expressions: a grammar with precedence levels for literals, names, members, indices, calls,
  lists, binary and unary operators and key-value pairs, and the proof that \<open>build_expression\<close>
  parses every sentence of it into the tree of its derivation.
\<close>

section \<open>Abstract expressions and the trees that represent them\<close>

datatype (plugins only: size) pexpr =
    E_int int int int
  | E_bool bool
  | E_string string
  | E_name string
  | E_list "pexpr list"
  | E_member pexpr string
  | E_index pexpr pexpr
  | E_slice pexpr pexpr pexpr
  | E_call pexpr "pexpr list"
  | E_unary ast_expr_operator pexpr
  | E_binary ast_expr_operator pexpr pexpr
  | E_kv pexpr pexpr

definition node_of :: "ast_kind \<Rightarrow> (string \<rightharpoonup> attr_value \<times> ast_attribute_type) \<Rightarrow> ast \<Rightarrow> bool" where
  "node_of k m a \<longleftrightarrow> (\<exists>c. node k c m a)"

definition sub :: "ast \<Rightarrow> (attr_value \<times> ast_attribute_type) option" where
  "sub x = Some (V_Ast (Some x), AstAttr_Ast)"

definition num :: "int \<Rightarrow> (attr_value \<times> ast_attribute_type) option" where
  "num i = Some (V_Integer i, AstAttr_Integer)"

definition is_name_node :: "string \<Rightarrow> ast \<Rightarrow> bool" where
  "is_name_node name = node_of Ast_Name [''name'' \<mapsto> (V_String name, AstAttr_String)]"

text \<open>\<open>elements xs r\<close>: the list attribute of an empty list is a null pointer.\<close>

definition elements :: "(ast \<Rightarrow> bool) list \<Rightarrow> ast list option \<Rightarrow> bool" where
  "elements ps r \<longleftrightarrow> (case r of None \<Rightarrow> ps = [] | Some xs \<Rightarrow> ps \<noteq> [] \<and> list_all2 (\<lambda>p. p) ps xs)"

primrec represents :: "pexpr \<Rightarrow> ast \<Rightarrow> bool" where
  "represents (E_int f w v) =
     node_of Ast_Int (Map.empty(''flags'' := num f, ''width'' := num w, ''value'' := num v))"
| "represents (E_bool b) = node_of Ast_Bool (Map.empty(''value'' := num (if b then 1 else 0)))"
| "represents (E_string s) = node_of Ast_StringLiteral [''value'' \<mapsto> (V_String s, AstAttr_String)]"
| "represents (E_name s) = is_name_node s"
| "represents (E_list es) = (\<lambda>a. \<exists>r. elements (map represents es) r \<and>
     node_of Ast_ExpressionListExpr [''expr_list'' \<mapsto> (V_AstList r, AstAttr_AstList)] a)"
| "represents (E_member e s) = (\<lambda>a. \<exists>x y. represents e x \<and> is_name_node s y \<and>
     node_of Ast_MemberSelectExpr (Map.empty(''expr'' := sub x, ''member_name'' := sub y)) a)"
| "represents (E_index e i) = (\<lambda>a. \<exists>x y z. represents e x \<and> represents i y \<and>
     node_of Ast_ArrayIndex (Map.empty(''index'' := sub y)) z \<and>
     node_of Ast_IndexedArrayExpr (Map.empty(''expr'' := sub x, ''index_expr'' := sub z)) a)"
| "represents (E_slice e i j) = (\<lambda>a. \<exists>x y y' z. represents e x \<and> represents i y \<and> represents j y' \<and>
     node_of Ast_ArrayIndex (Map.empty(''index'' := sub y, ''colon_index'' := sub y')) z \<and>
     node_of Ast_IndexedArrayExpr (Map.empty(''expr'' := sub x, ''index_expr'' := sub z)) a)"
| "represents (E_call e es) = (\<lambda>a. \<exists>x r. represents e x \<and> elements (map represents es) r \<and>
     node_of Ast_FunctionCallExpr
       (Map.empty(''expr'' := sub x, ''args'' := Some (V_AstList r, AstAttr_AstList))) a)"
| "represents (E_unary op e) = (\<lambda>a. \<exists>x. represents e x \<and>
     node_of Ast_UnaryExpr
       (Map.empty(''op'' := Some (V_ExprOperator op, AstAttr_ExprOperator), ''expr'' := sub x)) a)"
| "represents (E_binary op e f) = (\<lambda>a. \<exists>x y. represents e x \<and> represents f y \<and>
     node_of Ast_BinaryExpr (Map.empty(''left_operand'' := sub x,
       ''op'' := Some (V_ExprOperator op, AstAttr_ExprOperator), ''right_operand'' := sub y)) a)"
| "represents (E_kv e f) = (\<lambda>a. \<exists>x y. represents e x \<and> represents f y \<and>
     node_of Ast_KvPair (Map.empty(''name'' := sub x, ''expr'' := sub y)) a)"

section \<open>The grammar\<close>

text \<open>
  \<open>op_expr p\<close> are the expressions whose operators outside brackets have priority \<open>p\<close> or more;
  the operators are left associative. A unary operator takes a whole expression.
\<close>

definition unary_operator :: "token \<Rightarrow> ast_expr_operator option" where
  "unary_operator t =
     (if klass t = Token_Exclamation then Some AstExprOp_LogNot
      else if klass t = Token_Tilda then Some AstExprOp_BitNot
      else if klass t = Token_UnaryMinus then Some AstExprOp_Minus
      else None)"

inductive postfix_expr :: "token list \<Rightarrow> pexpr \<Rightarrow> bool"
  and op_expr :: "int \<Rightarrow> token list \<Rightarrow> pexpr \<Rightarrow> bool"
  and full_expr :: "token list \<Rightarrow> pexpr \<Rightarrow> bool"
  and expr_list :: "token list \<Rightarrow> pexpr list \<Rightarrow> bool"
  and arg_list :: "token list \<Rightarrow> pexpr list \<Rightarrow> bool"
where
  g_int: "klass t = Token_Integer \<Longrightarrow> postfix_expr [t] (E_int (uint (i_flags t)) (i_width t) (i_value t))"
| g_bool: "klass t = Token_True \<or> klass t = Token_False \<Longrightarrow> postfix_expr [t] (E_bool (klass t = Token_True))"
| g_string: "klass t = Token_StringLiteral \<Longrightarrow> postfix_expr [t] (E_string (lexeme t))"
| g_name: "token_is_nonTypeName t \<Longrightarrow> postfix_expr [t] (E_name (lexeme t))"
| g_paren: "klass l = Token_ParenthOpen \<Longrightarrow> full_expr w e \<Longrightarrow> klass r = Token_ParenthClose \<Longrightarrow>
    postfix_expr (l # w @ [r]) e"
| g_list: "klass l = Token_BraceOpen \<Longrightarrow> arg_list w es \<Longrightarrow> klass r = Token_BraceClose \<Longrightarrow>
    postfix_expr (l # w @ [r]) (E_list es)"
| g_member: "postfix_expr w e \<Longrightarrow> klass d = Token_DotPrefix \<Longrightarrow> token_is_name n \<Longrightarrow>
    postfix_expr (w @ [d, n]) (E_member e (lexeme n))"
| g_index: "postfix_expr w e \<Longrightarrow> klass l = Token_BracketOpen \<Longrightarrow> full_expr v i \<Longrightarrow>
    klass r = Token_BracketClose \<Longrightarrow> postfix_expr (w @ l # v @ [r]) (E_index e i)"
| g_slice: "postfix_expr w e \<Longrightarrow> klass l = Token_BracketOpen \<Longrightarrow> full_expr v i \<Longrightarrow> klass c = Token_Colon \<Longrightarrow>
    full_expr u j \<Longrightarrow> klass r = Token_BracketClose \<Longrightarrow>
    postfix_expr (w @ l # v @ c # u @ [r]) (E_slice e i j)"
| g_call: "postfix_expr w e \<Longrightarrow> klass l = Token_ParenthOpen \<Longrightarrow> arg_list v es \<Longrightarrow>
    klass r = Token_ParenthClose \<Longrightarrow> postfix_expr (w @ l # v @ [r]) (E_call e es)"
| g_atom: "postfix_expr w e \<Longrightarrow> op_expr p w e"
| g_binary: "get_operator_priority t = Inr q \<Longrightarrow> p \<le> q \<Longrightarrow> op_expr q v e \<Longrightarrow> op_expr (q + 1) w f \<Longrightarrow>
    op_expr p (v @ t # w) (E_binary (token_to_binop t) e f)"
| g_op: "op_expr 1 w e \<Longrightarrow> full_expr w e"
| g_unary: "unary_operator t = Some op \<Longrightarrow> full_expr w e \<Longrightarrow> full_expr (t # w) (E_unary op e)"
| g_kv: "postfix_expr v e \<Longrightarrow> klass t = Token_Equal \<Longrightarrow> full_expr w f \<Longrightarrow> full_expr (v @ t # w) (E_kv e f)"
| g_one: "full_expr w e \<Longrightarrow> expr_list w [e]"
| g_more: "full_expr v e \<Longrightarrow> klass c = Token_Comma \<Longrightarrow> expr_list w es \<Longrightarrow> expr_list (v @ c # w) (e # es)"
| g_none: "arg_list [] []"
| g_some: "expr_list w es \<Longrightarrow> arg_list w es"

text \<open>How an expression starts: with an expression token that starts no type.\<close>

definition starts_expr :: "token \<Rightarrow> bool" where
  "starts_expr t \<longleftrightarrow> token_is_expression t \<and> \<not> token_is_typeRef t \<and> klass t \<noteq> Token_Dontcare"

lemma grammar_starts:
  "postfix_expr w e \<Longrightarrow> w \<noteq> [] \<and> starts_expr (hd w)"
  "op_expr p w e \<Longrightarrow> w \<noteq> [] \<and> starts_expr (hd w)"
  "full_expr w e \<Longrightarrow> w \<noteq> [] \<and> starts_expr (hd w)"
  "expr_list w es \<Longrightarrow> w \<noteq> [] \<and> es \<noteq> [] \<and> starts_expr (hd w)"
  "arg_list w es \<Longrightarrow> (w = [] \<and> es = []) \<or> (w \<noteq> [] \<and> es \<noteq> [] \<and> starts_expr (hd w))"
proof (induction rule: postfix_expr_op_expr_full_expr_expr_list_arg_list.inducts)
qed (auto simp: starts_expr_def token_is_expression_def token_is_expressionPrimary_def token_is_typeRef_def
    token_is_baseType_def token_is_prefixedType_def token_is_nonTypeName_def unary_operator_def
    split: if_splits)

section \<open>Where the tokens stand\<close>

primrec spells :: "token list \<Rightarrow> nat \<Rightarrow> token list \<Rightarrow> bool" where
  "spells us i [] \<longleftrightarrow> i < length us"
| "spells us i (t # w) \<longleftrightarrow> us ! i = t \<and> spells us (Suc i) w"

lemma spells_less: "spells us i w \<Longrightarrow> i + length w < length us"
  by (induction w arbitrary: i) fastforce+

lemma spells_append [simp]: "spells us i (v @ w) \<longleftrightarrow> spells us i v \<and> spells us (i + length v) w"
  by (induction v arbitrary: i) (use spells_less in \<open>fastforce+\<close>)

lemma spells_hd: "spells us i w \<Longrightarrow> w \<noteq> [] \<Longrightarrow> us ! i = hd w"
  by (cases w) auto

lemma spells_parts: "pre @ w @ post = us \<Longrightarrow> post \<noteq> [] \<Longrightarrow> spells us (length pre) w"
proof (induction w arbitrary: pre)
  case (Cons t w)
  then show ?case using Cons.IH [of "pre @ [t]"] by (auto simp: nth_append)
qed auto

text \<open>Token \<open>j\<close> does not go on an expression of level \<open>p\<close>.\<close>

definition ends_expr :: "int \<Rightarrow> token list \<Rightarrow> nat \<Rightarrow> bool" where
  "ends_expr p us j \<longleftrightarrow> \<not> token_is_exprOperator (us ! j) \<or>
     (\<exists>q. get_operator_priority (us ! j) = Inr q \<and> q < p \<and>
       (klass (us ! j) = Token_AngleOpen \<longrightarrow> Suc j < length us \<and> \<not> token_is_realTypeArg (us ! Suc j)))"

lemma ends_expr_mono: "ends_expr p us j \<Longrightarrow> p \<le> q \<Longrightarrow> ends_expr q us j"
  by (force simp: ends_expr_def)

lemma binary_operator:
  assumes "get_operator_priority t = Inr q"
  shows "1 \<le> q" "token_is_binaryOperator t" "token_is_exprOperator t" "klass t \<noteq> Token_DotPrefix"
    "klass t \<noteq> Token_BracketOpen" "klass t \<noteq> Token_ParenthOpen" "klass t \<noteq> Token_Equal"
  using assms
  by (auto simp: get_operator_priority_def token_is_binaryOperator_def token_is_exprOperator_def
      split: if_splits)

lemma starts_not_type_arg: "starts_expr t \<Longrightarrow> \<not> token_is_realTypeArg t"
  by (simp add: starts_expr_def token_is_realTypeArg_def)

lemma closing_ends: "klass (us ! j) \<in> {Token_ParenthClose, Token_BraceClose, Token_BracketClose, Token_Comma,
    Token_Colon, Token_Semicolon, Token_EndOfInput} \<Longrightarrow> ends_expr p us j"
  by (auto simp: ends_expr_def token_is_exprOperator_def token_is_binaryOperator_def)

section \<open>The loop over the operators\<close>

lemma runs_ready: "(i < length us \<Longrightarrow> runs \<sigma> us i m j Q) \<Longrightarrow> runs \<sigma> us i m j Q"
  by (auto simp: runs_def ready_at_def)

text \<open>The test for type arguments after \<open><\<close>, where there are none.\<close>

lemma runs_no_type_args:
  assumes "klass (us ! i) = Token_AngleOpen \<Longrightarrow> Suc i < length us \<and> \<not> token_is_realTypeArg (us ! Suc i)"
  shows "runs \<sigma> us i (if_class Token_AngleOpen (bnd peek_token (\<lambda>p. ret (token_is_realTypeArg p))) (ret False))
    i (\<lambda>b. \<not> b)"
  using assms
  by (intro runs_if_class) (auto intro!: runs_bnd [OF runs_peek] runs_ret)

lemma runs_operator_step:
  assumes q: "get_operator_priority (us ! i) = Inr q"
    and args: "klass (us ! i) = Token_AngleOpen \<Longrightarrow> Suc i < length us \<and> \<not> token_is_realTypeArg (us ! Suc i)"
    and run: "runs \<sigma> us i (binary_step e p a) j Q"
  shows "runs \<sigma> us i (expr_step e p a) j Q"
  unfolding expr_step_def
proof (intro runs_if_class, simp only: binary_operator [OF q] if_False)
  show "runs \<sigma> us i (if_class Token_BracketOpen (some_step (index_step e a)) (if_class Token_ParenthOpen
      (some_step (call_step e a)) (bnd (if_class Token_AngleOpen (bnd peek_token (\<lambda>p. ret (token_is_realTypeArg p)))
      (ret False)) (\<lambda>type_args. if type_args then some_step (type_args_step e a) else
      if_class Token_Equal (some_step (kv_step e a)) (if_tok token_is_binaryOperator (binary_step e p a)
      (fail Assert_failed)))))) j Q"
  proof (rule runs_if_class, simp only: binary_operator [OF q] if_False, rule runs_if_class,
      simp only: binary_operator [OF q] if_False, rule runs_bnd [OF runs_no_type_args [OF args]], assumption)
    fix b assume "\<not> b"
    then show "runs \<sigma> us i (if b then some_step (type_args_step e a) else
      if_class Token_Equal (some_step (kv_step e a)) (if_tok token_is_binaryOperator (binary_step e p a)
      (fail Assert_failed))) j Q"
      using binary_operator [OF q] run by (auto intro!: runs_if_class runs_if_tok)
  qed
qed

lemma runs_loop_end:
  assumes "ends_expr p us j" and "Q a"
  shows "runs \<sigma> us j (expr_loop (Suc r) e p a) j Q"
  unfolding expr_loop.simps
proof (rule runs_if_tok, cases "token_is_exprOperator (us ! j)")
  case True
  then obtain q where q: "get_operator_priority (us ! j) = Inr q" "q < p"
    "klass (us ! j) = Token_AngleOpen \<Longrightarrow> Suc j < length us \<and> \<not> token_is_realTypeArg (us ! Suc j)"
    using assms(1) by (auto simp: ends_expr_def)
  have "runs \<sigma> us j (binary_step e p a) j (\<lambda>r. r = None)"
    unfolding binary_step_def
  proof (rule runs_bnd [OF runs_current])
    fix t assume "t = us ! j"
    then show "runs \<sigma> us j (bnd (lift (get_operator_priority t)) (\<lambda>priority. if p \<le> priority then
        bnd (new_ast_node Ast_BinaryExpr) (\<lambda>bin_expr. bnd (set_ast ''left_operand'' (Some a) bin_expr) (\<lambda>bin_expr.
        bnd (set_op (token_to_binop t) bin_expr) (\<lambda>bin_expr. bnd next_tok (\<lambda>_.
        bnd (attr_ast ''right_operand'' (handler e (Call_expression (priority + 1))) bin_expr) (\<lambda>bin_expr.
        ret (Some bin_expr)))))) else ret None)) j (\<lambda>r. r = None)"
      using q(1,2) by (auto simp: runs_def wp_simps)
  qed
  from runs_operator_step [OF q(1) q(3) this]
  have "runs \<sigma> us j (expr_step e p a) j (\<lambda>r. r = None)" by blast
  then show "runs \<sigma> us j (if token_is_exprOperator (us ! j) then bnd (expr_step e p a) (\<lambda>ra. case ra of
      None \<Rightarrow> ret a | Some expr' \<Rightarrow> expr_loop r e p expr') else ret a) j Q"
    using True by simp (rule runs_bnd, assumption, simp add: runs_ret assms(2))
qed (simp add: runs_ret assms(2))

lemma runs_loop_step:
  assumes "token_is_exprOperator (us ! i)"
    and "runs \<sigma> us i (expr_step e p a) k (\<lambda>r. \<exists>b. r = Some b \<and> R b)"
    and "\<And>b. R b \<Longrightarrow> runs \<sigma> us k (expr_loop r e p b) j Q"
  shows "runs \<sigma> us i (expr_loop (Suc r) e p a) j Q"
  unfolding expr_loop.simps
  by (rule runs_if_tok) (use assms in \<open>auto intro!: runs_bnd [OF assms(2)]\<close>)

lemma runs_some_step: "runs \<sigma> us i m j R \<Longrightarrow> runs \<sigma> us i (some_step m) j (\<lambda>r. \<exists>b. r = Some b \<and> R b)"
  unfolding some_step_def by (rule runs_bnd, assumption) (auto intro: runs_ret)

lemma node_of_node: "node k c m a \<Longrightarrow> node_of k m a"
  by (auto simp: node_of_def)

section \<open>Names and literals\<close>

lemma runs_nonTypeName:
  "token_is_nonTypeName (us ! i) \<Longrightarrow> Suc i < length us \<Longrightarrow>
   runs \<sigma> us i (build_nonTypeName False) (Suc i) (is_name_node (lexeme (us ! i)))"
  unfolding build_nonTypeName_def is_name_node_def
  by (auto intro!: runs_seq runs_ret dest: node_of_node)

lemma runs_build_name:
  "token_is_name (us ! i) \<Longrightarrow> Suc i < length us \<Longrightarrow>
   runs \<sigma> us i (build_name False) (Suc i) (is_name_node (lexeme (us ! i)))"
  using runs_nonTypeName [of us i \<sigma>] unfolding build_name_def is_name_node_def token_is_name_def
  by (intro runs_if_tok)
    (auto intro!: runs_seq runs_ret runs_if_class runs_if_tok dest: node_of_node, auto dest: node_of_node)

text \<open>A literal builder followed by the null test of its caller.\<close>

lemma runs_non_null: "runs \<sigma> us i m j (\<lambda>r. \<exists>x. r = Some x \<and> Q x) \<Longrightarrow> runs \<sigma> us i (non_null m) j Q"
  unfolding non_null_def by (rule runs_bnd, assumption) (auto intro: runs_ret)

lemma runs_integer:
  "klass (us ! i) = Token_Integer \<Longrightarrow> Suc i < length us \<Longrightarrow>
   runs \<sigma> us i (non_null build_integer) (Suc i)
     (represents (E_int (uint (i_flags (us ! i))) (i_width (us ! i)) (i_value (us ! i))))"
  unfolding build_integer_def represents.simps num_def
  by (intro runs_non_null runs_if_class) (auto intro!: runs_seq runs_ret dest: node_of_node)

lemma runs_boolean:
  "klass (us ! i) = Token_True \<or> klass (us ! i) = Token_False \<Longrightarrow> Suc i < length us \<Longrightarrow>
   runs \<sigma> us i (non_null build_boolean) (Suc i) (represents (E_bool (klass (us ! i) = Token_True)))"
  unfolding build_boolean_def represents.simps num_def if_class_def if_tok_def has_class_def
  by (intro runs_non_null)
    (auto simp: bnd_assoc intro!: runs_seq runs_ret dest: node_of_node, auto dest: node_of_node)

lemma runs_stringLiteral:
  "klass (us ! i) = Token_StringLiteral \<Longrightarrow> Suc i < length us \<Longrightarrow>
   runs \<sigma> us i (non_null build_stringLiteral) (Suc i) (represents (E_string (lexeme (us ! i))))"
  unfolding build_stringLiteral_def represents.simps
  by (intro runs_non_null runs_if_class) (auto intro!: runs_seq runs_ret dest: node_of_node)

section \<open>Parsing a sentence\<close>

text \<open>
  \<open>yields m p E w e\<close>: where the tokens \<open>w\<close> stand and their end satisfies \<open>E\<close>, a primary followed by
  the operator loop behaves as the loop does after \<open>w\<close> with a tree for \<open>e\<close>. The loop has used at
  most one round per token but the first.
\<close>

definition yields :: "symbol_map \<Rightarrow> token list \<Rightarrow> nat \<Rightarrow> int \<Rightarrow> (nat \<Rightarrow> bool) \<Rightarrow> token list \<Rightarrow> pexpr \<Rightarrow> bool" where
  "yields \<sigma> us m p E w e \<longleftrightarrow> (\<forall>i r j Q. spells us i w \<longrightarrow> E (i + length w) \<longrightarrow> length w \<le> m \<longrightarrow> length w \<le> r \<longrightarrow>
     (\<forall>a r'. represents e a \<longrightarrow> r < r' + length w \<longrightarrow>
        runs \<sigma> us (i + length w) (expr_loop r' (parse_env m) p a) j Q) \<longrightarrow>
     runs \<sigma> us i (bnd (build_expressionPrimary (parse_env m)) (expr_loop r (parse_env m) p)) j Q)"

text \<open>\<open>parses_at p w e\<close>: \<open>build_expression(p)\<close> parses \<open>w\<close> into a tree for \<open>e\<close>.\<close>

definition parses_at :: "symbol_map \<Rightarrow> token list \<Rightarrow> int \<Rightarrow> token list \<Rightarrow> pexpr \<Rightarrow> bool" where
  "parses_at \<sigma> us p w e \<longleftrightarrow> (\<forall>i m. spells us i w \<longrightarrow> length w < m \<longrightarrow> ends_expr p us (i + length w) \<longrightarrow>
     runs \<sigma> us i (build m (Call_expression p)) (i + length w) (represents e))"

lemma yields_mono: "yields \<sigma> us m p E w e \<Longrightarrow> (\<And>j. F j \<Longrightarrow> E j) \<Longrightarrow> yields \<sigma> us m p F w e"
  unfolding yields_def by blast

lemma parses_atI:
  assumes y: "\<And>m. yields \<sigma> us m p (ends_expr p us) w e" and w: "w \<noteq> []" "starts_expr (hd w)"
  shows "parses_at \<sigma> us p w e"
  unfolding parses_at_def
proof (intro allI impI)
  fix i m assume at: "spells us i w" and m: "length w < m" and ends: "ends_expr p us (i + length w)"
  then obtain n where n: "m = Suc n" "length w \<le> n" by (cases m) auto
  have tok: "token_is_expression (us ! i)" using w at spells_hd [of us i w] by (simp add: starts_expr_def)
  have "runs \<sigma> us (i + length w) (expr_loop r' (parse_env n) p a) (i + length w) (represents e)"
    if "represents e a" "n < r' + length w" for a r'
    using that n(2) runs_loop_end [OF ends, of "represents e" a \<sigma> "r' - 1"] by (cases r') auto
  then have "runs \<sigma> us i (bnd (build_expressionPrimary (parse_env n)) (expr_loop n (parse_env n) p))
      (i + length w) (represents e)"
    using y [of n, unfolded yields_def, rule_format, OF at ends n(2) n(2)] by blast
  then have "runs \<sigma> us i (build_expression (parse_env n) p) (i + length w) (represents e)"
    unfolding build_expression_def by (intro runs_seq) (simp_all add: tok parse_env_def env_of_def)
  then show "runs \<sigma> us i (build m (Call_expression p)) (i + length w) (represents e)"
    by (simp add: n(1) dispatch_def parse_env_def)
qed

lemma yields_primary:
  assumes "w \<noteq> []"
    and "\<And>i. spells us i w \<Longrightarrow> length w \<le> m \<Longrightarrow> E (i + length w) \<Longrightarrow>
      runs \<sigma> us i (build_expressionPrimary (parse_env m)) (i + length w) (represents e)"
  shows "yields \<sigma> us m p E w e"
  unfolding yields_def
proof (intro allI impI)
  fix i r j Q
  assume at: "spells us i w" "length w \<le> m" "E (i + length w)"
    and rest: "\<forall>a r'. represents e a \<longrightarrow> r < r' + length w \<longrightarrow>
      runs \<sigma> us (i + length w) (expr_loop r' (parse_env m) p a) j Q"
  show "runs \<sigma> us i (bnd (build_expressionPrimary (parse_env m)) (expr_loop r (parse_env m) p)) j Q"
    by (rule runs_bnd [OF assms(2) [OF at]]) (use rest assms(1) in auto)
qed

lemma yields_step:
  assumes y: "yields \<sigma> us m p E w e" and v: "v \<noteq> []" "token_is_exprOperator (hd v)"
    and ends: "\<And>i. spells us i v \<Longrightarrow> F (i + length v) \<Longrightarrow> E i"
    and step: "\<And>i a. spells us i v \<Longrightarrow> F (i + length v) \<Longrightarrow> length (w @ v) \<le> m \<Longrightarrow> represents e a \<Longrightarrow>
      runs \<sigma> us i (expr_step (parse_env m) p a) (i + length v) (\<lambda>x. \<exists>b. x = Some b \<and> represents f b)"
  shows "yields \<sigma> us m p F (w @ v) f"
  unfolding yields_def
proof (intro allI impI)
  fix i r j Q
  assume at: "spells us i (w @ v)" and F: "F (i + length (w @ v))" and len: "length (w @ v) \<le> m" "length (w @ v) \<le> r"
    and rest: "\<forall>a r'. represents f a \<longrightarrow> r < r' + length (w @ v) \<longrightarrow>
      runs \<sigma> us (i + length (w @ v)) (expr_loop r' (parse_env m) p a) j Q"
  let ?k = "i + length w"
  have at': "spells us i w" "spells us ?k v" and F': "F (?k + length v)" using at F by (simp_all add: add.assoc)
  have lens: "length w \<le> m" "length w \<le> r" using len by simp_all
  show "runs \<sigma> us i (bnd (build_expressionPrimary (parse_env m)) (expr_loop r (parse_env m) p)) j Q"
  proof (rule y [unfolded yields_def, rule_format, OF at'(1) ends [OF at'(2) F'] lens])
    fix a r' assume a: "represents e a" and r': "r < r' + length w"
    then obtain r'' where r'': "r' = Suc r''" using len(2) v(1) by (cases r') auto
    show "runs \<sigma> us ?k (expr_loop r' (parse_env m) p a) j Q"
      unfolding r''
    proof (rule runs_loop_step [OF _ step [OF at'(2) F' len(1) a]])
      show "token_is_exprOperator (us ! ?k)" using v spells_hd [OF at'(2)] by simp
      fix b assume "represents f b"
      moreover have "r < r'' + length (w @ v)" using r' r'' v(1) by (cases v) auto
      ultimately show "runs \<sigma> us (?k + length v) (expr_loop r'' (parse_env m) p b) j Q"
        using rest by (simp add: add.assoc)
    qed
  qed
qed

lemma handler_parses:
  "parses_at \<sigma> us p w e \<Longrightarrow> spells us i w \<Longrightarrow> length w < m \<Longrightarrow> ends_expr p us (i + length w) \<Longrightarrow>
   runs \<sigma> us i (handler (parse_env m) (Call_expression p)) (i + length w) (represents e)"
  by (simp add: parses_at_def parse_env_def env_of_def)

text \<open>The tokens of the grammar by their class.\<close>

lemmas token_tests = token_is_exprOperator_def token_is_binaryOperator_def token_is_expression_def
  token_is_expressionPrimary_def token_is_nonTypeName_def token_is_typeName_def token_is_prefixedType_def

lemma yields_literal:
  assumes "starts_expr t" and "klass t \<in> {Token_Integer, Token_True, Token_False, Token_StringLiteral} \<or> token_is_nonTypeName t"
    and "\<And>i. us ! i = t \<Longrightarrow> Suc i < length us \<Longrightarrow> runs \<sigma> us i
      (if klass t = Token_Integer then non_null build_integer
       else if klass t = Token_True \<or> klass t = Token_False then non_null build_boolean
       else if klass t = Token_StringLiteral then non_null build_stringLiteral
       else build_nonTypeName False) (Suc i) (represents e)"
  shows "yields \<sigma> us m p E [t] e"
proof (rule yields_primary)
  fix i assume at: "spells us i [t]"
  then have t: "us ! i = t" "Suc i < length us" by simp_all
  have d: "klass t \<noteq> Token_DotPrefix" using assms(1) by (simp add: starts_expr_def token_is_typeRef_def token_is_prefixedType_def)
  show "runs \<sigma> us i (build_expressionPrimary (parse_env m)) (i + length [t]) (represents e)"
    unfolding build_expressionPrimary_def
    using assms(1,2) assms(3) [OF t] t(1) d
    by (intro runs_if_tok runs_if_class)
      (auto simp: starts_expr_def intro!: runs_if_class runs_if_tok split: if_splits)
qed simp

lemma yields_int: "klass t = Token_Integer \<Longrightarrow>
    yields \<sigma> us m p E [t] (E_int (uint (i_flags t)) (i_width t) (i_value t))"
  by (rule yields_literal) (use runs_integer in \<open>auto simp: starts_expr_def token_is_typeRef_def
    token_is_baseType_def token_tests\<close>)

lemma yields_bool: "klass t = Token_True \<or> klass t = Token_False \<Longrightarrow>
    yields \<sigma> us m p E [t] (E_bool (klass t = Token_True))"
  by (rule yields_literal) (use runs_boolean in \<open>auto simp: starts_expr_def token_is_typeRef_def
    token_is_baseType_def token_tests simp del: represents.simps\<close>)

lemma yields_string: "klass t = Token_StringLiteral \<Longrightarrow> yields \<sigma> us m p E [t] (E_string (lexeme t))"
  by (rule yields_literal) (use runs_stringLiteral in \<open>auto simp: starts_expr_def token_is_typeRef_def
    token_is_baseType_def token_tests simp del: represents.simps\<close>)

lemma yields_name: "token_is_nonTypeName t \<Longrightarrow> yields \<sigma> us m p E [t] (E_name (lexeme t))"
  by (rule yields_literal) (use runs_nonTypeName in \<open>auto simp: starts_expr_def token_is_typeRef_def
    token_is_baseType_def token_tests\<close>)

lemma yields_paren:
  assumes l: "klass l = Token_ParenthOpen" and e: "parses_at \<sigma> us 1 w e" and w: "w \<noteq> []" "starts_expr (hd w)"
    and r: "klass r = Token_ParenthClose"
  shows "yields \<sigma> us m p E (l # w @ [r]) e"
proof (rule yields_primary)
  fix i assume at: "spells us i (l # w @ [r])" and len: "length (l # w @ [r]) \<le> m"
  let ?k = "Suc i + length w"
  have t: "us ! i = l" "spells us (Suc i) w" "us ! ?k = r" "Suc ?k < length us" "Suc i < length us"
    using at spells_less [OF at] by simp_all
  have hd: "us ! Suc i = hd w" by (rule spells_hd [OF t(2) w(1)])
  have sub: "runs \<sigma> us (Suc i) (handler (parse_env m) (Call_expression 1)) ?k (represents e)"
    by (rule handler_parses [OF e t(2)]) (use len r t(3) in \<open>auto intro!: closing_ends\<close>)
  have "runs \<sigma> us i (build_parenPrimary (parse_env m)) (Suc ?k) (represents e)"
    unfolding build_parenPrimary_def
    by (intro runs_seq runs_if_tok)
      (use w hd t r in \<open>auto simp: starts_expr_def intro!: runs_if_tok runs_bnd [OF sub] runs_seq runs_ret\<close>)
  then show "runs \<sigma> us i (build_expressionPrimary (parse_env m)) (i + length (l # w @ [r])) (represents e)"
    unfolding build_expressionPrimary_def
    using l t(1) by (intro runs_if_tok) (auto simp: token_tests intro!: runs_if_class runs_if_tok)
qed simp

section \<open>Lists of expressions\<close>

text \<open>\<open>item\<close> parses an expression where the handler does: the handler itself and \<open>build_argument\<close>.\<close>

definition expr_item :: "symbol_map \<Rightarrow> token list \<Rightarrow> nat \<Rightarrow> ast P \<Rightarrow> bool" where
  "expr_item \<sigma> us m item \<longleftrightarrow> (\<forall>i j Q. token_is_expression (us ! i) \<longrightarrow>
     runs \<sigma> us i (handler (parse_env m) (Call_expression 1)) j Q \<longrightarrow> runs \<sigma> us i item j Q)"

definition parses_list :: "symbol_map \<Rightarrow> token list \<Rightarrow> token list \<Rightarrow> pexpr list \<Rightarrow> bool" where
  "parses_list \<sigma> us w es \<longleftrightarrow> (\<forall>i m r item acc. spells us i w \<longrightarrow> length w < m \<longrightarrow> length w \<le> r \<longrightarrow>
     ends_expr 1 us (i + length w) \<longrightarrow> klass (us ! (i + length w)) \<noteq> Token_Comma \<longrightarrow> expr_item \<sigma> us m item \<longrightarrow>
     runs \<sigma> us i (bnd item (\<lambda>x. while_list r (if_class Token_Comma (ret True) (ret False))
         (bnd next_tok (\<lambda>_. item)) (acc @ [x]))) (i + length w)
       (\<lambda>xs. \<exists>ys. xs = acc @ ys \<and> list_all2 (\<lambda>p. p) (map represents es) ys))"

lemma runs_item:
  assumes "parses_at \<sigma> us 1 w e" "w \<noteq> []" "starts_expr (hd w)" "expr_item \<sigma> us m item"
    "spells us i w" "length w < m" "ends_expr 1 us (i + length w)"
  shows "runs \<sigma> us i item (i + length w) (represents e)"
  using assms handler_parses [OF assms(1,5,6,7)] spells_hd [OF assms(5,2)]
  by (simp add: expr_item_def starts_expr_def)

lemma parses_list_one:
  assumes e: "parses_at \<sigma> us 1 w e" "w \<noteq> []" "starts_expr (hd w)"
  shows "parses_list \<sigma> us w [e]"
  unfolding parses_list_def
proof (intro allI impI)
  fix i m r item acc
  assume at: "spells us i w" "length w < m" and r: "length w \<le> r" and ends: "ends_expr 1 us (i + length w)"
    and comma: "klass (us ! (i + length w)) \<noteq> Token_Comma" and item: "expr_item \<sigma> us m item"
  obtain n where n: "r = Suc n" using e(2) r by (cases r) auto
  show "runs \<sigma> us i (bnd item (\<lambda>x. while_list r (if_class Token_Comma (ret True) (ret False))
      (bnd next_tok (\<lambda>_. item)) (acc @ [x]))) (i + length w)
      (\<lambda>xs. \<exists>ys. xs = acc @ ys \<and> list_all2 (\<lambda>p. p) (map represents [e]) ys)"
    unfolding n while_list.simps
    by (rule runs_bnd [OF runs_item [OF e item at ends]], rule runs_bnd [where R = "\<lambda>b. \<not> b"])
      (use comma in \<open>auto intro!: runs_if_class runs_ret\<close>)
qed

lemma parses_list_more:
  assumes e: "parses_at \<sigma> us 1 v e" "v \<noteq> []" "starts_expr (hd v)" and c: "klass c = Token_Comma"
    and es: "parses_list \<sigma> us w es"
  shows "parses_list \<sigma> us (v @ c # w) (e # es)"
  unfolding parses_list_def
proof (intro allI impI)
  fix i m r item acc
  let ?k = "i + length v"
  assume at: "spells us i (v @ c # w)" and len: "length (v @ c # w) < m" "length (v @ c # w) \<le> r"
    and ends: "ends_expr 1 us (i + length (v @ c # w))"
    and comma: "klass (us ! (i + length (v @ c # w))) \<noteq> Token_Comma" and item: "expr_item \<sigma> us m item"
  have t: "spells us i v" "us ! ?k = c" "spells us (Suc ?k) w" "Suc ?k < length us"
    using at spells_less [OF at] by simp_all
  obtain n where n: "r = Suc n" using len(2) by (cases r) auto
  have endc: "ends_expr 1 us ?k" using c t(2) by (auto intro: closing_ends)
  have lens: "length v < m" "length w < m" "length w \<le> n" using len n by simp_all
  have rest: "runs \<sigma> us (Suc ?k) (bnd item (\<lambda>x. while_list n (if_class Token_Comma (ret True) (ret False))
      (bnd next_tok (\<lambda>_. item)) ((acc @ [a]) @ [x]))) (Suc ?k + length w)
      (\<lambda>xs. \<exists>ys. xs = (acc @ [a]) @ ys \<and> list_all2 (\<lambda>p. p) (map represents es) ys)" for a
    using es [unfolded parses_list_def, rule_format, OF t(3) lens(2,3), of item "acc @ [a]"] ends comma item
    by (simp add: add.assoc)
  have more: "runs \<sigma> us (Suc ?k) (bnd item (\<lambda>x. while_list n (if_class Token_Comma (ret True) (ret False))
      (bnd next_tok (\<lambda>_. item)) ((acc @ [a]) @ [x]))) (Suc ?k + length w)
      (\<lambda>xs. \<exists>ys. xs = acc @ ys \<and> list_all2 (\<lambda>p. p) (map represents (e # es)) ys)"
    if "represents e a" for a
    by (rule runs_weaken [OF rest]) (use that in auto)
  show "runs \<sigma> us i (bnd item (\<lambda>x. while_list r (if_class Token_Comma (ret True) (ret False))
      (bnd next_tok (\<lambda>_. item)) (acc @ [x]))) (i + length (v @ c # w))
      (\<lambda>xs. \<exists>ys. xs = acc @ ys \<and> list_all2 (\<lambda>p. p) (map represents (e # es)) ys)"
    unfolding n while_list.simps
  proof (rule runs_bnd [OF runs_item [OF e item t(1) lens(1) endc]], rule runs_bnd [where R = "\<lambda>b. b" and j = ?k])
    fix a b assume a: "represents e a" and b: "b"
    show "runs \<sigma> us ?k (if b then bnd (bnd next_tok (\<lambda>_. item)) (\<lambda>x. while_list n
        (if_class Token_Comma (ret True) (ret False)) (bnd next_tok (\<lambda>_. item)) ((acc @ [a]) @ [x])) else ret (acc @ [a]))
        (i + length (v @ c # w)) (\<lambda>xs. \<exists>ys. xs = acc @ ys \<and> list_all2 (\<lambda>p. p) (map represents (e # es)) ys)"
      using b more [OF a] by (simp add: bnd_assoc add.assoc runs_seq_next [OF t(4)])
  qed (use c t(2) in \<open>auto intro!: runs_if_class runs_ret\<close>)
qed

text \<open>An argument list and an expression list, up to the bracket that closes it.\<close>

definition parses_args :: "symbol_map \<Rightarrow> token list \<Rightarrow> token list \<Rightarrow> pexpr list \<Rightarrow> bool" where
  "parses_args \<sigma> us w es \<longleftrightarrow> (\<forall>i m. spells us i w \<longrightarrow> length w < m \<longrightarrow>
     klass (us ! (i + length w)) \<in> {Token_ParenthClose, Token_BraceClose} \<longrightarrow>
     runs \<sigma> us i (build_argumentList (parse_env m)) (i + length w) (elements (map represents es)) \<and>
     runs \<sigma> us i (build_expressionList (parse_env m)) (i + length w) (elements (map represents es)))"

lemma expr_item_handler: "expr_item \<sigma> us m (handler (parse_env m) (Call_expression 1))"
  by (simp add: expr_item_def)

lemma expr_item_argument: "expr_item \<sigma> us m (build_argument (parse_env m))"
  by (auto simp: expr_item_def build_argument_def token_is_argument_def intro!: runs_if_tok)

lemma runs_comma_list:
  assumes es: "parses_list \<sigma> us w es" "w \<noteq> []" "es \<noteq> []" "starts_expr (hd w)"
    and at: "spells us i w" "length w < m" and end_k: "klass (us ! (i + length w)) \<in> {Token_ParenthClose, Token_BraceClose}"
    and item: "expr_item \<sigma> us m item" and test: "\<And>t. token_is_expression t \<Longrightarrow> test t"
  shows "runs \<sigma> us i (opt_list test (comma_list (parse_env m) item)) (i + length w) (elements (map represents es))"
proof -
  have tok: "test (us ! i)" using spells_hd [OF at(1) es(2)] es(4) test by (simp add: starts_expr_def)
  have ends: "ends_expr 1 us (i + length w)" "klass (us ! (i + length w)) \<noteq> Token_Comma"
    using end_k by (auto intro!: closing_ends)
  have "runs \<sigma> us i (comma_list (parse_env m) item) (i + length w)
      (\<lambda>xs. \<exists>ys. xs = [] @ ys \<and> list_all2 (\<lambda>p. p) (map represents es) ys)"
    using es(1) [unfolded parses_list_def, rule_format, OF at _ ends item, of "rounds (parse_env m)" "[]"] at(2)
    by (simp add: comma_list_def parse_env_def env_of_def)
  then show ?thesis
    unfolding opt_list_def
    using tok es(3) by (intro runs_if_tok) (auto intro!: runs_bnd runs_ret simp: elements_def)
qed

lemma parses_args_some:
  "parses_list \<sigma> us w es \<Longrightarrow> w \<noteq> [] \<Longrightarrow> es \<noteq> [] \<Longrightarrow> starts_expr (hd w) \<Longrightarrow> parses_args \<sigma> us w es"
  unfolding parses_args_def build_argumentList_def build_expressionList_def
  by (auto intro!: runs_comma_list expr_item_handler expr_item_argument simp: token_is_argument_def)

lemma parses_args_none: "parses_args \<sigma> us [] []"
  unfolding parses_args_def build_argumentList_def build_expressionList_def opt_list_def
  by (auto intro!: runs_if_tok runs_ret simp: elements_def token_is_argument_def token_is_name_def token_tests)

lemma yields_list:
  assumes l: "klass l = Token_BraceOpen" and es: "parses_args \<sigma> us w es" and r: "klass r = Token_BraceClose"
  shows "yields \<sigma> us m p E (l # w @ [r]) (E_list es)"
proof (rule yields_primary)
  fix i assume at: "spells us i (l # w @ [r])" and len: "length (l # w @ [r]) \<le> m"
  let ?k = "Suc i + length w"
  have t: "us ! i = l" "spells us (Suc i) w" "us ! ?k = r" "Suc ?k < length us" "Suc i < length us"
    using at spells_less [OF at] by simp_all
  have sub: "runs \<sigma> us (Suc i) (build_expressionList (parse_env m)) ?k (elements (map represents es))"
    using es [unfolded parses_args_def, rule_format, OF t(2), of m] len t(3) r by simp
  show "runs \<sigma> us i (build_expressionPrimary (parse_env m)) (i + length (l # w @ [r])) (represents (E_list es))"
    unfolding build_expressionPrimary_def
    using l r t
    by (intro runs_if_tok)
      (auto simp: token_tests intro!: runs_if_class runs_if_tok runs_seq runs_seq_attr_list [OF sub] runs_ret,
        auto dest: node_of_node)
qed simp

section \<open>The steps of the loop\<close>

lemma yields_member:
  assumes y: "yields \<sigma> us m p E w e" "\<And>i. E i" and d: "klass d = Token_DotPrefix" and n: "token_is_name n"
  shows "yields \<sigma> us m p F (w @ [d, n]) (E_member e (lexeme n))"
proof (rule yields_step [OF y(1)])
  fix i a assume at: "spells us i [d, n]" and a: "represents e a"
  have t: "us ! i = d" "us ! Suc i = n" "Suc (Suc i) < length us" using at by simp_all
  have name: "runs \<sigma> us (Suc i) (build_name False) (Suc (Suc i)) (is_name_node (lexeme n))"
    using runs_build_name [of us "Suc i" \<sigma>] t n by simp
  have "runs \<sigma> us i (member_step a) (Suc (Suc i)) (represents (E_member e (lexeme n)))"
    unfolding member_step_def
    using t n a
    by (intro runs_seq) (assumption | simp | rule runs_weaken [OF runs_attr_ast [OF name]] |
      (auto simp: sub_def dest: node_of_node)[1])+
  then show "runs \<sigma> us i (expr_step (parse_env m) p a) (i + length [d, n])
      (\<lambda>x. \<exists>b. x = Some b \<and> represents (E_member e (lexeme n)) b)"
    unfolding expr_step_def
    using t(1) d by (intro runs_if_class) (simp add: runs_some_step del: represents.simps)
qed (use y d in \<open>simp_all add: token_is_exprOperator_def\<close>)

lemma runs_arrayIndex:
  assumes e: "parses_at \<sigma> us 1 v e" "v \<noteq> []" "starts_expr (hd v)"
    and at: "spells us i v" "length v < m" and r: "klass (us ! (i + length v)) = Token_BracketClose"
  shows "runs \<sigma> us i (build_arrayIndex (parse_env m)) (i + length v)
    (\<lambda>z. \<exists>y. represents e y \<and> node_of Ast_ArrayIndex (Map.empty(''index'' := sub y)) z)"
proof -
  have sub: "runs \<sigma> us i (handler (parse_env m) (Call_expression 1)) (i + length v) (represents e)"
    by (rule handler_parses [OF e(1) at]) (use r in \<open>auto intro: closing_ends\<close>)
  have "token_is_expression (us ! i)" using spells_hd [OF at(1) e(2)] e(3) by (simp add: starts_expr_def)
  then show ?thesis
    unfolding build_arrayIndex_def
    using r by (auto simp: sub_def intro!: runs_seq runs_seq_attr_ast [OF sub] runs_if_class runs_ret,
      auto simp: sub_def dest: node_of_node)
qed

lemma runs_arraySlice:
  assumes e: "parses_at \<sigma> us 1 v e" "v \<noteq> []" "starts_expr (hd v)"
    and f: "parses_at \<sigma> us 1 u f" "u \<noteq> []" "starts_expr (hd u)" and c: "klass c = Token_Colon"
    and at: "spells us i (v @ c # u)" "length (v @ c # u) < m"
    and r: "klass (us ! (i + length (v @ c # u))) = Token_BracketClose"
  shows "runs \<sigma> us i (build_arrayIndex (parse_env m)) (i + length (v @ c # u))
    (\<lambda>z. \<exists>y y'. represents e y \<and> represents f y' \<and>
      node_of Ast_ArrayIndex (Map.empty(''index'' := sub y, ''colon_index'' := sub y')) z)"
proof -
  define k where "k = i + length v"
  have t: "spells us i v" "us ! k = c" "spells us (Suc k) u" "Suc k < length us" "length v < m" "length u < m"
    using at spells_less [OF at(1)] by (simp_all add: k_def)
  have sub1: "runs \<sigma> us i (handler (parse_env m) (Call_expression 1)) k (represents e)"
    unfolding k_def by (rule handler_parses [OF e(1) t(1,5)]) (use c t(2) in \<open>auto simp: k_def intro: closing_ends\<close>)
  have sub2: "runs \<sigma> us (Suc k) (handler (parse_env m) (Call_expression 1)) (Suc k + length u) (represents f)"
    by (rule handler_parses [OF f(1) t(3,6)]) (use r in \<open>auto simp: k_def add.assoc intro: closing_ends\<close>)
  have toks: "token_is_expression (us ! i)" "token_is_expression (us ! Suc k)"
    using spells_hd [OF t(1) e(2)] e(3) spells_hd [OF t(3) f(2)] f(3) by (simp_all add: starts_expr_def)
  have last: "i + length (v @ c # u) = Suc k + length u" by (simp add: k_def)
  show ?thesis
    unfolding build_arrayIndex_def last
  proof (intro runs_seq, rule toks, rule runs_seq_attr_ast [OF sub1], assumption, simp)
    fix a x y assume x: "represents e x" and y: "node Ast_ArrayIndex (0 + 1) [''index'' \<mapsto> (V_Ast (Some x), AstAttr_Ast)] y"
    show "runs \<sigma> us k (if_class Token_Colon (bnd next_tok (\<lambda>_. bnd (require token_is_expression
        ''an expression was expected'') (\<lambda>_. attr_ast ''colon_index'' (handler (parse_env m) (Call_expression 1)) y)))
        (ret y)) (Suc k + length u) (\<lambda>z. \<exists>y y'. represents e y \<and> represents f y' \<and>
        node_of Ast_ArrayIndex (Map.empty(''index'' := sub y, ''colon_index'' := sub y')) z)"
    proof (rule runs_if_class, simp only: t(2) c if_True refl, rule runs_seq_next [OF t(4)],
        rule runs_seq_require, rule toks(2), rule runs_weaken [OF runs_attr_ast [OF sub2 y]])
      fix z assume "\<exists>y'. represents f y' \<and> node Ast_ArrayIndex (0 + 1 + 1)
          ([''index'' \<mapsto> (V_Ast (Some x), AstAttr_Ast)](''colon_index'' \<mapsto> (V_Ast (Some y'), AstAttr_Ast))) z"
      then show "\<exists>y y'. represents e y \<and> represents f y' \<and>
          node_of Ast_ArrayIndex (Map.empty(''index'' := sub y, ''colon_index'' := sub y')) z"
        using x unfolding sub_def by (blast dest: node_of_node)
    qed simp
  qed
qed

lemma yields_bracket:
  assumes y: "yields \<sigma> us m p E w e" "\<And>i. E i" and l: "klass l = Token_BracketOpen"
    and ix: "\<And>i. spells us i v \<Longrightarrow> length v < m \<Longrightarrow> klass (us ! (i + length v)) = Token_BracketClose \<Longrightarrow>
      runs \<sigma> us i (build_arrayIndex (parse_env m)) (i + length v) R"
    and r: "klass r = Token_BracketClose"
    and f: "\<And>x z a. represents e x \<Longrightarrow> R z \<Longrightarrow>
      node_of Ast_IndexedArrayExpr (Map.empty(''expr'' := sub x, ''index_expr'' := sub z)) a \<Longrightarrow> represents f a"
  shows "yields \<sigma> us m p F (w @ l # v @ [r]) f"
proof (rule yields_step [OF y(1)])
  fix i a assume at: "spells us i (l # v @ [r])" and a: "represents e a" and len: "length (w @ l # v @ [r]) \<le> m"
  let ?k = "Suc i + length v"
  have t: "us ! i = l" "spells us (Suc i) v" "us ! ?k = r" "Suc ?k < length us" "Suc i < length us"
    using at spells_less [OF at] by simp_all
  have sub1: "runs \<sigma> us (Suc i) (build_arrayIndex (parse_env m)) ?k R"
    by (rule ix [OF t(2)]) (use len r t(3) in auto)
  have "runs \<sigma> us i (index_step (parse_env m) a) (Suc ?k) (represents f)"
    unfolding index_step_def
    using t r by (auto intro!: runs_seq runs_seq_attr_ast [OF sub1] runs_ret, auto simp: sub_def intro!: f [OF a] node_of_node)
  then show "runs \<sigma> us i (expr_step (parse_env m) p a) (i + length (l # v @ [r]))
      (\<lambda>x. \<exists>b. x = Some b \<and> represents f b)"
    unfolding expr_step_def
    using t(1) l by (intro runs_if_class) (simp add: runs_if_class runs_some_step)
qed (use y l in \<open>simp_all add: token_is_exprOperator_def\<close>)

lemma yields_call:
  assumes y: "yields \<sigma> us m p E w e" "\<And>i. E i" and l: "klass l = Token_ParenthOpen"
    and es: "parses_args \<sigma> us v es" and r: "klass r = Token_ParenthClose"
  shows "yields \<sigma> us m p F (w @ l # v @ [r]) (E_call e es)"
proof (rule yields_step [OF y(1)])
  fix i a assume at: "spells us i (l # v @ [r])" and a: "represents e a" and len: "length (w @ l # v @ [r]) \<le> m"
  let ?k = "Suc i + length v"
  have t: "us ! i = l" "spells us (Suc i) v" "us ! ?k = r" "Suc ?k < length us" "Suc i < length us"
    using at spells_less [OF at] by simp_all
  have sub: "runs \<sigma> us (Suc i) (build_argumentList (parse_env m)) ?k (elements (map represents es))"
    using es [unfolded parses_args_def, rule_format, OF t(2), of m] len t(3) r by simp
  have "runs \<sigma> us i (call_step (parse_env m) a) (Suc ?k) (represents (E_call e es))"
    unfolding call_step_def
    using t r a by (auto intro!: runs_seq runs_seq_attr_list [OF sub] runs_ret, auto simp: sub_def dest: node_of_node)
  then show "runs \<sigma> us i (expr_step (parse_env m) p a) (i + length (l # v @ [r]))
      (\<lambda>x. \<exists>b. x = Some b \<and> represents (E_call e es) b)"
    unfolding expr_step_def
    using t(1) l by (intro runs_if_class) (simp add: runs_if_class runs_some_step del: represents.simps)
qed (use y l in \<open>simp_all add: token_is_exprOperator_def\<close>)

lemma yields_binary:
  assumes q: "get_operator_priority t = Inr q" "k \<le> q" "p \<le> q"
    and y: "yields \<sigma> us m k (ends_expr (q + 1) us) v e"
    and f: "parses_at \<sigma> us (q + 1) w f" "w \<noteq> []" "starts_expr (hd w)"
  shows "yields \<sigma> us m k (ends_expr (p + 1) us) (v @ t # w) (E_binary (token_to_binop t) e f)"
proof (rule yields_step [OF y])
  fix i assume at: "spells us i (t # w)" and F: "ends_expr (p + 1) us (i + length (t # w))"
  have t: "us ! i = t" "spells us (Suc i) w" "Suc i < length us" using at spells_less [OF at] by simp_all
  have arg: "\<not> token_is_realTypeArg (us ! Suc i)"
    using spells_hd [OF t(2) f(2)] f(3) starts_not_type_arg by simp
  show "ends_expr (q + 1) us i" unfolding ends_expr_def using q t arg by auto
  fix a assume len: "length (v @ t # w) \<le> m" and a: "represents e a"
  have sub1: "runs \<sigma> us (Suc i) (handler (parse_env m) (Call_expression (q + 1))) (Suc i + length w) (represents f)"
    by (rule handler_parses [OF f(1) t(2)]) (use len q F in \<open>auto intro: ends_expr_mono\<close>)
  show "runs \<sigma> us i (expr_step (parse_env m) k a) (i + length (t # w))
      (\<lambda>x. \<exists>b. x = Some b \<and> represents (E_binary (token_to_binop t) e f) b)"
  proof (rule runs_operator_step)
    show "get_operator_priority (us ! i) = Inr q" using q t by simp
    have lift: "bnd (lift (Inr x)) g = g x" for x :: int and g :: "int \<Rightarrow> ast option P"
      by (simp add: bnd_def lift_def)
    show "runs \<sigma> us i (binary_step (parse_env m) k a) (i + length (t # w))
        (\<lambda>x. \<exists>b. x = Some b \<and> represents (E_binary (token_to_binop t) e f) b)"
      unfolding binary_step_def
      using q t a
      by (intro runs_seq) (auto simp: lift intro!: runs_seq runs_seq_attr_ast [OF sub1] runs_ret,
        auto simp: sub_def dest: node_of_node)
  qed (use t arg in auto)
qed (use binary_operator [OF q(1)] in simp_all)

lemma parses_unary:
  assumes t: "unary_operator t = Some op" and e: "parses_at \<sigma> us 1 w e"
  shows "parses_at \<sigma> us 1 (t # w) (E_unary op e)"
proof (rule parses_atI)
  fix m
  have k: "klass t = Token_Exclamation \<or> klass t = Token_Tilda \<or> klass t = Token_UnaryMinus"
    using t by (simp add: unary_operator_def split: if_splits)
  show "yields \<sigma> us m 1 (ends_expr 1 us) (t # w) (E_unary op e)"
  proof (rule yields_primary)
    fix i assume at: "spells us i (t # w)" and len: "length (t # w) \<le> m" and ends: "ends_expr 1 us (i + length (t # w))"
    have ti: "us ! i = t" "spells us (Suc i) w" "Suc i < length us" using at spells_less [OF at] by simp_all
    have sub1: "runs \<sigma> us (Suc i) (handler (parse_env m) (Call_expression 1)) (Suc (i + length w)) (represents e)"
      using handler_parses [OF e ti(2), of m] len ends by simp
    have "runs \<sigma> us i (build_unary (parse_env m) op) (Suc (i + length w)) (represents (E_unary op e))"
      unfolding build_unary_def
      using ti by (auto intro!: runs_seq runs_weaken [OF runs_attr_ast [OF sub1]], auto simp: sub_def dest: node_of_node)
    then show "runs \<sigma> us i (build_expressionPrimary (parse_env m)) (i + length (t # w)) (represents (E_unary op e))"
      unfolding build_expressionPrimary_def
      using t ti(1) k by (intro runs_if_tok)
        (auto simp: token_tests unary_operator_def intro!: runs_if_class runs_if_tok simp del: represents.simps)
  qed simp
  show "starts_expr (hd (t # w))"
    using k by (auto simp: starts_expr_def token_is_typeRef_def token_is_baseType_def token_tests)
qed simp

lemma parses_kv:
  assumes y: "\<And>m. yields \<sigma> us m 1 (\<lambda>_. True) v e" and v: "v \<noteq> []" "starts_expr (hd v)"
    and t: "klass t = Token_Equal" and f: "parses_at \<sigma> us 1 w f"
  shows "parses_at \<sigma> us 1 (v @ t # w) (E_kv e f)"
proof (rule parses_atI)
  fix m
  show "yields \<sigma> us m 1 (ends_expr 1 us) (v @ t # w) (E_kv e f)"
  proof (rule yields_step [OF y])
    fix i a assume at: "spells us i (t # w)" and ends: "ends_expr 1 us (i + length (t # w))"
      and len: "length (v @ t # w) \<le> m" and a: "represents e a"
    have ti: "us ! i = t" "spells us (Suc i) w" "Suc i < length us" using at spells_less [OF at] by simp_all
    have sub1: "runs \<sigma> us (Suc i) (handler (parse_env m) (Call_expression 1)) (Suc (i + length w)) (represents f)"
      using handler_parses [OF f ti(2), of m] len ends by simp
    have "runs \<sigma> us i (kv_step (parse_env m) a) (Suc (i + length w)) (represents (E_kv e f))"
      unfolding kv_step_def
      using ti a by (auto intro!: runs_seq runs_weaken [OF runs_attr_ast [OF sub1]], auto simp: sub_def dest: node_of_node)
    then have step: "runs \<sigma> us i (some_step (kv_step (parse_env m) a)) (i + length (t # w))
        (\<lambda>x. \<exists>b. x = Some b \<and> represents (E_kv e f) b)"
      using runs_some_step by simp
    show "runs \<sigma> us i (expr_step (parse_env m) 1 a) (i + length (t # w))
        (\<lambda>x. \<exists>b. x = Some b \<and> represents (E_kv e f) b)"
      unfolding expr_step_def
      using t ti(1) step
      by (auto simp del: represents.simps intro!: runs_if_class runs_bnd [OF runs_no_type_args])
  qed (use t in \<open>simp_all add: token_is_exprOperator_def token_is_binaryOperator_def\<close>)
qed (use v in simp_all)

section \<open>The theorem\<close>

lemma grammar_parses:
  shows "postfix_expr w e \<Longrightarrow> (\<forall>m p E. yields \<sigma> us m p E w e)"
    and "op_expr q w e \<Longrightarrow> (\<forall>m p. p \<le> q \<longrightarrow> yields \<sigma> us m p (ends_expr (q + 1) us) w e)"
    and "full_expr w e \<Longrightarrow> parses_at \<sigma> us 1 w e"
    and "expr_list w es \<Longrightarrow> parses_list \<sigma> us w es"
    and "arg_list w es \<Longrightarrow> parses_args \<sigma> us w es"
proof (induction rule: postfix_expr_op_expr_full_expr_expr_list_arg_list.inducts)
  case (g_paren l w e r)
  then show ?case using grammar_starts(3) [of w e] by (auto intro: yields_paren)
next
  case (g_list l w es r)
  then show ?case by (auto intro: yields_list)
next
  case (g_member w e d n)
  then show ?case by (auto intro: yields_member [where E = "\<lambda>_. True"])
next
  case (g_index w e l v i r)
  note v = grammar_starts(3) [OF g_index(3)]
  show ?case
    by (intro allI yields_bracket [where E = "\<lambda>_. True", OF _ _ _ runs_arrayIndex]) (use g_index v in auto)
next
  case (g_slice w e l v i c u j r)
  note s = grammar_starts(3) [OF g_slice(3)] grammar_starts(3) [OF g_slice(5)]
  have "yields \<sigma> us m p E (w @ l # (v @ c # u) @ [r]) (E_slice e i j)" for m p E
    by (rule yields_bracket [where E = "\<lambda>_. True", OF _ _ _ runs_arraySlice]) (use g_slice s in auto)
  then show ?case by simp
next
  case (g_call w e l v es r)
  then show ?case by (auto intro: yields_call [where E = "\<lambda>_. True"])
next
  case (g_binary t q p v e w f)
  note s = grammar_starts(2) [OF g_binary(4)]
  have "yields \<sigma> us m (q + 1) (ends_expr (q + 1) us) w f" for m
    by (rule yields_mono [of _ _ _ _ "ends_expr (q + 1 + 1) us"])
      (use g_binary in \<open>auto elim: ends_expr_mono\<close>)
  then have f: "parses_at \<sigma> us (q + 1) w f" using s by (intro parses_atI) auto
  show ?case
    by (intro allI impI yields_binary [OF g_binary(1)]) (use g_binary s f in auto)
next
  case (g_op w e)
  have "yields \<sigma> us m 1 (ends_expr 1 us) w e" for m
    by (rule yields_mono [of _ _ _ _ "ends_expr (1 + 1) us"]) (use g_op in \<open>auto elim: ends_expr_mono\<close>)
  then show ?case using grammar_starts(2) [OF g_op(1)] by (intro parses_atI) auto
next
  case (g_kv v e t w f)
  then show ?case using grammar_starts(1) [OF g_kv(1)] by (intro parses_kv) auto
next
  case (g_one w e)
  then show ?case using grammar_starts(3) [of w e] by (auto intro: parses_list_one)
next
  case (g_more v e c w es)
  then show ?case using grammar_starts(3) [of v e] by (auto intro: parses_list_more)
next
  case (g_some w es)
  then show ?case using grammar_starts(4) [of w es] by (auto intro: parses_args_some)
qed (auto intro: yields_int yields_bool yields_string yields_name parses_unary parses_args_none)

section \<open>Properties\<close>

text \<open>
  C3: operator precedence and associativity: where the tokens ahead, with their final classes,
  are a sentence \<open>w\<close> of the expression grammar followed by a token that closes it,
  \<open>build_expression\<close> returns, has taken exactly \<open>w\<close>, and the tree it gives represents the
  expression that the grammar derives: left associative operators by priority, calls, members
  and indices first, and a unary operator over everything that follows it.
\<close>

theorem build_expression_follows_grammar:
  assumes "full_expr w e" and "ready_at \<sigma> us (length pre) s" and "us = pre @ w @ t # post"
    and "klass t \<in> {Token_ParenthClose, Token_BraceClose, Token_BracketClose, Token_Comma, Token_Colon,
      Token_Semicolon, Token_EndOfInput}"
    and "length w < n"
  shows "\<exists>a s'. build n (Call_expression 1) s = Inr (a, s') \<and> represents e a \<and>
    ready_at \<sigma> us (length pre + length w) s'"
proof -
  have at: "spells us (length pre) w" by (rule spells_parts [of pre w "t # post"]) (use assms(3) in simp_all)
  have "us ! (length pre + length w) = t" using assms(3) by (simp add: nth_append)
  then have "ends_expr 1 us (length pre + length w)" using assms(4) by (intro closing_ends) simp
  with grammar_parses(3) [OF assms(1), of \<sigma> us] at assms(5)
  have "runs \<sigma> us (length pre) (build n (Call_expression 1)) (length pre + length w) (represents e)"
    by (simp add: parses_at_def)
  from runs_result [OF this assms(2)] show ?thesis by metis
qed

text \<open>The tokens of a text given by their classes and lexemes.\<close>

definition tok :: "token_class \<Rightarrow> string \<Rightarrow> token" where
  "tok k str = zero_token\<lparr>klass := k, lexeme := str\<rparr>"

lemma klass_tok [simp]: "klass (tok k str) = k" and lexeme_tok [simp]: "lexeme (tok k str) = str"
  by (simp_all add: tok_def)

lemma roomy_empty:
  assumes "length us \<le> 500"
  shows "roomy us (empty_symtable 5)"
proof -
  have "card {n \<in> lexeme ` set us. st_lookup (empty_symtable 5) n = None} \<le> card (lexeme ` set us)"
    by (rule card_mono) auto
  also have "\<dots> \<le> length us" using card_length [of "map lexeme us"] by simp
  finally show ?thesis
    using assms empty_symtable_wf [of 5] by (simp add: roomy_def empty_symtable_def symtable_start_def)
qed

theorem build_expression_follows_grammar_witness:
  "\<exists>a s'. build 6 (Call_expression 1)
       (init_parser [tok Token_Identifier ''a'', tok Token_Minus ''-'', tok Token_Identifier ''b'',
          tok Token_Star ''*'', tok Token_Identifier ''c'', tok Token_Semicolon '';''] (empty_symtable 5)) =
       Inr (a, s') \<and>
     represents (E_binary AstExprOp_Sub (E_name ''a'') (E_binary AstExprOp_Mul (E_name ''b'') (E_name ''c''))) a"
proof -
  let ?a = "tok Token_Identifier ''a''" and ?b = "tok Token_Identifier ''b''" and ?c = "tok Token_Identifier ''c''"
  let ?minus = "tok Token_Minus ''-''" and ?star = "tok Token_Star ''*''" and ?semi = "tok Token_Semicolon '';''"
  have name: "op_expr p [tok Token_Identifier x] (E_name x)" for p x
    using g_atom [OF g_name [of "tok Token_Identifier x"]] by (simp add: token_is_nonTypeName_def)
  have prio: "get_operator_priority ?minus = Inr 3" "get_operator_priority ?star = Inr 4"
    "token_to_binop ?minus = AstExprOp_Sub" "token_to_binop ?star = AstExprOp_Mul"
    by (simp_all add: get_operator_priority_def token_to_binop_def)
  have "op_expr 4 ([?b] @ ?star # [?c]) (E_binary AstExprOp_Mul (E_name ''b'') (E_name ''c''))"
    using g_binary [OF prio(2) _ name name, of 4] prio by simp
  then have "op_expr 1 ([?a] @ ?minus # [?b] @ ?star # [?c])
      (E_binary AstExprOp_Sub (E_name ''a'') (E_binary AstExprOp_Mul (E_name ''b'') (E_name ''c'')))"
    using g_binary [OF prio(1) _ name, of 1] prio by simp
  then have full: "full_expr [?a, ?minus, ?b, ?star, ?c]
      (E_binary AstExprOp_Sub (E_name ''a'') (E_binary AstExprOp_Mul (E_name ''b'') (E_name ''c'')))"
    using g_op by simp
  have sym: "symbols (empty_symtable 5) n = ([], [], [])" for n
    by (rule empty_symtable_symbols) simp_all
  have res: "resolve (symbols (empty_symtable 5)) (tok k x) = tok k x" for k x
    by (simp add: resolve_def sym name_class_def tok_def)
  have "ready_at (symbols (empty_symtable 5)) [?a, ?minus, ?b, ?star, ?c, ?semi] (length [])
      (init_parser [?a, ?minus, ?b, ?star, ?c, ?semi] (empty_symtable 5))"
    using roomy_empty by (simp add: ready_at_def init_parser_def res)
  from build_expression_follows_grammar [OF full this, of ?semi "[]" 6] show ?thesis
    by (auto simp del: represents.simps)
qed

end
