(* ===== verification/Lexer.thy ===== *)
theory Lexer
  imports Token
begin

text \<open>
  lex.c: the scanner, a state machine over the static variables \<open>text\<close>, \<open>text_size\<close>,
  \<open>lexeme[0]\<close>, \<open>lexeme[1]\<close>, \<open>line_nr\<close>, \<open>state\<close> and \<open>tokens_array\<close>, plus the token under
  construction. The text is the object \<open>read_source\<close> makes: \<open>text_size\<close> bytes and a NUL.
  Pointers into it are indices. The tokens array is the list of its elements (the interface
  \<open>growable_array\<close> of UArray). State numbers are those of the \<open>switch\<close>.

  The lexeme strings are allocated from pages fresh from \<open>mmap\<close>, so the bytes
  \<open>lexeme_copy\<close> leaves unwritten in front of the terminator are zero, and the string ends
  at the first NUL. Running out of memory while tokens are stored is not modelled here.

  \<open>parse_integer\<close> computes in \<open>int\<close>. An overflow is undefined in C; the model wraps around
  at 32 bits, as the compilation of build.sh (no optimisation) does.
\<close>

record lexer =
  lx_text :: string
  lx_text_size :: nat
  lx_start :: nat
  lx_end :: nat
  lx_start1 :: nat
  lx_end1 :: nat
  lx_line_nr :: int
  lx_state :: nat
  lx_token :: token
  lx_tokens :: "token list"

type_synonym 'a lex = "(lexer, 'a) cmd"

text \<open>The condition \<open>cstr_is_digit(c, base)\<close>, for the constant bases of the lexer.\<close>

definition is_digit :: "char \<Rightarrow> int \<Rightarrow> bool" where
  "is_digit c base \<longleftrightarrow> cstr_is_digit c base = Inr True"

definition is_word_char :: "char \<Rightarrow> bool" where
  "is_word_char c \<longleftrightarrow> cstr_is_letter c \<or> is_digit c 10 \<or> c = CHR ''_''"

section \<open>Moving the lexeme\<close>

definition char_lookahead :: "nat \<Rightarrow> char lex" where
  "char_lookahead pos = (\<lambda>s.
     if lx_end s + pos \<le> lx_text_size s then lift (rd (lx_text s) (lx_end s + pos)) s
     else Inl Assert_failed)"

definition char_advance :: "nat \<Rightarrow> char lex" where
  "char_advance pos = (\<lambda>s.
     if lx_end s + pos \<le> lx_text_size s then
       lift (rd (lx_text s) (lx_end s + pos)) (s\<lparr>lx_end := lx_end s + pos\<rparr>)
     else Inl Assert_failed)"

text \<open>A retract from index 0 would leave the text; the caller has always advanced before.\<close>

definition char_retract :: "char lex" where
  "char_retract = (\<lambda>s.
     if 0 < lx_end s then
       lift (rd (lx_text s) (lx_end s - 1)) (s\<lparr>lx_end := lx_end s - 1\<rparr>)
     else Inl Bad_access)"

definition lexeme_advance :: "unit lex" where
  "lexeme_advance =
     bnd (modify (\<lambda>s. s\<lparr>lx_end := lx_end s + 1, lx_start := lx_end s + 1\<rparr>)) (\<lambda>_.
     bnd (gets (\<lambda>s. lx_start s \<le> lx_text_size s)) assert_cmd)"

text \<open>
  \<open>lexeme_copy\<close>: one round of its loop, giving the byte written and the next source index,
  and the loop \<open>while (src <= lexeme->end)\<close>.
\<close>

definition copy_step :: "string \<Rightarrow> nat \<Rightarrow> (char \<times> nat) result" where
  "copy_step txt src =
     bnd_r (rd txt src) (\<lambda>c.
     if c = BACKSLASH then
       bnd_r (rd txt (src + 1)) (\<lambda>e.
       if e = CHR ''n'' then Inr (LF, src + 2)
       else if e = CHR ''r'' then Inr (CR, src + 2)
       else if e = CHR ''t'' then Inr (TAB, src + 2)
       else Inr (e, src + 2))
     else Inr (c, src + 1))"

lemma copy_step_src: "copy_step txt src = Inr (c, src') \<Longrightarrow> src < src' \<and> src' \<le> src + 2"
  by (auto simp: copy_step_def bnd_r_Inr_iff split: if_splits)

function lexeme_copy :: "string \<Rightarrow> nat \<Rightarrow> nat \<Rightarrow> string \<Rightarrow> string result" where
  "lexeme_copy txt src e dest =
     (case copy_step txt src of
        Inl f \<Rightarrow> Inl f
      | Inr (c, src') \<Rightarrow>
          (if src' \<le> e then lexeme_copy txt src' e (dest @ [c]) else Inr (dest @ [c])))"
  by pat_completeness auto
termination
  by (relation "measure (\<lambda>(txt, src, e, dest). Suc e - src)") (auto dest: copy_step_src)

declare lexeme_copy.simps [simp del]

definition lexeme_len :: "nat \<Rightarrow> nat \<Rightarrow> int" where
  "lexeme_len start e = int e - int start + 1"

text \<open>
  \<open>lexeme_match_cstr\<close>: the text from \<open>l\<close> against a terminated string, from its index \<open>s\<close> on.
\<close>

function match_prefix :: "string \<Rightarrow> nat \<Rightarrow> string \<Rightarrow> nat \<Rightarrow> nat result" where
  "match_prefix txt l str s =
     (if l < length txt \<and> s < length str then
        (if txt ! l = str ! s then
           (if Suc s < length str then
              (if str ! Suc s = NUL then Inr (Suc s) else match_prefix txt (Suc l) str (Suc s))
            else Inl Bad_access)
         else Inr s)
      else Inl Bad_access)"
  by pat_completeness auto
termination
  by (relation "measure (\<lambda>(txt, l, str, s). length str - s)") auto

declare match_prefix.simps [simp del]

definition lexeme_match_cstr :: "string \<Rightarrow> nat \<Rightarrow> nat \<Rightarrow> string \<Rightarrow> bool result" where
  "lexeme_match_cstr txt start e str =
     bnd_r (match_prefix txt start str 0) (\<lambda>s.
     bnd_r (rd str s) (\<lambda>c. Inr (int s = lexeme_len start e \<and> c = NUL)))"

definition lexeme_to_cstring :: "string \<Rightarrow> nat \<Rightarrow> nat \<Rightarrow> string result" where
  "lexeme_to_cstring txt start e =
     bnd_r (lexeme_copy txt start e []) (\<lambda>dest. Inr (takeWhile (\<lambda>c. c \<noteq> NUL) dest))"

definition lexeme0_to_cstring :: "string lex" where
  "lexeme0_to_cstring = (\<lambda>s. lift (lexeme_to_cstring (lx_text s) (lx_start s) (lx_end s)) s)"

definition lexeme1_to_cstring :: "string lex" where
  "lexeme1_to_cstring = (\<lambda>s. lift (lexeme_to_cstring (lx_text s) (lx_start1 s) (lx_end1 s)) s)"

section \<open>Integers\<close>

definition digit_to_integer :: "char \<Rightarrow> int \<Rightarrow> int result" where
  "digit_to_integer c base =
     (if base = 10 \<or> base = 8 \<or> base = 2 then Inr (code c - code (CHR ''0''))
      else if base = 16 then
        (if code (CHR ''0'') \<le> code c \<and> code c \<le> code (CHR ''9'') then
           Inr (code c - code (CHR ''0''))
         else if code (CHR ''a'') \<le> code c \<and> code c \<le> code (CHR ''f'') then
           Inr (10 + (code c - code (CHR ''a'')))
         else if code (CHR ''A'') \<le> code c \<and> code c \<le> code (CHR ''F'') then
           Inr (10 + (code c - code (CHR ''A'')))
         else Inl Assert_failed)
      else Inl Assert_failed)"

text \<open>The loop over the characters after the first, with the value so far.\<close>

fun parse_digits :: "string \<Rightarrow> int \<Rightarrow> u32 \<Rightarrow> u32 result" where
  "parse_digits [] base acc = Inr acc"
| "parse_digits (c # str) base acc =
     bnd_r (cstr_is_digit c base) (\<lambda>is_dig.
     if is_dig then
       bnd_r (digit_to_integer c base) (\<lambda>d.
       parse_digits str base (acc * word_of_int base + word_of_int d))
     else if c = CHR ''_'' then parse_digits str base acc
     else Inl Assert_failed)"

definition parse_integer :: "string \<Rightarrow> int \<Rightarrow> int result" where
  "parse_integer str base =
     (let c = (case str of [] \<Rightarrow> NUL | c # _ \<Rightarrow> c) in
      bnd_r (cstr_is_digit c base) (\<lambda>is_dig.
      if is_dig \<or> c = CHR ''_'' then
        bnd_r (if c \<noteq> CHR ''_'' then digit_to_integer c base else Inr 0) (\<lambda>d.
        bnd_r (parse_digits (tl str) base (word_of_int d)) (\<lambda>w. Inr (sint w)))
      else Inl Assert_failed))"

section \<open>The token under construction\<close>

definition upd_token :: "(token \<Rightarrow> token) \<Rightarrow> unit lex" where
  "upd_token f = modify (\<lambda>s. s\<lparr>lx_token := f (lx_token s)\<rparr>)"

definition set_klass :: "token_class \<Rightarrow> unit lex" where
  "set_klass k = upd_token (\<lambda>t. t\<lparr>klass := k\<rparr>)"

definition set_state :: "nat \<Rightarrow> unit lex" where
  "set_state n = modify (\<lambda>s. s\<lparr>lx_state := n\<rparr>)"

definition inc_line_nr :: "unit lex" where
  "inc_line_nr = modify (\<lambda>s. s\<lparr>lx_line_nr := lx_line_nr s + 1\<rparr>)"

text \<open>The end of most cases: the lexeme's string is stored, the lexeme moves on, the loop ends.\<close>

definition finish_token :: "unit lex" where
  "finish_token =
     bnd lexeme0_to_cstring (\<lambda>str.
     bnd (upd_token (\<lambda>t. t\<lparr>lexeme := str\<rparr>)) (\<lambda>_.
     bnd lexeme_advance (\<lambda>_.
     set_state 0)))"

definition emit :: "token_class \<Rightarrow> unit lex" where
  "emit k = bnd (set_klass k) (\<lambda>_. finish_token)"

definition digits_message :: "int \<Rightarrow> string" where
  "digits_message base =
     (if base = 10 then ''expected one or more digits''
      else if base = 16 then ''expected one or more hexadecimal digits''
      else if base = 8 then ''expected one or more octal digits''
      else ''expected one or more binary digits'')"

definition token_install_integer :: "int \<Rightarrow> unit lex" where
  "token_install_integer base =
     bnd lexeme1_to_cstring (\<lambda>str.
     bnd (lift (cstr_is_digit (case str of [] \<Rightarrow> NUL | c # _ \<Rightarrow> c) base)) (\<lambda>is_dig.
     if is_dig \<or> (case str of [] \<Rightarrow> NUL | c # _ \<Rightarrow> c) = CHR ''_'' then
       bnd (lift (parse_integer str base)) (\<lambda>v.
       upd_token (\<lambda>t. t\<lparr>i_value := v\<rparr>))
     else
       bnd (gets lx_token) (\<lambda>t.
       fail (Error_exit (tk_line_nr t) (digits_message base) str))))"

text \<open>
  \<open>do c = char_advance(1); while (P c)\<close>. The lexeme moves right in each round and cannot pass
  the end of the text, so \<open>text_size + 1\<close> rounds are enough.
\<close>

definition advance_while :: "(char \<Rightarrow> bool) \<Rightarrow> char lex" where
  "advance_while P = (\<lambda>s.
     repeat_cmd (Suc (lx_text_size s))
       (bnd (char_advance 1) (\<lambda>c. ret (if P c then None else Some c))) s)"

definition set_lexeme1_here :: "unit lex" where
  "set_lexeme1_here = modify (\<lambda>s. s\<lparr>lx_start1 := lx_end s, lx_end1 := lx_end s\<rparr>)"

definition or_flags :: "u32 \<Rightarrow> token \<Rightarrow> token" where
  "or_flags f t = t\<lparr>i_flags := i_flags t OR f\<rparr>"

section \<open>The states\<close>

text \<open>State 1: white space is skipped, the first character of a token picks its state.\<close>

definition start_state :: "char \<Rightarrow> nat" where
  "start_state c =
     (if c = CHR '';'' then 100
      else if c = CHR ''<'' then 101
      else if c = CHR ''>'' then 102
      else if c = CHR ''_'' then 103
      else if c = CHR '':'' then 104
      else if c = CHR ''('' then 105
      else if c = CHR '')'' then 106
      else if c = CHR ''.'' then 107
      else if c = CHR ''{'' then 108
      else if c = CHR ''}'' then 109
      else if c = CHR ''['' then 110
      else if c = CHR '']'' then 111
      else if c = CHR '','' then 112
      else if c = CHR ''-'' then 113
      else if c = CHR ''+'' then 114
      else if c = CHR ''*'' then 115
      else if c = CHR ''/'' then 116
      else if c = CHR ''='' then 117
      else if c = CHR ''!'' then 118
      else if c = CHR ''&'' then 119
      else if c = CHR ''|'' then 120
      else if c = CHR ''^'' then 121
      else if c = CHR ''~'' then 122
      else if c = CHR 0x22 then 200
      else if is_digit c 10 then 400
      else if cstr_is_letter c then 500
      else if c = NUL then 2
      else 3)"

definition state_1 :: "char \<Rightarrow> unit lex" where
  "state_1 c =
     (if c = CHR '' '' \<or> c = TAB \<or> c = LF \<or> c = CR then
        bnd lexeme_advance (\<lambda>_.
        bnd (if c = LF \<or> c = CR then
               bnd (char_lookahead 0) (\<lambda>cc.
               bnd (if code c + code cc = code LF + code CR then lexeme_advance else ret ())
                 (\<lambda>_. inc_line_nr))
             else ret ()) (\<lambda>_.
        set_state 1))
      else set_state (start_state c))"

definition state_2 :: "unit lex" where
  "state_2 =
     bnd (upd_token (\<lambda>t. t\<lparr>klass := Token_EndOfInput, lexeme := ''<end-of-input>''\<rparr>)) (\<lambda>_.
     set_state 0)"

definition state_3 :: "unit lex" where
  "state_3 =
     bnd (upd_token (\<lambda>t. t\<lparr>klass := Token_Unknown, lexeme := ''<unknown>''\<rparr>)) (\<lambda>_.
     bnd lexeme_advance (\<lambda>_.
     set_state 0))"

definition state_4 :: "unit lex" where
  "state_4 =
     bnd (upd_token (\<lambda>t. t\<lparr>klass := Token_LexicalError, lexeme := ''<error>''\<rparr>)) (\<lambda>_.
     bnd lexeme_advance (\<lambda>_.
     set_state 0))"

definition state_101 :: "unit lex" where
  "state_101 =
     bnd (char_lookahead 1) (\<lambda>cc.
     bnd (if cc = CHR ''='' then
            bnd (char_advance 1) (\<lambda>_. set_klass Token_AngleOpenEqual)
          else if cc = CHR ''<'' then
            bnd (char_advance 1) (\<lambda>_. set_klass Token_TwoAngleOpen)
          else set_klass Token_AngleOpen) (\<lambda>_.
     finish_token))"

definition state_102 :: "unit lex" where
  "state_102 =
     bnd (char_lookahead 1) (\<lambda>cc.
     bnd (if cc = CHR ''='' then
            bnd (char_advance 1) (\<lambda>_. set_klass Token_AngleCloseEqual)
          else if cc = CHR ''>'' then
            bnd (char_advance 1) (\<lambda>_. set_klass Token_TwoAngleClose)
          else set_klass Token_AngleClose) (\<lambda>_.
     finish_token))"

definition state_103 :: "unit lex" where
  "state_103 =
     bnd (char_lookahead 1) (\<lambda>cc.
     if is_word_char cc then set_state 500 else emit Token_Dontcare)"

definition state_113 :: "unit lex" where
  "state_113 =
     bnd (gets lx_tokens) (\<lambda>ts.
     bnd (assert_cmd (ts \<noteq> [])) (\<lambda>_.
     bnd (set_klass (if klass (last ts) = Token_ParenthOpen then Token_UnaryMinus
                     else Token_Minus)) (\<lambda>_.
     finish_token)))"

definition state_116 :: "unit lex" where
  "state_116 =
     bnd (char_lookahead 1) (\<lambda>cc.
     if cc = CHR ''*'' then bnd (char_advance 1) (\<lambda>_. set_state 310)
     else if cc = CHR ''/'' then set_state 311
     else emit Token_Slash)"

text \<open>States 117 and 118 and 120: a second character makes the longer token.\<close>

definition state_two :: "char \<Rightarrow> token_class \<Rightarrow> token_class \<Rightarrow> unit lex" where
  "state_two second long short =
     bnd (char_lookahead 1) (\<lambda>cc.
     bnd (if cc = second then bnd (char_advance 1) (\<lambda>_. set_klass long)
          else set_klass short) (\<lambda>_.
     finish_token))"

definition state_117 :: "unit lex" where
  "state_117 = state_two (CHR ''='') Token_TwoEqual Token_Equal"

definition state_118 :: "unit lex" where
  "state_118 = state_two (CHR ''='') Token_ExclamationEqual Token_Exclamation"

definition state_119 :: "unit lex" where
  "state_119 =
     bnd (char_lookahead 1) (\<lambda>cc.
     bnd (if cc = CHR ''&'' then
            bnd (char_advance 1) (\<lambda>_.
            bnd (char_lookahead 1) (\<lambda>ccc.
            if ccc = CHR ''&'' then
              bnd (char_advance 1) (\<lambda>_. set_klass Token_ThreeAmpersand)
            else set_klass Token_TwoAmpersand))
          else set_klass Token_Ampersand) (\<lambda>_.
     finish_token))"

definition state_120 :: "unit lex" where
  "state_120 = state_two (CHR ''|'') Token_TwoPipe Token_Pipe"

text \<open>
  State 200, a string literal. A backslash leaves the loop (the \<open>break\<close> leaves the
  \<open>do\<close>, not the \<open>switch\<close>); whatever the loop stored in \<open>state\<close> is overwritten after it.
\<close>

definition string_body :: "unit option lex" where
  "string_body =
     bnd (char_advance 1) (\<lambda>c.
     if c = BACKSLASH then bnd (set_state 201) (\<lambda>_. ret (Some ()))
     else
       bnd (if c = LF \<or> c = CR then set_state 4 else ret ()) (\<lambda>_.
       ret (if c \<noteq> CHR 0x22 then None else Some ())))"

definition state_200 :: "unit lex" where
  "state_200 =
     bnd (\<lambda>s. repeat_cmd (Suc (lx_text_size s)) string_body s) (\<lambda>_.
     emit Token_StringLiteral)"

definition state_201 :: "unit lex" where
  "state_201 =
     bnd (char_advance 1) (\<lambda>c.
     if c = LF \<or> c = CR then bnd inc_line_nr (\<lambda>_. set_state 200)
     else if c = BACKSLASH \<or> c = CHR 0x22 \<or> c = CHR ''n'' \<or> c = CHR ''r'' then set_state 200
     else set_state 4)"

text \<open>State 310, a block comment, from just after its opening or a star that did not close it.\<close>

definition comment_body :: "unit option lex" where
  "comment_body =
     bnd (char_advance 1) (\<lambda>c.
     bnd (if c = LF \<or> c = CR then
            bnd (char_lookahead 1) (\<lambda>cc.
            bnd (if code c + code cc = code LF + code CR then char_advance 1 else ret c) (\<lambda>c'.
            bnd inc_line_nr (\<lambda>_. ret c')))
          else ret c) (\<lambda>c'.
     ret (if c' \<noteq> CHR ''*'' then None else Some ())))"

definition state_310 :: "unit lex" where
  "state_310 =
     bnd (\<lambda>s. repeat_cmd (Suc (lx_text_size s)) comment_body s) (\<lambda>_.
     bnd (char_lookahead 1) (\<lambda>cc.
     if cc = CHR ''/'' then bnd (char_advance 1) (\<lambda>_. emit Token_Comment)
     else set_state 310))"

definition state_311 :: "unit lex" where
  "state_311 =
     bnd (advance_while (\<lambda>c. c \<noteq> LF \<and> c \<noteq> CR)) (\<lambda>_.
     bnd inc_line_nr (\<lambda>_.
     emit Token_Comment))"

text \<open>States 400 and 405: the prefix of a literal picks its base.\<close>

definition radix_state :: "char \<Rightarrow> nat \<Rightarrow> nat \<Rightarrow> nat \<Rightarrow> nat \<Rightarrow> unit lex" where
  "radix_state c hex oct bin dec =
     (if c = CHR ''0'' then
        bnd (char_lookahead 1) (\<lambda>cc.
        if cc = CHR ''x'' \<or> cc = CHR ''X'' then
          bnd (set_state hex) (\<lambda>_. bnd (char_advance 2) (\<lambda>_. ret ()))
        else if cc = CHR ''o'' \<or> cc = CHR ''O'' then
          bnd (set_state oct) (\<lambda>_. bnd (char_advance 2) (\<lambda>_. ret ()))
        else if cc = CHR ''b'' \<or> cc = CHR ''B'' then
          bnd (set_state bin) (\<lambda>_. bnd (char_advance 2) (\<lambda>_. ret ()))
        else set_state dec)
      else set_state dec)"

definition state_400 :: "char \<Rightarrow> unit lex" where
  "state_400 c = radix_state c 402 403 404 401"

definition state_405 :: "char \<Rightarrow> unit lex" where
  "state_405 c = radix_state c 406 407 408 409"

definition end_lexeme1_here :: "unit lex" where
  "end_lexeme1_here = modify (\<lambda>s. s\<lparr>lx_end1 := lx_end s\<rparr>)"

definition state_401 :: "unit lex" where
  "state_401 =
     bnd set_lexeme1_here (\<lambda>_.
     bnd (advance_while (\<lambda>c. is_digit c 10)) (\<lambda>c.
     if c = CHR ''w'' \<or> c = CHR ''s'' then
       bnd (set_klass Token_Integer) (\<lambda>_.
       bnd (upd_token (or_flags AstInteger_HasWidth)) (\<lambda>_.
       bnd (if c = CHR ''s'' then upd_token (or_flags AstInteger_IsSigned) else ret ()) (\<lambda>_.
       bnd (modify (\<lambda>s. s\<lparr>lx_end1 := lx_end s - 1\<rparr>)) (\<lambda>_.
       bnd lexeme1_to_cstring (\<lambda>str.
       bnd (lift (parse_integer str 10)) (\<lambda>w.
       bnd (upd_token (\<lambda>t. t\<lparr>i_width := w\<rparr>)) (\<lambda>_.
       bnd (char_advance 1) (\<lambda>_.
       set_state 405))))))))
     else
       bnd char_retract (\<lambda>_.
       bnd end_lexeme1_here (\<lambda>_.
       bnd (set_klass Token_Integer) (\<lambda>_.
       bnd (upd_token (or_flags AstInteger_IsSigned)) (\<lambda>_.
       bnd (token_install_integer 10) (\<lambda>_.
       finish_token)))))))"

text \<open>States 402, 403, 404 (a plain literal, which counts as signed) and 406 to 409.\<close>

definition scan_digits :: "int \<Rightarrow> bool \<Rightarrow> unit lex" where
  "scan_digits base underscores =
     bnd set_lexeme1_here (\<lambda>_.
     bnd (advance_while (\<lambda>c. is_digit c base \<or> (underscores \<and> c = CHR ''_''))) (\<lambda>_.
     bnd char_retract (\<lambda>_. end_lexeme1_here)))"

definition state_radix :: "int \<Rightarrow> unit lex" where
  "state_radix base =
     bnd (scan_digits base True) (\<lambda>_.
     bnd (set_klass Token_Integer) (\<lambda>_.
     bnd (upd_token (or_flags AstInteger_IsSigned)) (\<lambda>_.
     bnd (token_install_integer base) (\<lambda>_.
     finish_token))))"

definition state_402 :: "unit lex" where "state_402 = state_radix 16"
definition state_403 :: "unit lex" where "state_403 = state_radix 8"
definition state_404 :: "unit lex" where "state_404 = state_radix 2"

definition state_sized :: "int \<Rightarrow> bool \<Rightarrow> unit lex" where
  "state_sized base underscores =
     bnd (scan_digits base underscores) (\<lambda>_.
     bnd (token_install_integer base) (\<lambda>_.
     finish_token))"

definition state_406 :: "unit lex" where "state_406 = state_sized 16 True"
definition state_407 :: "unit lex" where "state_407 = state_sized 8 True"
definition state_408 :: "unit lex" where "state_408 = state_sized 2 True"
definition state_409 :: "unit lex" where "state_409 = state_sized 10 False"

definition state_500 :: "unit lex" where
  "state_500 =
     bnd (advance_while is_word_char) (\<lambda>_.
     bnd char_retract (\<lambda>_.
     emit Token_Identifier))"

section \<open>The state machine\<close>

text \<open>The body of \<open>while (state)\<close>: read the current character, then the \<open>switch\<close>.\<close>

definition lex_switch :: "nat \<Rightarrow> char \<Rightarrow> unit lex" where
  "lex_switch st c =
     (if st = 1 then state_1 c
      else if st = 2 then state_2
      else if st = 3 then state_3
      else if st = 4 then state_4
      else if st = 100 then emit Token_Semicolon
      else if st = 101 then state_101
      else if st = 102 then state_102
      else if st = 103 then state_103
      else if st = 104 then emit Token_Colon
      else if st = 105 then emit Token_ParenthOpen
      else if st = 106 then emit Token_ParenthClose
      else if st = 107 then emit Token_DotPrefix
      else if st = 108 then emit Token_BraceOpen
      else if st = 109 then emit Token_BraceClose
      else if st = 110 then emit Token_BracketOpen
      else if st = 111 then emit Token_BracketClose
      else if st = 112 then emit Token_Comma
      else if st = 113 then state_113
      else if st = 114 then emit Token_Plus
      else if st = 115 then emit Token_Star
      else if st = 116 then state_116
      else if st = 117 then state_117
      else if st = 118 then state_118
      else if st = 119 then state_119
      else if st = 120 then state_120
      else if st = 121 then emit Token_Circumflex
      else if st = 122 then emit Token_Tilda
      else if st = 200 then state_200
      else if st = 201 then state_201
      else if st = 310 then state_310
      else if st = 311 then state_311
      else if st = 400 then state_400 c
      else if st = 401 then state_401
      else if st = 402 then state_402
      else if st = 403 then state_403
      else if st = 404 then state_404
      else if st = 405 then state_405 c
      else if st = 406 then state_406
      else if st = 407 then state_407
      else if st = 408 then state_408
      else if st = 409 then state_409
      else if st = 500 then state_500
      else fail Assert_failed)"

definition lex_step :: "unit lex" where
  "lex_step =
     bnd (char_lookahead 0) (\<lambda>c.
     bnd (gets lx_state) (\<lambda>st. lex_switch st c))"

text \<open>
  Between two moves of the lexeme the machine makes at most five steps, so six steps per
  character and a few more are enough.
\<close>

definition lex_fuel :: "lexer \<Rightarrow> nat" where
  "lex_fuel s = 6 * lx_text_size s + 12"

definition next_token :: "token lex" where
  "next_token =
     bnd (upd_token (\<lambda>_. zero_token)) (\<lambda>_.
     bnd (set_state 1) (\<lambda>_.
     bnd (\<lambda>s. while_cmd (lex_fuel s) (\<lambda>s. lx_state s \<noteq> 0) lex_step s) (\<lambda>_.
     bnd (gets lx_line_nr) (\<lambda>n.
     bnd (upd_token (\<lambda>t. t\<lparr>tk_line_nr := n\<rparr>)) (\<lambda>_.
     gets lx_token)))))"

definition append_token :: "token \<Rightarrow> unit lex" where
  "append_token t = modify (\<lambda>s. s\<lparr>lx_tokens := lx_tokens s @ [t]\<rparr>)"

text \<open>
  \<open>lex_tokenize\<close>: the loop over the tokens, which reads the class of the token just appended,
  and the whole function with its initialisation of the static variables. Each token takes
  at least one character, so \<open>text_size + 1\<close> rounds are enough.
\<close>

definition tokenize_body :: "unit option lex" where
  "tokenize_body =
     bnd (gets lx_token) (\<lambda>t.
     if klass t = Token_EndOfInput then ret (Some ())
     else if klass t = Token_Unknown then
       fail (Error_exit (tk_line_nr t) ''unknown token.'' '''')
     else if klass t = Token_LexicalError then
       fail (Error_exit (tk_line_nr t) ''lexical error.'' '''')
     else
       bnd next_token (\<lambda>t'.
       bnd (append_token t') (\<lambda>_. ret None)))"

definition init_lexer :: "string \<Rightarrow> nat \<Rightarrow> lexer" where
  "init_lexer txt txt_size =
     \<lparr>lx_text = txt, lx_text_size = txt_size, lx_start = 0, lx_end = 0,
      lx_start1 = 0, lx_end1 = 0, lx_line_nr = 1, lx_state = 0,
      lx_token = zero_token\<lparr>klass := Token_StartOfInput\<rparr>, lx_tokens = []\<rparr>"

definition lex_tokenize_cmd :: "token list lex" where
  "lex_tokenize_cmd =
     bnd (gets lx_token) (\<lambda>t.
     bnd (append_token t) (\<lambda>_.
     bnd next_token (\<lambda>t'.
     bnd (append_token t') (\<lambda>_.
     bnd (\<lambda>s. repeat_cmd (lx_text_size s + 2) tokenize_body s) (\<lambda>_.
     gets lx_tokens)))))"

text \<open>The program text \<open>s\<close>, as \<open>read_source\<close> stores it.\<close>

definition lex_tokenize :: "string \<Rightarrow> token list result" where
  "lex_tokenize src =
     (case lex_tokenize_cmd (init_lexer (cstring src) (length src)) of
        Inl f \<Rightarrow> Inl f | Inr (ts, s) \<Rightarrow> Inr ts)"

end
