(* ===== verification/BuildSymtab.thy ===== *)
theory BuildSymtab
  imports AstTab Symtab
begin

text \<open>
  build_symtable.c: the walk that enters the declarations of a program into the symbol table.
  The tree is a parameter, the table the state. A missing attribute that is followed, or an
  attribute of another type, is a \<open>Bad_access\<close>.
\<close>

type_synonym 'a S = "(symtable, 'a) cmd"

section \<open>Attributes\<close>

text \<open>\<open>(struct Ast*)ast_getattr(node, name)\<close> and its likes; an absent attribute is null.\<close>

definition get_ast :: "ast \<Rightarrow> string \<Rightarrow> ast option result" where
  "get_ast node name =
     bnd_r (ast_getattr node name) (\<lambda>v.
     case v of None \<Rightarrow> Inr None | Some (V_Ast r) \<Rightarrow> Inr r | _ \<Rightarrow> Inl Bad_access)"

definition get_list :: "ast \<Rightarrow> string \<Rightarrow> ast list option result" where
  "get_list node name =
     bnd_r (ast_getattr node name) (\<lambda>v.
     case v of None \<Rightarrow> Inr None | Some (V_AstList r) \<Rightarrow> Inr r | _ \<Rightarrow> Inl Bad_access)"

definition get_string :: "ast \<Rightarrow> string \<Rightarrow> string result" where
  "get_string node name =
     bnd_r (ast_getattr node name) (\<lambda>v.
     case v of Some (V_String s) \<Rightarrow> Inr s | _ \<Rightarrow> Inl Bad_access)"

definition deref :: "'a option \<Rightarrow> 'a result" where
  "deref r = (case r of None \<Rightarrow> Inl Bad_access | Some x \<Rightarrow> Inr x)"

text \<open>The name node of a declaration and its string: the opening lines of every function.\<close>

definition decl_name :: "ast \<Rightarrow> (ast \<times> string) result" where
  "decl_name decl =
     bnd_r (get_ast decl ''name'') (\<lambda>r.
     bnd_r (deref r) (\<lambda>node.
     bnd_r (get_string node ''name'') (\<lambda>strname. Inr (node, strname))))"

definition redeclared :: "ast \<Rightarrow> string \<Rightarrow> 'a S" where
  "redeclared node strname = fail (Error_exit (line_of node) ''name redeclared'' strname)"

text \<open>\<open>if (!name_is_declared(...)) new_ident(...); else error(...)\<close>, and the same with a type.\<close>

definition declare_ident :: "ast \<Rightarrow> ast \<times> string \<Rightarrow> unit S" where
  "declare_ident decl = (\<lambda>(node, strname).
     bnd (name_is_declared strname Symbol_Ident) (\<lambda>declared.
     if \<not> declared then bnd (new_ident strname (id_of decl) (line_of node)) (\<lambda>_. ret ())
        else redeclared node strname))"

definition declare_type_name :: "ast \<Rightarrow> ast \<times> string \<Rightarrow> unit S" where
  "declare_type_name decl = (\<lambda>(node, strname).
     bnd (name_is_declared strname Symbol_Type) (\<lambda>declared.
     if \<not> declared then bnd (new_type strname (id_of decl) (line_of node)) (\<lambda>_. ret ())
        else redeclared node strname))"

definition push_cmd :: "unit S" where
  "push_cmd = modify push_scope"

definition pop_cmd :: "unit S" where
  "pop_cmd = (\<lambda>st. case pop_scope st of Inl f \<Rightarrow> Inl f | Inr st' \<Rightarrow> Inr ((), st'))"

primrec for_each :: "('a \<Rightarrow> unit S) \<Rightarrow> 'a list \<Rightarrow> unit S" where
  "for_each f [] = ret ()"
| "for_each f (x # xs) = bnd (f x) (\<lambda>_. for_each f xs)"

text \<open>A list walked within a scope of its own.\<close>

definition scoped :: "('a \<Rightarrow> unit S) \<Rightarrow> 'a list \<Rightarrow> unit S" where
  "scoped f xs = bnd push_cmd (\<lambda>_.
              bnd (for_each f xs) (\<lambda>_.
              pop_cmd))"

definition when_list :: "ast list option \<Rightarrow> (ast list \<Rightarrow> unit S) \<Rightarrow> unit S" where
  "when_list r f = (case r of None \<Rightarrow> ret () | Some xs \<Rightarrow> f xs)"

section \<open>Controls\<close>

text \<open>
  Nested blocks: the two functions call each other; \<open>n\<close> bounds the nesting. The statements
  that \<open>build_symtable_local_control_declaration\<close> does not list fail its assertion.
\<close>

definition local_control_declaration :: "(ast \<Rightarrow> unit S) \<Rightarrow> ast \<Rightarrow> unit S" where
  "local_control_declaration block decl =
     (let k = kind_of decl in
      if k = Ast_Instantiation \<or> k = Ast_ActionDecl \<or> k = Ast_VarDecl \<or> k = Ast_TableDecl then
        bnd (lift (decl_name decl)) (declare_ident decl)
      else if k = Ast_BlockStmt then block decl
      else if k = Ast_MethodCallStmt \<or> k = Ast_AssignmentStmt \<or> k = Ast_IfStmt \<or>
        k = Ast_SwitchStmt \<or> k = Ast_DirectApplic then ret ()
      else fail Assert_failed)"

primrec build_symtable_block_statement :: "nat \<Rightarrow> ast \<Rightarrow> unit S" where
  "build_symtable_block_statement 0 block_stmt = fail Out_of_fuel"
| "build_symtable_block_statement (Suc n) block_stmt =
     bnd push_cmd (\<lambda>_.
     bnd (lift (get_list block_stmt ''stmt_list'')) (\<lambda>stmt_list.
     bnd (when_list stmt_list
          (for_each (local_control_declaration (build_symtable_block_statement n)))) (\<lambda>_.
     pop_cmd)))"

definition build_symtable_local_control_declaration :: "nat \<Rightarrow> ast \<Rightarrow> unit S" where
  "build_symtable_local_control_declaration n =
     local_control_declaration (build_symtable_block_statement n)"

definition build_symtable_local_control_declarations :: "nat \<Rightarrow> ast list \<Rightarrow> unit S" where
  "build_symtable_local_control_declarations n local_decls =
     scoped (build_symtable_local_control_declaration n) local_decls"

definition type_decl_name :: "ast \<Rightarrow> (ast \<times> (ast \<times> string)) result" where
  "type_decl_name decl =
     bnd_r (get_ast decl ''type_decl'') (\<lambda>r.
     bnd_r (deref r) (\<lambda>type_decl.
     bnd_r (decl_name type_decl) (\<lambda>n. Inr (type_decl, n))))"

definition build_symtable_control :: "nat \<Rightarrow> ast \<Rightarrow> unit S" where
  "build_symtable_control n control_decl =
     bnd (lift (type_decl_name control_decl)) (\<lambda>(type_decl, nm).
     bnd (declare_type_name type_decl nm) (\<lambda>_.
     bnd push_cmd (\<lambda>_.
     bnd (lift (get_list control_decl ''local_decls'')) (\<lambda>local_decls.
     bnd (when_list local_decls (build_symtable_local_control_declarations n)) (\<lambda>_.
     bnd (lift (get_ast control_decl ''apply_stmt'')) (\<lambda>apply_stmt.
     bnd ((case apply_stmt of None \<Rightarrow> ret () | Some blk \<Rightarrow> build_symtable_block_statement n blk)) (\<lambda>_.
     pop_cmd)))))))"

section \<open>Parsers, externs and structs\<close>

definition build_symtable_local_parser_element :: "ast \<Rightarrow> unit S" where
  "build_symtable_local_parser_element element =
     (if kind_of element = Ast_ConstDecl \<or> kind_of element = Ast_Instantiation \<or>
        kind_of element = Ast_VarDecl then
        bnd (lift (decl_name element)) (declare_ident element)
      else fail Assert_failed)"

definition build_symtable_local_parser_elements :: "ast list \<Rightarrow> unit S" where
  "build_symtable_local_parser_elements local_elements =
     scoped build_symtable_local_parser_element local_elements"

definition build_symtable_parser :: "ast \<Rightarrow> unit S" where
  "build_symtable_parser parser_decl =
     bnd (lift (type_decl_name parser_decl)) (\<lambda>(type_decl, nm).
     bnd (declare_type_name type_decl nm) (\<lambda>_.
     bnd push_cmd (\<lambda>_.
     bnd (lift (get_list parser_decl ''local_elements'')) (\<lambda>local_elements.
     bnd (when_list local_elements build_symtable_local_parser_elements) (\<lambda>_.
     pop_cmd)))))"

definition build_symtable_function_proto :: "ast \<Rightarrow> unit S" where
  "build_symtable_function_proto function_proto =
     bnd (lift (decl_name function_proto)) (\<lambda>(node, strname).
     bnd (new_ident strname (id_of function_proto) (line_of node)) (\<lambda>_. ret ()))"

definition build_symtable_extern_method_protos :: "ast list \<Rightarrow> unit S" where
  "build_symtable_extern_method_protos method_protos =
     scoped build_symtable_function_proto method_protos"

definition build_symtable_extern :: "ast \<Rightarrow> unit S" where
  "build_symtable_extern extern_decl =
     bnd (lift (decl_name extern_decl)) (\<lambda>nm.
     bnd (declare_type_name extern_decl nm) (\<lambda>_.
     bnd (lift (get_list extern_decl ''method_protos'')) (\<lambda>method_protos.
     when_list method_protos build_symtable_extern_method_protos)))"

definition build_symtable_struct_field :: "ast \<Rightarrow> unit S" where
  "build_symtable_struct_field field = bnd (lift (decl_name field)) (declare_ident field)"

definition build_symtable_struct_fields :: "ast list \<Rightarrow> unit S" where
  "build_symtable_struct_fields field_list = scoped build_symtable_struct_field field_list"

definition build_symtable_struct :: "ast \<Rightarrow> unit S" where
  "build_symtable_struct struct_decl =
     bnd (lift (decl_name struct_decl)) (\<lambda>nm.
     bnd (declare_type_name struct_decl nm) (\<lambda>_.
     bnd (lift (get_list struct_decl ''fields'')) (\<lambda>field_list.
     when_list field_list build_symtable_struct_fields)))"

section \<open>The program\<close>

definition build_symtable_package :: "ast \<Rightarrow> unit S" where
  "build_symtable_package package_decl =
     bnd (lift (decl_name package_decl)) (declare_type_name package_decl)"

definition build_symtable_top_level_instantiation :: "ast \<Rightarrow> unit S" where
  "build_symtable_top_level_instantiation inst =
     bnd (lift (decl_name inst)) (declare_ident inst)"

definition build_symtable_type_decl :: "ast \<Rightarrow> unit S" where
  "build_symtable_type_decl type_decl =
     bnd (lift (ast_getattr type_decl ''is_typedef'')) (\<lambda>v.
     case v of
          Some (V_Integer is_typedef) \<Rightarrow>
            (if is_typedef \<noteq> 0 then bnd (lift (decl_name type_decl)) (declare_type_name type_decl)
             else ret ())
        | _ \<Rightarrow> fail Bad_access)"

definition build_symtable_const_declaration :: "ast \<Rightarrow> unit S" where
  "build_symtable_const_declaration const_decl =
     bnd (lift (decl_name const_decl)) (declare_ident const_decl)"

definition build_symtable_declaration :: "nat \<Rightarrow> ast \<Rightarrow> unit S" where
  "build_symtable_declaration n decl =
     (let k = kind_of decl in
      if k = Ast_Control then build_symtable_control n decl
      else if k = Ast_ExternDecl then build_symtable_extern decl
      else if k = Ast_StructDecl \<or> k = Ast_HeaderDecl then build_symtable_struct decl
      else if k = Ast_Package then build_symtable_package decl
      else if k = Ast_Parser then build_symtable_parser decl
      else if k = Ast_Instantiation then build_symtable_top_level_instantiation decl
      else if k = Ast_TypeDecl then build_symtable_type_decl decl
      else if k = Ast_FunctionProto then build_symtable_function_proto decl
      else if k = Ast_ConstDecl then build_symtable_const_declaration decl
      else ret ())"

definition build_symtable_program :: "ast \<Rightarrow> unit S" where
  "build_symtable_program ast =
     (if kind_of ast = Ast_P4Program then
        bnd push_cmd (\<lambda>_.
        bnd (lift (get_list ast ''decl_list'')) (\<lambda>r.
        bnd (lift (deref r)) (\<lambda>decl_list.
        bnd (for_each (build_symtable_declaration (size ast)) decl_list) (\<lambda>_.
        pop_cmd))))
      else fail Assert_failed)"

end
