(* ===== verification/PrintAst.thy ===== *)
theory PrintAst
  imports AstTab
begin

text \<open>
  print_ast.c: the dump of a tree. The output stream is a string, the static \<open>tab_level\<close> the
  other component of the state. An attribute is printed by its tag, so a value of another
  type than the tag says is read as what it is not: the model calls that a \<open>Bad_access\<close>.

  \<open>print_parameter\<close>, \<open>print_int\<close> and \<open>print_base_type\<close> are called by nothing and are left out.
\<close>

record printer =
  tab_level :: int
  printed :: string

type_synonym 'a print = "(printer, 'a) cmd"

definition tab_size :: int where "tab_size = 2"

definition ast_kind_to_string :: "ast_kind \<Rightarrow> string result" where
  "ast_kind_to_string kind =
     (if kind = Ast_Name then Inr ''Ast_Name''
      else if kind = Ast_BaseType then Inr ''Ast_BaseType''
      else if kind = Ast_ConstDecl then Inr ''Ast_ConstDecl''
      else if kind = Ast_ExternDecl then Inr ''Ast_ExternDecl''
      else if kind = Ast_FunctionProto then Inr ''Ast_FunctionProto''
      else if kind = Ast_ActionDecl then Inr ''Ast_ActionDecl''
      else if kind = Ast_HeaderDecl then Inr ''Ast_HeaderDecl''
      else if kind = Ast_HeaderUnionDecl then Inr ''Ast_HeaderUnionDecl''
      else if kind = Ast_StructDecl then Inr ''Ast_StructDecl''
      else if kind = Ast_EnumDecl then Inr ''Ast_EnumDecl''
      else if kind = Ast_Parser then Inr ''Ast_Parser''
      else if kind = Ast_Control then Inr ''Ast_Control''
      else if kind = Ast_Package then Inr ''Ast_Package''
      else if kind = Ast_Instantiation then Inr ''Ast_Instantiation''
      else if kind = Ast_Error then Inr ''Ast_Error''
      else if kind = Ast_MatchKind then Inr ''Ast_MatchKind''
      else if kind = Ast_FunctionDecl then Inr ''Ast_FunctionDecl''
      else if kind = Ast_Dontcare then Inr ''Ast_Dontcare''
      else if kind = Ast_IntTypeSize then Inr ''Ast_IntTypeSize''
      else if kind = Ast_Int then Inr ''Ast_Int''
      else if kind = Ast_Bool then Inr ''Ast_Bool''
      else if kind = Ast_StringLiteral then Inr ''Ast_StringLiteral''
      else if kind = Ast_Tuple then Inr ''Ast_Tuple''
      else if kind = Ast_TupleKeyset then Inr ''Ast_TupleKeyset''
      else if kind = Ast_HeaderStack then Inr ''Ast_HeaderStack''
      else if kind = Ast_SpecdType then Inr ''Ast_SpecdType''
      else if kind = Ast_StructField then Inr ''Ast_StructField''
      else if kind = Ast_SpecdId then Inr ''Ast_SpecdId''
      else if kind = Ast_ParserType then Inr ''Ast_ParserType''
      else if kind = Ast_Argument then Inr ''Ast_Argument''
      else if kind = Ast_VarDecl then Inr ''Ast_VarDecl''
      else if kind = Ast_DirectApplic then Inr ''Ast_DirectApplic''
      else if kind = Ast_ArrayIndex then Inr ''Ast_ArrayIndex''
      else if kind = Ast_Parameter then Inr ''Ast_Parameter''
      else if kind = Ast_Lvalue then Inr ''Ast_Lvalue''
      else if kind = Ast_AssignmentStmt then Inr ''Ast_AssignmentStmt''
      else if kind = Ast_MethodCallStmt then Inr ''Ast_MethodCallStmt''
      else if kind = Ast_EmptyStmt then Inr ''Ast_EmptyStmt''
      else if kind = Ast_Default then Inr ''Ast_Default''
      else if kind = Ast_SelectExpr then Inr ''Ast_SelectExpr''
      else if kind = Ast_SelectCase then Inr ''Ast_SelectCase''
      else if kind = Ast_ParserState then Inr ''Ast_ParserState''
      else if kind = Ast_ControlType then Inr ''Ast_ControlType''
      else if kind = Ast_KeyElement then Inr ''Ast_KeyElement''
      else if kind = Ast_ActionRef then Inr ''Ast_ActionRef''
      else if kind = Ast_TableEntry then Inr ''Ast_TableEntry''
      else if kind = Ast_TableProp_Key then Inr ''Ast_TableProp_Key''
      else if kind = Ast_TableProp_Actions then Inr ''Ast_TableProp_Actions''
      else if kind = Ast_TableProp_Entries then Inr ''Ast_TableProp_Entries''
      else if kind = Ast_TableProp_SingleEntry then Inr ''Ast_TableProp_SingleEntry''
      else if kind = Ast_TableDecl then Inr ''Ast_TableDecl''
      else if kind = Ast_IfStmt then Inr ''Ast_IfStmt''
      else if kind = Ast_ExitStmt then Inr ''Ast_ExitStmt''
      else if kind = Ast_ReturnStmt then Inr ''Ast_ReturnStmt''
      else if kind = Ast_SwitchLabel then Inr ''Ast_SwitchLabel''
      else if kind = Ast_SwitchCase then Inr ''Ast_SwitchCase''
      else if kind = Ast_SwitchStmt then Inr ''Ast_SwitchStmt''
      else if kind = Ast_BlockStmt then Inr ''Ast_BlockStmt''
      else if kind = Ast_ExpressionListExpr then Inr ''Ast_ExpressionListExpr''
      else if kind = Ast_CastExpr then Inr ''Ast_CastExpr''
      else if kind = Ast_UnaryExpr then Inr ''Ast_UnaryExpr''
      else if kind = Ast_BinaryExpr then Inr ''Ast_BinaryExpr''
      else if kind = Ast_KvPair then Inr ''Ast_KvPair''
      else if kind = Ast_MemberSelectExpr then Inr ''Ast_MemberSelectExpr''
      else if kind = Ast_IndexedArrayExpr then Inr ''Ast_IndexedArrayExpr''
      else if kind = Ast_FunctionCallExpr then Inr ''Ast_FunctionCallExpr''
      else if kind = Ast_TypeArgsExpr then Inr ''Ast_TypeArgsExpr''
      else if kind = Ast_P4Program then Inr ''Ast_P4Program''
      else if kind = Ast_TypeDecl then Inr ''Ast_TypeDecl''
      else Inl Assert_failed)"

text \<open>The assertion of the last branch holds for the one operator left.\<close>

definition expr_operator_to_string :: "ast_expr_operator \<Rightarrow> string" where
  "expr_operator_to_string op =
     (if op = AstExprOp_Add then ''AstExprOp_Add''
      else if op = AstExprOp_Sub then ''AstExprOp_Sub''
      else if op = AstExprOp_Mul then ''AstExprOp_Mul''
      else if op = AstExprOp_Div then ''AstExprOp_Div''
      else if op = AstExprOp_And then ''AstExprOp_And''
      else if op = AstExprOp_Or then ''AstExprOp_Or''
      else if op = AstExprOp_Equal then ''AstExprOp_Equal''
      else if op = AstExprOp_NotEqual then ''AstExprOp_NotEqual''
      else if op = AstExprOp_Less then ''AstExprOp_Less''
      else if op = AstExprOp_Greater then ''AstExprOp_Greater''
      else if op = AstExprOp_LessEqual then ''AstExprOp_LessEqual''
      else if op = AstExprOp_GreaterEqual then ''AstExprOp_GreaterEqual''
      else if op = AstExprOp_BitAnd then ''AstExprOp_BitAnd''
      else if op = AstExprOp_BitOr then ''AstExprOp_BitOr''
      else if op = AstExprOp_BitXor then ''AstExprOp_BitXor''
      else if op = AstExprOp_BitShiftLeft then ''AstExprOp_BitShiftLeft''
      else if op = AstExprOp_BitShiftRight then ''AstExprOp_BitShiftRight''
      else if op = AstExprOp_LogNot then ''AstExprOp_LogNot''
      else if op = AstExprOp_BitNot then ''AstExprOp_BitNot''
      else if op = AstExprOp_Minus then ''AstExprOp_Minus''
      else if op = AstExprOp_Mask then ''AstExprOp_Mask''
      else ''Ast_Op_None'')"

section \<open>printf\<close>

fun show_nat :: "nat \<Rightarrow> string" where
  "show_nat n = (if n < 10 then [''0123456789'' ! n] else show_nat (n div 10) @ [''0123456789'' ! (n mod 10)])"

declare show_nat.simps [simp del]

text \<open>\<open>%d\<close> of an \<open>int\<close>; a wider value is read through an \<open>int*\<close>, which takes its low 32 bits.\<close>

definition show_int :: "int \<Rightarrow> string" where
  "show_int i =
     (let v = sint (word_of_int i :: u32)
      in if v < 0 then CHR ''-'' # show_nat (nat (- v)) else show_nat (nat v))"

definition put :: "string \<Rightarrow> unit print" where
  "put s = modify (\<lambda>p. p\<lparr>printed := printed p @ s\<rparr>)"

definition indent_right :: "unit print" where
  "indent_right = bnd (gets tab_level) (\<lambda>n. put (replicate (nat (n * tab_size)) (CHR '' '')))"

definition ast_start :: "unit print" where
  "ast_start = bnd (put (''{'' @ [LF])) (\<lambda>_.
            modify (\<lambda>p. p\<lparr>tab_level := tab_level p + 1\<rparr>))"

definition ast_end :: "unit print" where
  "ast_end = bnd (modify (\<lambda>p. p\<lparr>tab_level := tab_level p - 1\<rparr>)) (\<lambda>_.
          put (''}'' @ [LF]))"

text \<open>\<open>print_prop\<close>: name, value and newline.\<close>

definition print_prop :: "string \<Rightarrow> string \<Rightarrow> unit print" where
  "print_prop name v = bnd indent_right (\<lambda>_.
                    bnd (put (name @ '': '')) (\<lambda>_.
                    bnd (put v) (\<lambda>_.
                    put [LF])))"

primrec id_list_string :: "ast list \<Rightarrow> string" where
  "id_list_string [] = []"
| "id_list_string (x # xs) =
     CHR ''$'' # show_int (id_of x) @ (if xs \<noteq> [] then '', '' @ id_list_string xs else [])"

definition print_attr :: "attribute \<Rightarrow> unit print" where
  "print_attr attr =
     (case attr_type attr of
        AstAttr_Integer \<Rightarrow>
          (case attr_value attr of
             V_Integer i \<Rightarrow> print_prop (attr_name attr) (show_int i)
           | _ \<Rightarrow> fail Bad_access)
      | AstAttr_String \<Rightarrow>
          (case attr_value attr of
             V_String s \<Rightarrow> print_prop (attr_name attr) s
           | _ \<Rightarrow> fail Bad_access)
      | AstAttr_Ast \<Rightarrow>
          (case attr_value attr of
             V_Ast None \<Rightarrow> ret ()
           | V_Ast (Some x) \<Rightarrow> print_prop (attr_name attr) (CHR ''$'' # show_int (id_of x))
           | _ \<Rightarrow> fail Bad_access)
      | AstAttr_AstList \<Rightarrow>
          (case attr_value attr of
             V_AstList xs \<Rightarrow>
               print_prop (attr_name attr)
                 (''['' @ (case xs of None \<Rightarrow> [] | Some l \<Rightarrow> id_list_string l) @ '']'')
           | _ \<Rightarrow> fail Bad_access)
      | AstAttr_ExprOperator \<Rightarrow>
          (case attr_value attr of
             V_ExprOperator op \<Rightarrow> print_prop (attr_name attr) (expr_operator_to_string op)
           | _ \<Rightarrow> fail Bad_access)
      | AstAttr_NONE \<Rightarrow> ret ())"

primrec each :: "('a \<Rightarrow> unit print) \<Rightarrow> 'a list \<Rightarrow> unit print" where
  "each f [] = ret ()"
| "each f (x # xs) = bnd (f x) (\<lambda>_. each f xs)"

text \<open>The trees an attribute leads to, in the order in which they are printed.\<close>

definition attr_children :: "attribute \<Rightarrow> ast list result" where
  "attr_children attr =
     (case attr_type attr of
        AstAttr_Ast \<Rightarrow>
          (case attr_value attr of
             V_Ast r \<Rightarrow> Inr (case r of None \<Rightarrow> [] | Some x \<Rightarrow> [x])
           | _ \<Rightarrow> Inl Bad_access)
      | AstAttr_AstList \<Rightarrow>
          (case attr_value attr of
             V_AstList r \<Rightarrow> Inr (case r of None \<Rightarrow> [] | Some l \<Rightarrow> l)
           | _ \<Rightarrow> Inl Bad_access)
      | _ \<Rightarrow> Inr [])"

text \<open>\<open>print_ast\<close>, for a tree of depth at most \<open>n\<close>.\<close>

primrec print_ast_depth :: "nat \<Rightarrow> ast \<Rightarrow> unit print" where
  "print_ast_depth 0 ast = fail Out_of_fuel"
| "print_ast_depth (Suc n) ast =
     bnd ast_start (\<lambda>_.
     bnd (print_prop ''id'' (CHR ''$'' # show_int (id_of ast))) (\<lambda>_.
     bnd (lift (ast_kind_to_string (kind_of ast))) (\<lambda>kind.
     bnd (print_prop ''kind'' kind) (\<lambda>_.
     bnd (print_prop ''line_nr'' (show_int (line_of ast))) (\<lambda>_.
     bnd (lift (ast_attributes ast)) (\<lambda>attrs.
     bnd (each print_attr attrs) (\<lambda>_.
     bnd ast_end (\<lambda>_.
     each (\<lambda>attr. bnd (lift (attr_children attr)) (each (print_ast_depth n))) attrs))))))))"

definition print_ast :: "ast \<Rightarrow> string result" where
  "print_ast ast =
     (case print_ast_depth (Suc (size ast)) ast \<lparr>tab_level = 0, printed = []\<rparr> of
        Inl f \<Rightarrow> Inl f | Inr (_, p) \<Rightarrow> Inr (printed p))"

end
