(* ===== verification/Driver.thy ===== *)
theory Driver
  imports Lexer ParseProgram BuildSymtab PrintAst
begin

text \<open>
  ashp4c.c: the command line and \<open>main\<close>. The files are a function from names to contents
  (\<open>None\<close> where \<open>fopen\<close> fails, whose null stream is then used). The arenas are not modelled
  here, the debug output is left out; the result is what the process prints.
\<close>

record cmdline_arg =
  arg_name :: "string option"
  arg_value :: "string option"

text \<open>The list of the arguments after the program's name, in their order.\<close>

definition parse_cmdline_arg :: "string \<Rightarrow> cmdline_arg result" where
  "parse_cmdline_arg arg =
     bnd_r (cstr_start_with (cstring arg) 0 (cstring ''--'') 0) (\<lambda>named.
     Inr (if named then \<lparr>arg_name = Some (drop 2 arg), arg_value = None\<rparr>
          else \<lparr>arg_name = None, arg_value = Some arg\<rparr>))"

definition parse_cmdline_args :: "string list \<Rightarrow> cmdline_arg list result" where
  "parse_cmdline_args args = map_r parse_cmdline_arg (tl args)"

primrec find_unnamed_arg :: "cmdline_arg list \<Rightarrow> cmdline_arg option" where
  "find_unnamed_arg [] = None"
| "find_unnamed_arg (a # as) = (if arg_name a = None then Some a else find_unnamed_arg as)"

primrec find_named_arg :: "string \<Rightarrow> cmdline_arg list \<Rightarrow> cmdline_arg option result" where
  "find_named_arg name [] = Inr None"
| "find_named_arg name (a # as) =
     bnd_r (case arg_name a of
              None \<Rightarrow> Inr False
            | Some n \<Rightarrow> cstr_match (cstring name) 0 (cstring n) 0) (\<lambda>match.
     if match then Inr (Some a) else find_named_arg name as)"

definition run_cmd :: "('s, 'a) cmd \<Rightarrow> 's \<Rightarrow> ('a \<times> 's) result" where
  "run_cmd m s = m s"

text \<open>From the text of the file to the tree and the symbol table after parsing.\<close>

definition parse_tokens :: "int \<Rightarrow> token list \<Rightarrow> (ast \<times> parser) result" where
  "parse_tokens page ts =
     bnd_r (symtable_init (symtable_start page)) (\<lambda>(_, st).
     build_ast_program (parse_fuel ts) (init_parser ts st))"

definition compile :: "int \<Rightarrow> bool \<Rightarrow> string \<Rightarrow> (string \<times> symtable) result" where
  "compile page dump src =
     bnd_r (lex_tokenize src) (\<lambda>ts.
     bnd_r (parse_tokens page ts) (\<lambda>(ast_program, ps).
     if kind_of ast_program = Ast_P4Program then
       bnd_r (if dump then print_ast ast_program else Inr []) (\<lambda>out.
       bnd_r (symtable_flush (ps_symtable ps)) (\<lambda>(_, st).
       bnd_r (build_symtable_program ast_program st) (\<lambda>(_, st'). Inr (out, st'))))
     else Inl Assert_failed))"

definition main_program ::
  "int \<Rightarrow> (string \<Rightarrow> string option) \<Rightarrow> string list \<Rightarrow> (string \<times> symtable) result" where
  "main_program page files args =
     bnd_r (parse_cmdline_args args) (\<lambda>cmdline_args.
     case find_unnamed_arg cmdline_args of
       None \<Rightarrow> Inl (Error_exit 0 ''<filename> is required.'' [])
     | Some filename_arg \<Rightarrow>
         bnd_r (deref (arg_value filename_arg)) (\<lambda>filename.
         bnd_r (deref (files filename)) (\<lambda>src.
         bnd_r (find_named_arg ''print-ast'' cmdline_args) (\<lambda>dump.
         compile page (dump \<noteq> None) src))))"

end
