(* ===== verification/LexerProps.thy ===== *)
theory LexerProps
  imports Lexer
begin

text \<open>
  What the scanner does on every input. Each state of the machine is shown to keep the
  lexeme inside the text, to decrease a measure (so the loops of \<open>next_token\<close> and
  \<open>lex_tokenize\<close> stop within the fuel of the model), and to leave a token of the right
  class when it ends. From this: scanning always stops, never reads outside the text, and
  a successful scan is bracketed by the start and end tokens.
\<close>

section \<open>The invariant and the measure\<close>

definition lex_inv :: "lexer \<Rightarrow> bool" where
  "lex_inv s \<longleftrightarrow>
     length (lx_text s) = Suc (lx_text_size s) \<and> lx_text s ! lx_text_size s = NUL \<and>
     lx_start s \<le> lx_end s \<and> lx_end s \<le> lx_text_size s \<and> lx_tokens s \<noteq> [] \<and>
     lx_state s \<notin> {4, 201} \<and>
     (lx_state s = 2 \<longrightarrow> lx_text s ! lx_end s = NUL) \<and>
     (lx_state s \<in> {405, 406, 407, 408, 409} \<longrightarrow> klass (lx_token s) = Token_Integer)"

definition lex_rank :: "nat \<Rightarrow> nat" where
  "lex_rank st =
     (if st = 0 then 0 else if st = 1 then 5
      else if st \<in> {103, 116, 400, 405} then 3
      else if st \<in> {310, 311, 401, 500} then 2 else 1)"

definition lex_measure :: "lexer \<Rightarrow> nat" where
  "lex_measure s = 6 * (lx_text_size s - lx_end s) + lex_rank (lx_state s)"

text \<open>The failures a scan may end in: the program's own diagnostics, never a bad access.\<close>

definition lex_err :: "failure \<Rightarrow> bool" where
  "lex_err f \<longleftrightarrow> f = Assert_failed \<or> (\<exists>n msg arg. f = Error_exit n msg arg)"

text \<open>The classes of the tokens between the start token and the end token.\<close>

definition inner_class :: "token_class \<Rightarrow> bool" where
  "inner_class k \<longleftrightarrow>
     k \<notin> {Token_None, Token_StartOfInput, Token_EndOfInput, Token_LexicalError}"

definition lex_frame :: "lexer \<Rightarrow> lexer \<Rightarrow> bool" where
  "lex_frame s s' \<longleftrightarrow>
     lx_text s' = lx_text s \<and> lx_text_size s' = lx_text_size s \<and> lx_tokens s' = lx_tokens s \<and>
     lx_line_nr s \<le> lx_line_nr s' \<and> lx_end s \<le> lx_end s'"

definition token_done :: "lexer \<Rightarrow> lexer \<Rightarrow> bool" where
  "token_done s s' \<longleftrightarrow>
     (if klass (lx_token s') = Token_EndOfInput then lx_text s' ! lx_end s' = NUL
      else inner_class (klass (lx_token s')) \<and> lx_end s < lx_end s')"

definition step_post :: "lexer \<Rightarrow> lexer \<Rightarrow> bool" where
  "step_post s s' \<longleftrightarrow>
     lex_inv s' \<and> lex_frame s s' \<and> lex_measure s' < lex_measure s \<and>
     (lx_state s' = 0 \<longrightarrow> token_done s s')"

lemma lex_err_simps [simp]:
  "lex_err Assert_failed" "lex_err (Error_exit n m a)"
  "\<not> lex_err Bad_access" "\<not> lex_err Out_of_fuel" "\<not> lex_err Out_of_memory"
  by (auto simp: lex_err_def)

section \<open>The primitive moves\<close>

lemma wp_lex_raw [wp_simps]:
  "wp (char_lookahead p) Q E s \<longleftrightarrow>
     (if lx_end s + p \<le> lx_text_size s then
        (if lx_end s + p < length (lx_text s) then Q (lx_text s ! (lx_end s + p)) s
         else E Bad_access)
      else E Assert_failed)"
  "wp (char_advance p) Q E s \<longleftrightarrow>
     (if lx_end s + p \<le> lx_text_size s then
        (if lx_end s + p < length (lx_text s)
         then Q (lx_text s ! (lx_end s + p)) (s\<lparr>lx_end := lx_end s + p\<rparr>)
         else E Bad_access)
      else E Assert_failed)"
  "wp char_retract Q' E s \<longleftrightarrow>
     (if 0 < lx_end s then
        (if lx_end s - 1 < length (lx_text s)
         then Q' (lx_text s ! (lx_end s - 1)) (s\<lparr>lx_end := lx_end s - 1\<rparr>) else E Bad_access)
      else E Bad_access)"
  by (auto simp: char_lookahead_def char_advance_def char_retract_def wp_def lift_def rd_def)

lemma wp_lex_simple [wp_simps]:
  "wp (set_state n) Q E s \<longleftrightarrow> Q () (s\<lparr>lx_state := n\<rparr>)"
  "wp (upd_token f) Q E s \<longleftrightarrow> Q () (s\<lparr>lx_token := f (lx_token s)\<rparr>)"
  "wp (set_klass k) Q E s \<longleftrightarrow> Q () (s\<lparr>lx_token := (lx_token s)\<lparr>klass := k\<rparr>\<rparr>)"
  "wp inc_line_nr Q E s \<longleftrightarrow> Q () (s\<lparr>lx_line_nr := lx_line_nr s + 1\<rparr>)"
  "wp lexeme_advance Q E s \<longleftrightarrow>
     (if lx_end s + 1 \<le> lx_text_size s
      then Q () (s\<lparr>lx_end := lx_end s + 1, lx_start := lx_end s + 1\<rparr>) else E Assert_failed)"
  "wp set_lexeme1_here Q E s \<longleftrightarrow> Q () (s\<lparr>lx_start1 := lx_end s, lx_end1 := lx_end s\<rparr>)"
  "wp end_lexeme1_here Q E s \<longleftrightarrow> Q () (s\<lparr>lx_end1 := lx_end s\<rparr>)"
  by (simp_all add: set_state_def upd_token_def set_klass_def inc_line_nr_def
      lexeme_advance_def set_lexeme1_here_def end_lexeme1_here_def wp_simps)

text \<open>Copying a lexeme reads at most one byte past its end, and only after a backslash.\<close>

lemma copy_step_inside:
  assumes "length buf = Suc n" and "buf ! n = NUL" and "src \<le> n"
  shows "\<exists>c src'. copy_step buf src = Inr (c, src')"
proof -
  have "buf ! src = BACKSLASH \<Longrightarrow> src < n"
    using assms by (cases "src = n") auto
  then show ?thesis
    using assms by (auto simp: copy_step_def)
qed

lemma lexeme_copy_inside:
  "length buf = Suc n \<Longrightarrow> buf ! n = NUL \<Longrightarrow> e \<le> n \<Longrightarrow> src \<le> n \<Longrightarrow>
   \<exists>str. lexeme_copy buf src e dest = Inr str"
proof (induction buf src e dest rule: lexeme_copy.induct)
  case (1 buf src e dest)
  obtain c src' where step: "copy_step buf src = Inr (c, src')"
    using copy_step_inside [OF "1.prems"(1,2,4)] by blast
  show ?case
    using "1.IH" [OF step refl] "1.prems" step
    by (subst lexeme_copy.simps) auto
qed

text \<open>The string is never longer than the lexeme: the buffer of \<open>lexeme_len + 1\<close> bytes suffices.\<close>

lemma lexeme_copy_length:
  "src \<le> e \<Longrightarrow> lexeme_copy buf src e dest = Inr str \<Longrightarrow>
   length str \<le> length dest + (Suc e - src)"
proof (induction buf src e dest rule: lexeme_copy.induct)
  case (1 buf src e dest)
  from "1.prems"(2) obtain c src' where step: "copy_step buf src = Inr (c, src')"
    by (subst (asm) lexeme_copy.simps) (auto split: sum.splits)
  note src = copy_step_src [OF step]
  show ?case
  proof (cases "src' \<le> e")
    case True
    then have "lexeme_copy buf src' e (dest @ [c]) = Inr str"
      using "1.prems"(2) step by (subst (asm) lexeme_copy.simps) simp
    from "1.IH" [OF step refl True True this]
    have "length str \<le> Suc (length dest) + (Suc e - src')" by simp
    then show ?thesis using src True by linarith
  next
    case False
    then have "str = dest @ [c]"
      using "1.prems"(2) step by (subst (asm) lexeme_copy.simps) simp
    then show ?thesis using "1.prems"(1) by simp
  qed
qed

lemma wp_lexeme0:
  assumes "length (lx_text s) = Suc (lx_text_size s)" "lx_text s ! lx_text_size s = NUL"
    "lx_start s \<le> lx_text_size s" "lx_end s \<le> lx_text_size s"
    and "\<And>str. lexeme_to_cstring (lx_text s) (lx_start s) (lx_end s) = Inr str \<Longrightarrow> Q str s"
  shows "wp lexeme0_to_cstring Q E s"
  using lexeme_copy_inside [OF assms(1,2,4,3), of "[]"] assms(5)
  by (auto simp: lexeme0_to_cstring_def lexeme_to_cstring_def wp_def lift_def)

lemma wp_lexeme1:
  assumes "length (lx_text s) = Suc (lx_text_size s)" "lx_text s ! lx_text_size s = NUL"
    "lx_start1 s \<le> lx_text_size s" "lx_end1 s \<le> lx_text_size s"
    and "\<And>str. lexeme_to_cstring (lx_text s) (lx_start1 s) (lx_end1 s) = Inr str \<Longrightarrow> Q str s"
  shows "wp lexeme1_to_cstring Q E s"
  using lexeme_copy_inside [OF assms(1,2,4,3), of "[]"] assms(5)
  by (auto simp: lexeme1_to_cstring_def lexeme_to_cstring_def wp_def lift_def)

section \<open>The inner loops\<close>

text \<open>
  \<open>advance_while P\<close> stops at the first later character that is not \<open>P\<close>; it fails its
  assertion if the text ends first.
\<close>

lemma wp_advance_while:
  assumes len: "length (lx_text s) = Suc (lx_text_size s)"
    and Q: "\<And>k. 0 < k \<Longrightarrow> lx_end s + k \<le> lx_text_size s \<Longrightarrow>
      \<not> P (lx_text s ! (lx_end s + k)) \<Longrightarrow>
      (\<And>j. 0 < j \<Longrightarrow> j < k \<Longrightarrow> P (lx_text s ! (lx_end s + j))) \<Longrightarrow>
      Q (lx_text s ! (lx_end s + k)) (s\<lparr>lx_end := lx_end s + k\<rparr>)"
    and E: "E Assert_failed"
  shows "wp (advance_while P) Q E s"
proof -
  let ?I = "\<lambda>t. \<exists>k. t = s\<lparr>lx_end := lx_end s + k\<rparr> \<and> (k = 0 \<or> lx_end s + k \<le> lx_text_size s) \<and>
    (\<forall>j. 0 < j \<and> j \<le> k \<longrightarrow> P (lx_text s ! (lx_end s + j)))"
  have "wp (repeat_cmd (Suc (lx_text_size s))
      (bnd (char_advance 1) (\<lambda>c. ret (if P c then None else Some c)))) Q E s"
  proof (rule wp_repeat_cmd [where I = ?I and \<mu> = "\<lambda>t. lx_text_size s - lx_end t"])
    show "?I s" by (rule exI [of _ 0]) simp
    fix t assume "?I t"
    then obtain k where t: "t = s\<lparr>lx_end := lx_end s + k\<rparr>"
      and "k = 0 \<or> lx_end s + k \<le> lx_text_size s"
      and P: "\<forall>j. 0 < j \<and> j \<le> k \<longrightarrow> P (lx_text s ! (lx_end s + j))" by blast
    show "wp (bnd (char_advance 1) (\<lambda>c. ret (if P c then None else Some c)))
      (\<lambda>r t'. case r of None \<Rightarrow> ?I t' \<and> lx_text_size s - lx_end t' < lx_text_size s - lx_end t
        | Some x \<Rightarrow> Q x t') E t"
    proof (cases "P (lx_text s ! (lx_end s + Suc k))")
      case True
      have "lx_end s + Suc k \<le> lx_text_size s \<Longrightarrow> ?I (s\<lparr>lx_end := lx_end s + Suc k\<rparr>)"
        using P True by (intro exI [of _ "Suc k"]) (auto simp: le_Suc_eq)
      moreover have "lx_end s + Suc k \<le> lx_text_size s \<Longrightarrow>
          lx_text_size s - (lx_end s + Suc k) < lx_text_size s - (lx_end s + k)" by linarith
      ultimately show ?thesis using t len E True by (simp add: wp_simps)
    next
      case False
      then show ?thesis using t len E P Q [of "Suc k"] by (simp add: wp_simps)
    qed
  qed simp
  then show ?thesis by (simp add: advance_while_def wp_def)
qed

text \<open>The loops of states 200 and 310: the lexeme moves right, nothing but the state and line change.\<close>

definition loop_frame :: "lexer \<Rightarrow> lexer \<Rightarrow> bool" where
  "loop_frame s t \<longleftrightarrow>
     lx_text t = lx_text s \<and> lx_text_size t = lx_text_size s \<and> lx_tokens t = lx_tokens s \<and>
     lx_start t = lx_start s \<and> lx_token t = lx_token s \<and>
     lx_end s \<le> lx_end t \<and> lx_end t \<le> lx_text_size s \<and> lx_line_nr s \<le> lx_line_nr t"

lemma wp_scan_loop:
  assumes inv: "length (lx_text s) = Suc (lx_text_size s)" "lx_end s \<le> lx_text_size s"
    and body: "\<And>t. loop_frame s t \<Longrightarrow>
      wp body (\<lambda>r t'. loop_frame s t' \<and> lx_end t < lx_end t') E t"
    and Q: "\<And>t. loop_frame s t \<Longrightarrow> lx_end s < lx_end t \<Longrightarrow> Q () t"
  shows "wp (\<lambda>s. repeat_cmd (Suc (lx_text_size s)) body s) Q E s"
proof -
  have "wp (repeat_cmd (Suc (lx_text_size s)) body) Q E s"
  proof (rule wp_repeat_cmd [where I = "loop_frame s" and \<mu> = "\<lambda>t. lx_text_size s - lx_end t"])
    show "loop_frame s s" using inv by (simp add: loop_frame_def)
    fix t assume t: "loop_frame s t"
    show "wp body (\<lambda>r t'. case r of
        None \<Rightarrow> loop_frame s t' \<and> lx_text_size s - lx_end t' < lx_text_size s - lx_end t
      | Some x \<Rightarrow> Q x t') E t"
      by (rule wp_conseq [OF body [OF t]])
        (use t Q in \<open>auto simp: loop_frame_def diff_less_mono2 split: option.splits\<close>)
  qed (use inv in simp)
  then show ?thesis by (simp add: wp_def)
qed

lemma string_body_frame:
  "length (lx_text s) = Suc (lx_text_size s) \<Longrightarrow> loop_frame s t \<Longrightarrow>
   wp string_body (\<lambda>r t'. loop_frame s t' \<and> lx_end t < lx_end t') lex_err t"
  by (auto simp: string_body_def loop_frame_def wp_simps)

lemma comment_body_frame:
  "length (lx_text s) = Suc (lx_text_size s) \<Longrightarrow> loop_frame s t \<Longrightarrow>
   wp comment_body (\<lambda>r t'. loop_frame s t' \<and> lx_end t < lx_end t') lex_err t"
  by (auto simp: comment_body_def loop_frame_def wp_simps)

section \<open>The states\<close>

lemma wp_finish_token:
  assumes "length (lx_text s) = Suc (lx_text_size s)" "lx_text s ! lx_text_size s = NUL"
    "lx_start s \<le> lx_text_size s" "lx_end s \<le> lx_text_size s"
    and "\<And>str. lx_end s < lx_text_size s \<Longrightarrow>
      lexeme_to_cstring (lx_text s) (lx_start s) (lx_end s) = Inr str \<Longrightarrow>
      Q () (s\<lparr>lx_token := (lx_token s)\<lparr>lexeme := str\<rparr>, lx_end := lx_end s + 1,
              lx_start := lx_end s + 1, lx_state := 0\<rparr>)"
    and "E Assert_failed"
  shows "wp finish_token Q E s"
  unfolding finish_token_def wp_bnd
  by (rule wp_lexeme0) (use assms in \<open>auto simp: wp_simps\<close>)

text \<open>What \<open>finish_token\<close> needs to complete a step from \<open>s\<close> that has moved the lexeme to \<open>t\<close>.\<close>

definition ready :: "lexer \<Rightarrow> lexer \<Rightarrow> bool" where
  "ready s t \<longleftrightarrow>
     lx_text t = lx_text s \<and> lx_text_size t = lx_text_size s \<and> lx_tokens t = lx_tokens s \<and>
     lx_line_nr s \<le> lx_line_nr t \<and> lx_end s \<le> lx_end t \<and>
     lx_start t \<le> lx_end t \<and> lx_end t \<le> lx_text_size t"

lemma ready_refl: "lex_inv s \<Longrightarrow> ready s s"
  by (simp add: ready_def lex_inv_def)

lemma rank_le: "lex_rank st \<le> 5"
  by (simp add: lex_rank_def)

lemma measure_moves:
  "lx_text_size t = lx_text_size s \<Longrightarrow> lx_end s < lx_end t \<Longrightarrow> lx_end t \<le> lx_text_size s \<Longrightarrow>
   lex_measure t < lex_measure s"
proof -
  assume a: "lx_text_size t = lx_text_size s" "lx_end s < lx_end t" "lx_end t \<le> lx_text_size s"
  then have "lx_text_size t - lx_end t + 1 \<le> lx_text_size s - lx_end s" by linarith
  then have "6 * (lx_text_size t - lx_end t) + 6 \<le> 6 * (lx_text_size s - lx_end s)" by linarith
  then show ?thesis
    using rank_le [of "lx_state t"] unfolding lex_measure_def by linarith
qed

lemma measure_stays:
  "lx_text_size t = lx_text_size s \<Longrightarrow> lx_end s = lx_end t \<Longrightarrow>
   lex_rank (lx_state t) < lex_rank (lx_state s) \<Longrightarrow> lex_measure t < lex_measure s"
  by (simp add: lex_measure_def)

lemma finish_token_post:
  assumes "lex_inv s" "ready s t" "inner_class (klass (lx_token t))"
  shows "wp finish_token (\<lambda>_. step_post s) lex_err t"
proof (rule wp_finish_token)
  fix str
  let ?t = "t\<lparr>lx_token := (lx_token t)\<lparr>lexeme := str\<rparr>, lx_end := lx_end t + 1,
    lx_start := lx_end t + 1, lx_state := 0\<rparr>"
  assume "lx_end t < lx_text_size t"
  with assms show "step_post s ?t"
    using measure_moves [of ?t s]
    by (auto simp: step_post_def lex_inv_def ready_def lex_frame_def token_done_def
        inner_class_def)
qed (use assms in \<open>auto simp: lex_inv_def ready_def\<close>)

lemma emit_post:
  assumes "lex_inv s" "ready s t" "inner_class k"
  shows "wp (emit k) (\<lambda>_. step_post s) lex_err t"
  unfolding emit_def wp_bnd wp_lex_simple
  by (rule finish_token_post) (use assms in \<open>simp_all add: ready_def\<close>)

text \<open>A step that leaves the machine running in another state.\<close>

lemma goto_post:
  assumes "lex_inv s" "ready s t" "lx_state t \<notin> {0, 4, 201}"
    "lx_state t \<in> {405, 406, 407, 408, 409} \<Longrightarrow> klass (lx_token t) = Token_Integer"
    "lx_end s = lx_end t \<Longrightarrow> lex_rank (lx_state t) < lex_rank (lx_state s)"
    "lx_state t = 2 \<Longrightarrow> lx_text t ! lx_end t = NUL"
  shows "step_post s t"
proof -
  have "lex_measure t < lex_measure s"
    using assms measure_moves [of t s] measure_stays [of t s]
    by (cases "lx_end s = lx_end t") (auto simp: ready_def)
  with assms show ?thesis
    by (auto simp: step_post_def lex_inv_def ready_def lex_frame_def)
qed

lemma step_end_of_input:
  assumes "lex_inv s" "ready s t" "lx_end t = lx_end s" "lx_text s ! lx_end s = NUL"
    "klass (lx_token t) = Token_EndOfInput" "lx_state t = 0" "lx_state s \<noteq> 0"
  shows "step_post s t"
proof -
  have "lex_measure t < lex_measure s"
    using assms by (intro measure_stays) (auto simp: ready_def lex_rank_def)
  with assms show ?thesis
    by (auto simp: step_post_def lex_inv_def ready_def lex_frame_def token_done_def)
qed

lemmas post_intros = finish_token_post emit_post goto_post

text \<open>State 1 either skips white space or picks a state of lower rank.\<close>

lemma start_state_range:
  "start_state c \<notin> {0, 1, 4, 201, 405, 406, 407, 408, 409}"
  "lex_rank (start_state c) < 5"
  "start_state c = 2 \<Longrightarrow> c = NUL"
  by (auto simp: start_state_def lex_rank_def split: if_splits)

text \<open>The facts about the text that the reads of a step use.\<close>

lemma lex_inv_text:
  "lex_inv s \<Longrightarrow> length (lx_text s) = Suc (lx_text_size s) \<and>
     lx_text s ! lx_text_size s = NUL \<and> lx_start s \<le> lx_end s \<and>
     lx_end s \<le> lx_text_size s \<and> lx_tokens s \<noteq> []"
  by (simp add: lex_inv_def)

lemma state_1_post:
  assumes inv: "lex_inv s" and st: "lx_state s = 1" and c: "c = lx_text s ! lx_end s"
  shows "wp (state_1 c) (\<lambda>_. step_post s) lex_err s"
proof -
  have "step_post s (s\<lparr>lx_state := start_state c\<rparr>)"
    by (rule goto_post) (use inv st c ready_refl [OF inv] start_state_range [of c] in
      \<open>auto simp: ready_def lex_rank_def split: if_splits\<close>)
  then show ?thesis
    using lex_inv_text [OF inv]
    by (auto simp: state_1_def wp_simps ready_def intro!: goto_post [OF inv])
qed

lemma state_2_post:
  "lex_inv s \<Longrightarrow> lx_state s = 2 \<Longrightarrow> wp state_2 (\<lambda>_. step_post s) lex_err s"
  by (auto simp: state_2_def wp_simps ready_def lex_inv_def intro!: step_end_of_input)

lemma state_3_post:
  assumes inv: "lex_inv s"
  shows "wp state_3 (\<lambda>_. step_post s) lex_err s"
proof -
  have "step_post s t" if "ready s t" "lx_end s < lx_end t" "klass (lx_token t) = Token_Unknown"
    "lx_state t = 0" for t
    using inv that measure_moves [of t s]
    by (auto simp: step_post_def lex_inv_def ready_def lex_frame_def token_done_def
        inner_class_def)
  then show ?thesis
    using lex_inv_text [OF inv] by (auto simp: state_3_def wp_simps ready_def)
qed

text \<open>The states that look one or two characters ahead.\<close>

lemma ready_moved [simp]:
  "lex_inv s \<Longrightarrow> lx_end s + n \<le> lx_text_size s \<Longrightarrow> ready s (s\<lparr>lx_end := lx_end s + n\<rparr>)"
  "ready s (t\<lparr>lx_token := tok\<rparr>) = ready s t"
  "ready s (t\<lparr>lx_state := st\<rparr>) = ready s t"
  "ready s (t\<lparr>lx_start1 := i\<rparr>) = ready s t"
  "ready s (t\<lparr>lx_end1 := i\<rparr>) = ready s t"
  by (simp_all add: ready_def lex_inv_def)

lemma emit_moved:
  assumes "lex_inv s" and "lx_end s + n \<le> lx_text_size s" and "inner_class k"
  shows "wp (emit k) (\<lambda>_. step_post s) lex_err (s\<lparr>lx_end := lx_end s + n\<rparr>)"
    and "wp finish_token (\<lambda>_. step_post s) lex_err
           (s\<lparr>lx_end := lx_end s + n, lx_token := (lx_token s)\<lparr>klass := k\<rparr>\<rparr>)"
    and "wp finish_token (\<lambda>_. step_post s) lex_err
           (s\<lparr>lx_token := (lx_token s)\<lparr>klass := k\<rparr>\<rparr>)"
proof -
  note inv = \<open>lex_inv s\<close>
  show "wp (emit k) (\<lambda>_. step_post s) lex_err (s\<lparr>lx_end := lx_end s + n\<rparr>)"
    by (rule emit_post [OF inv]) (use assms in simp_all)
  show "wp finish_token (\<lambda>_. step_post s) lex_err
           (s\<lparr>lx_end := lx_end s + n, lx_token := (lx_token s)\<lparr>klass := k\<rparr>\<rparr>)"
    by (rule finish_token_post [OF inv]) (use assms in simp_all)
  show "wp finish_token (\<lambda>_. step_post s) lex_err
           (s\<lparr>lx_token := (lx_token s)\<lparr>klass := k\<rparr>\<rparr>)"
    by (rule finish_token_post [OF inv]) (use assms ready_refl [OF inv] in simp_all)
qed

lemma inner_classes [simp]:
  "inner_class Token_AngleOpenEqual" "inner_class Token_TwoAngleOpen"
  "inner_class Token_AngleOpen" "inner_class Token_AngleCloseEqual"
  "inner_class Token_TwoAngleClose" "inner_class Token_AngleClose"
  "inner_class Token_UnaryMinus" "inner_class Token_Minus" "inner_class Token_ThreeAmpersand"
  "inner_class Token_TwoAmpersand" "inner_class Token_Ampersand" "inner_class Token_Dontcare"
  "inner_class Token_Slash" "inner_class Token_StringLiteral" "inner_class Token_Comment"
  "inner_class Token_Identifier" "inner_class Token_Integer"
  "inner_class Token_TwoEqual" "inner_class Token_Equal" "inner_class Token_ExclamationEqual"
  "inner_class Token_Exclamation" "inner_class Token_TwoPipe" "inner_class Token_Pipe"
  "inner_class Token_Semicolon" "inner_class Token_Colon" "inner_class Token_ParenthOpen"
  "inner_class Token_ParenthClose" "inner_class Token_DotPrefix" "inner_class Token_BraceOpen"
  "inner_class Token_BraceClose" "inner_class Token_BracketOpen" "inner_class Token_BracketClose"
  "inner_class Token_Comma" "inner_class Token_Plus" "inner_class Token_Star"
  "inner_class Token_Circumflex" "inner_class Token_Tilda"
  by (simp_all add: inner_class_def)

lemma state_101_post:
  assumes inv: "lex_inv s"
  shows "wp state_101 (\<lambda>_. step_post s) lex_err s"
  using lex_inv_text [OF inv] emit_moved [OF inv, of 1]
  by (simp add: state_101_def wp_simps)

lemma state_102_post:
  assumes inv: "lex_inv s"
  shows "wp state_102 (\<lambda>_. step_post s) lex_err s"
  using lex_inv_text [OF inv] emit_moved [OF inv, of 1]
  by (simp add: state_102_def wp_simps)

lemma state_113_post:
  assumes inv: "lex_inv s"
  shows "wp state_113 (\<lambda>_. step_post s) lex_err s"
  using lex_inv_text [OF inv] emit_moved [OF inv, of 0]
  by (simp add: state_113_def wp_simps)

lemma state_119_post:
  assumes inv: "lex_inv s"
  shows "wp state_119 (\<lambda>_. step_post s) lex_err s"
proof -
  have t: "length (lx_text s) = Suc (lx_text_size s)" "lx_end s \<le> lx_text_size s"
    using lex_inv_text [OF inv] by simp_all
  show ?thesis
    unfolding state_119_def wp_bnd wp_lex_raw wp_if wp_lex_simple wp_ret
    using t emit_moved [OF inv, of "Suc 0"] emit_moved [OF inv, of "Suc (Suc 0)"]
    by (simp only: Suc_eq_plus1 [symmetric] if_split_eq1) auto
qed

lemma state_two_post:
  assumes inv: "lex_inv s" and "inner_class long" and "inner_class short"
  shows "wp (state_two x long short) (\<lambda>_. step_post s) lex_err s"
  using assms(2,3) lex_inv_text [OF inv] emit_moved [OF inv, of 1] emit_moved [OF inv, of 0]
  by (simp add: state_two_def wp_simps)

text \<open>A move to another state, with the lexeme moved right by \<open>n\<close>.\<close>

lemma set_state_moved:
  assumes "lex_inv s" and "lx_end s + n \<le> lx_text_size s"
    and "st \<notin> {0, 2, 4, 201, 405, 406, 407, 408, 409}"
    and "n = 0 \<Longrightarrow> lex_rank st < lex_rank (lx_state s)"
  shows "step_post s (s\<lparr>lx_end := lx_end s + n, lx_state := st\<rparr>)"
  by (rule goto_post [OF assms(1)]) (use assms in simp_all)

lemma set_radix_moved:
  assumes "lex_inv s" and "lx_end s + n \<le> lx_text_size s"
    and "st \<in> {405, 406, 407, 408, 409}" and "klass (lx_token s) = Token_Integer"
    and "n = 0 \<Longrightarrow> lex_rank st < lex_rank (lx_state s)"
  shows "step_post s (s\<lparr>lx_end := lx_end s + n, lx_state := st\<rparr>)"
proof (rule goto_post [OF assms(1)])
qed (use assms in auto)

lemma state_103_post:
  assumes inv: "lex_inv s" and st: "lx_state s = 103"
  shows "wp state_103 (\<lambda>_. step_post s) lex_err s"
  using lex_inv_text [OF inv] emit_moved [OF inv, of 0] set_state_moved [OF inv, of 0 500] st
  by (simp add: state_103_def wp_simps lex_rank_def)

lemma state_116_post:
  assumes inv: "lex_inv s" and st: "lx_state s = 116"
  shows "wp state_116 (\<lambda>_. step_post s) lex_err s"
  using lex_inv_text [OF inv] emit_moved [OF inv, of 0] st
    set_state_moved [OF inv, of 0 311] set_state_moved [OF inv, of 1 310]
  by (simp add: state_116_def wp_simps lex_rank_def)

text \<open>The states with a loop.\<close>

lemma ready_loop:
  "lex_inv s \<Longrightarrow> loop_frame s t \<Longrightarrow> ready s t"
  by (auto simp: loop_frame_def ready_def lex_inv_def)

lemma state_200_post:
  assumes inv: "lex_inv s"
  shows "wp state_200 (\<lambda>_. step_post s) lex_err s"
  unfolding state_200_def wp_bnd
proof (rule wp_scan_loop)
  fix t assume t: "loop_frame s t"
  show "wp string_body (\<lambda>r t'. loop_frame s t' \<and> lx_end t < lx_end t') lex_err t"
    using lex_inv_text [OF inv] t by (intro string_body_frame) auto
  show "wp (emit Token_StringLiteral) (\<lambda>_. step_post s) lex_err t"
    using inv t by (intro emit_post ready_loop) simp_all
qed (use lex_inv_text [OF inv] in auto)

lemma state_310_post:
  assumes inv: "lex_inv s"
  shows "wp state_310 (\<lambda>_. step_post s) lex_err s"
  unfolding state_310_def wp_bnd
proof (rule wp_scan_loop)
  fix t assume t: "loop_frame s t"
  show "wp comment_body (\<lambda>r t'. loop_frame s t' \<and> lx_end t < lx_end t') lex_err t"
    using lex_inv_text [OF inv] t by (intro comment_body_frame) auto
  assume moved: "lx_end s < lx_end t"
  have "wp (emit Token_Comment) (\<lambda>_. step_post s) lex_err (t\<lparr>lx_end := lx_end t + 1\<rparr>)"
    if "lx_end t + 1 \<le> lx_text_size t"
    using inv ready_loop [OF inv t] that by (intro emit_post) (auto simp: ready_def)
  moreover have "step_post s (t\<lparr>lx_state := 310\<rparr>)"
    using inv ready_loop [OF inv t] moved by (intro goto_post) (auto simp: ready_def)
  ultimately show "wp (char_lookahead 1) (\<lambda>x. wp (if x = CHR ''/''
      then bnd (char_advance 1) (\<lambda>_. emit Token_Comment) else set_state 310)
      (\<lambda>_. step_post s) lex_err) lex_err t"
    unfolding wp_if wp_bnd wp_lex_raw wp_lex_simple
    using lex_inv_text [OF inv] t by (auto simp: loop_frame_def)
qed (use lex_inv_text [OF inv] in auto)

lemma state_311_post:
  assumes inv: "lex_inv s"
  shows "wp state_311 (\<lambda>_. step_post s) lex_err s"
  unfolding state_311_def wp_bnd
proof (rule wp_advance_while)
  fix k :: nat assume k: "0 < k" "lx_end s + k \<le> lx_text_size s"
  let ?t = "s\<lparr>lx_end := lx_end s + k, lx_line_nr := lx_line_nr s + 1\<rparr>"
  have "wp (emit Token_Comment) (\<lambda>_. step_post s) lex_err ?t"
    using inv k by (intro emit_post) (auto simp: ready_def lex_inv_def)
  then show "wp inc_line_nr (\<lambda>x. wp (emit Token_Comment) (\<lambda>_. step_post s) lex_err) lex_err
      (s\<lparr>lx_end := lx_end s + k\<rparr>)"
    by (simp add: wp_lex_simple)
qed (use lex_inv_text [OF inv] in auto)

lemma state_500_post:
  assumes inv: "lex_inv s"
  shows "wp state_500 (\<lambda>_. step_post s) lex_err s"
  unfolding state_500_def wp_bnd
proof (rule wp_advance_while)
  fix k :: nat assume k: "0 < k" "lx_end s + k \<le> lx_text_size s"
  let ?t = "s\<lparr>lx_end := lx_end s + (k - 1)\<rparr>"
  have "wp (emit Token_Identifier) (\<lambda>_. step_post s) lex_err ?t"
    using inv k by (intro emit_moved) auto
  then show "wp char_retract (\<lambda>x. wp (emit Token_Identifier) (\<lambda>_. step_post s) lex_err) lex_err
      (s\<lparr>lx_end := lx_end s + k\<rparr>)"
    using lex_inv_text [OF inv] k by (simp add: wp_lex_raw)
qed (use lex_inv_text [OF inv] in auto)

section \<open>Installing an integer\<close>

lemma digit_to_integer_ok:
  "cstr_is_digit c base = Inr True \<Longrightarrow> valid_base base \<Longrightarrow> \<exists>d. digit_to_integer c base = Inr d"
  by (auto simp: cstr_is_digit_def digit_to_integer_def valid_base_def split: if_splits)

lemma parse_digits_fails:
  "valid_base base \<Longrightarrow> parse_digits str base acc = Inl f \<Longrightarrow> f = Assert_failed"
proof (induction str base acc rule: parse_digits.induct)
  case (2 c str base acc)
  obtain b where b: "cstr_is_digit c base = Inr b" using cstr_is_digit_total [OF "2.prems"(1)] by blast
  show ?case
  proof (cases b)
    case True
    then obtain d where "digit_to_integer c base = Inr d"
      using digit_to_integer_ok [of c base] b "2.prems"(1) by auto
    then show ?thesis using "2.IH"(1) [of b d] b True "2.prems" by simp
  next
    case False
    then show ?thesis using "2.IH"(2) [of b] b "2.prems" by (simp split: if_splits)
  qed
qed simp

lemma parse_integer_fails:
  assumes base: "valid_base base" and f: "parse_integer str base = Inl f"
  shows "f = Assert_failed"
proof -
  let ?c = "case str of [] \<Rightarrow> NUL | c # _ \<Rightarrow> c"
  obtain b where b: "cstr_is_digit ?c base = Inr b" using cstr_is_digit_total [OF base] by blast
  have "?c \<noteq> CHR ''_'' \<Longrightarrow> b \<Longrightarrow> \<exists>d. digit_to_integer ?c base = Inr d"
    using digit_to_integer_ok [of ?c base] b base by auto
  then show ?thesis
    using f b parse_digits_fails [OF base]
    by (auto simp: parse_integer_def Let_def bnd_r_def split: if_splits sum.splits)
qed

lemma wp_install:
  assumes "length (lx_text t) = Suc (lx_text_size t)" "lx_text t ! lx_text_size t = NUL"
    "lx_start1 t \<le> lx_text_size t" "lx_end1 t \<le> lx_text_size t" "valid_base base"
    and Q: "\<And>v. Q () (t\<lparr>lx_token := (lx_token t)\<lparr>i_value := v\<rparr>\<rparr>)"
  shows "wp (token_install_integer base) Q lex_err t"
  unfolding token_install_integer_def wp_bnd
proof (rule wp_lexeme1)
  fix str
  let ?c = "case str of [] \<Rightarrow> NUL | c # _ \<Rightarrow> c"
  obtain b where "cstr_is_digit ?c base = Inr b" using cstr_is_digit_total [OF assms(5)] by blast
  then show "wp (lift (cstr_is_digit ?c base)) (\<lambda>x. wp (if x \<or> ?c = CHR ''_''
      then bnd (lift (parse_integer str base)) (\<lambda>v. upd_token (\<lambda>t. t\<lparr>i_value := v\<rparr>))
      else bnd (gets lx_token) (\<lambda>t. fail (Error_exit (tk_line_nr t) (digits_message base) str)))
      Q lex_err) lex_err t"
    using parse_integer_fails [OF assms(5), of str] Q
    by (simp add: wp_simps split: sum.splits) (metis lex_err_simps(1))
qed (use assms in auto)

section \<open>The integer states\<close>

text \<open>The state reached by \<open>scan_digits\<close>: the digits from the current index to \<open>lx_end\<close>.\<close>

lemma wp_scan_digits:
  assumes inv: "lex_inv s"
    and Q: "\<And>k. lx_end s + k < lx_text_size s \<Longrightarrow>
      Q () (s\<lparr>lx_start1 := lx_end s, lx_end := lx_end s + k, lx_end1 := lx_end s + k\<rparr>)"
    and E: "E Assert_failed"
  shows "wp (scan_digits base us) Q E s"
  unfolding scan_digits_def wp_bnd wp_lex_simple
proof (rule wp_advance_while)
  fix k :: nat
  let ?s = "s\<lparr>lx_start1 := lx_end s, lx_end1 := lx_end s\<rparr>"
  assume k: "0 < k" "lx_end ?s + k \<le> lx_text_size ?s"
  have "lx_end s + k - Suc 0 = lx_end s + (k - 1)" using k by simp
  then show "wp char_retract (\<lambda>x s. Q () (s\<lparr>lx_end1 := lx_end s\<rparr>)) E (?s\<lparr>lx_end := lx_end ?s + k\<rparr>)"
    using lex_inv_text [OF inv] k Q [of "k - 1"] by (auto simp: wp_lex_raw)
qed (use lex_inv_text [OF inv] E in auto)

lemma install_finish_post:
  assumes inv: "lex_inv s" and t: "ready s t" "klass (lx_token t) = Token_Integer"
    and ix: "lx_start1 t \<le> lx_text_size t" "lx_end1 t \<le> lx_text_size t" "valid_base base"
  shows "wp (token_install_integer base) (\<lambda>_. wp finish_token (\<lambda>_. step_post s) lex_err) lex_err t"
proof (rule wp_install)
  fix v
  show "wp finish_token (\<lambda>_. step_post s) lex_err (t\<lparr>lx_token := (lx_token t)\<lparr>i_value := v\<rparr>\<rparr>)"
    using inv t by (intro finish_token_post) simp_all
qed (use lex_inv_text [OF inv] t ix in \<open>auto simp: ready_def\<close>)

lemma state_radix_post:
  assumes inv: "lex_inv s" and base: "valid_base base"
  shows "wp (state_radix base) (\<lambda>_. step_post s) lex_err s"
  unfolding state_radix_def wp_bnd
proof (rule wp_scan_digits [OF inv])
  fix k assume k: "lx_end s + k < lx_text_size s"
  show "wp (set_klass Token_Integer) (\<lambda>x. wp (upd_token (or_flags AstInteger_IsSigned))
      (\<lambda>x. wp (token_install_integer base) (\<lambda>x. wp finish_token (\<lambda>_. step_post s) lex_err) lex_err)
      lex_err) lex_err (s\<lparr>lx_start1 := lx_end s, lx_end := lx_end s + k, lx_end1 := lx_end s + k\<rparr>)"
    unfolding wp_lex_simple
    by (rule install_finish_post [OF inv])
      (use k base lex_inv_text [OF inv] in \<open>simp_all add: ready_def or_flags_def\<close>)
qed simp

lemma state_sized_post:
  assumes inv: "lex_inv s" and base: "valid_base base" and tk: "klass (lx_token s) = Token_Integer"
  shows "wp (state_sized base us) (\<lambda>_. step_post s) lex_err s"
  unfolding state_sized_def wp_bnd
proof (rule wp_scan_digits [OF inv])
  fix k assume k: "lx_end s + k < lx_text_size s"
  show "wp (token_install_integer base) (\<lambda>x. wp finish_token (\<lambda>_. step_post s) lex_err) lex_err
      (s\<lparr>lx_start1 := lx_end s, lx_end := lx_end s + k, lx_end1 := lx_end s + k\<rparr>)"
    by (rule install_finish_post [OF inv])
      (use k base tk lex_inv_text [OF inv] in \<open>simp_all add: ready_def\<close>)
qed simp

lemma radix_state_post:
  assumes inv: "lex_inv s" and st: "lx_state s = st"
    and tgt: "st = 400 \<and> hex = 402 \<and> oct = 403 \<and> bin = 404 \<and> dec = 401 \<or>
      st = 405 \<and> hex = 406 \<and> oct = 407 \<and> bin = 408 \<and> dec = 409"
  shows "wp (radix_state c hex oct bin dec) (\<lambda>_. step_post s) lex_err s"
proof -
  have int: "klass (lx_token s) = Token_Integer" if "st = 405"
    using inv st that by (simp add: lex_inv_def)
  have "step_post s (s\<lparr>lx_state := dec\<rparr>)"
  proof (rule goto_post [OF inv])
    show "ready s (s\<lparr>lx_state := dec\<rparr>)" using ready_refl [OF inv] by simp
    show "klass (lx_token (s\<lparr>lx_state := dec\<rparr>)) = Token_Integer"
      if "lx_state (s\<lparr>lx_state := dec\<rparr>) \<in> {405, 406, 407, 408, 409}"
      using that tgt int by auto
    show "lex_rank (lx_state (s\<lparr>lx_state := dec\<rparr>)) < lex_rank (lx_state s)"
      using tgt st by (auto simp: lex_rank_def)
  qed (use tgt in auto)
  moreover have moved: "wp (bnd (set_state n) (\<lambda>_. bnd (char_advance 2) (\<lambda>_. ret ())))
      (\<lambda>_. step_post s) lex_err s" if n: "n \<in> {hex, oct, bin}" for n
  proof -
    have "step_post s (s\<lparr>lx_state := n, lx_end := lx_end s + 2\<rparr>)"
      if "lx_end s + 2 \<le> lx_text_size s"
    proof (rule goto_post [OF inv])
      show "ready s (s\<lparr>lx_state := n, lx_end := lx_end s + 2\<rparr>)"
        using lex_inv_text [OF inv] that by (simp add: ready_def)
      show "klass (lx_token (s\<lparr>lx_state := n, lx_end := lx_end s + 2\<rparr>)) = Token_Integer"
        if "lx_state (s\<lparr>lx_state := n, lx_end := lx_end s + 2\<rparr>) \<in> {405, 406, 407, 408, 409}"
        using that n tgt int by auto
    qed (use n tgt in auto)
    then show ?thesis using lex_inv_text [OF inv] by (auto simp: wp_simps)
  qed
  have "wp (bnd (set_state hex) (\<lambda>_. bnd (char_advance 2) (\<lambda>_. ret ()))) (\<lambda>_. step_post s) lex_err s"
    "wp (bnd (set_state oct) (\<lambda>_. bnd (char_advance 2) (\<lambda>_. ret ()))) (\<lambda>_. step_post s) lex_err s"
    "wp (bnd (set_state bin) (\<lambda>_. bnd (char_advance 2) (\<lambda>_. ret ()))) (\<lambda>_. step_post s) lex_err s"
    by (rule moved; simp)+
  ultimately show ?thesis
    unfolding radix_state_def wp_if wp_bnd [of "char_lookahead 1"] wp_lex_raw wp_lex_simple(1)
    using lex_inv_text [OF inv] by (cases "lx_end s + 1 \<le> lx_text_size s") simp_all
qed

text \<open>State 401: a plain decimal literal, or the width of a sized one.\<close>

lemma width_post:
  assumes inv: "lex_inv s" and k: "0 < k" "lx_end s + k \<le> lx_text_size s"
    and t: "ready s t" "klass (lx_token t) = Token_Integer" "lx_end t = lx_end s + k"
      "lx_start1 t = lx_end s"
  shows "wp (bnd (modify (\<lambda>s. s\<lparr>lx_end1 := lx_end s - 1\<rparr>)) (\<lambda>_.
    bnd lexeme1_to_cstring (\<lambda>str.
    bnd (lift (parse_integer str 10)) (\<lambda>w.
    bnd (upd_token (\<lambda>t. t\<lparr>i_width := w\<rparr>)) (\<lambda>_.
    bnd (char_advance 1) (\<lambda>_. set_state 405)))))) (\<lambda>_. step_post s) lex_err t"
  unfolding wp_bnd wp_modify
proof (rule wp_lexeme1)
  fix str
  let ?t = "t\<lparr>lx_end1 := lx_end t - 1\<rparr>"
  have "step_post s (?t\<lparr>lx_token := (lx_token t)\<lparr>i_width := w\<rparr>, lx_end := Suc (lx_end t),
      lx_state := 405\<rparr>)" if "Suc (lx_end t) \<le> lx_text_size t" for w
    by (rule goto_post [OF inv]) (use that t k in \<open>auto simp: ready_def\<close>)
  then show "wp (lift (parse_integer str 10)) (\<lambda>x. wp (upd_token (i_width_update (\<lambda>_. x)))
      (\<lambda>x. wp (char_advance 1) (\<lambda>x. wp (set_state 405) (\<lambda>_. step_post s) lex_err) lex_err) lex_err)
      lex_err ?t"
    using lex_inv_text [OF inv] t parse_integer_fails [of 10 str]
    by (auto simp: wp_simps ready_def valid_base_def split: sum.splits)
qed (use lex_inv_text [OF inv] k t in \<open>auto simp: ready_def\<close>)

lemma state_401_post:
  assumes inv: "lex_inv s"
  shows "wp state_401 (\<lambda>_. step_post s) lex_err s"
  unfolding state_401_def wp_bnd [of set_lexeme1_here] wp_bnd [of "advance_while P" for P]
    wp_lex_simple(6)
proof (rule wp_advance_while, goal_cases)
  case (2 k)
  let ?s = "s\<lparr>lx_start1 := lx_end s, lx_end1 := lx_end s\<rparr>"
  let ?r = "s\<lparr>lx_start1 := lx_end s, lx_end := lx_end s + (k - 1), lx_end1 := lx_end s + (k - 1)\<rparr>"
  have k: "0 < k" "lx_end s + k \<le> lx_text_size s" "lx_end s + k - Suc 0 = lx_end s + (k - 1)"
    using 2 by simp_all
  have plain: "wp (token_install_integer 10) (\<lambda>_. wp finish_token (\<lambda>_. step_post s) lex_err) lex_err
      (?r\<lparr>lx_token := or_flags AstInteger_IsSigned ((lx_token s)\<lparr>klass := Token_Integer\<rparr>)\<rparr>)"
    by (rule install_finish_post [OF inv])
      (use k lex_inv_text [OF inv] in \<open>auto simp: ready_def or_flags_def valid_base_def\<close>)
  have sized: "ready s (?s\<lparr>lx_end := lx_end s + k, lx_token := tok\<rparr>)" for tok
    using k lex_inv_text [OF inv] by (simp add: ready_def)
  have len: "length (lx_text s) = Suc (lx_text_size s)" using lex_inv_text [OF inv] by simp
  note wide = width_post [OF inv k(1,2) sized]
  let ?c = "lx_text s ! (lx_end s + k)"
  show ?case
  proof (cases "?c = CHR ''w'' \<or> ?c = CHR ''s''")
    case True
    then show ?thesis
      by (simp add: wp_bnd [of "set_klass K" for K] wp_bnd [of "upd_token F" for F]
          wp_bnd [of "if b then upd_token F else ret ()" for b F] wp_lex_simple wp_ret
          or_flags_def del: One_nat_def)
        (intro conjI impI; rule wide; simp (no_asm))
  next
    case False
    then show ?thesis
      using plain k(1,2) len
      by (simp add: wp_bnd [of "char_retract"] wp_bnd [of "end_lexeme1_here"]
          wp_bnd [of "set_klass K" for K] wp_bnd [of "upd_token F" for F]
          wp_bnd [of "token_install_integer b" for b] wp_lex_simple wp_lex_raw)
  qed
qed (use lex_inv_text [OF inv] in auto)

section \<open>Every step, every token, every scan\<close>

lemma emit_state_post:
  "lex_inv s \<Longrightarrow> inner_class k \<Longrightarrow> wp (emit k) (\<lambda>_. step_post s) lex_err s"
  by (intro emit_post ready_refl)

lemmas state_posts = state_1_post state_2_post state_3_post state_101_post state_102_post
  state_103_post state_113_post state_116_post state_119_post state_200_post state_310_post
  state_311_post state_500_post state_401_post emit_state_post

lemma lex_switch_post:
  assumes inv: "lex_inv s" and st: "lx_state s = st" and c: "c = lx_text s ! lx_end s"
  shows "wp (lex_switch st c) (\<lambda>_. step_post s) lex_err s"
proof -
  have two: "wp state_117 (\<lambda>_. step_post s) lex_err s" "wp state_118 (\<lambda>_. step_post s) lex_err s"
    "wp state_120 (\<lambda>_. step_post s) lex_err s"
    unfolding state_117_def state_118_def state_120_def
    by (rule state_two_post [OF inv]; simp)+
  have radix: "wp state_402 (\<lambda>_. step_post s) lex_err s" "wp state_403 (\<lambda>_. step_post s) lex_err s"
    "wp state_404 (\<lambda>_. step_post s) lex_err s"
    unfolding state_402_def state_403_def state_404_def
    by (rule state_radix_post [OF inv]; simp add: valid_base_def)+
  have sized: "wp state_406 (\<lambda>_. step_post s) lex_err s" "wp state_407 (\<lambda>_. step_post s) lex_err s"
    "wp state_408 (\<lambda>_. step_post s) lex_err s" "wp state_409 (\<lambda>_. step_post s) lex_err s"
    if "st \<in> {406, 407, 408, 409}"
    unfolding state_406_def state_407_def state_408_def state_409_def
    by (rule state_sized_post [OF inv]; use that inv st in \<open>auto simp: valid_base_def lex_inv_def\<close>)+
  have prefixes: "st = 400 \<Longrightarrow> wp (state_400 c) (\<lambda>_. step_post s) lex_err s"
    "st = 405 \<Longrightarrow> wp (state_405 c) (\<lambda>_. step_post s) lex_err s"
    unfolding state_400_def state_405_def by (rule radix_state_post [OF inv st]; simp)+
  have dead: "st \<noteq> 4" "st \<noteq> 201" using inv st by (auto simp: lex_inv_def)
  show ?thesis
    unfolding lex_switch_def
    by (intro wp_ifI; ((rule emit_state_post [OF inv], simp; fail)
        | (rule state_posts two radix sized prefixes; use inv st c in simp; fail)
        | (use dead in \<open>simp add: wp_simps\<close>)))
qed

lemma lex_step_post:
  assumes "lex_inv s"
  shows "wp lex_step (\<lambda>_. step_post s) lex_err s"
  using lex_inv_text [OF assms] lex_switch_post [OF assms refl refl]
  by (simp add: lex_step_def wp_simps)

text \<open>A token: the text is kept, the lexeme starts afresh after it, and it has been classified.\<close>

definition token_post :: "lexer \<Rightarrow> token \<Rightarrow> lexer \<Rightarrow> bool" where
  "token_post s t s' \<longleftrightarrow>
     lex_inv s' \<and> lex_frame s s' \<and> t = lx_token s' \<and> tk_line_nr t = lx_line_nr s' \<and>
     (klass t = Token_EndOfInput \<or> inner_class (klass t) \<and> lx_end s < lx_end s')"

lemma lex_frame_trans: "lex_frame s t \<Longrightarrow> lex_frame t u \<Longrightarrow> lex_frame s u"
  by (auto simp: lex_frame_def)

lemma next_token_post:
  assumes inv: "lex_inv s"
  shows "wp next_token (token_post s) lex_err s"
proof -
  let ?s = "s\<lparr>lx_token := zero_token, lx_state := 1\<rparr>"
  let ?I = "\<lambda>t. lex_inv t \<and> lex_frame ?s t \<and> (lx_state t = 0 \<longrightarrow> token_done ?s t)"
  have s: "lex_inv ?s" using inv by (simp add: lex_inv_def)
  have loop: "wp (while_cmd (lex_fuel ?s) (\<lambda>s. lx_state s \<noteq> 0) lex_step)
    (\<lambda>_ t. ?I t \<and> lx_state t = 0) lex_err ?s"
  proof (rule wp_while_cmd [where I = ?I and \<mu> = lex_measure])
    show "?I ?s" using s by (simp add: lex_frame_def)
    show "lex_measure ?s < lex_fuel ?s"
      using rank_le [of 1] by (simp add: lex_measure_def lex_fuel_def)
    fix t assume t: "?I t" "lx_state t \<noteq> 0"
    show "wp lex_step (\<lambda>_ u. ?I u \<and> lex_measure u < lex_measure t) lex_err t"
    proof (rule wp_conseq [OF lex_step_post])
      fix u assume u: "step_post t u"
      have "lex_frame ?s u" using t u lex_frame_trans by (auto simp: step_post_def)
      moreover have "token_done ?s u" if "lx_state u = 0"
        using u t that by (auto simp: step_post_def token_done_def lex_frame_def split: if_splits)
      ultimately show "?I u \<and> lex_measure u < lex_measure t"
        using u by (simp add: step_post_def)
    qed (use t in simp_all)
  qed simp
  have fin: "token_post s ((lx_token t)\<lparr>tk_line_nr := lx_line_nr t\<rparr>)
      (t\<lparr>lx_token := (lx_token t)\<lparr>tk_line_nr := lx_line_nr t\<rparr>\<rparr>)"
    if t: "?I t \<and> lx_state t = 0" for t
    using t by (auto simp: token_post_def lex_inv_def lex_frame_def token_done_def split: if_splits)
  have "wp (\<lambda>s. while_cmd (lex_fuel s) (\<lambda>s. lx_state s \<noteq> 0) lex_step s)
    (\<lambda>_ t. ?I t \<and> lx_state t = 0) lex_err ?s"
    using loop by (simp add: wp_def)
  then show ?thesis
    unfolding next_token_def wp_bnd wp_lex_simple wp_gets
    by (rule wp_conseq) (use fin in auto)
qed

section \<open>The token array\<close>

text \<open>
  The tokens stored so far: the start token, then classified tokens whose line numbers do
  not decrease, the last of which may be the end token.
\<close>

definition tokens_wf :: "int \<Rightarrow> token list \<Rightarrow> bool" where
  "tokens_wf line ts \<longleftrightarrow>
     ts \<noteq> [] \<and> klass (hd ts) = Token_StartOfInput \<and>
     (\<forall>t \<in> set (tl ts). klass t = Token_EndOfInput \<or> inner_class (klass t)) \<and>
     (\<forall>t \<in> set (butlast ts). klass t \<notin> {Token_EndOfInput, Token_Unknown}) \<and>
     sorted (map tk_line_nr ts) \<and> (\<forall>t \<in> set ts. tk_line_nr t \<le> line)"

definition bracketed :: "token list \<Rightarrow> bool" where
  "bracketed ts \<longleftrightarrow>
     2 \<le> length ts \<and> klass (hd ts) = Token_StartOfInput \<and> klass (last ts) = Token_EndOfInput \<and>
     (\<forall>t \<in> set (tl (butlast ts)). inner_class (klass t) \<and> klass t \<noteq> Token_Unknown) \<and>
     sorted (map tk_line_nr ts)"

lemma tokens_wf_append:
  assumes "tokens_wf line ts" and "klass (last ts) \<notin> {Token_EndOfInput, Token_Unknown}"
    and "line \<le> tk_line_nr t" and "klass t = Token_EndOfInput \<or> inner_class (klass t)"
  shows "tokens_wf (tk_line_nr t) (ts @ [t])"
proof -
  have "ts = butlast ts @ [last ts]" using assms(1) by (simp add: tokens_wf_def)
  then have "set ts = insert (last ts) (set (butlast ts))"
    by (metis Un_insert_right list.set(2) set_append sup_bot_right empty_set)
  then show ?thesis
    using assms by (auto simp: tokens_wf_def sorted_append intro: order_trans)
qed

lemma tokens_wf_bracketed:
  assumes "tokens_wf line ts" and "klass (last ts) = Token_EndOfInput" and "2 \<le> length ts"
  shows "bracketed ts"
proof -
  have "inner_class (klass t) \<and> klass t \<noteq> Token_Unknown" if "t \<in> set (tl (butlast ts))" for t
  proof -
    have "t \<in> set (butlast ts)" "t \<in> set (tl ts)"
      using that by (cases ts; auto dest: in_set_butlastD split: if_splits)+
    then show ?thesis using assms(1) by (auto simp: tokens_wf_def)
  qed
  then show ?thesis using assms by (simp add: bracketed_def tokens_wf_def)
qed

text \<open>Between two rounds of the loop of \<open>lex_tokenize\<close>.\<close>

definition scan_inv :: "lexer \<Rightarrow> bool" where
  "scan_inv s \<longleftrightarrow>
     lex_inv s \<and> tokens_wf (lx_line_nr s) (lx_tokens s) \<and> 2 \<le> length (lx_tokens s) \<and>
     last (lx_tokens s) = lx_token s"

lemma append_token_post:
  assumes "token_post s t s'" and "tokens_wf line (lx_tokens s)" and "line \<le> lx_line_nr s"
    and "klass (last (lx_tokens s)) \<notin> {Token_EndOfInput, Token_Unknown}"
  shows "scan_inv (s'\<lparr>lx_tokens := lx_tokens s' @ [t]\<rparr>)"
proof -
  have "tokens_wf (tk_line_nr t) (lx_tokens s @ [t])"
    by (rule tokens_wf_append [OF assms(2,4)])
      (use assms(1,3) in \<open>auto simp: token_post_def lex_frame_def\<close>)
  moreover have "lx_tokens s \<noteq> []" using assms(2) by (simp add: tokens_wf_def)
  then have "2 \<le> Suc (length (lx_tokens s))" by (cases "lx_tokens s") auto
  moreover have "lex_inv (s'\<lparr>lx_tokens := lx_tokens s' @ [t]\<rparr>)"
    using assms(1) by (simp add: token_post_def lex_inv_def)
  moreover have "lx_tokens s' = lx_tokens s" "tk_line_nr t = lx_line_nr s'" "t = lx_token s'"
    using assms(1) by (auto simp: token_post_def lex_frame_def)
  ultimately show ?thesis by (simp add: scan_inv_def)
qed

definition scan_measure :: "lexer \<Rightarrow> nat" where
  "scan_measure s =
     (if klass (lx_token s) = Token_EndOfInput then 0 else Suc (lx_text_size s - lx_end s))"

lemma tokenize_body_post:
  assumes inv: "scan_inv s"
  shows "wp tokenize_body
    (\<lambda>r s'. case r of None \<Rightarrow> scan_inv s' \<and> scan_measure s' < scan_measure s
      | Some _ \<Rightarrow> bracketed (lx_tokens s')) lex_err s"
proof -
  let ?k = "klass (lx_token s)"
  have end_case: "bracketed (lx_tokens s)" if "?k = Token_EndOfInput"
    using inv that by (intro tokens_wf_bracketed) (auto simp: scan_inv_def)
  have more: "wp next_token (\<lambda>t'. wp (bnd (append_token t') (\<lambda>_. ret None))
      (\<lambda>r s'. case r of None \<Rightarrow> scan_inv s' \<and> scan_measure s' < scan_measure s
        | Some _ \<Rightarrow> bracketed (lx_tokens s')) lex_err) lex_err s"
    if k: "?k \<noteq> Token_EndOfInput" "?k \<noteq> Token_Unknown"
  proof (rule wp_conseq [OF next_token_post])
    fix t s' assume post: "token_post s t s'"
    have "scan_inv (s'\<lparr>lx_tokens := lx_tokens s' @ [t]\<rparr>)"
      by (rule append_token_post [OF post]) (use inv k in \<open>auto simp: scan_inv_def\<close>)
    moreover have "scan_measure (s'\<lparr>lx_tokens := lx_tokens s' @ [t]\<rparr>) < scan_measure s"
    proof (cases "klass t = Token_EndOfInput")
      case False
      then have "lx_end s < lx_end s'" "lx_end s' \<le> lx_text_size s'" "lx_text_size s' = lx_text_size s"
        "t = lx_token s'"
        using post by (simp_all add: token_post_def lex_frame_def lex_inv_def)
      then show ?thesis using k False by (simp add: scan_measure_def)
    qed (use post k in \<open>simp add: scan_measure_def token_post_def\<close>)
    ultimately show "wp (bnd (append_token t) (\<lambda>_. ret None))
      (\<lambda>r s'. case r of None \<Rightarrow> scan_inv s' \<and> scan_measure s' < scan_measure s
        | Some _ \<Rightarrow> bracketed (lx_tokens s')) lex_err s'"
      by (simp add: append_token_def wp_simps)
  qed (use inv in \<open>auto simp: scan_inv_def\<close>)
  show ?thesis
    unfolding tokenize_body_def wp_bnd [of "gets g" for g] wp_gets wp_if wp_bnd [of next_token]
    using end_case more by (auto simp: wp_ret wp_fail split: if_splits)
qed

lemma lex_tokenize_post:
  "wp lex_tokenize_cmd (\<lambda>ts _. bracketed ts) lex_err (init_lexer (cstring src) (length src))"
proof -
  let ?t = "zero_token\<lparr>klass := Token_StartOfInput\<rparr>"
  let ?s = "(init_lexer (cstring src) (length src))\<lparr>lx_tokens := [?t]\<rparr>"
  have inv: "lex_inv ?s" by (simp add: lex_inv_def init_lexer_def cstring_def)
  have wf: "tokens_wf 1 (lx_tokens ?s)"
    by (simp add: tokens_wf_def zero_token_def)
  have loop: "wp (\<lambda>s. repeat_cmd (lx_text_size s + 2) tokenize_body s)
      (\<lambda>_. wp (gets lx_tokens) (\<lambda>ts _. bracketed ts) lex_err) lex_err s" if "scan_inv s" for s
  proof -
    have "wp (repeat_cmd (lx_text_size s + 2) tokenize_body)
        (\<lambda>_. wp (gets lx_tokens) (\<lambda>ts _. bracketed ts) lex_err) lex_err s"
      unfolding wp_gets
      by (rule wp_repeat_cmd [where I = scan_inv and \<mu> = scan_measure])
        (use that tokenize_body_post in \<open>simp_all add: scan_measure_def less_Suc_eq_le\<close>)
    then show ?thesis by (simp add: wp_def)
  qed
  have "wp next_token (\<lambda>t'. wp (append_token t')
      (\<lambda>_. wp (\<lambda>s. repeat_cmd (lx_text_size s + 2) tokenize_body s)
        (\<lambda>_. wp (gets lx_tokens) (\<lambda>ts _. bracketed ts) lex_err) lex_err) lex_err) lex_err ?s"
  proof (rule wp_conseq [OF next_token_post [OF inv]])
    fix t s' assume post: "token_post ?s t s'"
    have "scan_inv (s'\<lparr>lx_tokens := lx_tokens s' @ [t]\<rparr>)"
      by (rule append_token_post [OF post wf]) (simp_all add: init_lexer_def zero_token_def)
    then show "wp (append_token t)
      (\<lambda>_. wp (\<lambda>s. repeat_cmd (lx_text_size s + 2) tokenize_body s)
        (\<lambda>_. wp (gets lx_tokens) (\<lambda>ts _. bracketed ts) lex_err) lex_err) lex_err s'"
      using loop unfolding append_token_def wp_modify by blast
  qed simp
  then show ?thesis
    unfolding lex_tokenize_cmd_def wp_bnd wp_gets append_token_def wp_modify
    by (simp add: init_lexer_def del: repeat_cmd.simps)
qed

section \<open>Properties\<close>

text \<open>
  C6: for every text the scanner stops. Either it fails by an assertion or with a diagnostic
  (never by a bad access), or it returns a token array that begins with the start token, ends
  with the end token, has between them only classified tokens (no unknown token, no lexical
  error, no token without a class), and whose line numbers do not decrease.
\<close>

theorem lex_tokenize_bracketed:
  "case lex_tokenize src of Inl f \<Rightarrow> lex_err f | Inr ts \<Rightarrow> bracketed ts"
  using lex_tokenize_post [of src] by (auto simp: wp_def lex_tokenize_def split: sum.splits prod.splits)

text \<open>
  The string \<open>lexeme_copy\<close> writes has at most \<open>lexeme_len\<close> bytes, so with its terminator it
  fits the \<open>lexeme_len + 1\<close> bytes \<open>lexeme_to_cstring\<close> allocates, escapes included.
\<close>

theorem lexeme_copy_fits_buffer:
  assumes "src \<le> e" and "lexeme_copy buf src e [] = Inr str"
  shows "int (length str) \<le> lexeme_len src e"
  using lexeme_copy_length [OF assms] assms(1) by (simp add: lexeme_len_def)

theorem lexeme_copy_fits_buffer_witness:
  "\<exists>str. lexeme_copy (cstring ''ab'') 0 1 [] = Inr str \<and> int (length str) \<le> 2"
proof -
  obtain str where "lexeme_copy (cstring ''ab'') 0 1 [] = Inr str"
    using lexeme_copy_inside [of "cstring ''ab''" 2 1 0 "[]"] by (auto simp: cstring_def)
  with lexeme_copy_fits_buffer [of 0 1 "cstring ''ab''" str] show ?thesis by (simp add: lexeme_len_def)
qed

lemma string_loop:
  "length (lx_text s) = Suc (lx_text_size s) \<Longrightarrow> lx_end s + Suc k \<le> lx_text_size s \<Longrightarrow>
   lx_text s ! (lx_end s + Suc k) = BACKSLASH \<Longrightarrow>
   \<forall>j \<le> k. 0 < j \<longrightarrow> lx_text s ! (lx_end s + j) \<notin> {BACKSLASH, CHR 0x22} \<Longrightarrow> k < n \<Longrightarrow>
   repeat_cmd n string_body s = Inr ((), s\<lparr>lx_end := lx_end s + Suc k, lx_state := 201\<rparr>)"
proof (induction k arbitrary: s n)
  case 0
  then obtain m where "n = Suc m" by (cases n) auto
  with 0 show ?case
    by (simp add: string_body_def bnd_def char_advance_def lift_def rd_def set_state_def modify_def ret_def)
next
  case (Suc k)
  from Suc.prems(5) obtain m where n: "n = Suc m" "k < m" by (cases n) auto
  let ?c = "lx_text s ! Suc (lx_end s)"
  have c: "?c \<noteq> BACKSLASH" "?c \<noteq> CHR 0x22" using Suc.prems(4) by (auto dest: spec [of _ 1])
  define t where "t = s\<lparr>lx_end := Suc (lx_end s), lx_state := (if ?c = LF \<or> ?c = CR then 4 else lx_state s)\<rparr>"
  have body: "string_body s = Inr (None, t)"
    using Suc.prems(1,2) c
    by (simp add: string_body_def bnd_def char_advance_def lift_def rd_def set_state_def modify_def
        ret_def t_def)
  have "repeat_cmd m string_body t = Inr ((), t\<lparr>lx_end := lx_end t + Suc k, lx_state := 201\<rparr>)"
  proof (rule Suc.IH)
    show "\<forall>j \<le> k. 0 < j \<longrightarrow> lx_text t ! (lx_end t + j) \<notin> {BACKSLASH, CHR 0x22}"
    proof (intro allI impI)
      fix j assume "j \<le> k" "0 < j"
      then show "lx_text t ! (lx_end t + j) \<notin> {BACKSLASH, CHR 0x22}"
        using Suc.prems(4) [rule_format, of "Suc j"] by (simp add: t_def)
    qed
  qed (use Suc.prems n in \<open>simp_all add: t_def\<close>)
  then show ?case using n body by (simp add: bnd_def t_def)
qed

text \<open>
  C38: a string literal ends at its first backslash, since \<open>break\<close> leaves only the inner loop:
  the token is complete there, and scanning goes on with the escaped character. Line ends
  inside it are accepted.
\<close>

theorem string_literal_ends_at_backslash:
  assumes buf: "length (lx_text s) = Suc (lx_text_size s)" "lx_text s ! lx_text_size s = NUL"
    and pos: "lx_start s \<le> lx_end s" "lx_end s + Suc k < lx_text_size s"
    and bs: "lx_text s ! (lx_end s + Suc k) = BACKSLASH"
    and body: "\<forall>j \<le> k. 0 < j \<longrightarrow> lx_text s ! (lx_end s + j) \<notin> {BACKSLASH, CHR 0x22}"
  shows "\<exists>s'. state_200 s = Inr ((), s') \<and> klass (lx_token s') = Token_StringLiteral \<and>
    lx_end s' = lx_end s + Suc k + 1 \<and> lx_state s' = 0 \<and> lx_line_nr s' = lx_line_nr s"
proof -
  let ?t = "s\<lparr>lx_end := lx_end s + Suc k, lx_state := 201,
    lx_token := (lx_token s)\<lparr>klass := Token_StringLiteral\<rparr>\<rparr>"
  have loop: "repeat_cmd (Suc (lx_text_size s)) string_body s =
      Inr ((), s\<lparr>lx_end := lx_end s + Suc k, lx_state := 201\<rparr>)"
    by (rule string_loop [OF buf(1) _ bs body]) (use pos in simp_all)
  have "wp finish_token (\<lambda>_ s'. klass (lx_token s') = Token_StringLiteral \<and>
      lx_end s' = lx_end s + Suc k + 1 \<and> lx_state s' = 0 \<and> lx_line_nr s' = lx_line_nr s)
      (\<lambda>_. False) ?t"
    unfolding finish_token_def wp_bnd
    by (rule wp_lexeme0) (use buf pos in \<open>simp_all add: wp_lex_simple\<close>)
  then have "wp state_200 (\<lambda>_ s'. klass (lx_token s') = Token_StringLiteral \<and>
      lx_end s' = lx_end s + Suc k + 1 \<and> lx_state s' = 0 \<and> lx_line_nr s' = lx_line_nr s)
      (\<lambda>_. False) s"
    using loop unfolding state_200_def wp_bnd emit_def wp_lex_simple
    by (simp add: wp_def del: repeat_cmd.simps)
  then show ?thesis by (auto simp: wp_def split: sum.splits)
qed

theorem string_literal_ends_at_backslash_witness:
  "\<exists>s'. state_200 (init_lexer (cstring [CHR 0x22, CHR ''a'', BACKSLASH, CHR ''n'', CHR 0x22]) 5) =
     Inr ((), s') \<and> klass (lx_token s') = Token_StringLiteral \<and> lx_end s' = 3"
proof -
  let ?s = "init_lexer (cstring [CHR 0x22, CHR ''a'', BACKSLASH, CHR ''n'', CHR 0x22]) 5"
  have "\<forall>j \<le> 1. 0 < j \<longrightarrow> lx_text ?s ! (lx_end ?s + j) \<notin> {BACKSLASH, CHR 0x22}"
    by (auto simp: init_lexer_def cstring_def le_Suc_eq numeral_eq_Suc)
  with string_literal_ends_at_backslash [of ?s 1] show ?thesis
    by (auto simp: init_lexer_def cstring_def numeral_eq_Suc)
qed

text \<open>
  C39: a line comment that reaches the end of the text without a line end makes the scanner
  fail its assertion, instead of ending the comment.
\<close>

theorem line_comment_needs_newline:
  assumes "length (lx_text s) = Suc (lx_text_size s)"
    and "\<forall>j. 0 < j \<and> lx_end s + j \<le> lx_text_size s \<longrightarrow> lx_text s ! (lx_end s + j) \<notin> {LF, CR}"
  shows "state_311 s = Inl Assert_failed"
proof -
  have "wp state_311 (\<lambda>_ _. False) (\<lambda>f. f = Assert_failed) s"
    unfolding state_311_def wp_bnd
    by (rule wp_advance_while) (use assms in auto)
  then show ?thesis by (auto simp: wp_def split: sum.splits)
qed

theorem line_comment_needs_newline_witness:
  "state_311 (init_lexer (cstring ''// x'') 4) = Inl Assert_failed"
proof (rule line_comment_needs_newline)
  show "\<forall>j. 0 < j \<and> lx_end (init_lexer (cstring ''// x'') 4) + j \<le> lx_text_size (init_lexer (cstring ''// x'') 4) \<longrightarrow>
      lx_text (init_lexer (cstring ''// x'') 4) ! (lx_end (init_lexer (cstring ''// x'') 4) + j) \<notin> {LF, CR}"
    by (auto simp: init_lexer_def cstring_def le_Suc_eq numeral_eq_Suc)
qed (simp add: init_lexer_def)

text \<open>
  An identifier is the longest run of letters, digits and underscores from where it starts.
\<close>

theorem identifier_is_maximal:
  assumes "lex_inv s" and "state_500 s = Inr ((), s')"
  shows "klass (lx_token s') = Token_Identifier \<and> lx_end s < lx_end s' \<and>
    (\<forall>i. lx_end s < i \<and> i < lx_end s' \<longrightarrow> is_word_char (lx_text s ! i)) \<and>
    \<not> is_word_char (lx_text s ! lx_end s')"
proof -
  let ?Q = "\<lambda>s'. klass (lx_token s') = Token_Identifier \<and> lx_end s < lx_end s' \<and>
    (\<forall>i. lx_end s < i \<and> i < lx_end s' \<longrightarrow> is_word_char (lx_text s ! i)) \<and>
    \<not> is_word_char (lx_text s ! lx_end s')"
  note buf = lex_inv_text [OF assms(1)]
  have "wp state_500 (\<lambda>_. ?Q) (\<lambda>_. True) s"
    unfolding state_500_def wp_bnd
  proof (rule wp_advance_while)
    fix k :: nat
    assume k: "0 < k" "lx_end s + k \<le> lx_text_size s" "\<not> is_word_char (lx_text s ! (lx_end s + k))"
      and run: "\<And>j. 0 < j \<Longrightarrow> j < k \<Longrightarrow> is_word_char (lx_text s ! (lx_end s + j))"
    let ?t = "s\<lparr>lx_end := lx_end s + (k - 1), lx_token := (lx_token s)\<lparr>klass := Token_Identifier\<rparr>\<rparr>"
    have word: "is_word_char (lx_text s ! i)" if "lx_end s < i" "i < lx_end s + k" for i
      using run [of "i - lx_end s"] that by simp
    have "wp finish_token (\<lambda>_. ?Q) (\<lambda>_. True) ?t"
    proof (rule wp_finish_token)
      fix str
      have "Suc (lx_end s + (k - 1)) = lx_end s + k" using k by simp
      then show "?Q (?t\<lparr>lx_token := (lx_token ?t)\<lparr>lexeme := str\<rparr>, lx_end := lx_end ?t + 1,
          lx_start := lx_end ?t + 1, lx_state := 0\<rparr>)"
        using k word by simp
    qed (use buf k in auto)
    then show "wp char_retract (\<lambda>x. wp (emit Token_Identifier) (\<lambda>_. ?Q) (\<lambda>_. True)) (\<lambda>_. True)
        (s\<lparr>lx_end := lx_end s + k\<rparr>)"
      unfolding emit_def wp_bnd wp_lex_simple using buf k(1,2) by (simp add: wp_lex_raw)
  qed (use buf in auto)
  with assms(2) show ?thesis by (simp add: wp_def)
qed

theorem identifier_is_maximal_witness:
  "\<exists>s'. state_500 ((init_lexer (cstring ''ab;'') 3)\<lparr>lx_tokens := [zero_token], lx_state := 500\<rparr>) =
     Inr ((), s') \<and> lx_end s' = 2 \<and> klass (lx_token s') = Token_Identifier"
proof -
  let ?s = "(init_lexer (cstring ''ab;'') 3)\<lparr>lx_tokens := [zero_token], lx_state := 500\<rparr>"
  have inv: "lex_inv ?s" by (simp add: lex_inv_def init_lexer_def cstring_def)
  have "case state_500 ?s of Inl f \<Rightarrow> False | Inr (u, s') \<Rightarrow> lx_end s' = 2" by code_simp
  then obtain s' where "state_500 ?s = Inr ((), s')" "lx_end s' = 2"
    by (auto split: sum.splits prod.splits)
  with identifier_is_maximal [OF inv] show ?thesis by blast
qed

end
