(* ===== verification/WalkProps.thy ===== *)
theory WalkProps
  imports BuildSymtab PrintAst Stops "HOL-Library.Sublist"
begin

text \<open>
  The two walks over the tree, of print_ast.c and build_symtable.c. The recursion of both goes
  to smaller trees, so the size of the tree is fuel enough. The printer leaves its indentation
  as it found it; the symbol table pass leaves a well-formed table at the scope level it
  started from.
\<close>

section \<open>Children are smaller\<close>

lemma size_list_member: "x \<in> set xs \<Longrightarrow> f x < size_list f xs"
  by (induction xs) auto

lemma size_chain: "a \<in> set c \<Longrightarrow> c \<in> set (attrs_of ast) \<Longrightarrow> size a < size ast"
  using size_list_member [of a c size] size_list_member [of c "attrs_of ast" "size_list size"]
  by (cases ast) simp

lemma size_value_ast: "attr_value a = V_Ast (Some x) \<Longrightarrow> size x < size a"
  by (cases a) simp

lemma size_value_list: "attr_value a = V_AstList (Some xs) \<Longrightarrow> x \<in> set xs \<Longrightarrow> size x < size a"
  using size_list_member [of x xs size] by (cases a) simp

section \<open>The printer\<close>

text \<open>Commands that keep the indentation and only append to the output.\<close>

definition prints :: "'a print \<Rightarrow> bool" where
  "prints m \<longleftrightarrow> (\<forall>p. wp m (\<lambda>_ p'. tab_level p' = tab_level p \<and>
     (\<exists>out. printed p' = printed p @ out)) stops p)"

lemma prints_bnd: 
  assumes "prints m" and "\<And>x. prints (f x)"
  shows "prints (bnd m f)"
  unfolding prints_def wp_bnd
proof (intro allI)
  fix p :: printer
  show "wp m (\<lambda>x. wp (f x) (\<lambda>_ p'. tab_level p' = tab_level p \<and> (\<exists>out. printed p' = printed p @ out)) stops)
      stops p"
  proof (rule wp_conseq [OF assms(1) [unfolded prints_def, rule_format]])
    fix x and p' :: printer assume p': "tab_level p' = tab_level p \<and> (\<exists>out. printed p' = printed p @ out)"
    show "wp (f x) (\<lambda>_ p''. tab_level p'' = tab_level p \<and> (\<exists>out. printed p'' = printed p @ out)) stops p'"
      by (rule wp_conseq [OF assms(2) [unfolded prints_def, rule_format]]) (use p' in auto)
  qed simp
qed

lemma prints_simple:
  "prints (ret x)" "prints (put out)" "prints (gets g)" "stops f \<Longrightarrow> prints (fail f)"
  by (auto simp: prints_def put_def wp_simps)

lemma prints_lift: "(\<And>f. r = Inl f \<Longrightarrow> stops f) \<Longrightarrow> prints (lift r)"
  by (auto simp: prints_def wp_simps split: sum.splits)

lemma prints_each: "(\<And>x. x \<in> set xs \<Longrightarrow> prints (f x)) \<Longrightarrow> prints (each f xs)"
  by (induction xs) (auto intro: prints_bnd prints_simple)

lemma prints_print_prop: "prints (print_prop name v)"
  unfolding print_prop_def indent_right_def by (intro prints_bnd prints_simple)

lemma prints_print_attr: "prints (print_attr attr)"
  by (auto simp: print_attr_def intro: prints_print_prop prints_simple
      split: ast_attribute_type.split attr_value.split option.split)

text \<open>The braces of a node indent and unindent.\<close>

lemma prints_braces:
  assumes "prints m"
  shows "prints (bnd ast_start (\<lambda>_. bnd m (\<lambda>x. bnd ast_end (\<lambda>_. ret x))))"
  unfolding prints_def
proof (intro allI)
  fix p :: printer
  let ?p = "p\<lparr>printed := printed p @ ''{'' @ [LF], tab_level := tab_level p + 1\<rparr>"
  have "wp m (\<lambda>_ p'. tab_level p' = tab_level ?p \<and> (\<exists>out. printed p' = printed ?p @ out)) stops ?p"
    by (rule assms [unfolded prints_def, rule_format])
  then have "wp m (\<lambda>x. wp (bnd ast_end (\<lambda>_. ret x))
      (\<lambda>_ p'. tab_level p' = tab_level p \<and> (\<exists>out. printed p' = printed p @ out)) stops) stops ?p"
    by (rule wp_conseq) (auto simp: ast_end_def put_def wp_simps)
  then show "wp (bnd ast_start (\<lambda>_. bnd m (\<lambda>x. bnd ast_end (\<lambda>_. ret x))))
      (\<lambda>_ p'. tab_level p' = tab_level p \<and> (\<exists>out. printed p' = printed p @ out)) stops p"
    by (simp add: ast_start_def put_def wp_simps)
qed

lemma attr_children_smaller:
  assumes "attr_children attr = Inr xs" and "x \<in> set xs"
  shows "size x < size attr"
  using assms
  by (auto simp: attr_children_def size_value_ast size_value_list
      split: ast_attribute_type.splits attr_value.splits option.splits)

lemma attr_children_stops: "attr_children attr = Inl f \<Longrightarrow> stops f"
  by (auto simp: attr_children_def split: ast_attribute_type.splits attr_value.splits)

lemma if_Inl_stops:
  "(r = Inl f \<Longrightarrow> stops f) \<Longrightarrow> (if b then Inr x else r) = Inl f \<Longrightarrow> stops f"
  by (cases b) simp_all

lemma ast_kind_to_string_stops: "ast_kind_to_string kind = Inl f \<Longrightarrow> stops f"
  unfolding ast_kind_to_string_def by (erule if_Inl_stops [rotated])+ simp

lemma prints_lift_children:
  assumes "\<And>x. size x < size attr \<Longrightarrow> prints (f x)"
  shows "prints (bnd (lift (attr_children attr)) (each f))"
proof (cases "attr_children attr")
  case (Inl x)
  then show ?thesis by (auto simp: prints_def wp_simps attr_children_stops)
next
  case (Inr xs)
  then have "prints (each f xs)" by (intro prints_each assms attr_children_smaller)
  with Inr show ?thesis by (simp add: prints_def wp_simps)
qed

lemma print_ast_depth_regroup:
  "print_ast_depth (Suc n) ast =
     bnd (bnd ast_start (\<lambda>_. bnd (bnd (print_prop ''id'' (CHR ''$'' # show_int (id_of ast))) (\<lambda>_.
       bnd (lift (ast_kind_to_string (kind_of ast))) (\<lambda>kind.
       bnd (print_prop ''kind'' kind) (\<lambda>_.
       bnd (print_prop ''line_nr'' (show_int (line_of ast))) (\<lambda>_.
       bnd (lift (ast_attributes ast)) (\<lambda>attrs.
       bnd (each print_attr attrs) (\<lambda>_. ret attrs))))))) (\<lambda>attrs. bnd ast_end (\<lambda>_. ret attrs))))
     (\<lambda>attrs. each (\<lambda>attr. bnd (lift (attr_children attr)) (each (print_ast_depth n))) attrs)"
  by (auto simp: bnd_def lift_def ret_def fun_eq_iff split: sum.splits prod.splits)

lemma print_ast_depth_prints: "size ast < n \<Longrightarrow> prints (print_ast_depth n ast)"
proof (induction n arbitrary: ast)
  case (Suc n)
  let ?es = "concat (take 15 (attrs_of ast))"
  let ?head = "bnd ast_start (\<lambda>_. bnd (bnd (print_prop ''id'' (CHR ''$'' # show_int (id_of ast))) (\<lambda>_.
       bnd (lift (ast_kind_to_string (kind_of ast))) (\<lambda>kind.
       bnd (print_prop ''kind'' kind) (\<lambda>_.
       bnd (print_prop ''line_nr'' (show_int (line_of ast))) (\<lambda>_.
       bnd (each print_attr ?es) (\<lambda>_. ret ?es)))))) (\<lambda>attrs. bnd ast_end (\<lambda>_. ret attrs)))"
  have eq: "print_ast_depth (Suc n) ast = bnd (bnd ?head (\<lambda>_. ret ()))
      (\<lambda>_. each (\<lambda>attr. bnd (lift (attr_children attr)) (each (print_ast_depth n))) ?es)"
    unfolding print_ast_depth_regroup ast_attributes_concat
    by (auto simp: bnd_def lift_def ret_def fun_eq_iff split: sum.splits prod.splits)
  have head: "prints ?head"
    by (intro prints_braces prints_bnd prints_print_prop prints_simple prints_each prints_print_attr
        prints_lift ast_kind_to_string_stops)
  have "prints (bnd (lift (attr_children a)) (each (print_ast_depth n)))" if "a \<in> set ?es" for a
  proof (rule prints_lift_children)
    fix x :: ast assume "size x < size a"
    moreover have "size a < size ast" using that size_chain [of a] by (auto dest: in_set_takeD)
    ultimately show "prints (print_ast_depth n x)" using Suc by simp
  qed
  then show ?case
    unfolding eq by (intro prints_bnd [OF prints_bnd [OF head prints_simple(1)]] prints_each)
qed simp

text \<open>
  C26: \<open>print_ast\<close> returns for every tree: it ends with output or with an assertion or a bad
  access, and the depth bound of the model (the size of the tree) is never met; when it
  returns, the indentation is back where it was and the earlier output is kept.
\<close>

theorem print_ast_terminates:
  "(case print_ast ast of Inl f \<Rightarrow> f \<noteq> Out_of_fuel | Inr out \<Rightarrow> True) \<and>
   (\<forall>n p. size ast < n \<longrightarrow> (case print_ast_depth n ast p of Inl f \<Rightarrow> f \<noteq> Out_of_fuel
     | Inr (_, p') \<Rightarrow> tab_level p' = tab_level p \<and> prefix (printed p) (printed p')))"
proof -
  have depth: "case print_ast_depth n ast p of Inl f \<Rightarrow> f \<noteq> Out_of_fuel
     | Inr (_, p') \<Rightarrow> tab_level p' = tab_level p \<and> prefix (printed p) (printed p')"
    if "size ast < n" for n p
    using print_ast_depth_prints [OF that, unfolded prints_def, rule_format, of p]
    by (auto simp: wp_def prefix_def split: sum.splits)
  from depth [of "Suc (size ast)" "\<lparr>tab_level = 0, printed = []\<rparr>"]
  have "case print_ast ast of Inl f \<Rightarrow> f \<noteq> Out_of_fuel | Inr out \<Rightarrow> True"
    by (auto simp: print_ast_def simp del: print_ast_depth.simps split: sum.splits)
  with depth show ?thesis by blast
qed


theorem print_ast_terminates_witness:
  "case print_ast_depth (Suc (size (blank_ast Ast_Name 1 1))) (blank_ast Ast_Name 1 1)
       \<lparr>tab_level = 3, printed = ''x''\<rparr> of
     Inl f \<Rightarrow> f \<noteq> Out_of_fuel | Inr (_, p') \<Rightarrow> tab_level p' = 3 \<and> prefix ''x'' (printed p')"
  using print_ast_terminates [of "blank_ast Ast_Name 1 1", THEN conjunct2, rule_format,
      of "Suc (size (blank_ast Ast_Name 1 1))" "\<lparr>tab_level = 3, printed = ''x''\<rparr>"]
  by (auto simp del: print_ast_depth.simps split: sum.splits)

section \<open>The symbol table pass\<close>

text \<open>Commands that keep the table well formed and change the scope level by \<open>d\<close>.\<close>

definition level :: "int \<Rightarrow> 'a S \<Rightarrow> bool" where
  "level d m \<longleftrightarrow> (\<forall>st. symtable_wf st \<longrightarrow>
     wp m (\<lambda>_ st'. symtable_wf st' \<and> scope_level st' = scope_level st + d) stops st)"

lemma level_bnd:
  assumes "level d m" and "\<And>x. level d' (f x)"
  shows "level (d + d') (bnd m f)"
  unfolding level_def wp_bnd
proof (intro allI impI)
  fix st assume st: "symtable_wf st"
  show "wp m (\<lambda>x. wp (f x) (\<lambda>_ st'. symtable_wf st' \<and> scope_level st' = scope_level st + (d + d')) stops)
      stops st"
  proof (rule wp_conseq [OF assms(1) [unfolded level_def, rule_format, OF st]])
    fix x st' assume st': "symtable_wf st' \<and> scope_level st' = scope_level st + d"
    show "wp (f x) (\<lambda>_ st''. symtable_wf st'' \<and> scope_level st'' = scope_level st + (d + d')) stops st'"
      by (rule wp_conseq [OF assms(2) [unfolded level_def, rule_format]]) (use st' in auto)
  qed simp
qed

lemma level_bnd0: "level 0 m \<Longrightarrow> (\<And>x. level d (f x)) \<Longrightarrow> level d (bnd m f)"
  using level_bnd [of 0 m d f] by simp

lemma level_simple: "level 0 (ret x)" "level 0 (gets g)" "stops f \<Longrightarrow> level d (fail f)"
  by (auto simp: level_def wp_simps)

lemma level_lift: "(\<And>f. r = Inl f \<Longrightarrow> stops f) \<Longrightarrow> level 0 (lift r)"
  by (auto simp: level_def wp_simps split: sum.splits)

lemma level_bnd_lift:
  "(\<And>f. r = Inl f \<Longrightarrow> stops f) \<Longrightarrow> (\<And>x. r = Inr x \<Longrightarrow> level d (f x)) \<Longrightarrow> level d (bnd (lift r) f)"
  by (cases r) (auto simp: level_def wp_simps)

lemma level_for_each: "(\<And>x. x \<in> set xs \<Longrightarrow> level 0 (f x)) \<Longrightarrow> level 0 (for_each f xs)"
  by (induction xs) (simp_all add: level_simple level_bnd0)

lemma level_push: "level 1 push_cmd"
  by (auto simp: level_def push_cmd_def wp_simps push_scope_def symtable_wf_def)

lemma level_pop: "level (- 1) pop_cmd"
  unfolding level_def
proof (intro allI impI)
  fix st assume wf: "symtable_wf st"
  show "wp pop_cmd (\<lambda>_ st'. symtable_wf st' \<and> scope_level st' = scope_level st + - 1) stops st"
  proof (cases "pop_scope st")
    case (Inl f)
    then show ?thesis by (simp add: wp_def pop_cmd_def pop_scope_stops)
  next
    case (Inr st')
    with pop_scope_post [OF wf this] show ?thesis by (simp add: wp_def pop_cmd_def)
  qed
qed

lemma level_scope:
  assumes "level 0 m"
  shows "level 0 (bnd push_cmd (\<lambda>_. bnd m (\<lambda>_. pop_cmd)))"
  using level_bnd [OF level_push, of "- 1"] level_bnd0 [OF assms level_pop] by simp

lemma level_scoped: "(\<And>x. x \<in> set xs \<Longrightarrow> level 0 (f x)) \<Longrightarrow> level 0 (scoped f xs)"
  unfolding scoped_def by (intro level_scope level_for_each)

lemma level_name_is_declared: "level 0 (name_is_declared name kind)"
  unfolding level_def wp_def
  using name_is_declared_post name_is_declared_stops by (auto simp: same_scope_def split: sum.splits)

lemma level_new_ident: "level 0 (new_ident name ast line)"
  unfolding level_def wp_def
  using new_ident_post new_ident_stops by (auto simp: same_scope_def split: sum.splits)

lemma level_new_type: "level 0 (new_type name ast line)"
  unfolding level_def wp_def
  using new_type_post new_type_stops by (auto simp: same_scope_def split: sum.splits)

lemma level_if: "level d m \<Longrightarrow> level d m' \<Longrightarrow> level d (if b then m else m')"
  by simp

lemma level_declare_ident: "level 0 (declare_ident decl nm)"
  unfolding declare_ident_def redeclared_def
  by (cases nm) (simp add: level_bnd0 level_name_is_declared level_new_ident level_simple)

lemma level_declare_type_name: "level 0 (declare_type_name decl nm)"
  unfolding declare_type_name_def redeclared_def
  by (cases nm) (simp add: level_bnd0 level_name_is_declared level_new_type level_simple)

subsection \<open>Attributes\<close>

lemma get_ast_stops: "get_ast node name = Inl f \<Longrightarrow> stops f"
  unfolding get_ast_def
  by (elim bnd_r_stops) (auto dest: ast_getattr_stops split: option.splits attr_value.splits)

lemma get_list_stops: "get_list node name = Inl f \<Longrightarrow> stops f"
  unfolding get_list_def
  by (elim bnd_r_stops) (auto dest: ast_getattr_stops split: option.splits attr_value.splits)

lemma get_string_stops: "get_string node name = Inl f \<Longrightarrow> stops f"
  unfolding get_string_def
  by (elim bnd_r_stops) (auto dest: ast_getattr_stops split: option.splits attr_value.splits)

lemma deref_stops: "deref r = Inl f \<Longrightarrow> stops f"
  by (auto simp: deref_def split: option.splits)

lemma decl_name_stops: "decl_name decl = Inl f \<Longrightarrow> stops f"
  unfolding decl_name_def
  by (elim bnd_r_stops) (auto dest: get_ast_stops deref_stops get_string_stops)

lemma type_decl_name_stops: "type_decl_name decl = Inl f \<Longrightarrow> stops f"
  unfolding type_decl_name_def
  by (elim bnd_r_stops) (auto dest: get_ast_stops deref_stops decl_name_stops)

lemmas lookup_stops = ast_getattr_stops get_ast_stops get_list_stops deref_stops decl_name_stops
  type_decl_name_stops

text \<open>What an attribute holds is smaller than the node.\<close>

lemma find_attr_in: "find_attr es name = Some e \<Longrightarrow> e \<in> set es"
  by (induction es) (auto split: if_splits)

lemma ast_getattr_smaller:
  assumes "ast_getattr node name = Inr (Some v)"
  obtains e where "attr_value e = v" and "size e < size node"
proof -
  from assms obtain h e where "h < length (attrs_of node)" "find_attr (attrs_of node ! h) name = Some e"
    "attr_value e = v"
    by (auto simp: ast_getattr_def bnd_r_Inr_iff rd_def split: if_splits option.splits)
  then show thesis
    using that size_chain [of e "attrs_of node ! h" node] by (auto dest: find_attr_in)
qed

lemma get_ast_smaller:
  assumes "get_ast node name = Inr (Some x)"
  shows "size x < size node"
proof -
  have "ast_getattr node name = Inr (Some (V_Ast (Some x)))"
  proof (cases "ast_getattr node name")
    case (Inr r)
    then show ?thesis
      using assms by (cases r) (auto simp: get_ast_def split: attr_value.splits)
  qed (use assms in \<open>simp add: get_ast_def\<close>)
  then obtain e where "attr_value e = V_Ast (Some x)" "size e < size node" by (rule ast_getattr_smaller)
  with size_value_ast [of e x] show ?thesis by simp
qed

lemma get_list_smaller:
  assumes "get_list node name = Inr (Some xs)" and "x \<in> set xs"
  shows "size x < size node"
proof -
  have "ast_getattr node name = Inr (Some (V_AstList (Some xs)))"
  proof (cases "ast_getattr node name")
    case (Inr r)
    then show ?thesis
      using assms(1) by (cases r) (auto simp: get_list_def split: attr_value.splits)
  qed (use assms in \<open>simp add: get_list_def\<close>)
  then obtain e where "attr_value e = V_AstList (Some xs)" "size e < size node" by (rule ast_getattr_smaller)
  with size_value_list [of e xs x] assms(2) show ?thesis by simp
qed

subsection \<open>The functions of build_symtable.c\<close>

lemma level_local_control_declaration:
  assumes "kind_of decl = Ast_BlockStmt \<Longrightarrow> level 0 (block decl)"
  shows "level 0 (local_control_declaration block decl)"
  using assms unfolding local_control_declaration_def Let_def
  by (auto intro!: level_bnd_lift level_declare_ident level_simple dest: decl_name_stops)

lemma level_when_list: "(\<And>xs. r = Some xs \<Longrightarrow> level 0 (f xs)) \<Longrightarrow> level 0 (when_list r f)"
  by (simp add: when_list_def level_simple split: option.split)

lemma level_when_attr_list:
  assumes "\<And>xs. get_list node name = Inr (Some xs) \<Longrightarrow> level 0 (f xs)" and "level d m"
  shows "level d (bnd (lift (get_list node name)) (\<lambda>r. bnd (when_list r f) (\<lambda>_. m)))"
  using assms by (intro level_bnd_lift level_bnd0 level_when_list get_list_stops) auto

lemma level_type_decl:
  "(\<And>type_decl nm. level d (f type_decl nm)) \<Longrightarrow>
   level d (bnd (lift (type_decl_name decl)) (\<lambda>(type_decl, nm). f type_decl nm))"
  by (rule level_bnd_lift) (auto dest: type_decl_name_stops)

lemma level_block_statement: "size blk < n \<Longrightarrow> level 0 (build_symtable_block_statement n blk)"
proof (induction n arbitrary: blk)
  case (Suc n)
  have "level 0 (local_control_declaration (build_symtable_block_statement n) x)"
    if "get_list blk ''stmt_list'' = Inr (Some xs)" "x \<in> set xs" for xs x
    using get_list_smaller [OF that] Suc by (intro level_local_control_declaration) simp
  then have "level (- 1) (bnd (lift (get_list blk ''stmt_list'')) (\<lambda>r. bnd (when_list r
      (for_each (local_control_declaration (build_symtable_block_statement n)))) (\<lambda>_. pop_cmd)))"
    by (intro level_when_attr_list level_for_each level_pop)
  then show ?case using level_bnd [OF level_push, of "- 1"] by simp
qed simp

lemma level_control:
  assumes "size decl \<le> n"
  shows "level 0 (build_symtable_control n decl)"
proof -
  have local: "level 0 (build_symtable_local_control_declarations n xs)"
    if "get_list decl ''local_decls'' = Inr (Some xs)" for xs
    unfolding build_symtable_local_control_declarations_def build_symtable_local_control_declaration_def
    by (intro level_scoped level_local_control_declaration level_block_statement)
      (use get_list_smaller [OF that] assms in force)
  have apply_stmt: "level 0 (case r of None \<Rightarrow> ret () | Some blk \<Rightarrow> build_symtable_block_statement n blk)"
    if "get_ast decl ''apply_stmt'' = Inr r" for r
    using that get_ast_smaller [of decl "''apply_stmt''"] assms
    by (cases r) (simp_all add: level_simple level_block_statement)
  have "level (- 1) (bnd (lift (get_list decl ''local_decls'')) (\<lambda>r.
      bnd (when_list r (build_symtable_local_control_declarations n)) (\<lambda>_.
      bnd (lift (get_ast decl ''apply_stmt'')) (\<lambda>r.
      bnd (case r of None \<Rightarrow> ret () | Some blk \<Rightarrow> build_symtable_block_statement n blk) (\<lambda>_. pop_cmd)))))"
    by (intro level_when_attr_list local level_bnd_lift level_bnd0 [OF apply_stmt] level_pop get_ast_stops)
  then have "level 0 (bnd push_cmd (\<lambda>_. bnd (lift (get_list decl ''local_decls'')) (\<lambda>r.
      bnd (when_list r (build_symtable_local_control_declarations n)) (\<lambda>_.
      bnd (lift (get_ast decl ''apply_stmt'')) (\<lambda>r.
      bnd (case r of None \<Rightarrow> ret () | Some blk \<Rightarrow> build_symtable_block_statement n blk) (\<lambda>_. pop_cmd))))))"
    using level_bnd [OF level_push, of "- 1"] by simp
  then show ?thesis
    unfolding build_symtable_control_def
    by (intro level_type_decl level_bnd0 [OF level_declare_type_name])
qed

lemma level_local_parser_element: "level 0 (build_symtable_local_parser_element element)"
  unfolding build_symtable_local_parser_element_def
  by (auto intro!: level_bnd_lift level_declare_ident level_simple(3) dest: decl_name_stops)

lemma level_parser: "level 0 (build_symtable_parser decl)"
proof -
  have "level (- 1) (bnd (lift (get_list decl ''local_elements'')) (\<lambda>r.
      bnd (when_list r build_symtable_local_parser_elements) (\<lambda>_. pop_cmd)))"
    unfolding build_symtable_local_parser_elements_def
    by (intro level_when_attr_list level_scoped level_local_parser_element level_pop)
  then have "level 0 (bnd push_cmd (\<lambda>_. bnd (lift (get_list decl ''local_elements'')) (\<lambda>r.
      bnd (when_list r build_symtable_local_parser_elements) (\<lambda>_. pop_cmd))))"
    using level_bnd [OF level_push, of "- 1"] by simp
  then show ?thesis
    unfolding build_symtable_parser_def
    by (intro level_type_decl level_bnd0 [OF level_declare_type_name])
qed

lemma level_decl_name:
  "(\<And>nm. level d (f nm)) \<Longrightarrow> level d (bnd (lift (decl_name decl)) f)"
  by (rule level_bnd_lift) (auto dest: decl_name_stops)

lemma level_function_proto: "level 0 (build_symtable_function_proto decl)"
  unfolding build_symtable_function_proto_def
  by (rule level_decl_name) (simp add: split_def level_bnd0 level_new_ident level_simple)

lemma level_when_list_end:
  "(\<And>xs. get_list node name = Inr (Some xs) \<Longrightarrow> level 0 (f xs)) \<Longrightarrow>
   level 0 (bnd (lift (get_list node name)) (\<lambda>r. when_list r f))"
  by (intro level_bnd_lift level_when_list get_list_stops) auto

lemma level_extern: "level 0 (build_symtable_extern decl)"
  unfolding build_symtable_extern_def build_symtable_extern_method_protos_def
  by (intro level_decl_name level_bnd0 [OF level_declare_type_name] level_when_list_end level_scoped
      level_function_proto)

lemma level_struct: "level 0 (build_symtable_struct decl)"
  unfolding build_symtable_struct_def build_symtable_struct_fields_def build_symtable_struct_field_def
  by (intro level_decl_name level_bnd0 [OF level_declare_type_name] level_when_list_end level_scoped
      level_declare_ident)

lemma level_type_decl_declaration: "level 0 (build_symtable_type_decl decl)"
  unfolding build_symtable_type_decl_def
  by (rule level_bnd_lift)
    (auto intro: level_decl_name level_declare_type_name level_simple ast_getattr_stops
      split: option.split attr_value.split)

lemma level_declaration: "size decl \<le> n \<Longrightarrow> level 0 (build_symtable_declaration n decl)"
  unfolding build_symtable_declaration_def Let_def build_symtable_package_def
    build_symtable_top_level_instantiation_def build_symtable_const_declaration_def
  by (intro level_if level_control level_extern level_struct level_parser level_type_decl_declaration
      level_function_proto level_decl_name level_declare_type_name level_declare_ident level_simple)

lemma level_program: "level 0 (build_symtable_program ast)"
proof -
  have inner: "level 0 (bnd (lift (deref r)) (for_each (build_symtable_declaration (size ast))))"
    if r: "get_list ast ''decl_list'' = Inr r" for r
  proof (rule level_bnd_lift)
    fix xs assume "deref r = Inr xs"
    then have "get_list ast ''decl_list'' = Inr (Some xs)"
      using r by (simp add: deref_def split: option.splits)
    then show "level 0 (for_each (build_symtable_declaration (size ast)) xs)"
      using get_list_smaller by (intro level_for_each level_declaration) (simp add: less_imp_le)
  qed (rule deref_stops)
  have "level 0 (bnd (lift (get_list ast ''decl_list'')) (\<lambda>r.
      bnd (lift (deref r)) (for_each (build_symtable_declaration (size ast)))))"
    by (rule level_bnd_lift [OF get_list_stops inner])
  from level_scope [OF this] show ?thesis
    unfolding build_symtable_program_def by (auto simp: bnd_assoc intro: level_simple)
qed

text \<open>
  C8: the pass over a program stops for every tree, at the latest with an assertion, a
  redeclaration or a bad access; when it returns, every scope it opened is closed again and
  the table is well formed.
\<close>

theorem build_symtable_program_balanced:
  assumes "symtable_wf st"
  shows "case build_symtable_program ast st of Inl f \<Rightarrow> f \<noteq> Out_of_fuel
    | Inr (_, st') \<Rightarrow> symtable_wf st' \<and> scope_level st' = scope_level st"
  using level_program [unfolded level_def, rule_format, OF assms, of ast]
  by (auto simp: wp_def stops_def split: sum.splits)

theorem build_symtable_program_balanced_witness:
  "build_symtable_program (blank_ast Ast_P4Program 1 1) (empty_symtable 5) \<noteq> Inl Out_of_fuel"
  using build_symtable_program_balanced [OF empty_symtable_wf, of 5 "blank_ast Ast_P4Program 1 1"]
  by (auto split: sum.splits)

end
