(* ===== verification/ProgramProps.thy ===== *)
theory ProgramProps
  imports Driver LexerProps ParseTerm WalkProps Keywords
begin

text \<open>
  The phases together: what scanner, symbol table, parser, printer and symbol table pass
  promise each other, and that the whole compiler stops.
\<close>

section \<open>The parser's start\<close>

lemma keyword_symbols_safe: "symbols st = keyword_symbols l \<Longrightarrow> keywords_safe st"
proof -
  have "\<forall>(name, k) \<in> set keyword_table. k \<notin> structural"
    by (simp add: keyword_table_def structural_def)
  then have "k \<notin> structural" if "map_of keyword_table name = Some k" for name k
    using map_of_SomeD [OF that] by auto
  then show "symbols st = keyword_symbols l \<Longrightarrow> keywords_safe st"
    by (auto simp: keywords_safe_def keyword_symbols_def keyword_symbol_def split: option.splits)
qed

lemma start_symtable_ready:
  assumes "symtable_init (symtable_start page) = Inr (u, st)"
  shows "symtable_wf st \<and> keywords_safe st"
  using symtable_init_post [of "symtable_start page" st] keyword_symbols_safe [of st] assms
  by (simp add: symtable_start_def)

lemma parse_tokens_stops:
  assumes "no_empty_statement ts"
  shows "case parse_tokens page ts of Inl f \<Rightarrow> stops f | Inr (ast, s) \<Rightarrow> symtable_wf (ps_symtable s)"
proof (cases "symtable_init (symtable_start page)")
  case (Inl f)
  then show ?thesis by (simp add: parse_tokens_def symtable_init_stops)
next
  case (Inr r)
  then obtain u st where st: "symtable_init (symtable_start page) = Inr (u, st)" by (cases r) auto
  show ?thesis
  proof (cases "ts = []")
    case True
    with st show ?thesis
      by (simp add: parse_tokens_def build_ast_program_def bnd_def gets_def init_parser_def
          assert_cmd_def fail_def)
  next
    case False
    then have "parse_inv (init_parser ts st)"
      using start_symtable_ready [OF st] assms by (simp add: parse_inv_def init_parser_def)
    from build_ast_program_stops [OF this, of "parse_fuel ts"] st show ?thesis
      by (auto simp: parse_tokens_def wp_def init_parser_def parse_fuel_def parse_inv_def
          split: sum.splits)
  qed
qed

section \<open>The whole compiler\<close>

lemma cstr_start_with_stops: "cstr_start_with str i pre j = Inl f \<Longrightarrow> stops f"
proof (induction str i pre j rule: cstr_start_with.induct)
  case (1 str i pre j)
  then show ?case by (auto simp: cstr_start_with.simps [of str i pre j] split: if_splits)
qed

lemma cstr_match_stops: "cstr_match a i b j = Inl f \<Longrightarrow> stops f"
proof (induction a i b j rule: cstr_match.induct)
  case (1 a i b j)
  then show ?case by (auto simp: cstr_match.simps [of a i b j] split: if_splits)
qed

lemma parse_cmdline_arg_stops: "parse_cmdline_arg arg = Inl f \<Longrightarrow> stops f"
  unfolding parse_cmdline_arg_def by (elim bnd_r_stops) (auto dest: cstr_start_with_stops split: if_splits)

lemma find_named_arg_stops: "find_named_arg name args = Inl f \<Longrightarrow> stops f"
proof (induction args)
  case (Cons a args)
  then show ?case
    by (auto elim!: bnd_r_stops dest: cstr_match_stops split: option.splits if_splits)
qed simp

lemma print_ast_stops: "print_ast ast = Inl f \<Longrightarrow> stops f"
  using print_ast_depth_prints [of ast "Suc (size ast)", unfolded prints_def, rule_format,
      of "\<lparr>tab_level = 0, printed = []\<rparr>"]
  by (auto simp: print_ast_def wp_def simp del: print_ast_depth.simps split: sum.splits)

lemma flushed_wf:
  assumes "symtable_wf st" and "symtable_flush st = Inr (u, st')"
  shows "symtable_wf st'"
proof -
  have "0 < capacity_log2 st" using assms(1) by (simp add: symtable_wf_def chains_wf_def)
  then show ?thesis
    using assms(2) symtable_init_post [of "st\<lparr>entry_count := 0, scope_level := 0\<rparr>" st']
    by (simp add: symtable_flush_def bnd_def modify_def)
qed

lemma compile_stops:
  assumes "\<And>ts. lex_tokenize src = Inr ts \<Longrightarrow> no_empty_statement ts"
  shows "compile page dump src = Inl f \<Longrightarrow> stops f"
proof -
  assume run: "compile page dump src = Inl f"
  show "stops f"
  proof (cases "lex_tokenize src")
    case (Inl g)
    with lex_tokenize_post [of src] run show ?thesis
      by (auto simp: compile_def wp_def lex_tokenize_def lex_err_def split: sum.splits)
  next
    case (Inr ts)
    note parse = parse_tokens_stops [OF assms [OF Inr], of page]
    show ?thesis
    proof (cases "parse_tokens page ts")
      case (Inl g)
      with parse run Inr show ?thesis by (simp add: compile_def)
    next
      fix r assume "parse_tokens page ts = Inr r"
      then obtain ast s where r: "parse_tokens page ts = Inr (ast, s)" by (cases r) auto
      then have wf: "symtable_wf (ps_symtable s)" using parse by simp
      have print: "stops g" if "(if dump then print_ast ast else Inr []) = Inl g" for g
        using that print_ast_stops by (auto split: if_splits)
      have pass: "stops g" if "symtable_flush (ps_symtable s) = Inr (u, st)" "build_symtable_program ast st = Inl g"
        for u st g
        using level_program [unfolded level_def, rule_format, OF flushed_wf [OF wf that(1)], of ast] that(2)
        by (simp add: wp_def)
      from run Inr r show ?thesis
        by (auto simp: compile_def split: if_splits prod.splits elim!: bnd_r_stops
            intro: print pass symtable_flush_stops)
    qed
  qed
qed

lemma main_program_stops:
  assumes "\<And>name src ts. files name = Some src \<Longrightarrow> lex_tokenize src = Inr ts \<Longrightarrow> no_empty_statement ts"
    and run: "main_program page files args = Inl f"
  shows "stops f"
proof -
  have cmdline: "stops g" if "parse_cmdline_args as = Inl g" for as g
    using map_r_stops [of parse_cmdline_arg "tl as" g] that parse_cmdline_arg_stops
    by (auto simp: parse_cmdline_args_def)
  have comp: "stops g" if "deref (files name) = Inr src" "compile page dump src = Inl g" for name src dump g
    using compile_stops [of src page dump g] assms(1) [of name src] that
    by (auto simp: deref_def split: option.splits)
  show ?thesis
    using run unfolding main_program_def
    by (auto split: option.splits elim!: bnd_r_stops intro: cmdline deref_stops find_named_arg_stops comp)
qed

text \<open>
  C1: the compiler stops: for every command line and every set of files, \<open>main\<close> ends with its
  output, a diagnostic, an assertion or an access outside an object, never in an endless loop,
  if no \<open>;\<close> of the source stands directly after \<open>{\<close>, \<open>}\<close> or \<open>;\<close> (comments aside).
\<close>

theorem main_program_terminates:
  assumes "\<And>name src ts. files name = Some src \<Longrightarrow> lex_tokenize src = Inr ts \<Longrightarrow> no_empty_statement ts"
  shows "main_program page files args \<noteq> Inl Out_of_fuel"
  using main_program_stops [of files page args, OF assms] by (fastforce simp: stops_def)

theorem main_program_terminates_witness:
  "main_program 4096 (\<lambda>name. if name = ''f'' then Some ''a;'' else None) [''ashp4c'', ''f''] \<noteq> Inl Out_of_fuel"
proof (rule main_program_terminates)
  fix name src ts
  assume "(if name = ''f'' then Some ''a;'' else None) = Some src" and ts: "lex_tokenize src = Inr ts"
  then have src: "src = ''a;''" by (simp split: if_splits)
  have "case lex_tokenize ''a;'' of Inl f \<Rightarrow> False
    | Inr ts \<Rightarrow> map klass ts = [Token_StartOfInput, Token_Identifier, Token_Semicolon, Token_EndOfInput]"
    by code_simp
  then have k: "map klass ts = [Token_StartOfInput, Token_Identifier, Token_Semicolon, Token_EndOfInput]"
    using ts src by simp
  have "klass (ts ! i) = map klass ts ! i" "length ts = 4" if "i < length ts" for i
    using that arg_cong [OF k, of length] by simp_all
  then show "no_empty_statement ts"
    using k by (auto simp: no_empty_statement_def closed_at_def closers_def less_Suc_eq numeral_eq_Suc)
qed

end
