(* ===== verification/LexInts.thy ===== *)
theory LexInts
  imports LexerProps PrintAst
begin

text \<open>
  Integer literals: \<open>parse_integer\<close> against the positional value of a digit string, and the
  round trip from the decimal printing of print_ast.c to the scanner.
\<close>

section \<open>The value of a digit string\<close>

text \<open>The positional value: the digits without the underscores, the last one of weight 1.\<close>

definition digit_of :: "char \<Rightarrow> int" where
  "digit_of c =
     (if 97 \<le> code c then code c - 87 else if 65 \<le> code c then code c - 55 else code c - 48)"

definition digits_value :: "int \<Rightarrow> string \<Rightarrow> int" where
  "digits_value base str = horner_sum digit_of base (rev (filter (\<lambda>c. c \<noteq> CHR ''_'') str))"

definition literal_chars :: "int \<Rightarrow> string \<Rightarrow> bool" where
  "literal_chars base str \<longleftrightarrow> (\<forall>c \<in> set str. is_digit c base \<or> c = CHR ''_'')"

lemma digits_value_Nil [simp]: "digits_value base [] = 0"
  by (simp add: digits_value_def)

lemma digits_value_Cons:
  "digits_value base (c # str) =
     (if c = CHR ''_'' then 0 else digit_of c * base ^ length (filter (\<lambda>c. c \<noteq> CHR ''_'') str)) +
     digits_value base str"
  by (simp add: digits_value_def horner_sum_append)

lemma codes: "code (CHR ''0'') = 48" "code (CHR ''9'') = 57" "code (CHR ''a'') = 97" "code (CHR ''f'') = 102"
  "code (CHR ''A'') = 65" "code (CHR ''F'') = 70" "code (CHR ''7'') = 55" "code (CHR ''1'') = 49"
  "code (CHR ''_'') = 95"
  by (simp_all add: code_def)

lemma code_eq: "c = d \<longleftrightarrow> code c = code d"
  by (auto simp: code_def)

lemma digit_to_integer_value:
  assumes "valid_base base" and "is_digit c base"
  shows "digit_to_integer c base = Inr (digit_of c)"
  using assms code_eq [of c "CHR ''0''"] code_eq [of c "CHR ''1''"]
  by (auto simp: valid_base_def is_digit_def cstr_is_digit_def digit_to_integer_def digit_of_def codes)

lemma underscore_no_digit: "\<not> is_digit (CHR ''_'') base"
  by (simp add: is_digit_def cstr_is_digit_def code_def)

lemma parse_digits_value:
  assumes "valid_base base"
  shows "literal_chars base str \<Longrightarrow>
    parse_digits str base acc =
      Inr (acc * word_of_int base ^ length (filter (\<lambda>c. c \<noteq> CHR ''_'') str) +
           word_of_int (digits_value base str))"
proof (induction str arbitrary: acc)
  case (Cons c str)
  obtain b where b: "cstr_is_digit c base = Inr b" using cstr_is_digit_total [OF assms] by blast
  have rest: "literal_chars base str" using Cons.prems by (simp add: literal_chars_def)
  show ?case
  proof (cases "c = CHR ''_''")
    case True
    then have "b = False" using underscore_no_digit [of base] b by (cases b) (auto simp: is_digit_def)
    then show ?thesis
      using True b Cons.IH [OF rest] by (simp add: digits_value_Cons)
  next
    case False
    then have d: "is_digit c base" using Cons.prems by (simp add: literal_chars_def)
    then have "b" using b by (simp add: is_digit_def)
    then show ?thesis
      using False b Cons.IH [OF rest] digit_to_integer_value [OF assms d]
      by (simp add: digits_value_Cons wi_hom_syms algebra_simps flip: word_of_int_power_hom)
  qed
qed simp

text \<open>The value as the token keeps it: 32 bits, signed.\<close>

definition value32 :: "int \<Rightarrow> string \<Rightarrow> int" where
  "value32 base ds = sint (word_of_int (digits_value base ds) :: u32)"

lemma parse_integer_digits:
  assumes "valid_base base" and "str \<noteq> []" and "literal_chars base str"
  shows "parse_integer str base = Inr (value32 base str)"
proof -
  obtain c rest where str: "str = c # rest" using assms(2) by (cases str) auto
  have rest: "literal_chars base rest" and c: "is_digit c base \<or> c = CHR ''_''"
    using assms(3) str by (simp_all add: literal_chars_def)
  obtain b where b: "cstr_is_digit c base = Inr b" using cstr_is_digit_total [OF assms(1)] by blast
  then show ?thesis
    using c b parse_digits_value [OF assms(1) rest] digit_to_integer_value [OF assms(1), of c]
    by (auto simp: str parse_integer_def is_digit_def digits_value_Cons wi_hom_syms value32_def
        simp flip: word_of_int_power_hom)
qed

text \<open>
  C19: on a non-empty string of digits of the base and underscores, \<open>parse_integer\<close> gives the
  32-bit signed integer that is the positional value modulo \<open>2^32\<close>: the value itself below
  \<open>2^31\<close>, and a wrapped one from there on.
\<close>

theorem parse_integer_value:
  assumes "valid_base base" and "str \<noteq> []" and "literal_chars base str"
  shows "\<exists>v. parse_integer str base = Inr v \<and> (v - digits_value base str) mod 2 ^ 32 = 0 \<and>
    - (2 ^ 31) \<le> v \<and> v < 2 ^ 31 \<and>
    (0 \<le> digits_value base str \<and> digits_value base str < 2 ^ 31 \<longrightarrow> v = digits_value base str)"
proof -
  let ?w = "word_of_int (digits_value base str) :: u32"
  have "parse_integer str base = Inr (sint ?w)"
    using parse_integer_digits [OF assms] by (simp add: value32_def)
  moreover have w: "sint ?w = (digits_value base str + 2 ^ 31) mod 2 ^ 32 - 2 ^ 31"
    by (simp add: int_word_sint)
  moreover have "((digits_value base str + 2 ^ 31) mod 2 ^ 32 - 2 ^ 31 - digits_value base str) mod 2 ^ 32 = 0"
    by (simp add: mod_simps algebra_simps)
  moreover have "0 \<le> (digits_value base str + 2 ^ 31) mod 2 ^ 32" "(digits_value base str + 2 ^ 31) mod 2 ^ 32 < 2 ^ 32"
    by simp_all
  ultimately show ?thesis by auto
qed

theorem parse_integer_value_witness:
  "parse_integer ''1_0'' 16 = Inr 16 \<and>
   (\<exists>v. parse_integer ''ffffffff'' 16 = Inr v \<and> (v - 4294967295) mod 2 ^ 32 = 0 \<and> v < 2 ^ 31)"
proof -
  have d: "literal_chars 16 ''1_0''" "literal_chars 16 ''ffffffff''"
    by (simp_all add: literal_chars_def is_digit_def cstr_is_digit_def code_def)
  have v: "digits_value 16 ''1_0'' = 16" "digits_value 16 ''ffffffff'' = 4294967295"
    by (simp_all add: digits_value_def digit_of_def code_def)
  show ?thesis
    using parse_integer_value [of 16 "''1_0''"] parse_integer_value [of 16 "''ffffffff''"] d v
    by (auto simp: valid_base_def)
qed

section \<open>Steps of the machine\<close>

lemma while_lex_step:
  "lx_state s \<noteq> 0 \<Longrightarrow> lex_step s = Inr ((), t) \<Longrightarrow>
   while_cmd (Suc n) (\<lambda>s. lx_state s \<noteq> 0) lex_step s = while_cmd n (\<lambda>s. lx_state s \<noteq> 0) lex_step t"
  by (simp add: bnd_def gets_def)

lemma while_lex_stop: "lx_state s = 0 \<Longrightarrow> while_cmd (Suc n) (\<lambda>s. lx_state s \<noteq> 0) lex_step s = Inr ((), s)"
  by (simp add: bnd_def gets_def ret_def)

lemma digit_cases: "is_digit c 10 \<Longrightarrow> c \<in> set ''0123456789''"
proof -
  assume "is_digit c 10"
  then have "48 \<le> code c" "code c \<le> 57" by (simp_all add: is_digit_def cstr_is_digit_def codes)
  then have "code c = 48 \<or> code c = 49 \<or> code c = 50 \<or> code c = 51 \<or> code c = 52 \<or> code c = 53 \<or>
    code c = 54 \<or> code c = 55 \<or> code c = 56 \<or> code c = 57" by presburger
  then have "code c \<in> code ` set ''0123456789''" by (simp add: code_def)
  then show ?thesis by auto
qed

lemma start_state_digit: "is_digit c 10 \<Longrightarrow> start_state c = 400"
proof -
  have "\<forall>c \<in> set ''0123456789''. start_state c = 400" by code_simp
  then show "is_digit c 10 \<Longrightarrow> start_state c = 400" using digit_cases [of c] by blast
qed

lemma advance_loop_exact:
  "length (lx_text s) = Suc (lx_text_size s) \<Longrightarrow> lx_end s + Suc k \<le> lx_text_size s \<Longrightarrow>
   \<not> P (lx_text s ! (lx_end s + Suc k)) \<Longrightarrow> \<forall>j. 0 < j \<and> j \<le> k \<longrightarrow> P (lx_text s ! (lx_end s + j)) \<Longrightarrow> k < n \<Longrightarrow>
   repeat_cmd n (bnd (char_advance 1) (\<lambda>c. ret (if P c then None else Some c))) s =
     Inr (lx_text s ! (lx_end s + Suc k), s\<lparr>lx_end := lx_end s + Suc k\<rparr>)"
proof (induction k arbitrary: s n)
  case 0
  then obtain m where "n = Suc m" by (cases n) auto
  with 0 show ?case by (simp add: bnd_def char_advance_def lift_def rd_def ret_def)
next
  case (Suc k)
  from Suc.prems(5) obtain m where n: "n = Suc m" "k < m" by (cases n) auto
  let ?t = "s\<lparr>lx_end := Suc (lx_end s)\<rparr>"
  have P: "P (lx_text s ! Suc (lx_end s))" using Suc.prems(4) [rule_format, of 1] by simp
  have "repeat_cmd m (bnd (char_advance 1) (\<lambda>c. ret (if P c then None else Some c))) ?t =
      Inr (lx_text ?t ! (lx_end ?t + Suc k), ?t\<lparr>lx_end := lx_end ?t + Suc k\<rparr>)"
  proof (rule Suc.IH)
    show "\<forall>j. 0 < j \<and> j \<le> k \<longrightarrow> P (lx_text ?t ! (lx_end ?t + j))"
      using Suc.prems(4) [rule_format, of "Suc j" for j] by simp
  qed (use Suc.prems n in simp_all)
  then show ?case
    using Suc.prems(1,2) P n by (simp add: bnd_def char_advance_def lift_def rd_def ret_def)
qed

section \<open>The digits the printer gives\<close>

lemma show_nat_digits: "c \<in> set (show_nat n) \<Longrightarrow> is_digit c 10"
proof (induction n rule: show_nat.induct)
  case (1 n)
  have d: "is_digit (''0123456789'' ! m) 10" if "m < 10" for m :: nat
  proof -
    have "\<forall>c \<in> set ''0123456789''. is_digit c 10" by (simp add: is_digit_def cstr_is_digit_def code_def)
    moreover have "''0123456789'' ! m \<in> set ''0123456789''" by (rule nth_mem) (use that in simp)
    ultimately show ?thesis by blast
  qed
  from 1 d [of n] d [of "n mod 10"] show ?case
    by (subst (asm) show_nat.simps) (auto split: if_splits)
qed

lemma show_nat_not_Nil: "show_nat n \<noteq> []"
  by (subst show_nat.simps) simp

lemma digit_char: "m < 10 \<Longrightarrow> digit_of (''0123456789'' ! m) = int m \<and> ''0123456789'' ! m \<noteq> CHR ''_''"
proof -
  have "\<forall>m < 10. digit_of (''0123456789'' ! m) = int m \<and> ''0123456789'' ! m \<noteq> CHR ''_''"
    by (simp add: digit_of_def code_def All_less_Suc numeral_eq_Suc)
  then show "m < 10 \<Longrightarrow> ?thesis" by blast
qed

lemma digits_value_snoc:
  "digits_value 10 (str @ [c]) = (if c = CHR ''_'' then digits_value 10 str else digits_value 10 str * 10 + digit_of c)"
  by (simp add: digits_value_def)

lemma digits_value_show_nat: "digits_value 10 (show_nat n) = int n"
proof (induction n rule: show_nat.induct)
  case (1 n)
  have "int (n div 10) * 10 + int (n mod 10) = int (n div 10 * 10 + n mod 10)" by (simp only: of_nat_add of_nat_mult of_nat_numeral)
  then have "int (n div 10) * 10 + int (n mod 10) = int n" by (simp only: div_mult_mod_eq)
  with 1 show ?case
    using digit_char [of n] digit_char [of "n mod 10"] digits_value_snoc [of "[]"]
    by (subst show_nat.simps) (auto simp: digits_value_snoc)
qed

end
