(* ===== verification/Lexicon.thy ===== *)
theory Lexicon
  imports LexInts
begin

text \<open>
  The lexical grammar: words, what each is spelled like, which character ends it, and the token it
  stands for; and the proof that the scanner turns every text that is spelled by words into
  their tokens. The end of a word is decided by one character, the one behind it: a word is
  taken as long as that character does not make it longer.
\<close>

section \<open>Words\<close>

text \<open>The operators and brackets, with their class and the characters that would make them longer.\<close>

definition marks :: "(string \<times> token_class \<times> string) list" where
  "marks =
    [('';'', Token_Semicolon, ''''), ('':'', Token_Colon, ''''), (''('', Token_ParenthOpen, ''''),
     ('')'', Token_ParenthClose, ''''), (''.'', Token_DotPrefix, ''''), (''{'', Token_BraceOpen, ''''),
     (''}'', Token_BraceClose, ''''), (''['', Token_BracketOpen, ''''), ('']'', Token_BracketClose, ''''),
     ('','', Token_Comma, ''''), (''+'', Token_Plus, ''''), (''*'', Token_Star, ''''),
     (''^'', Token_Circumflex, ''''), (''~'', Token_Tilda, ''''), (''/'', Token_Slash, ''*/''),
     (''<'', Token_AngleOpen, ''=<''), (''<='', Token_AngleOpenEqual, ''''), (''<<'', Token_TwoAngleOpen, ''''),
     (''>'', Token_AngleClose, ''=>''), (''>='', Token_AngleCloseEqual, ''''), (''>>'', Token_TwoAngleClose, ''''),
     (''='', Token_Equal, ''=''), (''=='', Token_TwoEqual, ''''), (''!'', Token_Exclamation, ''=''),
     (''!='', Token_ExclamationEqual, ''''), (''&'', Token_Ampersand, ''&''), (''&&'', Token_TwoAmpersand, ''&''),
     (''&&&'', Token_ThreeAmpersand, ''''), (''|'', Token_Pipe, ''|''), (''||'', Token_TwoPipe, '''')]"

text \<open>
  A literal has a prefix that gives its base, or none for decimals. A sized literal begins with its
  width and the letter for signed or unsigned.
\<close>

definition radixes :: "(string \<times> int) list" where
  "radixes = [('''', 10), (''0x'', 16), (''0X'', 16), (''0o'', 8), (''0O'', 8), (''0b'', 2), (''0B'', 2)]"

definition base_of :: "string \<Rightarrow> int" where
  "base_of prefix = the (map_of radixes prefix)"

definition literal_char :: "string \<Rightarrow> char \<Rightarrow> bool" where
  "literal_char prefix c \<longleftrightarrow> is_digit c (base_of prefix) \<or> prefix \<noteq> '''' \<and> c = CHR ''_''"

datatype lexical =
    Mark string
  | Dash
  | Underscore
  | Name string
  | Number string string
  | Sized string bool string string
  | Quoted string

fun spelling :: "lexical \<Rightarrow> string" where
  "spelling (Mark m) = m"
| "spelling Dash = ''-''"
| "spelling Underscore = ''_''"
| "spelling (Name n) = n"
| "spelling (Number prefix ds) = prefix @ ds"
| "spelling (Sized width is_signed prefix ds) = width @ (if is_signed then ''s'' else ''w'') @ prefix @ ds"
| "spelling (Quoted str) = [CHR 0x22] @ str @ [CHR 0x22]"

definition number_ok :: "string \<Rightarrow> string \<Rightarrow> bool" where
  "number_ok prefix ds \<longleftrightarrow> prefix \<in> fst ` set radixes \<and> ds \<noteq> '''' \<and> (\<forall>c \<in> set ds. literal_char prefix c)"

fun word_ok :: "lexical \<Rightarrow> bool" where
  "word_ok (Mark m) \<longleftrightarrow> m \<in> fst ` set marks"
| "word_ok (Name n) \<longleftrightarrow> n \<noteq> '''' \<and> n \<noteq> ''_'' \<and> (\<forall>c \<in> set n. is_word_char c) \<and> \<not> is_digit (hd n) 10"
| "word_ok (Number prefix ds) \<longleftrightarrow> number_ok prefix ds"
| "word_ok (Sized width is_signed prefix ds) \<longleftrightarrow> number_ok '''' width \<and> number_ok prefix ds"
| "word_ok (Quoted str) \<longleftrightarrow> (\<forall>c \<in> set str. c \<noteq> BACKSLASH \<and> c \<noteq> CHR 0x22 \<and> c \<noteq> NUL \<and> c \<noteq> LF \<and> c \<noteq> CR)"
| "word_ok _ \<longleftrightarrow> True"

text \<open>The character behind a word does not belong to it.\<close>

definition number_ends :: "string \<Rightarrow> string \<Rightarrow> char \<Rightarrow> bool" where
  "number_ends prefix ds c \<longleftrightarrow> \<not> literal_char prefix c \<and> (prefix = '''' \<and> ds = ''0'' \<longrightarrow> c \<notin> set ''xXoObB'')"

fun ends :: "lexical \<Rightarrow> char \<Rightarrow> bool" where
  "ends (Mark m) c \<longleftrightarrow> c \<notin> set (snd (the (map_of marks m)))"
| "ends Dash c \<longleftrightarrow> True"
| "ends Underscore c \<longleftrightarrow> \<not> is_word_char c"
| "ends (Name n) c \<longleftrightarrow> \<not> is_word_char c"
| "ends (Number prefix ds) c \<longleftrightarrow> number_ends prefix ds c \<and> (prefix = '''' \<longrightarrow> c \<notin> set ''ws'')"
| "ends (Sized width is_signed prefix ds) c \<longleftrightarrow> number_ends prefix ds c"
| "ends (Quoted str) c \<longleftrightarrow> True"

section \<open>Tokens\<close>

text \<open>The token of a word, given the class of the token before it and the line.\<close>

fun token_of :: "token_class \<Rightarrow> int \<Rightarrow> lexical \<Rightarrow> token" where
  "token_of prev n (Mark m) = zero_token\<lparr>klass := fst (the (map_of marks m)), lexeme := m, tk_line_nr := n\<rparr>"
| "token_of prev n Dash =
     zero_token\<lparr>klass := if prev = Token_ParenthOpen then Token_UnaryMinus else Token_Minus, lexeme := ''-'', tk_line_nr := n\<rparr>"
| "token_of prev n Underscore = zero_token\<lparr>klass := Token_Dontcare, lexeme := ''_'', tk_line_nr := n\<rparr>"
| "token_of prev n (Name str) = zero_token\<lparr>klass := Token_Identifier, lexeme := str, tk_line_nr := n\<rparr>"
| "token_of prev n (Number prefix ds) =
     zero_token\<lparr>klass := Token_Integer, lexeme := prefix @ ds, tk_line_nr := n, i_flags := AstInteger_IsSigned,
       i_value := value32 (base_of prefix) ds\<rparr>"
| "token_of prev n (Sized width is_signed prefix ds) =
     zero_token\<lparr>klass := Token_Integer, lexeme := spelling (Sized width is_signed prefix ds), tk_line_nr := n,
       i_flags := AstInteger_HasWidth OR (if is_signed then AstInteger_IsSigned else 0),
       i_width := value32 10 width, i_value := value32 (base_of prefix) ds\<rparr>"
| "token_of prev n (Quoted str) =
     zero_token\<lparr>klass := Token_StringLiteral, lexeme := spelling (Quoted str), tk_line_nr := n\<rparr>"

text \<open>A text: words with the white space in front of each, and white space at the end.\<close>

type_synonym passage = "(string \<times> lexical) list"

definition blank :: "string \<Rightarrow> bool" where
  "blank str \<longleftrightarrow> (\<forall>c \<in> set str. c = CHR '' '' \<or> c = TAB \<or> c = LF)"

definition lines_of :: "string \<Rightarrow> int" where
  "lines_of str = int (length (filter (\<lambda>c. c = LF) str))"

fun spell :: "passage \<Rightarrow> string \<Rightarrow> string" where
  "spell [] rest = rest"
| "spell ((b, w) # ws) rest = b @ spelling w @ spell ws rest"

fun separated :: "passage \<Rightarrow> string \<Rightarrow> bool" where
  "separated [] rest \<longleftrightarrow> True"
| "separated ((b, w) # ws) rest \<longleftrightarrow> ends w (hd (spell ws rest @ [NUL])) \<and> separated ws rest"

fun tokens_of :: "token_class \<Rightarrow> int \<Rightarrow> passage \<Rightarrow> string \<Rightarrow> token list" where
  "tokens_of prev n [] rest =
     [zero_token\<lparr>klass := Token_EndOfInput, lexeme := ''<end-of-input>'', tk_line_nr := n + lines_of rest\<rparr>]"
| "tokens_of prev n ((b, w) # ws) rest =
     (let t = token_of prev (n + lines_of b) w in t # tokens_of (klass t) (n + lines_of b) ws rest)"

section \<open>Parts of the text\<close>

text \<open>The string \<open>v\<close> stands in the text at \<open>q\<close>.\<close>

fun stands :: "string \<Rightarrow> nat \<Rightarrow> string \<Rightarrow> bool" where
  "stands buf q [] \<longleftrightarrow> True"
| "stands buf q (c # v) \<longleftrightarrow> q < length buf \<and> buf ! q = c \<and> stands buf (Suc q) v"

lemma stands_append [simp]: "stands buf q (u @ v) \<longleftrightarrow> stands buf q u \<and> stands buf (q + length u) v"
  by (induction u arbitrary: q) auto

lemma stands_nth: "stands buf q v \<Longrightarrow> i < length v \<Longrightarrow> q + i < length buf \<and> buf ! (q + i) = v ! i"
proof (induction v arbitrary: q i)
  case (Cons c v)
  then show ?case by (cases i) fastforce+
qed simp

lemma stands_take: "stands buf q v \<Longrightarrow> take (length v) (drop q buf) = v"
proof (induction v arbitrary: q)
  case (Cons c v)
  then show ?case by (simp add: Cons_nth_drop_Suc [symmetric])
qed simp

lemma stands_length: "stands buf q v \<Longrightarrow> v \<noteq> [] \<Longrightarrow> q + length v \<le> length buf"
  using stands_nth [of buf q v "length v - 1"] by (cases v) auto

lemma stands_whole: "stands (u @ v @ w) (length u) v"
proof (induction v arbitrary: u)
  case (Cons c v)
  show ?case using Cons.IH [of "u @ [c]"] by simp
qed simp

definition plain :: "string \<Rightarrow> bool" where
  "plain v \<longleftrightarrow> v \<noteq> [] \<and> BACKSLASH \<notin> set v \<and> NUL \<notin> set v"

text \<open>Copying a lexeme without a backslash is taking a part of the text.\<close>

lemma lexeme_copy_stands:
  "stands buf src (c # v) \<Longrightarrow> BACKSLASH \<notin> set (c # v) \<Longrightarrow>
   lexeme_copy buf src (src + length v) dest = Inr (dest @ c # v)"
proof (induction v arbitrary: src c dest)
  case Nil
  then show ?case by (subst lexeme_copy.simps) (simp add: copy_step_def)
next
  case (Cons d v)
  then have "lexeme_copy buf (Suc src) (Suc src + length v) (dest @ [c]) = Inr ((dest @ [c]) @ d # v)"
    by (intro Cons.IH) auto
  moreover have "copy_step buf src = Inr (c, Suc src)"
    using Cons.prems by (auto simp: copy_step_def)
  ultimately show ?case by (subst lexeme_copy.simps) simp
qed

lemma lexeme_stands:
  assumes "stands buf q v" and "plain v" and "e = q + length v - 1"
  shows "lexeme_to_cstring buf q e = Inr v"
proof -
  obtain c u where v: "v = c # u" using assms(2) by (cases v) (auto simp: plain_def)
  then have "lexeme_copy buf q e [] = Inr v"
    using lexeme_copy_stands [of buf q c u "[]"] assms by (simp add: plain_def)
  moreover have "takeWhile (\<lambda>c. c \<noteq> NUL) v = v"
    using assms(2) by (auto simp: plain_def takeWhile_eq_all_conv)
  ultimately show ?thesis by (simp add: lexeme_to_cstring_def)
qed

section \<open>Runs of the machine\<close>

definition reaches :: "nat \<Rightarrow> lexer \<Rightarrow> lexer \<Rightarrow> bool" where
  "reaches n s t \<longleftrightarrow>
     (\<forall>k. while_cmd (n + k) (\<lambda>s. lx_state s \<noteq> 0) lex_step s = while_cmd k (\<lambda>s. lx_state s \<noteq> 0) lex_step t)"

lemma reaches_refl [simp]: "reaches 0 s s"
  by (simp add: reaches_def)

lemma reaches_trans: "reaches m s t \<Longrightarrow> reaches n t u \<Longrightarrow> reaches (m + n) s u"
  by (simp add: reaches_def add.assoc)

lemma reaches_step: "lex_step s = Inr ((), t) \<Longrightarrow> lx_state s \<noteq> 0 \<Longrightarrow> reaches n t u \<Longrightarrow> reaches (Suc n) s u"
  unfolding reaches_def add_Suc using while_lex_step by metis

text \<open>The characters in front of the machine.\<close>

definition ahead :: "lexer \<Rightarrow> string \<Rightarrow> bool" where
  "ahead s v \<longleftrightarrow> length (lx_text s) = Suc (lx_text_size s) \<and> stands (lx_text s) (lx_end s) v"

lemma ahead_append: "ahead s (u @ v) \<Longrightarrow> ahead s u" "ahead s (u @ v) \<Longrightarrow> ahead (s\<lparr>lx_end := lx_end s + length u\<rparr>) v"
  by (simp_all add: ahead_def)

lemma ahead_update [simp]:
  "ahead (s\<lparr>lx_state := k\<rparr>) v \<longleftrightarrow> ahead s v" "ahead (s\<lparr>lx_token := tok\<rparr>) v \<longleftrightarrow> ahead s v"
  "ahead (s\<lparr>lx_start1 := i\<rparr>) v \<longleftrightarrow> ahead s v" "ahead (s\<lparr>lx_end1 := i\<rparr>) v \<longleftrightarrow> ahead s v"
  "ahead (s\<lparr>lx_tokens := ts\<rparr>) v \<longleftrightarrow> ahead s v" "ahead (s\<lparr>lx_start := i\<rparr>) v \<longleftrightarrow> ahead s v"
  "ahead (s\<lparr>lx_line_nr := n\<rparr>) v \<longleftrightarrow> ahead s v"
  by (simp_all add: ahead_def)

lemma lookahead:
  "ahead s (c # v) \<Longrightarrow> char_lookahead 0 s = Inr (c, s)"
  "ahead s (d # c # v) \<Longrightarrow> char_lookahead (Suc 0) s = Inr (c, s)"
  by (auto simp: ahead_def char_lookahead_def lift_def)

lemma advance:
  "ahead s (d # c # v) \<Longrightarrow> char_advance (Suc 0) s = Inr (c, s\<lparr>lx_end := Suc (lx_end s)\<rparr>)"
  "ahead s (d # v) \<Longrightarrow> ahead (s\<lparr>lx_end := Suc (lx_end s)\<rparr>) v"
  by (auto simp: ahead_def char_advance_def lift_def)

lemma advance_two: "ahead s (d # e # c # v) \<Longrightarrow> char_advance 2 s = Inr (c, s\<lparr>lx_end := lx_end s + 2\<rparr>)"
  by (auto simp: ahead_def char_advance_def lift_def numeral_2_eq_2)

lemma advance_run:
  assumes "ahead s (x # v @ [c])" and "\<And>d. d \<in> set v \<Longrightarrow> P d" and "\<not> P c"
  shows "advance_while P s = Inr (c, s\<lparr>lx_end := lx_end s + Suc (length v)\<rparr>)"
proof -
  have st: "stands (lx_text s) (lx_end s) (x # v @ [c])" and len: "length (lx_text s) = Suc (lx_text_size s)"
    using assms(1) by (simp_all add: ahead_def)
  have at: "lx_end s + i < length (lx_text s) \<and> lx_text s ! (lx_end s + i) = (x # v @ [c]) ! i" if "i \<le> Suc (length v)" for i
    using stands_nth [OF st, of i] that by simp
  have "repeat_cmd (Suc (lx_text_size s)) (bnd (char_advance 1) (\<lambda>c. ret (if P c then None else Some c))) s =
      Inr (lx_text s ! (lx_end s + Suc (length v)), s\<lparr>lx_end := lx_end s + Suc (length v)\<rparr>)"
  proof (rule advance_loop_exact)
    show "\<forall>j. 0 < j \<and> j \<le> length v \<longrightarrow> P (lx_text s ! (lx_end s + j))"
    proof (intro allI impI)
      fix j assume j: "0 < j \<and> j \<le> length v"
      then obtain i where "j = Suc i" "i < length v" by (cases j) auto
      then show "P (lx_text s ! (lx_end s + j))" using at [of j] assms(2) [of "v ! i"] by (simp add: nth_append)
    qed
  qed (use at [of "Suc (length v)"] len assms(3) in simp_all)
  then show ?thesis
    using at [of "Suc (length v)"] by (simp add: advance_while_def del: repeat_cmd.simps)
qed

text \<open>The state after the token with the lexeme \<open>v\<close>.\<close>

definition finished :: "lexer \<Rightarrow> string \<Rightarrow> lexer" where
  "finished s v = s\<lparr>lx_token := (lx_token s)\<lparr>lexeme := v\<rparr>, lx_end := lx_start s + length v,
     lx_start := lx_start s + length v, lx_state := 0\<rparr>"

lemma finish:
  assumes "stands (lx_text s) (lx_start s) (v @ [c])" and "length (lx_text s) = Suc (lx_text_size s)"
    and "plain v" and "Suc (lx_end s) = lx_start s + length v"
  shows "finish_token s = Inr ((), finished s v)"
proof -
  have "v \<noteq> []" using assms(3) by (simp add: plain_def)
  then have e: "lx_end s = lx_start s + length v - 1" using assms(4) by (cases v) auto
  have "lx_start s + length v \<le> lx_text_size s"
    using stands_length [OF assms(1)] assms(2) by simp
  then show ?thesis
    using lexeme_stands [OF _ assms(3) e, of "lx_text s"] assms(1,4)
    by (simp add: finish_token_def bnd_def lexeme0_to_cstring_def lift_def upd_token_def modify_def finished_def
        lexeme_advance_def gets_def assert_cmd_def set_state_def ret_def del: One_nat_def)
qed

lemma finish_ahead:
  assumes "ahead s (v @ [c])" and "lx_start s = lx_end s" and "plain v" and "Suc i = lx_end s + length v"
  shows "finish_token (s\<lparr>lx_end := i, lx_token := tok\<rparr>) = Inr ((), finished (s\<lparr>lx_token := tok\<rparr>) v)"
proof -
  let ?s = "s\<lparr>lx_end := i, lx_token := tok\<rparr>"
  have "finish_token ?s = Inr ((), finished ?s v)"
    by (rule finish) (use assms in \<open>simp_all add: ahead_def\<close>)
  then show ?thesis by (simp add: finished_def)
qed

lemma switch_at: "ahead s (c # v) \<Longrightarrow> lx_state s = k \<Longrightarrow> lex_step s = lex_switch k c s"
  by (simp add: lex_step_def bnd_def gets_def lookahead)

definition no_white :: "char \<Rightarrow> bool" where
  "no_white c \<longleftrightarrow> c \<noteq> CHR '' '' \<and> c \<noteq> TAB \<and> c \<noteq> LF \<and> c \<noteq> CR"

lemma start_at:
  "ahead s (c # v) \<Longrightarrow> lx_state s = 1 \<Longrightarrow> no_white c \<Longrightarrow> lex_step s = Inr ((), s\<lparr>lx_state := start_state c\<rparr>)"
  by (simp add: switch_at no_white_def) (simp add: lex_switch_def state_1_def set_state_def modify_def)

end
