(* ===== verification/ScanWords.thy ===== *)
theory ScanWords
  imports Lexicon
begin

text \<open>
  The run of the scanner over one word, for each kind of word: from state 1 in front of it to
  state 0 behind it, with its token.
\<close>

section \<open>One word\<close>

text \<open>The machine at the start of a word, and after it with its token.\<close>

definition at_word :: "lexer \<Rightarrow> token_class \<Rightarrow> string \<Rightarrow> char \<Rightarrow> bool" where
  "at_word s prev v c \<longleftrightarrow> ahead s (v @ [c]) \<and> lx_start s = lx_end s \<and> lx_state s = 1 \<and> lx_token s = zero_token \<and>
     lx_tokens s \<noteq> [] \<and> klass (last (lx_tokens s)) = prev"

definition behind_word :: "lexer \<Rightarrow> string \<Rightarrow> token \<Rightarrow> lexer \<Rightarrow> bool" where
  "behind_word s v tok t \<longleftrightarrow> (\<exists>i j. t = s\<lparr>lx_start := lx_end s + length v, lx_end := lx_end s + length v,
     lx_start1 := i, lx_end1 := j, lx_state := 0, lx_token := tok\<rparr>)"

definition scans :: "nat \<Rightarrow> lexer \<Rightarrow> string \<Rightarrow> token \<Rightarrow> bool" where
  "scans n s v tok \<longleftrightarrow> (\<exists>t. reaches n s t \<and> behind_word s v tok t)"

text \<open>A word that one state after the first one decides.\<close>

lemma scans_two:
  assumes "at_word s prev (x # v) c" and "no_white x" and "start_state x \<noteq> 0"
    and "lex_switch (start_state x) x (s\<lparr>lx_state := start_state x\<rparr>) = Inr ((), t)" and "behind_word s (x # v) tok t"
  shows "scans 2 s (x # v) tok"
proof -
  have s: "ahead s (x # v @ [c])" "lx_state s = 1" using assms(1) by (simp_all add: at_word_def)
  then have "reaches (Suc (Suc 0)) s t"
    using start_at [OF s assms(2)] assms(3,4) switch_at [of "s\<lparr>lx_state := start_state x\<rparr>" x "v @ [c]"]
    by (intro reaches_step [where t = "s\<lparr>lx_state := start_state x\<rparr>"] reaches_step [where t = t]) simp_all
  with assms(5) show ?thesis by (auto simp: scans_def numeral_2_eq_2)
qed

definition behind :: "lexer \<Rightarrow> string \<Rightarrow> token \<Rightarrow> lexer" where
  "behind s v tok = s\<lparr>lx_token := tok\<lparr>lexeme := v\<rparr>, lx_end := lx_end s + length v, lx_start := lx_end s + length v,
     lx_state := 0\<rparr>"

lemma behind_word_behind [simp]: "behind_word s v (tok\<lparr>lexeme := v\<rparr>) (behind s v tok)"
  unfolding behind_word_def behind_def
  by (rule exI [of _ "lx_start1 s"], rule exI [of _ "lx_end1 s"]) (cases s, simp)

lemma finish_at:
  assumes "at_word s prev v c" and "plain v"
  shows "length v = 1 \<Longrightarrow> finish_token (s\<lparr>lx_state := q, lx_token := tok\<rparr>) = Inr ((), behind s v tok)"
    and "length v = 2 \<Longrightarrow> finish_token (s\<lparr>lx_state := q, lx_end := Suc (lx_end s), lx_token := tok\<rparr>) =
      Inr ((), behind s v tok)"
    and "length v = 3 \<Longrightarrow> finish_token (s\<lparr>lx_state := q, lx_end := Suc (Suc (lx_end s)), lx_token := tok\<rparr>) =
      Inr ((), behind s v tok)"
    and "Suc i = lx_end s + length v \<Longrightarrow> finish_token (s\<lparr>lx_state := q, lx_end := i, lx_token := tok\<rparr>) =
      Inr ((), behind s v tok)"
proof -
  have a: "ahead s (v @ [c])" "lx_start s = lx_end s" using assms(1) by (simp_all add: at_word_def)
  show all: "finish_token (s\<lparr>lx_state := q, lx_end := i, lx_token := tok\<rparr>) = Inr ((), behind s v tok)"
    if "Suc i = lx_end s + length v" for i
    using finish_ahead [of "s\<lparr>lx_state := q\<rparr>" v c i tok] a assms(2) that
    by (simp add: finished_def behind_def)
  show "finish_token (s\<lparr>lx_state := q, lx_token := tok\<rparr>) = Inr ((), behind s v tok)" if "length v = 1"
    using all [of "lx_end s"] that by simp
  show "finish_token (s\<lparr>lx_state := q, lx_end := Suc (lx_end s), lx_token := tok\<rparr>) = Inr ((), behind s v tok)"
    if "length v = 2" using all [of "Suc (lx_end s)"] that by simp
  show "finish_token (s\<lparr>lx_state := q, lx_end := Suc (Suc (lx_end s)), lx_token := tok\<rparr>) = Inr ((), behind s v tok)"
    if "length v = 3" using all [of "Suc (Suc (lx_end s))"] that by simp
qed

lemma at_wordD:
  assumes "at_word s prev v c"
  shows "ahead s (v @ [c])" "lx_token s = zero_token" "lx_tokens s \<noteq> []" "klass (last (lx_tokens s)) = prev"
    "lx_start s = lx_end s" "lx_state s = 1"
  using assms by (simp_all add: at_word_def)

lemmas mark_defs = lex_switch_def start_state_def emit_def set_klass_def upd_token_def modify_def bnd_def state_101_def
  state_102_def state_116_def state_117_def state_118_def state_119_def state_120_def state_two_def ret_def plain_def

lemma mark_switch:
  assumes "(m, k, ex) \<in> set marks" and at: "at_word s prev m c" and "c \<notin> set ex"
  shows "lex_switch (start_state (hd m)) (hd m) (s\<lparr>lx_state := start_state (hd m)\<rparr>) =
    Inr ((), behind s m (zero_token\<lparr>klass := k\<rparr>))"
proof -
  note d = at_wordD [OF at]
  note fin = finish_at [OF at]
  have a: "ahead (s\<lparr>lx_state := q, lx_end := Suc (lx_end s)\<rparr>) (tl m @ [c])" if "m \<noteq> []" for q
    using d(1) advance(2) [of "s\<lparr>lx_state := q\<rparr>" "hd m" "tl m @ [c]"] that by (cases m) simp_all
  show ?thesis
    using assms(1,3) d(1) a [of 119] unfolding marks_def list.set
    by (elim insertE) (simp_all add: mark_defs lookahead advance fin d(2))
qed

lemma marks_start: "(m, k, ex) \<in> set marks \<Longrightarrow> m \<noteq> [] \<and> no_white (hd m) \<and> start_state (hd m) \<noteq> 0"
  unfolding marks_def list.set by (elim insertE) (simp_all add: no_white_def start_state_def)

lemma start_at_dash: "no_white (CHR ''-'')" "start_state (CHR ''-'') = 113" "no_white (CHR ''_'')" "start_state (CHR ''_'') = 103"
  by (simp_all add: no_white_def start_state_def)

lemma scans_mark:
  assumes "(m, k, ex) \<in> set marks" and "at_word s prev m c" and "c \<notin> set ex"
  shows "scans 2 s m (zero_token\<lparr>klass := k, lexeme := m\<rparr>)"
proof -
  obtain x v where m: "m = x # v" using marks_start [OF assms(1)] by (cases m) auto
  show ?thesis
    using scans_two [of s prev x v c] mark_switch [OF assms] marks_start [OF assms(1)] assms(2) m by simp
qed

lemma scans_dash:
  assumes "at_word s prev ''-'' c"
  shows "scans 2 s ''-'' (zero_token\<lparr>klass := if prev = Token_ParenthOpen then Token_UnaryMinus else Token_Minus, lexeme := ''-''\<rparr>)"
proof (rule scans_two [OF assms])
  show "lex_switch (start_state (CHR ''-'')) (CHR ''-'') (s\<lparr>lx_state := start_state (CHR ''-'')\<rparr>) =
      Inr ((), behind s ''-'' (zero_token\<lparr>klass := if prev = Token_ParenthOpen then Token_UnaryMinus else Token_Minus\<rparr>))"
    using at_wordD [OF assms] finish_at(1) [OF assms]
    by (simp add: start_at_dash lex_switch_def state_113_def bnd_def gets_def assert_cmd_def ret_def set_klass_def
        upd_token_def modify_def plain_def)
qed (simp_all add: start_at_dash)

lemma scans_underscore:
  assumes "at_word s prev ''_'' c" and "\<not> is_word_char c"
  shows "scans 2 s ''_'' (zero_token\<lparr>klass := Token_Dontcare, lexeme := ''_''\<rparr>)"
proof (rule scans_two [OF assms(1)])
  show "lex_switch (start_state (CHR ''_'')) (CHR ''_'') (s\<lparr>lx_state := start_state (CHR ''_'')\<rparr>) =
      Inr ((), behind s ''_'' (zero_token\<lparr>klass := Token_Dontcare\<rparr>))"
    using at_wordD [OF assms(1)] finish_at(1) [OF assms(1)] assms(2)
    by (simp add: start_at_dash lex_switch_def state_103_def bnd_def emit_def set_klass_def lookahead
        upd_token_def modify_def plain_def)
qed (simp_all add: start_at_dash)


text \<open>Names.\<close>

lemma word_char_plain: "is_word_char d \<Longrightarrow> d \<noteq> BACKSLASH \<and> d \<noteq> NUL \<and> no_white d"
  by (auto simp: is_word_char_def cstr_is_letter_def is_digit_def cstr_is_digit_def no_white_def code_def)

lemma start_state_letter:
  assumes "cstr_is_letter x"
  shows "start_state x = 500"
proof -
  have "x \<notin> set '';<>_:().{}[],-+*/=!&|^~'' \<and> x \<noteq> CHR 0x22 \<and> \<not> is_digit x 10"
    using assms by (auto simp: cstr_is_letter_def is_digit_def cstr_is_digit_def code_def)
  with assms show ?thesis by (simp add: start_state_def)
qed

lemma name_switch:
  assumes at: "at_word s prev (x # v) c" and "\<forall>d \<in> set (x # v). is_word_char d" and "\<not> is_word_char c"
  shows "lex_switch 500 x (s\<lparr>lx_state := 500\<rparr>) = Inr ((), behind s (x # v) (zero_token\<lparr>klass := Token_Identifier\<rparr>))"
proof -
  let ?s = "s\<lparr>lx_state := 500\<rparr>"
  note d = at_wordD [OF at]
  have "plain (x # v)" using assms(2) word_char_plain by (auto simp: plain_def)
  then have fin: "finish_token (s\<lparr>lx_state := 500, lx_end := lx_end s + length v, lx_token := tok\<rparr>) =
      Inr ((), behind s (x # v) tok)" for tok
    using finish_at(4) [OF at, of "lx_end s + length v"] by simp
  have "advance_while is_word_char ?s = Inr (c, ?s\<lparr>lx_end := lx_end ?s + Suc (length v)\<rparr>)"
    by (rule advance_run [where x = x]) (use assms(2,3) d(1) in simp_all)
  moreover have "lx_end s + length v < length (lx_text s)"
    using stands_length [of "lx_text s" "lx_end s" "x # v @ [c]"] d(1) by (simp add: ahead_def)
  ultimately show ?thesis
    using d(2) fin
    by (simp add: lex_switch_def state_500_def bnd_def char_retract_def lift_def emit_def set_klass_def
        upd_token_def modify_def)
qed

lemma scans_name:
  assumes at: "at_word s prev n c" and ok: "word_ok (Name n)" and "\<not> is_word_char c"
  shows "\<exists>k \<le> 3. scans k s n (zero_token\<lparr>klass := Token_Identifier, lexeme := n\<rparr>)"
proof -
  obtain x v where n: "n = x # v" using ok by (cases n) auto
  have chars: "\<forall>d \<in> set (x # v). is_word_char d" and nd: "\<not> is_digit x 10" using ok n by auto
  have at': "at_word s prev (x # v) c" using at n by simp
  note sw = name_switch [OF at' chars assms(3)]
  have white: "no_white x" using chars word_char_plain by simp
  show ?thesis
  proof (cases "x = CHR ''_''")
    case False
    then have "start_state x = 500" using chars nd start_state_letter by (simp add: is_word_char_def)
    then have "scans 2 s (x # v) (zero_token\<lparr>klass := Token_Identifier, lexeme := x # v\<rparr>)"
      using scans_two [OF at' white] sw by simp
    then show ?thesis using n by (intro exI [of _ 2]) simp
  next
    case True
    then obtain y u where v: "v = y # u" using ok n by (cases v) auto
    let ?s1 = "s\<lparr>lx_state := 103\<rparr>" and ?s2 = "s\<lparr>lx_state := 500\<rparr>"
    have a: "ahead s (x # y # u @ [c])" using at_wordD(1) [OF at'] v by simp
    have "lex_step s = Inr ((), ?s1)"
      using start_at [OF a at_wordD(6) [OF at'] white] start_at_dash(4) True by simp
    moreover have "lex_step ?s1 = Inr ((), ?s2)"
      using a chars v lookahead(2) [of ?s1 x y "u @ [c]"]
      by (simp add: switch_at [of ?s1 x "y # u @ [c]"] lex_switch_def state_103_def bnd_def set_state_def modify_def)
    moreover have "lex_step ?s2 = Inr ((), behind s (x # v) (zero_token\<lparr>klass := Token_Identifier\<rparr>))"
      using sw a by (simp add: switch_at [of ?s2 x "y # u @ [c]"])
    ultimately have "reaches (Suc (Suc (Suc 0))) s (behind s (x # v) (zero_token\<lparr>klass := Token_Identifier\<rparr>))"
      using at_wordD(6) [OF at'] by (intro reaches_step [where t = ?s1] reaches_step [where t = ?s2] reaches_step [OF _ _ reaches_refl]) simp_all
    then have "scans 3 s (x # v) (zero_token\<lparr>klass := Token_Identifier, lexeme := x # v\<rparr>)"
      by (auto simp: scans_def numeral_3_eq_3)
    then show ?thesis using n by (intro exI [of _ 3]) simp
  qed
qed

section \<open>Numbers\<close>

lemma digit_word_char: "valid_base base \<Longrightarrow> is_digit d base \<or> d = CHR ''_'' \<Longrightarrow> is_word_char d"
  by (auto simp: valid_base_def is_word_char_def is_digit_def cstr_is_digit_def cstr_is_letter_def code_def)

lemma literal_plain: "valid_base base \<Longrightarrow> literal_chars base v \<Longrightarrow> v \<noteq> [] \<Longrightarrow> plain v"
  using digit_word_char word_char_plain by (fastforce simp: plain_def literal_chars_def)

text \<open>The digits become the second lexeme, and its value that of the token.\<close>

lemma install_value:
  assumes "stands (lx_text s) (lx_start1 s) v" and "Suc (lx_end1 s) = lx_start1 s + length v"
    and "valid_base base" and "literal_chars base v" and "v \<noteq> []"
  shows "token_install_integer base s = Inr ((), s\<lparr>lx_token := (lx_token s)\<lparr>i_value := value32 base v\<rparr>\<rparr>)"
proof -
  obtain x u where v: "v = x # u" using assms(5) by (cases v) auto
  have e: "lx_end1 s = lx_start1 s + length v - 1" using assms(2) by simp
  obtain b where b: "cstr_is_digit x base = Inr b" using cstr_is_digit_total [OF assms(3)] by blast
  have "b \<or> x = CHR ''_''" using assms(4) v b by (auto simp: literal_chars_def is_digit_def)
  then show ?thesis
    using lexeme_stands [OF assms(1) literal_plain [OF assms(3-5)] e] parse_integer_digits [OF assms(3) assms(5) assms(4)] b v
    by (simp add: token_install_integer_def bnd_def lexeme1_to_cstring_def lift_def upd_token_def modify_def)
qed

lemma install_finish:
  assumes st: "stands (lx_text s) (lx_start s) (u @ ds @ [c])" and len: "length (lx_text s) = Suc (lx_text_size s)"
    and "lx_start1 s = lx_start s + length u" and "Suc (lx_end1 s) = lx_start1 s + length ds" and "lx_end s = lx_end1 s"
    and "valid_base base" and "literal_chars base ds" and "ds \<noteq> []" and "plain (u @ ds)"
  shows "bnd (token_install_integer base) (\<lambda>_. finish_token) s =
    Inr ((), finished (s\<lparr>lx_token := (lx_token s)\<lparr>i_value := value32 base ds\<rparr>\<rparr>) (u @ ds))"
proof -
  have "token_install_integer base s = Inr ((), s\<lparr>lx_token := (lx_token s)\<lparr>i_value := value32 base ds\<rparr>\<rparr>)"
    by (rule install_value) (use assms in simp_all)
  moreover have "finish_token (s\<lparr>lx_token := (lx_token s)\<lparr>i_value := value32 base ds\<rparr>\<rparr>) =
      Inr ((), finished (s\<lparr>lx_token := (lx_token s)\<lparr>i_value := value32 base ds\<rparr>\<rparr>) (u @ ds))"
    by (rule finish) (use assms in simp_all)
  ultimately show ?thesis by (simp add: bnd_def)
qed

lemma scan_digits_run:
  assumes a: "ahead s (x # v @ [c])" and "\<forall>d \<in> set v. is_digit d base \<or> us \<and> d = CHR ''_''"
    and "\<not> (is_digit c base \<or> us \<and> c = CHR ''_'')"
  shows "scan_digits base us s =
    Inr ((), s\<lparr>lx_start1 := lx_end s, lx_end1 := lx_end s + length v, lx_end := lx_end s + length v\<rparr>)"
proof -
  let ?s = "s\<lparr>lx_start1 := lx_end s, lx_end1 := lx_end s\<rparr>"
  have "advance_while (\<lambda>c. is_digit c base \<or> us \<and> c = CHR ''_'') ?s = Inr (c, ?s\<lparr>lx_end := lx_end ?s + Suc (length v)\<rparr>)"
    by (rule advance_run [where x = x]) (use assms in simp_all)
  moreover have "lx_end s + length v < length (lx_text s)"
    using stands_length [of "lx_text s" "lx_end s" "x # v @ [c]"] a by (simp add: ahead_def)
  ultimately show ?thesis
    by (simp add: scan_digits_def bnd_def set_lexeme1_here_def modify_def char_retract_def lift_def
        end_lexeme1_here_def)
qed

text \<open>The states that the prefix picks for a plain and for a sized literal.\<close>

definition pick :: "string \<Rightarrow> nat \<Rightarrow> nat \<Rightarrow> nat \<Rightarrow> nat \<Rightarrow> nat" where
  "pick prefix hex oct bin dec =
     (if base_of prefix = 16 then hex else if base_of prefix = 8 then oct else if base_of prefix = 2 then bin else dec)"

lemma prefix_cases:
  "prefix \<in> fst ` set radixes \<Longrightarrow>
   prefix = '''' \<or> prefix = ''0x'' \<or> prefix = ''0X'' \<or> prefix = ''0o'' \<or> prefix = ''0O'' \<or> prefix = ''0b'' \<or> prefix = ''0B''"
  by (auto simp: radixes_def)

lemma base_of_simps [simp]:
  "base_of '''' = 10" "base_of ''0x'' = 16" "base_of ''0X'' = 16" "base_of ''0o'' = 8" "base_of ''0O'' = 8"
  "base_of ''0b'' = 2" "base_of ''0B'' = 2"
  by (simp_all add: base_of_def radixes_def)

lemma number_okD:
  assumes "number_ok prefix ds"
  shows "valid_base (base_of prefix)" "literal_chars (base_of prefix) ds" "ds \<noteq> []"
    "\<forall>d \<in> set ds. is_digit d (base_of prefix) \<or> prefix \<noteq> '''' \<and> d = CHR ''_''"
    "prefix \<in> fst ` set radixes" "plain (prefix @ ds)"
proof -
  show v: "valid_base (base_of prefix)"
    using prefix_cases [of prefix] assms by (auto simp: number_ok_def valid_base_def)
  show ds: "literal_chars (base_of prefix) ds" "ds \<noteq> []"
    "\<forall>d \<in> set ds. is_digit d (base_of prefix) \<or> prefix \<noteq> '''' \<and> d = CHR ''_''" "prefix \<in> fst ` set radixes"
    using assms by (auto simp: number_ok_def literal_chars_def literal_char_def)
  show "plain (prefix @ ds)"
    using literal_plain [OF v ds(1,2)] prefix_cases [OF ds(4)] by (auto simp: plain_def)
qed

lemma digit_no_radix: "is_digit d 10 \<Longrightarrow> d \<notin> set ''xXoObB'' \<and> no_white d \<and> d \<notin> set ''ws''"
  using digit_cases [of d] by (auto simp: no_white_def)

lemma radix_run:
  assumes "number_ok prefix ds" and "number_ends prefix ds c" and a: "ahead s (prefix @ ds @ [c])"
  shows "radix_state (hd (prefix @ ds)) hex oct bin dec s =
    Inr ((), s\<lparr>lx_state := pick prefix hex oct bin dec, lx_end := lx_end s + length prefix\<rparr>)"
proof -
  note ok = number_okD [OF assms(1)]
  obtain x v where ds: "ds = x # v" using ok(3) by (cases ds) auto
  show ?thesis
  proof (cases "prefix = ''''")
    case True
    obtain y z where y: "v @ [c] = y # z" by (cases v) auto
    have "y \<notin> set ''xXoObB''" if "x = CHR ''0''"
      using y assms(2) ok(4) ds True that digit_no_radix by (cases v) (auto simp: number_ends_def)
    moreover have "char_lookahead (Suc 0) s = Inr (y, s)"
      using lookahead(2) [of s x y z] a y ds True by simp
    ultimately show ?thesis
      using True ds by (auto simp: radix_state_def bnd_def set_state_def modify_def pick_def)
  next
    case False
    then show ?thesis
      using prefix_cases [OF ok(5)] a ds
      by (elim disjE)
        (simp_all add: radix_state_def bnd_def set_state_def modify_def pick_def lookahead
          advance_two [of "_\<lparr>lx_state := _\<rparr>"] ret_def)
  qed
qed

text \<open>The machine behind the prefix of a literal that begins at \<open>lx_start\<close>, and what it ends with.\<close>

definition at_digits :: "lexer \<Rightarrow> string \<Rightarrow> string \<Rightarrow> string \<Rightarrow> char \<Rightarrow> bool" where
  "at_digits s u prefix ds c \<longleftrightarrow> length (lx_text s) = Suc (lx_text_size s) \<and>
     stands (lx_text s) (lx_start s) (u @ ds @ [c]) \<and> lx_end s = lx_start s + length u \<and>
     number_ok prefix ds \<and> number_ends prefix ds c \<and> plain (u @ ds)"

definition number_done :: "lexer \<Rightarrow> token \<Rightarrow> string \<Rightarrow> string \<Rightarrow> string \<Rightarrow> lexer" where
  "number_done s tok u prefix ds = finished (s\<lparr>lx_start1 := lx_end s, lx_end1 := lx_end s + length ds - 1,
     lx_token := tok\<lparr>i_value := value32 (base_of prefix) ds\<rparr>\<rparr>) (u @ ds)"

lemma number_tail:
  assumes at: "at_digits s u prefix ds c"
  shows "bnd (token_install_integer (base_of prefix)) (\<lambda>_. finish_token)
      (s\<lparr>lx_start1 := lx_end s, lx_end1 := lx_end s + (length ds - Suc 0), lx_end := lx_end s + (length ds - Suc 0), lx_token := tok\<rparr>) =
    Inr ((), number_done s tok u prefix ds)"
proof -
  have ok: "number_ok prefix ds" using at by (simp add: at_digits_def)
  note n = number_okD [OF ok]
  obtain x v where ds: "ds = x # v" using n(3) by (cases ds) auto
  show ?thesis
    by (subst install_finish [where u = u and ds = ds and c = c])
      (use at n ds in \<open>simp_all add: at_digits_def number_done_def finished_def\<close>)
qed

lemma at_digits_scan:
  assumes at: "at_digits s u prefix ds c"
  shows "scan_digits (base_of prefix) (prefix \<noteq> '''') s =
    Inr ((), s\<lparr>lx_start1 := lx_end s, lx_end1 := lx_end s + (length ds - Suc 0), lx_end := lx_end s + (length ds - Suc 0)\<rparr>)"
proof -
  have ok: "number_ok prefix ds" using at by (simp add: at_digits_def)
  note n = number_okD [OF ok]
  obtain x v where ds: "ds = x # v" using n(3) by (cases ds) auto
  have "scan_digits (base_of prefix) (prefix \<noteq> '''') s =
      Inr ((), s\<lparr>lx_start1 := lx_end s, lx_end1 := lx_end s + length v, lx_end := lx_end s + length v\<rparr>)"
    by (rule scan_digits_run [where x = x and c = c])
      (use at n(4) ds in \<open>auto simp: at_digits_def ahead_def number_ends_def literal_char_def\<close>)
  then show ?thesis by (simp add: ds)
qed

definition integer_token :: "u32 \<Rightarrow> token \<Rightarrow> token" where
  "integer_token fl tok = tok\<lparr>klass := Token_Integer, i_flags := i_flags tok OR fl\<rparr>"

lemma radix_literal:
  assumes at: "at_digits s u prefix ds c" and "prefix \<noteq> ''''"
  shows "state_radix (base_of prefix) s = Inr ((), number_done s (integer_token AstInteger_IsSigned (lx_token s)) u prefix ds)"
  using at_digits_scan [OF at] number_tail [OF at, of "integer_token AstInteger_IsSigned (lx_token s)"] assms(2)
  by (simp add: state_radix_def bnd_def set_klass_def upd_token_def modify_def or_flags_def integer_token_def)

lemma sized_literal:
  assumes at: "at_digits s u prefix ds c"
  shows "state_sized (base_of prefix) (prefix \<noteq> '''') s = Inr ((), number_done s (lx_token s) u prefix ds)"
  using at_digits_scan [OF at] number_tail [OF at, of "lx_token s"]
  by (simp add: state_sized_def bnd_def)

lemma decimal_run:
  assumes "ahead s (ds @ [c])" and "number_ok '''' ds" and "\<not> is_digit c 10"
  shows "advance_while (\<lambda>c. is_digit c 10) s = Inr (c, s\<lparr>lx_end := lx_end s + length ds\<rparr>)"
    and "lx_end s + length ds < length (lx_text s)" and "0 < length ds"
proof -
  note n = number_okD [OF assms(2)]
  obtain x v where ds: "ds = x # v" using n(3) by (cases ds) auto
  have "advance_while (\<lambda>c. is_digit c 10) s = Inr (c, s\<lparr>lx_end := lx_end s + Suc (length v)\<rparr>)"
    by (rule advance_run [where x = x]) (use assms n(4) ds in auto)
  then show "advance_while (\<lambda>c. is_digit c 10) s = Inr (c, s\<lparr>lx_end := lx_end s + length ds\<rparr>)" by (simp add: ds)
  show "lx_end s + length ds < length (lx_text s)" "0 < length ds"
    using stands_length [of "lx_text s" "lx_end s" "ds @ [c]"] assms(1) ds by (simp_all add: ahead_def)
qed

lemma decimal_literal:
  assumes at: "at_digits s [] '''' ds c" and "c \<notin> set ''ws''"
  shows "state_401 s = Inr ((), number_done s (integer_token AstInteger_IsSigned (lx_token s)) [] '''' ds)"
proof -
  let ?s = "s\<lparr>lx_start1 := lx_end s, lx_end1 := lx_end s\<rparr>"
  have ok: "number_ok '''' ds" "ahead ?s (ds @ [c])" "\<not> is_digit c 10"
    using at by (simp_all add: at_digits_def ahead_def number_ends_def literal_char_def)
  note run = decimal_run [OF ok(2,1,3)]
  have [simp]: "lx_end s + length ds - Suc 0 = lx_end s + (length ds - Suc 0)" using run(3) by (cases ds) simp_all
  have swap: "s\<lparr>lx_start1 := i, lx_end := j, lx_end1 := k, lx_token := tok\<rparr> = s\<lparr>lx_start1 := i, lx_end1 := k, lx_end := j, lx_token := tok\<rparr>"
    for i j k tok by (cases s) simp
  show ?thesis
    using run number_tail [OF at, of "integer_token AstInteger_IsSigned (lx_token s)"] assms(2)
    by (simp add: state_401_def bnd_def set_lexeme1_here_def modify_def char_retract_def lift_def
        end_lexeme1_here_def set_klass_def upd_token_def or_flags_def integer_token_def swap)
qed

text \<open>The width of a sized literal, up to the character behind its letter.\<close>

lemma width_run:
  assumes a: "ahead s (ds @ (if is_signed then CHR ''s'' else CHR ''w'') # d # rest)" and "number_ok '''' ds"
  shows "state_401 s = Inr ((), s\<lparr>lx_start1 := lx_end s, lx_end1 := lx_end s + (length ds - Suc 0), lx_state := 405,
    lx_end := Suc (lx_end s + length ds),
    lx_token := (lx_token s)\<lparr>klass := Token_Integer,
      i_flags := i_flags (lx_token s) OR AstInteger_HasWidth OR (if is_signed then AstInteger_IsSigned else 0),
      i_width := value32 10 ds\<rparr>\<rparr>)"
proof -
  let ?c = "if is_signed then CHR ''s'' else CHR ''w''" and ?s = "s\<lparr>lx_start1 := lx_end s, lx_end1 := lx_end s\<rparr>"
  note n = number_okD [OF assms(2)]
  have c: "\<not> is_digit ?c 10" by (auto simp: is_digit_def cstr_is_digit_def code_def)
  have "ahead ?s (ds @ [?c])" using a ahead_append(1) [of ?s "ds @ [?c]" "d # rest"] by simp
  note run = decimal_run [OF this assms(2) c]
  have st: "stands (lx_text s) (lx_end s) ds" using a by (simp add: ahead_def)
  have lexeme: "lexeme_to_cstring (lx_text s) (lx_end s) (lx_end s + length ds - Suc 0) = Inr ds"
    by (rule lexeme_stands [OF st]) (use n in simp_all)
  have val: "parse_integer ds 10 = Inr (value32 10 ds)"
    by (rule parse_integer_digits) (use n in simp_all)
  have "ahead (s\<lparr>lx_end := lx_end s + length ds\<rparr>) (?c # d # rest)"
    using ahead_append(2) [OF a] by simp
  then have "char_advance (Suc 0) t = Inr (d, t\<lparr>lx_end := Suc (lx_end t)\<rparr>)"
    if "lx_text t = lx_text s" "lx_text_size t = lx_text_size s" "lx_end t = lx_end s + length ds" for t
    using that by (intro advance(1) [of t ?c d rest]) (simp add: ahead_def)
  note adv = this
  have [simp]: "lx_end s + length ds - Suc 0 = lx_end s + (length ds - Suc 0)" using run(3) by (cases ds) simp_all
  show ?thesis
    using run lexeme val adv
    by (auto simp: state_401_def bnd_def set_lexeme1_here_def modify_def lexeme1_to_cstring_def lift_def
        set_klass_def upd_token_def or_flags_def set_state_def ret_def or.assoc)
qed

lemma number_start:
  assumes "number_ok prefix ds"
  shows "no_white (hd (prefix @ ds))" "start_state (hd (prefix @ ds)) = 400"
proof -
  note n = number_okD [OF assms]
  obtain x v where ds: "ds = x # v" using n(3) by (cases ds) auto
  have "is_digit (CHR ''0'') 10" by (simp add: is_digit_def cstr_is_digit_def code_def)
  then have "is_digit (hd (prefix @ ds)) 10" using prefix_cases [OF n(5)] n(4) ds by (elim disjE) auto
  then show "no_white (hd (prefix @ ds))" "start_state (hd (prefix @ ds)) = 400"
    using digit_no_radix start_state_digit by simp_all
qed

text \<open>The first two steps on a literal: to state 400, and past the prefix.\<close>

lemma number_prefix:
  assumes a: "ahead s (prefix @ ds @ c # rest)" and st: "lx_state s = 1" and ok: "number_ok prefix ds" "number_ends prefix ds c"
  defines "t \<equiv> s\<lparr>lx_state := pick prefix 402 403 404 401, lx_end := lx_end s + length prefix\<rparr>"
  shows "reaches n t u \<Longrightarrow> reaches (Suc (Suc n)) s u"
proof -
  let ?s = "s\<lparr>lx_state := 400\<rparr>"
  obtain x v where w: "prefix @ ds = x # v" using number_okD(3) [OF ok(1)] by (cases "prefix @ ds") auto
  have a1: "ahead s (prefix @ ds @ [c])" using ahead_append(1) [of s "prefix @ ds @ [c]" rest] a by simp
  have a2: "ahead s (x # v @ [c])" using a1 w by (metis append.assoc append_Cons)
  have x: "x = hd (prefix @ ds)" using w by simp
  have "lex_step s = Inr ((), ?s)"
    using start_at [OF a2 st] number_start [OF ok(1)] x by simp
  moreover have "lex_step ?s = Inr ((), t)"
    using radix_run [OF ok, of ?s 402 403 404 401] a1 x switch_at [of ?s x "v @ [c]"] a2
    by (simp add: lex_switch_def state_400_def t_def)
  ultimately show "reaches n t u \<Longrightarrow> reaches (Suc (Suc n)) s u"
    using st by (intro reaches_step [where t = ?s] reaches_step [where t = t]) simp_all
qed

lemma scans_number:
  assumes at: "at_word s prev (prefix @ ds) c" and ok: "number_ok prefix ds" "number_ends prefix ds c"
    and ws: "prefix = '''' \<longrightarrow> c \<notin> set ''ws''"
  shows "scans 3 s (prefix @ ds) (zero_token\<lparr>klass := Token_Integer, lexeme := prefix @ ds, i_flags := AstInteger_IsSigned,
    i_value := value32 (base_of prefix) ds\<rparr>)"
proof -
  note n = number_okD [OF ok(1)] and d = at_wordD [OF at]
  let ?t = "s\<lparr>lx_state := pick prefix 402 403 404 401, lx_end := lx_end s + length prefix\<rparr>"
  let ?u = "number_done ?t (integer_token AstInteger_IsSigned (lx_token s)) prefix prefix ds"
  have a: "ahead s (prefix @ ds @ [c])" using d(1) by simp
  have digits: "at_digits ?t prefix prefix ds c"
    using a d(5) ok n(6) by (simp add: at_digits_def ahead_def)
  obtain x v where ds: "ds = x # v" using n(3) by (cases ds) auto
  have "ahead ?t (x # v @ [c])" using a ds by (simp add: ahead_def)
  then have "lex_step ?t = lex_switch (pick prefix 402 403 404 401) x ?t" by (simp add: switch_at)
  also have "\<dots> = Inr ((), ?u)"
    using prefix_cases [OF n(5)] radix_literal [OF digits] decimal_literal [of ?t ds c] digits ws
    by (elim disjE) (simp_all add: lex_switch_def pick_def state_402_def state_403_def state_404_def)
  finally have "reaches (Suc 0) ?t ?u"
    by (intro reaches_step [where t = ?u]) (simp_all add: pick_def)
  then have "reaches 3 s ?u"
    using number_prefix [OF _ d(6) ok, of "[]"] a by (simp add: numeral_3_eq_3)
  moreover have "behind_word s (prefix @ ds) (zero_token\<lparr>klass := Token_Integer, lexeme := prefix @ ds,
      i_flags := AstInteger_IsSigned, i_value := value32 (base_of prefix) ds\<rparr>) ?u"
    unfolding behind_word_def
    by (rule exI [of _ "lx_end s + length prefix"], rule exI [of _ "lx_end s + length prefix + length ds - 1"])
      (cases s, use d in \<open>simp add: number_done_def finished_def integer_token_def zero_token_def\<close>)
  ultimately show ?thesis by (auto simp: scans_def)
qed

lemma scans_sized:
  fixes is_signed :: bool
  defines "letter \<equiv> if is_signed then CHR ''s'' else CHR ''w''"
  assumes at: "at_word s prev (width @ letter # prefix @ ds) c" and width: "number_ok '''' width"
    and ok: "number_ok prefix ds" "number_ends prefix ds c"
  shows "scans 5 s (width @ letter # prefix @ ds) (zero_token\<lparr>klass := Token_Integer, lexeme := width @ letter # prefix @ ds,
    i_flags := AstInteger_HasWidth OR (if is_signed then AstInteger_IsSigned else 0),
    i_width := value32 10 width, i_value := value32 (base_of prefix) ds\<rparr>)"
proof -
  note n = number_okD [OF ok(1)] and w = number_okD [OF width] and d = at_wordD [OF at]
  let ?u = "width @ letter # prefix"
  have letter: "number_ends '''' width letter"
    by (auto simp: letter_def number_ends_def literal_char_def is_digit_def cstr_is_digit_def code_def)
  have a: "ahead s (width @ letter # prefix @ ds @ [c])" using d(1) by simp
  define t1 where "t1 = s\<lparr>lx_state := 401, lx_end := lx_end s + length ([] :: string)\<rparr>"
  define tok where "tok = (lx_token s)\<lparr>klass := Token_Integer,
      i_flags := i_flags (lx_token s) OR AstInteger_HasWidth OR (if is_signed then AstInteger_IsSigned else 0),
      i_width := value32 10 width\<rparr>"
  define t2 where "t2 = t1\<lparr>lx_start1 := lx_end t1, lx_end1 := lx_end t1 + (length width - Suc 0), lx_state := 405,
      lx_end := Suc (lx_end t1 + length width), lx_token := tok\<rparr>"
  define t3 where "t3 = t2\<lparr>lx_state := pick prefix 406 407 408 409, lx_end := lx_end t2 + length prefix\<rparr>"
  define t4 where "t4 = number_done t3 tok ?u prefix ds"
  obtain x v where ds: "ds = x # v" using n(3) by (cases ds) auto
  obtain y z where wd: "width = y # z" using w(3) by (cases width) auto
  obtain p q where pd: "prefix @ ds @ [c] = p # q" "p = hd (prefix @ ds)" using ds by (cases prefix) auto
  have a1: "ahead t1 (width @ letter # p # q)" using a pd by (simp add: t1_def)
  then have s1: "lex_step t1 = Inr ((), t2)"
    using width_run [of t1 width is_signed p q] switch_at [of t1 y "z @ letter # p # q" 401] width wd
    by (simp add: letter_def t2_def tok_def lex_switch_def) (simp add: t1_def)
  have a2: "ahead t2 (prefix @ ds @ [c])"
    using a by (simp add: ahead_def t2_def t1_def)
  then have s2: "lex_step t2 = Inr ((), t3)"
    using radix_run [OF ok, of t2 406 407 408 409] switch_at [of t2 p q 405] pd
    by (simp add: lex_switch_def state_405_def t3_def) (simp add: t2_def)
  have "plain (?u @ ds)" using w(6) n(6) by (auto simp: plain_def letter_def)
  then have digits: "at_digits t3 ?u prefix ds c"
    using a d(5) ok by (simp add: at_digits_def ahead_def t3_def t2_def t1_def)
  have "ahead t3 (x # v @ [c])" using digits ds by (simp add: at_digits_def ahead_def add.assoc)
  then have s3: "lex_step t3 = Inr ((), t4)"
    using prefix_cases [OF n(5)] sized_literal [OF digits] switch_at [of t3 x "v @ [c]"]
    by (elim disjE) (simp_all add: lex_switch_def pick_def state_406_def state_407_def state_408_def state_409_def
        t3_def t4_def t2_def)
  have "reaches (Suc (Suc (Suc 0))) t1 t4"
    by (rule reaches_step [OF s1], simp add: t1_def, rule reaches_step [OF s2], simp add: t2_def,
        rule reaches_step [OF s3]) (simp_all add: t3_def pick_def)
  then have "reaches 5 s t4"
    using number_prefix [of s "[]" width letter "prefix @ ds @ [c]" "Suc (Suc (Suc 0))" t4] a d(6) width letter
    by (simp add: t1_def pick_def eval_nat_numeral)
  moreover have "behind_word s (?u @ ds) (zero_token\<lparr>klass := Token_Integer, lexeme := ?u @ ds,
      i_flags := AstInteger_HasWidth OR (if is_signed then AstInteger_IsSigned else 0),
      i_width := value32 10 width, i_value := value32 (base_of prefix) ds\<rparr>) t4"
    unfolding behind_word_def
    by (rule exI [of _ "lx_end t3"], rule exI [of _ "lx_end t3 + length ds - 1"])
      (cases s, use d in \<open>simp add: t4_def t3_def t2_def t1_def tok_def number_done_def finished_def zero_token_def\<close>)
  ultimately show ?thesis by (auto simp: scans_def)
qed

text \<open>String literals.\<close>

lemma string_run:
  "ahead s (x # v @ [CHR 0x22]) \<Longrightarrow> \<forall>d \<in> set v. d \<noteq> BACKSLASH \<and> d \<noteq> CHR 0x22 \<and> d \<noteq> LF \<and> d \<noteq> CR \<Longrightarrow> length v < n \<Longrightarrow>
   repeat_cmd n string_body s = Inr ((), s\<lparr>lx_end := lx_end s + Suc (length v)\<rparr>)"
proof (induction v arbitrary: s x n)
  case Nil
  then obtain m where "n = Suc m" by (cases n) auto
  with Nil show ?case by (simp add: string_body_def bnd_def advance(1) ret_def)
next
  case (Cons y v)
  then obtain m where n: "n = Suc m" "length v < m" by (cases n) auto
  let ?t = "s\<lparr>lx_end := Suc (lx_end s)\<rparr>"
  have "ahead s (x # y # v @ [CHR 0x22])" using Cons.prems(1) by simp
  note a = advance [OF this]
  have "repeat_cmd m string_body ?t = Inr ((), ?t\<lparr>lx_end := lx_end ?t + Suc (length v)\<rparr>)"
    by (rule Cons.IH [where x = y]) (use advance(2) [OF Cons.prems(1)] Cons.prems(2) n in simp_all)
  then show ?case using n a(1) Cons.prems(2) by (simp add: string_body_def bnd_def ret_def)
qed

lemma scans_quoted:
  assumes at: "at_word s prev (spelling (Quoted str)) c" and ok: "word_ok (Quoted str)"
  shows "scans 2 s (spelling (Quoted str)) (zero_token\<lparr>klass := Token_StringLiteral, lexeme := spelling (Quoted str)\<rparr>)"
proof -
  let ?w = "CHR 0x22 # str @ [CHR 0x22]" and ?s = "s\<lparr>lx_state := 200\<rparr>"
  have at': "at_word s prev ?w c" using at by simp
  note d = at_wordD [OF at']
  have a: "ahead ?s (CHR 0x22 # str @ [CHR 0x22])" using ahead_append(1) [of ?s ?w "[c]"] d(1) by simp
  have "length str < Suc (lx_text_size s)"
    using d(1) by (auto simp: ahead_def)
  then have "repeat_cmd (Suc (lx_text_size s)) string_body ?s = Inr ((), ?s\<lparr>lx_end := lx_end ?s + Suc (length str)\<rparr>)"
    by (intro string_run [OF a]) (use ok in auto)
  moreover have "plain ?w" using ok by (auto simp: plain_def)
  note fin = finish_at(4) [OF at' this, of "lx_end s + Suc (length str)"]
  ultimately have "lex_switch 200 (CHR 0x22) ?s = Inr ((), behind s ?w (zero_token\<lparr>klass := Token_StringLiteral\<rparr>))"
    using d(2) by (simp add: lex_switch_def state_200_def bnd_def emit_def set_klass_def upd_token_def modify_def
        del: repeat_cmd.simps)
  then show ?thesis
    using scans_two [OF at'] by (simp add: no_white_def start_state_def)
qed

section \<open>Any word\<close>

lemma mark_entry: "word_ok (Mark m) \<Longrightarrow> \<exists>k ex. map_of marks m = Some (k, ex) \<and> (m, k, ex) \<in> set marks"
  unfolding word_ok.simps by (metis domD dom_map_of_conv_image_fst map_of_SomeD prod.exhaust)

lemma scan_word:
  assumes "at_word s prev (spelling w) c" and "word_ok w" and "ends w c"
  shows "\<exists>k \<le> 5. scans k s (spelling w) (token_of prev 0 w)"
proof -
  have z: "zero_token\<lparr>tk_line_nr := 0\<rparr> = zero_token" by (simp add: zero_token_def)
  have le: "\<exists>k \<le> 5. scans k s (spelling w) (token_of prev 0 w)"
    if "scans k s (spelling w) (token_of prev 0 w)" "k \<le> 5" for k
    using that by blast
  show ?thesis
  proof (cases w)
    case (Mark m)
    then obtain k ex where "map_of marks m = Some (k, ex)" "(m, k, ex) \<in> set marks"
      using mark_entry [of m] assms(2) by blast
    then show ?thesis
      using scans_mark [of m k ex s prev c] assms Mark by (intro le [of 2]) (simp_all add: zero_token_def)
  next
    case Dash
    then show ?thesis using scans_dash [of s prev c] assms(1) by (intro le [of 2]) (simp_all add: zero_token_def)
  next
    case Underscore
    then show ?thesis using scans_underscore [of s prev c] assms by (intro le [of 2]) (simp_all add: zero_token_def)
  next
    case (Name n)
    then obtain k where "k \<le> 3" "scans k s n (zero_token\<lparr>klass := Token_Identifier, lexeme := n\<rparr>)"
      using scans_name [of s prev n c] assms by auto
    then show ?thesis using Name by (intro le [of k]) (simp_all add: zero_token_def)
  next
    case (Number prefix ds)
    then show ?thesis using scans_number [of s prev prefix ds c] assms by (intro le [of 3]) (simp_all add: zero_token_def)
  next
    case (Sized width is_signed prefix ds)
    then show ?thesis
      using scans_sized [of s prev width is_signed prefix ds c] assms
      by (intro le [of 5]) (auto simp add: zero_token_def split: if_splits)
  next
    case (Quoted str)
    then show ?thesis using scans_quoted [of s prev str c] assms by (intro le [of 2]) (simp_all add: zero_token_def)
  qed
qed

lemma token_of_line: "token_of prev n w = (token_of prev 0 w)\<lparr>tk_line_nr := n\<rparr>"
  by (cases w) simp_all

lemma token_of_inner: "word_ok w \<Longrightarrow> klass (token_of prev n w) \<notin> {Token_EndOfInput, Token_Unknown, Token_LexicalError}"
proof (cases w)
  case (Mark m)
  moreover assume "word_ok w"
  ultimately obtain k ex where m: "map_of marks m = Some (k, ex)" "(m, k, ex) \<in> set marks" using mark_entry [of m] by blast
  then have "k \<notin> {Token_EndOfInput, Token_Unknown, Token_LexicalError}"
    unfolding marks_def list.set by (elim insertE) simp_all
  then show ?thesis using m Mark by simp
qed (simp_all add: zero_token_def)

lemma spelling_start: "word_ok w \<Longrightarrow> \<exists>x v. spelling w = x # v \<and> x \<noteq> CR"
proof (cases w)
  case (Mark m)
  moreover assume "word_ok w"
  ultimately obtain k ex where "(m, k, ex) \<in> set marks" using mark_entry [of m] by blast
  then show ?thesis using marks_start [of m k ex] Mark by (cases m) (auto simp: no_white_def)
next
  case (Name n)
  moreover assume "word_ok w"
  ultimately show ?thesis using word_char_plain by (cases n) (auto simp: no_white_def)
next
  case (Number prefix ds)
  moreover assume "word_ok w"
  ultimately show ?thesis
    using number_start(1) [of prefix ds] number_okD(3) [of prefix ds] by (cases "prefix @ ds") (auto simp: no_white_def)
next
  case (Sized width is_signed prefix ds)
  moreover assume "word_ok w"
  ultimately show ?thesis
    using number_start(1) [of "''''" width] number_okD(3) [of "''''" width] by (cases width) (auto simp: no_white_def)
qed simp_all

end
