(* ===== verification/ScanText.thy ===== *)
theory ScanText
  imports ScanWords
begin

text \<open>
  The scanner on a whole text: white space, word after word, the end. A text that is spelled by
  words is scanned to their tokens; the round trip of printed integers is a case of it.
\<close>

section \<open>White space\<close>

lemma white_step:
  assumes a: "ahead s (c # x # v)" and c: "c = CHR '' '' \<or> c = TAB \<or> c = LF" and x: "c = LF \<longrightarrow> x \<noteq> CR"
    and st: "lx_state s = 1"
  shows "lex_step s = Inr ((), s\<lparr>lx_end := Suc (lx_end s), lx_start := Suc (lx_end s), lx_line_nr := lx_line_nr s + lines_of [c]\<rparr>)"
proof -
  let ?t = "s\<lparr>lx_end := Suc (lx_end s), lx_start := Suc (lx_end s)\<rparr>"
  have same: "?t\<lparr>lx_state := Suc 0\<rparr> = ?t" "lx_state s = Suc 0" using st by (cases s, simp_all)
  have adv: "lexeme_advance s = Inr ((), ?t)"
    using a by (auto simp: ahead_def lexeme_advance_def bnd_def modify_def gets_def assert_cmd_def ret_def)
  have look: "char_lookahead 0 ?t = Inr (x, ?t)"
    by (rule lookahead(1) [where v = v]) (use a in \<open>simp add: ahead_def\<close>)
  have "code LF = 10" "code CR = 13" "code x = 13 \<longleftrightarrow> x = CR"
    using code_eq [of x CR] by (simp_all add: code_def)
  note codes = this
  have "lex_step s = state_1 c s" using switch_at [OF a st] by (simp add: lex_switch_def)
  also have "\<dots> = Inr ((), s\<lparr>lx_end := Suc (lx_end s), lx_start := Suc (lx_end s), lx_line_nr := lx_line_nr s + lines_of [c]\<rparr>)"
  proof (cases "c = LF")
    case True
    then show ?thesis
      using adv look x codes same st
      by (simp add: state_1_def bnd_def inc_line_nr_def modify_def set_state_def ret_def lines_of_def)
  next
    case False
    then show ?thesis
      using c adv same st by (auto simp: state_1_def bnd_def modify_def set_state_def ret_def lines_of_def)
  qed
  finally show ?thesis .
qed

lemma white_run:
  "ahead s (b @ x # v) \<Longrightarrow> blank b \<Longrightarrow> x \<noteq> CR \<Longrightarrow> lx_state s = 1 \<Longrightarrow> lx_start s = lx_end s \<Longrightarrow>
   reaches (length b) s (s\<lparr>lx_end := lx_end s + length b, lx_start := lx_end s + length b,
     lx_line_nr := lx_line_nr s + lines_of b\<rparr>)"
proof (induction b arbitrary: s)
  case Nil
  then have "s\<lparr>lx_end := lx_end s, lx_start := lx_end s, lx_line_nr := lx_line_nr s\<rparr> = s" by (cases s) simp
  then show ?case by (simp add: lines_of_def)
next
  case (Cons c b)
  let ?t = "s\<lparr>lx_end := Suc (lx_end s), lx_start := Suc (lx_end s), lx_line_nr := lx_line_nr s + lines_of [c]\<rparr>"
  obtain y z where y: "b @ x # v = y # z" "y \<noteq> CR" using Cons.prems(2,3) by (cases b) (auto simp: blank_def)
  have "lex_step s = Inr ((), ?t)"
    by (rule white_step) (use Cons.prems y in \<open>auto simp: blank_def\<close>)
  then have "reaches (Suc (length b)) s (?t\<lparr>lx_end := lx_end ?t + length b, lx_start := lx_end ?t + length b,
      lx_line_nr := lx_line_nr ?t + lines_of b\<rparr>)"
  proof (rule reaches_step)
    show "reaches (length b) ?t (?t\<lparr>lx_end := lx_end ?t + length b, lx_start := lx_end ?t + length b,
      lx_line_nr := lx_line_nr ?t + lines_of b\<rparr>)"
      by (rule Cons.IH) (use Cons.prems in \<open>simp_all add: ahead_def blank_def\<close>)
  qed (use Cons.prems(4) in simp)
  moreover have "lines_of (c # b) = lines_of [c] + lines_of b" by (simp add: lines_of_def)
  ultimately show ?case by (simp add: add.assoc)
qed

section \<open>The whole text\<close>

lemma reaches_while:
  "reaches n s t \<Longrightarrow> lx_state t = 0 \<Longrightarrow> n < fuel \<Longrightarrow>
   while_cmd fuel (\<lambda>s. lx_state s \<noteq> 0) lex_step s = Inr ((), t)"
proof -
  assume r: "reaches n s t" and t: "lx_state t = 0" and "n < fuel"
  then obtain k where k: "fuel = n + Suc k" using less_iff_Suc_add by auto
  show "while_cmd fuel (\<lambda>s. lx_state s \<noteq> 0) lex_step s = Inr ((), t)"
    unfolding k using r while_lex_stop [OF t, of k] by (simp only: reaches_def)
qed

lemma next_token_reaches:
  assumes "reaches n (s\<lparr>lx_token := zero_token, lx_state := 1\<rparr>) t" and "lx_state t = 0" and "n \<le> 6 * lx_text_size s + 11"
  shows "next_token s = Inr ((lx_token t)\<lparr>tk_line_nr := lx_line_nr t\<rparr>, t\<lparr>lx_token := (lx_token t)\<lparr>tk_line_nr := lx_line_nr t\<rparr>\<rparr>)"
proof -
  have "while_cmd (lex_fuel (s\<lparr>lx_token := zero_token, lx_state := 1\<rparr>)) (\<lambda>s. lx_state s \<noteq> 0) lex_step
      (s\<lparr>lx_token := zero_token, lx_state := 1\<rparr>) = Inr ((), t)"
    by (rule reaches_while [OF assms(1,2)]) (use assms(3) in \<open>simp add: lex_fuel_def\<close>)
  then show ?thesis
    by (simp add: next_token_def bnd_def upd_token_def set_state_def modify_def gets_def del: while_cmd.simps)
qed

text \<open>Between two tokens, with the text \<open>v\<close> still to be scanned.\<close>

definition between :: "lexer \<Rightarrow> string \<Rightarrow> bool" where
  "between s v \<longleftrightarrow> ahead s (v @ [NUL]) \<and> lx_start s = lx_end s \<and> lx_end s + length v = lx_text_size s \<and> lx_tokens s \<noteq> []"

lemma next_token_word:
  assumes s: "between s (b @ spelling w @ v)" and b: "blank b" and w: "word_ok w" "ends w (hd (v @ [NUL]))"
  defines "tok \<equiv> token_of (klass (last (lx_tokens s))) (lx_line_nr s + lines_of b) w"
  obtains t where "next_token s = Inr (tok, t)" and "lx_token t = tok" and "lx_tokens t = lx_tokens s"
    and "lx_line_nr t = lx_line_nr s + lines_of b" and "lx_text_size t = lx_text_size s" and "\<And>ts. ts \<noteq> [] \<Longrightarrow> between (t\<lparr>lx_tokens := ts\<rparr>) v"
proof -
  obtain c rest where v: "v @ [NUL] = c # rest" by (cases v) auto
  obtain x u where x: "spelling w = x # u" "x \<noteq> CR" using spelling_start [OF w(1)] by blast
  let ?s0 = "s\<lparr>lx_token := zero_token, lx_state := 1\<rparr>"
  let ?s1 = "?s0\<lparr>lx_end := lx_end s + length b, lx_start := lx_end s + length b, lx_line_nr := lx_line_nr s + lines_of b\<rparr>"
  have a: "ahead ?s0 (b @ spelling w @ c # rest)" using s v by (simp add: between_def)
  then have "reaches (length b) ?s0 ?s1"
    using white_run [of ?s0 b x "u @ c # rest"] x b s by (simp add: between_def)
  moreover have "at_word ?s1 (klass (last (lx_tokens s))) (spelling w) c"
    using s v by (auto simp: at_word_def between_def ahead_def)
  from scan_word [OF this w(1)] obtain k t where k: "k \<le> 5" "reaches k ?s1 t"
    and t: "behind_word ?s1 (spelling w) (token_of (klass (last (lx_tokens s))) 0 w) t"
    using w(2) v by (auto simp: scans_def)
  ultimately have run: "reaches (length b + k) ?s0 t" by (blast intro: reaches_trans)
  have st: "lx_state t = 0" using t by (auto simp: behind_word_def)
  have "length b \<le> lx_text_size s" using s by (simp add: between_def)
  then have nxt: "next_token s = Inr ((lx_token t)\<lparr>tk_line_nr := lx_line_nr t\<rparr>,
      t\<lparr>lx_token := (lx_token t)\<lparr>tk_line_nr := lx_line_nr t\<rparr>\<rparr>)"
    by (intro next_token_reaches [OF run st]) (use k(1) in simp)
  have tok: "(lx_token t)\<lparr>tk_line_nr := lx_line_nr t\<rparr> = tok"
    using t by (auto simp: behind_word_def tok_def token_of_line [of _ "lx_line_nr s + lines_of b"])
  show thesis
  proof (rule that)
    show "next_token s = Inr (tok, t\<lparr>lx_token := tok\<rparr>)" using nxt tok by simp
    show "between (t\<lparr>lx_token := tok, lx_tokens := ts\<rparr>) v" if "ts \<noteq> []" for ts
      using s t that by (auto simp: between_def behind_word_def ahead_def add_ac)
  qed (use t in \<open>auto simp: behind_word_def\<close>)
qed

lemma end_step:
  "ahead s (c # v) \<Longrightarrow> lx_state s = 2 \<Longrightarrow>
   lex_step s = Inr ((), s\<lparr>lx_token := (lx_token s)\<lparr>klass := Token_EndOfInput, lexeme := ''<end-of-input>''\<rparr>, lx_state := 0\<rparr>)"
  by (simp add: switch_at lex_switch_def state_2_def bnd_def upd_token_def modify_def set_state_def)

lemma next_token_end:
  assumes s: "between s b" and b: "blank b"
  defines "tok \<equiv> zero_token\<lparr>klass := Token_EndOfInput, lexeme := ''<end-of-input>'', tk_line_nr := lx_line_nr s + lines_of b\<rparr>"
  shows "\<exists>t. next_token s = Inr (tok, t) \<and> lx_token t = tok \<and> lx_tokens t = lx_tokens s \<and> lx_text_size t = lx_text_size s"
proof -
  let ?s0 = "s\<lparr>lx_token := zero_token, lx_state := 1\<rparr>"
  let ?s1 = "?s0\<lparr>lx_end := lx_end s + length b, lx_start := lx_end s + length b, lx_line_nr := lx_line_nr s + lines_of b\<rparr>"
  let ?s2 = "?s1\<lparr>lx_state := 2\<rparr>" 
  let ?s3 = "?s2\<lparr>lx_token := (lx_token ?s2)\<lparr>klass := Token_EndOfInput, lexeme := ''<end-of-input>''\<rparr>, lx_state := 0\<rparr>"
  have "reaches (length b) ?s0 ?s1"
    using white_run [of ?s0 b NUL "[]"] b s by (simp add: between_def)
  moreover have a: "ahead ?s1 (NUL # [])" using s by (simp add: between_def ahead_def) metis
  have "start_state NUL = 2" "no_white NUL" by (simp_all add: start_state_def no_white_def is_digit_def cstr_is_digit_def cstr_is_letter_def code_def)
  then have "lex_step ?s1 = Inr ((), ?s2)" using start_at [OF a] by simp
  moreover have "lex_step ?s2 = Inr ((), ?s3)"
    by (rule end_step [where c = NUL and v = "[]"]) (use a in \<open>simp_all add: ahead_def\<close>)
  ultimately have run: "reaches (length b + Suc (Suc 0)) ?s0 ?s3"
    by (intro reaches_trans [where t = ?s1] reaches_step [where t = ?s2] reaches_step [where t = ?s3]) simp_all
  have "length b \<le> lx_text_size s" using s by (simp add: between_def)
  from next_token_reaches [OF run] this show ?thesis by (auto simp: tok_def)
qed

lemma tokenize_round:
  assumes "klass (lx_token s) \<notin> {Token_EndOfInput, Token_Unknown, Token_LexicalError}" and "next_token s = Inr (tok, t)"
  shows "tokenize_body s = Inr (None, t\<lparr>lx_tokens := lx_tokens t @ [tok]\<rparr>)"
  using assms by (simp add: tokenize_body_def bnd_def gets_def append_token_def modify_def ret_def)

lemma tokenize_passage:
  assumes "between s (spell ws rest)" and "\<forall>(b, w) \<in> set ws. blank b \<and> word_ok w" and "blank rest" and "separated ws rest"
    and "lx_token s = last (lx_tokens s)"
    and "klass (lx_token s) \<notin> {Token_EndOfInput, Token_Unknown, Token_LexicalError}" and "length ws + 2 \<le> n"
  shows "\<exists>t. repeat_cmd n tokenize_body s = Inr ((), t) \<and>
    lx_tokens t = lx_tokens s @ tokens_of (klass (lx_token s)) (lx_line_nr s) ws rest"
  using assms
proof (induction ws arbitrary: s n)
  case Nil
  then obtain m where n: "n = Suc (Suc m)" by (metis add_2_eq_Suc' le_Suc_ex list.size(3) plus_nat.add_0 add.commute)
  let ?tok = "zero_token\<lparr>klass := Token_EndOfInput, lexeme := ''<end-of-input>'', tk_line_nr := lx_line_nr s + lines_of rest\<rparr>"
  obtain t where t: "next_token s = Inr (?tok, t)" "lx_token t = ?tok" "lx_tokens t = lx_tokens s"
    using next_token_end [of s rest] Nil by auto
  let ?t = "t\<lparr>lx_tokens := lx_tokens t @ [?tok]\<rparr>"
  have "tokenize_body s = Inr (None, ?t)" by (rule tokenize_round [OF Nil.prems(6) t(1)])
  moreover have "tokenize_body ?t = Inr (Some (), ?t)"
    using t(2) by (simp add: tokenize_body_def bnd_def gets_def ret_def)
  ultimately show ?case using n t(3) by (simp add: bnd_def ret_def)
next
  case (Cons bw ws)
  obtain b w where bw: "bw = (b, w)" by (cases bw) auto
  obtain m where n: "n = Suc m" "length ws + 2 \<le> m" using Cons.prems(7) by (cases n) auto
  let ?tok = "token_of (klass (last (lx_tokens s))) (lx_line_nr s + lines_of b) w"
  have ok: "blank b" "word_ok w" "ends w (hd (spell ws rest @ [NUL]))" using Cons.prems(2,4) bw by auto
  obtain t where t: "next_token s = Inr (?tok, t)" "lx_token t = ?tok" "lx_tokens t = lx_tokens s"
    "lx_line_nr t = lx_line_nr s + lines_of b" "lx_text_size t = lx_text_size s" "\<And>ts. ts \<noteq> [] \<Longrightarrow> between (t\<lparr>lx_tokens := ts\<rparr>) (spell ws rest)"
    using next_token_word [OF _ ok, of s] Cons.prems(1) bw by auto
  let ?t = "t\<lparr>lx_tokens := lx_tokens t @ [?tok]\<rparr>"
  have "tokenize_body s = Inr (None, ?t)" by (rule tokenize_round [OF Cons.prems(6) t(1)])
  moreover have "\<exists>u. repeat_cmd m tokenize_body ?t = Inr ((), u) \<and>
      lx_tokens u = lx_tokens ?t @ tokens_of (klass (lx_token ?t)) (lx_line_nr ?t) ws rest"
    by (rule Cons.IH) (use Cons.prems t n token_of_inner [OF ok(2)] in auto)
  ultimately show ?case using n t(2-4) Cons.prems(5) by (auto simp: bnd_def bw Let_def)
qed

lemma spell_length: "\<forall>(b, w) \<in> set ws. word_ok w \<Longrightarrow> length ws \<le> length (spell ws rest)"
proof (induction ws)
  case (Cons bw ws)
  obtain b w where bw: "bw = (b, w)" by (cases bw) auto
  have "spelling w \<noteq> []" using Cons.prems bw spelling_start [of w] by auto
  then have "Suc 0 \<le> length (spelling w)" by (cases "spelling w") auto
  then show ?case using Cons bw by simp
qed simp

lemma tokenize_spelled:
  assumes "\<forall>(b, w) \<in> set ws. blank b \<and> word_ok w" and "blank rest" and "separated ws rest"
  shows "lex_tokenize (spell ws rest) =
    Inr (zero_token\<lparr>klass := Token_StartOfInput\<rparr> # tokens_of Token_StartOfInput 1 ws rest)"
proof -
  let ?src = "spell ws rest" and ?start = "zero_token\<lparr>klass := Token_StartOfInput\<rparr>"
  define s0 where "s0 = init_lexer (cstring ?src) (length ?src)"
  let ?s = "s0\<lparr>lx_tokens := [?start]\<rparr>"
  have "stands (cstring ?src) 0 (?src @ [NUL])"
    using stands_whole [of "[]" "?src @ [NUL]" "[]"] by (simp add: cstring_def)
  then have s: "between ?s ?src" by (simp add: between_def ahead_def s0_def init_lexer_def cstring_def)
  have "length ws \<le> length ?src" by (rule spell_length) (use assms(1) in auto)
  then have "length ws + 2 \<le> Suc (length ?src + 2)" by simp
  then obtain t where t: "repeat_cmd (Suc (length ?src + 2)) tokenize_body ?s = Inr ((), t)"
    "lx_tokens t = ?start # tokens_of Token_StartOfInput 1 ws rest"
    using tokenize_passage [OF s assms, of "Suc (length ?src + 2)"]
    by (auto simp: s0_def init_lexer_def zero_token_def simp del: repeat_cmd.simps)
  obtain tok u where u: "next_token ?s = Inr (tok, u)" "lx_text_size u = length ?src"
  proof (cases ws)
    case Nil
    then show thesis using next_token_end [of ?s rest] s assms(2) that by (auto simp: s0_def init_lexer_def)
  next
    case (Cons bw ws')
    obtain b w where "bw = (b, w)" by (cases bw) auto
    then show thesis using next_token_word [of ?s b w "spell ws' rest"] s assms(1,3) that Cons by (auto simp: s0_def init_lexer_def)
  qed
  have "tokenize_body ?s = Inr (None, u\<lparr>lx_tokens := lx_tokens u @ [tok]\<rparr>)"
    by (rule tokenize_round [OF _ u(1)]) (simp add: s0_def init_lexer_def)
  then have "repeat_cmd (length ?src + 2) tokenize_body (u\<lparr>lx_tokens := lx_tokens u @ [tok]\<rparr>) = Inr ((), t)"
    using t(1) by (simp only: repeat_cmd.simps) (simp add: bnd_def del: repeat_cmd.simps)
  moreover have "append_token (lx_token s0) s0 = Inr ((), ?s)" "append_token tok u = Inr ((), u\<lparr>lx_tokens := lx_tokens u @ [tok]\<rparr>)"
    by (simp_all add: append_token_def modify_def s0_def init_lexer_def)
  ultimately show ?thesis
    using u t(2) by (simp add: lex_tokenize_def lex_tokenize_cmd_def bnd_def gets_def flip: s0_def del: repeat_cmd.simps)
qed

section \<open>Properties\<close>

text \<open>
  C5: the scanner follows the lexical grammar. Every text that consists of words (operators and
  brackets, names, plain and sized integers in four bases, strings) with white space before, between
  and after them, in which no word goes on with the character behind it, is scanned to the
  tokens of these words: the class, the lexeme, the flags, width and value, and the line of
  each, between the start and the end token.
\<close>

theorem scanner_follows_lexical_grammar:
  assumes "\<forall>(b, w) \<in> set ws. blank b \<and> word_ok w" and "blank rest" and "separated ws rest"
  shows "lex_tokenize (spell ws rest) =
    Inr (zero_token\<lparr>klass := Token_StartOfInput\<rparr> # tokens_of Token_StartOfInput 1 ws rest)"
  by (rule tokenize_spelled [OF assms])

theorem scanner_follows_lexical_grammar_witness:
  "map_sum id (map (\<lambda>t. (klass t, lexeme t, tk_line_nr t, i_width t, i_value t)))
     (lex_tokenize (''n = 8w0x1F'' @ [LF] @ ''& (-b);'')) =
   Inr [(Token_StartOfInput, '''', 0, 0, 0), (Token_Identifier, ''n'', 1, 0, 0), (Token_Equal, ''='', 1, 0, 0),
     (Token_Integer, ''8w0x1F'', 1, 8, 31), (Token_Ampersand, ''&'', 2, 0, 0), (Token_ParenthOpen, ''('', 2, 0, 0),
     (Token_UnaryMinus, ''-'', 2, 0, 0), (Token_Identifier, ''b'', 2, 0, 0), (Token_ParenthClose, '')'', 2, 0, 0),
     (Token_Semicolon, '';'', 2, 0, 0), (Token_EndOfInput, ''<end-of-input>'', 2, 0, 0)]"
proof -
  let ?ws = "[('''', Name ''n''), ('' '', Mark ''=''), ('' '', Sized ''8'' False ''0x'' ''1F''), ([LF], Mark ''&''),
    ('' '', Mark ''(''), ('''', Dash), ('''', Name ''b''), ('''', Mark '')''), ('''', Mark '';'')]"
  have words: "\<forall>(b, w) \<in> set ?ws. blank b \<and> word_ok w"
    by (simp add: blank_def marks_def number_ok_def radixes_def literal_char_def is_word_char_def is_digit_def
        cstr_is_digit_def cstr_is_letter_def code_def)
  have ends: "separated ?ws ''''"
    by (simp add: marks_def number_ends_def literal_char_def is_word_char_def is_digit_def
        cstr_is_digit_def cstr_is_letter_def code_def)
  have "blank ''''" by (simp add: blank_def)
  note scanner_follows_lexical_grammar [OF words this ends]
  then show ?thesis
    by (simp add: zero_token_def marks_def lines_of_def value32_def digits_value_def digit_of_def code_def)
qed

text \<open>
  C17: the decimal text that the printer's \<open>%d\<close> gives for a number below \<open>2^31\<close>, read back by the
  scanner, is one integer token with that value and that text, between the start and the end token.
\<close>

theorem decimal_roundtrip:
  assumes "0 \<le> i" and "i < 2 ^ 31"
  shows "lex_tokenize (show_int i) =
    Inr [zero_token\<lparr>klass := Token_StartOfInput\<rparr>,
         zero_token\<lparr>klass := Token_Integer, i_flags := AstInteger_IsSigned, i_value := i,
           lexeme := show_int i, tk_line_nr := 1\<rparr>,
         zero_token\<lparr>klass := Token_EndOfInput, lexeme := ''<end-of-input>'', tk_line_nr := 1\<rparr>]"
proof -
  have s: "sint (word_of_int i :: u32) = i" using assms by (simp add: int_word_sint)
  let ?ds = "show_nat (nat i)"
  have show_i: "show_int i = ?ds" using assms s by (simp add: show_int_def)
  have ok: "number_ok '''' ?ds"
    using show_nat_not_Nil show_nat_digits by (auto simp: number_ok_def radixes_def literal_char_def)
  have "number_ends '''' ?ds NUL \<and> NUL \<notin> set ''ws''"
    by (simp add: number_ends_def literal_char_def is_digit_def cstr_is_digit_def code_def)
  then show ?thesis
    using tokenize_spelled [of "[('''', Number '''' ?ds)]" "''''"] ok assms s
    by (simp add: blank_def lines_of_def show_i value32_def digits_value_show_nat)
qed

theorem decimal_roundtrip_witness:
  "\<exists>s t u. lex_tokenize (show_int 2147483647) = Inr [s, t, u] \<and> i_value t = 2147483647"
  using decimal_roundtrip [of 2147483647] by simp

end
