(* ===== verification/Constants.thy ===== *)
theory Constants
  imports ExprParse ProgramProps ScanText
begin

text \<open>
  From the text to the tree: programs that consist of constant declarations. Scanner, keyword
  table and parser together turn the text of such a program into the tree of its derivation.
\<close>

section \<open>The grammar\<close>

datatype ptype =
    T_base ast_base_type_kind
  | T_sized ast_base_type_kind pexpr

datatype pconst = P_const ptype string pexpr

text \<open>The base types by their keyword; three of them may have a size.\<close>

definition base_class :: "ast_base_type_kind \<Rightarrow> token_class" where
  "base_class k =
     (case k of AstBaseType_NONE \<Rightarrow> Token_None | AstBaseType_Bool \<Rightarrow> Token_Bool
      | AstBaseType_Error \<Rightarrow> Token_Error | AstBaseType_Int \<Rightarrow> Token_Int | AstBaseType_Bit \<Rightarrow> Token_Bit
      | AstBaseType_Varbit \<Rightarrow> Token_Varbit | AstBaseType_String \<Rightarrow> Token_String)"

inductive type_sentence :: "token list \<Rightarrow> ptype \<Rightarrow> bool" where
  g_base: "k \<noteq> AstBaseType_NONE \<Longrightarrow> klass t = base_class k \<Longrightarrow> type_sentence [t] (T_base k)"
| g_sized: "k \<in> {AstBaseType_Int, AstBaseType_Bit, AstBaseType_Varbit} \<Longrightarrow> klass t = base_class k \<Longrightarrow>
    klass l = Token_AngleOpen \<Longrightarrow> klass n = Token_Integer \<Longrightarrow> klass r = Token_AngleClose \<Longrightarrow>
    type_sentence [t, l, n, r] (T_sized k (E_int (uint (i_flags n)) (i_width n) (i_value n)))"

inductive const_sentence :: "token list \<Rightarrow> pconst \<Rightarrow> bool" where
  g_const: "klass c = Token_Const \<Longrightarrow> type_sentence ts ty \<Longrightarrow> token_is_name n \<Longrightarrow> klass q = Token_Equal \<Longrightarrow>
    full_expr w e \<Longrightarrow> klass s = Token_Semicolon \<Longrightarrow>
    const_sentence (c # ts @ [n, q] @ w @ [s]) (P_const ty (lexeme n) e)"

inductive const_program :: "token list \<Rightarrow> pconst list \<Rightarrow> bool" where
  g_nil: "const_program [] []"
| g_decl: "const_sentence d c \<Longrightarrow> const_program w cs \<Longrightarrow> const_program (d @ w) (c # cs)"
| g_skip: "klass s = Token_Semicolon \<Longrightarrow> const_program w cs \<Longrightarrow> const_program (s # w) cs"

primrec type_tree :: "ptype \<Rightarrow> ast \<Rightarrow> bool" where
  "type_tree (T_base k) = node_of Ast_BaseType (Map.empty(''base_type'' := num (base_type_code k)))"
| "type_tree (T_sized k e) = (\<lambda>a. \<exists>x y. represents e x \<and> node_of Ast_IntTypeSize (Map.empty(''size'' := sub x)) y \<and>
     node_of Ast_BaseType (Map.empty(''base_type'' := num (base_type_code k), ''size'' := sub y)) a)"

primrec const_tree :: "pconst \<Rightarrow> ast \<Rightarrow> bool" where
  "const_tree (P_const ty name e) = (\<lambda>a. \<exists>x y z. type_tree ty x \<and> is_name_node name y \<and> represents e z \<and>
     node_of Ast_ConstDecl (Map.empty(''type_ref'' := sub x, ''name'' := sub y, ''expr'' := sub z)) a)"

definition program_tree :: "pconst list \<Rightarrow> ast \<Rightarrow> bool" where
  "program_tree cs a \<longleftrightarrow> (\<exists>xs. list_all2 const_tree cs xs \<and>
     node_of Ast_P4Program [''decl_list'' \<mapsto> (V_AstList (Some xs), AstAttr_AstList)] a)"

section \<open>Types\<close>

lemma runs_size:
  assumes "klass (us ! i) = Token_Integer" and "Suc i < length us"
  shows "runs \<sigma> us i (build_integerTypeSize e) (Suc i) (\<lambda>y. \<exists>x.
    represents (E_int (uint (i_flags (us ! i))) (i_width (us ! i)) (i_value (us ! i))) x \<and>
    node_of Ast_IntTypeSize (Map.empty(''size'' := sub x)) y)"
  unfolding build_integerTypeSize_def
proof (rule runs_seq_new)
  fix a assume a: "node Ast_IntTypeSize 0 Map.empty a"
  let ?Q = "represents (E_int (uint (i_flags (us ! i))) (i_width (us ! i)) (i_value (us ! i)))"
  have int: "runs \<sigma> us i build_integer (Suc i) (\<lambda>r. \<exists>x. r = Some x \<and> ?Q x)"
    unfolding build_integer_def represents.simps num_def
    by (intro runs_if_class) (use assms in \<open>auto intro!: runs_seq runs_ret dest: node_of_node\<close>)
  show "runs \<sigma> us i (if_class Token_Integer (bnd build_integer (\<lambda>v. set_ast ''size'' v a))
      (if_class Token_ParenthOpen (attr_ast ''size'' (handler e (Call_expression 1)) a) (expected ''`(` was expected'')))
      (Suc i) (\<lambda>y. \<exists>x. ?Q x \<and> node_of Ast_IntTypeSize (Map.empty(''size'' := sub x)) y)"
  proof (rule runs_if_class, simp only: assms(1) if_True refl, rule runs_bnd [OF int])
    fix r assume "\<exists>x. r = Some x \<and> ?Q x"
    then obtain x where "r = Some x" "?Q x" by blast
    then show "runs \<sigma> us (Suc i) (set_ast ''size'' r a) (Suc i)
        (\<lambda>y. \<exists>x. ?Q x \<and> node_of Ast_IntTypeSize (Map.empty(''size'' := sub x)) y)"
      using runs_set_ast [OF a, of \<sigma> us "Suc i" "''size''" r]
      by (auto simp: sub_def elim!: runs_weaken dest!: node_of_node simp del: represents.simps)
  qed
qed

lemma base_classD:
  "klass t = base_class k \<Longrightarrow> k \<noteq> AstBaseType_NONE \<Longrightarrow> token_is_baseType t \<and> token_is_typeRef t \<and> klass t \<noteq> Token_Comment"
  by (cases k) (simp_all add: base_class_def token_is_baseType_def token_is_typeRef_def)

lemma type_starts: "type_sentence w ty \<Longrightarrow> w \<noteq> [] \<and> token_is_baseType (hd w) \<and> token_is_typeRef (hd w)"
  by (erule type_sentence.cases) (use base_classD in \<open>auto dest: base_classD\<close>)

lemma runs_baseType:
  assumes ty: "type_sentence w ty" and at: "spells us i w" and n: "klass (us ! (i + length w)) \<noteq> Token_AngleOpen"
  shows "runs \<sigma> us i (build_baseType e) (i + length w) (type_tree ty)"
  using ty
proof cases
  case (g_base k t)
  then have t: "us ! i = t" "Suc i < length us" using at by simp_all
  show ?thesis
    unfolding build_baseType_def g_base type_tree.simps
    using g_base t n base_classD [of t k]
    by (cases k) (auto simp: base_class_def num_def build_optSize_def
        intro!: runs_seq runs_if_class runs_ret dest: node_of_node, auto dest: node_of_node)
next
  case (g_sized k t l n' r)
  then have t: "us ! i = t" "us ! Suc i = l" "us ! Suc (Suc i) = n'" "us ! Suc (Suc (Suc i)) = r"
    "Suc (Suc (Suc (Suc i))) < length us" using at by simp_all
  let ?e = "E_int (uint (i_flags n')) (i_width n') (i_value n')"
  define Q where "Q y \<longleftrightarrow> (\<exists>x. represents ?e x \<and> node_of Ast_IntTypeSize (Map.empty(''size'' := sub x)) y)" for y
  have size: "runs \<sigma> us (Suc (Suc i)) (build_integerTypeSize e) (Suc (Suc (Suc i))) Q"
    using runs_size [of us "Suc (Suc i)" \<sigma> e] g_sized t by (simp add: Q_def [abs_def])
  have tail: "runs \<sigma> us (Suc i) (build_optSize e a) (i + length w)
      (\<lambda>b. \<exists>y. Q y \<and> node Ast_BaseType 2 (m(''size'' := sub y)) b)" if "node Ast_BaseType 1 m a" for m a
    unfolding build_optSize_def sub_def
  proof (rule runs_if_class, goal_cases)
    case 1
    have next_k: "klass (us ! Suc (Suc (Suc i))) = Token_AngleClose" "klass (us ! Suc i) = Token_AngleOpen"
      using g_sized t by simp_all
    show ?case
      unfolding next_k if_True simp_thms
      by (rule runs_seq_next, use t in simp, rule runs_seq_attr_ast [OF size that], simp,
          rule runs_seq_expect [OF next_k(1)], use t in simp, use g_sized(1) in \<open>auto intro!: runs_ret\<close>)
  qed
  have tree: "type_tree ty = (\<lambda>a. \<exists>y. Q y \<and> node_of Ast_BaseType (Map.empty(''base_type'' := num (base_type_code k), ''size'' := sub y)) a)"
    unfolding g_sized type_tree.simps Q_def by auto
  have branch: "runs \<sigma> us i (bnd (set_int ''base_type'' c a) (\<lambda>b. bnd next_tok (\<lambda>_. build_optSize e b))) (i + length w) (type_tree ty)"
    if "node Ast_BaseType 0 Map.empty a" "c = base_type_code k" for a c
  proof (rule runs_seq_int [OF that(1)], simp, rule runs_seq_next)
    fix b assume b: "node Ast_BaseType (0 + 1) [''base_type'' \<mapsto> (V_Integer c, AstAttr_Integer)] b"
    then have "node Ast_BaseType 1 [''base_type'' \<mapsto> (V_Integer c, AstAttr_Integer)] b" by simp
    from tail [OF this] show "runs \<sigma> us (Suc i) (build_optSize e b) (i + length w) (type_tree ty)"
      unfolding tree num_def that(2) by (rule runs_weaken) (auto dest: node_of_node)
  qed (use t in simp)
  have k: "k = AstBaseType_Int \<or> k = AstBaseType_Bit \<or> k = AstBaseType_Varbit" using g_sized by auto
  show ?thesis
    unfolding build_baseType_def
  proof (rule runs_seq_require, goal_cases)
    case 1
    then show ?case using base_classD [of t k] g_sized t by auto
  next
    case 2
    show ?case
      by (rule runs_seq_new, intro runs_if_class) (use k g_sized(4) t(1) branch in \<open>auto simp: base_class_def intro!: runs_if_class\<close>)
  qed
qed

section \<open>Declarations\<close>

lemma type_length: "type_sentence w ty \<Longrightarrow> 0 < length w"
  using type_starts [of w ty] by simp

lemma runs_typeRef:
  assumes "type_sentence w ty" and "spells us i w" and "klass (us ! (i + length w)) \<noteq> Token_AngleOpen" and "0 < m"
  shows "runs \<sigma> us i (build m Call_typeRef) (i + length w) (type_tree ty)"
proof -
  obtain n where n: "m = Suc n" using assms(4) by (cases m) auto
  have "token_is_baseType (us ! i)" "token_is_typeRef (us ! i)"
    using type_starts [OF assms(1)] spells_hd [OF assms(2)] by auto
  then have "runs \<sigma> us i (build_typeRef (parse_env n)) (i + length w) (type_tree ty)"
    unfolding build_typeRef_def by (intro runs_if_tok) (auto intro!: runs_if_tok runs_baseType [OF assms(1-3)])
  then show ?thesis by (simp add: n dispatch_def parse_env_def)
qed

lemma runs_const:
  assumes c: "const_sentence w c" and at: "spells us i w" and m: "length w < m"
  shows "runs \<sigma> us i (build_constantDeclaration (parse_env m)) (i + length w) (const_tree c)"
  using c
proof cases
  case (g_const k ts ty n q v e s)
  let ?j = "Suc i + length ts"
  have t: "us ! i = k" "spells us (Suc i) ts" "us ! ?j = n" "us ! Suc ?j = q" "spells us (Suc (Suc ?j)) v"
    "us ! (Suc (Suc ?j) + length v) = s" "Suc (Suc (Suc ?j) + length v) < length us"
    using at g_const by simp_all
  have size: "length v < m" "0 < m" "ts \<noteq> []" "v \<noteq> []"
    using m g_const type_length [of ts ty] grammar_starts(3) [of v e] by auto
  have n: "klass (us ! ?j) \<noteq> Token_AngleOpen" using g_const t
    by (auto simp: token_is_name_def token_is_nonTypeName_def)
  have ty: "runs \<sigma> us (Suc i) (handler (parse_env m) Call_typeRef) ?j (type_tree ty)"
    using runs_typeRef [OF g_const(4) t(2) n size(2)] by (simp add: parse_env_def env_of_def)
  have name: "runs \<sigma> us ?j (build_name False) (Suc ?j) (is_name_node (lexeme n))"
    using runs_build_name [of us ?j \<sigma>] g_const t size by simp
  have par: "parses_at \<sigma> us 1 v e" by (rule grammar_parses(3)) (rule g_const)
  have expr: "runs \<sigma> us (Suc (Suc ?j)) (handler (parse_env m) (Call_expression 1)) (Suc (Suc ?j) + length v) (represents e)"
    by (rule handler_parses [OF par t(5) size(1)]) (use closing_ends g_const t(6) in simp)
  have starts: "token_is_typeRef (us ! Suc i)" "token_is_expression (us ! Suc (Suc ?j))"
    using type_starts [OF g_const(4)] grammar_starts(3) [OF g_const(7)] spells_hd [OF t(2)] spells_hd [OF t(5)]
    by (auto simp: starts_expr_def)
  have len: "i + length w = Suc (Suc (Suc ?j) + length v)" using g_const by simp
  show ?thesis
    unfolding build_constantDeclaration_def len g_const(2) const_tree.simps sub_def
    by (rule runs_seq_expect [of us i Token_Const], use g_const t in simp, use t in simp, rule runs_seq_new,
        rule runs_seq_require, rule starts, rule runs_seq_attr_ast [OF ty], assumption, simp,
        rule runs_seq_require, use g_const t in simp, rule runs_seq_attr_ast [OF name], assumption, simp,
        rule runs_seq_expect [of us "Suc ?j" Token_Equal], use g_const t in simp, use t in simp,
        rule runs_seq_require, rule starts, rule runs_seq_attr_ast [OF expr], assumption, simp,
        rule runs_seq_expect [of us _ Token_Semicolon], use g_const t in simp, use t in simp,
        rule runs_ret, auto dest: node_of_node)
qed

section \<open>Programs\<close>

lemma const_length: "const_sentence w c \<Longrightarrow> 0 < length w \<and> klass (hd w) = Token_Const"
  by (erule const_sentence.cases) simp

lemma runs_constants:
  "const_program w cs \<Longrightarrow> spells us i w \<Longrightarrow> klass (us ! (i + length w)) = Token_EndOfInput \<Longrightarrow> length w < n \<Longrightarrow> length w < m \<Longrightarrow>
   runs \<sigma> us i (p4program_loop n (parse_env m) ds) (i + length w) (\<lambda>r. \<exists>xs. r = ds @ xs \<and> list_all2 const_tree cs xs)"
proof (induction arbitrary: i n ds rule: const_program.induct)
  case g_nil
  then obtain n' where "n = Suc n'" by (cases n) auto
  then show ?case
    using g_nil by (auto intro!: runs_if_tok runs_if_class runs_ret
        simp: token_is_declaration_def token_is_typeRef_def token_is_baseType_def token_is_prefixedType_def
          token_is_typeDeclaration_def token_is_derivedTypeDeclaration_def token_is_typeOrVoid_def)
next
  case (g_decl d c w cs)
  then obtain n' where n: "n = Suc n'" by (cases n) auto
  have at: "spells us i d" "spells us (i + length d) w" using g_decl.prems(1) by simp_all
  have d: "0 < length d" "us ! i = hd d" using const_length [OF g_decl.hyps(1)] spells_hd [OF at(1)] by auto
  have k: "klass (us ! i) = Token_Const" "token_is_declaration (us ! i)"
    using const_length [OF g_decl.hyps(1)] d(2) by (simp_all add: token_is_declaration_def)
  have "runs \<sigma> us i (build_constantDeclaration (parse_env m)) (i + length d) (const_tree c)"
    by (rule runs_const [OF g_decl.hyps(1) at(1)]) (use g_decl.prems in simp)
  then have decl: "runs \<sigma> us i (non_null (build_declaration (parse_env m))) (i + length d) (const_tree c)"
    unfolding build_declaration_def
    by (intro runs_non_null runs_if_tok) (auto simp: k intro!: runs_if_class runs_some_step)
  show ?case
    unfolding n p4program_loop.simps
  proof (rule runs_if_tok, simp only: k if_True, rule runs_bnd [OF decl])
    fix a assume a: "const_tree c a"
    have less: "length w < n'" using g_decl.prems(3) n d(1) unfolding length_append by linarith
    have "runs \<sigma> us (i + length d) (p4program_loop n' (parse_env m) (ds @ [a])) (i + length d + length w)
        (\<lambda>r. \<exists>xs. r = (ds @ [a]) @ xs \<and> list_all2 const_tree cs xs)"
      by (rule g_decl.IH [OF at(2)]) (use g_decl.prems less in \<open>simp_all add: add.assoc\<close>)
    then show "runs \<sigma> us (i + length d) (p4program_loop n' (parse_env m) (ds @ [a])) (i + length (d @ w))
        (\<lambda>r. \<exists>xs. r = ds @ xs \<and> list_all2 const_tree (c # cs) xs)"
      using a by (simp add: add.assoc) (erule runs_weaken, auto)
  qed
next
  case (g_skip s w cs)
  then obtain n' where n: "n = Suc n'" by (cases n) auto
  have s: "us ! i = s" "spells us (Suc i) w" using g_skip.prems(1) by simp_all
  have k: "klass (us ! i) = Token_Semicolon" "\<not> token_is_declaration (us ! i)"
    using g_skip.hyps(1) s(1)
    by (simp_all add: token_is_declaration_def token_is_typeRef_def token_is_baseType_def token_is_prefixedType_def
        token_is_typeDeclaration_def token_is_derivedTypeDeclaration_def token_is_typeOrVoid_def)
  have "Suc i < length us" using spells_less [OF s(2)] by simp
  have "runs \<sigma> us (Suc i) (p4program_loop n' (parse_env m) ds) (Suc i + length w)
      (\<lambda>r. \<exists>xs. r = ds @ xs \<and> list_all2 const_tree cs xs)"
    by (rule g_skip.IH [OF s(2)]) (use g_skip.prems n in simp_all)
  with \<open>Suc i < length us\<close> show ?case
    unfolding n p4program_loop.simps
    by (intro runs_if_tok runs_if_class) (auto simp: k intro!: runs_if_class runs_seq)
qed

lemma runs_program:
  assumes "const_program w cs" and "spells us i w" and "klass (us ! (i + length w)) = Token_EndOfInput" and "length w < m"
  shows "runs \<sigma> us i (build_p4program (parse_env m)) (i + length w) (program_tree cs)"
  unfolding build_p4program_def
proof (rule runs_seq_new, rule runs_bnd)
  fix p assume p: "node Ast_P4Program 0 Map.empty p"
  show "runs \<sigma> us i (p4program_loop (rounds (parse_env m)) (parse_env m) []) (i + length w)
      (\<lambda>r. \<exists>xs. r = [] @ xs \<and> list_all2 const_tree cs xs)"
    by (rule runs_constants) (use assms in \<open>simp_all add: parse_env_def env_of_def\<close>)
  fix ds assume "\<exists>xs. ds = [] @ xs \<and> list_all2 const_tree cs xs"
  then have ds: "list_all2 const_tree cs ds" by simp
  show "runs \<sigma> us (i + length w) (bnd (set_list ''decl_list'' (Some ds) p) (\<lambda>program.
      bnd (require (has_class Token_EndOfInput) ''unexpected token'') (\<lambda>_. ret program))) (i + length w) (program_tree cs)"
    unfolding set_list_def
    by (rule runs_bnd [OF runs_setattr [OF p]], simp, rule runs_seq_require)
      (use assms(3) ds in \<open>auto simp: has_class_def program_tree_def intro!: runs_ret exI [of _ ds] node_of_node\<close>)
qed

section \<open>The text of a program\<close>

lemma tokens_of_end:
  "\<exists>n'. tokens_of prev n ws rest = butlast (tokens_of prev n ws rest) @
     [zero_token\<lparr>klass := Token_EndOfInput, lexeme := ''<end-of-input>'', tk_line_nr := n'\<rparr>] \<and>
   length (tokens_of prev n ws rest) = Suc (length ws)"
proof (induction ws arbitrary: prev n)
  case Nil
  show ?case by (rule exI [of _ "n + lines_of rest"]) simp
next
  case (Cons bw ws)
  obtain b w where bw: "bw = (b, w)" by (cases bw) auto
  let ?t = "token_of prev (n + lines_of b) w" and ?us = "tokens_of (klass (token_of prev (n + lines_of b) w)) (n + lines_of b) ws rest"
  obtain n' where IH: "?us = butlast ?us @ [zero_token\<lparr>klass := Token_EndOfInput, lexeme := ''<end-of-input>'', tk_line_nr := n'\<rparr>]"
    "length ?us = Suc (length ws)" using Cons.IH [of "klass ?t" "n + lines_of b"] by blast
  then have "?us \<noteq> []" by auto
  with IH show ?case by (intro exI [of _ n']) (simp add: bw Let_def)
qed

text \<open>The tokens of the words with the classes that the keyword table gives to names.\<close>

definition sentence_of :: "passage \<Rightarrow> string \<Rightarrow> token list" where
  "sentence_of ws rest = map (resolve (keyword_symbols 0)) (butlast (tokens_of Token_StartOfInput 1 ws rest))"

lemma resolve_no_comment: "klass t \<noteq> Token_Comment \<Longrightarrow> klass (resolve (keyword_symbols l) t) \<noteq> Token_Comment"
proof -
  have "\<forall>(name, k) \<in> set keyword_table. k \<noteq> Token_Comment" by (simp add: keyword_table_def)
  then have "k \<noteq> Token_Comment" if "map_of keyword_table name = Some k" for name k
    using map_of_SomeD [OF that] by auto
  then show "klass t \<noteq> Token_Comment \<Longrightarrow> klass (resolve (keyword_symbols l) t) \<noteq> Token_Comment"
    by (auto simp: resolve_def name_class_def keyword_symbols_def keyword_symbol_def split: option.splits)
qed

lemma token_of_no_comment: "word_ok w \<Longrightarrow> klass (token_of prev n w) \<noteq> Token_Comment"
proof (cases w)
  case (Mark m)
  moreover assume "word_ok w"
  ultimately obtain k ex where m: "map_of marks m = Some (k, ex)" "(m, k, ex) \<in> set marks" using mark_entry [of m] by blast
  then have "k \<noteq> Token_Comment" unfolding marks_def list.set by (elim insertE) simp_all
  then show ?thesis using m Mark by simp
qed (simp_all add: zero_token_def)

lemma tokens_of_no_comment:
  "\<forall>(b, w) \<in> set ws. word_ok w \<Longrightarrow> t \<in> set (tokens_of prev n ws rest) \<Longrightarrow> klass t \<noteq> Token_Comment"
  by (induction ws arbitrary: prev n) (auto simp: zero_token_def Let_def token_of_no_comment)

lemma add_keywords_count:
  "symtable_wf st \<Longrightarrow> add_keywords kws st = Inr ((), st') \<Longrightarrow> entry_count st' \<le> entry_count st + int (length kws)"
proof (induction kws arbitrary: st)
  case (Cons kw kws)
  obtain name k where kw: "kw = (name, k)" by (cases kw)
  obtain st1 where run: "add_keyword name k st = Inr ((), st1)" "add_keywords kws st1 = Inr ((), st')"
    using Cons.prems(2) kw by (auto simp: bnd_def split: sum.splits)
  note st1 = add_keyword_post [OF Cons.prems(1) run(1)]
  then have "entry_count st' \<le> entry_count st1 + int (length kws)"
    using Cons.IH [OF _ run(2)] by (simp add: with_keyword_def)
  with st1 show ?case by (simp add: with_keyword_def)
qed (simp add: ret_def)

lemma start_table:
  "\<exists>st. symtable_init (symtable_start 4096) = Inr ((), st) \<and> symtable_wf st \<and> page_bytes st = 4096 \<and>
     entry_count st \<le> 40 \<and> symbols st = keyword_symbols 0"
proof -
  let ?s0 = "symtable_start 4096"
  let ?k = "capacity_log2 ?s0"
  let ?st = "?s0\<lparr>capacity_of := 2 ^ ?k - 1, st_buckets := replicate (2 ^ ?k - 1) []\<rparr>"
  have start: "entry_count ?s0 = 0" "0 < ?k" "?k < 31" "page_bytes ?s0 = 4096" "scope_level ?s0 = 0"
    by (simp_all add: symtable_start_def)
  obtain st where run: "symtable_init ?s0 = Inr ((), st)" using symtable_init_returns [OF start(1-4)] by blast
  have wf: "symtable_wf ?st"
    using chains_empty [OF start(2,3)] start(1) by (simp add: symtable_wf_def concat_replicate_trivial)
  have "add_keywords keyword_table ?st = Inr ((), st)"
    using run start nat_capacity [of ?k] by (auto simp: symtable_init_def add_all_keywords_def Let_def split: if_splits)
  from add_keywords_count [OF wf this] have "entry_count st \<le> 40"
    by (simp add: keyword_table_def symtable_start_def)
  with run symtable_init_post [OF start(1,2) run] start(4,5) show ?thesis by (simp add: same_scope_def)
qed

lemma parse_constants:
  assumes toks: "ts = t0 # w @ [t1]" and start: "klass t0 = Token_StartOfInput" and stop: "klass t1 = Token_EndOfInput"
    and prog: "const_program (map (resolve (keyword_symbols 0)) w) cs"
    and nc: "\<forall>t \<in> set ts. klass t \<noteq> Token_Comment" and len: "length w \<le> 400"
  shows "\<exists>a s. parse_tokens 4096 ts = Inr (a, s) \<and> program_tree cs a"
proof -
  let ?\<sigma> = "keyword_symbols 0"
  let ?us = "map (resolve ?\<sigma>) ts" and ?w = "map (resolve ?\<sigma>) w"
  obtain st where st: "symtable_init (symtable_start 4096) = Inr ((), st)" "symtable_wf st" "page_bytes st = 4096"
    "entry_count st \<le> 40" "symbols st = ?\<sigma>" using start_table by blast
  have ends: "resolve ?\<sigma> t0 = t0" "resolve ?\<sigma> t1 = t1" using start stop by (simp_all add: resolve_def)
  then have us: "?us = t0 # ?w @ [t1]" using toks by simp
  have "card {n \<in> lexeme ` set ?us. st_lookup st n = None} \<le> card (lexeme ` set ?us)" by (rule card_mono) auto
  also have "\<dots> \<le> length ?us" using card_length [of "map lexeme ts"] by (simp add: image_image)
  finally have "card {n \<in> lexeme ` set ?us. st_lookup st n = None} \<le> 402" using len toks by simp
  then have "roomy ?us st" using st by (simp add: roomy_def)
  then have ready: "ready_at ?\<sigma> ?us 0 (init_parser ts st)"
    using nc resolve_no_comment st(5) us toks by (auto simp: ready_at_def init_parser_def ends)
  have at: "spells ?us (Suc 0) ?w" using us by (intro spells_parts [of "[t0]" ?w "[t1]", simplified]) simp_all
  have last: "klass (?us ! (Suc 0 + length ?w)) = Token_EndOfInput" using us stop by (simp add: nth_append)
  have "runs ?\<sigma> ?us 0 (bnd next_tok (\<lambda>_. build_p4program (parse_env (parse_fuel ts)))) (Suc 0 + length ?w) (program_tree cs)"
    by (rule runs_seq_next, use us in simp, rule runs_program [OF prog at last])
      (simp add: parse_fuel_def toks)
  from runs_result [OF this ready] obtain a s where
    "bnd next_tok (\<lambda>_. build_p4program (parse_env (parse_fuel ts))) (init_parser ts st) = Inr (a, s)" "program_tree cs a"
    by metis
  moreover have "(init_parser ts st)\<lparr>token_at := 0\<rparr> = init_parser ts st" "ps_tokens (init_parser ts st) \<noteq> []"
    using toks by (simp_all add: init_parser_def)
  ultimately show ?thesis
    using st(1) by (simp add: parse_tokens_def build_ast_program_def bnd_def gets_def assert_cmd_def ret_def modify_def)
qed

section \<open>Properties\<close>

text \<open>
  C4: from the text to the tree. The text of a program of constant declarations (words and white
  space, at most 400 words) is scanned, its keywords are found in the keyword table, and the
  parser returns the tree of the derivation of its sentence: scanner, symbol table and parser
  together implement the grammar.
\<close>

theorem source_to_tree:
  assumes "\<forall>(b, w) \<in> set ws. blank b \<and> word_ok w" and "blank rest" and "separated ws rest" and "length ws \<le> 400"
    and "const_program (sentence_of ws rest) cs"
  shows "\<exists>ts a s. lex_tokenize (spell ws rest) = Inr ts \<and> parse_tokens 4096 ts = Inr (a, s) \<and> program_tree cs a"
proof -
  let ?toks = "tokens_of Token_StartOfInput 1 ws rest" and ?t0 = "zero_token\<lparr>klass := Token_StartOfInput\<rparr>"
  obtain n where end_tok: "?toks = butlast ?toks @
      [zero_token\<lparr>klass := Token_EndOfInput, lexeme := ''<end-of-input>'', tk_line_nr := n\<rparr>]"
    and len: "length ?toks = Suc (length ws)" using tokens_of_end by blast
  have "\<exists>a s. parse_tokens 4096 (?t0 # ?toks) = Inr (a, s) \<and> program_tree cs a"
  proof (rule parse_constants [where w = "butlast ?toks"])
    show "?t0 # ?toks = ?t0 # butlast ?toks @ [zero_token\<lparr>klass := Token_EndOfInput, lexeme := ''<end-of-input>'', tk_line_nr := n\<rparr>]"
      using end_tok by simp
    show "const_program (map (resolve (keyword_symbols 0)) (butlast ?toks)) cs"
      using assms(5) by (simp add: sentence_of_def)
    show "\<forall>t \<in> set (?t0 # ?toks). klass t \<noteq> Token_Comment"
      using tokens_of_no_comment [of ws _ Token_StartOfInput 1 rest] assms(1) by (auto simp: zero_token_def)
  qed (use len assms(4) in simp_all)
  then show ?thesis using tokenize_spelled [OF assms(1-3)] by blast
qed

lemma binary_of_atoms:
  assumes "postfix_expr v e" and "postfix_expr w f" and "get_operator_priority t = Inr q" and "1 \<le> q"
  shows "full_expr (v @ t # w) (E_binary (token_to_binop t) e f)"
  by (rule g_op, rule g_binary [OF assms(3,4)], rule g_atom [OF assms(1)], rule g_atom [OF assms(2)])

theorem source_to_tree_witness:
  "\<exists>ts a s. lex_tokenize ''const bit<8> a = 1+b;'' = Inr ts \<and> parse_tokens 4096 ts = Inr (a, s) \<and>
     program_tree [P_const (T_sized AstBaseType_Bit (E_int 2 0 8)) ''a''
       (E_binary AstExprOp_Add (E_int 2 0 1) (E_name ''b''))] a"
proof -
  let ?ws = "[('''', Name ''const''), ('' '', Name ''bit''), ('''', Mark ''<''), ('''', Number '''' ''8''), ('''', Mark ''>''),
    ('' '', Name ''a''), ('' '', Mark ''=''), ('' '', Number '''' ''1''), ('''', Mark ''+''), ('''', Name ''b''), ('''', Mark '';'')]"
  have words: "\<forall>(b, w) \<in> set ?ws. blank b \<and> word_ok w"
    by (simp add: blank_def marks_def number_ok_def radixes_def literal_char_def is_word_char_def is_digit_def
        cstr_is_digit_def cstr_is_letter_def code_def)
  have ends: "separated ?ws ''''"
    by (simp add: marks_def number_ends_def literal_char_def is_word_char_def is_digit_def
        cstr_is_digit_def cstr_is_letter_def code_def)
  have blank: "blank ''''" by (simp add: blank_def)
  let ?t = "\<lambda>k str. zero_token\<lparr>klass := k, lexeme := str, tk_line_nr := 1\<rparr>"
  let ?i = "\<lambda>str v. zero_token\<lparr>klass := Token_Integer, lexeme := str, tk_line_nr := 1, i_flags := 2, i_value := v\<rparr>"
  let ?n8 = "?i ''8'' 8" and ?n1 = "?i ''1'' 1" and ?plus = "?t Token_Plus ''+''" and ?b = "?t Token_Identifier ''b''"
  have toks: "sentence_of ?ws '''' = [?t Token_Const ''const'', ?t Token_Bit ''bit'', ?t Token_AngleOpen ''<'', ?n8,
      ?t Token_AngleClose ''>'', ?t Token_Identifier ''a'', ?t Token_Equal ''='', ?n1, ?plus, ?b, ?t Token_Semicolon '';'']"
    by (simp add: sentence_of_def resolve_def name_class_def keyword_symbols_def keyword_table_def keyword_symbol_def marks_def
        zero_token_def lines_of_def value32_def digits_value_def digit_of_def code_def AstInteger_IsSigned_def)
  have int: "postfix_expr [?i str v] (E_int 2 0 v)" for str v
    using g_int [of "?i str v"] by (simp add: zero_token_def)
  have "full_expr ([?n1] @ ?plus # [?b]) (E_binary (token_to_binop ?plus) (E_int 2 0 1) (E_name ''b''))"
    using g_name [of ?b] by (intro binary_of_atoms [where q = 3] int) (simp_all add: token_is_nonTypeName_def get_operator_priority_def)
  then have expr: "full_expr [?n1, ?plus, ?b] (E_binary AstExprOp_Add (E_int 2 0 1) (E_name ''b''))"
    by (simp add: token_to_binop_def)
  have "type_sentence [?t Token_Bit ''bit'', ?t Token_AngleOpen ''<'', ?n8, ?t Token_AngleClose ''>'']
      (T_sized AstBaseType_Bit (E_int (uint (i_flags ?n8)) (i_width ?n8) (i_value ?n8)))"
    by (rule g_sized) (simp_all add: base_class_def)
  then have ty: "type_sentence [?t Token_Bit ''bit'', ?t Token_AngleOpen ''<'', ?n8, ?t Token_AngleClose ''>'']
      (T_sized AstBaseType_Bit (E_int 2 0 8))" by (simp add: zero_token_def)
  have "const_sentence (sentence_of ?ws '''') (P_const (T_sized AstBaseType_Bit (E_int 2 0 8)) ''a''
      (E_binary AstExprOp_Add (E_int 2 0 1) (E_name ''b'')))"
    using g_const [OF _ ty _ _ expr, of "?t Token_Const ''const''" "?t Token_Identifier ''a''" "?t Token_Equal ''=''" "?t Token_Semicolon '';''"]
    unfolding toks by (simp add: token_is_name_def token_is_nonTypeName_def)
  from g_decl [OF this g_nil] source_to_tree [OF words blank ends] show ?thesis by simp
qed

end
