(* ===== verification/TreeCalc.thy ===== *)
theory TreeCalc
  imports ParseCalc PrintAst "HOL-Library.Multiset"
begin

text \<open>
  The trees the parser builds. \<open>makes tr A m\<close> is a judgment with ownership: given the trees \<open>A\<close>,
  \<open>m\<close> returns the trees \<open>tr\<close> of its result, made of those of \<open>A\<close> and of new nodes. It keeps two
  facts: every node has a kind of its own and values that fit their tags, and no node number
  occurs twice, neither in these trees nor in any other tree that exists meanwhile.
\<close>

section \<open>Node numbers and tags\<close>

text \<open>The numbers of all nodes of a tree.\<close>

primrec ast_ids :: "ast \<Rightarrow> int multiset"
  and attr_ids :: "attribute \<Rightarrow> int multiset"
  and value_ids :: "attr_value \<Rightarrow> int multiset"
where
  "ast_ids (Ast k i l n attrs) = add_mset i (sum_list (map sum_list (map (map attr_ids) attrs)))"
| "attr_ids (Attribute ty name v) = value_ids v"
| "value_ids (V_Ast r) = (case map_option ast_ids r of None \<Rightarrow> {#} | Some m \<Rightarrow> m)"
| "value_ids (V_AstList r) = (case map_option (map ast_ids) r of None \<Rightarrow> {#} | Some ms \<Rightarrow> sum_list ms)"
| "value_ids (V_Integer i) = {#}"
| "value_ids (V_String s) = {#}"
| "value_ids (V_ExprOperator op) = {#}"

text \<open>Does the value have the type its tag says?\<close>

definition fits :: "ast_attribute_type \<Rightarrow> attr_value \<Rightarrow> bool" where
  "fits ty v =
     (case v of V_Ast r \<Rightarrow> ty = AstAttr_Ast | V_AstList r \<Rightarrow> ty = AstAttr_AstList
      | V_Integer i \<Rightarrow> ty = AstAttr_Integer | V_String s \<Rightarrow> ty = AstAttr_String
      | V_ExprOperator op \<Rightarrow> ty = AstAttr_ExprOperator)"

text \<open>The one misfit the parser makes: the string of an \<open>error\<close> primary, under the tag of a tree.\<close>

definition misfit :: "ast_attribute_type \<Rightarrow> attr_value \<Rightarrow> bool" where
  "misfit ty v \<longleftrightarrow> ty = AstAttr_Ast \<and> (\<exists>s. v = V_String s)"

text \<open>
  \<open>every P a\<close>: every node of \<open>a\<close> has a kind and a well-formed attribute table, and every
  attribute of it satisfies \<open>P\<close>.
\<close>

primrec every :: "(ast_attribute_type \<Rightarrow> attr_value \<Rightarrow> bool) \<Rightarrow> ast \<Rightarrow> bool"
  and every_attr :: "(ast_attribute_type \<Rightarrow> attr_value \<Rightarrow> bool) \<Rightarrow> attribute \<Rightarrow> bool"
  and every_value :: "(ast_attribute_type \<Rightarrow> attr_value \<Rightarrow> bool) \<Rightarrow> attr_value \<Rightarrow> bool"
where
  "every P (Ast k i l n attrs) \<longleftrightarrow> k \<noteq> Ast_NONE \<and> attr_wf (Ast k i l n attrs) \<and>
     (\<forall>c \<in> set (map (map (every_attr P)) attrs). \<forall>b \<in> set c. b)"
| "every_attr P (Attribute ty name v) \<longleftrightarrow> P ty v \<and> every_value P v"
| "every_value P (V_Ast r) \<longleftrightarrow> (case map_option (every P) r of None \<Rightarrow> True | Some b \<Rightarrow> b)"
| "every_value P (V_AstList r) \<longleftrightarrow>
     (case map_option (map (every P)) r of None \<Rightarrow> True | Some bs \<Rightarrow> \<forall>b \<in> set bs. b)"
| "every_value P (V_Integer i) \<longleftrightarrow> True"
| "every_value P (V_String s) \<longleftrightarrow> True"
| "every_value P (V_ExprOperator op) \<longleftrightarrow> True"

abbreviation good :: "ast \<Rightarrow> bool" where
  "good \<equiv> every (\<lambda>ty v. fits ty v \<or> misfit ty v)"

abbreviation well_tagged :: "ast \<Rightarrow> bool" where
  "well_tagged \<equiv> every fits"

lemma every_nodes:
  "every P a \<longleftrightarrow> kind_of a \<noteq> Ast_NONE \<and> attr_wf a \<and> (\<forall>c \<in> set (attrs_of a). \<forall>e \<in> set c. P (attr_type e) (attr_value e) \<and>
     every_value P (attr_value e))"
proof -
  have "every_attr P e \<longleftrightarrow> P (attr_type e) (attr_value e) \<and> every_value P (attr_value e)" for e
    by (cases e) simp
  then show ?thesis by (cases a) (simp only: every.simps, auto)
qed

lemma value_ids_simps [simp]:
  "value_ids (V_Ast None) = {#}" "value_ids (V_Ast (Some a)) = ast_ids a"
  "value_ids (V_AstList None) = {#}" "value_ids (V_AstList (Some as)) = sum_list (map ast_ids as)"
  by simp_all

lemma every_value_simps [simp]:
  "every_value P (V_Ast None)" "every_value P (V_Ast (Some a)) \<longleftrightarrow> every P a"
  "every_value P (V_AstList None)" "every_value P (V_AstList (Some as)) \<longleftrightarrow> (\<forall>a \<in> set as. every P a)"
  by simp_all

lemma ast_ids_nodes:
  "ast_ids a = add_mset (id_of a) (sum_list (map (\<lambda>c. sum_list (map (\<lambda>e. value_ids (attr_value e)) c)) (attrs_of a)))"
proof -
  have "attr_ids e = value_ids (attr_value e)" for e by (cases e) simp
  then have "attr_ids = (\<lambda>e. value_ids (attr_value e))" by auto
  then show ?thesis by (cases a) (simp add: comp_def)
qed

lemma sum_list_update:
  "i < length xs \<Longrightarrow> sum_list (map g (xs[i := y])) + g (xs ! i) = sum_list (map g xs) + (g y :: int multiset)"
  by (induction xs arbitrary: i) (auto simp: add.assoc add.left_commute split: nat.splits)

lemma set_entry_ids:
  "sum_list (map (\<lambda>e. value_ids (attr_value e)) (set_entry es name v ty)) \<subseteq>#
   sum_list (map (\<lambda>e. value_ids (attr_value e)) es) + value_ids v"
proof (induction es)
  case (Cons e es)
  show ?case
  proof (cases "attr_name e = name")
    case False
    then show ?thesis using Cons.IH by (simp add: add.assoc)
  qed (simp add: add.commute [of "value_ids v"] add.assoc)
qed simp

lemma set_entry_set: "e \<in> set (set_entry es name v ty) \<Longrightarrow> e \<in> set es \<or> (attr_type e = ty \<and> attr_value e = v)"
  by (induction es) (auto split: if_splits)

lemma setattr_chain:
  assumes "ast_setattr a name v ty = Inr b"
  obtains h chain where "h < length (attrs_of a)" "kind_of b = kind_of a" "id_of b = id_of a"
    "attrs_of b = (attrs_of a)[h := chain]"
    "chain = set_entry (attrs_of a ! h) name v ty \<or> chain = Attribute ty name v # attrs_of a ! h"
proof -
  obtain h where h: "attr_hash name = Inr h" and chain: "rd (attrs_of a) h = Inr (attrs_of a ! h)" "h < length (attrs_of a)"
    using assms by (auto simp: ast_setattr_def bnd_r_Inr_iff rd_def split: if_splits)
  then show thesis
    using assms that [of h]
    by (auto simp: ast_setattr_def bnd_r_def split: option.splits if_splits)
qed

lemma setattr_ids:
  assumes "ast_setattr a name v ty = Inr b"
  shows "ast_ids b \<subseteq># ast_ids a + value_ids v"
proof -
  obtain h chain where h: "h < length (attrs_of a)" and chain: "id_of b = id_of a" "attrs_of b = (attrs_of a)[h := chain]"
    "chain = set_entry (attrs_of a ! h) name v ty \<or> chain = Attribute ty name v # attrs_of a ! h"
    by (rule setattr_chain [OF assms])
  let ?g = "\<lambda>c. sum_list (map (\<lambda>e. value_ids (attr_value e)) c)"
  have "?g chain \<subseteq># ?g (attrs_of a ! h) + value_ids v"
    using chain(3) set_entry_ids by (auto simp: add.commute)
  then have "sum_list (map ?g (attrs_of b)) + ?g (attrs_of a ! h) \<subseteq>#
      sum_list (map ?g (attrs_of a)) + value_ids v + ?g (attrs_of a ! h)"
    using sum_list_update [OF h, of ?g chain] chain(2)
    by (simp add: add.assoc add.commute [of "value_ids v"])
  then have "sum_list (map ?g (attrs_of b)) \<subseteq># sum_list (map ?g (attrs_of a)) + value_ids v" by simp
  then show ?thesis using chain(1) by (simp add: ast_ids_nodes [of a] ast_ids_nodes [of b])
qed

lemma setattr_every:
  assumes "ast_setattr a name v ty = Inr b" and "every P a" and "P ty v" and "every_value P v"
  shows "every P b"
proof -
  obtain h chain where b: "kind_of b = kind_of a" "attrs_of b = (attrs_of a)[h := chain]" "h < length (attrs_of a)"
    "chain = set_entry (attrs_of a ! h) name v ty \<or> chain = Attribute ty name v # attrs_of a ! h"
    by (rule setattr_chain [OF assms(1)])
  have "P (attr_type e) (attr_value e) \<and> every_value P (attr_value e)" if "e \<in> set (attrs_of a ! h)" for e
    using assms(2) nth_mem [OF b(3)] that unfolding every_nodes [of P a] by blast
  then have "P (attr_type e) (attr_value e) \<and> every_value P (attr_value e)" if "e \<in> set chain" for e
    using b(4) that assms(3,4) set_entry_set [of e "attrs_of a ! h" name v ty] by auto
  moreover have "attr_wf b"
    by (rule ast_setattr_wf [OF _ assms(1)]) (use assms(2) in \<open>simp add: every_nodes [of P a]\<close>)
  ultimately show ?thesis
    using assms(2) b(1,2) by (auto simp: every_nodes [of P a] every_nodes [of P b] dest!: set_update_subset_insert [THEN subsetD])
qed

section \<open>The judgment\<close>

definition ids_of :: "ast list \<Rightarrow> int multiset" where
  "ids_of A = sum_list (map ast_ids A)"

lemma ids_of_simps [simp]:
  "ids_of [] = {#}" "ids_of (a # A) = ast_ids a + ids_of A" "ids_of (A @ B) = ids_of A + ids_of B"
  by (simp_all add: ids_of_def)

text \<open>No number twice, and all of them given out already.\<close>

definition fresh :: "parser \<Rightarrow> int multiset \<Rightarrow> bool" where
  "fresh s M \<longleftrightarrow> 1 \<le> node_id s \<and> (\<forall>i. count M i \<le> 1) \<and> (\<forall>i \<in># M. 1 \<le> i \<and> i < node_id s)"

lemma fresh_subset:
  assumes "fresh s M" and "N \<subseteq># M"
  shows "fresh s N"
proof -
  have "count N i \<le> 1" for i
    using assms mset_subset_eq_count [OF assms(2), of i] by (auto simp: fresh_def intro: order_trans)
  then show ?thesis using assms by (auto simp: fresh_def dest: mset_subset_eqD)
qed

lemma fresh_state: "fresh s M \<Longrightarrow> node_id s = node_id s' \<Longrightarrow> fresh s' M"
  by (simp add: fresh_def)

definition makes :: "('a \<Rightarrow> ast list) \<Rightarrow> ast list \<Rightarrow> 'a P \<Rightarrow> bool" where
  "makes tr A m \<longleftrightarrow> (\<forall>s F. fresh s (ids_of A + F) \<longrightarrow> (\<forall>a \<in> set A. good a) \<longrightarrow>
     wp m (\<lambda>r s'. fresh s' (ids_of (tr r) + F) \<and> (\<forall>a \<in> set (tr r). good a)) (\<lambda>_. True) s)"

text \<open>The trees of a result, by its type.\<close>

definition t_none :: "'a \<Rightarrow> ast list" where "t_none x = []"
definition t_ast :: "ast \<Rightarrow> ast list" where "t_ast x = [x]"
definition t_opt :: "ast option \<Rightarrow> ast list" where "t_opt r = (case r of None \<Rightarrow> [] | Some x \<Rightarrow> [x])"
definition t_list :: "ast list \<Rightarrow> ast list" where "t_list xs = xs"
definition t_optl :: "ast list option \<Rightarrow> ast list" where "t_optl r = (case r of None \<Rightarrow> [] | Some xs \<Rightarrow> xs)"

lemma t_simps [simp]:
  "ids_of (t_none x) = {#}" "set (t_none x) = {}" "t_none x @ A = A"
  "ids_of (t_ast y) = ast_ids y" "set (t_ast y) = {y}" "t_ast y @ A = y # A"
  "t_opt None = []" "t_opt (Some y) = [y]"
  "ids_of (t_list xs) = ids_of xs" "set (t_list xs) = set xs" "t_list xs @ A = xs @ A"
  "t_optl None = []" "t_optl (Some xs) = xs"
  by (simp_all add: t_none_def t_ast_def t_opt_def t_list_def t_optl_def)

named_theorems makes \<open>what the commands of the parser make\<close>

lemma makesI:
  "(\<And>s F. fresh s (ids_of A + F) \<Longrightarrow> \<forall>a \<in> set A. good a \<Longrightarrow>
     wp m (\<lambda>r s'. fresh s' (ids_of (tr r) + F) \<and> (\<forall>a \<in> set (tr r). good a)) (\<lambda>_. True) s) \<Longrightarrow> makes tr A m"
  by (simp add: makes_def)

lemma makesD:
  "makes tr A m \<Longrightarrow> fresh s (ids_of A + F) \<Longrightarrow> \<forall>a \<in> set A. good a \<Longrightarrow>
   wp m (\<lambda>r s'. fresh s' (ids_of (tr r) + F) \<and> (\<forall>a \<in> set (tr r). good a)) (\<lambda>_. True) s"
  by (simp add: makes_def)

lemma makes_weaken:
  assumes "makes tr B m" and "ids_of B \<subseteq># ids_of A" and "set B \<subseteq> set A"
  shows "makes tr A m"
proof (rule makesI)
  fix s F assume "fresh s (ids_of A + F)" and good: "\<forall>a \<in> set A. good a"
  then have "fresh s (ids_of B + F)" using assms(2) by (auto elim: fresh_subset)
  moreover have "\<forall>a \<in> set B. good a" using good assms(3) by auto
  ultimately show "wp m (\<lambda>r s'. fresh s' (ids_of (tr r) + F) \<and> (\<forall>a \<in> set (tr r). good a)) (\<lambda>_. True) s"
    by (rule makesD [OF assms(1)])
qed

lemma makes_closed: "makes tr [] m \<Longrightarrow> makes tr A m"
  by (erule makes_weaken) simp_all

lemma makes_perm: "makes tr B m \<Longrightarrow> mset B = mset A \<Longrightarrow> makes tr A m"
  by (erule makes_weaken)
    (metis ids_of_def mset_map subset_mset.order_refl sum_mset_sum_list, metis order_refl set_mset_mset)

lemma makes_bnd_frame:
  assumes m: "makes tr B m" and f: "\<And>x. makes tr' (tr x @ C) (f x)"
  shows "makes tr' (B @ C) (bnd m f)"
proof (rule makesI)
  fix s F assume "fresh s (ids_of (B @ C) + F)" and good: "\<forall>a \<in> set (B @ C). good a"
  then have "fresh s (ids_of B + (ids_of C + F))" by (simp add: add.assoc)
  from makesD [OF m this] good
  have "wp m (\<lambda>r s'. fresh s' (ids_of (tr r) + (ids_of C + F)) \<and> (\<forall>a \<in> set (tr r). good a)) (\<lambda>_. True) s" by simp
  then show "wp (bnd m f) (\<lambda>r s'. fresh s' (ids_of (tr' r) + F) \<and> (\<forall>a \<in> set (tr' r). good a)) (\<lambda>_. True) s"
    unfolding wp_bnd
    by (rule wp_conseq) (use good in \<open>auto intro!: makesD [OF f] simp: add.assoc\<close>)
qed

lemma makes_quiet:
  assumes "\<And>s. wp m (\<lambda>_ s'. node_id s' = node_id s) (\<lambda>_. True) s"
  shows "makes t_none A m"
proof (rule makesI)
  fix s F assume "fresh s (ids_of A + F)"
  then have "fresh s (ids_of (t_none x) + F)" for x :: 'a by (auto elim: fresh_subset)
  then show "wp m (\<lambda>r s'. fresh s' (ids_of (t_none r) + F) \<and> (\<forall>a \<in> set (t_none r). good a)) (\<lambda>_. True) s"
    by (intro wp_conseq [OF assms]) (auto intro: fresh_state)
qed

section \<open>Rules\<close>

lemma makes_ret [makes]:
  "makes t_none A (ret u)"
  "x \<in> set A \<Longrightarrow> makes t_ast A (ret x)"
  "makes t_opt A (ret None)"
  "x \<in> set A \<Longrightarrow> makes t_opt A (ret (Some x))"
  "makes t_opt (t_opt v @ A) (ret v)"
  "makes t_list (xs @ A) (ret xs)"
  "makes t_optl A (ret None)"
  "makes t_optl (xs @ A) (ret (Some xs))"
  "makes t_optl (t_optl w @ A) (ret w)"
proof -
  have closed: "makes tr A (ret r)" if "ids_of (tr r) \<subseteq># ids_of A" "set (tr r) \<subseteq> set A"
    for tr :: "'b \<Rightarrow> ast list" and r :: 'b and A
    using that by (auto simp: makes_def wp_simps elim!: fresh_subset)
  have member: "ast_ids x \<subseteq># ids_of A" if "x \<in> set A" for x A
    using that by (induction A) (auto intro: subset_mset.order_trans [OF _ mset_subset_eq_add_right])
  show "makes t_none A (ret u)" "makes t_opt A (ret None)" "makes t_opt (t_opt v @ A) (ret v)"
    "makes t_list (xs @ A) (ret xs)" "makes t_optl A (ret None)" "makes t_optl (xs @ A) (ret (Some xs))"
    "makes t_optl (t_optl w @ A) (ret w)"
    by (rule closed; simp)+
  show "makes t_ast A (ret x)" "makes t_opt A (ret (Some x))" if "x \<in> set A"
    using that by (simp_all add: closed member)
qed

lemma makes_fail [makes]: "makes tr A (fail f)"
  by (simp add: makes_def wp_simps)

lemma makes_quiet_cmds [makes]:
  "makes t_none A next_tok" "makes t_none A peek_token" "makes t_none A current_token" "makes t_none A (assert_cmd b)"
  "makes t_none A (declare_type node)" "makes t_none A (lift r)"
proof -
  have step: "wp next_tok (\<lambda>_ s'. node_id s' = node_id s) (\<lambda>_. True) s" for s
    by (auto simp: next_tok_def set_token_class_def wp_parser split: sum.splits)
  show "makes t_none A next_tok" by (rule makes_quiet) (rule step)
  show "makes t_none A peek_token"
    by (rule makes_quiet) (auto simp: peek_token_def wp_parser intro!: wp_conseq [OF step])
  show "makes t_none A current_token" "makes t_none A (assert_cmd b)" "makes t_none A (declare_type node)"
    "makes t_none A (lift r)"
    by (rule makes_quiet; auto simp: wp_parser declare_type_def split: sum.splits option.splits attr_value.splits)+
qed

lemma makes_if [makes]: "(b \<Longrightarrow> makes tr A m) \<Longrightarrow> (\<not> b \<Longrightarrow> makes tr A m') \<Longrightarrow> makes tr A (if b then m else m')"
  by simp

lemma makes_bnd_quiet:
  "makes t_none [] m \<Longrightarrow> (\<And>x. makes tr A (f x)) \<Longrightarrow> makes tr A (bnd m f)"
  using makes_bnd_frame [of t_none "[]" m tr A f] by simp

lemmas [makes] = makes_bnd_quiet [where 'a = unit] makes_bnd_quiet [where 'a = bool]
  makes_bnd_quiet [where 'a = token] makes_bnd_quiet [where 'a = ast_param_direction]
  makes_bnd_quiet [where 'a = int]

lemma makes_bnd_ast [makes]:
  "makes t_ast [] m \<Longrightarrow> (\<And>x. makes tr (x # A) (f x)) \<Longrightarrow> makes tr A (bnd m f)"
  using makes_bnd_frame [of t_ast "[]" m tr A f] by simp

lemma makes_bnd_opt [makes]:
  "makes t_opt [] m \<Longrightarrow> (\<And>x. makes tr (t_opt x @ A) (f x)) \<Longrightarrow> makes tr A (bnd m f)"
  using makes_bnd_frame [of t_opt "[]" m tr A f] by simp

lemma makes_bnd_list [makes]:
  "makes t_list [] m \<Longrightarrow> (\<And>xs. makes tr (xs @ A) (f xs)) \<Longrightarrow> makes tr A (bnd m f)"
  using makes_bnd_frame [of t_list "[]" m tr A f] by simp

lemma makes_bnd_optl [makes]:
  "makes t_optl [] m \<Longrightarrow> (\<And>x. makes tr (t_optl x @ A) (f x)) \<Longrightarrow> makes tr A (bnd m f)"
  using makes_bnd_frame [of t_optl "[]" m tr A f] by simp

lemma makes_bnd_all:
  "makes t_ast A m \<Longrightarrow> (\<And>x. makes tr [x] (f x)) \<Longrightarrow> makes tr A (bnd m f)"
  using makes_bnd_frame [of t_ast A m tr "[]" f] by (simp add: t_ast_def)

text \<open>A test that uses up all trees.\<close>

lemmas [makes] = makes_bnd_all [of _ "if_class k m m'" for k m m'] makes_bnd_all [of _ "if_tok test m m'" for test m m']
  makes_bnd_all [of _ "case_option m g r" for m g r]

lemma makes_if_tok [makes]: "makes tr A m \<Longrightarrow> makes tr A m' \<Longrightarrow> makes tr A (if_tok test m m')"
  unfolding if_tok_def by (intro makes_bnd_quiet makes) (simp_all add: makes)

lemma makes_if_class [makes]: "makes tr A m \<Longrightarrow> makes tr A m' \<Longrightarrow> makes tr A (if_class k m m')"
  by (simp add: if_class_def makes)

lemma makes_expected [makes]: "makes tr A (expected msg)"
  unfolding expected_def by (intro makes_bnd_quiet makes)

lemma makes_expect [makes]: "makes t_none A (expect k msg)"
  by (simp add: expect_def makes)

lemma makes_require [makes]: "makes t_none A (require test msg)"
  by (simp add: require_def makes)

lemma sum_list_empty: "sum_list (replicate n ({#} :: int multiset)) = {#}"
  by (induction n) simp_all

lemma makes_new_ast_node [makes]:
  assumes "k \<noteq> Ast_NONE"
  shows "makes t_ast A (new_ast_node k)"
proof (rule makes_closed, rule makesI)
  fix s F assume "fresh s (ids_of [] + F)"
  then have "fresh (s\<lparr>node_id := node_id s + 1, node_count := c\<rparr>) (add_mset (node_id s) F)" for c
    by (auto simp: fresh_def not_in_iff)
  then show "wp (new_ast_node k) (\<lambda>r s'. fresh s' (ids_of (t_ast r) + F) \<and> (\<forall>a \<in> set (t_ast r). good a)) (\<lambda>_. True) s"
    using assms attr_wf_blank [of k]
    by (simp add: new_ast_node_def wp_parser blank_ast_def AST_ATTRTABLE_CAPACITY_def sum_list_empty)
qed

subsection \<open>Attributes\<close>

lemma makes_setattr:
  assumes "fits ty v \<or> misfit ty v" and "value_ids v \<subseteq># ids_of A" and "(\<forall>a \<in> set A. good a) \<Longrightarrow> every_value (\<lambda>ty v. fits ty v \<or> misfit ty v) v"
  shows "makes t_ast (node # A) (lift (ast_setattr node name v ty))"
proof (rule makesI)
  fix s F assume fr: "fresh s (ids_of (node # A) + F)" and good: "\<forall>a \<in> set (node # A). good a"
  show "wp (lift (ast_setattr node name v ty)) (\<lambda>r s'. fresh s' (ids_of (t_ast r) + F) \<and> (\<forall>a \<in> set (t_ast r). good a))
      (\<lambda>_. True) s"
  proof (cases "ast_setattr node name v ty")
    case (Inr b)
    have "ast_ids b \<subseteq># ast_ids node + ids_of A"
      by (rule subset_mset.order_trans [OF setattr_ids [OF Inr]]) (use assms(2) in simp)
    then have "fresh s (ast_ids b + F)" by (intro fresh_subset [OF fr]) simp
    moreover have "good b" by (rule setattr_every [OF Inr]) (use good assms in simp_all)
    ultimately show ?thesis using Inr by (simp add: wp_parser)
  qed (simp add: wp_parser)
qed

lemma makes_set_string: "ty = AstAttr_String \<or> ty = AstAttr_Ast \<Longrightarrow>
    makes t_ast (node # A) (lift (ast_setattr node name (V_String str) ty))"
  by (rule makes_setattr) (auto simp: fits_def misfit_def)

lemma makes_set [makes]:
  "makes t_ast (node # A) (set_int name i node)"
  "makes t_ast (node # A) (set_bool name b node)"
  "makes t_ast (node # A) (set_op op node)"
  "makes t_ast (node # A) (set_lexeme name node)"
  "makes t_ast (node # x # A) (set_ast name (Some x) node)"
  "makes t_ast (node # t_opt v @ A) (set_ast name v node)"
  "makes t_ast (node # xs @ A) (set_list name (Some xs) node)"
  "makes t_ast (node # t_optl w @ A) (set_list name w node)"
proof -
  show "makes t_ast (node # A) (set_lexeme name node)"
    unfolding set_lexeme_def by (rule makes_bnd_quiet) (auto intro: makes makes_set_string)
qed (auto simp: set_int_def set_bool_def set_op_def set_ast_def set_list_def fits_def t_opt_def t_optl_def ids_of_def
    split: option.splits intro!: makes_setattr)

lemma makes_set_swapped [makes]:
  "makes t_ast (x # node # A) (set_ast name (Some x) node)"
  "makes t_ast (t_opt v @ node # A) (set_ast name v node)"
  "makes t_ast (xs @ node # A) (set_list name (Some xs) node)"
  "makes t_ast (t_optl w @ node # A) (set_list name w node)"
  by (rule makes_perm, rule makes_set, simp)+

lemma makes_attr_ast [makes]: "makes t_ast A m \<Longrightarrow> makes t_ast (node # A) (attr_ast name m node)"
  unfolding attr_ast_def
  using makes_bnd_frame [of t_ast A m t_ast "[node]" "\<lambda>x. set_ast name (Some x) node"]
  by (auto intro: makes_perm [where B = "A @ [node]"] simp: makes)

lemma makes_attr_list [makes]: "makes t_optl A m \<Longrightarrow> makes t_ast (node # A) (attr_list name m node)"
  unfolding attr_list_def
  using makes_bnd_frame [of t_optl A m t_ast "[node]" "\<lambda>x. set_list name x node"]
  by (auto intro: makes_perm [where B = "A @ [node]"] simp: makes)

text \<open>The same commands at the head of a sequence, which goes on with the changed node.\<close>

lemma makes_bnd_first:
  "makes t_ast [node] m \<Longrightarrow> (\<And>y. makes tr (y # A) (f y)) \<Longrightarrow> makes tr (node # A) (bnd m f)"
  using makes_bnd_frame [of t_ast "[node]" m tr A f] by simp

lemma makes_bnd_set [makes]:
  "(\<And>y. makes tr (y # A) (f y)) \<Longrightarrow> makes tr (node # A) (bnd (set_int name i node) f)"
  "(\<And>y. makes tr (y # A) (f y)) \<Longrightarrow> makes tr (node # A) (bnd (set_bool name b node) f)"
  "(\<And>y. makes tr (y # A) (f y)) \<Longrightarrow> makes tr (node # A) (bnd (set_op op node) f)"
  "(\<And>y. makes tr (y # A) (f y)) \<Longrightarrow> makes tr (node # A) (bnd (set_lexeme name node) f)"
  "makes t_ast [] m \<Longrightarrow> (\<And>y. makes tr (y # A) (f y)) \<Longrightarrow> makes tr (node # A) (bnd (attr_ast name m node) f)"
  "makes t_optl [] m' \<Longrightarrow> (\<And>y. makes tr (y # A) (f y)) \<Longrightarrow> makes tr (node # A) (bnd (attr_list name m' node) f)"
  by (rule makes_bnd_first; simp add: makes)+

lemma makes_bnd_sub:
  "mset B = mset (C @ A) \<Longrightarrow> makes t_ast C m \<Longrightarrow> (\<And>y. makes tr (y # A) (f y)) \<Longrightarrow> makes tr B (bnd m f)"
  using makes_bnd_frame [of t_ast C m tr A f] by (auto intro: makes_perm)

lemma makes_bnd_set_ast [makes]:
  "(\<And>y. makes tr (y # A) (f y)) \<Longrightarrow> makes tr (node # x # A) (bnd (set_ast name (Some x) node) f)"
  "(\<And>y. makes tr (y # A) (f y)) \<Longrightarrow> makes tr (x # node # A) (bnd (set_ast name (Some x) node) f)"
  "(\<And>y. makes tr (y # A) (f y)) \<Longrightarrow> makes tr (node # t_opt v @ A) (bnd (set_ast name v node) f)"
  "(\<And>y. makes tr (y # A) (f y)) \<Longrightarrow> makes tr (t_opt v @ node # A) (bnd (set_ast name v node) f)"
  "(\<And>y. makes tr (y # A) (f y)) \<Longrightarrow> makes tr (node # xs @ A) (bnd (set_list name (Some xs) node) f)"
  "(\<And>y. makes tr (y # A) (f y)) \<Longrightarrow> makes tr (xs @ node # A) (bnd (set_list name (Some xs) node) f)"
  "(\<And>y. makes tr (y # A) (f y)) \<Longrightarrow> makes tr (node # t_optl w @ A) (bnd (set_list name w node) f)"
  "(\<And>y. makes tr (y # A) (f y)) \<Longrightarrow> makes tr (t_optl w @ node # A) (bnd (set_list name w node) f)"
  using makes_set(5) [of node x "[]" name] makes_set(6) [of node v "[]" name] makes_set(7) [of node xs "[]" name]
    makes_set(8) [of node w "[]" name]
  by (auto intro: makes_bnd_sub [where C = "[node, x]"] makes_bnd_sub [where C = "node # t_opt v"]
      makes_bnd_sub [where C = "node # xs"] makes_bnd_sub [where C = "node # t_optl w"])

lemma makes_bnd_attr_given [makes]:
  "makes t_ast [x] m \<Longrightarrow> (\<And>y. makes tr (y # A) (f y)) \<Longrightarrow> makes tr (node # x # A) (bnd (attr_ast name m node) f)"
  by (rule makes_bnd_sub [where C = "[node, x]" and A = A]) (simp_all add: makes)

subsection \<open>Loops and recursive calls\<close>

lemma makes_while_list:
  assumes "makes t_none [] c" and "makes t_ast [] b"
  shows "makes t_list (acc @ A) (while_list n c b acc)"
proof (induction n arbitrary: acc)
  case (Suc n)
  have step: "makes t_list (acc @ A) (bnd b (\<lambda>x. while_list n c b (acc @ [x])))"
    by (rule makes_bnd_ast [OF assms(2)], rule makes_perm [OF Suc.IH]) simp
  show ?case
    unfolding while_list.simps by (rule makes_bnd_quiet [OF assms(1)]) (use step in \<open>simp add: makes\<close>)
qed (simp add: makes)

lemma makes_comma_list [makes]: "makes t_ast [] item \<Longrightarrow> makes t_list A (comma_list e item)"
  unfolding comma_list_def
  using makes_while_list [of "if_class Token_Comma (ret True) (ret False)" "bnd next_tok (\<lambda>_. item)" "[x]" A for x]
  by (intro makes_bnd_ast) (simp_all add: makes)

lemma makes_rep_list [makes]: "makes t_ast [] item \<Longrightarrow> makes t_list A (rep_list e test item)"
  unfolding rep_list_def
  using makes_while_list [of "if_tok test (ret True) (ret False)" item "[x]" A for x]
  by (intro makes_bnd_ast) (simp_all add: makes)

lemma makes_opt_list [makes]: "makes t_list [] m \<Longrightarrow> makes t_optl A (opt_list test m)"
  unfolding opt_list_def by (intro makes_if_tok makes_bnd_list) (simp_all add: makes)

lemma makes_non_null [makes]: "makes t_opt A m \<Longrightarrow> makes t_ast A (non_null m)"
  unfolding non_null_def
  using makes_bnd_frame [of t_opt A m t_ast "[]" "\<lambda>r. case r of Some node \<Rightarrow> ret node | None \<Rightarrow> fail Bad_access"]
  by (auto simp: makes split: option.splits)

lemma makes_some_step [makes]: "makes t_ast A m \<Longrightarrow> makes t_opt A (some_step m)"
  unfolding some_step_def by (rule makes_bnd_all) (simp_all add: makes)

definition call_trees :: "call \<Rightarrow> ast list" where
  "call_trees c = (case c of Call_statement r \<Rightarrow> t_opt r | _ \<Rightarrow> [])"

definition env_makes :: "env \<Rightarrow> bool" where
  "env_makes e \<longleftrightarrow> (\<forall>c. makes t_ast (call_trees c) (handler e c))"

lemma makes_handler [makes]:
  assumes "env_makes e"
  shows "makes t_ast A (handler e (Call_expression p))" "makes t_ast A (handler e Call_typeRef)"
    "makes t_ast A (handler e Call_blockStatement)" "makes t_ast A (handler e (Call_statement None))"
    "makes t_ast A (handler e Call_parserStatement)" "makes t_ast (x # A) (handler e (Call_statement (Some x)))"
proof -
  have "makes t_ast (call_trees c) (handler e c)" for c using assms by (simp add: env_makes_def)
  from this [of "Call_expression p"] this [of Call_typeRef] this [of Call_blockStatement]
    this [of "Call_statement None"] this [of Call_parserStatement] this [of "Call_statement (Some x)"]
  show "makes t_ast A (handler e (Call_expression p))" "makes t_ast A (handler e Call_typeRef)"
    "makes t_ast A (handler e Call_blockStatement)" "makes t_ast A (handler e (Call_statement None))"
    "makes t_ast A (handler e Call_parserStatement)" "makes t_ast (x # A) (handler e (Call_statement (Some x)))"
    by (auto simp: call_trees_def intro: makes_closed elim!: makes_weaken [where B = "[x]"])
qed

end
