(* ===== verification/TreeProps.thy ===== *)
theory TreeProps
  imports TreeCalc ParseTerm WalkProps
begin

text \<open>
  Every function of build_ast.c makes its tree of new nodes and of the trees it is given, so a
  parsed tree has no node number twice and tags that fit their values, but for the \<open>error\<close>
  primary; such a tree can be printed exactly when it has no \<open>error\<close> primary.
\<close>

section \<open>Names, types and declarations\<close>

lemma makes_build_nonTypeName [makes]: "makes t_ast A (build_nonTypeName is_type)"
  by (simp add: build_nonTypeName_def makes)

lemma makes_build_name [makes]: "makes t_ast A (build_name is_type)"
  by (simp add: build_name_def makes)

lemma makes_build_typeParameterList [makes]: "env_makes e \<Longrightarrow> makes t_optl A (build_typeParameterList e)"
  by (simp add: build_typeParameterList_def makes)

lemma makes_build_optTypeParameters [makes]: "env_makes e \<Longrightarrow> makes t_optl A (build_optTypeParameters e)"
  by (simp add: build_optTypeParameters_def makes)

lemma makes_build_typeArg [makes]: "env_makes e \<Longrightarrow> makes t_ast A (build_typeArg e)"
  by (simp add: build_typeArg_def makes)

lemma makes_build_direction [makes]: "makes t_none A build_direction"
  by (simp add: build_direction_def makes)

lemma makes_build_parameter [makes]: "env_makes e \<Longrightarrow> makes t_ast A (build_parameter e)"
  by (simp add: build_parameter_def makes)

lemma makes_build_parameterList [makes]: "env_makes e \<Longrightarrow> makes t_optl A (build_parameterList e)"
  by (simp add: build_parameterList_def makes)

lemma makes_build_typeOrVoid [makes]: "env_makes e \<Longrightarrow> makes t_ast A (build_typeOrVoid e is_type)"
  by (simp add: build_typeOrVoid_def makes)

lemma makes_build_functionPrototype: "env_makes e \<Longrightarrow> makes t_ast (t_opt type_ref @ A) (build_functionPrototype e type_ref)"
  by (cases type_ref) (simp_all add: build_functionPrototype_def makes)

lemmas [makes] = makes_build_functionPrototype [where type_ref = None, simplified] makes_build_functionPrototype [where type_ref = "Some x" for x, simplified]

lemma makes_build_methodPrototype [makes]: "env_makes e \<Longrightarrow> makes t_ast A (build_methodPrototype e)"
  by (simp add: build_methodPrototype_def makes)

lemma makes_build_methodPrototypes [makes]: "env_makes e \<Longrightarrow> makes t_optl A (build_methodPrototypes e)"
  by (simp add: build_methodPrototypes_def makes)

lemma makes_build_externDeclaration [makes]: "env_makes e \<Longrightarrow> makes t_opt A (build_externDeclaration e)"
  by (simp add: build_externDeclaration_def makes)

lemma makes_build_integer [makes]: "makes t_opt A build_integer"
  by (simp add: build_integer_def makes)

lemma makes_build_boolean [makes]: "makes t_opt A build_boolean"
  by (simp add: build_boolean_def makes)

lemma makes_build_stringLiteral [makes]: "makes t_opt A build_stringLiteral"
  by (simp add: build_stringLiteral_def makes)

lemma makes_build_integerTypeSize [makes]: "env_makes e \<Longrightarrow> makes t_ast A (build_integerTypeSize e)"
  by (simp add: build_integerTypeSize_def makes)

lemma makes_build_optSize [makes]: "env_makes e \<Longrightarrow> makes t_ast (base_type # A) (build_optSize e base_type)"
  by (simp add: build_optSize_def makes)

lemma makes_build_baseType [makes]: "env_makes e \<Longrightarrow> makes t_ast A (build_baseType e)"
  by (simp add: build_baseType_def makes)

lemma makes_build_typeArgumentList [makes]: "env_makes e \<Longrightarrow> makes t_optl A (build_typeArgumentList e)"
  by (simp add: build_typeArgumentList_def makes)

lemma makes_build_tupleType [makes]: "env_makes e \<Longrightarrow> makes t_ast A (build_tupleType e)"
  by (simp add: build_tupleType_def makes)

lemma makes_build_headerStackType [makes]: "env_makes e \<Longrightarrow> makes t_ast A (build_headerStackType e)"
  by (simp add: build_headerStackType_def makes)

lemma makes_build_specializedType [makes]: "env_makes e \<Longrightarrow> makes t_ast A (build_specializedType e)"
  by (simp add: build_specializedType_def makes)

lemma makes_build_prefixedType [makes]: "makes t_ast A build_prefixedType"
  by (simp add: build_prefixedType_def makes)

lemma makes_build_typeName [makes]: "env_makes e \<Longrightarrow> makes t_ast A (build_typeName e)"
  by (simp add: build_typeName_def makes)

lemma makes_build_typeRef [makes]: "env_makes e \<Longrightarrow> makes t_ast A (build_typeRef e)"
  by (simp add: build_typeRef_def makes)

lemma makes_build_structField [makes]: "env_makes e \<Longrightarrow> makes t_ast A (build_structField e)"
  by (simp add: build_structField_def makes)

lemma makes_build_structFieldList [makes]: "env_makes e \<Longrightarrow> makes t_optl A (build_structFieldList e)"
  by (simp add: build_structFieldList_def makes)

lemma makes_build_fields_decl [makes]: "kind \<noteq> Ast_NONE \<Longrightarrow> env_makes e \<Longrightarrow> makes t_ast A (build_fields_decl e kind)"
  by (simp add: build_fields_decl_def makes)

lemma makes_build_headerTypeDeclaration [makes]: "env_makes e \<Longrightarrow> makes t_ast A (build_headerTypeDeclaration e)"
  by (simp add: build_headerTypeDeclaration_def makes)

lemma makes_build_headerUnionDeclaration [makes]: "env_makes e \<Longrightarrow> makes t_ast A (build_headerUnionDeclaration e)"
  by (simp add: build_headerUnionDeclaration_def makes)

lemma makes_build_structTypeDeclaration [makes]: "env_makes e \<Longrightarrow> makes t_ast A (build_structTypeDeclaration e)"
  by (simp add: build_structTypeDeclaration_def makes)

lemma makes_build_initializer [makes]: "env_makes e \<Longrightarrow> makes t_ast A (build_initializer e)"
  by (simp add: build_initializer_def makes)

lemma makes_build_optInitializer [makes]: "env_makes e \<Longrightarrow> makes t_opt A (build_optInitializer e)"
  by (simp add: build_optInitializer_def makes)

lemma makes_build_specifiedIdentifier [makes]: "env_makes e \<Longrightarrow> makes t_ast A (build_specifiedIdentifier e)"
  by (simp add: build_specifiedIdentifier_def makes)

lemma makes_build_specifiedIdentifierList [makes]: "env_makes e \<Longrightarrow> makes t_optl A (build_specifiedIdentifierList e)"
  by (simp add: build_specifiedIdentifierList_def makes)

lemma makes_build_enumDeclaration [makes]: "env_makes e \<Longrightarrow> makes t_ast A (build_enumDeclaration e)"
  by (simp add: build_enumDeclaration_def makes)

lemma makes_build_derivedTypeDeclaration [makes]: "env_makes e \<Longrightarrow> makes t_ast A (build_derivedTypeDeclaration e)"
  by (simp add: build_derivedTypeDeclaration_def makes)

lemma makes_build_type_with_params [makes]: "kind \<noteq> Ast_NONE \<Longrightarrow> env_makes e \<Longrightarrow> makes t_ast A (build_type_with_params e kind)"
  by (simp add: build_type_with_params_def makes)

lemma makes_build_parserTypeDeclaration [makes]: "env_makes e \<Longrightarrow> makes t_ast A (build_parserTypeDeclaration e)"
  by (simp add: build_parserTypeDeclaration_def makes)

lemma makes_build_controlTypeDeclaration [makes]: "env_makes e \<Longrightarrow> makes t_ast A (build_controlTypeDeclaration e)"
  by (simp add: build_controlTypeDeclaration_def makes)

lemma makes_build_packageTypeDeclaration [makes]: "env_makes e \<Longrightarrow> makes t_ast A (build_packageTypeDeclaration e)"
  by (simp add: build_packageTypeDeclaration_def makes)

lemma makes_build_optConstructorParameters [makes]: "env_makes e \<Longrightarrow> makes t_optl A (build_optConstructorParameters e)"
  by (simp add: build_optConstructorParameters_def makes)

lemma makes_build_constantDeclaration [makes]: "env_makes e \<Longrightarrow> makes t_ast A (build_constantDeclaration e)"
  by (simp add: build_constantDeclaration_def makes)

lemma makes_build_typedefDeclaration [makes]: "env_makes e \<Longrightarrow> makes t_ast A (build_typedefDeclaration e)"
  by (simp add: build_typedefDeclaration_def makes)

section \<open>Expressions\<close>

lemma makes_build_argument [makes]: "env_makes e \<Longrightarrow> makes t_ast A (build_argument e)"
  by (simp add: build_argument_def makes)

lemma makes_build_argumentList [makes]: "env_makes e \<Longrightarrow> makes t_optl A (build_argumentList e)"
  by (simp add: build_argumentList_def makes)

lemma makes_build_arrayIndex [makes]: "env_makes e \<Longrightarrow> makes t_ast A (build_arrayIndex e)"
  by (simp add: build_arrayIndex_def makes)

lemma makes_build_expressionList [makes]: "env_makes e \<Longrightarrow> makes t_optl A (build_expressionList e)"
  by (simp add: build_expressionList_def makes)

lemma makes_build_realTypeArg [makes]: "env_makes e \<Longrightarrow> makes t_ast A (build_realTypeArg e)"
  by (simp add: build_realTypeArg_def makes)

lemma makes_build_realTypeArgumentList [makes]: "env_makes e \<Longrightarrow> makes t_optl A (build_realTypeArgumentList e)"
  by (simp add: build_realTypeArgumentList_def makes)

lemma makes_build_unary [makes]: "env_makes e \<Longrightarrow> makes t_ast A (build_unary e op)"
  by (simp add: build_unary_def makes)

lemma makes_build_dotPrimary [makes]: "env_makes e \<Longrightarrow> makes t_ast A (build_dotPrimary e)"
  by (simp add: build_dotPrimary_def makes)

lemma makes_build_parenPrimary [makes]: "env_makes e \<Longrightarrow> makes t_ast A (build_parenPrimary e)"
  by (simp add: build_parenPrimary_def makes)

text \<open>The misfit.\<close>

lemma makes_build_errorPrimary [makes]: "makes t_ast A build_errorPrimary"
  by (simp add: build_errorPrimary_def makes makes_set_string)

lemma makes_build_expressionPrimary [makes]: "env_makes e \<Longrightarrow> makes t_ast A (build_expressionPrimary e)"
  by (simp add: build_expressionPrimary_def makes)

lemma makes_member_step [makes]: "makes t_ast (expr # A) (member_step expr)"
  by (simp add: member_step_def makes)

lemma makes_index_step [makes]: "env_makes e \<Longrightarrow> makes t_ast (expr # A) (index_step e expr)"
  by (simp add: index_step_def makes)

lemma makes_call_step [makes]: "env_makes e \<Longrightarrow> makes t_ast (expr # A) (call_step e expr)"
  by (simp add: call_step_def makes)

lemma makes_type_args_step [makes]: "env_makes e \<Longrightarrow> makes t_ast (expr # A) (type_args_step e expr)"
  by (simp add: type_args_step_def makes)

lemma makes_kv_step [makes]: "env_makes e \<Longrightarrow> makes t_ast (expr # A) (kv_step e expr)"
  by (simp add: kv_step_def makes)

text \<open>A round that ends the loop gives the operand back.\<close>

definition or_keeps :: "ast \<Rightarrow> ast option \<Rightarrow> ast list" where
  "or_keeps a r = (case r of None \<Rightarrow> [a] | Some x \<Rightarrow> [x])"

lemma makes_or_keeps [makes]:
  "a \<in> set A \<Longrightarrow> makes (or_keeps a) A (ret None)"
  "x \<in> set A \<Longrightarrow> makes (or_keeps a) A (ret (Some x))"
  "makes t_ast A m \<Longrightarrow> makes (or_keeps a) A (some_step m)"
proof -
  show ret: "makes (or_keeps a) A (ret (Some x))" if "x \<in> set A" for x A
    using makes_ret(2) [OF that] by (simp add: makes_def wp_simps or_keeps_def)
  show "makes (or_keeps a) A (ret None)" if "a \<in> set A"
    using makes_ret(2) [OF that] by (simp add: makes_def wp_simps or_keeps_def)
  show "makes (or_keeps a) A (some_step m)" if "makes t_ast A m"
    unfolding some_step_def by (rule makes_bnd_all [OF that]) (simp add: ret)
qed

lemma makes_binary_step [makes]:
  "env_makes e \<Longrightarrow> makes (or_keeps expr) (expr # A) (binary_step e priority_threshold expr)"
  by (simp add: binary_step_def makes)

lemma makes_expr_step [makes]:
  "env_makes e \<Longrightarrow> makes (or_keeps expr) (expr # A) (expr_step e priority_threshold expr)"
  by (simp add: expr_step_def makes)

lemma makes_expr_loop [makes]: "env_makes e \<Longrightarrow> makes t_ast (expr # A) (expr_loop n e priority_threshold expr)"
proof (induction n arbitrary: expr)
  case (Suc n)
  have "makes t_ast (or_keeps expr r @ A)
      (case r of None \<Rightarrow> ret expr | Some expr' \<Rightarrow> expr_loop n e priority_threshold expr')" for r
    by (cases r) (simp_all add: or_keeps_def makes Suc)
  then have "makes t_ast (expr # A) (bnd (expr_step e priority_threshold expr) (\<lambda>r. case r of None \<Rightarrow> ret expr
      | Some expr' \<Rightarrow> expr_loop n e priority_threshold expr'))"
    using makes_bnd_frame [of "or_keeps expr" "[expr]" "expr_step e priority_threshold expr" t_ast A]
      makes_expr_step [OF Suc.prems, of expr "[]"] by simp
  then show ?case by (simp add: makes)
qed (simp add: makes)

lemma makes_build_expression [makes]: "env_makes e \<Longrightarrow> makes t_ast A (build_expression e priority_threshold)"
  by (simp add: build_expression_def makes)

section \<open>Statements\<close>

lemma makes_build_prefixedNonTypeName [makes]: "makes t_ast A build_prefixedNonTypeName"
  by (simp add: build_prefixedNonTypeName_def makes)

lemma makes_build_lvalueExpr [makes]: "env_makes e \<Longrightarrow> makes t_ast A (build_lvalueExpr e)"
  by (simp add: build_lvalueExpr_def makes)

lemma makes_build_lvalue [makes]: "env_makes e \<Longrightarrow> makes t_ast A (build_lvalue e)"
  by (simp add: build_lvalue_def makes)

lemma makes_bnd_past_list:
  "(\<And>y. makes tr (y # t_optl w @ A) (f y)) \<Longrightarrow>
   makes tr (node # t_optl w @ x # A) (bnd (set_ast name (Some x) node) f)"
  by (rule makes_bnd_sub [where C = "[node, x]" and A = "t_optl w @ A"]) (simp_all add: makes)

lemma makes_build_assignmentOrMethodCallStatement [makes]:
  "env_makes e \<Longrightarrow> makes t_ast A (build_assignmentOrMethodCallStatement e)"
  by (simp add: build_assignmentOrMethodCallStatement_def makes makes_bnd_past_list
      makes_ret(9) [where A = "[]", simplified])

lemma makes_build_variableDeclaration: "env_makes e \<Longrightarrow> makes t_ast (t_opt type_ref @ A) (build_variableDeclaration e type_ref)"
  by (cases type_ref) (simp_all add: build_variableDeclaration_def makes)

lemmas [makes] = makes_build_variableDeclaration [where type_ref = None, simplified] makes_build_variableDeclaration [where type_ref = "Some x" for x, simplified]

lemma makes_build_instantiation: "env_makes e \<Longrightarrow> makes t_ast (t_opt type_ref @ A) (build_instantiation e type_ref)"
  by (cases type_ref) (simp_all add: build_instantiation_def makes)

lemmas [makes] = makes_build_instantiation [where type_ref = None, simplified] makes_build_instantiation [where type_ref = "Some x" for x, simplified]

lemma makes_build_directApplication: "env_makes e \<Longrightarrow> makes t_ast (t_opt type_name @ A) (build_directApplication e type_name)"
  by (cases type_name) (simp_all add: build_directApplication_def makes)

lemmas [makes] = makes_build_directApplication [where type_name = None, simplified] makes_build_directApplication [where type_name = "Some x" for x, simplified]

lemma makes_build_parserLocalElement [makes]: "env_makes e \<Longrightarrow> makes t_ast A (build_parserLocalElement e)"
  by (simp add: build_parserLocalElement_def makes)

lemma makes_build_parserLocalElements [makes]: "env_makes e \<Longrightarrow> makes t_optl A (build_parserLocalElements e)"
  by (simp add: build_parserLocalElements_def makes)

lemma makes_build_parserStatements [makes]: "env_makes e \<Longrightarrow> makes t_optl A (build_parserStatements e)"
  by (simp add: build_parserStatements_def makes)

lemma makes_build_parserBlockStatements [makes]: "env_makes e \<Longrightarrow> makes t_ast A (build_parserBlockStatements e)"
  by (simp add: build_parserBlockStatements_def makes)

lemma makes_build_parserStatement [makes]: "env_makes e \<Longrightarrow> makes t_ast A (build_parserStatement e)"
  by (simp add: build_parserStatement_def makes)

lemma makes_build_simpleKeysetExpression [makes]: "env_makes e \<Longrightarrow> makes t_ast A (build_simpleKeysetExpression e)"
  by (simp add: build_simpleKeysetExpression_def makes)

lemma makes_build_tupleKeysetExpression [makes]: "env_makes e \<Longrightarrow> makes t_ast A (build_tupleKeysetExpression e)"
  by (simp add: build_tupleKeysetExpression_def makes)

lemma makes_build_keysetExpression [makes]: "env_makes e \<Longrightarrow> makes t_ast A (build_keysetExpression e)"
  by (simp add: build_keysetExpression_def makes)

lemma makes_build_selectCase [makes]: "env_makes e \<Longrightarrow> makes t_ast A (build_selectCase e)"
  by (simp add: build_selectCase_def makes)

lemma makes_build_selectCaseList [makes]: "env_makes e \<Longrightarrow> makes t_optl A (build_selectCaseList e)"
  by (simp add: build_selectCaseList_def makes)

lemma makes_build_selectExpression [makes]: "env_makes e \<Longrightarrow> makes t_ast A (build_selectExpression e)"
  by (simp add: build_selectExpression_def makes)

lemma makes_build_stateExpression [makes]: "env_makes e \<Longrightarrow> makes t_ast A (build_stateExpression e)"
  by (simp add: build_stateExpression_def makes)

lemma makes_build_transitionStatement [makes]: "env_makes e \<Longrightarrow> makes t_ast A (build_transitionStatement e)"
  by (simp add: build_transitionStatement_def makes)

lemma makes_build_parserState [makes]: "env_makes e \<Longrightarrow> makes t_ast A (build_parserState e)"
  by (simp add: build_parserState_def makes)

lemma makes_build_parserStates [makes]: "env_makes e \<Longrightarrow> makes t_optl A (build_parserStates e)"
  by (simp add: build_parserStates_def makes)

lemma makes_build_conditionalStatement [makes]: "env_makes e \<Longrightarrow> makes t_ast A (build_conditionalStatement e)"
  by (simp add: build_conditionalStatement_def makes)

lemma makes_build_exitStatement [makes]: "makes t_ast A build_exitStatement"
  by (simp add: build_exitStatement_def makes)

lemma makes_build_returnStatement [makes]: "env_makes e \<Longrightarrow> makes t_ast A (build_returnStatement e)"
  by (simp add: build_returnStatement_def makes)

lemma makes_build_switchLabel [makes]: "makes t_ast A build_switchLabel"
  by (simp add: build_switchLabel_def makes)

lemma makes_build_switchCase [makes]: "env_makes e \<Longrightarrow> makes t_ast A (build_switchCase e)"
  by (simp add: build_switchCase_def makes)

lemma makes_build_switchCases [makes]: "env_makes e \<Longrightarrow> makes t_optl A (build_switchCases e)"
  by (simp add: build_switchCases_def makes)

lemma makes_build_switchStatement [makes]: "env_makes e \<Longrightarrow> makes t_ast A (build_switchStatement e)"
  by (simp add: build_switchStatement_def makes)

lemma makes_build_statement: "env_makes e \<Longrightarrow> makes t_ast (t_opt type_name @ A) (build_statement e type_name)"
  by (cases type_name) (simp_all add: build_statement_def makes)

lemmas [makes] = makes_build_statement [where type_name = None, simplified] makes_build_statement [where type_name = "Some x" for x, simplified]

lemma makes_build_statementOrDecl [makes]: "env_makes e \<Longrightarrow> makes t_opt A (build_statementOrDecl e)"
  by (simp add: build_statementOrDecl_def makes)

lemma makes_build_statementOrDeclList [makes]: "env_makes e \<Longrightarrow> makes t_optl A (build_statementOrDeclList e)"
  by (simp add: build_statementOrDeclList_def makes)

lemma makes_build_blockStatement [makes]: "env_makes e \<Longrightarrow> makes t_ast A (build_blockStatement e)"
  by (simp add: build_blockStatement_def makes)

section \<open>The program\<close>

lemma makes_build_parserDeclaration [makes]: "env_makes e \<Longrightarrow> makes t_ast A (build_parserDeclaration e)"
  by (simp add: build_parserDeclaration_def makes)

lemma makes_build_actionDeclaration [makes]: "env_makes e \<Longrightarrow> makes t_ast A (build_actionDeclaration e)"
  by (simp add: build_actionDeclaration_def makes)

lemma makes_build_keyElement [makes]: "env_makes e \<Longrightarrow> makes t_ast A (build_keyElement e)"
  by (simp add: build_keyElement_def makes)

lemma makes_build_keyElementList [makes]: "env_makes e \<Longrightarrow> makes t_optl A (build_keyElementList e)"
  by (simp add: build_keyElementList_def makes)

lemma makes_build_actionRef [makes]: "env_makes e \<Longrightarrow> makes t_ast A (build_actionRef e)"
  by (simp add: build_actionRef_def makes)

lemma makes_build_actionList [makes]: "env_makes e \<Longrightarrow> makes t_optl A (build_actionList e)"
  by (simp add: build_actionList_def makes)

lemma makes_build_entry [makes]: "env_makes e \<Longrightarrow> makes t_ast A (build_entry e)"
  by (simp add: build_entry_def makes)

lemma makes_build_entriesList [makes]: "env_makes e \<Longrightarrow> makes t_optl A (build_entriesList e)"
  by (simp add: build_entriesList_def makes)

lemma makes_build_braced_prop [makes]:
  "makes t_optl [] m \<Longrightarrow> makes t_ast (prop # A) (build_braced_prop name m prop)"
  by (simp add: build_braced_prop_def makes)

lemma makes_build_tableProperty [makes]: "env_makes e \<Longrightarrow> makes t_ast A (build_tableProperty e)"
  by (simp add: build_tableProperty_def makes)

lemma makes_build_tablePropertyList [makes]: "env_makes e \<Longrightarrow> makes t_optl A (build_tablePropertyList e)"
  by (simp add: build_tablePropertyList_def makes)

lemma makes_build_tableDeclaration [makes]: "env_makes e \<Longrightarrow> makes t_ast A (build_tableDeclaration e)"
  by (simp add: build_tableDeclaration_def makes)

lemma makes_build_controlLocalDeclaration [makes]: "env_makes e \<Longrightarrow> makes t_ast A (build_controlLocalDeclaration e)"
  by (simp add: build_controlLocalDeclaration_def makes)

lemma makes_build_controlLocalDeclarations [makes]: "env_makes e \<Longrightarrow> makes t_optl A (build_controlLocalDeclarations e)"
  by (simp add: build_controlLocalDeclarations_def makes)

lemma makes_build_controlDeclaration [makes]: "env_makes e \<Longrightarrow> makes t_ast A (build_controlDeclaration e)"
  by (simp add: build_controlDeclaration_def makes)

lemma makes_build_typeDeclaration [makes]: "env_makes e \<Longrightarrow> makes t_ast A (build_typeDeclaration e)"
  by (simp add: build_typeDeclaration_def makes)

lemma makes_build_identifierList [makes]: "env_makes e \<Longrightarrow> makes t_optl A (build_identifierList e)"
  by (simp add: build_identifierList_def makes)

lemma makes_build_id_list_decl [makes]: "kind \<noteq> Ast_NONE \<Longrightarrow> env_makes e \<Longrightarrow> makes t_ast A (build_id_list_decl e kind)"
  by (simp add: build_id_list_decl_def makes)

lemma makes_build_errorDeclaration [makes]: "env_makes e \<Longrightarrow> makes t_ast A (build_errorDeclaration e)"
  by (simp add: build_errorDeclaration_def makes)

lemma makes_build_matchKindDeclaration [makes]: "env_makes e \<Longrightarrow> makes t_ast A (build_matchKindDeclaration e)"
  by (simp add: build_matchKindDeclaration_def makes)

lemma makes_build_functionDeclaration [makes]: "env_makes e \<Longrightarrow> makes t_ast (type_ref # A) (build_functionDeclaration e type_ref)"
  by (simp add: build_functionDeclaration_def makes)

lemma makes_build_declaration [makes]: "env_makes e \<Longrightarrow> makes t_opt A (build_declaration e)"
  by (simp add: build_declaration_def makes)

lemma makes_p4program_loop: "env_makes e \<Longrightarrow> makes t_list (decls @ A) (p4program_loop n e decls)"
proof (induction n arbitrary: decls)
  case (Suc n)
  have "makes t_list (decls @ A) (bnd (non_null (build_declaration e)) (\<lambda>decl. p4program_loop n e (decls @ [decl])))"
    by (rule makes_bnd_ast, simp add: makes Suc.prems, rule makes_perm [OF Suc.IH [OF Suc.prems]]) simp
  with Suc show ?case by (simp add: makes)
qed (simp add: makes)

lemma makes_build_p4program [makes]: "env_makes e \<Longrightarrow> makes t_ast A (build_p4program e)"
  using makes_p4program_loop [of e "[]" "[]" "rounds e"] by (simp add: build_p4program_def makes)

section \<open>The knot\<close>

lemma makes_dispatch: "env_makes e \<Longrightarrow> makes t_ast (call_trees c) (dispatch e c)"
  using makes_build_statement [of e]
  by (cases c) (simp_all add: dispatch_def call_trees_def makes makes_build_statement [of _ _ "[]", simplified])

lemma makes_build: "makes t_ast (call_trees c) (build n c)"
proof (induction n arbitrary: c)
  case (Suc n)
  then have "env_makes (env_of n (build n))" by (simp add: env_makes_def env_of_def)
  then show ?case by (simp add: makes_dispatch)
qed (simp add: makes)

lemma env_makes_parse_env: "env_makes (parse_env n)"
  by (simp add: env_makes_def parse_env_def env_of_def makes_build)

lemma makes_build_ast_program: "makes t_ast [] (build_ast_program n)"
proof -
  have "makes t_none [] (gets g)" "node_id (f s) = node_id s \<Longrightarrow> True" for g :: "parser \<Rightarrow> bool" and f :: "parser \<Rightarrow> parser" and s
    by (auto intro: makes_quiet simp: wp_simps)
  moreover have "makes t_none [] (modify (\<lambda>s. s\<lparr>token_at := 0\<rparr>))"
    by (rule makes_quiet) (simp add: wp_simps)
  ultimately show ?thesis
    by (simp add: build_ast_program_def makes env_makes_parse_env)
qed

section \<open>Printing\<close>

text \<open>A command that returns if \<open>b\<close> and is a bad access otherwise.\<close>

definition decides :: "bool \<Rightarrow> 'a print \<Rightarrow> bool" where
  "decides b m \<longleftrightarrow> (\<forall>p. wp m (\<lambda>_ _. b) (\<lambda>f. f = Bad_access \<and> \<not> b) p)"

lemma decides_bnd:
  assumes "decides b m" and "\<And>x. decides c (f x)"
  shows "decides (b \<and> c) (bnd m f)"
  unfolding decides_def wp_bnd
proof (intro allI)
  fix p
  show "wp m (\<lambda>x. wp (f x) (\<lambda>_ _. b \<and> c) (\<lambda>f. f = Bad_access \<and> \<not> (b \<and> c))) (\<lambda>f. f = Bad_access \<and> \<not> (b \<and> c)) p"
    by (rule wp_conseq [OF assms(1) [unfolded decides_def, rule_format]])
      (use assms(2) in \<open>auto simp: decides_def elim: wp_conseq\<close>)
qed

lemma decides_after: "decides True m \<Longrightarrow> (\<And>x. decides b (f x)) \<Longrightarrow> decides b (bnd m f)"
  using decides_bnd [of True m b f] by simp

lemma decides_simple: "decides True (ret x)" "decides True (put out)" "decides True (gets g)" "decides True (modify h)"
  "decides False (fail Bad_access)"
  by (simp_all add: decides_def put_def wp_simps)

lemma decides_each: "(\<And>x. x \<in> set xs \<Longrightarrow> decides (b x) (f x)) \<Longrightarrow> decides (\<forall>x \<in> set xs. b x) (each f xs)"
  by (induction xs) (auto intro: decides_bnd decides_simple)

lemma decides_print_prop: "decides True (print_prop name v)"
  unfolding print_prop_def indent_right_def by (intro decides_after decides_simple)

lemma decides_print_attr:
  assumes "fits (attr_type e) (attr_value e) \<or> misfit (attr_type e) (attr_value e)"
  shows "decides (fits (attr_type e) (attr_value e)) (print_attr e)"
  using assms
  by (cases "attr_value e"; auto simp: print_attr_def fits_def misfit_def decides_print_prop decides_simple
      split: option.split)

text \<open>The name of every kind but \<open>Ast_NONE\<close> can be printed.\<close>

lemma ast_kind_to_string_defined: "kind \<noteq> Ast_NONE \<Longrightarrow> \<exists>name. ast_kind_to_string kind = Inr name"
  by (cases kind) (simp_all add: ast_kind_to_string_def)

text \<open>The subtrees of an attribute, printed one after the other.\<close>

lemma attr_children_fits:
  assumes "fits (attr_type e) (attr_value e)"
  shows "\<exists>xs. attr_children e = Inr xs \<and> (\<forall>P. every_value P (attr_value e) \<longleftrightarrow> (\<forall>x \<in> set xs. every P x))"
proof (cases "attr_value e")
  case (V_Ast r)
  with assms show ?thesis by (cases r) (auto simp: fits_def attr_children_def)
next
  case (V_AstList r)
  with assms show ?thesis by (cases r) (auto simp: fits_def attr_children_def)
qed (use assms in \<open>auto simp: fits_def attr_children_def\<close>)

lemma decides_children:
  assumes "fits (attr_type e) (attr_value e) \<or> misfit (attr_type e) (attr_value e)"
    and "\<And>x. size x < size e \<Longrightarrow> good x \<Longrightarrow> decides (well_tagged x) (f x)"
    and "every_value (\<lambda>ty v. fits ty v \<or> misfit ty v) (attr_value e)"
  shows "decides (fits (attr_type e) (attr_value e) \<and> every_value fits (attr_value e))
    (bnd (lift (attr_children e)) (each f))"
proof (cases "fits (attr_type e) (attr_value e)")
  case True
  from attr_children_fits [OF this] obtain xs where xs: "attr_children e = Inr xs"
    and all: "every_value P (attr_value e) \<longleftrightarrow> (\<forall>x \<in> set xs. every P x)" for P by blast
  have "decides (\<forall>x \<in> set xs. well_tagged x) (each f xs)"
    by (rule decides_each) (use xs all assms(2,3) attr_children_smaller in blast)
  with True xs all show ?thesis by (simp add: decides_def wp_simps)
next
  case False
  then have "attr_children e = Inl Bad_access"
    using assms(1) by (auto simp: misfit_def attr_children_def)
  with False show ?thesis by (simp add: decides_def wp_simps)
qed

lemma print_ast_depth_decides: "good ast \<Longrightarrow> size ast < n \<Longrightarrow> decides (well_tagged ast) (print_ast_depth n ast)"
proof (induction n arbitrary: ast)
  case (Suc n)
  let ?es = "concat (attrs_of ast)"
  obtain kind where kind: "ast_kind_to_string (kind_of ast) = Inr kind"
    using Suc.prems(1) ast_kind_to_string_defined [of "kind_of ast"] by (auto simp: every_nodes [of _ ast])
  have attributes: "ast_attributes ast = Inr ?es"
    using Suc.prems(1) by (intro ast_attributes_all) (simp add: every_nodes [of _ ast] attr_wf_def)
  have entry: "fits (attr_type e) (attr_value e) \<or> misfit (attr_type e) (attr_value e)"
    "every_value (\<lambda>ty v. fits ty v \<or> misfit ty v) (attr_value e)" "size e < size ast" if "e \<in> set ?es" for e
    using that Suc.prems(1) size_chain [of e] unfolding every_nodes [of _ ast] by auto
  have "decides (well_tagged x) (print_ast_depth n x)" if "e \<in> set ?es" "size x < size e" "good x" for e x
    using that entry(3) [of e] Suc.prems(2) by (intro Suc.IH) simp_all
  then have children: "decides (\<forall>e \<in> set ?es. fits (attr_type e) (attr_value e) \<and> every_value fits (attr_value e))
      (each (\<lambda>e. bnd (lift (attr_children e)) (each (print_ast_depth n))) ?es)"
    by (intro decides_each decides_children entry) auto
  have own: "decides (\<forall>e \<in> set ?es. fits (attr_type e) (attr_value e)) (each print_attr ?es)"
    by (intro decides_each decides_print_attr entry)
  have braces: "decides True ast_start" "decides True ast_end"
    unfolding ast_start_def ast_end_def by (intro decides_after decides_simple)+
  have lift: "bnd (lift (Inr x)) f = f x" for x :: 'b and f :: "'b \<Rightarrow> unit print"
    by (simp add: bnd_def lift_def)
  have "well_tagged ast \<longleftrightarrow> (\<forall>e \<in> set ?es. fits (attr_type e) (attr_value e)) \<and>
      (\<forall>e \<in> set ?es. fits (attr_type e) (attr_value e) \<and> every_value fits (attr_value e))"
    using Suc.prems(1) unfolding every_nodes [of _ ast] by auto
  moreover have "decides (\<dots>) (print_ast_depth (Suc n) ast)"
    unfolding print_ast_depth.simps kind attributes lift
    by (intro decides_after [OF braces(1)] decides_after [OF decides_print_prop] decides_bnd [OF own]
        decides_after [OF braces(2)] children)
  ultimately show ?case by (simp only:)
qed simp

section \<open>A program without declarations\<close>

lemma empty_program_run:
  assumes end_token: "klass t' = Token_EndOfInput"
  shows "\<exists>ast s'. build_ast_program (Suc n) (init_parser [t, t'] st) = Inr (ast, s')"
proof -
  define s where "s = (init_parser [t, t'] st)\<lparr>token_at := 1\<rparr>"
  have start: "next_tok (init_parser [t, t'] st) = Inr ((), s)"
    using end_token
    by (simp add: next_tok_def s_def init_parser_def bnd_def gets_def modify_def assert_cmd_def ret_def lift_def
        skip_comments.simps current_token_def)
  have node: "new_ast_node k s = Inr (blank_ast k 1 (tk_line_nr t'), s\<lparr>node_id := 2, node_count := 1\<rparr>)" for k
    by (simp add: new_ast_node_def s_def init_parser_def bnd_def gets_def modify_def ret_def lift_def
        current_token_def)
  have loop: "p4program_loop (Suc m) e [] (s\<lparr>node_id := i, node_count := j\<rparr>) = Inr ([], s\<lparr>node_id := i, node_count := j\<rparr>)"
    for m e i j
    using end_token
    by (simp add: if_tok_def if_class_def has_class_def current_token_def s_def init_parser_def bnd_def ret_def lift_def
        token_is_declaration_def token_is_typeDeclaration_def token_is_derivedTypeDeclaration_def token_is_typeOrVoid_def
        token_is_nonTypeName_def token_is_typeRef_def token_is_baseType_def token_is_prefixedType_def)
  obtain h where "attr_hash ''decl_list'' = Inr h" "h < 15" by (rule attr_hash_defined)
  then have attribute: "\<exists>b. ast_setattr (blank_ast k i l) ''decl_list'' v ty = Inr b" for k i l v ty
    by (simp add: ast_setattr_def blank_ast_def AST_ATTRTABLE_CAPACITY_def)
  obtain b where b: "ast_setattr (blank_ast Ast_P4Program 1 (tk_line_nr t')) ''decl_list'' (V_AstList (Some []))
      AstAttr_AstList = Inr b" using attribute by blast
  have "has_class Token_EndOfInput (ps_tokens s ! 1)" "token_at s = 1" "length (ps_tokens s) = 2"
    using end_token by (simp_all add: s_def init_parser_def has_class_def)
  moreover have "modify (\<lambda>s. s\<lparr>token_at := 0\<rparr>) (init_parser [t, t'] st) = Inr ((), init_parser [t, t'] st)"
    by (simp add: modify_def init_parser_def)
  ultimately show ?thesis
    using start b
    by (simp add: build_ast_program_def build_p4program_def bnd_def gets_def assert_cmd_def ret_def set_list_def
        lift_def parse_env_def env_of_def require_def if_tok_def current_token_def init_parser_def node loop
        del: p4program_loop.simps)
qed
section \<open>Properties\<close>

lemma parsed_good:
  assumes "build_ast_program n (init_parser ts st) = Inr (ast, s')"
  shows "fresh s' (ast_ids ast)" and "good ast"
proof -
  have "fresh (init_parser ts st) (ids_of [] + {#})" by (simp add: fresh_def init_parser_def)
  from makesD [OF makes_build_ast_program this, of n]
  have "wp (build_ast_program n) (\<lambda>r s'. fresh s' (ast_ids r) \<and> good r) (\<lambda>_. True) (init_parser ts st)" by simp
  from wp_InrD [OF this assms] show "fresh s' (ast_ids ast)" and "good ast" by simp_all
qed

text \<open>
  C10: every tree the parser returns is well formed: each node has a kind other than
  \<open>Ast_NONE\<close> and a well-formed attribute table, each attribute holds a value of the type its
  tag names, except for the string that \<open>build_errorPrimary\<close> stores under the tag of a tree;
  no two nodes have the same number, and the numbers are those that \<open>new_ast_node\<close> gave out.
\<close>

theorem parsed_tree_well_formed:
  assumes "build_ast_program n (init_parser ts st) = Inr (ast, s')"
  shows "every (\<lambda>ty v. fits ty v \<or> misfit ty v) ast \<and> (\<forall>i. count (ast_ids ast) i \<le> 1) \<and>
    (\<forall>i \<in># ast_ids ast. 1 \<le> i \<and> i < node_id s')"
  using parsed_good [OF assms] by (simp add: fresh_def)

theorem parsed_tree_well_formed_witness:
  "\<exists>ast s'. build_ast_program 4 (init_parser [zero_token, zero_token\<lparr>klass := Token_EndOfInput\<rparr>]
       (empty_symtable 5)) = Inr (ast, s') \<and> kind_of ast \<noteq> Ast_NONE \<and> (\<forall>i. count (ast_ids ast) i \<le> 1)"
proof -
  obtain ast s' where run: "build_ast_program 4 (init_parser [zero_token, zero_token\<lparr>klass := Token_EndOfInput\<rparr>]
      (empty_symtable 5)) = Inr (ast, s')"
    using empty_program_run [of "zero_token\<lparr>klass := Token_EndOfInput\<rparr>" 3 zero_token "empty_symtable 5"]
    by (auto simp: eval_nat_numeral)
  from parsed_tree_well_formed [OF run] have "kind_of ast \<noteq> Ast_NONE \<and> (\<forall>i. count (ast_ids ast) i \<le> 1)"
    by (simp add: every_nodes [of _ ast])
  with run show ?thesis by blast
qed

text \<open>
  C11: the printer and the parser fit together but for one thing: the tree of a parsed program is
  printed exactly when every attribute holds what its tag says; the only other end is the bad
  access of \<open>print_attr\<close>, which takes the string of an \<open>error\<close> primary for a node.
\<close>

theorem parsed_tree_printable:
  assumes "build_ast_program n (init_parser ts st) = Inr (ast, s')"
  shows "((\<exists>out. print_ast ast = Inr out) \<longleftrightarrow> every fits ast) \<and>
    (print_ast ast = Inl Bad_access \<longleftrightarrow> \<not> every fits ast)"
proof -
  have "decides (well_tagged ast) (print_ast_depth (Suc (size ast)) ast)"
    by (rule print_ast_depth_decides) (use parsed_good [OF assms] in simp_all)
  then have "wp (print_ast_depth (Suc (size ast)) ast) (\<lambda>_ _. well_tagged ast) (\<lambda>f. f = Bad_access \<and> \<not> well_tagged ast)
      \<lparr>tab_level = 0, printed = []\<rparr>" by (simp only: decides_def)
  then show ?thesis
    by (auto simp: print_ast_def wp_def simp del: print_ast_depth.simps split: sum.splits)
qed

theorem parsed_tree_printable_witness:
  "\<exists>ast s'. build_ast_program 4 (init_parser [zero_token, zero_token\<lparr>klass := Token_EndOfInput\<rparr>]
       (empty_symtable 6)) = Inr (ast, s') \<and>
     ((\<exists>out. print_ast ast = Inr out) \<or> print_ast ast = Inl Bad_access)"
proof -
  obtain ast s' where run: "build_ast_program 4 (init_parser [zero_token, zero_token\<lparr>klass := Token_EndOfInput\<rparr>]
      (empty_symtable 6)) = Inr (ast, s')"
    using empty_program_run [of "zero_token\<lparr>klass := Token_EndOfInput\<rparr>" 3 zero_token "empty_symtable 6"]
    by (auto simp: eval_nat_numeral)
  from parsed_tree_printable [OF run]
  have "(\<exists>out. print_ast ast = Inr out) \<or> print_ast ast = Inl Bad_access" by blast
  with run show ?thesis by blast
qed

end
