(* ===== verification/ArenaLists.thy ===== *)
theory ArenaLists
  imports Arena "HOL-Library.Multiset"
begin

text \<open>
  The block lists of the page allocator. The bytes of a list, the descriptors of a list and the
  room left in an arena are multisets of addresses, and the invariant \<open>arena_inv\<close> is two sums
  over them: the bytes of the free list and of all arenas together are the reserved range, each
  once; the descriptors in use and the room of the allocator's own arena lie in the memory of
  that arena, each byte once. \<open>block_insert_and_coalesce\<close> keeps both sums.
\<close>

section \<open>Lists of blocks\<close>

text \<open>\<open>path h p xs q\<close>: from \<open>p\<close>, the \<open>next_block\<close> pointers lead over the nodes \<open>xs\<close> to \<open>q\<close>.\<close>

primrec path :: "(addr \<Rightarrow> page_block) \<Rightarrow> addr \<Rightarrow> addr list \<Rightarrow> addr \<Rightarrow> bool" where
  "path h p [] q \<longleftrightarrow> p = q"
| "path h p (x # xs) q \<longleftrightarrow> p = x \<and> x \<noteq> 0 \<and> path h (next_block (h x)) xs q"

lemma path_append [simp]: "path h p (xs @ ys) q \<longleftrightarrow> (\<exists>r. path h p xs r \<and> path h r ys q)"
  by (induction xs arbitrary: p) auto

lemma path_cong: "(\<And>x. x \<in> set xs \<Longrightarrow> next_block (h' x) = next_block (h x)) \<Longrightarrow> path h' p xs q \<longleftrightarrow> path h p xs q"
  by (induction xs arbitrary: p) auto

lemma path_update [simp]: "x \<notin> set xs \<Longrightarrow> path (h(x := b)) p xs q \<longleftrightarrow> path h p xs q"
  by (rule path_cong) auto

lemma path_nonzero: "path h p xs q \<Longrightarrow> x \<in> set xs \<Longrightarrow> x \<noteq> 0"
  by (induction xs arbitrary: p) auto

lemma path_empty: "path h 0 xs 0 \<Longrightarrow> xs = []"
  by (cases xs) auto

lemma path_null: "path h p xs 0 \<Longrightarrow> xs = [] \<longleftrightarrow> p = 0"
  by (cases xs) auto

lemma path_head: "path h p xs 0 \<Longrightarrow> p \<noteq> 0 \<Longrightarrow> \<exists>ys. xs = p # ys \<and> path h (next_block (h p)) ys 0"
  by (cases xs) auto

lemma path_unique: "path h p xs 0 \<Longrightarrow> path h p ys 0 \<Longrightarrow> xs = ys"
proof (induction xs arbitrary: p ys)
  case Nil
  then show ?case using path_empty by auto
next
  case (Cons x xs)
  then show ?case by (cases ys) auto
qed

section \<open>Addresses\<close>

definition ivl :: "addr \<Rightarrow> addr \<Rightarrow> addr multiset" where
  "ivl a b = mset_set {a..<b}"

text \<open>The bytes the blocks \<open>xs\<close> describe, the bytes of their descriptors, the room of an arena.\<close>

definition bytes :: "(addr \<Rightarrow> page_block) \<Rightarrow> addr list \<Rightarrow> addr multiset" where
  "bytes h xs = (\<Sum>x\<leftarrow>xs. ivl (memory_begin (h x)) (memory_end (h x)))"

definition cells :: "addr list \<Rightarrow> addr multiset" where
  "cells xs = (\<Sum>x\<leftarrow>xs. ivl x (x + SIZEOF_PAGEBLOCK))"

definition room :: "arena \<Rightarrow> addr multiset" where
  "room a = ivl (memory_avail a) (memory_limit a)"

lemma count_ivl: "count (ivl a b) i = (if a \<le> i \<and> i < b then 1 else 0)"
  by (simp add: ivl_def count_mset_set')

lemma ivl_join: "a \<le> b \<Longrightarrow> b \<le> c \<Longrightarrow> ivl a b + ivl b c = ivl a c"
  by (rule multiset_eqI) (auto simp: count_ivl)

lemma ivl_subset: "a \<le> a' \<Longrightarrow> b' \<le> b \<Longrightarrow> ivl a' b' \<subseteq># ivl a b"
  by (auto simp: subseteq_mset_def count_ivl)

lemma ivl_empty [simp]: "b \<le> a \<Longrightarrow> ivl a b = {#}"
  by (simp add: ivl_def)

lemma bytes_simps [simp]:
  "bytes h [] = {#}" "bytes h (x # xs) = ivl (memory_begin (h x)) (memory_end (h x)) + bytes h xs"
  "bytes h (xs @ ys) = bytes h xs + bytes h ys"
  by (simp_all add: bytes_def)

lemma cells_simps [simp]:
  "cells [] = {#}" "cells (x # xs) = ivl x (x + SIZEOF_PAGEBLOCK) + cells xs" "cells (xs @ ys) = cells xs + cells ys"
  by (simp_all add: cells_def)

lemma bytes_cong: "(\<And>x. x \<in> set xs \<Longrightarrow> h' x = h x) \<Longrightarrow> bytes h' xs = bytes h xs"
  by (induction xs) auto

lemma bytes_update [simp]: "x \<notin> set xs \<Longrightarrow> bytes (h(x := b)) xs = bytes h xs"
  by (rule bytes_cong) auto

lemma cells_mset: "mset xs = mset ys \<Longrightarrow> cells xs = cells ys"
  unfolding cells_def by (metis mset_map sum_mset_sum_list)

lemma cells_member: "x \<in> set xs \<Longrightarrow> ivl x (x + SIZEOF_PAGEBLOCK) \<subseteq># cells xs"
proof (induction xs)
  case (Cons y xs)
  then show ?case by (cases "x = y") (auto intro: subset_mset.order_trans)
qed simp

lemma cells_in: "x \<in> set xs \<Longrightarrow> x \<in># cells xs"
  using cells_member [of x xs] by (rule mset_subset_eqD) (simp_all add: ivl_def SIZEOF_PAGEBLOCK_def)

text \<open>Descriptors that overlap nowhere are distinct.\<close>

lemma cells_distinct: "(\<And>i. count (cells xs) i \<le> 1) \<Longrightarrow> distinct xs"
proof (induction xs)
  case (Cons x xs)
  have "count (cells xs) i \<le> 1" for i using Cons.prems [of i] by simp
  moreover have "x \<notin> set xs"
    using Cons.prems [of x] cells_in [of x xs] by (auto simp: count_ivl SIZEOF_PAGEBLOCK_def count_eq_zero_iff)
  ultimately show ?case using Cons.IH by simp
qed simp

section \<open>Insertion\<close>

lemma wp_lift_state: "wp (\<lambda>m. lift (r m) m) Q E m \<longleftrightarrow> (case r m of Inl f \<Rightarrow> E f | Inr x \<Rightarrow> Q x m)"
  by (simp add: wp_def lift_def split: sum.splits)

lemma wp_bnd_fun: "wp (bnd c f) Q E = wp c (\<lambda>x. wp (f x) Q E) E"
  by (rule ext) (rule wp_bnd)

lemma wp_modify_fun: "wp (modify g) Q E = (\<lambda>m. Q () (g m))"
  by (rule ext) (rule wp_modify)

lemma find_left_member:
  "path h p xs 0 \<Longrightarrow> length xs < n \<Longrightarrow> \<exists>l. find_left n h p b = Inr l \<and> (l = 0 \<or> l \<in> set xs)"
proof (induction n arbitrary: p xs)
  case (Suc n)
  then show ?case by (cases xs) auto
qed simp

text \<open>
  What \<open>block_insert_and_coalesce\<close> does to the nodes: those of the list and the new one are now
  the list \<open>G\<close> and recycled ones \<open>E\<close>; the bytes are the same, the borders of blocks are old
  ones, no other node changes.
\<close>

definition inserted :: "mem \<Rightarrow> addr \<Rightarrow> addr list \<Rightarrow> addr list \<Rightarrow> addr \<Rightarrow> mem \<Rightarrow> bool" where
  "inserted m y F C l m' \<longleftrightarrow>
     (\<exists>G E. path (blocks m') l G 0 \<and> G \<noteq> [] \<and> path (blocks m') (recycled_block_structs m') (E @ C) 0 \<and>
       mset (G @ E) = mset (y # F) \<and> bytes (blocks m') G = bytes (blocks m) (y # F) \<and>
       (\<forall>x \<in> set G. memory_begin (blocks m' x) \<le> memory_end (blocks m' x) \<and>
          memory_begin (blocks m' x) \<in> memory_begin ` blocks m ` set (y # F) \<and>
          memory_end (blocks m' x) \<in> memory_end ` blocks m ` set (y # F))) \<and>
     (\<forall>z. z \<notin> set (y # F) \<longrightarrow> blocks m' z = blocks m z) \<and>
     m' = m\<lparr>blocks := blocks m', recycled_block_structs := recycled_block_structs m'\<rparr>"

lemmas wp_mem = wp_simps upd_block_def upd_arena_def recycle_block_struct_def zero_block_def

lemma insertedI:
  assumes "path h' l G 0" "G \<noteq> []" "path h' r (E @ C) 0" "mset (G @ E) = mset (y # F)"
    "bytes h' G = bytes (blocks m) (y # F)"
    "\<And>x. x \<in> set G \<Longrightarrow> memory_begin (h' x) \<le> memory_end (h' x) \<and>
          memory_begin (h' x) \<in> memory_begin ` blocks m ` set (y # F) \<and>
          memory_end (h' x) \<in> memory_end ` blocks m ` set (y # F)"
    "\<And>z. z \<notin> set (y # F) \<Longrightarrow> h' z = blocks m z"
  shows "inserted m y F C l (m\<lparr>blocks := h', recycled_block_structs := r\<rparr>)"
  using assms unfolding inserted_def by (intro conjI exI [of _ G] exI [of _ E]) auto

lemma ivl_merge:
  "memory_end a = memory_begin b \<Longrightarrow> memory_begin a \<le> memory_end a \<Longrightarrow> memory_begin b \<le> memory_end b \<Longrightarrow>
   memory_begin a \<le> memory_end b \<and> ivl (memory_begin a) (memory_end b) =
     ivl (memory_begin a) (memory_end a) + ivl (memory_begin b) (memory_end b)"
  using ivl_join [of "memory_begin a" "memory_end a" "memory_end b"] by simp

lemma insertedI_same:
  assumes "path h' l G 0" "mset G = mset (y # F)" "path h' (recycled_block_structs m) C 0"
    "bytes h' G = bytes (blocks m) (y # F)"
    "\<And>x. x \<in> set G \<Longrightarrow> memory_begin (h' x) \<le> memory_end (h' x) \<and>
          memory_begin (h' x) \<in> memory_begin ` blocks m ` set (y # F) \<and>
          memory_end (h' x) \<in> memory_end ` blocks m ` set (y # F)"
    "\<And>z. z \<notin> set (y # F) \<Longrightarrow> h' z = blocks m z"
  shows "inserted m y F C l (m\<lparr>blocks := h'\<rparr>)"
proof -
  have "G \<noteq> []" using assms(2) by auto
  with insertedI [of h' l G "recycled_block_structs m" "[]" C y F m] assms show ?thesis by simp
qed


lemma insert_behind:
  fixes m :: mem
  defines "h \<equiv> blocks m"
  assumes list: "path h l (xs @ x # ys) 0" and free: "path h (recycled_block_structs m) C 0"
    and nodes: "distinct (y # (xs @ x # ys) @ C)" "y \<noteq> 0"
    and ordered: "\<And>z. z \<in> set (y # xs @ x # ys) \<Longrightarrow> memory_begin (h z) \<le> memory_end (h z)"
  shows "wp (bnd (block_link l x y) (\<lambda>(right, merged). block_coalesce merged x right y))
     (\<lambda>l' m'. inserted m y (xs @ x # ys) C l' m') (\<lambda>_. False) m"
proof -
  have p: "path h l xs x" "x \<noteq> 0" "path h (next_block (h x)) ys 0" using list by auto
  have d: "y \<noteq> x" "x \<noteq> y" "y \<notin> set xs" "y \<notin> set ys" "y \<notin> set C" "x \<notin> set xs" "x \<notin> set ys" "x \<notin> set C"
    "set xs \<inter> set C = {}" using nodes(1) by auto
  have le: "memory_begin (h y) \<le> memory_end (h y)" "memory_begin (h x) \<le> memory_end (h x)"
    "\<And>z. z \<in> set xs \<Longrightarrow> memory_begin (h z) \<le> memory_end (h z)"
    "\<And>z. z \<in> set ys \<Longrightarrow> memory_begin (h z) \<le> memory_end (h z)" using ordered by auto
  show ?thesis
  proof (cases ys)
    case Nil
    have nx: "next_block (h x) = 0" using p Nil by simp
    show ?thesis
    proof (cases "memory_end (h x) = memory_begin (h y)")
      case True
      note merge = ivl_merge [OF True le(2,1)]
      show ?thesis
        using True nx d(1,2) p(2)
        by (simp add: block_link_def block_coalesce_def wp_mem Nil h_def [symmetric],
            intro insertedI [where G = "xs @ [x]" and E = "[y]"])
          (auto simp: p d le merge free nodes(2) h_def [symmetric] add_ac)
    next
      case False
      show ?thesis
        using False nx d(1,2) p(2)
        by (simp add: block_link_def block_coalesce_def wp_mem Nil h_def [symmetric],
            intro insertedI_same [where G = "xs @ [x, y]"])
          (auto simp: p d le free nodes(2) h_def [symmetric] add_ac)
    qed
  next
    case (Cons r zs)
    have r: "next_block (h x) = r" "r \<noteq> 0" "path h (next_block (h r)) zs 0" using p Cons by simp_all
    have rd: "r \<noteq> x" "x \<noteq> r" "y \<noteq> r" "r \<noteq> y" "r \<notin> set xs" "r \<notin> set C" "r \<notin> set zs" "x \<notin> set zs" "y \<notin> set zs" using nodes(1) Cons by auto
    have rle: "memory_begin (h r) \<le> memory_end (h r)" "\<And>z. z \<in> set zs \<Longrightarrow> memory_begin (h z) \<le> memory_end (h z)"
      using le(4) Cons by auto
    note facts = p(1,2) d nodes(2) r(2) le(1-3) rle free
    show ?thesis
    proof (cases "memory_end (h x) = memory_begin (h y)"; cases "memory_begin (h r) = memory_end (h y)")
      assume touch: "memory_end (h x) = memory_begin (h y)" "memory_begin (h r) = memory_end (h y)"
      then have merge: "memory_begin (h x) \<le> memory_end (h r)"
        "ivl (memory_begin (h x)) (memory_end (h r)) = ivl (memory_begin (h x)) (memory_begin (h y)) +
          (ivl (memory_begin (h y)) (memory_end (h y)) + ivl (memory_end (h y)) (memory_end (h r)))"
        using le(1,2) rle(1) ivl_join [of "memory_begin (h x)" "memory_begin (h y)" "memory_end (h r)"]
          ivl_join [of "memory_begin (h y)" "memory_end (h y)" "memory_end (h r)"] by simp_all
      show ?thesis
      proof (cases zs)
        case Nil
        then have "next_block (h r) = 0" using r(3) by simp
        then show ?thesis
          by (simp add: touch r d(1,2) rd(1-4) p(2) block_link_def block_coalesce_def wp_mem Cons h_def [symmetric],
              intro insertedI [where G = "xs @ [x]" and E = "[y, r]"])
            (simp_all add: touch r(1,2) Nil facts rd merge h_def [symmetric] add_ac, auto simp: facts rd)
      next
        case (Cons z zs')
        then have z: "next_block (h r) = z" "z \<noteq> 0" "z \<noteq> x" "x \<noteq> z" "z \<noteq> y" "y \<noteq> z" "z \<noteq> r" "r \<noteq> z" "z \<notin> set xs" "z \<notin> set zs'" "path h (next_block (h z)) zs' 0"
          "x \<notin> set zs'" "y \<notin> set zs'" "r \<notin> set zs'" "memory_begin (h z) \<le> memory_end (h z)"
          "\<And>z. z \<in> set zs' \<Longrightarrow> memory_begin (h z) \<le> memory_end (h z)" "z \<notin> set C"
          using r(3) rd rle nodes(1) \<open>ys = r # zs\<close> by auto
        show ?thesis
          by (simp add: touch r(1,2) d(1,2) rd(1-4) p(2) z Cons block_link_def block_coalesce_def wp_mem \<open>ys = r # zs\<close>
                h_def [symmetric], intro insertedI [where G = "xs @ x # z # zs'" and E = "[y, r]"])
            (simp_all add: touch r(1,2) Cons facts rd merge h_def [symmetric] z add_ac, auto simp: facts rd z)
      qed
    next
      assume touch: "memory_end (h x) = memory_begin (h y)" "memory_begin (h r) \<noteq> memory_end (h y)"
      note merge = ivl_merge [OF touch(1) le(2,1)]
      show ?thesis
        by (simp add: touch r d(1,2) rd(1-4) p(2) block_link_def block_coalesce_def wp_mem Cons h_def [symmetric],
            intro insertedI [where G = "xs @ x # r # zs" and E = "[y]"])
          (simp_all add: touch r facts rd merge h_def [symmetric] add_ac, auto simp: facts rd)
    next
      assume touch: "memory_end (h x) \<noteq> memory_begin (h y)" "memory_begin (h r) = memory_end (h y)"
      note merge = ivl_merge [OF touch(2) [symmetric] le(1) rle(1)]
      show ?thesis
        by (simp add: touch r d(1,2) rd(1-4) p(2) block_link_def block_coalesce_def wp_mem Cons h_def [symmetric],
            intro insertedI [where G = "xs @ x # r # zs" and E = "[y]"])
          (simp_all add: touch r facts rd merge h_def [symmetric] add_ac, auto simp: facts rd)
    next
      assume touch: "memory_end (h x) \<noteq> memory_begin (h y)" "memory_begin (h r) \<noteq> memory_end (h y)"
      show ?thesis
        by (simp add: touch r d(1,2) rd(1-4) p(2) block_link_def block_coalesce_def wp_mem Cons h_def [symmetric],
            intro insertedI_same [where G = "xs @ x # y # r # zs"])
          (simp_all add: touch r facts rd h_def [symmetric] add_ac, auto simp: facts rd)
    qed
  qed
qed

lemma insert_in_front:
  fixes m :: mem
  defines "h \<equiv> blocks m"
  assumes list: "path h l F 0" "F \<noteq> []" and free: "path h (recycled_block_structs m) C 0"
    and nodes: "distinct (y # F @ C)" "y \<noteq> 0"
    and ordered: "\<And>z. z \<in> set (y # F) \<Longrightarrow> memory_begin (h z) \<le> memory_end (h z)"
  shows "wp (bnd (block_link l 0 y) (\<lambda>(right, merged). block_coalesce merged 0 right y))
     (\<lambda>l' m'. inserted m y F C l' m') (\<lambda>_. False) m"
proof -
  obtain zs where F: "F = l # zs" and l: "l \<noteq> 0" "path h (next_block (h l)) zs 0" using list by (cases F) auto
  have d: "y \<noteq> l" "l \<noteq> y" "y \<notin> set zs" "l \<notin> set zs" "y \<notin> set C" "l \<notin> set C" using nodes(1) F by auto
  have le: "memory_begin (h y) \<le> memory_end (h y)" "memory_begin (h l) \<le> memory_end (h l)"
    "\<And>z. z \<in> set zs \<Longrightarrow> memory_begin (h z) \<le> memory_end (h z)" using ordered F by auto
  show ?thesis
  proof (cases "memory_begin (h l) = memory_end (h y)")
    case True
    note merge = ivl_merge [OF True [symmetric] le(1,2)]
    show ?thesis
      by (simp add: True l(1) d(1,2) block_link_def block_coalesce_def wp_mem h_def [symmetric],
          intro insertedI [where G = "l # zs" and E = "[y]"])
        (simp_all add: True F l d le merge free nodes(2) h_def [symmetric] add_ac, auto simp: d le)
  next
    case False
    show ?thesis
      by (simp add: False l(1) d(1,2) block_link_def block_coalesce_def wp_mem h_def [symmetric],
          intro insertedI_same [where G = "y # l # zs"])
        (simp_all add: F l d le free nodes(2) h_def [symmetric] add_ac, auto simp: d le)
  qed
qed

lemma insert_spec:
  fixes m :: mem
  assumes list: "path (blocks m) l F 0" "F = [] \<Longrightarrow> next_block (blocks m y) = 0" "length F < walk_fuel m"
    and free: "path (blocks m) (recycled_block_structs m) C 0"
    and nodes: "distinct (y # F @ C)" "y \<noteq> 0"
    and ordered: "\<And>z. z \<in> set (y # F) \<Longrightarrow> memory_begin (blocks m z) \<le> memory_end (blocks m z)"
  shows "wp (block_insert_and_coalesce l y) (\<lambda>l' m'. inserted m y F C l' m') (\<lambda>_. False) m"
proof (cases "F = []")
  case True
  moreover have "inserted m y [] C y (m\<lparr>blocks := blocks m\<rparr>)"
    by (rule insertedI_same [where G = "[y]"]) (use list(2) free nodes ordered True in auto)
  ultimately show ?thesis using list(1) by (simp add: block_insert_and_coalesce_def wp_simps)
next
  case False
  have l: "l \<noteq> 0" using path_null [OF list(1)] False by simp
  obtain x where x: "find_left (walk_fuel m) (blocks m) l (memory_begin (blocks m y)) = Inr x" "x = 0 \<or> x \<in> set F"
    using find_left_member [OF list(1,3)] by blast
  have "wp (bnd (block_link l x y) (\<lambda>(right, merged). block_coalesce merged x right y))
     (\<lambda>l' m'. inserted m y F C l' m') (\<lambda>_. False) m"
  proof (cases "x = 0")
    case False
    then obtain xs ys where F: "F = xs @ x # ys" using x(2) by (auto dest: split_list)
    show ?thesis
      unfolding F by (rule insert_behind) (use assms in \<open>simp_all add: F\<close>)
  qed (use assms False in \<open>auto intro: insert_in_front\<close>)
  with l x(1) show ?thesis by (simp add: block_insert_and_coalesce_def wp_bnd wp_lift_state)
qed
section \<open>The invariant\<close>

text \<open>
  An owner is the free list (\<open>None\<close>) or an arena; \<open>S\<close> are the owners in use, \<open>L\<close> their
  blocks, \<open>C\<close> the recycled descriptors. Between the statements of an operation there are also
  descriptors in no list, \<open>B\<close>, and bytes no descriptor speaks of yet, \<open>X\<close>.
\<close>

definition head_of :: "mem \<Rightarrow> addr option \<Rightarrow> addr" where
  "head_of m o' = (case o' of None \<Rightarrow> block_freelist_head m | Some a \<Rightarrow> owned_pages (arenas m a))"

definition set_head :: "mem \<Rightarrow> addr option \<Rightarrow> addr \<Rightarrow> mem" where
  "set_head m o' p = (case o' of None \<Rightarrow> m\<lparr>block_freelist_head := p\<rparr>
     | Some a \<Rightarrow> m\<lparr>arenas := (arenas m)(a := (arenas m a)\<lparr>owned_pages := p\<rparr>)\<rparr>)"

definition room_of :: "mem \<Rightarrow> addr option \<Rightarrow> addr multiset" where
  "room_of m o' = (case o' of None \<Rightarrow> {#} | Some a \<Rightarrow> room (arenas m a))"

definition region :: "mem \<Rightarrow> addr multiset" where
  "region m = ivl (page_memory_start m) (page_memory_start m + total_page_count m * page_size m)"

definition spans :: "int \<Rightarrow> page_block \<Rightarrow> bool" where
  "spans ps b \<longleftrightarrow> memory_begin b \<le> memory_end b \<and> ps dvd memory_begin b \<and> ps dvd memory_end b"

definition page_size_ok :: "int \<Rightarrow> bool" where
  "page_size_ok ps \<longleftrightarrow> (\<exists>k \<ge> 6. k < 31 \<and> ps = 2 ^ k)"

definition arena_inv ::
  "mem \<Rightarrow> addr option set \<Rightarrow> (addr option \<Rightarrow> addr list) \<Rightarrow> addr list \<Rightarrow> (addr option \<Rightarrow> addr multiset) \<Rightarrow> addr list \<Rightarrow> bool" where
  "arena_inv m S L C X B \<longleftrightarrow>
     page_size_ok (page_size m) \<and> 0 < page_memory_start m \<and>
     finite S \<and> None \<in> S \<and> Some PAGEBLOCK_STORAGE \<in> S \<and> (\<forall>a. Some a \<notin> S \<longrightarrow> arenas m a = zero_arena) \<and>
     L None \<noteq> [] \<and> path (blocks m) (recycled_block_structs m) C 0 \<and>
     (\<forall>i \<in> S. path (blocks m) (head_of m i) (L i) 0) \<and>
     (\<forall>i \<in> S. \<forall>x \<in> set (L i). spans (page_size m) (blocks m x)) \<and>
     (\<Sum>i \<in> S. bytes (blocks m) (L i) + X i) = region m \<and>
     cells (C @ B) + (\<Sum>i \<in> S. cells (L i)) + room_of m (Some PAGEBLOCK_STORAGE) \<subseteq>#
       bytes (blocks m) (L (Some PAGEBLOCK_STORAGE)) + X (Some PAGEBLOCK_STORAGE) \<and>
     (\<forall>i \<in> S. room_of m i \<subseteq># bytes (blocks m) (L i) + X i) \<and>
     (\<forall>i \<in> S. i \<noteq> None \<longrightarrow> (\<forall>b \<in># bytes (blocks m) (L i). accessible m b))"

lemma arena_inv_parts:
  assumes "arena_inv m S L C X B"
  shows "finite S" "None \<in> S" "Some PAGEBLOCK_STORAGE \<in> S" "L None \<noteq> []" "page_size_ok (page_size m)" "0 < page_memory_start m"
    "Some a \<notin> S \<Longrightarrow> arenas m a = zero_arena"
    "path (blocks m) (recycled_block_structs m) C 0" "i \<in> S \<Longrightarrow> path (blocks m) (head_of m i) (L i) 0"
    "i \<in> S \<Longrightarrow> x \<in> set (L i) \<Longrightarrow> spans (page_size m) (blocks m x)"
    "(\<Sum>i \<in> S. bytes (blocks m) (L i) + X i) = region m"
    "cells (C @ B) + (\<Sum>i \<in> S. cells (L i)) + room_of m (Some PAGEBLOCK_STORAGE) \<subseteq>#
       bytes (blocks m) (L (Some PAGEBLOCK_STORAGE)) + X (Some PAGEBLOCK_STORAGE)"
    "i \<in> S \<Longrightarrow> room_of m i \<subseteq># bytes (blocks m) (L i) + X i"
    "i \<in> S \<Longrightarrow> i \<noteq> None \<Longrightarrow> b \<in># bytes (blocks m) (L i) \<Longrightarrow> accessible m b"
  using assms unfolding arena_inv_def by blast+

lemma sum_member: "finite S \<Longrightarrow> i \<in> S \<Longrightarrow> f i \<subseteq># (\<Sum>i \<in> S. f i :: 'b multiset)"
  by (simp add: sum.remove)

lemma sum_members: "finite S \<Longrightarrow> i \<in> S \<Longrightarrow> j \<in> S \<Longrightarrow> i \<noteq> j \<Longrightarrow> f i + f j \<subseteq># (\<Sum>i \<in> S. f i :: 'b multiset)"
  by (simp add: sum.remove [of S i] sum.remove [of "S - {i}" j])

lemma arena_inv_cells:
  assumes "arena_inv m S L C X B"
  shows "cells (C @ B) + (\<Sum>i \<in> S. cells (L i)) + room_of m (Some PAGEBLOCK_STORAGE) \<subseteq># region m"
proof -
  have "bytes (blocks m) (L (Some PAGEBLOCK_STORAGE)) + X (Some PAGEBLOCK_STORAGE) \<subseteq># region m"
    using assms sum_member [of S "Some PAGEBLOCK_STORAGE" "\<lambda>i. bytes (blocks m) (L i) + X i"]
    by (simp add: arena_inv_def)
  with assms show ?thesis unfolding arena_inv_def by (metis subset_mset.order_trans)
qed

lemma region_once: "N \<subseteq># region m \<Longrightarrow> count N b \<le> 1"
  using mset_subset_eq_count [of N "region m" b] by (auto simp: region_def count_ivl split: if_splits)

lemma arena_inv_distinct:
  assumes "arena_inv m S L C X B" and "i \<in> S"
  shows "distinct (C @ B @ L i)" and "j \<in> S \<Longrightarrow> i \<noteq> j \<Longrightarrow> distinct (C @ B @ L i @ L j)"
proof -
  have S: "finite S" using assms(1) by (simp add: arena_inv_def)
  have "cells (C @ B @ L i) \<subseteq># region m"
    by (rule subset_mset.order_trans [OF _ arena_inv_cells [OF assms(1)]])
      (use sum_member [OF S assms(2), of "\<lambda>i. cells (L i)"] in \<open>simp add: add.assoc subset_mset.add_increasing2\<close>)
  then show "distinct (C @ B @ L i)" by (intro cells_distinct region_once)
  assume j: "j \<in> S" "i \<noteq> j"
  have "cells (C @ B @ L i @ L j) \<subseteq># region m"
    by (rule subset_mset.order_trans [OF _ arena_inv_cells [OF assms(1)]])
      (use sum_members [OF S assms(2) j, of "\<lambda>i. cells (L i)"] in \<open>simp add: add.assoc subset_mset.add_increasing2\<close>)
  then show "distinct (C @ B @ L i @ L j)" by (intro cells_distinct region_once)
qed

lemma arena_inv_positive:
  assumes "arena_inv m S L C X B" and "i \<in> S" and "x \<in> set (C @ B @ L i)"
  shows "0 < x" and "x \<noteq> 0"
proof -
  have S: "finite S" using assms(1) by (simp add: arena_inv_def)
  have "cells (C @ B @ L i) \<subseteq># region m"
    by (rule subset_mset.order_trans [OF _ arena_inv_cells [OF assms(1)]])
      (use sum_member [OF S assms(2), of "\<lambda>i. cells (L i)"] in \<open>simp add: add.assoc subset_mset.add_increasing2\<close>)
  with cells_in [OF assms(3)] have "x \<in># region m" by (rule mset_subset_eqD [rotated])
  then show "0 < x" using assms(1) by (simp add: region_def ivl_def arena_inv_def)
  then show "x \<noteq> 0" by simp
qed

lemma cells_size: "length xs \<le> size (cells xs)"
proof (induction xs)
  case (Cons x xs)
  have "size (ivl x (x + SIZEOF_PAGEBLOCK)) = 32" by (simp add: ivl_def SIZEOF_PAGEBLOCK_def)
  with Cons show ?case by simp
qed simp

lemma arena_inv_length:
  assumes "arena_inv m S L C X B" and "i \<in> S"
  shows "length (L i) < walk_fuel m"
proof -
  have S: "finite S" using assms(1) by (simp add: arena_inv_def)
  have "cells (L i) \<subseteq># region m"
    by (rule subset_mset.order_trans [OF _ arena_inv_cells [OF assms(1)]])
      (use sum_member [OF S assms(2), of "\<lambda>i. cells (L i)"] in \<open>simp add: subset_mset.add_increasing subset_mset.add_increasing2\<close>)
  from size_mset_mono [OF this] cells_size [of "L i"] show ?thesis
    by (simp add: walk_fuel_def region_def ivl_def)
qed


lemma spans_order: "spans ps b \<Longrightarrow> memory_begin b \<le> memory_end b"
  by (simp add: spans_def)

lemma sum_shift:
  fixes f g :: "'a \<Rightarrow> 'b multiset"
  assumes "finite S" "i \<in> S" "j \<in> S" "\<And>k. k \<in> S \<Longrightarrow> k \<noteq> i \<Longrightarrow> k \<noteq> j \<Longrightarrow> f k = g k"
    and "if i = j then f i = g i else f i + f j = g i + g j"
  shows "sum f S = sum g S"
proof (cases "i = j")
  case True
  with assms have "f k = g k" if "k \<in> S" for k using that by (cases "k = i") auto
  then show ?thesis by simp
next
  case False
  have "sum f S = f i + f j + sum f (S - {i} - {j})" "sum g S = g i + g j + sum g (S - {i} - {j})"
    using assms(1-3) False by (simp_all add: sum.remove [of S i] sum.remove [of "S - {i}" j] add.assoc)
  moreover have "sum f (S - {i} - {j}) = sum g (S - {i} - {j})" using assms(4) by simp
  ultimately show ?thesis using assms(5) False by simp
qed

lemma inserted_inv:
  assumes inv: "arena_inv m S L C X [y]" and owners: "i \<in> S" "j \<in> S"
    and y: "spans (page_size m) (blocks m y)" "X j = ivl (memory_begin (blocks m y)) (memory_end (blocks m y))"
      "L i = [] \<Longrightarrow> next_block (blocks m y) = 0"
    and from_owner: "i = j \<or> room_of m j = {#} \<and> j \<noteq> Some PAGEBLOCK_STORAGE"
    and acc: "i \<noteq> None \<Longrightarrow> \<forall>b \<in># X j. accessible m b"
    and inserted: "inserted m y (L i) C p m'"
  shows "(\<exists>G C'. arena_inv (set_head m' i p) S (L(i := G)) C' (X(j := {#})) [] \<and>
        bytes (blocks m') G = bytes (blocks m) (L i) + X j) \<and>
      (\<forall>k \<in> S - {i}. bytes (blocks m') (L k) = bytes (blocks m) (L k)) \<and>
      m' = m\<lparr>blocks := blocks m', recycled_block_structs := recycled_block_structs m'\<rparr>"
proof -
  note facts = arena_inv_parts [OF inv]
  from inserted obtain G E where G: "path (blocks m') p G 0" "G \<noteq> []" "path (blocks m') (recycled_block_structs m') (E @ C) 0"
      "mset (G @ E) = mset (y # L i)" "bytes (blocks m') G = bytes (blocks m) (y # L i)"
      "\<And>x. x \<in> set G \<Longrightarrow> memory_begin (blocks m' x) \<le> memory_end (blocks m' x) \<and>
        memory_begin (blocks m' x) \<in> memory_begin ` blocks m ` set (y # L i) \<and>
        memory_end (blocks m' x) \<in> memory_end ` blocks m ` set (y # L i)"
    and other: "\<And>z. z \<notin> set (y # L i) \<Longrightarrow> blocks m' z = blocks m z"
    and m': "m' = m\<lparr>blocks := blocks m', recycled_block_structs := recycled_block_structs m'\<rparr>"
    unfolding inserted_def by blast
  let ?m = "set_head m' i p"
  have frame: "blocks m' z = blocks m z" if "k \<in> S" "k \<noteq> i" "z \<in> set (L k)" for k z
    using that arena_inv_distinct(2) [OF inv owners(1), of k] by (intro other) auto
  have others: "path (blocks m') q (L k) 0 \<longleftrightarrow> path (blocks m) q (L k) 0" "bytes (blocks m') (L k) = bytes (blocks m) (L k)"
    if "k \<in> S" "k \<noteq> i" for k q
    by (rule path_cong bytes_cong, simp add: frame [OF that])+
  have same: "blocks ?m = blocks m'" "page_size ?m = page_size m" "region ?m = region m" "room_of ?m k = room_of m k"
      "recycled_block_structs ?m = recycled_block_structs m'" "accessible ?m = accessible m"
      "page_memory_start ?m = page_memory_start m" for k
    by (subst m', cases i, auto simp: set_head_def region_def room_of_def room_def split: option.split)+
  have heads: "head_of ?m k = (if k = i then p else head_of m k)" for k
    by (subst m', cases i; cases k) (auto simp: set_head_def head_of_def)
  have "\<forall>a. Some a \<notin> S \<longrightarrow> arenas ?m a = zero_arena"
    using facts(7) owners(1) by (subst m', cases i) (auto simp: set_head_def)
  moreover have "\<forall>k \<in> S. path (blocks m') (head_of ?m k) ((L(i := G)) k) 0"
    using G(1) facts(9) others(1) by (simp add: heads)
  moreover have "\<forall>k \<in> S. \<forall>x \<in> set ((L(i := G)) k). spans (page_size m) (blocks m' x)"
  proof (intro ballI)
    fix k x assume k: "k \<in> S" "x \<in> set ((L(i := G)) k)"
    have old: "spans (page_size m) (blocks m z)" if "z \<in> set (y # L i)" for z
      using that y(1) facts(10) [OF owners(1)] by auto
    show "spans (page_size m) (blocks m' x)"
    proof (cases "k = i")
      case True
      with G(6) [of x] k(2) old show ?thesis by (auto simp: spans_def)
    next
      case False
      with k frame [of k x] facts(10) [of k x] show ?thesis by simp
    qed
  qed
  moreover have "(\<Sum>k \<in> S. bytes (blocks m') ((L(i := G)) k) + (X(j := {#})) k) =
      (\<Sum>k \<in> S. bytes (blocks m) (L k) + X k)"
    by (rule sum_shift [OF facts(1) owners]) (use others(2) owners G(5) y(2) in \<open>auto simp: add_ac\<close>)
  moreover have cells_eq: "(\<Sum>k \<in> S. cells ((L(i := G)) k)) + cells (E @ C) = (\<Sum>k \<in> S. cells (L k)) + cells (C @ [y])"
  proof -
    have "cells (G @ E) = cells (y # L i)" by (rule cells_mset [OF G(4)])
    moreover have "(\<Sum>k \<in> S. cells ((L(i := G)) k)) = cells G + (\<Sum>k \<in> S - {i}. cells (L k))"
      using facts(1) owners(1) by (simp add: sum.remove [of S i])
    moreover have "(\<Sum>k \<in> S. cells (L k)) = cells (L i) + (\<Sum>k \<in> S - {i}. cells (L k))"
      using facts(1) owners(1) by (simp add: sum.remove [of S i])
    ultimately show ?thesis by (simp add: add_ac)
  qed
  moreover have mine: "bytes (blocks m) (L k) + X k \<subseteq># bytes (blocks m') ((L(i := G)) k) + (X(j := {#})) k"
    if "k \<in> S" "k \<noteq> j \<or> i = j" for k
    using that others(2) G(5) y(2) by (auto simp: add_ac)
  moreover have "cells (E @ C @ []) + (\<Sum>k \<in> S. cells ((L(i := G)) k)) + room_of m (Some PAGEBLOCK_STORAGE) \<subseteq>#
     bytes (blocks m') ((L(i := G)) (Some PAGEBLOCK_STORAGE)) + (X(j := {#})) (Some PAGEBLOCK_STORAGE)"
  proof (rule subset_mset.order_trans [OF _ mine [OF facts(3)]])
    show "cells (E @ C @ []) + (\<Sum>k \<in> S. cells ((L(i := G)) k)) + room_of m (Some PAGEBLOCK_STORAGE) \<subseteq>#
       bytes (blocks m) (L (Some PAGEBLOCK_STORAGE)) + X (Some PAGEBLOCK_STORAGE)"
      using facts(12) cells_eq by (simp add: add_ac)
  qed (use from_owner in auto)
  moreover have "\<forall>k \<in> S. room_of m k \<subseteq># bytes (blocks m') ((L(i := G)) k) + (X(j := {#})) k"
  proof
    fix k assume k: "k \<in> S"
    show "room_of m k \<subseteq># bytes (blocks m') ((L(i := G)) k) + (X(j := {#})) k"
    proof (cases "k \<noteq> j \<or> i = j")
      case True
      from subset_mset.order_trans [OF facts(13) [OF k] mine [OF k True]] show ?thesis .
    qed (use from_owner in auto)
  qed
  moreover have "\<forall>k \<in> S. k \<noteq> None \<longrightarrow> (\<forall>b \<in># bytes (blocks m') ((L(i := G)) k). accessible m b)"
    using facts(14) others(2) acc y(2) owners(1) G(5) by auto
  ultimately have "arena_inv ?m S (L(i := G)) (E @ C) (X(j := {#})) []"
    unfolding arena_inv_def same
    using facts(1-6,11) G(2,3) by simp
  moreover have "bytes (blocks m') G = bytes (blocks m) (L i) + X j"
    using G(5) y(2) by (simp add: add_ac)
  ultimately show ?thesis
    using others(2) m' by blast
qed

lemma insert_start:
  assumes inv: "arena_inv m S L C X [y]" and i: "i \<in> S" and y: "spans (page_size m) (blocks m y)"
    and alone: "L i = [] \<Longrightarrow> next_block (blocks m y) = 0"
  shows "wp (block_insert_and_coalesce (head_of m i) y) (\<lambda>p m'. inserted m y (L i) C p m') (\<lambda>_. False) m"
proof (rule insert_spec)
  show "path (blocks m) (head_of m i) (L i) 0" "path (blocks m) (recycled_block_structs m) C 0"
    using inv i by (auto simp: arena_inv_def)
  show "distinct (y # L i @ C)" using arena_inv_distinct(1) [OF inv i] by auto
  show "y \<noteq> 0" using arena_inv_positive(2) [OF inv i, of y] by simp
  show "length (L i) < walk_fuel m" by (rule arena_inv_length [OF inv i])
  show "memory_begin (blocks m z) \<le> memory_end (blocks m z)" if "z \<in> set (y # L i)" for z
    using that y arena_inv_parts(10) [OF inv i] by (auto intro: spans_order)
qed (use alone in simp)

lemma insert_inv:
  assumes inv: "arena_inv m S L C X [y]" and owners: "i \<in> S" "j \<in> S"
    and y: "spans (page_size m) (blocks m y)" "X j = ivl (memory_begin (blocks m y)) (memory_end (blocks m y))"
      "L i = [] \<Longrightarrow> next_block (blocks m y) = 0"
    and from_owner: "i = j \<or> room_of m j = {#} \<and> j \<noteq> Some PAGEBLOCK_STORAGE"
    and accessible: "i \<noteq> None \<Longrightarrow> \<forall>b \<in># X j. accessible m b"
  shows "wp (block_insert_and_coalesce (head_of m i) y) (\<lambda>p m'. (\<exists>G C'.
      arena_inv (set_head m' i p) S (L(i := G)) C' (X(j := {#})) [] \<and>
      bytes (blocks m') G = bytes (blocks m) (L i) + X j) \<and>
      (\<forall>k \<in> S - {i}. bytes (blocks m') (L k) = bytes (blocks m) (L k)) \<and>
      m' = m\<lparr>blocks := blocks m', recycled_block_structs := recycled_block_structs m'\<rparr>) (\<lambda>_. False) m"
proof (rule wp_conseq)
  show "wp (block_insert_and_coalesce (head_of m i) y) (\<lambda>p m'. inserted m y (L i) C p m') (\<lambda>_. False) m"
    by (rule insert_start [OF inv owners(1) y(1,3)])
qed (use inserted_inv [OF assms] in blast, simp)

end
