(* ===== verification/ArenaOps.thy ===== *)
theory ArenaOps
  imports ArenaLists
begin

text \<open>
  \<open>arena_push\<close> and \<open>arena_delete\<close> under the invariant of the allocator, statement by statement:
  a range of pages is carved off a free block, gets a descriptor (recycled, or from the
  allocator's own arena, which may grow for it in turn), and goes into the list of its arena; a
  deleted arena hands its blocks to the free list one by one.
\<close>

section \<open>Pages\<close>

definition page_up :: "int \<Rightarrow> u32 \<Rightarrow> int" where
  "page_up ps sz = (uint sz + ps - 1) div ps * ps"

definition sound_size :: "int \<Rightarrow> u32 \<Rightarrow> bool" where
  "sound_size ps sz \<longleftrightarrow> 0 < sz \<and> uint sz + ps \<le> 2 ^ 31"

lemma sound_size_sint: "page_size_ok ps \<Longrightarrow> sound_size ps sz \<Longrightarrow> sint sz = uint sz"
proof -
  assume "page_size_ok ps" "sound_size ps sz"
  then have "0 < ps" "uint sz + ps \<le> 2 ^ 31" by (auto simp: page_size_ok_def sound_size_def)
  then have "uint sz < 2 ^ 31" by linarith
  moreover have "- (2 ^ 31) \<le> uint sz" by (rule order_trans [OF _ uint_ge_0]) simp
  ultimately show ?thesis by (simp add: sint_uint signed_take_bit_int_eq_self_iff)
qed

lemma align_word:
  assumes "0 \<le> u" "u < 2 ^ 31" "k < 31"
  shows "uint ((word_of_int u :: u32) AND NOT (mask k)) = u div 2 ^ k * 2 ^ k"
proof -
  have u: "uint (word_of_int u :: u32) = u" using assms by (simp add: uint_word_of_int take_bit_int_eq_self_iff)
  have "u div 2 ^ k * 2 ^ k \<le> u" "0 \<le> u div 2 ^ k * 2 ^ k"
    using assms(1) pos_mod_sign [of "2 ^ k" u] zmod_le_nonneg_dividend [OF assms(1), of "2 ^ k"] minus_mod_eq_div_mult [of u "2 ^ k", symmetric]
    by (simp_all add: pos_imp_zdiv_nonneg_iff)
  moreover have "(word_of_int u :: u32) AND NOT (mask k) = push_bit k (drop_bit k (word_of_int u))"
    by (rule bit_eqI) (auto simp: bit_simps)
  then have "uint ((word_of_int u :: u32) AND NOT (mask k)) = take_bit 32 (push_bit k (drop_bit k u))"
    by (simp only: unsigned_push_bit_eq unsigned_drop_bit_eq u) (simp add: take_bit_int_eq_self_iff [THEN iffD2] assms(1) less_trans [OF assms(2)])
  ultimately show ?thesis using assms by (simp add: push_bit_eq_mult drop_bit_eq_div take_bit_int_eq_self_iff)
qed

lemma size_in_page_multiples_up:
  assumes "page_size_ok ps" "sound_size ps sz"
  shows "size_in_page_multiples ps sz = page_up ps sz"
proof -
  obtain k where k: "k < 31" "ps = 2 ^ k" using assms(1) by (auto simp: page_size_ok_def)
  have "word_of_int (ps - 1) = (mask k :: u32)"
    using k by (simp add: mask_eq_decr_exp word_of_int_2p)
  moreover have "sz + word_of_int ps - 1 = word_of_int (uint sz + ps - 1)" by simp
  ultimately have eq: "size_in_page_multiples ps sz = sint ((word_of_int (uint sz + ps - 1) :: u32) AND NOT (mask k))"
    by (simp add: size_in_page_multiples_def)
  let ?n = "uint sz + ps - 1"
  have "0 < ps" using k(2) by simp
  then have n: "0 \<le> ?n" "?n < 2 ^ 31" using assms(2) uint_ge_0 [of sz] unfolding sound_size_def by linarith+
  have "?n div ps * ps = ?n - ?n mod ps" by (rule minus_mod_eq_div_mult [symmetric])
  moreover have "0 \<le> ?n div ps" using n(1) \<open>0 < ps\<close> by (simp only: pos_imp_zdiv_nonneg_iff)
  then have "0 \<le> ?n div ps * ps" using \<open>0 < ps\<close> by (intro mult_nonneg_nonneg) simp_all
  ultimately have up: "?n div ps * ps \<le> ?n" "0 \<le> ?n div ps * ps"
    using pos_mod_sign [OF \<open>0 < ps\<close>, of ?n] by linarith+
  have "uint ((word_of_int ?n :: u32) AND NOT (mask k)) = page_up ps sz"
    using align_word [OF n k(1)] k(2) by (simp only: page_up_def)
  with up n show ?thesis
    unfolding eq page_up_def
    by (simp add: sint_uint signed_take_bit_int_eq_self_iff)
qed

lemma page_up_props:
  assumes "page_size_ok ps" "sound_size ps sz"
  shows "ps dvd page_up ps sz" "uint sz \<le> page_up ps sz" "0 < page_up ps sz" "0 < ps" "64 \<le> page_up ps sz"
    "ps dvd n \<Longrightarrow> uint sz \<le> n \<Longrightarrow> page_up ps sz \<le> n"
proof -
  obtain k where k: "6 \<le> k" "ps = 2 ^ k" using assms(1) by (auto simp: page_size_ok_def)
  have "(2::int) ^ 6 \<le> 2 ^ k" using k(1) by (rule power_increasing) simp
  then have ps: "64 \<le> ps" "0 < ps" using k(2) by simp_all
  show "ps dvd page_up ps sz" "0 < ps" by (simp_all add: page_up_def ps)
  have "0 < uint sz" using assms(2) by (simp add: sound_size_def word_less_def)
  have eq: "page_up ps sz = uint sz + ps - 1 - (uint sz + ps - 1) mod ps"
    by (simp add: page_up_def minus_mod_eq_div_mult)
  with pos_mod_bound [OF ps(2), of "uint sz + ps - 1"] show le: "uint sz \<le> page_up ps sz" by simp
  then show pos: "0 < page_up ps sz" using \<open>0 < uint sz\<close> by simp
  show "64 \<le> page_up ps sz" using zdvd_imp_le [OF \<open>ps dvd page_up ps sz\<close> pos] ps by simp
  assume "ps dvd n" "uint sz \<le> n"
  then have "(uint sz + ps - 1) div ps \<le> (n + ps - 1) div ps" by (intro zdiv_mono1) (use ps in simp_all)
  moreover have "(n + ps - 1) div ps = n div ps"
  proof -
    obtain q where "n = ps * q" using \<open>ps dvd n\<close> by (auto simp: dvd_def)
    then have "n + ps - 1 = (ps - 1) + ps * q" by simp
    then have "(n + ps - 1) div ps = (ps - 1) div ps + q" using ps by (simp only: div_mult_self2)
    then show ?thesis using ps \<open>n = ps * q\<close> by (simp add: div_pos_pos_trivial)
  qed
  ultimately show "page_up ps sz \<le> n"
    using \<open>ps dvd n\<close> ps mult_right_mono [of "(uint sz + ps - 1) div ps" "n div ps" ps] by (simp add: page_up_def)
qed

lemma find_fit_member:
  "path h p xs 0 \<Longrightarrow> length xs < n \<Longrightarrow>
   \<exists>b. find_fit n h p amount = Inr b \<and> (b \<noteq> 0 \<longrightarrow> b \<in> set xs \<and> amount \<le> memory_end (h b) - memory_begin (h b)) \<and>
     (b = 0 \<longrightarrow> (\<forall>x\<in>set xs. memory_end (h x) - memory_begin (h x) < amount))"
proof (induction n arbitrary: p xs)
  case (Suc n)
  show ?case
  proof (cases xs)
    case (Cons x ys)
    with Suc.prems have x: "p = x" "x \<noteq> 0" "path h (next_block (h x)) ys 0" "length ys < n" by auto
    obtain b where "find_fit n h (next_block (h x)) amount = Inr b"
        "b \<noteq> 0 \<longrightarrow> b \<in> set ys \<and> amount \<le> memory_end (h b) - memory_begin (h b)"
        "b = 0 \<longrightarrow> (\<forall>x\<in>set ys. memory_end (h x) - memory_begin (h x) < amount)"
      using Suc.IH [OF x(3,4)] by blast
    with x(1,2) show ?thesis by (auto simp: Cons)
  qed (use Suc.prems in auto)
qed simp

lemma size_ivl: "p \<le> q \<Longrightarrow> int (size (ivl p q)) = q - p"
  by (simp add: ivl_def)

section \<open>Claiming a page range\<close>

text \<open>The state after an arena has taken the range from \<open>b\<close> to \<open>e\<close> off a free block.\<close>

definition claimed :: "mem \<Rightarrow> addr option set \<Rightarrow> (addr option \<Rightarrow> addr list) \<Rightarrow> addr \<Rightarrow> addr \<Rightarrow> addr \<Rightarrow> mem \<Rightarrow> bool" where
  "claimed m S L a b e m' \<longleftrightarrow>
     arenas m' = (arenas m)(a := (arenas m a)\<lparr>memory_avail := b, memory_limit := e\<rparr>) \<and>
     accessible m' = (\<lambda>x. b \<le> x \<and> x < e \<or> accessible m x) \<and>
     bytes (blocks m) (L None) = ivl b e + bytes (blocks m') (L None) \<and>
     (\<forall>i \<in> S - {None}. bytes (blocks m') (L i) = bytes (blocks m) (L i)) \<and>
     page_size m' = page_size m \<and> total_page_count m' = total_page_count m \<and> page_memory_start m' = page_memory_start m"

lemma carve_inv:
  assumes inv: "arena_inv m S L C X []" and a: "Some a \<in> S" "X (Some a) = {#}"
    and x: "x \<in> set (L None)" "memory_begin (blocks m x) + n \<le> memory_end (blocks m x)" "0 < n" "page_size m dvd n"
  defines "b \<equiv> memory_begin (blocks m x)"
  defines "m' \<equiv> m\<lparr>blocks := (blocks m)(x := (blocks m x)\<lparr>memory_begin := b + n\<rparr>),
      accessible := (\<lambda>z. b \<le> z \<and> z < b + n \<or> accessible m z),
      arenas := (arenas m)(a := (arenas m a)\<lparr>memory_avail := b, memory_limit := b + n\<rparr>)\<rparr>"
  shows "arena_inv m' S L C (X(Some a := ivl b (b + n))) []" and "claimed m S L a b (b + n) m'"
    and "spans (page_size m) \<lparr>next_block = p, prev_block = q, memory_begin = b, memory_end = b + n\<rparr>"
proof -
  note parts = arena_inv_parts [OF inv]
  let ?h = "blocks m'"
  have h: "?h = (blocks m)(x := (blocks m x)\<lparr>memory_begin := b + n\<rparr>)" by (simp add: m'_def)
  have path: "path ?h p xs q \<longleftrightarrow> path (blocks m) p xs q" for p xs q
    by (rule path_cong) (simp add: h)
  have other: "bytes ?h (L i) = bytes (blocks m) (L i)" if "i \<in> S" "i \<noteq> None" for i
  proof -
    have "x \<notin> set (L i)" using arena_inv_distinct(2) [OF inv parts(2) that(1)] that(2) x(1) by auto
    then show ?thesis by (simp add: h)
  qed
  have free: "bytes (blocks m) (L None) = ivl b (b + n) + bytes ?h (L None)"
  proof -
    obtain xs ys where L: "L None = xs @ x # ys" using x(1) by (auto dest: split_list)
    then have "x \<notin> set xs" "x \<notin> set ys" using arena_inv_distinct(1) [OF inv parts(2)] by auto
    then show ?thesis
      using ivl_join [of b "b + n" "memory_end (blocks m x)"] x(2,3) by (simp add: L h b_def add_ac)
  qed
  have span: "spans (page_size m) (blocks m x)" by (rule parts(10) [OF parts(2) x(1)])
  then show "spans (page_size m) \<lparr>next_block = p, prev_block = q, memory_begin = b, memory_end = b + n\<rparr>"
    using x(3,4) by (simp add: spans_def b_def)
  have spans: "spans (page_size m) (?h z)" if "i \<in> S" "z \<in> set (L i)" for i z
    using parts(10) [OF that] span x(2,4) by (simp add: h spans_def b_def)
  have room: "room_of m' i = (if i = Some a then ivl b (b + n) else room_of m i)" for i
    by (cases i) (auto simp: room_of_def m'_def room_def)
  have head: "head_of m' i = head_of m i" for i
    by (cases i) (auto simp: head_of_def m'_def)
  have "(\<Sum>i \<in> S. bytes ?h (L i) + (X(Some a := ivl b (b + n))) i) = (\<Sum>i \<in> S. bytes (blocks m) (L i) + X i)"
    by (rule sum_shift [OF parts(1,2) a(1)]) (use other free a in \<open>auto simp: add_ac\<close>)
  moreover have "room_of m' i \<subseteq># bytes ?h (L i) + (X(Some a := ivl b (b + n))) i" if "i \<in> S" for i
  proof (cases "i = None")
    case False
    then show ?thesis using parts(13) [OF that] other [OF that] a(2) by (simp add: room)
  qed (simp add: room_of_def)
  moreover have "cells (C @ []) + (\<Sum>i \<in> S. cells (L i)) + room_of m' (Some PAGEBLOCK_STORAGE) \<subseteq>#
       bytes ?h (L (Some PAGEBLOCK_STORAGE)) + (X(Some a := ivl b (b + n))) (Some PAGEBLOCK_STORAGE)"
  proof (cases "a = PAGEBLOCK_STORAGE")
    case True
    with parts(12) other [OF parts(3)] a(2) show ?thesis
      by (auto simp: room intro: subset_mset.order_trans [rotated])
  next
    case False
    with parts(12) other [OF parts(3)] show ?thesis by (simp add: room)
  qed
  moreover have "accessible m' z" if "i \<in> S" "i \<noteq> None" "z \<in># bytes ?h (L i)" for i z
    using parts(14) [OF that(1,2)] other [OF that(1,2)] that(3) by (auto simp: m'_def)
  ultimately show "arena_inv m' S L C (X(Some a := ivl b (b + n))) []"
    using parts(1-9,11) spans a(1)
    by (simp add: arena_inv_def path head) (auto simp: m'_def region_def)
  show "claimed m S L a b (b + n) m'"
    using free other by (auto simp: claimed_def m'_def)
qed

text \<open>The stretches of \<open>arena_push\<close> that take a range off a free block and that file its descriptor.\<close>

abbreviation claim :: "os \<Rightarrow> addr \<Rightarrow> u32 \<Rightarrow> (addr \<Rightarrow> addr \<Rightarrow> (mem, 'a) cmd) \<Rightarrow> (mem, 'a) cmd" where
  "claim os a sz k \<equiv>
     bnd (find_block_first_fit (sint sz)) (\<lambda>free_block. if free_block = 0 then fail Out_of_memory
     else bnd (alloc_block_range free_block sz) (\<lambda>(b, e). bnd (mprotect os b (e - b) True) (\<lambda>_.
       bnd (upd_arena a (\<lambda>a. a\<lparr>memory_avail := b\<rparr>)) (\<lambda>_. bnd (upd_arena a (\<lambda>a. a\<lparr>memory_limit := e\<rparr>)) (\<lambda>_. k b e)))))"

abbreviation link_page :: "addr \<Rightarrow> addr \<Rightarrow> addr \<Rightarrow> addr \<Rightarrow> (mem, addr) cmd" where
  "link_page a b e y \<equiv>
     bnd (upd_block y (\<lambda>b'. b'\<lparr>memory_begin := b\<rparr>)) (\<lambda>_.
     bnd (upd_block y (\<lambda>b'. b'\<lparr>memory_end := e\<rparr>)) (\<lambda>_.
     bnd (gets (\<lambda>m. owned_pages (arenas m a))) (\<lambda>owned.
     bnd (block_insert_and_coalesce owned y) (\<lambda>owned'.
     bnd (upd_arena a (\<lambda>a. a\<lparr>owned_pages := owned'\<rparr>)) (\<lambda>_.
     gets (\<lambda>m. memory_avail (arenas m a)))))))"

text \<open>
  The failures that are allowed: the system refuses to change the protection of a range in \<open>M\<close>, or there
  is no memory, which means that no free block is large enough.
\<close>

definition protection_refused :: "os \<Rightarrow> bool \<Rightarrow> addr multiset \<Rightarrow> failure \<Rightarrow> bool" where
  "protection_refused os rw M f \<longleftrightarrow>
     f = Error_exit 0 ''mprotect'' '''' \<and> (\<exists>b len. \<not> os_mprotect os b len rw \<and> ivl b (b + len) \<subseteq># M)"

definition too_small :: "mem \<Rightarrow> addr list \<Rightarrow> u32 \<Rightarrow> bool" where
  "too_small m xs sz \<longleftrightarrow> (\<forall>x \<in> set xs. memory_end (blocks m x) - memory_begin (blocks m x) < uint sz)"

definition storage_refused :: "os \<Rightarrow> addr multiset \<Rightarrow> failure \<Rightarrow> bool" where
  "storage_refused os M f \<longleftrightarrow> protection_refused os True M f \<or> f = Out_of_memory \<and> M = {#}"

definition push_refused :: "os \<Rightarrow> mem \<Rightarrow> (addr option \<Rightarrow> addr list) \<Rightarrow> u32 \<Rightarrow> failure \<Rightarrow> bool" where
  "push_refused os m L sz f \<longleftrightarrow> protection_refused os True (bytes (blocks m) (L None)) f \<or>
     f = Out_of_memory \<and> (too_small m (L None) sz \<or> int (size (bytes (blocks m) (L None))) = page_up (page_size m) sz)"

lemma protection_refused_mono: "protection_refused os rw M f \<Longrightarrow> M \<subseteq># N \<Longrightarrow> protection_refused os rw N f"
  unfolding protection_refused_def by (meson subset_mset.order_trans)

text \<open>Free blocks that cannot hold a descriptor are empty.\<close>

lemma too_small_empty:
  assumes "page_size_ok ps" "uint sz \<le> 64"
  shows "\<forall>x \<in> set xs. spans ps (blocks m x) \<Longrightarrow> too_small m xs sz \<Longrightarrow> bytes (blocks m) xs = {#}"
proof (induction xs)
  case (Cons x xs)
  let ?n = "memory_end (blocks m x) - memory_begin (blocks m x)"
  obtain k where k: "6 \<le> k" "ps = 2 ^ k" using assms(1) by (auto simp: page_size_ok_def)
  have "(2::int) ^ 6 \<le> 2 ^ k" using k(1) by (rule power_increasing) simp
  then have "64 \<le> ps" using k(2) by simp
  moreover have "ps dvd ?n" "?n < uint sz" using Cons.prems by (simp_all add: spans_def too_small_def)
  ultimately have "?n \<le> 0" using assms(2) zdvd_imp_le [of ps ?n] by linarith
  then have "ivl (memory_begin (blocks m x)) (memory_end (blocks m x)) = {#}" by (simp add: ivl_def)
  with Cons show ?case by (simp add: too_small_def)
qed simp

lemma alloc_block_range_eq:
  assumes "page_size_ok (page_size m)" "sound_size (page_size m) sz" "spans (page_size m) (blocks m x)"
    and "uint sz \<le> memory_end (blocks m x) - memory_begin (blocks m x)"
  defines "b \<equiv> memory_begin (blocks m x)" and "n \<equiv> page_up (page_size m) sz"
  shows "b + n \<le> memory_end (blocks m x)"
    and "alloc_block_range x sz m = Inr ((b, b + n), m\<lparr>blocks := (blocks m)(x := (blocks m x)\<lparr>memory_begin := b + n\<rparr>)\<rparr>)"
proof -
  have "page_size m dvd memory_end (blocks m x) - memory_begin (blocks m x)"
    using assms(3) by (simp add: spans_def)
  from page_up_props(6) [OF assms(1,2) this assms(4)] show le: "b + n \<le> memory_end (blocks m x)"
    by (simp add: b_def n_def)
  then show "alloc_block_range x sz m = Inr ((b, b + n), m\<lparr>blocks := (blocks m)(x := (blocks m x)\<lparr>memory_begin := b + n\<rparr>)\<rparr>)"
    using size_in_page_multiples_up [OF assms(1,2)]
    by (auto simp: alloc_block_range_def bnd_def gets_def upd_block_def modify_def ret_def b_def n_def algebra_simps)
qed

lemma wp_mprotect_on:
  "wp (mprotect os b len True) Q E m \<longleftrightarrow>
     (if os_mprotect os b len True then Q () (m\<lparr>accessible := (\<lambda>z. b \<le> z \<and> z < b + len \<or> accessible m z)\<rparr>)
      else E (Error_exit 0 ''mprotect'' ''''))"
proof -
  have "(\<lambda>z. if b \<le> z \<and> z < b + len then True else accessible m z) = (\<lambda>z. b \<le> z \<and> z < b + len \<or> accessible m z)"
    by auto
  then show ?thesis by (simp only: mprotect_def wp_simps if_True if_False split: if_split)
qed

lemma claim_wp:
  assumes inv: "arena_inv m S L C X []" and a: "Some a \<in> S" "X (Some a) = {#}"
    and sz: "sound_size (page_size m) sz"
    and rest: "\<And>b m'. arena_inv m' S L C (X(Some a := ivl b (b + page_up (page_size m) sz))) [] \<Longrightarrow>
      claimed m S L a b (b + page_up (page_size m) sz) m' \<Longrightarrow> page_size m dvd b \<Longrightarrow>
      wp (k b (b + page_up (page_size m) sz)) Q E m'"
    and E: "\<And>f. protection_refused os True (bytes (blocks m) (L None)) f \<Longrightarrow> E f"
      "too_small m (L None) sz \<Longrightarrow> E Out_of_memory"
  shows "wp (claim os a sz k) Q E m"
proof -
  note parts = arena_inv_parts [OF inv]
  note ok = parts(5)
  have sint: "sint sz = uint sz" by (rule sound_size_sint [OF ok sz])
  obtain x where x: "find_fit (walk_fuel m) (blocks m) (block_freelist_head m) (uint sz) = Inr x"
    "x \<noteq> 0 \<Longrightarrow> x \<in> set (L None)" "x \<noteq> 0 \<Longrightarrow> uint sz \<le> memory_end (blocks m x) - memory_begin (blocks m x)"
    "x = 0 \<Longrightarrow> too_small m (L None) sz"
    using find_fit_member [OF parts(9) [OF parts(2)] arena_inv_length [OF inv parts(2)], of "uint sz"]
    by (auto simp: head_of_def too_small_def)
  show ?thesis
  proof (cases "x = 0")
    case True
    with x(1,4) E(2) show ?thesis
      by (simp add: find_block_first_fit_def wp_lift_state wp_bnd wp_fail sint)
  next
    case False
    let ?n = "page_up (page_size m) sz" and ?b = "memory_begin (blocks m x)"
    have span: "spans (page_size m) (blocks m x)" by (rule parts(10) [OF parts(2) x(2) [OF False]])
    note alloc = alloc_block_range_eq [OF ok sz span x(3) [OF False]]
    note carve = carve_inv [OF inv a x(2) [OF False] alloc(1) page_up_props(3) [OF ok sz] page_up_props(1) [OF ok sz]]
    have "page_size m dvd ?b" using span by (simp add: spans_def)
    note rest [OF carve(1,2) this]
    moreover have "ivl ?b (?b + ?n) \<subseteq># bytes (blocks m) (L None)" using carve(2) by (simp add: claimed_def)
    then have "E (Error_exit 0 ''mprotect'' '''')" if "\<not> os_mprotect os ?b ?n True"
      using that by (intro E(1)) (auto simp: protection_refused_def)
    ultimately show ?thesis
      using x(1) False
      by (auto simp: find_block_first_fit_def wp_lift_state wp_bnd sint wp_def [of "alloc_block_range x sz"] alloc(2)
          wp_mprotect_on upd_arena_def wp_simps)
  qed
qed

section \<open>Descriptors\<close>

text \<open>A descriptor that is in no list can be written to.\<close>

lemma scratch_inv:
  assumes inv: "arena_inv m S L C X [y]"
  shows "arena_inv (m\<lparr>blocks := (blocks m)(y := v)\<rparr>) S L C X [y]"
    and "i \<in> S \<Longrightarrow> bytes ((blocks m)(y := v)) (L i) = bytes (blocks m) (L i)"
proof -
  let ?m = "m\<lparr>blocks := (blocks m)(y := v)\<rparr>"
  have y: "y \<notin> set (L i)" "y \<notin> set C" if "i \<in> S" for i
    using arena_inv_distinct(1) [OF inv that] by auto
  note parts = arena_inv_parts [OF inv]
  have "head_of ?m i = head_of m i" "room_of ?m i = room_of m i" "region ?m = region m" for i
    by (auto simp: head_of_def room_of_def region_def split: option.split)
  moreover have "(\<Sum>i \<in> S. bytes ((blocks m)(y := v)) (L i) + X i) = (\<Sum>i \<in> S. bytes (blocks m) (L i) + X i)"
    by (rule sum.cong) (simp_all add: y)
  ultimately show "arena_inv ?m S L C X [y]"
    using parts y y(2) [OF parts(2)] y(1) [OF parts(3)]
    by (auto simp: arena_inv_def)
  show "i \<in> S \<Longrightarrow> bytes ((blocks m)(y := v)) (L i) = bytes (blocks m) (L i)" by (simp add: y)
qed

definition same_memory :: "mem \<Rightarrow> mem \<Rightarrow> bool" where
  "same_memory m m' \<longleftrightarrow> accessible m' = accessible m \<and> page_size m' = page_size m \<and>
     total_page_count m' = total_page_count m \<and> page_memory_start m' = page_memory_start m"

text \<open>Room given away: to a client, or to a new descriptor.\<close>

lemma room_inv:
  assumes inv: "arena_inv m S L C X []" and a: "Some a \<in> S" "memory_avail (arenas m a) + n \<le> memory_limit (arenas m a)" "0 \<le> n"
  defines "m' \<equiv> m\<lparr>arenas := (arenas m)(a := (arenas m a)\<lparr>memory_avail := memory_avail (arenas m a) + n\<rparr>)\<rparr>"
  shows "a \<noteq> PAGEBLOCK_STORAGE \<Longrightarrow> arena_inv m' S L C X []"
    and "a = PAGEBLOCK_STORAGE \<Longrightarrow> n = SIZEOF_PAGEBLOCK \<Longrightarrow> arena_inv m' S L C X [memory_avail (arenas m a)]"
proof -
  note parts = arena_inv_parts [OF inv]
  let ?p = "memory_avail (arenas m a)" and ?l = "memory_limit (arenas m a)"
  have other: "head_of m' i = head_of m i" "region m' = region m" "blocks m' = blocks m"
    "recycled_block_structs m' = recycled_block_structs m" "accessible m' = accessible m" "page_size m' = page_size m"
    "page_memory_start m' = page_memory_start m" for i
    by (auto simp: m'_def head_of_def region_def split: option.split)
  have unused: "arenas m' b = zero_arena" if "Some b \<notin> S" for b
    using parts(7) [OF that] that a(1) by (auto simp: m'_def)
  have room: "room_of m' i = (if i = Some a then ivl (?p + n) ?l else room_of m i)" for i
    by (cases i) (auto simp: room_of_def m'_def room_def)
  have less: "room_of m' i \<subseteq># room_of m i" for i
    using a(3) ivl_subset [of ?p "?p + n" ?l ?l] by (simp add: room) (simp add: room_of_def room_def)
  then have rooms: "room_of m' i \<subseteq># bytes (blocks m) (L i) + X i" if "i \<in> S" for i
    using parts(13) [OF that] subset_mset.order_trans by blast
  show "arena_inv m' S L C X []" if "a \<noteq> PAGEBLOCK_STORAGE"
    using parts rooms unused that by (auto simp: arena_inv_def other room)
  show "arena_inv m' S L C X [?p]" if "a = PAGEBLOCK_STORAGE" "n = SIZEOF_PAGEBLOCK"
  proof -
    have "room_of m (Some a) = ivl ?p (?p + n) + ivl (?p + n) ?l"
      using a(2,3) ivl_join [of ?p "?p + n" ?l] by (simp add: room_of_def room_def)
    with parts(12) that have "cells (C @ [?p]) + (\<Sum>i \<in> S. cells (L i)) + room_of m' (Some PAGEBLOCK_STORAGE) \<subseteq>#
        bytes (blocks m) (L (Some PAGEBLOCK_STORAGE)) + X (Some PAGEBLOCK_STORAGE)"
      by (simp add: room add_ac)
    then show ?thesis
      using parts rooms unused by (auto simp: arena_inv_def other)
  qed
qed

lemma get_new_wp:
  assumes inv: "arena_inv m S L C X []"
    and recycled: "\<And>c C' m1. arena_inv m1 S L C' X [c] \<Longrightarrow> blocks m1 c = zero_block \<Longrightarrow> arenas m1 = arenas m \<Longrightarrow>
        same_memory m m1 \<Longrightarrow> (\<And>i. i \<in> S \<Longrightarrow> bytes (blocks m1) (L i) = bytes (blocks m) (L i)) \<Longrightarrow> Q c m1"
    and fresh: "wp (g (word_of_int SIZEOF_PAGEBLOCK)) (\<lambda>y m1. Q y (m1\<lparr>blocks := (blocks m1)(y := zero_block)\<rparr>)) E m"
  shows "wp (get_new_block_struct g) Q E m"
proof (cases "C = []")
  case True
  then have "recycled_block_structs m = 0" using arena_inv_parts(8) [OF inv] by simp
  moreover have "wp (g (word_of_int SIZEOF_PAGEBLOCK)) (\<lambda>y. wp (bnd (upd_block y (\<lambda>_. zero_block)) (\<lambda>_. ret y)) Q E) E m"
    by (rule wp_conseq [OF fresh]) (simp_all add: wp_simps upd_block_def)
  ultimately show ?thesis by (simp add: get_new_block_struct_def wp_simps)
next
  case False
  then obtain c C' where C: "C = c # C'" by (cases C) auto
  note parts = arena_inv_parts [OF inv]
  have c: "recycled_block_structs m = c" "c \<noteq> 0" "path (blocks m) (next_block (blocks m c)) C' 0"
    using parts(8) C by auto
  let ?m = "m\<lparr>recycled_block_structs := next_block (blocks m c)\<rparr>"
  have "head_of ?m i = head_of m i" "room_of ?m i = room_of m i" "region ?m = region m" for i
    by (auto simp: head_of_def room_of_def region_def split: option.split)
  with parts c have "arena_inv ?m S L C' X [c]" by (auto simp: arena_inv_def C add_ac)
  from scratch_inv(1) [OF this, of zero_block] scratch_inv(2) [OF this, where v = zero_block]
  have "Q c (?m\<lparr>blocks := (blocks ?m)(c := zero_block)\<rparr>)"
    by (intro recycled) (auto simp: same_memory_def)
  with c show ?thesis by (simp add: get_new_block_struct_def wp_simps upd_block_def)
qed

text \<open>A claimed range goes with its descriptor into the list of the arena.\<close>

lemma link_wp:
  assumes inv: "arena_inv m S L C X [y]" and a: "Some a \<in> S" "X (Some a) = ivl b e"
    and y: "blocks m y = zero_block" and span: "b \<le> e" "page_size m dvd b" "page_size m dvd e"
    and acc: "\<And>z. b \<le> z \<Longrightarrow> z < e \<Longrightarrow> accessible m z"
    and Q: "\<And>G C' m'. arena_inv m' S (L(Some a := G)) C' (X(Some a := {#})) [] \<Longrightarrow>
        bytes (blocks m') G = bytes (blocks m) (L (Some a)) + ivl b e \<Longrightarrow>
        (\<And>i. i \<in> S \<Longrightarrow> i \<noteq> Some a \<Longrightarrow> bytes (blocks m') (L i) = bytes (blocks m) (L i)) \<Longrightarrow>
        (\<And>c. c \<noteq> a \<Longrightarrow> arenas m' c = arenas m c) \<Longrightarrow> memory_avail (arenas m' a) = memory_avail (arenas m a) \<Longrightarrow>
        memory_limit (arenas m' a) = memory_limit (arenas m a) \<Longrightarrow>
        same_memory m m' \<Longrightarrow> Q (memory_avail (arenas m a)) m'"
  shows "wp (link_page a b e y) Q E m"
proof -
  let ?v = "zero_block\<lparr>memory_begin := b, memory_end := e\<rparr>"
  let ?m = "m\<lparr>blocks := (blocks m)(y := ?v)\<rparr>"
  have inv1: "arena_inv ?m S L C X [y]" by (rule scratch_inv(1) [OF inv])
  have head: "head_of ?m (Some a) = owned_pages (arenas m a)" by (simp add: head_of_def)
  have ins: "wp (block_insert_and_coalesce (head_of ?m (Some a)) y) (\<lambda>p m'. (\<exists>G C'.
      arena_inv (set_head m' (Some a) p) S (L(Some a := G)) C' (X(Some a := {#})) [] \<and>
      bytes (blocks m') G = bytes (blocks ?m) (L (Some a)) + X (Some a)) \<and>
      (\<forall>k \<in> S - {Some a}. bytes (blocks m') (L k) = bytes (blocks ?m) (L k)) \<and>
      m' = ?m\<lparr>blocks := blocks m', recycled_block_structs := recycled_block_structs m'\<rparr>) (\<lambda>_. False) ?m"
    by (rule insert_inv [OF inv1 a(1) a(1)])
      (use a span acc in \<open>auto simp: spans_def zero_block_def ivl_def\<close>)
  have "wp (block_insert_and_coalesce (owned_pages (arenas m a)) y) (\<lambda>p m'.
      wp (bnd (upd_arena a (\<lambda>a. a\<lparr>owned_pages := p\<rparr>)) (\<lambda>_. gets (\<lambda>m. memory_avail (arenas m a)))) Q E m') E ?m"
  proof (rule wp_conseq [OF ins [unfolded head]])
    fix p m'
    assume post: "(\<exists>G C'. arena_inv (set_head m' (Some a) p) S (L(Some a := G)) C' (X(Some a := {#})) [] \<and>
        bytes (blocks m') G = bytes (blocks ?m) (L (Some a)) + X (Some a)) \<and>
      (\<forall>k \<in> S - {Some a}. bytes (blocks m') (L k) = bytes (blocks ?m) (L k)) \<and>
      m' = ?m\<lparr>blocks := blocks m', recycled_block_structs := recycled_block_structs m'\<rparr>"
    then obtain G C' where inv': "arena_inv (set_head m' (Some a) p) S (L(Some a := G)) C' (X(Some a := {#})) []"
      and G: "bytes (blocks m') G = bytes (blocks m) (L (Some a)) + ivl b e"
      using scratch_inv(2) [OF inv a(1)] a(2) by auto
    have m': "m' = ?m\<lparr>blocks := blocks m', recycled_block_structs := recycled_block_structs m'\<rparr>" using post by blast
    then have fields: "arenas m' = arenas m" "accessible m' = accessible m" "page_size m' = page_size m"
      "total_page_count m' = total_page_count m" "page_memory_start m' = page_memory_start m"
      by (metis (no_types, lifting) mem.simps mem.select_convs mem.surjective mem.update_convs)+
    have "Q (memory_avail (arenas m a)) (set_head m' (Some a) p)"
      by (rule Q [OF inv'])
        (use G fields post scratch_inv(2) [OF inv] in \<open>auto simp: set_head_def same_memory_def\<close>)
    then show "wp (bnd (upd_arena a (\<lambda>a. a\<lparr>owned_pages := p\<rparr>)) (\<lambda>_. gets (\<lambda>m. memory_avail (arenas m a)))) Q E m'"
      by (simp add: upd_arena_def wp_simps set_head_def fields)
  qed simp
  then show ?thesis by (simp add: upd_block_def wp_simps wp_bnd_fun y)
qed

section \<open>arena\_push\<close>

text \<open>Up to the nested request for a descriptor, nothing changes but the free list and the allocator's own arena.\<close>

definition grown :: "mem \<Rightarrow> addr option set \<Rightarrow> (addr option \<Rightarrow> addr list) \<Rightarrow> mem \<Rightarrow> (addr option \<Rightarrow> addr list) \<Rightarrow> bool" where
  "grown m S L m' L' \<longleftrightarrow>
     (\<forall>a. a \<noteq> PAGEBLOCK_STORAGE \<longrightarrow> arenas m' a = arenas m a) \<and>
     (\<forall>i \<in> S. i \<noteq> None \<and> i \<noteq> Some PAGEBLOCK_STORAGE \<longrightarrow> bytes (blocks m') (L' i) = bytes (blocks m) (L i)) \<and>
     bytes (blocks m') (L' None) \<subseteq># bytes (blocks m) (L None) \<and>
     bytes (blocks m) (L (Some PAGEBLOCK_STORAGE)) \<subseteq># bytes (blocks m') (L' (Some PAGEBLOCK_STORAGE)) \<and>
     (\<forall>z. accessible m z \<longrightarrow> accessible m' z) \<and>
     page_size m' = page_size m \<and> total_page_count m' = total_page_count m \<and> page_memory_start m' = page_memory_start m"

lemma push_in_room:
  assumes "0 < sz" "\<not> memory_avail (arenas m a) + uint sz \<ge> memory_limit (arenas m a)"
  shows "arena_push_level (Suc n) os a sz m = Inr (memory_avail (arenas m a),
     m\<lparr>arenas := (arenas m)(a := (arenas m a)\<lparr>memory_avail := memory_avail (arenas m a) + uint sz\<rparr>)\<rparr>)"
  using assms by (simp add: bnd_def assert_cmd_def gets_def ret_def upd_arena_def modify_def)

lemma push_beyond_room:
  assumes "0 < sz" "memory_avail (arenas m a) + uint sz \<ge> memory_limit (arenas m a)"
    and "wp (claim os a sz (\<lambda>b e. bnd (get_new_block_struct (arena_push_level n os PAGEBLOCK_STORAGE)) (link_page a b e)))
      (\<lambda>p m'. Q p (m'\<lparr>arenas := (arenas m')(a := (arenas m' a)\<lparr>memory_avail := p + uint sz\<rparr>)\<rparr>)) E m"
  shows "wp (arena_push_level (Suc n) os a sz) Q E m"
proof -
  have tail: "wp (bnd (upd_arena a (\<lambda>a. a\<lparr>memory_avail := p + uint sz\<rparr>)) (\<lambda>_. ret p)) Q E =
      (\<lambda>m'. Q p (m'\<lparr>arenas := (arenas m')(a := (arenas m' a)\<lparr>memory_avail := p + uint sz\<rparr>)\<rparr>))" for p
    by (auto simp: upd_arena_def wp_simps)
  show ?thesis
    using assms by (simp add: wp_simps tail)
qed

lemma descriptor_room: "uint (word_of_int SIZEOF_PAGEBLOCK :: u32) = SIZEOF_PAGEBLOCK" "0 < (word_of_int SIZEOF_PAGEBLOCK :: u32)"
  "page_size_ok ps \<Longrightarrow> sound_size ps (word_of_int SIZEOF_PAGEBLOCK)"
proof -
  show "uint (word_of_int SIZEOF_PAGEBLOCK :: u32) = SIZEOF_PAGEBLOCK" "0 < (word_of_int SIZEOF_PAGEBLOCK :: u32)"
    by (simp_all add: SIZEOF_PAGEBLOCK_def)
  assume "page_size_ok ps"
  then obtain k where "k \<le> 30" "ps = 2 ^ k" by (auto simp: page_size_ok_def)
  then have "ps \<le> 2 ^ 30" using power_increasing [of k 30 "2::int"] by simp
  then show "sound_size ps (word_of_int SIZEOF_PAGEBLOCK)" by (simp add: sound_size_def SIZEOF_PAGEBLOCK_def)
qed

text \<open>A descriptor from an allocator's arena that has room for it, or from the recycled ones.\<close>

lemma descriptor_wp:
  assumes inv: "arena_inv m S L C X []"
    and room: "memory_avail (arenas m PAGEBLOCK_STORAGE) + SIZEOF_PAGEBLOCK < memory_limit (arenas m PAGEBLOCK_STORAGE)"
    and Q: "\<And>y m' C'. arena_inv m' S L C' X [y] \<Longrightarrow> blocks m' y = zero_block \<Longrightarrow> same_memory m m' \<Longrightarrow>
      (\<And>i. i \<in> S \<Longrightarrow> bytes (blocks m') (L i) = bytes (blocks m) (L i)) \<Longrightarrow>
      (\<And>a. a \<noteq> PAGEBLOCK_STORAGE \<Longrightarrow> arenas m' a = arenas m a) \<Longrightarrow>
      memory_avail (arenas m' PAGEBLOCK_STORAGE) \<le> memory_avail (arenas m PAGEBLOCK_STORAGE) + SIZEOF_PAGEBLOCK \<Longrightarrow>
      memory_limit (arenas m' PAGEBLOCK_STORAGE) = memory_limit (arenas m PAGEBLOCK_STORAGE) \<Longrightarrow> Q y m'"
  shows "wp (get_new_block_struct (arena_push_level (Suc n) os PAGEBLOCK_STORAGE)) Q E m"
proof (rule get_new_wp [OF inv])
  let ?p = "memory_avail (arenas m PAGEBLOCK_STORAGE)"
  let ?m = "m\<lparr>arenas := (arenas m)(PAGEBLOCK_STORAGE := (arenas m PAGEBLOCK_STORAGE)\<lparr>memory_avail := ?p + SIZEOF_PAGEBLOCK\<rparr>)\<rparr>"
  have push: "arena_push_level (Suc n) os PAGEBLOCK_STORAGE (word_of_int SIZEOF_PAGEBLOCK) m = Inr (?p, ?m)"
    using push_in_room [OF descriptor_room(2), of m PAGEBLOCK_STORAGE n os] room by (simp add: descriptor_room(1))
  have "0 \<le> SIZEOF_PAGEBLOCK" by (simp add: SIZEOF_PAGEBLOCK_def)
  with room_inv(2) [OF inv arena_inv_parts(3) [OF inv], of SIZEOF_PAGEBLOCK] room
  have inv1: "arena_inv ?m S L C X [?p]" by simp
  have "Q ?p (?m\<lparr>blocks := (blocks ?m)(?p := zero_block)\<rparr>)"
    by (rule Q [OF scratch_inv(1) [OF inv1]])
      (use scratch_inv(2) [OF inv1, where v = zero_block] in \<open>auto simp: same_memory_def\<close>)
  with push show "wp (arena_push_level (Suc n) os PAGEBLOCK_STORAGE (word_of_int SIZEOF_PAGEBLOCK))
      (\<lambda>y m1. Q y (m1\<lparr>blocks := (blocks m1)(y := zero_block)\<rparr>)) E m"
    by (simp add: wp_def del: arena_push_level.simps)
qed (rule Q; simp add: SIZEOF_PAGEBLOCK_def)


text \<open>The allocator's own arena, full or not, yields a new descriptor.\<close>

lemma storage_push:
  assumes inv: "arena_inv m S L C X []" and own: "X (Some PAGEBLOCK_STORAGE) = {#}"
  shows "wp (arena_push_level (Suc (Suc n)) os PAGEBLOCK_STORAGE (word_of_int SIZEOF_PAGEBLOCK))
    (\<lambda>y m'. \<exists>L' C'. arena_inv m' S L' C' X [y] \<and> grown m S L m' L') (storage_refused os (bytes (blocks m) (L None))) m" (is "wp _ ?Q _ _")
proof (cases "memory_avail (arenas m PAGEBLOCK_STORAGE) + SIZEOF_PAGEBLOCK \<ge> memory_limit (arenas m PAGEBLOCK_STORAGE)")
  case False
  let ?p = "memory_avail (arenas m PAGEBLOCK_STORAGE)"
  have "0 \<le> SIZEOF_PAGEBLOCK" by (simp add: SIZEOF_PAGEBLOCK_def)
  with room_inv(2) [OF inv arena_inv_parts(3) [OF inv], of SIZEOF_PAGEBLOCK] False
  have "?Q ?p (m\<lparr>arenas := (arenas m)(PAGEBLOCK_STORAGE := (arenas m PAGEBLOCK_STORAGE)\<lparr>memory_avail := ?p + SIZEOF_PAGEBLOCK\<rparr>)\<rparr>)"
    by (intro exI [of _ L] exI [of _ C]) (simp add: grown_def)
  with push_in_room [OF descriptor_room(2), of m PAGEBLOCK_STORAGE "Suc n" os] False show ?thesis
    by (simp add: wp_def descriptor_room(1) del: arena_push_level.simps)
next
  case True
  note parts = arena_inv_parts [OF inv]
  note sound = descriptor_room(3) [OF parts(5)]
  let ?n = "page_up (page_size m) (word_of_int SIZEOF_PAGEBLOCK)"
  note up = page_up_props [OF parts(5) sound]
  let ?E = "storage_refused os (bytes (blocks m) (L None))"
  let ?Q' = "\<lambda>p m'. ?Q p (m'\<lparr>arenas := (arenas m')(PAGEBLOCK_STORAGE := (arenas m' PAGEBLOCK_STORAGE)
          \<lparr>memory_avail := p + uint (word_of_int SIZEOF_PAGEBLOCK :: u32)\<rparr>)\<rparr>)"
  have "wp (claim os PAGEBLOCK_STORAGE (word_of_int SIZEOF_PAGEBLOCK) (\<lambda>b e.
      bnd (get_new_block_struct (arena_push_level (Suc n) os PAGEBLOCK_STORAGE)) (link_page PAGEBLOCK_STORAGE b e))) ?Q' ?E m"
  proof (rule claim_wp [OF inv parts(3) own sound])
    fix b m1
    let ?X = "X(Some PAGEBLOCK_STORAGE := ivl b (b + ?n))"
    assume inv1: "arena_inv m1 S L C ?X []" and claimed: "claimed m S L PAGEBLOCK_STORAGE b (b + ?n) m1"
      and b: "page_size m dvd b"
    have "memory_avail (arenas m1 PAGEBLOCK_STORAGE) + SIZEOF_PAGEBLOCK < memory_limit (arenas m1 PAGEBLOCK_STORAGE)"
      using claimed up(5) by (simp add: claimed_def SIZEOF_PAGEBLOCK_def)
    then show "wp (bnd (get_new_block_struct (arena_push_level (Suc n) os PAGEBLOCK_STORAGE))
        (link_page PAGEBLOCK_STORAGE b (b + ?n))) ?Q' ?E m1"
      unfolding wp_bnd [of "get_new_block_struct _"]
    proof (rule descriptor_wp [OF inv1])
      fix y m2 C2
      assume inv2: "arena_inv m2 S L C2 ?X [y]" and zero: "blocks m2 y = zero_block" and same: "same_memory m1 m2"
        and bytes2: "\<And>i. i \<in> S \<Longrightarrow> bytes (blocks m2) (L i) = bytes (blocks m1) (L i)"
        and arenas2: "\<And>a. a \<noteq> PAGEBLOCK_STORAGE \<Longrightarrow> arenas m2 a = arenas m1 a"
        and avail: "memory_avail (arenas m2 PAGEBLOCK_STORAGE) \<le> memory_avail (arenas m1 PAGEBLOCK_STORAGE) + SIZEOF_PAGEBLOCK"
        and limit: "memory_limit (arenas m2 PAGEBLOCK_STORAGE) = memory_limit (arenas m1 PAGEBLOCK_STORAGE)"
      show "wp (link_page PAGEBLOCK_STORAGE b (b + ?n) y) ?Q' ?E m2"
      proof (rule link_wp [OF inv2 parts(3)])
        fix G C3 m3
        let ?p = "memory_avail (arenas m2 PAGEBLOCK_STORAGE)"
        assume inv3: "arena_inv m3 S (L(Some PAGEBLOCK_STORAGE := G)) C3 (?X(Some PAGEBLOCK_STORAGE := {#})) []"
          and G: "bytes (blocks m3) G = bytes (blocks m2) (L (Some PAGEBLOCK_STORAGE)) + ivl b (b + ?n)"
          and bytes3: "\<And>i. i \<in> S \<Longrightarrow> i \<noteq> Some PAGEBLOCK_STORAGE \<Longrightarrow> bytes (blocks m3) (L i) = bytes (blocks m2) (L i)"
          and arenas3: "\<And>c. c \<noteq> PAGEBLOCK_STORAGE \<Longrightarrow> arenas m3 c = arenas m2 c"
            "memory_avail (arenas m3 PAGEBLOCK_STORAGE) = ?p"
            "memory_limit (arenas m3 PAGEBLOCK_STORAGE) = memory_limit (arenas m2 PAGEBLOCK_STORAGE)"
          and same3: "same_memory m2 m3"
        have X: "X(Some PAGEBLOCK_STORAGE := {#}) = X" using own by auto
        have p: "memory_avail (arenas m3 PAGEBLOCK_STORAGE) = ?p" "?p + SIZEOF_PAGEBLOCK \<le> memory_limit (arenas m3 PAGEBLOCK_STORAGE)"
          using arenas3 avail limit claimed up(5) by (simp_all add: claimed_def SIZEOF_PAGEBLOCK_def)
        let ?m = "m3\<lparr>arenas := (arenas m3)(PAGEBLOCK_STORAGE := (arenas m3 PAGEBLOCK_STORAGE)\<lparr>memory_avail := ?p + SIZEOF_PAGEBLOCK\<rparr>)\<rparr>"
        have "0 \<le> SIZEOF_PAGEBLOCK" by (simp add: SIZEOF_PAGEBLOCK_def)
        with room_inv(2) [OF inv3 parts(3), of SIZEOF_PAGEBLOCK] p
        have "arena_inv ?m S (L(Some PAGEBLOCK_STORAGE := G)) C3 X [?p]" by (simp add: X)
        moreover have "grown m S L ?m (L(Some PAGEBLOCK_STORAGE := G))"
          using claimed arenas2 arenas3 bytes2 bytes3 parts(2,3) G same same3
          by (auto simp: grown_def claimed_def same_memory_def)
        ultimately show "?Q' ?p m3" unfolding descriptor_room(1) by blast
      qed (use claimed b up same in \<open>auto simp: claimed_def same_memory_def zero\<close>)
    qed
  next
    show "?E Out_of_memory" if "too_small m (L None) (word_of_int SIZEOF_PAGEBLOCK)"
      using too_small_empty [OF parts(5), of "word_of_int SIZEOF_PAGEBLOCK" "L None" m] parts(10) [OF parts(2)] that
      by (simp add: storage_refused_def descriptor_room(1)) (simp add: SIZEOF_PAGEBLOCK_def)
  qed (simp add: storage_refused_def)
  then show ?thesis
    by (rule push_beyond_room [OF descriptor_room(2), rotated]) (use True in \<open>simp add: descriptor_room(1)\<close>)
qed

text \<open>What a client gets: bytes that were in the room of its arena or free before.\<close>

definition pushed ::
  "mem \<Rightarrow> addr option set \<Rightarrow> (addr option \<Rightarrow> addr list) \<Rightarrow> addr \<Rightarrow> int \<Rightarrow> addr \<Rightarrow> mem \<Rightarrow> (addr option \<Rightarrow> addr list) \<Rightarrow> bool" where
  "pushed m S L a n p m' L' \<longleftrightarrow>
     (\<forall>c. c \<noteq> a \<and> c \<noteq> PAGEBLOCK_STORAGE \<longrightarrow> arenas m' c = arenas m c) \<and>
     (\<forall>i \<in> S. i \<noteq> None \<and> i \<noteq> Some PAGEBLOCK_STORAGE \<and> i \<noteq> Some a \<longrightarrow> bytes (blocks m') (L' i) = bytes (blocks m) (L i)) \<and>
     (\<forall>i \<in> S. i \<noteq> None \<longrightarrow> bytes (blocks m) (L i) \<subseteq># bytes (blocks m') (L' i)) \<and>
     bytes (blocks m') (L' None) \<subseteq># bytes (blocks m) (L None) \<and>
     ivl p (p + n) + room (arenas m' a) \<subseteq># bytes (blocks m') (L' (Some a)) \<and>
     (ivl p (p + n) + room (arenas m' a) \<subseteq># room (arenas m a) \<or>
      ivl p (p + n) + room (arenas m' a) \<subseteq># bytes (blocks m) (L None)) \<and>
     (\<forall>z. accessible m z \<longrightarrow> accessible m' z) \<and>
     page_size m' = page_size m \<and> total_page_count m' = total_page_count m \<and> page_memory_start m' = page_memory_start m"

lemma client_push:
  assumes inv: "arena_inv m S L C (\<lambda>_. {#}) []" and a: "a \<noteq> PAGEBLOCK_STORAGE" "Some a \<in> S"
    and sound: "sound_size (page_size m) sz"
  shows "wp (arena_push os a sz)
    (\<lambda>p m'. \<exists>L' C'. arena_inv m' S L' C' (\<lambda>_. {#}) [] \<and> pushed m S L a (uint sz) p m' L') (push_refused os m L sz) m" (is "wp _ ?Q _ _")
proof (cases "memory_avail (arenas m a) + uint sz \<ge> memory_limit (arenas m a)")
  case False
  note parts = arena_inv_parts [OF inv]
  let ?p = "memory_avail (arenas m a)"
  let ?m = "m\<lparr>arenas := (arenas m)(a := (arenas m a)\<lparr>memory_avail := ?p + uint sz\<rparr>)\<rparr>"
  have "arena_inv ?m S L C (\<lambda>_. {#}) []"
    by (rule room_inv(1) [OF inv a(2)]) (use False a in simp_all)
  moreover have "room (arenas m a) = ivl ?p (?p + uint sz) + ivl (?p + uint sz) (memory_limit (arenas m a))"
    using False ivl_join [of ?p "?p + uint sz"] by (simp add: room_def)
  then have "pushed m S L a (uint sz) ?p ?m L"
    using parts(13) [OF a(2)] by (simp add: pushed_def room_of_def) (simp add: room_def)
  ultimately have "?Q ?p ?m" by blast
  with push_in_room [of sz m a 2 os] sound False show ?thesis
    by (simp add: wp_def sound_size_def arena_push_def eval_nat_numeral del: arena_push_level.simps)
next
  case True
  note parts = arena_inv_parts [OF inv]
  let ?n = "page_up (page_size m) sz"
  note up = page_up_props [OF parts(5) sound]
  let ?E = "push_refused os m L sz"
  let ?Q' = "\<lambda>p m'. ?Q p (m'\<lparr>arenas := (arenas m')(a := (arenas m' a)\<lparr>memory_avail := p + uint sz\<rparr>)\<rparr>)"
  have "wp (claim os a sz (\<lambda>b e. bnd (get_new_block_struct (arena_push_level (Suc (Suc 0)) os PAGEBLOCK_STORAGE)) (link_page a b e)))
      ?Q' ?E m"
  proof (rule claim_wp [OF inv a(2) refl sound])
    fix b m1
    let ?X = "(\<lambda>_. {#})(Some a := ivl b (b + ?n))"
    assume inv1: "arena_inv m1 S L C ?X []" and claimed: "claimed m S L a b (b + ?n) m1" and b: "page_size m dvd b"
    have link: "wp (link_page a b (b + ?n) y) ?Q' ?E m2"
      if inv2: "arena_inv m2 S L2 C2 ?X [y]" and zero: "blocks m2 y = zero_block" and grown: "grown m1 S L m2 L2" for y m2 L2 C2
    proof (rule link_wp [OF inv2 a(2)])
      fix G C3 m3
      let ?p = "memory_avail (arenas m2 a)"
      assume inv3: "arena_inv m3 S (L2(Some a := G)) C3 (?X(Some a := {#})) []"
        and G: "bytes (blocks m3) G = bytes (blocks m2) (L2 (Some a)) + ivl b (b + ?n)"
        and bytes3: "\<And>i. i \<in> S \<Longrightarrow> i \<noteq> Some a \<Longrightarrow> bytes (blocks m3) (L2 i) = bytes (blocks m2) (L2 i)"
        and arenas3: "\<And>c. c \<noteq> a \<Longrightarrow> arenas m3 c = arenas m2 c" "memory_avail (arenas m3 a) = ?p"
          "memory_limit (arenas m3 a) = memory_limit (arenas m2 a)"
        and same3: "same_memory m2 m3"
      let ?m = "m3\<lparr>arenas := (arenas m3)(a := (arenas m3 a)\<lparr>memory_avail := ?p + uint sz\<rparr>)\<rparr>"
      have p: "?p = b" "memory_limit (arenas m3 a) = b + ?n"
        using arenas3 grown claimed a(1) by (auto simp: grown_def claimed_def)
      have X: "(\<lambda>_. {#})(Some a := {#}) = (\<lambda>_. {#})" by auto
      have "arena_inv ?m S (L2(Some a := G)) C3 (\<lambda>_. {#}) []"
        using room_inv(1) [OF inv3 a(2), of "uint sz"] a(1) p up(2) arenas3(2) by (simp add: X)
      moreover have "pushed m S L a (uint sz) b ?m (L2(Some a := G))"
      proof -
        have split: "ivl b (b + ?n) = ivl b (b + uint sz) + ivl (b + uint sz) (b + ?n)"
          using up(2) ivl_join [of b "b + uint sz" "b + ?n"] by simp
        have room: "room (arenas ?m a) = ivl (b + uint sz) (b + ?n)" by (simp add: room_def p)
        have old: "bytes (blocks m1) (L i) = bytes (blocks m) (L i)" if "i \<in> S" "i \<noteq> None" for i
          using claimed that by (simp add: claimed_def)
        have kept: "bytes (blocks m) (L i) \<subseteq># bytes (blocks m2) (L2 i)" if "i \<in> S" "i \<noteq> None" for i
          using grown old that by (cases "i = Some PAGEBLOCK_STORAGE") (auto simp: grown_def)
        have free: "bytes (blocks m2) (L2 None) \<subseteq># bytes (blocks m) (L None)"
          using grown claimed subset_mset.add_increasing by (auto simp: grown_def claimed_def)
        have new: "ivl b (b + uint sz) + ivl (b + uint sz) (b + ?n) \<subseteq># bytes (blocks m) (L None)"
          using claimed by (simp add: claimed_def split)
        show ?thesis
          unfolding pushed_def room
          using kept free new old grown claimed G bytes3 arenas3(1) same3 parts(2,3) split
          by (auto simp: grown_def claimed_def same_memory_def subset_mset.add_increasing2)
      qed
      ultimately show "?Q' ?p m3" unfolding p(1) by blast
    next
    qed (use claimed grown b up in \<open>auto simp: claimed_def grown_def zero\<close>)
    show "wp (bnd (get_new_block_struct (arena_push_level (Suc (Suc 0)) os PAGEBLOCK_STORAGE)) (link_page a b (b + ?n))) ?Q' ?E m1"
      unfolding wp_bnd [of "get_new_block_struct _"]
    proof (rule get_new_wp [OF inv1])
      fix c C' m2
      assume inv2: "arena_inv m2 S L C' ?X [c]" and zero: "blocks m2 c = zero_block" and rest: "arenas m2 = arenas m1" "same_memory m1 m2"
        "\<And>i. i \<in> S \<Longrightarrow> bytes (blocks m2) (L i) = bytes (blocks m1) (L i)"
      show "wp (link_page a b (b + ?n) c) ?Q' ?E m2"
        by (rule link [OF inv2 zero]) (use rest parts(2,3) in \<open>auto simp: grown_def same_memory_def\<close>)
    next
      have own: "?X (Some PAGEBLOCK_STORAGE) = {#}" using a(1) by simp
      show "wp (arena_push_level (Suc (Suc 0)) os PAGEBLOCK_STORAGE (word_of_int SIZEOF_PAGEBLOCK))
         (\<lambda>y m2. wp (link_page a b (b + ?n) y) ?Q' ?E (m2\<lparr>blocks := (blocks m2)(y := zero_block)\<rparr>)) ?E m1"
      proof (rule wp_conseq [OF storage_push [OF inv1 own]])
        fix y m2 assume "\<exists>L' C'. arena_inv m2 S L' C' ?X [y] \<and> grown m1 S L m2 L'"
        then obtain L2 C2 where inv2: "arena_inv m2 S L2 C2 ?X [y]" and grown: "grown m1 S L m2 L2" by blast
        show "wp (link_page a b (b + ?n) y) ?Q' ?E (m2\<lparr>blocks := (blocks m2)(y := zero_block)\<rparr>)"
          by (rule link [OF scratch_inv(1) [OF inv2]])
            (use grown scratch_inv(2) [OF inv2, where v = zero_block] parts(2,3) in \<open>auto simp: grown_def\<close>)
      next
        fix f assume f: "storage_refused os (bytes (blocks m1) (L None)) f"
        have free: "bytes (blocks m) (L None) = ivl b (b + ?n) + bytes (blocks m1) (L None)"
          using claimed by (simp add: claimed_def)
        then have "bytes (blocks m1) (L None) \<subseteq># bytes (blocks m) (L None)" by simp
        with f free up(3) show "?E f"
          by (auto simp: storage_refused_def push_refused_def size_ivl intro: protection_refused_mono)
      qed
    qed
  qed (simp_all add: push_refused_def)
  then show ?thesis
    unfolding arena_push_def numeral_3_eq_3
    by (rule push_beyond_room [rotated 2]) (use True sound in \<open>simp_all add: sound_size_def\<close>)
qed

section \<open>arena\_delete\<close>

text \<open>The memory during the loop of \<open>arena_delete\<close>: what is left of the arena is the list from \<open>p\<close> on.\<close>

definition deleting :: "addr \<Rightarrow> addr \<Rightarrow> mem \<Rightarrow> mem" where
  "deleting a p m = m\<lparr>arenas := (arenas m)(a := zero_arena\<lparr>owned_pages := p\<rparr>)\<rparr>"

lemma deleting_simps [simp]:
  "blocks (deleting a p m) = blocks m" "recycled_block_structs (deleting a p m) = recycled_block_structs m"
  "block_freelist_head (deleting a p m) = block_freelist_head m" "page_size (deleting a p m) = page_size m"
  "total_page_count (deleting a p m) = total_page_count m" "page_memory_start (deleting a p m) = page_memory_start m"
  "accessible (deleting a p m) = accessible m" "region (deleting a p m) = region m" "walk_fuel (deleting a p m) = walk_fuel m"
  "head_of (deleting a p m) i = (if i = Some a then p else head_of m i)"
  "room_of (deleting a p m) i = (if i = Some a then {#} else room_of m i)"
  "c \<noteq> a \<Longrightarrow> arenas (deleting a p m) c = arenas m c"
  by (auto simp: deleting_def region_def walk_fuel_def head_of_def room_of_def room_def zero_arena_def split: option.split)

lemma deleting_start:
  assumes inv: "arena_inv m S L C X []" and a: "Some a \<in> S" "a \<noteq> PAGEBLOCK_STORAGE"
  shows "arena_inv (deleting a (owned_pages (arenas m a)) m) S L C X []"
proof -
  note parts = arena_inv_parts [OF inv]
  let ?m = "deleting a (owned_pages (arenas m a)) m"
  have head: "head_of ?m i = head_of m i" for i
    by (simp del: fun_upd_apply) (simp add: head_of_def)
  have unused: "arenas ?m c = zero_arena" if "Some c \<notin> S" for c
    using parts(7) [OF that] that a(1) by (cases "c = a") simp_all
  show ?thesis
    unfolding arena_inv_def head
    using parts unused a by simp
qed

definition deleted :: "mem \<Rightarrow> addr option set \<Rightarrow> (addr option \<Rightarrow> addr list) \<Rightarrow> addr \<Rightarrow> mem \<Rightarrow> (addr option \<Rightarrow> addr list) \<Rightarrow> bool" where
  "deleted m S L a m' L' \<longleftrightarrow>
     bytes (blocks m') (L' None) = bytes (blocks m) (L None) + bytes (blocks m) (L (Some a)) \<and> L' (Some a) = [] \<and>
     (\<forall>i \<in> S. i \<noteq> None \<and> i \<noteq> Some a \<longrightarrow> bytes (blocks m') (L' i) = bytes (blocks m) (L i)) \<and>
     arenas m' = arenas m \<and> (\<forall>z. accessible m' z \<longrightarrow> accessible m z) \<and>
     (\<forall>z \<in># bytes (blocks m) (L (Some a)). \<not> accessible m' z) \<and>
     page_size m' = page_size m \<and> total_page_count m' = total_page_count m \<and> page_memory_start m' = page_memory_start m"

lemma wp_mprotect_off:
  "wp (mprotect os b len False) Q E m \<longleftrightarrow>
     (if os_mprotect os b len False then Q () (m\<lparr>accessible := (\<lambda>z. \<not> (b \<le> z \<and> z < b + len) \<and> accessible m z)\<rparr>)
      else E (Error_exit 0 ''mprotect'' ''''))"
proof -
  have "(\<lambda>z. if b \<le> z \<and> z < b + len then False else accessible m z) = (\<lambda>z. \<not> (b \<le> z \<and> z < b + len) \<and> accessible m z)"
    by auto
  then show ?thesis by (simp only: mprotect_def wp_simps if_True if_False split: if_split)
qed

text \<open>The first block of the rest leaves the arena; its pages are closed.\<close>

lemma delete_first:
  assumes inv: "arena_inv (deleting a p m) S L C (\<lambda>_. {#}) []" and a: "Some a \<in> S" "a \<noteq> PAGEBLOCK_STORAGE"
    and L: "L (Some a) = p # xs"
  defines "b \<equiv> blocks m p"
  defines "m1 \<equiv> m\<lparr>accessible := (\<lambda>z. \<not> (memory_begin b \<le> z \<and> z < memory_begin b + (memory_end b - memory_begin b)) \<and> accessible m z)\<rparr>"
  shows "arena_inv (deleting a (next_block b) m1) S (L(Some a := xs)) C
    ((\<lambda>_. {#})(Some a := ivl (memory_begin b) (memory_end b))) [p]" (is "arena_inv ?m S ?L C ?X _")
proof -
  note parts = arena_inv_parts [OF inv]
  have p: "path (blocks m) (next_block b) xs 0" "spans (page_size m) b"
    using parts(9,10) [OF a(1)] L by (auto simp: b_def)
  have split: "bytes (blocks m) (L (Some a)) = ivl (memory_begin b) (memory_end b) + bytes (blocks m) xs"
    by (simp add: L b_def)
  have sum: "(\<Sum>i \<in> S. bytes (blocks m) (?L i) + ?X i) = (\<Sum>i \<in> S. bytes (blocks m) (L i) + {#})"
    by (rule sum_shift [OF parts(1) a(1) a(1)]) (use split in auto)
  have cells: "cells (C @ [p]) + (\<Sum>i \<in> S. cells (?L i)) = cells C + (\<Sum>i \<in> S. cells (L i))"
    using parts(1) a(1) by (simp add: sum.remove [of S "Some a"] L add_ac)
  have acc: "accessible m1 z" if "i \<in> S" "i \<noteq> None" "z \<in># bytes (blocks m) (?L i)" for i z
  proof -
    have z: "z \<in># bytes (blocks m) (L i)" using that(3) L by (auto split: if_splits)
    have "count (bytes (blocks m) (?L i) + ivl (memory_begin b) (memory_end b)) z \<le> 1"
    proof (rule region_once [of _ "deleting a p m"])
      show "bytes (blocks m) (?L i) + ivl (memory_begin b) (memory_end b) \<subseteq># region (deleting a p m)"
      proof (cases "i = Some a")
        case True
        with split sum_member [OF parts(1) a(1), of "\<lambda>i. bytes (blocks m) (L i)"] parts(11) show ?thesis
          by (simp add: add_ac)
      next
        case False
        have "bytes (blocks m) (L i) + bytes (blocks m) (L (Some a)) \<subseteq># region (deleting a p m)"
          using sum_members [OF parts(1) that(1) a(1) False, of "\<lambda>i. bytes (blocks m) (L i)"] parts(11) by simp
        with False split show ?thesis
          by (simp add: subset_mset.order_trans [rotated] add.assoc [symmetric] mset_subset_eq_add_left)
      qed
    qed
    then have "z \<notin># ivl (memory_begin b) (memory_end b)" using that(3) by (auto simp: not_in_iff[symmetric] dest!: count_greater_zero_iff [THEN iffD2])
    then show ?thesis using parts(14) [OF that(1,2)] z by (simp add: m1_def ivl_def)
  qed
  have m1: "blocks m1 = blocks m" "recycled_block_structs m1 = recycled_block_structs m" "page_size m1 = page_size m"
    "page_memory_start m1 = page_memory_start m" "arenas m1 = arenas m" "region m1 = region m" "head_of m1 i = head_of m i"
    "room_of m1 i = room_of m i" for i
    by (auto simp: m1_def region_def head_of_def room_of_def split: option.split)
  have unused: "arenas ?m c = zero_arena" if "Some c \<notin> S" for c
    using parts(7) [OF that] that a(1) by (cases "c = a") (simp_all add: m1)
  have paths: "path (blocks m) (head_of ?m i) (?L i) 0" if "i \<in> S" for i
    using parts(9) [OF that] p(1) by (cases "i = Some a") (simp_all add: m1)
  have spans: "spans (page_size m) (blocks m x)" if "i \<in> S" "x \<in> set (?L i)" for i x
    using parts(10) [OF that(1)] that(2) L by (auto split: if_splits)
  have rooms: "room_of ?m i \<subseteq># bytes (blocks m) (?L i) + ?X i" if "i \<in> S" for i
    using parts(13) [OF that] by (cases "i = Some a") (simp_all add: m1)
  have "cells (C @ [p]) + (\<Sum>i \<in> S. cells (?L i)) + room_of ?m (Some PAGEBLOCK_STORAGE) \<subseteq>#
      bytes (blocks m) (?L (Some PAGEBLOCK_STORAGE)) + ?X (Some PAGEBLOCK_STORAGE)"
    using parts(12) a(2) unfolding cells by (simp add: m1)
  then show ?thesis
    unfolding arena_inv_def
    using parts(1-6,8,11) sum acc unused paths spans rooms a by (simp add: m1)
qed

definition unlinked ::
  "mem \<Rightarrow> addr option set \<Rightarrow> (addr option \<Rightarrow> addr list) \<Rightarrow> addr \<Rightarrow> page_block \<Rightarrow> mem \<Rightarrow> (addr option \<Rightarrow> addr list) \<Rightarrow> bool" where
  "unlinked m S L a b m' L' \<longleftrightarrow>
     bytes (blocks m') (L' None) = bytes (blocks m) (L None) + ivl (memory_begin b) (memory_end b) \<and>
     bytes (blocks m) (L (Some a)) = ivl (memory_begin b) (memory_end b) + bytes (blocks m') (L' (Some a)) \<and>
     (\<forall>i \<in> S. i \<noteq> None \<and> i \<noteq> Some a \<longrightarrow> bytes (blocks m') (L' i) = bytes (blocks m) (L i)) \<and>
     arenas m' = arenas m \<and> accessible m' = (\<lambda>z. \<not> (memory_begin b \<le> z \<and> z < memory_end b) \<and> accessible m z) \<and>
     page_size m' = page_size m \<and> total_page_count m' = total_page_count m \<and> page_memory_start m' = page_memory_start m"

lemma unlinked_deleted: "unlinked m S L a b m1 L1 \<Longrightarrow> deleted m1 S L1 a m' L' \<Longrightarrow> deleted m S L a m' L'"
  by (auto simp: unlinked_def deleted_def ivl_def add_ac)

text \<open>A free list that takes in the node: the code works on the memory, the invariant speaks of the rest.\<close>

lemma delete_step:
  assumes inv: "arena_inv (deleting a p m) S L C (\<lambda>_. {#}) []" and a: "Some a \<in> S" "a \<noteq> PAGEBLOCK_STORAGE"
    and L: "L (Some a) = p # xs"
  defines "b \<equiv> blocks m p"
  defines "m1 \<equiv> m\<lparr>accessible := (\<lambda>z. \<not> (memory_begin b \<le> z \<and> z < memory_begin b + (memory_end b - memory_begin b)) \<and> accessible m z)\<rparr>"
  shows "wp (block_insert_and_coalesce (block_freelist_head m1) p) (\<lambda>l m2. \<exists>L' C'.
      arena_inv (deleting a (next_block b) (m2\<lparr>block_freelist_head := l\<rparr>)) S L' C' (\<lambda>_. {#}) [] \<and> L' (Some a) = xs \<and>
      unlinked m S L a b (m2\<lparr>block_freelist_head := l\<rparr>) L') (\<lambda>_. False) m1"
proof -
  let ?v = "deleting a (next_block b) m1" and ?L = "L(Some a := xs)"
    and ?X = "(\<lambda>_. {#})(Some a := ivl (memory_begin b) (memory_end b))"
  have inv1: "arena_inv ?v S ?L C ?X [p]"
    unfolding m1_def b_def by (rule delete_first [OF inv a L])
  note parts = arena_inv_parts [OF inv1]
  have m1: "blocks m1 = blocks m" "page_size m1 = page_size m" by (simp_all add: m1_def)
  have span: "spans (page_size ?v) (blocks ?v p)"
    using arena_inv_parts(10) [OF inv a(1)] L by (simp add: m1)
  have "wp (block_insert_and_coalesce (block_freelist_head m1) p) (\<lambda>l m2. inserted m1 p (?L None) C l m2) (\<lambda>_. False) m1"
  proof (rule insert_spec)
    show "path (blocks m1) (block_freelist_head m1) (?L None) 0" "path (blocks m1) (recycled_block_structs m1) C 0"
      using parts(8) parts(9) [OF parts(2)] by (simp_all add: head_of_def)
    show "distinct (p # ?L None @ C)" using arena_inv_distinct(1) [OF inv1 parts(2)] by auto
    show "p \<noteq> 0" using arena_inv_positive(2) [OF inv1 parts(2), of p] by simp
    show "length (?L None) < walk_fuel m1" using arena_inv_length [OF inv1 parts(2)] by simp
    show "memory_begin (blocks m1 z) \<le> memory_end (blocks m1 z)" if "z \<in> set (p # ?L None)" for z
      using that span parts(10) [OF parts(2)] by (auto intro: spans_order)
  qed (use parts(4) in simp)
  then show ?thesis
  proof (rule wp_conseq)
    fix l m2 assume ins: "inserted m1 p (?L None) C l m2"
    have m2: "m2 = m1\<lparr>blocks := blocks m2, recycled_block_structs := recycled_block_structs m2\<rparr>"
      using ins unfolding inserted_def by blast
    let ?w = "deleting a (next_block b) m2"
    have "?w = ?v\<lparr>blocks := blocks m2, recycled_block_structs := recycled_block_structs m2\<rparr>"
      by (subst m2) (simp add: deleting_def)
    then have ins': "inserted ?v p (?L None) C l ?w"
      using ins unfolding inserted_def by simp
    have "(\<exists>G C'. arena_inv (set_head ?w None l) S (?L(None := G)) C' (?X(Some a := {#})) [] \<and>
        bytes (blocks ?w) G = bytes (blocks ?v) (?L None) + ?X (Some a)) \<and>
      (\<forall>k \<in> S - {None}. bytes (blocks ?w) (?L k) = bytes (blocks ?v) (?L k)) \<and>
      ?w = ?v\<lparr>blocks := blocks ?w, recycled_block_structs := recycled_block_structs ?w\<rparr>"
      by (rule inserted_inv [OF inv1 parts(2) a(1) span _ _ _ _ ins']) (use parts(4) a(2) in \<open>simp_all add: m1 b_def\<close>)
    then obtain G C' where inv2: "arena_inv (set_head ?w None l) S (?L(None := G)) C' (?X(Some a := {#})) []"
      and G: "bytes (blocks ?w) G = bytes (blocks ?v) (?L None) + ?X (Some a)"
      and same: "\<forall>k \<in> S - {None}. bytes (blocks ?w) (?L k) = bytes (blocks ?v) (?L k)" by blast
    have w: "set_head ?w None l = deleting a (next_block b) (m2\<lparr>block_freelist_head := l\<rparr>)"
      by (simp add: set_head_def deleting_def)
    have X: "?X(Some a := {#}) = (\<lambda>_. {#})" by auto
    have fields: "arenas m2 = arenas m" "accessible m2 = accessible m1" "page_size m2 = page_size m"
      "total_page_count m2 = total_page_count m" "page_memory_start m2 = page_memory_start m"
      by (subst m2, simp add: m1_def)+
    let ?L2 = "?L(None := G)"
    have "unlinked m S L a b (m2\<lparr>block_freelist_head := l\<rparr>) ?L2"
    proof -
      have "bytes (blocks m2) (?L k) = bytes (blocks m) (?L k)" if "k \<in> S" "k \<noteq> None" for k
        using same that by (simp add: m1 del: fun_upd_apply)
      note keep = this
      have "bytes (blocks m2) (L k) = bytes (blocks m) (L k)" if "k \<in> S" "k \<noteq> None" "k \<noteq> Some a" for k
        using keep [OF that(1,2)] that(3) by simp
      then show ?thesis
        using G L keep [OF a(1)] by (auto simp: unlinked_def fields m1 b_def m1_def)
    qed
    moreover have "?L2 (Some a) = xs" by simp
    ultimately show "\<exists>L' C'. arena_inv (deleting a (next_block b) (m2\<lparr>block_freelist_head := l\<rparr>)) S L' C' (\<lambda>_. {#}) [] \<and>
      L' (Some a) = xs \<and> unlinked m S L a b (m2\<lparr>block_freelist_head := l\<rparr>) L'"
      using inv2 [unfolded w X] by blast
  qed simp
qed

lemma delete_pages_wp:
  assumes "arena_inv (deleting a p m) S L C (\<lambda>_. {#}) []" and "Some a \<in> S" "a \<noteq> PAGEBLOCK_STORAGE"
    and "length (L (Some a)) < n"
  shows "wp (delete_pages n os p) (\<lambda>_ m'. \<exists>L' C'. arena_inv (deleting a 0 m') S L' C' (\<lambda>_. {#}) [] \<and>
     deleted m S L a m' L') (protection_refused os False (bytes (blocks m) (L (Some a)))) m"
  using assms
proof (induction n arbitrary: p m L C)
  case (Suc n)
  note parts = arena_inv_parts [OF Suc.prems(1)]
  have path: "path (blocks m) p (L (Some a)) 0" using parts(9) [OF Suc.prems(2)] by simp
  show ?case
  proof (cases "p = 0")
    case True
    then have "L (Some a) = []" using path path_null by blast
    with True Suc.prems(1) show ?thesis
      by (auto simp: wp_simps deleted_def intro!: exI [of _ L] exI [of _ C])
  next
    case False
    then obtain xs where L: "L (Some a) = p # xs" using path path_head by blast
    let ?b = "blocks m p"
    let ?m1 = "m\<lparr>accessible := (\<lambda>z. \<not> (memory_begin ?b \<le> z \<and> z < memory_begin ?b + (memory_end ?b - memory_begin ?b)) \<and> accessible m z)\<rparr>"
    let ?Q = "\<lambda>_ m'. \<exists>L' C'. arena_inv (deleting a 0 m') S L' C' (\<lambda>_. {#}) [] \<and> deleted m S L a m' L'"
    let ?E = "protection_refused os False (bytes (blocks m) (L (Some a)))"
    have "wp (block_insert_and_coalesce (block_freelist_head ?m1) p)
        (\<lambda>l m2. wp (delete_pages n os (next_block ?b)) ?Q ?E (m2\<lparr>block_freelist_head := l\<rparr>)) ?E ?m1"
    proof (rule wp_conseq [OF delete_step [OF Suc.prems(1-3) L]])
      fix l and m2 :: mem
      let ?m3 = "m2\<lparr>block_freelist_head := l\<rparr>"
      assume "\<exists>L' C'. arena_inv (deleting a (next_block ?b) ?m3) S L' C' (\<lambda>_. {#}) [] \<and> L' (Some a) = xs \<and>
        unlinked m S L a ?b ?m3 L'"
      then obtain L2 C2 where inv2: "arena_inv (deleting a (next_block ?b) ?m3) S L2 C2 (\<lambda>_. {#}) []" and L2: "L2 (Some a) = xs"
        and un: "unlinked m S L a ?b ?m3 L2" by blast
      have "length (L2 (Some a)) < n" using Suc.prems(4) L L2 by simp
      from Suc.IH [OF inv2 Suc.prems(2,3) this]
      show "wp (delete_pages n os (next_block ?b)) ?Q ?E ?m3"
      proof (rule wp_conseq)
        have "bytes (blocks ?m3) (L2 (Some a)) \<subseteq># bytes (blocks m) (L (Some a))"
          using un L L2 by (simp add: unlinked_def)
        then show "?E f" if "protection_refused os False (bytes (blocks ?m3) (L2 (Some a))) f" for f
          using protection_refused_mono that by blast
      qed (use unlinked_deleted [OF un] in blast)
    qed simp
    moreover have "?E (Error_exit 0 ''mprotect'' '''')" if "\<not> os_mprotect os (memory_begin ?b) (memory_end ?b - memory_begin ?b) False"
      unfolding protection_refused_def using that
      by (intro conjI refl, intro exI [of _ "memory_begin ?b", OF exI [of _ "memory_end ?b - memory_begin ?b"]]) (simp add: L)
    ultimately show ?thesis
      using False by (simp add: wp_simps wp_bnd_fun wp_modify_fun wp_mprotect_off)
  qed
qed simp

end
