(* ===== verification/ArenaProps.thy ===== *)
theory ArenaProps
  imports ArenaOps
begin

text \<open>
  The states \<open>allocates\<close> that \<open>init_memory\<close>, \<open>arena_push\<close> and \<open>arena_delete\<close> lead to, and what
  holds in all of them: memory is handed out once, none is lost, and the calls fail only for
  want of memory or when the system refuses a protection.
\<close>

section \<open>The states of the allocator\<close>

text \<open>What the code relies on: pages of 64 bytes to a gigabyte, and page-aligned addresses from \<open>mmap\<close>.\<close>

definition system_ok :: "os \<Rightarrow> bool" where
  "system_ok os \<longleftrightarrow> page_size_ok (os_getpagesize os) \<and>
     (\<forall>n b. os_mmap os n = Some b \<longrightarrow> 0 < b \<and> os_getpagesize os dvd b)"

text \<open>The states that \<open>init_memory\<close> and the calls of clients lead to.\<close>

inductive allocates :: "os \<Rightarrow> int \<Rightarrow> mem \<Rightarrow> bool" for os amount where
  start: "init_memory os amount boot_mem = Inr ((), m) \<Longrightarrow> allocates os amount m"
| push: "allocates os amount m \<Longrightarrow> a \<noteq> PAGEBLOCK_STORAGE \<Longrightarrow> sound_size (os_getpagesize os) sz \<Longrightarrow>
    arena_push os a sz m = Inr (p, m') \<Longrightarrow> allocates os amount m'"
| delete: "allocates os amount m \<Longrightarrow> a \<noteq> PAGEBLOCK_STORAGE \<Longrightarrow> arena_delete os a m = Inr ((), m') \<Longrightarrow> allocates os amount m'"

text \<open>The nodes of a block list, and the memory of the free list and of an arena.\<close>

primrec list_nodes :: "nat \<Rightarrow> (addr \<Rightarrow> page_block) \<Rightarrow> addr \<Rightarrow> addr list" where
  "list_nodes 0 h p = []"
| "list_nodes (Suc n) h p = (if p = 0 then [] else p # list_nodes n h (next_block (h p)))"

definition free_memory :: "mem \<Rightarrow> addr multiset" where
  "free_memory m = bytes (blocks m) (list_nodes (walk_fuel m) (blocks m) (block_freelist_head m))"

definition arena_memory :: "mem \<Rightarrow> addr \<Rightarrow> addr multiset" where
  "arena_memory m a = bytes (blocks m) (list_nodes (walk_fuel m) (blocks m) (owned_pages (arenas m a)))"

lemma list_nodes_path: "path h p xs 0 \<Longrightarrow> length xs < n \<Longrightarrow> list_nodes n h p = xs"
proof (induction n arbitrary: p xs)
  case (Suc n)
  then show ?case by (cases xs) auto
qed simp

lemma list_nodes_0: "list_nodes n h 0 = []"
  by (cases n) simp_all

lemma arena_inv_memory:
  assumes inv: "arena_inv m S L C (\<lambda>_. {#}) []"
  shows "free_memory m = bytes (blocks m) (L None)" and "Some a \<in> S \<Longrightarrow> arena_memory m a = bytes (blocks m) (L (Some a))"
    and "Some a \<notin> S \<Longrightarrow> arena_memory m a = {#}"
proof -
  note parts = arena_inv_parts [OF inv]
  show "free_memory m = bytes (blocks m) (L None)"
    using list_nodes_path [OF parts(9) [OF parts(2)] arena_inv_length [OF inv parts(2)]]
    by (simp add: free_memory_def head_of_def)
  show "arena_memory m a = bytes (blocks m) (L (Some a))" if "Some a \<in> S"
    using list_nodes_path [OF parts(9) [OF that] arena_inv_length [OF inv that]]
    by (simp add: arena_memory_def head_of_def)
  show "arena_memory m a = {#}" if "Some a \<notin> S"
    using parts(7) [OF that] by (simp add: arena_memory_def zero_arena_def list_nodes_0)
qed

lemma arena_inv_cong:
  assumes inv: "arena_inv m S L C X B" and L: "\<And>i. i \<in> S \<Longrightarrow> L' i = L i"
  shows "arena_inv m S L' C X B"
proof -
  note parts = arena_inv_parts [OF inv]
  have "(\<Sum>i \<in> S. bytes (blocks m) (L' i) + X i) = (\<Sum>i \<in> S. bytes (blocks m) (L i) + X i)"
    "(\<Sum>i \<in> S. cells (L' i)) = (\<Sum>i \<in> S. cells (L i))"
    by (rule sum.cong; simp add: L)+
  then show ?thesis
    using parts L [OF parts(2)] L [OF parts(3)] by (simp add: arena_inv_def L)
qed

lemma adopt_inv:
  assumes inv: "arena_inv m S L C (\<lambda>_. {#}) []"
  obtains S' L' where "arena_inv m S' L' C (\<lambda>_. {#}) []" "Some a \<in> S'" "S \<subseteq> S'" "\<And>i. i \<in> S \<Longrightarrow> L' i = L i"
proof (cases "Some a \<in> S")
  case True
  with inv that show thesis by blast
next
  case False
  define L' where "L' = L(Some a := [])"
  have L: "L' (Some a) = []" "\<And>i. i \<in> S \<Longrightarrow> L' i = L i" using False by (auto simp: L'_def)
  have "arena_inv m S L' C (\<lambda>_. {#}) []" by (rule arena_inv_cong [OF inv L(2)])
  note parts = arena_inv_parts [OF this]
  have "arenas m a = zero_arena" by (rule parts(7) [OF False])
  then have "head_of m (Some a) = 0" "room_of m (Some a) = {#}"
    by (simp_all add: head_of_def room_of_def room_def zero_arena_def)
  then have "arena_inv m (insert (Some a) S) L' C (\<lambda>_. {#}) []"
    using parts False L(1) by (simp add: arena_inv_def)
  then show thesis by (rule that) (use L(2) in auto)
qed

text \<open>\<open>init_memory\<close>: the first page holds the first two descriptors, the other pages are free.\<close>

lemma init_inv:
  assumes sys: "system_ok os" and amount: "os_getpagesize os \<le> amount"
  shows "wp (init_memory os amount) (\<lambda>_ m. page_size m = os_getpagesize os \<and>
      (\<exists>S L C. arena_inv m S L C (\<lambda>_. {#}) [])) (\<lambda>f. \<exists>call. f = Error_exit 0 call '''') boot_mem"
proof (cases "os_mmap os (amount div os_getpagesize os * os_getpagesize os)")
  case None
  then show ?thesis by (simp add: init_memory_def Let_def wp_simps)
next
  case (Some b)
  let ?ps = "os_getpagesize os"
  let ?n = "amount div ?ps"
  obtain k where k: "6 \<le> k" "?ps = 2 ^ k" using sys by (auto simp: system_ok_def page_size_ok_def)
  have "(2::int) ^ 6 \<le> 2 ^ k" using k(1) by (rule power_increasing) simp
  then have ps: "64 \<le> ?ps" "0 < ?ps" using k(2) by simp_all
  have n: "1 \<le> ?n" using zdiv_mono1 [OF amount ps(2)] ps by simp
  have b: "0 < b" "?ps dvd b" using sys Some by (auto simp: system_ok_def)
  have "0 \<le> (?n - 1) * ?ps" using n ps by simp
  then have le: "b + ?ps \<le> b + ?ps + (?n - 1) * ?ps" by simp
  let ?L = "\<lambda>i. if i = None then [b + SIZEOF_PAGEBLOCK] else [b]"
  have ivls: "ivl b (b + ?ps) + ivl (b + ?ps) (b + ?ps + (?n - 1) * ?ps) = ivl b (b + ?n * ?ps)"
    "ivl b (b + SIZEOF_PAGEBLOCK) + (ivl (b + SIZEOF_PAGEBLOCK) (b + SIZEOF_PAGEBLOCK + SIZEOF_PAGEBLOCK) +
       ivl (b + SIZEOF_PAGEBLOCK + SIZEOF_PAGEBLOCK) (b + ?ps)) = ivl b (b + ?ps)"
    using ivl_join [of b "b + ?ps" "b + ?ps + (?n - 1) * ?ps"] le ps
      ivl_join [of "b + SIZEOF_PAGEBLOCK" "b + SIZEOF_PAGEBLOCK + SIZEOF_PAGEBLOCK" "b + ?ps"]
      ivl_join [of b "b + SIZEOF_PAGEBLOCK" "b + ?ps"]
    by (simp_all add: SIZEOF_PAGEBLOCK_def algebra_simps)
  let ?m = "\<lambda>acc. boot_mem\<lparr>page_size := ?ps, total_page_count := ?n, page_memory_start := b,
     accessible := (\<lambda>z. b \<le> z \<and> z < b + ?ps \<or> acc z), first_block := b, block_freelist_head := b + SIZEOF_PAGEBLOCK,
     blocks := (blocks boot_mem)(b := \<lparr>next_block = 0, prev_block = 0, memory_begin = b, memory_end = b + ?ps\<rparr>,
       b + SIZEOF_PAGEBLOCK := \<lparr>next_block = 0, prev_block = 0, memory_begin = b + ?ps,
         memory_end = b + ?ps + (?n - 1) * ?ps\<rparr>),
     arenas := (arenas boot_mem)(PAGEBLOCK_STORAGE := \<lparr>owned_pages = b,
       memory_avail = b + SIZEOF_PAGEBLOCK + SIZEOF_PAGEBLOCK, memory_limit = b + ?ps\<rparr>)\<rparr>"
  have inv: "arena_inv (?m acc) {None, Some PAGEBLOCK_STORAGE} ?L [] (\<lambda>_. {#}) []" for acc
    unfolding arena_inv_def
    using sys b le ps ivls
    by (simp add: system_ok_def head_of_def room_of_def room_def region_def boot_mem_def spans_def SIZEOF_PAGEBLOCK_def)
      (auto simp: ivl_subset add_ac, auto simp: ivl_def)
  show ?thesis
    using Some inv
    by (auto simp add: init_memory_def Let_def wp_mem wp_mprotect_on)
qed

lemma arena_delete_wp:
  assumes inv: "arena_inv m S L C (\<lambda>_. {#}) []" and a: "Some a \<in> S" "a \<noteq> PAGEBLOCK_STORAGE"
  shows "wp (arena_delete os a) (\<lambda>_ m'. \<exists>L' C' m1. arena_inv m' S L' C' (\<lambda>_. {#}) [] \<and> m' = deleting a 0 m1 \<and>
     deleted m S L a m1 L') (protection_refused os False (bytes (blocks m) (L (Some a)))) m"
proof -
  let ?p = "owned_pages (arenas m a)" and ?E = "protection_refused os False (bytes (blocks m) (L (Some a)))"
  have "length (L (Some a)) < walk_fuel m" by (rule arena_inv_length [OF inv a(1)])
  from delete_pages_wp [OF deleting_start [OF inv a] a this, of os]
  have "wp (delete_pages (walk_fuel m) os ?p) (\<lambda>_. wp (upd_arena a (\<lambda>_. zero_arena))
      (\<lambda>_ m'. \<exists>L' C' m1. arena_inv m' S L' C' (\<lambda>_. {#}) [] \<and> m' = deleting a 0 m1 \<and> deleted m S L a m1 L') ?E) ?E m"
  proof (rule wp_conseq)
    fix u m1 assume "\<exists>L' C'. arena_inv (deleting a 0 m1) S L' C' (\<lambda>_. {#}) [] \<and> deleted m S L a m1 L'"
    moreover have "deleting a 0 m1 = m1\<lparr>arenas := (arenas m1)(a := zero_arena)\<rparr>"
      by (simp add: deleting_def zero_arena_def)
    ultimately show "wp (upd_arena a (\<lambda>_. zero_arena))
        (\<lambda>_ m'. \<exists>L' C' m1. arena_inv m' S L' C' (\<lambda>_. {#}) [] \<and> m' = deleting a 0 m1 \<and> deleted m S L a m1 L') ?E m1"
      unfolding upd_arena_def wp_modify by metis
  qed simp
  moreover have "wp (\<lambda>m. delete_pages (walk_fuel m) os (owned_pages (arenas m a)) m) Q E m =
      wp (delete_pages (walk_fuel m) os ?p) Q E m" for Q E by (simp add: wp_def)
  ultimately show ?thesis by (simp add: arena_delete_def wp_bnd)
qed

lemma allocates_inv:
  assumes "allocates os amount m" and "system_ok os" "os_getpagesize os \<le> amount"
  shows "page_size m = os_getpagesize os \<and> (\<exists>S L C. arena_inv m S L C (\<lambda>_. {#}) [])"
  using assms(1)
proof (induction rule: allocates.induct)
  case (start m)
  with wp_InrD [OF init_inv [OF assms(2,3)]] show ?case by blast
next
  case (push m a sz p m')
  then obtain S L C where inv0: "arena_inv m S L C (\<lambda>_. {#}) []" by blast
  from adopt_inv [OF this, of a] obtain S L where inv: "arena_inv m S L C (\<lambda>_. {#}) []" and a: "Some a \<in> S" by metis
  have "sound_size (page_size m) sz" using push by simp
  from wp_InrD [OF client_push [OF inv push.hyps(2) a this] push.hyps(4)]
  show ?case using push.IH by (auto simp: pushed_def)
next
  case (delete m a m')
  then obtain S L C where inv0: "arena_inv m S L C (\<lambda>_. {#}) []" by blast
  from adopt_inv [OF this, of a] obtain S L where inv: "arena_inv m S L C (\<lambda>_. {#}) []" and a: "Some a \<in> S" by metis
  from wp_InrD [OF arena_delete_wp [OF inv a delete.hyps(2)] delete.hyps(3)]
  obtain L' C' m1 where inv': "arena_inv m' S L' C' (\<lambda>_. {#}) []" and m': "m' = deleting a 0 m1" "deleted m S L a m1 L'" by blast
  have "page_size m' = page_size m" using m' by (simp add: deleted_def)
  with inv' delete.IH show ?case by auto
qed

text \<open>The invariant in a state of the allocator, with the arena at hand among the owners.\<close>

lemma allocates_obtain:
  assumes "allocates os amount m" and "system_ok os" "os_getpagesize os \<le> amount"
  obtains S L C where "arena_inv m S L C (\<lambda>_. {#}) []" "Some a \<in> S" "page_size m = os_getpagesize os"
proof -
  from allocates_inv [OF assms] obtain S L C where "arena_inv m S L C (\<lambda>_. {#}) []" "page_size m = os_getpagesize os" by blast
  with adopt_inv [of m S L C a] that show thesis by metis
qed

section \<open>Properties\<close>

text \<open>
  C12: at every moment the reserved range is divided, address by address, between the free list
  and the arenas: each belongs to exactly one of them, so no memory is handed out twice and none
  is lost. What an arena owns is accessible, and the room it can still give away lies in it.
\<close>

theorem arena_memory_partitioned:
  assumes "allocates os amount m" and "system_ok os" "os_getpagesize os \<le> amount"
  shows "(\<exists>A. finite A \<and> (\<forall>a. a \<notin> A \<longrightarrow> arenas m a = zero_arena) \<and>
      free_memory m + (\<Sum>a \<in> A. arena_memory m a) = region m) \<and>
    (\<forall>a. room (arenas m a) \<subseteq># arena_memory m a \<and> (\<forall>b \<in># arena_memory m a. accessible m b))"
proof (intro conjI allI)
  from allocates_inv [OF assms] obtain S L C where inv: "arena_inv m S L C (\<lambda>_. {#}) []" by blast
  note parts = arena_inv_parts [OF inv]
  let ?A = "{a. Some a \<in> S}"
  have S: "S = insert None (Some ` ?A)" "finite ?A"
  proof -
    show "S = insert None (Some ` ?A)" using parts(2) by (auto simp: image_iff) (metis option.exhaust)
    have "?A = Some -` S" by auto
    then show "finite ?A" using parts(1) by (simp add: finite_vimageI)
  qed
  have "region m = (\<Sum>i \<in> S. bytes (blocks m) (L i))" using parts(11) by simp
  also have "\<dots> = bytes (blocks m) (L None) + (\<Sum>a \<in> ?A. bytes (blocks m) (L (Some a)))"
    by (subst S(1)) (use S(2) in \<open>simp add: sum.reindex\<close>)
  also have "\<dots> = free_memory m + (\<Sum>a \<in> ?A. arena_memory m a)"
    by (simp add: arena_inv_memory [OF inv])
  finally show "\<exists>A. finite A \<and> (\<forall>a. a \<notin> A \<longrightarrow> arenas m a = zero_arena) \<and>
      free_memory m + (\<Sum>a \<in> A. arena_memory m a) = region m"
    using S(2) parts(7) by (intro exI [of _ ?A]) simp
next
  fix a
  obtain S L C where inv: "arena_inv m S L C (\<lambda>_. {#}) []" and a: "Some a \<in> S"
    using allocates_obtain [OF assms] by metis
  show "room (arenas m a) \<subseteq># arena_memory m a"
    using arena_inv_parts(13) [OF inv a] by (simp add: arena_inv_memory(2) [OF inv a] room_of_def)
  show "\<forall>b \<in># arena_memory m a. accessible m b"
    using arena_inv_parts(14) [OF inv a] by (simp add: arena_inv_memory(2) [OF inv a])
qed

lemma arena_memory_room:
  assumes "allocates os amount m" and "system_ok os" "os_getpagesize os \<le> amount"
  shows "room (arenas m a) \<subseteq># arena_memory m a"
proof -
  obtain S L C where inv: "arena_inv m S L C (\<lambda>_. {#}) []" and a: "Some a \<in> S"
    using allocates_obtain [OF assms] by metis
  show ?thesis
    using arena_inv_parts(13) [OF inv a] by (simp add: arena_inv_memory(2) [OF inv a] room_of_def)
qed

definition sample_os :: os where
  "sample_os = \<lparr>os_getpagesize = 4096, os_mmap = (\<lambda>n. Some 65536), os_mprotect = (\<lambda>_ _ _. True)\<rparr>"

lemma sample_os_ok: "system_ok sample_os" "os_getpagesize sample_os \<le> 32768"
proof -
  have "(4096 :: int) = 2 ^ 12" by simp
  then show "system_ok sample_os"
    by (auto simp: system_ok_def sample_os_def page_size_ok_def intro!: exI [of _ 12])
qed (simp add: sample_os_def)

lemma find_fit_first: "0 < n \<Longrightarrow> b \<noteq> 0 \<Longrightarrow> amount \<le> memory_end (h b) - memory_begin (h b) \<Longrightarrow> find_fit n h b amount = Inr b"
  by (cases n) simp_all

lemma sample_start: "\<exists>m. init_memory sample_os 32768 boot_mem = Inr ((), m) \<and> allocates sample_os 32768 m"
proof -
  have "\<exists>m. init_memory sample_os 32768 boot_mem = Inr ((), m)"
    by (simp add: init_memory_def sample_os_def Let_def bnd_def modify_def mprotect_def upd_block_def upd_arena_def)
  then show ?thesis using allocates.start by blast
qed

lemma sample_push:
  assumes "init_memory sample_os 32768 boot_mem = Inr ((), m)"
  shows "\<exists>m'. arena_push sample_os 100 64 m = Inr (69632, m')"
proof -
  have sz: "size_in_page_multiples 4096 64 = 4096" by (simp add: size_in_page_multiples_def)
  have m: "m = boot_mem\<lparr>page_size := 4096, total_page_count := 8, page_memory_start := 65536,
     accessible := (\<lambda>z. if 65536 \<le> z \<and> z < 65536 + 4096 then True else accessible boot_mem z), first_block := 65536, block_freelist_head := 65568,
     blocks := (blocks boot_mem)(65536 := zero_block\<lparr>memory_begin := 65536, memory_end := 69632\<rparr>,
       65568 := zero_block\<lparr>memory_begin := 69632, memory_end := 98304\<rparr>),
     arenas := (arenas boot_mem)(PAGEBLOCK_STORAGE := \<lparr>owned_pages = 65536, memory_avail = 65600, memory_limit = 69632\<rparr>)\<rparr>"
    using assms
    by (auto simp: init_memory_def sample_os_def Let_def bnd_def modify_def mprotect_def upd_block_def upd_arena_def SIZEOF_PAGEBLOCK_def)
  show ?thesis
    unfolding arena_push_def numeral_3_eq_3
    by (simp add: m bnd_def assert_cmd_def gets_def ret_def boot_mem_def zero_arena_def PAGEBLOCK_STORAGE_def
       find_block_first_fit_def lift_def find_fit_first walk_fuel_def alloc_block_range_def sz upd_block_def upd_arena_def modify_def
       mprotect_def sample_os_def get_new_block_struct_def SIZEOF_PAGEBLOCK_def block_insert_and_coalesce_def zero_block_def)
qed

theorem arena_memory_partitioned_witness:
  "\<exists>m A. allocates sample_os 32768 m \<and> finite A \<and> free_memory m + (\<Sum>a \<in> A. arena_memory m a) = region m"
proof -
  obtain m where "allocates sample_os 32768 m" using sample_start by blast
  with arena_memory_partitioned [OF this sample_os_ok] show ?thesis by blast
qed

lemma owners_disjoint:
  assumes inv: "arena_inv m S L C (\<lambda>_. {#}) []" and i: "i \<in> S" "j \<in> S" "i \<noteq> j" and b: "b \<in># bytes (blocks m) (L i)"
  shows "b \<notin># bytes (blocks m) (L j)"
proof
  note parts = arena_inv_parts [OF inv]
  assume "b \<in># bytes (blocks m) (L j)"
  with b have "2 \<le> count (bytes (blocks m) (L i) + bytes (blocks m) (L j)) b"
    by (simp add: Suc_le_eq flip: count_greater_zero_iff)
  moreover have "bytes (blocks m) (L i) + bytes (blocks m) (L j) \<subseteq># region m"
    using sum_members [OF parts(1) i, of "\<lambda>i. bytes (blocks m) (L i)"] parts(11) by simp
  from region_once [OF this, of b] have "count (bytes (blocks m) (L i) + bytes (blocks m) (L j)) b \<le> 1" .
  ultimately show False by simp
qed

lemma in_ivl: "b \<in># ivl p q \<longleftrightarrow> p \<le> b \<and> b < q"
  by (simp add: ivl_def)

text \<open>What a delete does, in the same terms.\<close>

lemma delete_effect:
  assumes "allocates os amount m" and "system_ok os" "os_getpagesize os \<le> amount"
    and "a \<noteq> PAGEBLOCK_STORAGE" and delete: "arena_delete os a m = Inr ((), m')"
  shows "free_memory m' = free_memory m + arena_memory m a \<and> arena_memory m' a = {#} \<and> arenas m' a = zero_arena \<and>
    (\<forall>b \<in># arena_memory m a. \<not> accessible m' b) \<and>
    (\<forall>c. c \<noteq> a \<longrightarrow> arena_memory m' c = arena_memory m c \<and> arenas m' c = arenas m c)"
proof -
  obtain S L C where inv: "arena_inv m S L C (\<lambda>_. {#}) []" and a: "Some a \<in> S"
    using allocates_obtain [OF assms(1-3)] by metis
  obtain L' C' m1 where inv': "arena_inv m' S L' C' (\<lambda>_. {#}) []" and m': "m' = deleting a 0 m1" and del: "deleted m S L a m1 L'"
    using wp_InrD [OF arena_delete_wp [OF inv a assms(4)] delete] by blast
  have blocks: "blocks m' = blocks m1" "accessible m' = accessible m1" using m' by simp_all
  have "arena_memory m' c = arena_memory m c" if "c \<noteq> a" for c
    using del that by (cases "Some c \<in> S") (simp_all add: arena_inv_memory [OF inv] arena_inv_memory [OF inv'] deleted_def blocks)
  moreover have "arenas m' c = arenas m c" if "c \<noteq> a" for c using m' del that by (simp add: deleted_def)
  moreover have "arenas m' a = zero_arena" by (simp add: m' deleting_def zero_arena_def)
  ultimately show ?thesis
    using del a by (simp add: arena_inv_memory [OF inv] arena_inv_memory [OF inv'] deleted_def blocks)
qed

text \<open>
  The calls that may follow until the arena \<open>a\<close> is deleted; \<open>k\<close> counts the pushes on \<open>a\<close>.
\<close>

inductive follows :: "os \<Rightarrow> addr \<Rightarrow> mem \<Rightarrow> nat \<Rightarrow> mem \<Rightarrow> bool" for os a m where
  start: "follows os a m 0 m"
| push: "follows os a m k m1 \<Longrightarrow> c \<noteq> PAGEBLOCK_STORAGE \<Longrightarrow> sound_size (os_getpagesize os) sz \<Longrightarrow>
    arena_push os c sz m1 = Inr (p, m2) \<Longrightarrow> follows os a m (if c = a then Suc k else k) m2"
| delete: "follows os a m k m1 \<Longrightarrow> c \<noteq> PAGEBLOCK_STORAGE \<Longrightarrow> c \<noteq> a \<Longrightarrow> arena_delete os c m1 = Inr ((), m2) \<Longrightarrow>
    follows os a m k m2"

lemma follows_allocates: "follows os a m k m' \<Longrightarrow> allocates os amount m \<Longrightarrow> allocates os amount m'"
  by (induction rule: follows.induct) (blast intro: allocates.intros)+

text \<open>
  The updates of descriptors do not test that their memory is accessible. Between the calls it is: a
  descriptor of any list lies in the memory of the allocator's own arena.
\<close>

lemma descriptors_accessible:
  assumes "allocates os amount m" and "system_ok os" "os_getpagesize os \<le> amount"
    and "x \<in> set (list_nodes (walk_fuel m) (blocks m) (block_freelist_head m)) \<or>
      x \<in> set (list_nodes (walk_fuel m) (blocks m) (owned_pages (arenas m a)))"
    and "x \<le> b" "b < x + SIZEOF_PAGEBLOCK"
  shows "b \<in># arena_memory m PAGEBLOCK_STORAGE \<and> accessible m b"
proof -
  obtain S L C where inv: "arena_inv m S L C (\<lambda>_. {#}) []" and a: "Some a \<in> S"
    using allocates_obtain [OF assms(1-3)] by metis
  note parts = arena_inv_parts [OF inv]
  have nodes: "list_nodes (walk_fuel m) (blocks m) (head_of m i) = L i" if "i \<in> S" for i
    using list_nodes_path [OF parts(9) [OF that] arena_inv_length [OF inv that]] .
  obtain i where i: "i \<in> S" "x \<in> set (L i)"
    using assms(4) nodes [OF parts(2)] nodes [OF a] parts(2) a by (auto simp: head_of_def)
  have "b \<in># cells (L i)" using i(2) assms(5,6) by (auto simp: cells_def in_ivl)
  then have "b \<in># (\<Sum>i \<in> S. cells (L i))"
    using sum_member [OF parts(1) i(1), of "\<lambda>i. cells (L i)"] by (auto dest: mset_subset_eqD)
  then have "b \<in># bytes (blocks m) (L (Some PAGEBLOCK_STORAGE))"
    using mset_subset_eqD [OF parts(12), of b] by simp
  then show ?thesis using parts(14) [OF parts(3)] by (simp add: arena_inv_memory(2) [OF inv parts(3)])
qed

text \<open>What a push does, in terms of the memory of the arenas.\<close>

lemma push_effect:
  assumes "allocates os amount m" and "system_ok os" "os_getpagesize os \<le> amount"
    and "a \<noteq> PAGEBLOCK_STORAGE" "sound_size (os_getpagesize os) sz" and push: "arena_push os a sz m = Inr (p, m')"
  shows "ivl p (p + uint sz) + room (arenas m' a) \<subseteq># room (arenas m a) \<or>
      ivl p (p + uint sz) + room (arenas m' a) \<subseteq># free_memory m"
    and "ivl p (p + uint sz) + room (arenas m' a) \<subseteq># arena_memory m' a" and "arena_memory m c \<subseteq># arena_memory m' c"
    and "c \<noteq> a \<Longrightarrow> c \<noteq> PAGEBLOCK_STORAGE \<Longrightarrow> arenas m' c = arenas m c"
    and "region m' = region m"
proof -
  obtain S L C where inv: "arena_inv m S L C (\<lambda>_. {#}) []" and a: "Some a \<in> S" and ps: "page_size m = os_getpagesize os"
    using allocates_obtain [OF assms(1-3)] by metis
  obtain L' C' where inv': "arena_inv m' S L' C' (\<lambda>_. {#}) []" and pushed: "pushed m S L a (uint sz) p m' L'"
    using wp_InrD [OF client_push [OF inv assms(4) a] push] assms(5) ps by auto
  note mem = arena_inv_memory [OF inv] and mem' = arena_inv_memory [OF inv']
  show "ivl p (p + uint sz) + room (arenas m' a) \<subseteq># room (arenas m a) \<or>
      ivl p (p + uint sz) + room (arenas m' a) \<subseteq># free_memory m"
    "ivl p (p + uint sz) + room (arenas m' a) \<subseteq># arena_memory m' a" "region m' = region m"
    using pushed by (simp_all add: pushed_def mem(1) mem'(2) [OF a] region_def)
  show "arena_memory m c \<subseteq># arena_memory m' c"
    using pushed by (cases "Some c \<in> S") (simp_all add: mem mem' pushed_def)
  show "c \<noteq> a \<Longrightarrow> c \<noteq> PAGEBLOCK_STORAGE \<Longrightarrow> arenas m' c = arenas m c"
    using pushed by (simp add: pushed_def)
qed

text \<open>Every address is in one arena or free, and only once.\<close>

lemma memory_once:
  assumes "allocates os amount m" and "system_ok os" "os_getpagesize os \<le> amount"
  shows "b \<in># arena_memory m a \<Longrightarrow> b \<notin># free_memory m" and "b \<in># arena_memory m a \<Longrightarrow> c \<noteq> a \<Longrightarrow> b \<notin># arena_memory m c"
    and "N \<subseteq># arena_memory m a \<Longrightarrow> count N b \<le> 1" and "arena_memory m a \<subseteq># region m"
    and "b \<in># arena_memory m a \<Longrightarrow> accessible m b"
proof -
  obtain S L C where inv: "arena_inv m S L C (\<lambda>_. {#}) []" and a: "Some a \<in> S"
    using allocates_obtain [OF assms(1-3)] by metis
  note parts = arena_inv_parts [OF inv] and mem = arena_inv_memory [OF inv]
  show "b \<in># arena_memory m a \<Longrightarrow> b \<notin># free_memory m"
    using owners_disjoint [OF inv a parts(2)] by (simp add: mem(1) mem(2) [OF a])
  show "b \<in># arena_memory m a \<Longrightarrow> c \<noteq> a \<Longrightarrow> b \<notin># arena_memory m c"
    using owners_disjoint [OF inv a, of "Some c"] by (cases "Some c \<in> S") (simp_all add: mem(3) mem(2) [OF a] mem(2))
  show sub: "arena_memory m a \<subseteq># region m"
    using sum_member [OF parts(1) a, of "\<lambda>i. bytes (blocks m) (L i)"] parts(11) by (simp add: mem(2) [OF a])
  show "N \<subseteq># arena_memory m a \<Longrightarrow> count N b \<le> 1"
    using region_once subset_mset.order_trans [OF _ sub] by blast
  show "b \<in># arena_memory m a \<Longrightarrow> accessible m b"
    using parts(14) [OF a] by (simp add: mem(2) [OF a])
qed

text \<open>The bytes \<open>B\<close> of the arena have been handed out: they are its own and no longer its room.\<close>

definition given :: "mem \<Rightarrow> addr \<Rightarrow> addr multiset \<Rightarrow> bool" where
  "given m a B \<longleftrightarrow> B + room (arenas m a) \<subseteq># arena_memory m a"

lemma given_memory: "given m a B \<Longrightarrow> B \<subseteq># arena_memory m a"
  unfolding given_def by (rule subset_mset.order_trans [OF mset_subset_eq_add_left])

lemma given_push:
  assumes m: "allocates os amount m" "system_ok os" "os_getpagesize os \<le> amount"
    and a: "a \<noteq> PAGEBLOCK_STORAGE" and given: "given m a B"
    and push: "c \<noteq> PAGEBLOCK_STORAGE" "sound_size (os_getpagesize os) sz" "arena_push os c sz m = Inr (p, m')"
  shows "given m' a (if c = a then B + ivl p (p + uint sz) else B)"
proof (cases "c = a")
  case False
  then have "arenas m' a = arenas m a" using push_effect(4) [OF m push, of a] a by blast
  then show ?thesis
    using subset_mset.order_trans [OF given [unfolded given_def] push_effect(3) [OF m push, of a]] False
    by (simp add: given_def)
next
  case True
  note eff = push_effect [OF m push, unfolded True]
  let ?N = "ivl p (p + uint sz) + room (arenas m' a)"
  have B: "B \<subseteq># arena_memory m a" by (rule given_memory [OF given])
  then have B': "B \<subseteq># arena_memory m' a" using eff(3) [of a] by (rule subset_mset.order_trans)
  from eff(1) have "B + ?N \<subseteq># arena_memory m' a"
  proof
    assume "?N \<subseteq># room (arenas m a)"
    then have "B + ?N \<subseteq># B + room (arenas m a)" by simp
    with given eff(3) [of a] show ?thesis unfolding given_def by (metis subset_mset.order_trans)
  next
    assume free: "?N \<subseteq># free_memory m"
    show ?thesis
    proof (rule mset_subset_eqI)
      fix b
      have "count B b = 0 \<or> count ?N b = 0"
        using memory_once(1) [OF m, of b a] mset_subset_eqD [OF B, of b] mset_subset_eqD [OF free, of b]
        by (auto simp: count_eq_zero_iff simp del: union_iff)
      moreover have "count B b \<le> count (arena_memory m' a) b" "count ?N b \<le> count (arena_memory m' a) b"
        using B' eff(2) by (simp_all only: mset_subset_eq_count)
      ultimately show "count (B + ?N) b \<le> count (arena_memory m' a) b" by auto
    qed
  qed
  then show ?thesis by (simp add: True given_def add_ac)
qed

lemma given_follows:
  assumes m: "allocates os amount m" "system_ok os" "os_getpagesize os \<le> amount" and a: "a \<noteq> PAGEBLOCK_STORAGE"
  shows "follows os a m k m' \<Longrightarrow> given m a B \<Longrightarrow> \<exists>B'. given m' a (B + B') \<and> k \<le> size B'"
proof (induction rule: follows.induct)
  case start
  then show ?case by (intro exI [of _ "{#}"]) simp
next
  case (push k m1 c sz p m2)
  then obtain B' where B': "given m1 a (B + B')" "k \<le> size B'" by blast
  have "0 < uint sz" using push.hyps(3) by (simp add: sound_size_def word_less_def)
  then have "0 < size (ivl p (p + uint sz))" using size_ivl [of p "p + uint sz"] by linarith
  with B'(2) given_push [OF follows_allocates [OF push.hyps(1) m(1)] m(2,3) a B'(1) push.hyps(2-4)] show ?case
    by (intro exI [of _ "if c = a then B' + ivl p (p + uint sz) else B'"]) (auto simp: add_ac)
next
  case (delete k m1 c m2)
  then obtain B' where B': "given m1 a (B + B')" "k \<le> size B'" by blast
  have "arena_memory m2 a = arena_memory m1 a" "arenas m2 a = arenas m1 a"
    using delete_effect [OF follows_allocates [OF delete.hyps(1) m(1)] m(2,3) delete.hyps(2,4)] delete.hyps(3) by simp_all
  with B' show ?case by (intro exI [of _ B']) (simp add: given_def)
qed

text \<open>Without a delete, the pushes on an arena come to an end: each takes a byte of the reserved range.\<close>

lemma pushes_bounded:
  assumes "allocates os amount m" "system_ok os" "os_getpagesize os \<le> amount" "a \<noteq> PAGEBLOCK_STORAGE" "follows os a m k m'"
  shows "k \<le> size (region m)"
proof -
  have "room (arenas m a) \<subseteq># arena_memory m a"
    using arena_memory_room [OF assms(1-3)] .
  then obtain B where B: "given m' a B" "k \<le> size B"
    using given_follows [OF assms(1-5), of "{#}"] by (auto simp: given_def)
  have "B \<subseteq># region m'"
    using given_memory [OF B(1)] memory_once(4) [OF follows_allocates [OF assms(5,1)] assms(2,3), of a]
    by (rule subset_mset.order_trans)
  moreover have "region m' = region m"
    using assms(5,1-3)
  proof (induction rule: follows.induct)
    case (push k m1 c sz p m2)
    then show ?case using push_effect(5) [OF follows_allocates [OF push.hyps(1)] _ _ push.hyps(2-4)] by simp
  next
    case (delete k m1 c m2)
    obtain S L C where inv: "arena_inv m1 S L C (\<lambda>_. {#}) []" and c: "Some c \<in> S"
      using allocates_obtain [OF follows_allocates [OF delete.hyps(1) delete.prems(1)] delete.prems(2,3)] by metis
    then have "region m2 = region m1"
      using wp_InrD [OF arena_delete_wp [OF inv c delete.hyps(2)] delete.hyps(4)] by (auto simp: deleted_def region_def)
    with delete show ?case by simp
  qed simp
  ultimately show ?thesis using B(2) size_mset_mono [of B "region m"] by simp
qed

text \<open>
  C13: \<open>arena_push\<close> hands out unused memory: every byte it returns was room of the arena or free
  before; afterwards it is accessible, belongs to that arena and to no other, and is not free. No
  arena loses memory, and the record of every other client is as it was. However pushes on any arena
  and deletes of other arenas follow, no later push returns a byte of it until the arena is deleted.
\<close>

theorem arena_push_hands_out_unused_memory:
  assumes "allocates os amount m" and "system_ok os" "os_getpagesize os \<le> amount"
    and "a \<noteq> PAGEBLOCK_STORAGE" "sound_size (os_getpagesize os) sz" and push: "arena_push os a sz m = Inr (p, m')"
  shows "(\<forall>b. p \<le> b \<and> b < p + uint sz \<longrightarrow> (b \<in># room (arenas m a) \<or> b \<in># free_memory m) \<and>
      accessible m' b \<and> b \<in># arena_memory m' a \<and> b \<notin># room (arenas m' a) \<and> b \<notin># free_memory m' \<and>
      (\<forall>c. c \<noteq> a \<longrightarrow> b \<notin># arena_memory m' c)) \<and>
    (\<forall>c. arena_memory m c \<subseteq># arena_memory m' c) \<and>
    (\<forall>c. c \<noteq> a \<and> c \<noteq> PAGEBLOCK_STORAGE \<longrightarrow> arenas m' c = arenas m c) \<and>
    (\<forall>k m1 c n q m2. follows os a m' k m1 \<and> c \<noteq> PAGEBLOCK_STORAGE \<and> sound_size (os_getpagesize os) n \<and>
       arena_push os c n m1 = Inr (q, m2) \<longrightarrow> {p..<p + uint sz} \<inter> {q..<q + uint n} = {})"
proof (intro conjI allI impI)
  note eff = push_effect [OF assms]
  have m': "allocates os amount m'" by (rule allocates.push [OF assms(1,4-6)])
  note once = memory_once [OF m' assms(2,3)]
  fix b assume b: "p \<le> b \<and> b < p + uint sz"
  then have b': "b \<in># ivl p (p + uint sz)" by (simp add: in_ivl)
  then show own: "b \<in># arena_memory m' a" using eff(2) by (auto dest: mset_subset_eqD)
  show "b \<in># room (arenas m a) \<or> b \<in># free_memory m" using eff(1) b' by (auto dest: mset_subset_eqD)
  show "accessible m' b" "b \<notin># free_memory m'" using once(1,5) [OF own] by simp_all
  show "b \<notin># room (arenas m' a)"
    using once(3) [OF eff(2), of b] b by (auto simp: count_ivl simp flip: count_greater_zero_iff)
  show "b \<notin># arena_memory m' c" if "c \<noteq> a" for c using once(2) [OF own that] .
next
  show "arena_memory m c \<subseteq># arena_memory m' c" for c by (rule push_effect(3) [OF assms])
  show "arenas m' c = arenas m c" if "c \<noteq> a \<and> c \<noteq> PAGEBLOCK_STORAGE" for c using push_effect(4) [OF assms] that by blast
next
  fix k m1 c n q m2
  assume later: "follows os a m' k m1 \<and> c \<noteq> PAGEBLOCK_STORAGE \<and> sound_size (os_getpagesize os) n \<and> arena_push os c n m1 = Inr (q, m2)"
  let ?B = "ivl p (p + uint sz)" and ?N = "ivl q (q + uint n)"
  have m': "allocates os amount m'" by (rule allocates.push [OF assms(1,4-6)])
  have "given m' a ?B" using push_effect(2) [OF assms] by (simp add: given_def)
  from given_follows [OF m' assms(2-4) _ this] later obtain B' where g: "given m1 a (?B + B')" by blast
  have m1: "allocates os amount m1" using follows_allocates m' later by blast
  note push1 = later [THEN conjunct2, THEN conjunct1] later [THEN conjunct2, THEN conjunct2, THEN conjunct1]
    later [THEN conjunct2, THEN conjunct2, THEN conjunct2]
  have m2: "allocates os amount m2" by (rule allocates.push [OF m1 push1])
  note g2 = given_push [OF m1 assms(2-4) g push1]
  show "{p..<p + uint sz} \<inter> {q..<q + uint n} = {}"
  proof (rule equals0I)
    fix b assume "b \<in> {p..<p + uint sz} \<inter> {q..<q + uint n}"
    then have b: "b \<in># ?B" "b \<in># ?N" by (simp_all add: in_ivl)
    show False
    proof (cases "c = a")
      case True
      then have "?B + ?N \<subseteq># arena_memory m2 a"
        using g2 unfolding given_def
        by (simp add: add_ac) (metis (no_types, lifting) add.commute add.left_commute mset_subset_eq_add_left subset_mset.order_trans)
      from memory_once(3) [OF m2 assms(2,3) this, of b] b show False
        by (simp add: in_ivl count_ivl)
    next
      case False
      have "b \<in># arena_memory m2 a" using g2 b(1) False by (auto simp: given_def dest: mset_subset_eqD)
      moreover have "b \<in># arena_memory m2 c"
        using push_effect(2) [OF m1 assms(2,3) push1] b(2) by (auto dest: mset_subset_eqD)
      ultimately show False using memory_once(2) [OF m2 assms(2,3)] False by blast
    qed
  qed
qed

theorem arena_push_hands_out_unused_memory_witness:
  "\<exists>m m'. allocates sample_os 32768 m \<and> arena_push sample_os 100 64 m = Inr (69632, m') \<and>
     69650 \<in># arena_memory m' 100 \<and> 69650 \<notin># arena_memory m' PAGEBLOCK_STORAGE \<and> 69650 \<notin># free_memory m'"
proof -
  obtain m where m: "init_memory sample_os 32768 boot_mem = Inr ((), m)" "allocates sample_os 32768 m"
    using sample_start by blast
  obtain m' where push: "arena_push sample_os 100 64 m = Inr (69632, m')" using sample_push [OF m(1)] by blast
  have "100 \<noteq> PAGEBLOCK_STORAGE" "sound_size (os_getpagesize sample_os) 64"
    by (simp_all add: PAGEBLOCK_STORAGE_def sound_size_def sample_os_def)
  note fresh = arena_push_hands_out_unused_memory [OF m(2) sample_os_ok this push, THEN conjunct1, rule_format, of 69650]
  have "69650 \<in># arena_memory m' 100" "69650 \<notin># free_memory m'"
    "\<And>c. c \<noteq> 100 \<longrightarrow> 69650 \<notin># arena_memory m' c" using fresh by simp_all
  with m(2) push show ?thesis by (auto simp: PAGEBLOCK_STORAGE_def)
qed

text \<open>
  C22: \<open>arena_push\<close> ends, and it fails in two ways only: out of memory, when no free block has the size
  or when the pages for it would be the last free ones, so that none is left for a descriptor; or by the
  exit behind \<open>mprotect\<close>, when the system refuses to open a range of free memory. \<open>arena_delete\<close>
  ends as well, and fails only by that exit, when the system refuses to close a range of the arena.
\<close>

theorem arena_fails_only_when_refused:
  assumes "allocates os amount m" and "system_ok os" "os_getpagesize os \<le> amount"
    and "a \<noteq> PAGEBLOCK_STORAGE" "sound_size (os_getpagesize os) sz"
  shows "(\<forall>f. arena_push os a sz m = Inl f \<longrightarrow>
      f = Out_of_memory \<and>
        ((\<forall>x \<in> set (list_nodes (walk_fuel m) (blocks m) (block_freelist_head m)).
            memory_end (blocks m x) - memory_begin (blocks m x) < uint sz) \<or>
         int (size (free_memory m)) = page_up (page_size m) sz) \<or>
      f = Error_exit 0 ''mprotect'' '''' \<and> (\<exists>b len. \<not> os_mprotect os b len True \<and> ivl b (b + len) \<subseteq># free_memory m)) \<and>
    (\<forall>f. arena_delete os a m = Inl f \<longrightarrow>
      f = Error_exit 0 ''mprotect'' '''' \<and> (\<exists>b len. \<not> os_mprotect os b len False \<and> ivl b (b + len) \<subseteq># arena_memory m a))"
proof -
  obtain S L C where inv: "arena_inv m S L C (\<lambda>_. {#}) []" and a: "Some a \<in> S" and ps: "page_size m = os_getpagesize os"
    using allocates_obtain [OF assms(1-3)] by metis
  note parts = arena_inv_parts [OF inv]
  have sz: "sound_size (page_size m) sz" using assms(5) ps by simp
  have nodes: "list_nodes (walk_fuel m) (blocks m) (block_freelist_head m) = L None"
    using list_nodes_path [OF parts(9) [OF parts(2)] arena_inv_length [OF inv parts(2)]] by (simp add: head_of_def)
  show ?thesis
    using wp_InlD [OF client_push [OF inv assms(4) a sz]] wp_InlD [OF arena_delete_wp [OF inv a assms(4)]]
    unfolding push_refused_def protection_refused_def too_small_def nodes arena_inv_memory(1) [OF inv] arena_inv_memory(2) [OF inv a]
    by blast
qed

theorem arena_fails_only_when_refused_witness:
  "\<exists>m. allocates sample_os 32768 m \<and>
     (\<forall>f. arena_push sample_os 100 5000 m = Inl f \<longrightarrow> f = Out_of_memory)"
proof -
  obtain m where m: "allocates sample_os 32768 m" using sample_start by blast
  have "100 \<noteq> PAGEBLOCK_STORAGE" "sound_size (os_getpagesize sample_os) 5000"
    by (simp_all add: PAGEBLOCK_STORAGE_def sound_size_def sample_os_def)
  with arena_fails_only_when_refused [OF m sample_os_ok this] m show ?thesis by (auto simp: sample_os_def)
qed

text \<open>
  C23: \<open>arena_delete\<close> gives everything back: the memory of the arena is added to the free memory
  and is accessible no more, the arena is empty, and every other arena keeps its memory.
\<close>

theorem arena_delete_frees_memory:
  assumes "allocates os amount m" and "system_ok os" "os_getpagesize os \<le> amount"
    and "a \<noteq> PAGEBLOCK_STORAGE" and delete: "arena_delete os a m = Inr ((), m')"
  shows "free_memory m' = free_memory m + arena_memory m a \<and> arena_memory m' a = {#} \<and> arenas m' a = zero_arena \<and>
    (\<forall>b \<in># arena_memory m a. \<not> accessible m' b) \<and>
    (\<forall>c. c \<noteq> a \<longrightarrow> arena_memory m' c = arena_memory m c \<and> arenas m' c = arenas m c)"
  by (rule delete_effect [OF assms])

theorem arena_delete_frees_memory_witness:
  "\<exists>m m'. allocates sample_os 32768 m \<and> arena_delete sample_os 100 m = Inr ((), m') \<and> arenas m' 100 = zero_arena"
proof -
  obtain m where start: "init_memory sample_os 32768 boot_mem = Inr ((), m)" "allocates sample_os 32768 m"
    using sample_start by blast
  obtain m1 where push: "arena_push sample_os 100 64 m = Inr (69632, m1)" using sample_push [OF start(1)] by blast
  have arena: "100 \<noteq> PAGEBLOCK_STORAGE" "sound_size (os_getpagesize sample_os) 64"
    by (simp_all add: PAGEBLOCK_STORAGE_def sound_size_def sample_os_def)
  have m1: "allocates sample_os 32768 m1" by (rule allocates.push [OF start(2) arena push])
  obtain S L C where inv: "arena_inv m1 S L C (\<lambda>_. {#}) []" and a: "Some 100 \<in> S"
    using allocates_obtain [OF m1 sample_os_ok] by metis
  have "\<not> protection_refused sample_os False M f" for M f by (simp add: protection_refused_def sample_os_def)
  then obtain m' where del: "arena_delete sample_os 100 m1 = Inr ((), m')"
    using wp_InlD [OF arena_delete_wp [OF inv a arena(1)], of sample_os] by (cases "arena_delete sample_os 100 m1") auto
  from arena_delete_frees_memory [OF m1 sample_os_ok arena(1) del] del m1 show ?thesis by blast
qed

end
