(* ===== verification/Xdp.thy ===== *)
theory Xdp
  imports Hash
begin

text \<open>
  The packet programs of ebpf/ (xdp_parse_kern.c, xdp_ip_fixup_kern.c, xdp_redirect_user_kern.c,
  count_packets_kern.c, xdp_example_drop.c, xdp_hello_world.c) and the statistics loops of their
  loaders (xdp_redirect_user.c, count_packets.c).

  A packet is its list of bytes; a pointer into it is an offset, and \<open>data_end\<close> is its length.
  A read or write that does not lie inside the packet is a \<open>Bad_access\<close>. What the programs take
  from the kernel's headers (the sizes of headers, the offsets of fields, protocol numbers, the
  result codes, \<open>bpf_redirect\<close>) is the record \<open>linux_headers\<close>, an argument of the definitions;
  \<open>headers_ok\<close> states its documented values. \<open>bpf_debug\<close> only prints; the reads of its arguments
  are kept.
\<close>

unbundle bit_operations_syntax

type_synonym u8 = "8 word"
type_synonym u16 = "16 word"
type_synonym packet = "u8 list"

record linux_headers =
  little_endian :: bool
  sizeof_ethhdr :: nat
  h_proto_at :: nat
  sizeof_iphdr :: nat
  protocol_at :: nat
  sizeof_tcphdr :: nat
  tcp_source_at :: nat
  tcp_dest_at :: nat
  sizeof_arphdr :: nat
  ETH_ALEN :: nat
  ETH_P_IP :: u16
  ETH_P_ARP :: u16
  IPPROTO_TCP :: u8
  XDP_DROP :: int
  XDP_PASS :: int
  bpf_redirect :: "int \<Rightarrow> int \<Rightarrow> int"

definition headers_ok :: "linux_headers \<Rightarrow> bool" where
  "headers_ok H \<longleftrightarrow> sizeof_ethhdr H = 14 \<and> h_proto_at H = 12 \<and> sizeof_iphdr H = 20 \<and> protocol_at H = 9 \<and>
     sizeof_tcphdr H = 20 \<and> tcp_source_at H = 0 \<and> tcp_dest_at H = 2 \<and> sizeof_arphdr H = 8 \<and> ETH_ALEN H = 6 \<and>
     ETH_P_IP H = 0x0800 \<and> ETH_P_ARP H = 0x0806 \<and> IPPROTO_TCP H = 6 \<and> XDP_DROP H = 1 \<and> XDP_PASS H = 2"

section \<open>Memory and byte order\<close>

definition load8 :: "packet \<Rightarrow> nat \<Rightarrow> u8 result" where
  "load8 p i = rd p i"

definition word16 :: "bool \<Rightarrow> u8 \<Rightarrow> u8 \<Rightarrow> u16" where
  "word16 little x y =
     word_of_int (if little then uint x + 2 ^ 8 * uint y else 2 ^ 8 * uint x + uint y)"

definition word32 :: "bool \<Rightarrow> u8 \<Rightarrow> u8 \<Rightarrow> u8 \<Rightarrow> u8 \<Rightarrow> u32" where
  "word32 little x y z w =
     (if little then ucast x OR push_bit 8 (ucast y) OR push_bit 16 (ucast z) OR push_bit 24 (ucast w)
      else push_bit 24 (ucast x) OR push_bit 16 (ucast y) OR push_bit 8 (ucast z) OR ucast w)"

definition load16 :: "linux_headers \<Rightarrow> packet \<Rightarrow> nat \<Rightarrow> u16 result" where
  "load16 H p i =
     (if i + 2 \<le> length p then Inr (word16 (little_endian H) (p ! i) (p ! (i + 1))) else Inl Bad_access)"

definition load32 :: "linux_headers \<Rightarrow> packet \<Rightarrow> nat \<Rightarrow> u32 result" where
  "load32 H p i =
     (if i + 4 \<le> length p
      then Inr (word32 (little_endian H) (p ! i) (p ! (i + 1)) (p ! (i + 2)) (p ! (i + 3)))
      else Inl Bad_access)"

definition store32 :: "linux_headers \<Rightarrow> packet \<Rightarrow> nat \<Rightarrow> u32 \<Rightarrow> packet result" where
  "store32 H p i v =
     (if i + 4 \<le> length p then
        (let b = (\<lambda>k. word_of_int (uint v div 2 ^ (8 * k)) :: u8)
         in Inr (if little_endian H then p[i := b 0, i + 1 := b 1, i + 2 := b 2, i + 3 := b 3]
                 else p[i := b 3, i + 1 := b 2, i + 2 := b 1, i + 3 := b 0]))
      else Inl Bad_access)"

text \<open>bpf_endian.h: the swaps of the little-endian case, the identity of the other.\<close>

definition bswap16 :: "u16 \<Rightarrow> u16" where
  "bswap16 x = (drop_bit 8 x AND 0xff) OR push_bit 8 (x AND 0xff)"

definition bswap32 :: "u32 \<Rightarrow> u32" where
  "bswap32 x = (drop_bit 24 x AND 0xff) OR (push_bit 8 (drop_bit 16 x AND 0xff)) OR
     (push_bit 16 (drop_bit 8 x AND 0xff)) OR push_bit 24 (x AND 0xff)"

definition bpf_htons :: "linux_headers \<Rightarrow> u16 \<Rightarrow> u16" where
  "bpf_htons H x = (if little_endian H then bswap16 x else x)"

definition bpf_htonl :: "linux_headers \<Rightarrow> u32 \<Rightarrow> u32" where
  "bpf_htonl H x = (if little_endian H then bswap32 x else x)"

section \<open>xdp\_parse\_kern.c\<close>

text \<open>
  Each parser returns its result, the new position of the cursor and the header found there; the
  \<open>-1\<close> of a failed check is converted to the type of the result.
\<close>

definition parse_ethhdr :: "linux_headers \<Rightarrow> packet \<Rightarrow> nat \<Rightarrow> (u16 \<times> nat \<times> nat option) result" where
  "parse_ethhdr H p pos =
     (if pos + sizeof_ethhdr H > length p then Inr (- 1, pos, None)
      else bnd_r (load16 H p (pos + h_proto_at H)) (\<lambda>h_proto.
           Inr (h_proto, pos + sizeof_ethhdr H, Some pos)))"

definition parse_iphdr :: "linux_headers \<Rightarrow> packet \<Rightarrow> nat \<Rightarrow> (u8 \<times> nat \<times> nat option) result" where
  "parse_iphdr H p pos =
     (if pos + sizeof_iphdr H > length p then Inr (- 1, pos, None)
      else bnd_r (load8 p (pos + protocol_at H)) (\<lambda>protocol.
           Inr (protocol, pos + sizeof_iphdr H, Some pos)))"

definition parse_tcphdr :: "linux_headers \<Rightarrow> packet \<Rightarrow> nat \<Rightarrow> int \<times> nat \<times> nat option" where
  "parse_tcphdr H p pos =
     (if pos + sizeof_tcphdr H > length p then (- 1, pos, None)
      else (0, pos + sizeof_tcphdr H, Some pos))"

text \<open>A null or unset header pointer is not followed.\<close>

definition field16 :: "linux_headers \<Rightarrow> packet \<Rightarrow> nat option \<Rightarrow> nat \<Rightarrow> u16 result" where
  "field16 H p hdr off = (case hdr of None \<Rightarrow> Inl Bad_access | Some i \<Rightarrow> load16 H p (i + off))"

definition xdp_parser_func :: "linux_headers \<Rightarrow> packet \<Rightarrow> int result" where
  "xdp_parser_func H p =
     bnd_r (parse_ethhdr H p 0) (\<lambda>(nh_type, pos, eth).
     if nh_type \<noteq> bpf_htons H (ETH_P_IP H) then Inr (XDP_DROP H)
     else bnd_r (parse_iphdr H p pos) (\<lambda>(ip_proto, pos, ip).
     if ip_proto \<noteq> IPPROTO_TCP H then Inr (XDP_DROP H)
     else case parse_tcphdr H p pos of (r, pos, tcp) \<Rightarrow>
       if r < 0 then Inr (XDP_DROP H)
       else bnd_r (field16 H p tcp (tcp_source_at H)) (\<lambda>source.
            bnd_r (field16 H p tcp (tcp_dest_at H)) (\<lambda>dest.
            Inr (XDP_PASS H)))))"

section \<open>xdp\_ip\_fixup\_kern.c\<close>

text \<open>\<open>struct ether_arp\<close> is packed: two hardware addresses and two IP addresses in turn.\<close>

definition ar_sip_at :: "linux_headers \<Rightarrow> nat" where "ar_sip_at H = ETH_ALEN H"
definition sizeof_ether_arp :: "linux_headers \<Rightarrow> nat" where "sizeof_ether_arp H = ETH_ALEN H + 4 + ETH_ALEN H + 4"

definition parse_arphdr :: "linux_headers \<Rightarrow> packet \<Rightarrow> nat \<Rightarrow> u8 \<times> nat \<times> nat option" where
  "parse_arphdr H p pos =
     (if pos + sizeof_arphdr H > length p then (- 1, pos, None)
      else (0, pos + sizeof_arphdr H, Some pos))"

definition parse_ether_arp :: "linux_headers \<Rightarrow> packet \<Rightarrow> nat \<Rightarrow> u8 \<times> nat \<times> nat option" where
  "parse_ether_arp H p pos =
     (if pos + sizeof_ether_arp H > length p then (- 1, pos, None)
      else (0, pos + sizeof_ether_arp H, Some pos))"

text \<open>The test \<open>0 \<le> \<dots>\<close> of the code is on an unsigned value.\<close>

definition fix_sender :: "linux_headers \<Rightarrow> packet \<Rightarrow> nat \<Rightarrow> packet result" where
  "fix_sender H p arp_body =
     bnd_r (load32 H p (arp_body + ar_sip_at H)) (\<lambda>ar_sip.
     if bpf_htonl H ar_sip \<ge> 0 \<and> bpf_htonl H ar_sip \<le> 255
     then store32 H p (arp_body + ar_sip_at H) 16777217
     else Inr p)"

definition xdp_ip_fixup_prog :: "linux_headers \<Rightarrow> packet \<Rightarrow> (int \<times> packet) result" where
  "xdp_ip_fixup_prog H p =
     bnd_r (parse_ethhdr H p 0) (\<lambda>(nh_type, pos, eth).
     if nh_type \<noteq> bpf_htons H (ETH_P_ARP H) then Inr (XDP_PASS H, p)
     else case parse_arphdr H p pos of (r, pos, arp) \<Rightarrow>
       if r \<noteq> 0 then Inr (XDP_PASS H, p)
       else case parse_ether_arp H p pos of (r, pos, arp_body) \<Rightarrow>
         if r \<noteq> 0 then Inr (XDP_PASS H, p)
         else case arp_body of None \<Rightarrow> Inl Bad_access
              | Some body \<Rightarrow> bnd_r (fix_sender H p body) (\<lambda>p'. Inr (XDP_PASS H, p')))"

section \<open>xdp\_example\_drop.c, xdp\_hello\_world.c\<close>

definition parse_eth :: "linux_headers \<Rightarrow> packet \<Rightarrow> (bool \<times> u16) result" where
  "parse_eth H p =
     (if sizeof_ethhdr H > length p then Inr (False, 0)
      else bnd_r (load16 H p (h_proto_at H)) (\<lambda>h_proto. Inr (True, h_proto)))"

definition xdp_drop :: "linux_headers \<Rightarrow> packet \<Rightarrow> int result" where
  "xdp_drop H p =
     bnd_r (parse_eth H p) (\<lambda>(parsed, eth_type).
     if \<not> parsed then Inr (XDP_PASS H)
     else if eth_type = bswap16 0x86dd then Inr (XDP_PASS H)
     else Inr (XDP_DROP H))"

definition xdp_dummy :: "linux_headers \<Rightarrow> int" where
  "xdp_dummy H = XDP_PASS H"

section \<open>xdp\_redirect\_user\_kern.c, count\_packets\_kern.c\<close>

text \<open>
  The maps: \<open>bpf_map_lookup_elem\<close> gives the place of the value under a key, or null. The counter
  is a \<open>long\<close> of this CPU.
\<close>

record maps =
  tx_port :: "u32 \<Rightarrow> int option"
  rxcnt :: "u32 \<Rightarrow> u64 option"

definition count_packet :: "u32 \<Rightarrow> maps \<Rightarrow> maps" where
  "count_packet key ms =
     (case rxcnt ms key of None \<Rightarrow> ms
      | Some v \<Rightarrow> ms\<lparr>rxcnt := (rxcnt ms)(key \<mapsto> v + 1)\<rparr>)"

definition redirect_from :: "linux_headers \<Rightarrow> u32 \<Rightarrow> packet \<Rightarrow> maps \<Rightarrow> int \<times> maps" where
  "redirect_from H port p ms =
     (if sizeof_ethhdr H > length p then (XDP_DROP H, ms)
      else case tx_port ms port of None \<Rightarrow> (XDP_DROP H, ms)
      | Some ifindex \<Rightarrow> (bpf_redirect H ifindex 0, count_packet port ms))"

definition xdp_redirect_prog :: "linux_headers \<Rightarrow> packet \<Rightarrow> maps \<Rightarrow> int \<times> maps" where
  "xdp_redirect_prog H = redirect_from H 0"

definition xdp_redirect_reverse_prog :: "linux_headers \<Rightarrow> packet \<Rightarrow> maps \<Rightarrow> int \<times> maps" where
  "xdp_redirect_reverse_prog H = redirect_from H 1"

definition count_packets_prog :: "linux_headers \<Rightarrow> maps \<Rightarrow> int \<times> maps" where
  "count_packets_prog H ms = (XDP_DROP H, count_packet 0 ms)"

section \<open>The loaders\<close>

text \<open>
  xdp\_redirect\_user.c: the arguments that follow the options name the two interfaces
  (\<open>strtoul\<close> on a null pointer is a \<open>Bad_access\<close>; \<open>None\<close> is the usage message), which become
  the two entries of \<open>tx_port\<close>. An update that fails ends the program.
\<close>

text \<open>The \<open>unsigned long\<close> that \<open>strtoul\<close> returns is stored in an \<open>int\<close>.\<close>

definition ifindex_of :: "(string \<Rightarrow> u64) \<Rightarrow> string \<Rightarrow> int" where
  "ifindex_of strtoul s = sint (ucast (strtoul s) :: u32)"

definition interfaces :: "(string \<Rightarrow> u64) \<Rightarrow> string list \<Rightarrow> (int \<times> int) option result" where
  "interfaces strtoul operands =
     (case operands of [] \<Rightarrow> Inr None
      | [ifindex_in] \<Rightarrow> Inl Bad_access
      | ifindex_in # ifindex_out # _ \<Rightarrow> Inr (Some (ifindex_of strtoul ifindex_in, ifindex_of strtoul ifindex_out)))"

definition set_ports :: "(u32 \<Rightarrow> int \<Rightarrow> maps \<Rightarrow> maps option) \<Rightarrow> int \<Rightarrow> int \<Rightarrow> maps \<Rightarrow> maps option" where
  "set_ports bpf_map_update_elem ifindex_in ifindex_out ms =
     Option.bind (bpf_map_update_elem 0 ifindex_out ms) (bpf_map_update_elem 1 ifindex_in)"

text \<open>
  The arrays \<open>values\<close> and \<open>prev\<close> have a row of counters per key, one for every CPU. A round of
  \<open>poll_stats\<close> reads a row from the kernel (here its argument), adds up how much the counters
  have grown, and keeps the row.
\<close>

definition memset_row :: "nat \<Rightarrow> u64 list list \<Rightarrow> nat \<Rightarrow> u64 list list result" where
  "memset_row nr_cpus prev i =
     (if i < length prev then Inr (prev[i := replicate nr_cpus 0]) else Inl Bad_access)"

definition start_prev :: "nat \<Rightarrow> u64 list list \<Rightarrow> u64 list list result" where
  "start_prev nr_cpus prev =
     bnd_r (memset_row nr_cpus prev 0) (\<lambda>prev. memset_row nr_cpus prev 1)"

definition add_growth :: "u64 \<Rightarrow> u64 list \<Rightarrow> u64 list \<Rightarrow> u64" where
  "add_growth acc values prev = foldl (\<lambda>s (v, w). s + (v - w)) acc (zip values prev)"

text \<open>xdp_redirect_user.c: the sum starts at 0 for every key, \<open>values\<close> holds both rows.\<close>

fun poll_round :: "u64 list list \<Rightarrow> u64 list list \<Rightarrow> u64 list \<times> u64 list list" where
  "poll_round (v # values) (w # prev) =
     (case poll_round values prev of (sums, prev') \<Rightarrow> (add_growth 0 v w # sums, v # prev'))"
| "poll_round values prev = ([], prev)"

text \<open>
  count_packets.c: one key, and the sum goes on from round to round. The rows cleared before the first round are
  \<open>start_prev\<close>.
\<close>

definition count_round :: "u64 list \<Rightarrow> u64 \<times> u64 list \<Rightarrow> u64 \<times> u64 list" where
  "count_round values = (\<lambda>(acc, prev). (add_growth acc values prev, values))"

end
