(* ===== verification/XdpProps.thy ===== *)
theory XdpProps
  imports Xdp
begin

text \<open>
  The verdicts of the packet programs as conditions on the bytes of the packet, for both byte
  orders, and without a read outside the packet; the effect of the redirect programs together with
  the loader that fills their maps; what the statistics add up to.
\<close>

unbundle bit_operations_syntax

section \<open>Bytes, words and byte order\<close>

lemma uint_byte: "0 \<le> uint (x :: u8)" "uint (x :: u8) < 256"
  using uint_bounded [of x] by simp_all

lemma uint_eq: "0 \<le> m \<Longrightarrow> m < 256 \<Longrightarrow> uint (x :: u8) = m \<longleftrightarrow> x = word_of_int m"
  by (auto simp: word_uint_eq_iff uint_word_of_int)

lemma uint_word16:
  "uint (word16 little x y) = (if little then uint x + 256 * uint y else 256 * uint x + uint y)"
  using uint_byte [of x] uint_byte [of y] unfolding word16_def by (simp only: uint_word_of_int) simp

lemma byte_bit: "bit (x :: u8) n \<Longrightarrow> n < 8"
  using bit_imp_le_length [of x n] by simp

lemma byte_high: "8 \<le> n \<Longrightarrow> \<not> bit (x :: u8) n"
  using byte_bit [of x n] by auto

lemma bit_255: "bit (255 :: u32) k \<longleftrightarrow> k < 8"
proof -
  have "bit (mask 8 :: u32) k \<longleftrightarrow> k < 8"
    by (auto simp only: bit_mask_iff possible_bit_word) simp
  then show ?thesis
    by (simp add: mask_eq_exp_minus_1)
qed

lemmas word_bits = bit_or_iff bit_and_iff bit_push_bit_iff bit_drop_bit_eq bit_ucast_iff possible_bit_word bit_255 byte_high o_apply

lemma bswap32_word32: "bswap32 (word32 True x y z w) = word32 False x y z w"
proof (rule bit_eqI)
  fix n
  assume "possible_bit TYPE(u32) n"
  then have "n < 32"
    by (simp add: possible_bit_word)
  then consider k where "n = k" "k < 8" | k where "n = k + 8" "k < 8" | k where "n = k + 16" "k < 8" | k where "n = k + 24" "k < 8"
    using that(1) [of n] that(2) [of "n - 8"] that(3) [of "n - 16"] that(4) [of "n - 24"] by arith
  then show "bit (bswap32 (word32 True x y z w)) n \<longleftrightarrow> bit (word32 False x y z w) n"
    unfolding bswap32_def word32_def by cases (simp_all only: word_bits if_True if_False, simp_all add: byte_high)
qed

lemma le_byte_iff: "(v :: u32) \<le> 255 \<longleftrightarrow> (\<forall>n. 8 \<le> n \<longrightarrow> \<not> bit v n)"
proof -
  have "v \<le> 255 \<longleftrightarrow> take_bit 8 (uint v) = uint v"
    using take_bit_int_eq_self_iff [of 8 "uint v"] by (auto simp: word_le_def)
  also have "\<dots> \<longleftrightarrow> (\<forall>n. 8 \<le> n \<longrightarrow> \<not> bit v n)"
    by (simp add: bit_eq_iff bit_take_bit_iff) (metis bit_imp_le_length bit_uint_iff not_le)
  finally show ?thesis .
qed

lemma word32_low: "word32 False x y z w \<le> 255 \<longleftrightarrow> x = 0 \<and> y = 0 \<and> z = 0"
proof
  assume "word32 False x y z w \<le> 255"
  then have h: "\<not> bit (word32 False x y z w) n" if "8 \<le> n" for n
    using that by (simp add: le_byte_iff)
  have "\<not> bit x n \<and> \<not> bit y n \<and> \<not> bit z n" if "n < 8" for n
    using h [of "n + 24"] h [of "n + 16"] h [of "n + 8"] that by (simp add: word32_def word_bits)
  then show "x = 0 \<and> y = 0 \<and> z = 0"
    by (auto simp: bit_eq_iff dest: byte_bit)
next
  assume "x = 0 \<and> y = 0 \<and> z = 0"
  then show "word32 False x y z w \<le> 255"
    by (simp add: le_byte_iff word32_def word_bits)
qed

lemma network_low_byte:
  "bpf_htonl H (word32 (little_endian H) x y z w) \<le> 255 \<longleftrightarrow> x = 0 \<and> y = 0 \<and> z = 0"
  by (cases "little_endian H") (simp_all add: bpf_htonl_def bswap32_word32 word32_low)

text \<open>A field in network order compares with a constant byte by byte.\<close>

lemma pair_eq:
  fixes a b m n :: int
  assumes "0 \<le> b" "b < 256" "0 \<le> n" "n < 256"
  shows "(256 * a + b = 256 * m + n) \<longleftrightarrow> a = m \<and> b = n"
proof
  assume e: "256 * a + b = 256 * m + n"
  then have "(256 * a + b) mod 256 = (256 * m + n) mod 256"
    by simp
  then have "b = n"
    using assms by simp
  with e show "a = m \<and> b = n"
    by simp
qed simp

lemma word16_eq:
  assumes "0 \<le> m" "m < 256" "0 \<le> n" "n < 256"
  shows "word16 little x y = (if little then word_of_int (m + 256 * n) else word_of_int (256 * m + n))
    \<longleftrightarrow> x = word_of_int m \<and> y = word_of_int n"
proof -
  have "uint (word_of_int (m + 256 * n) :: u16) = m + 256 * n" "uint (word_of_int (256 * m + n) :: u16) = 256 * m + n"
    using assms by (simp_all only: uint_word_of_int) simp_all
  then show ?thesis
    using pair_eq [of "uint y" n "uint x" m] pair_eq [of "uint x" m "uint y" n] assms uint_byte [of x] uint_byte [of y]
      uint_eq [of m x] uint_eq [of n y]
    by (auto simp only: word_uint_eq_iff [where 'a = 16] uint_word16 add.commute split: if_splits)
qed

lemma ether_type_eq:
  "word16 (little_endian H) x y = bpf_htons H 0x0800 \<longleftrightarrow> x = 8 \<and> y = 0"
  "word16 (little_endian H) x y = bpf_htons H 0x0806 \<longleftrightarrow> x = 8 \<and> y = 6"
  using word16_eq [of 8 0 "little_endian H" x y] word16_eq [of 8 6 "little_endian H" x y]
  by (simp_all add: bpf_htons_def bswap16_def split: if_splits)

lemma headers_okD:
  assumes "headers_ok H"
  shows "sizeof_ethhdr H = 14" "h_proto_at H = 12" "sizeof_iphdr H = 20" "protocol_at H = 9"
    "sizeof_tcphdr H = 20" "tcp_source_at H = 0" "tcp_dest_at H = 2" "sizeof_arphdr H = 8" "ETH_ALEN H = 6"
    "ETH_P_IP H = 0x0800" "ETH_P_ARP H = 0x0806" "IPPROTO_TCP H = 6" "XDP_DROP H = 1" "XDP_PASS H = 2"
  using assms by (simp_all add: headers_ok_def)

text \<open>The values of the headers on a little-endian machine; \<open>bpf_redirect\<close> answers XDP\_REDIRECT.\<close>

definition little_headers :: linux_headers where
  "little_headers = \<lparr>little_endian = True, sizeof_ethhdr = 14, h_proto_at = 12, sizeof_iphdr = 20, protocol_at = 9,
     sizeof_tcphdr = 20, tcp_source_at = 0, tcp_dest_at = 2, sizeof_arphdr = 8, ETH_ALEN = 6, ETH_P_IP = 0x0800,
     ETH_P_ARP = 0x0806, IPPROTO_TCP = 6, XDP_DROP = 1, XDP_PASS = 2, bpf_redirect = \<lambda>ifindex flags. 4\<rparr>"

lemma little_headers_ok: "headers_ok little_headers"
  by (simp add: headers_ok_def little_headers_def)

section \<open>Verdicts\<close>

text \<open>C29: xdp\_parser\_func never reads outside the packet, and it passes exactly the packets of at least 54
  bytes whose EtherType bytes are 08 00 and whose IP protocol byte is that of TCP, on either byte order; all
  others it drops. So says the code: each branch that cannot parse or does not want a packet sets
  \<open>XDP_DROP\<close>. The comment at the declaration of \<open>action\<close> (xdp\_parse\_kern.c, lines 103 to 106) says the opposite,
  that such packets are passed up the stack.\<close>

theorem tcp_parser_verdict:
  assumes "headers_ok H"
  shows "xdp_parser_func H p =
    Inr (if 54 \<le> length p \<and> p ! 12 = 8 \<and> p ! 13 = 0 \<and> p ! 23 = 6 then XDP_PASS H else XDP_DROP H)"
proof (cases "14 \<le> length p")
  case False
  then show ?thesis
    by (simp add: xdp_parser_func_def parse_ethhdr_def headers_okD [OF assms] bpf_htons_def bswap16_def)
next
  case True
  then show ?thesis
    by (auto simp: xdp_parser_func_def parse_ethhdr_def parse_iphdr_def parse_tcphdr_def headers_okD [OF assms]
        load16_def load8_def field16_def ether_type_eq simp del: One_nat_def)
qed

lemma tcp_parser_verdict_witness:
  "xdp_parser_func little_headers ((replicate 54 0)[12 := 8, 23 := 6]) = Inr 2"
  by (simp add: tcp_parser_verdict [OF little_headers_ok]) (simp add: little_headers_def)

lemma sender_bytes: "(16777217 :: u8) = 1" "(65536 :: u8) = 0" "(256 :: u8) = 0"
  by simp_all

text \<open>C30: xdp\_ip\_fixup\_prog never reads or writes outside the packet and passes every packet up. It changes the
  packet exactly when it is an ARP packet of at least 42 bytes whose sender address is 0.0.0.x, and then
  that address, bytes 28 to 31, becomes 1.0.0.1, on either byte order.\<close>

theorem arp_sender_fixed:
  assumes "headers_ok H"
  shows "xdp_ip_fixup_prog H p =
    Inr (XDP_PASS H,
         if 42 \<le> length p \<and> p ! 12 = 8 \<and> p ! 13 = 6 \<and> p ! 28 = 0 \<and> p ! 29 = 0 \<and> p ! 30 = 0
         then p[28 := 1, 29 := 0, 30 := 0, 31 := 1] else p)"
proof (cases "14 \<le> length p")
  case False
  then show ?thesis
    by (simp add: xdp_ip_fixup_prog_def parse_ethhdr_def headers_okD [OF assms] bpf_htons_def bswap16_def)
next
  case True
  have "fix_sender H p 22 = Inr (if p ! 28 = 0 \<and> p ! 29 = 0 \<and> p ! 30 = 0 then p[28 := 1, 29 := 0, 30 := 0, 31 := 1] else p)"
    if "42 \<le> length p"
    using that by (simp add: fix_sender_def load32_def store32_def ar_sip_at_def headers_okD [OF assms] network_low_byte Let_def
        sender_bytes)
  with True show ?thesis
    by (auto simp: xdp_ip_fixup_prog_def parse_ethhdr_def parse_arphdr_def parse_ether_arp_def sizeof_ether_arp_def
        headers_okD [OF assms] load16_def ether_type_eq)
qed

lemma arp_sender_fixed_witness:
  "xdp_ip_fixup_prog little_headers ((replicate 42 0)[12 := 8, 13 := 6, 31 := 7]) =
     Inr (2, (replicate 42 0)[12 := 8, 13 := 6, 31 := 7, 28 := 1, 29 := 0, 30 := 0, 31 := 1])"
  by (simp add: arp_sender_fixed [OF little_headers_ok]) (simp add: little_headers_def)

section \<open>Redirection\<close>

text \<open>C31: with the two interfaces of the command line in \<open>tx_port\<close>, a packet with a whole Ethernet header
  leaves through the other interface: the program of the first interface redirects to the second and
  adds one to the counter under key 0, if the map has one, the reverse program redirects to the first and adds one
  under key 1; nothing else of the maps changes. A shorter
  packet is dropped and nothing is counted. The hypothesis on \<open>update\<close> is what
  \<open>bpf_map_update_elem\<close> does on an array of two elements.\<close>

theorem redirect_between_interfaces:
  assumes update: "\<And>k v m. k < 2 \<Longrightarrow> update k v m = Some (m\<lparr>tx_port := (tx_port m)(k \<mapsto> v)\<rparr>)"
    and operands: "interfaces strtoul operands = Inr (Some (a, b))"
  shows "\<exists>ms'. set_ports update a b ms = Some ms' \<and> rxcnt ms' = rxcnt ms \<and>
      xdp_redirect_prog H p ms' =
        (if sizeof_ethhdr H \<le> length p then (bpf_redirect H b 0, ms'\<lparr>rxcnt := (rxcnt ms)(0 := map_option (\<lambda>v. v + 1) (rxcnt ms 0))\<rparr>) else (XDP_DROP H, ms')) \<and>
      xdp_redirect_reverse_prog H p ms' =
        (if sizeof_ethhdr H \<le> length p then (bpf_redirect H a 0, ms'\<lparr>rxcnt := (rxcnt ms)(1 := map_option (\<lambda>v. v + 1) (rxcnt ms 1))\<rparr>) else (XDP_DROP H, ms')) \<and>
      a = ifindex_of strtoul (operands ! 0) \<and> b = ifindex_of strtoul (operands ! 1)"
proof -
  define ms' where "ms' = ms\<lparr>tx_port := (tx_port ms)(0 \<mapsto> b, 1 \<mapsto> a)\<rparr>"
  have "set_ports update a b ms = Some ms'"
    by (simp add: set_ports_def update ms'_def)
  moreover have "rxcnt ms' = rxcnt ms" "tx_port ms' 0 = Some b" "tx_port ms' 1 = Some a"
    by (simp_all add: ms'_def)
  moreover have "a = ifindex_of strtoul (operands ! 0)" "b = ifindex_of strtoul (operands ! 1)"
    using operands by (auto simp: interfaces_def split: list.splits)
  moreover have "count_packet k ms' = ms'\<lparr>rxcnt := (rxcnt ms)(k := map_option (\<lambda>v. v + 1) (rxcnt ms k))\<rparr>" for k
    by (cases "rxcnt ms k") (simp_all add: count_packet_def ms'_def fun_upd_idem)
  ultimately show ?thesis
    by (auto simp: xdp_redirect_prog_def xdp_redirect_reverse_prog_def redirect_from_def)
qed

definition no_maps :: maps where
  "no_maps = \<lparr>tx_port = Map.empty, rxcnt = (\<lambda>k. Some 0)\<rparr>"

lemma redirect_between_interfaces_witness:
  "\<exists>ms'. set_ports (\<lambda>k v m. Some (m\<lparr>tx_port := (tx_port m)(k \<mapsto> v)\<rparr>)) 5 7 no_maps = Some ms' \<and>
     xdp_redirect_prog little_headers (replicate 60 0) ms' = (4, ms'\<lparr>rxcnt := (\<lambda>k. Some 0)(0 := Some 1)\<rparr>)"
proof -
  have "interfaces (\<lambda>s. if s = ''a'' then 5 else 7) [''a'', ''b''] = Inr (Some (5, 7))"
    by (simp add: interfaces_def ifindex_of_def)
  from redirect_between_interfaces [where update = "\<lambda>k v m. Some (m\<lparr>tx_port := (tx_port m)(k \<mapsto> v)\<rparr>)", OF refl this,
      where H = little_headers and p = "replicate 60 0" and ms = no_maps]
  show ?thesis
    by (auto simp: little_headers_def no_maps_def)
qed

text \<open>The loader asks for two interfaces and rejects only the case of none: with exactly one it hands the
  null pointer that ends the argument vector to \<open>strtoul\<close>.\<close>

theorem one_interface_reads_null:
  "interfaces strtoul operands = Inl Bad_access \<longleftrightarrow> length operands = 1"
  by (auto simp: interfaces_def length_Suc_conv split: list.splits)

text \<open>A redirected packet, and only it, adds one to the counter of its key, if the map has one; nothing
  else of the maps changes.\<close>

theorem redirect_counts:
  "redirect_from H port p ms = (r, ms') \<Longrightarrow>
     tx_port ms' = tx_port ms \<and>
     (\<forall>key. rxcnt ms' key =
        (if key = port \<and> sizeof_ethhdr H \<le> length p \<and> tx_port ms port \<noteq> None
         then map_option (\<lambda>v. v + 1) (rxcnt ms key) else rxcnt ms key))"
  by (auto simp: redirect_from_def count_packet_def split: if_splits option.splits)

lemma redirect_counts_witness:
  "rxcnt (snd (redirect_from little_headers 0 (replicate 14 0) (no_maps\<lparr>tx_port := [0 \<mapsto> 3]\<rparr>))) 0 = Some 1"
  using redirect_counts [of little_headers 0 "replicate 14 0" "no_maps\<lparr>tx_port := [0 \<mapsto> 3]\<rparr>" _ _, OF prod.collapse [symmetric]]
  by (simp add: little_headers_def no_maps_def)

section \<open>Statistics\<close>

lemma add_growth_sum:
  "length row = length prev \<Longrightarrow> add_growth acc row prev = acc + (sum_list row - sum_list prev)"
proof (induction row prev arbitrary: acc rule: list_induct2)
  case (Cons v row w prev)
  then show ?case
    by (simp add: add_growth_def algebra_simps)
qed (simp add: add_growth_def)

text \<open>C32: the total that count\_packets prints after any number of rounds is, modulo \<open>2 ^ 64\<close>, what the counters of
  all CPUs hold now less what they held at the start: no packet is counted twice or missed between two
  readings.\<close>

theorem polling_totals:
  assumes "\<forall>row \<in> set rounds. length row = length prev"
  shows "foldl (\<lambda>st values. count_round values st) (acc, prev) rounds =
    (acc + (sum_list (last (prev # rounds)) - sum_list prev), last (prev # rounds))"
  using assms
proof (induction rounds arbitrary: acc prev)
  case (Cons row rounds)
  then have "add_growth acc row prev = acc + (sum_list row - sum_list prev)"
    by (simp add: add_growth_sum)
  with Cons show ?case
    by (simp add: count_round_def)
qed simp

lemma polling_totals_witness:
  "fst (foldl (\<lambda>st values. count_round values st) (0, [0, 0]) [[1, 2], [4, 2]]) = 6"
  using polling_totals [of "[[1, 2], [4, 2]]" "[0, 0]" 0] by simp

text \<open>xdp\_redirect\_user prints for each key by how much its counters have grown since the last round, and
  keeps the rows it has read for the next.\<close>

theorem poll_round_growth:
  assumes "list_all2 (\<lambda>v w. length v = length w) rows prev"
  shows "poll_round rows prev = (map2 (\<lambda>v w. sum_list v - sum_list w) rows prev, rows)"
  using assms by (induction rows prev rule: list_all2_induct) (simp_all add: add_growth_sum)

lemma poll_round_growth_witness:
  "poll_round [[5, 1], [2, 2]] [[3, 1], [2, 0]] = ([2, 2], [[5, 1], [2, 2]])"
  using poll_round_growth [of "[[5, 1], [2, 2]]" "[[3, 1], [2, 0]]"] by simp

text \<open>The loops clear the rows 0 and 1 of \<open>prev\<close>: with the two rows of xdp\_redirect\_user both end up zero,
  but count\_packets has one row and writes past the array.\<close>

theorem start_prev_rows:
  "start_prev n prev =
     (if 2 \<le> length prev then Inr (prev[0 := replicate n 0, 1 := replicate n 0]) else Inl Bad_access)"
  by (auto simp: start_prev_def memset_row_def)

end
