(* ===== verification/CLib.thy ===== *)
theory CLib
  imports Hash
begin

text \<open>
  What the loaders of ebpf/ use of the C library: comparison of strings and memory, the
  conversions of \<open>atoi\<close> and \<open>sscanf\<close>, \<open>fgets\<close>, and \<open>qsort\<close>. A string is the list of the
  characters from the pointer to the end of the object it points into, so a function that runs
  past the terminating NUL and the object reports a \<open>Bad_access\<close>.
\<close>

section \<open>Comparison\<close>

fun strncmp :: "string \<Rightarrow> string \<Rightarrow> nat \<Rightarrow> int result" where
  "strncmp s t 0 = Inr 0"
| "strncmp (c # s) (d # t) (Suc n) =
     (if c \<noteq> d then Inr (Cstr.code c - Cstr.code d) else if c = NUL then Inr 0 else strncmp s t n)"
| "strncmp s t (Suc n) = Inl Bad_access"

fun strcmp :: "string \<Rightarrow> string \<Rightarrow> int result" where
  "strcmp (c # s) (d # t) =
     (if c \<noteq> d then Inr (Cstr.code c - Cstr.code d) else if c = NUL then Inr 0 else strcmp s t)"
| "strcmp s t = Inl Bad_access"

fun first_difference :: "string \<Rightarrow> string \<Rightarrow> nat \<Rightarrow> int" where
  "first_difference (c # s) (d # t) (Suc n) =
     (if c \<noteq> d then Cstr.code c - Cstr.code d else first_difference s t n)"
| "first_difference s t n = 0"

text \<open>\<open>memcmp\<close> takes both objects to have \<open>n\<close> bytes, whatever they hold.\<close>

definition memcmp :: "string \<Rightarrow> string \<Rightarrow> nat \<Rightarrow> int result" where
  "memcmp s t n =
     (if n \<le> length s \<and> n \<le> length t then Inr (first_difference s t n) else Inl Bad_access)"

section \<open>Conversion\<close>

definition isspace :: "char \<Rightarrow> bool" where
  "isspace c \<longleftrightarrow> c = CHR '' '' \<or> (9 \<le> Cstr.code c \<and> Cstr.code c \<le> 13)"

definition isdigit :: "char \<Rightarrow> bool" where
  "isdigit c \<longleftrightarrow> Cstr.code (CHR ''0'') \<le> Cstr.code c \<and> Cstr.code c \<le> Cstr.code (CHR ''9'')"

text \<open>The rest of the string behind white space, and behind decimal digits with their value.\<close>

fun skip_space :: "string \<Rightarrow> string" where
  "skip_space [] = []"
| "skip_space (c # s) = (if isspace c then skip_space s else c # s)"

fun digits :: "string \<Rightarrow> int \<Rightarrow> int \<times> string" where
  "digits [] n = (n, [])"
| "digits (c # s) n = (if isdigit c then digits s (10 * n + (Cstr.code c - 48)) else (n, c # s))"

text \<open>
  An optional sign and digits. \<open>None\<close> when no digit is there; the object must hold the character
  behind the number.
\<close>

definition sign :: "string \<Rightarrow> int \<times> string" where
  "sign s = (case s of [] \<Rightarrow> (1, s)
             | c # s' \<Rightarrow> if c = CHR ''-'' then (- 1, s') else if c = CHR ''+'' then (1, s') else (1, s))"

definition scan_number :: "string \<Rightarrow> (int \<times> string) option result" where
  "scan_number s =
     (case sign (skip_space s) of (sg, s1) \<Rightarrow>
      case digits s1 0 of (n, s2) \<Rightarrow>
        if s2 = [] then Inl Bad_access
        else if s2 = s1 then Inr None
        else Inr (Some (sg * n, s2)))"

definition sint32 :: "int \<Rightarrow> int" where
  "sint32 n = sint (word_of_int n :: u32)"

definition atoi :: "string \<Rightarrow> int result" where
  "atoi s = bnd_r (scan_number s) (\<lambda>r. Inr (case r of None \<Rightarrow> 0 | Some (n, _) \<Rightarrow> sint32 n))"

text \<open>
  \<open>sscanf(s, "%u-%u", &start, &end)\<close>: the number of conversions (\<open>EOF\<close>, here \<open>-1\<close>, when the
  string ends before the first), and the values.
\<close>

definition sscanf_range :: "string \<Rightarrow> (int \<times> u32 \<times> u32) result" where
  "sscanf_range s =
     bnd_r (scan_number s) (\<lambda>r. case r of
       None \<Rightarrow> Inr (if skip_space s \<noteq> [] \<and> hd (skip_space s) = NUL then - 1 else 0, 0, 0)
     | Some (m, rest) \<Rightarrow>
         if hd rest \<noteq> CHR ''-'' then Inr (1, word_of_int m, 0)
         else bnd_r (scan_number (tl rest)) (\<lambda>r. case r of
                None \<Rightarrow> Inr (1, word_of_int m, 0)
              | Some (n, _) \<Rightarrow> Inr (2, word_of_int m, word_of_int n)))"

text \<open>
  \<open>fgets(buf, n, f)\<close>: the next line with its line end, at most \<open>n - 1\<close> characters of it, closed
  by a NUL, and what is left of the file; \<open>None\<close> at the end of the file.
\<close>

fun read_line :: "nat \<Rightarrow> string \<Rightarrow> string \<times> string" where
  "read_line 0 f = ([], f)"
| "read_line (Suc n) [] = ([], [])"
| "read_line (Suc n) (c # f) =
     (if c = LF then ([c], f) else case read_line n f of (l, r) \<Rightarrow> (c # l, r))"

definition fgets :: "nat \<Rightarrow> string \<Rightarrow> (string \<times> string) option" where
  "fgets n f = (if f = [] then None else case read_line (n - 1) f of (l, r) \<Rightarrow> Some (l @ [NUL], r))"

text \<open>\<open>snprintf\<close> writes what fits, with its NUL; \<open>strcpy\<close> and \<open>strcat\<close> write past a small buffer.\<close>

definition snprintf :: "nat \<Rightarrow> string \<Rightarrow> string" where
  "snprintf n s = take (n - 1) s"

definition fits_buffer :: "nat \<Rightarrow> string \<Rightarrow> string result" where
  "fits_buffer n s = (if length s < n then Inr s else Inl Bad_access)"

text \<open>The string up to its NUL.\<close>

definition string_of :: "string \<Rightarrow> string result" where
  "string_of s = (if NUL \<in> set s then Inr (takeWhile (\<lambda>c. c \<noteq> NUL) s) else Inl Bad_access)"

section \<open>Sorting\<close>

text \<open>
  \<open>qsort\<close> by a comparison function, as an insertion sort; elements that compare as equal keep
  their order.
\<close>

fun insert_by :: "('a \<Rightarrow> 'a \<Rightarrow> int) \<Rightarrow> 'a \<Rightarrow> 'a list \<Rightarrow> 'a list" where
  "insert_by cmp x [] = [x]"
| "insert_by cmp x (y # ys) = (if cmp x y \<le> 0 then x # y # ys else y # insert_by cmp x ys)"

fun qsort :: "('a \<Rightarrow> 'a \<Rightarrow> int) \<Rightarrow> 'a list \<Rightarrow> 'a list" where
  "qsort cmp [] = []"
| "qsort cmp (x # xs) = insert_by cmp x (qsort cmp xs)"

lemma set_insert_by [simp]: "set (insert_by cmp x ys) = insert x (set ys)"
  by (induction ys) auto

lemma length_insert_by [simp]: "length (insert_by cmp x ys) = Suc (length ys)"
  by (induction ys) auto

lemma set_qsort [simp]: "set (qsort cmp xs) = set xs"
  by (induction xs) auto

lemma length_qsort [simp]: "length (qsort cmp xs) = length xs"
  by (induction xs) auto

lemma distinct_qsort [simp]: "distinct (qsort cmp xs) = distinct xs"
  by (metis card_distinct distinct_card length_qsort set_qsort)

text \<open>A comparison function that agrees with the order of a key on the elements sorts by the key.\<close>

definition compares_by :: "('a \<Rightarrow> 'a \<Rightarrow> int) \<Rightarrow> ('a \<Rightarrow> int) \<Rightarrow> 'a set \<Rightarrow> bool" where
  "compares_by cmp k A \<longleftrightarrow> (\<forall>x\<in>A. \<forall>y\<in>A. cmp x y \<le> 0 \<longleftrightarrow> k x \<le> k y)"

lemma compares_byD: "compares_by cmp k A \<Longrightarrow> x \<in> A \<Longrightarrow> y \<in> A \<Longrightarrow> cmp x y \<le> 0 \<longleftrightarrow> k x \<le> k y"
  by (simp add: compares_by_def)

lemma sorted_insert_by:
  "compares_by cmp k (insert x (set ys)) \<Longrightarrow> sorted (map k ys) \<Longrightarrow> sorted (map k (insert_by cmp x ys))"
proof (induction ys)
  case (Cons y ys)
  have "compares_by cmp k (insert x (set ys))" "cmp x y \<le> 0 \<longleftrightarrow> k x \<le> k y"
    using Cons.prems(1) by (auto simp: compares_by_def)
  with Cons show ?case
    by (force intro: order_trans)
qed simp

lemma sorted_qsort: "compares_by cmp k (set xs) \<Longrightarrow> sorted (map k (qsort cmp xs))"
proof (induction xs)
  case (Cons x xs)
  then have "sorted (map k (qsort cmp xs))"
    by (auto simp: compares_by_def)
  with Cons.prems show ?case
    by (simp add: sorted_insert_by)
qed simp

section \<open>Lines\<close>

lemma fgets_line:
  assumes "LF \<notin> set l" "length l + 1 < n"
  shows "fgets n (l @ LF # f) = Some (l @ [LF, NUL], f)"
proof -
  have "read_line m (l @ LF # f) = (l @ [LF], f)" if "length l < m" for m
    using assms(1) that by (induction l arbitrary: m) (auto simp: gr0_conv_Suc dest!: Suc_less_eq2 [THEN iffD1])
  with assms(2) show ?thesis by (simp add: fgets_def)
qed

section \<open>Literals\<close>

text \<open>Comparing with a literal decides a prefix or equality.\<close>

lemma strcmp_literal:
  "NUL \<in> set s \<Longrightarrow> nul_free t \<Longrightarrow>
   \<exists>d. strcmp s (cstring t) = Inr d \<and> (d = 0 \<longleftrightarrow> takeWhile (\<lambda>c. c \<noteq> NUL) s = t)"
proof (induction s arbitrary: t)
  case (Cons c s)
  then show ?case
    by (cases t) (auto simp: cstring_def nul_free_def)
qed simp

lemma strncmp_literal:
  "NUL \<in> set s \<Longrightarrow> nul_free t \<Longrightarrow>
   \<exists>d. strncmp s (cstring t) (length t) = Inr d \<and>
     (d = 0 \<longleftrightarrow> take (length t) (takeWhile (\<lambda>c. c \<noteq> NUL) s) = t)"
proof (induction t arbitrary: s)
  case (Cons a t)
  then show ?case
    by (cases s) (auto simp: cstring_def nul_free_def)
qed simp

lemma first_difference_0:
  "n \<le> length s \<Longrightarrow> n \<le> length t \<Longrightarrow> first_difference s t n = 0 \<longleftrightarrow> take n s = take n t"
  by (induction s t n rule: first_difference.induct) (auto simp: Suc_le_eq not_less_eq_eq)

lemma memcmp_literal:
  "length t \<le> length s \<Longrightarrow> \<exists>d. memcmp s (cstring t) (length t) = Inr d \<and> (d = 0 \<longleftrightarrow> take (length t) s = t)"
  by (simp add: memcmp_def first_difference_0) (simp add: cstring_def)

end
