(* ===== verification/BpfInsn.thy ===== *)
theory BpfInsn
  imports XdpProps CLib
begin

text \<open>
  Instructions of the packet machine: \<open>struct bpf_insn\<close> with its layout in memory, the macros of
  bpf\_insn.h (libbpf.h has the same ones without the 32-bit jumps) that write it, and the two
  programs given as arrays of instructions (ebpf\_raw\_assembly.c, sock\_example.c).

  The opcodes are constants of the kernel's headers: the record \<open>bpf_opcodes\<close>, an argument of
  the definitions, whose documented values are \<open>opcodes_ok\<close>. The fields of the structure keep
  their widths; an initializer that does not fit is reduced, as C does it.
\<close>

unbundle bit_operations_syntax

type_synonym u4 = "4 word"

record bpf_insn =
  i_code :: u8
  i_dst_reg :: u4
  i_src_reg :: u4
  i_off :: u16
  i_imm :: u32

record bpf_opcodes =
  BPF_LD :: u8
  BPF_LDX :: u8
  BPF_ST :: u8
  BPF_STX :: u8
  BPF_ALU :: u8
  BPF_JMP :: u8
  BPF_JMP32 :: u8
  BPF_ALU64 :: u8
  BPF_K :: u8
  BPF_X :: u8
  BPF_W :: u8
  BPF_B :: u8
  BPF_DW :: u8
  BPF_IMM :: u8
  BPF_ABS :: u8
  BPF_MEM :: u8
  BPF_XADD :: u8
  BPF_ADD :: u8
  BPF_MOV :: u8
  BPF_JEQ :: u8
  BPF_CALL :: u8
  BPF_EXIT :: u8
  BPF_OP :: "u8 \<Rightarrow> u8"
  BPF_SIZE :: "u8 \<Rightarrow> u8"
  BPF_FUNC_map_lookup_elem :: int

definition opcodes_ok :: "bpf_opcodes \<Rightarrow> bool" where
  "opcodes_ok K \<longleftrightarrow> BPF_LD K = 0 \<and> BPF_LDX K = 1 \<and> BPF_ST K = 2 \<and> BPF_STX K = 3 \<and> BPF_ALU K = 4 \<and>
     BPF_JMP K = 5 \<and> BPF_JMP32 K = 6 \<and> BPF_ALU64 K = 7 \<and> BPF_K K = 0 \<and> BPF_X K = 8 \<and> BPF_W K = 0 \<and>
     BPF_B K = 0x10 \<and> BPF_DW K = 0x18 \<and> BPF_IMM K = 0 \<and> BPF_ABS K = 0x20 \<and> BPF_MEM K = 0x60 \<and>
     BPF_XADD K = 0xc0 \<and> BPF_ADD K = 0 \<and> BPF_MOV K = 0xb0 \<and> BPF_JEQ K = 0x10 \<and> BPF_CALL K = 0x80 \<and>
     BPF_EXIT K = 0x90 \<and> BPF_OP K = (\<lambda>c. c AND 0xf0) \<and> BPF_SIZE K = (\<lambda>c. c AND 0x18) \<and>
     BPF_FUNC_map_lookup_elem K = 1"

text \<open>The initializer of a structure, from C integers.\<close>

definition insn :: "u8 \<Rightarrow> int \<Rightarrow> int \<Rightarrow> int \<Rightarrow> int \<Rightarrow> bpf_insn" where
  "insn c dst src offset immediate =
     \<lparr>i_code = c, i_dst_reg = word_of_int dst, i_src_reg = word_of_int src,
      i_off = word_of_int offset, i_imm = word_of_int immediate\<rparr>"

section \<open>bpf\_insn.h\<close>

definition BPF_ALU64_REG :: "bpf_opcodes \<Rightarrow> u8 \<Rightarrow> int \<Rightarrow> int \<Rightarrow> bpf_insn" where
  "BPF_ALU64_REG K OP DST SRC = insn (BPF_ALU64 K OR BPF_OP K OP OR BPF_X K) DST SRC 0 0"

definition BPF_ALU32_REG :: "bpf_opcodes \<Rightarrow> u8 \<Rightarrow> int \<Rightarrow> int \<Rightarrow> bpf_insn" where
  "BPF_ALU32_REG K OP DST SRC = insn (BPF_ALU K OR BPF_OP K OP OR BPF_X K) DST SRC 0 0"

definition BPF_ALU64_IMM :: "bpf_opcodes \<Rightarrow> u8 \<Rightarrow> int \<Rightarrow> int \<Rightarrow> bpf_insn" where
  "BPF_ALU64_IMM K OP DST IMM = insn (BPF_ALU64 K OR BPF_OP K OP OR BPF_K K) DST 0 0 IMM"

definition BPF_ALU32_IMM :: "bpf_opcodes \<Rightarrow> u8 \<Rightarrow> int \<Rightarrow> int \<Rightarrow> bpf_insn" where
  "BPF_ALU32_IMM K OP DST IMM = insn (BPF_ALU K OR BPF_OP K OP OR BPF_K K) DST 0 0 IMM"

definition BPF_MOV64_REG :: "bpf_opcodes \<Rightarrow> int \<Rightarrow> int \<Rightarrow> bpf_insn" where
  "BPF_MOV64_REG K DST SRC = insn (BPF_ALU64 K OR BPF_MOV K OR BPF_X K) DST SRC 0 0"

definition BPF_MOV32_REG :: "bpf_opcodes \<Rightarrow> int \<Rightarrow> int \<Rightarrow> bpf_insn" where
  "BPF_MOV32_REG K DST SRC = insn (BPF_ALU K OR BPF_MOV K OR BPF_X K) DST SRC 0 0"

definition BPF_MOV64_IMM :: "bpf_opcodes \<Rightarrow> int \<Rightarrow> int \<Rightarrow> bpf_insn" where
  "BPF_MOV64_IMM K DST IMM = insn (BPF_ALU64 K OR BPF_MOV K OR BPF_K K) DST 0 0 IMM"

definition BPF_MOV32_IMM :: "bpf_opcodes \<Rightarrow> int \<Rightarrow> int \<Rightarrow> bpf_insn" where
  "BPF_MOV32_IMM K DST IMM = insn (BPF_ALU K OR BPF_MOV K OR BPF_K K) DST 0 0 IMM"

text \<open>
  The load of a 64-bit constant takes two instructions: the first has the low half of the
  constant, the second the high half and the reserved opcode 0.
\<close>

definition BPF_LD_IMM64_RAW :: "bpf_opcodes \<Rightarrow> int \<Rightarrow> int \<Rightarrow> int \<Rightarrow> bpf_insn list" where
  "BPF_LD_IMM64_RAW K DST SRC IMM =
     [insn (BPF_LD K OR BPF_DW K OR BPF_IMM K) DST SRC 0 (uint (word_of_int IMM :: u32)),
      insn 0 0 0 0 (uint (drop_bit 32 (word_of_int IMM :: u64)))]"

definition BPF_LD_IMM64 :: "bpf_opcodes \<Rightarrow> int \<Rightarrow> int \<Rightarrow> bpf_insn list" where
  "BPF_LD_IMM64 K DST IMM = BPF_LD_IMM64_RAW K DST 0 IMM"

definition BPF_PSEUDO_MAP_FD :: int where "BPF_PSEUDO_MAP_FD = 1"

definition BPF_LD_MAP_FD :: "bpf_opcodes \<Rightarrow> int \<Rightarrow> int \<Rightarrow> bpf_insn list" where
  "BPF_LD_MAP_FD K DST MAP_FD = BPF_LD_IMM64_RAW K DST BPF_PSEUDO_MAP_FD MAP_FD"

definition BPF_LD_ABS :: "bpf_opcodes \<Rightarrow> u8 \<Rightarrow> int \<Rightarrow> bpf_insn" where
  "BPF_LD_ABS K SIZE IMM = insn (BPF_LD K OR BPF_SIZE K SIZE OR BPF_ABS K) 0 0 0 IMM"

definition BPF_LDX_MEM :: "bpf_opcodes \<Rightarrow> u8 \<Rightarrow> int \<Rightarrow> int \<Rightarrow> int \<Rightarrow> bpf_insn" where
  "BPF_LDX_MEM K SIZE DST SRC OFF = insn (BPF_LDX K OR BPF_SIZE K SIZE OR BPF_MEM K) DST SRC OFF 0"

definition BPF_STX_MEM :: "bpf_opcodes \<Rightarrow> u8 \<Rightarrow> int \<Rightarrow> int \<Rightarrow> int \<Rightarrow> bpf_insn" where
  "BPF_STX_MEM K SIZE DST SRC OFF = insn (BPF_STX K OR BPF_SIZE K SIZE OR BPF_MEM K) DST SRC OFF 0"

definition BPF_STX_XADD :: "bpf_opcodes \<Rightarrow> u8 \<Rightarrow> int \<Rightarrow> int \<Rightarrow> int \<Rightarrow> bpf_insn" where
  "BPF_STX_XADD K SIZE DST SRC OFF = insn (BPF_STX K OR BPF_SIZE K SIZE OR BPF_XADD K) DST SRC OFF 0"

definition BPF_ST_MEM :: "bpf_opcodes \<Rightarrow> u8 \<Rightarrow> int \<Rightarrow> int \<Rightarrow> int \<Rightarrow> bpf_insn" where
  "BPF_ST_MEM K SIZE DST OFF IMM = insn (BPF_ST K OR BPF_SIZE K SIZE OR BPF_MEM K) DST 0 OFF IMM"

definition BPF_JMP_REG :: "bpf_opcodes \<Rightarrow> u8 \<Rightarrow> int \<Rightarrow> int \<Rightarrow> int \<Rightarrow> bpf_insn" where
  "BPF_JMP_REG K OP DST SRC OFF = insn (BPF_JMP K OR BPF_OP K OP OR BPF_X K) DST SRC OFF 0"

definition BPF_JMP32_REG :: "bpf_opcodes \<Rightarrow> u8 \<Rightarrow> int \<Rightarrow> int \<Rightarrow> int \<Rightarrow> bpf_insn" where
  "BPF_JMP32_REG K OP DST SRC OFF = insn (BPF_JMP32 K OR BPF_OP K OP OR BPF_X K) DST SRC OFF 0"

definition BPF_JMP_IMM :: "bpf_opcodes \<Rightarrow> u8 \<Rightarrow> int \<Rightarrow> int \<Rightarrow> int \<Rightarrow> bpf_insn" where
  "BPF_JMP_IMM K OP DST IMM OFF = insn (BPF_JMP K OR BPF_OP K OP OR BPF_K K) DST 0 OFF IMM"

definition BPF_JMP32_IMM :: "bpf_opcodes \<Rightarrow> u8 \<Rightarrow> int \<Rightarrow> int \<Rightarrow> int \<Rightarrow> bpf_insn" where
  "BPF_JMP32_IMM K OP DST IMM OFF = insn (BPF_JMP32 K OR BPF_OP K OP OR BPF_K K) DST 0 OFF IMM"

definition BPF_RAW_INSN :: "u8 \<Rightarrow> int \<Rightarrow> int \<Rightarrow> int \<Rightarrow> int \<Rightarrow> bpf_insn" where
  "BPF_RAW_INSN CODE DST SRC OFF IMM = insn CODE DST SRC OFF IMM"

definition BPF_EXIT_INSN :: "bpf_opcodes \<Rightarrow> bpf_insn" where
  "BPF_EXIT_INSN K = insn (BPF_JMP K OR BPF_EXIT K) 0 0 0 0"

lemmas insn_macros = BPF_ALU64_REG_def BPF_ALU32_REG_def BPF_ALU64_IMM_def BPF_ALU32_IMM_def BPF_MOV64_REG_def
  BPF_MOV32_REG_def BPF_MOV64_IMM_def BPF_MOV32_IMM_def BPF_LD_IMM64_RAW_def BPF_LD_IMM64_def BPF_LD_MAP_FD_def
  BPF_LD_ABS_def BPF_LDX_MEM_def BPF_STX_MEM_def BPF_STX_XADD_def BPF_ST_MEM_def BPF_JMP_REG_def BPF_JMP32_REG_def
  BPF_JMP_IMM_def BPF_JMP32_IMM_def BPF_RAW_INSN_def BPF_EXIT_INSN_def

section \<open>Programs as arrays of instructions\<close>

text \<open>
  ebpf\_raw\_assembly.c: four initializers for the five members of the structure, in the order of
  the members, so the last one of each is the offset and the constant is 0.
\<close>

definition raw_assembly_program :: "bpf_insn list" where
  "raw_assembly_program = [insn 0x28 0 0 0xc 0, insn 0x15 0 1 1 0, insn 0x6 0 0 (- 1) 0, insn 0x95 0 0 0 0]"

text \<open>sock\_example.c: the registers have their numbers.\<close>

definition sock_example_program :: "bpf_opcodes \<Rightarrow> linux_headers \<Rightarrow> int \<Rightarrow> bpf_insn list" where
  "sock_example_program K H map_fd =
     [BPF_MOV64_REG K 6 1,
      BPF_LD_ABS K (BPF_B K) (int (sizeof_ethhdr H + protocol_at H)),
      BPF_STX_MEM K (BPF_W K) 10 0 (- 4),
      BPF_MOV64_REG K 2 10,
      BPF_ALU64_IMM K (BPF_ADD K) 2 (- 4)] @
     BPF_LD_MAP_FD K 1 map_fd @
     [BPF_RAW_INSN (BPF_JMP K OR BPF_CALL K) 0 0 0 (BPF_FUNC_map_lookup_elem K),
      BPF_JMP_IMM K (BPF_JEQ K) 0 0 2,
      BPF_MOV64_IMM K 1 1,
      BPF_RAW_INSN (BPF_STX K OR BPF_XADD K OR BPF_DW K) 0 1 0 0,
      BPF_MOV64_IMM K 0 0,
      BPF_EXIT_INSN K]"

section \<open>Layout\<close>

text \<open>
  An instruction takes eight bytes: the opcode, the two registers in one byte (bit fields begin at
  the low end on a little-endian machine, at the high end on the other), the offset and the
  constant.
\<close>

definition sizeof_insn :: nat where "sizeof_insn = 8"

definition decode_insn :: "linux_headers \<Rightarrow> u8 list \<Rightarrow> bpf_insn" where
  "decode_insn H b =
     (let lo = ucast (b ! 1) :: u4; hi = ucast (drop_bit 4 (b ! 1)) :: u4; le = little_endian H
      in \<lparr>i_code = b ! 0, i_dst_reg = (if le then lo else hi), i_src_reg = (if le then hi else lo),
          i_off = word16 le (b ! 2) (b ! 3), i_imm = word32 le (b ! 4) (b ! 5) (b ! 6) (b ! 7)\<rparr>)"

definition encode_insn :: "linux_headers \<Rightarrow> bpf_insn \<Rightarrow> u8 list" where
  "encode_insn H i =
     (let pair = (\<lambda>lo hi :: u4. (ucast lo OR push_bit 4 (ucast hi)) :: u8);
          at = (\<lambda>w k. ucast (drop_bit (8 * k) w) :: u8)
      in if little_endian H then
           [i_code i, pair (i_dst_reg i) (i_src_reg i), ucast (i_off i), ucast (drop_bit 8 (i_off i)),
            at (i_imm i) 0, at (i_imm i) 1, at (i_imm i) 2, at (i_imm i) 3]
         else
           [i_code i, pair (i_src_reg i) (i_dst_reg i), ucast (drop_bit 8 (i_off i)), ucast (i_off i),
            at (i_imm i) 3, at (i_imm i) 2, at (i_imm i) 1, at (i_imm i) 0])"

text \<open>\<open>insn[i]\<close> read from and written to the bytes of a section.\<close>

definition load_insn :: "linux_headers \<Rightarrow> u8 list \<Rightarrow> nat \<Rightarrow> bpf_insn result" where
  "load_insn H b i =
     (if sizeof_insn * i + sizeof_insn \<le> length b
      then Inr (decode_insn H (take sizeof_insn (drop (sizeof_insn * i) b))) else Inl Bad_access)"

definition store_insn :: "linux_headers \<Rightarrow> u8 list \<Rightarrow> nat \<Rightarrow> bpf_insn \<Rightarrow> u8 list result" where
  "store_insn H b i x =
     (if sizeof_insn * i + sizeof_insn \<le> length b
      then Inr (take (sizeof_insn * i) b @ encode_insn H x @ drop (sizeof_insn * i + sizeof_insn) b) else Inl Bad_access)"

lemma word16_bytes:
  "word16 True (ucast w) (ucast (drop_bit 8 w)) = w" "word16 False (ucast (drop_bit 8 w)) (ucast w) = w" for w :: u16
proof -
  have "uint w div 256 < 256"
    using uint_bounded [of w] by (simp add: div_less_iff_less_mult) 
  then have "uint w div 256 mod 256 = uint w div 256"
    by (intro mod_pos_pos_trivial) (simp_all add: pos_imp_zdiv_nonneg_iff)
  moreover have "uint (ucast w :: u8) = uint w mod 256"
    by (simp add: unsigned_ucast_eq unsigned_take_bit_eq take_bit_eq_mod)
  moreover have "uint (ucast (drop_bit 8 w) :: u8) = uint w div 256 mod 256"
    by (simp add: unsigned_ucast_eq unsigned_take_bit_eq unsigned_drop_bit_eq take_bit_eq_mod drop_bit_eq_div uint_div_distrib)
  ultimately show "word16 True (ucast w) (ucast (drop_bit 8 w)) = w" "word16 False (ucast (drop_bit 8 w)) (ucast w) = w"
    by (simp_all add: word_uint_eq_iff [where 'a = 16] uint_word16)
qed

lemma high_bits: "24 \<le> n \<Longrightarrow> 24 + (n - 24) = n" "16 \<le> n \<Longrightarrow> 16 + (n - 16) = n" "8 \<le> n \<Longrightarrow> 8 + (n - 8) = n" for n :: nat
  by simp_all

lemma u32_bits:
  assumes "\<And>k. k < 8 \<Longrightarrow> bit v k = bit w k" "\<And>k. k < 8 \<Longrightarrow> bit v (k + 8) = bit w (k + 8)"
    "\<And>k. k < 8 \<Longrightarrow> bit v (k + 16) = bit w (k + 16)" "\<And>k. k < 8 \<Longrightarrow> bit v (k + 24) = bit w (k + 24)"
  shows "v = (w :: u32)"
proof (rule bit_word_eqI)
  fix n
  assume "n < LENGTH(32)"
  then consider "n < 8" | k where "n = k + 8" "k < 8" | k where "n = k + 16" "k < 8" | k where "n = k + 24" "k < 8"
    using that(2) [of "n - 8"] that(3) [of "n - 16"] that(4) [of "n - 24"] by fastforce
  then show "bit v n = bit w n"
    using assms by cases simp_all
qed

lemma word32_bytes:
  "word32 True (ucast w) (ucast (drop_bit 8 w)) (ucast (drop_bit 16 w)) (ucast (drop_bit 24 w)) = w"
  "word32 False (ucast (drop_bit 24 w)) (ucast (drop_bit 16 w)) (ucast (drop_bit 8 w)) (ucast w) = w" for w :: u32
  unfolding word32_def by (rule u32_bits; simp add: bit_simps add.commute)+

lemma registers_byte:
  fixes x y :: u4
  shows "ucast (ucast x OR push_bit 4 (ucast y) :: u8) = x" "ucast (drop_bit 4 (ucast x OR push_bit 4 (ucast y) :: u8)) = y"
proof -
  have "\<not> bit x (4 + n)" for n
    using bit_imp_le_length [of x "4 + n"] by auto
  then show "ucast (ucast x OR push_bit 4 (ucast y) :: u8) = x" "ucast (drop_bit 4 (ucast x OR push_bit 4 (ucast y) :: u8)) = y"
    by (auto intro!: bit_word_eqI simp: bit_simps)
qed

lemma length_encode_insn [simp]: "length (encode_insn H i) = 8"
  by (simp add: encode_insn_def Let_def)

lemma decode_encode_insn [simp]: "decode_insn H (encode_insn H i) = i"
  by (cases i) (simp add: encode_insn_def decode_insn_def Let_def registers_byte word16_bytes word32_bytes registers_byte [simplified])

lemma take_drop_front: "a + n \<le> m \<Longrightarrow> m \<le> length b \<Longrightarrow> take n (drop a (take m b @ r)) = take n (drop a b)"
  by (simp add: drop_take)

lemma drop_behind: "m + length x \<le> a \<Longrightarrow> m \<le> length b \<Longrightarrow> drop a (take m b @ x @ drop (m + length x) b) = drop a b"
  by (simp add: drop_drop)

lemma load_store_insn:
  assumes "store_insn H b i x = Inr b'"
  shows "load_insn H b' j = (if j = i then Inr x else load_insn H b j)" "length b' = length b"
proof -
  have b: "8 * i + 8 \<le> length b" and b': "b' = take (8 * i) b @ encode_insn H x @ drop (8 * i + 8) b"
    using assms by (auto simp: store_insn_def sizeof_insn_def split: if_splits)
  show l: "length b' = length b"
    using b by (simp add: b')
  consider "j = i" | "j < i" | "i < j"
    by linarith
  then show "load_insn H b' j = (if j = i then Inr x else load_insn H b j)"
  proof cases
    case 1
    with b show ?thesis
      unfolding load_insn_def l sizeof_insn_def by (simp add: b')
  next
    case 2
    then have "take 8 (drop (8 * j) b') = take 8 (drop (8 * j) b)"
      unfolding b' using b by (intro take_drop_front) simp_all
    with 2 show ?thesis
      by (simp add: load_insn_def l sizeof_insn_def)
  next
    case 3
    then have "drop (8 * j) b' = drop (8 * j) b"
      using b drop_behind [of "8 * i" "encode_insn H x" "8 * j" b] by (simp add: b')
    with 3 show ?thesis
      by (simp add: load_insn_def l sizeof_insn_def)
  qed
qed
end
