(* ===== verification/BpfLoad.thy ===== *)
theory BpfLoad
  imports BpfInsn
begin

text \<open>
  bpf\_load.c: the loader of packet programs. It reads the sections of an object file, creates the
  maps the file declares, writes their descriptors into the instructions that refer to them, and
  loads and attaches every program section.

  The static variables are the record \<open>loader\<close>. The ELF library with the open file is the record
  \<open>libelf\<close>, a parameter; the buffers of its sections, which the loader writes to, are part of the
  state (\<open>sections\<close>), so two pointers to the data of one section see the same bytes. A string is the
  rest of its string table. Calls to the kernel are logged in \<open>calls\<close> and answered by the parameter
  \<open>answer\<close> from the log; constants of the kernel's headers are parameters too. \<open>printf\<close> is left
  out; \<open>strdup\<close> and \<open>calloc\<close> have memory. A division by zero is undefined as a bad access is,
  and so is the use of a variable that was not set.
\<close>

unbundle bit_operations_syntax

definition MAX_MAPS :: nat where "MAX_MAPS = 32"
definition MAX_PROGS :: nat where "MAX_PROGS = 32"
definition DEBUGFS :: string where "DEBUGFS = ''/sys/kernel/debug/tracing/''"

section \<open>Data\<close>

record bpf_map_def =
  map_type :: u32
  key_size :: u32
  value_size :: u32
  max_entries :: u32
  map_flags :: u32
  inner_map_idx :: u32
  numa_node :: u32

record bpf_map_data =
  md_fd :: int
  md_name :: string
  elf_offset :: nat
  md_def :: bpf_map_def

definition sizeof_map_def :: nat where "sizeof_map_def = 28"

definition map_def_of :: "linux_headers \<Rightarrow> u8 list \<Rightarrow> bpf_map_def" where
  "map_def_of H b =
     (let field = (\<lambda>k. word32 (little_endian H) (b ! (4 * k)) (b ! (4 * k + 1)) (b ! (4 * k + 2)) (b ! (4 * k + 3)))
      in \<lparr>map_type = field 0, key_size = field 1, value_size = field 2, max_entries = field 3,
          map_flags = field 4, inner_map_idx = field 5, numa_node = field 6\<rparr>)"

definition empty_map_data :: bpf_map_data where
  "empty_map_data = \<lparr>md_fd = 0, md_name = [], elf_offset = 0,
     md_def = \<lparr>map_type = 0, key_size = 0, value_size = 0, max_entries = 0, map_flags = 0, inner_map_idx = 0, numa_node = 0\<rparr>\<rparr>"

record elf_shdr =
  sh_name :: nat
  sh_type :: nat
  sh_flags :: u64
  sh_size :: nat
  sh_link :: nat
  sh_info :: nat
  sh_entsize :: nat

record elf_sym =
  st_name :: nat
  st_value :: nat
  st_shndx :: nat

record elf_rel =
  r_offset :: nat
  r_info :: nat

text \<open>
  The library and the file: \<open>elf_getdata\<close> is the number of data descriptors of a section, of
  which the first has the bytes \<open>elf_contents\<close>; symbols and relocations are read from bytes.
\<close>

record libelf =
  elf_version_known :: bool
  elf_begin_ok :: bool
  gelf_getehdr_ok :: bool
  e_shnum :: nat
  e_shstrndx :: nat
  elf_getscn :: "nat \<Rightarrow> bool"
  gelf_getshdr :: "nat \<Rightarrow> elf_shdr option"
  elf_strptr :: "nat \<Rightarrow> nat \<Rightarrow> string option"
  elf_getdata :: "nat \<Rightarrow> nat"
  elf_contents :: "nat \<Rightarrow> u8 list"
  gelf_getsym :: "u8 list \<Rightarrow> nat \<Rightarrow> elf_sym option"
  gelf_getrel :: "u8 list \<Rightarrow> nat \<Rightarrow> elf_rel option"
  GELF_R_SYM :: "nat \<Rightarrow> nat"
  sizeof_GElf_Sym :: nat
  SHT_SYMTAB :: nat
  SHT_REL :: nat
  SHT_PROGBITS :: nat
  SHF_EXECINSTR :: u64

text \<open>
  A request to the routing socket: its header, and the bytes behind the interface message. What
  is received is a list of messages.
\<close>

record nl_request =
  nlmsg_len :: u32
  nlmsg_type :: u16
  nlmsg_flags :: u16
  nlmsg_seq :: u32
  nlmsg_pid :: u32
  ifi_family :: u8
  ifi_index :: int
  attrbuf :: "u8 list"

record nl_reply =
  reply_type :: u16
  reply_seq :: u32
  reply_pid :: int
  reply_error :: int

datatype syscall =
    Sys_open string
  | Sys_close int
  | Sys_read int nat
  | Sys_system string
  | Sys_bpf_load_program int "u8 list" nat "u8 list" u32
  | Sys_bpf_map_update_elem int int int int
  | Sys_bpf_create_map_node u32 string u32 u32 u32 u32 int
  | Sys_bpf_create_map_in_map_node u32 string u32 int u32 u32 int
  | Sys_perf_event_open int
  | Sys_ioctl_enable int
  | Sys_ioctl_set_bpf int int
  | Sys_socket_netlink
  | Sys_bind_netlink int
  | Sys_send int nl_request
  | Sys_recv int nat

record platform =
  hdrs :: linux_headers
  opcodes :: bpf_opcodes
  elf :: libelf
  answer :: "syscall list \<Rightarrow> syscall \<Rightarrow> int"
  input :: "syscall list \<Rightarrow> string"
  replies :: "syscall list \<Rightarrow> nl_reply list"
  getpid :: int
  BPF_PROG_TYPE_SOCKET_FILTER :: int
  BPF_PROG_TYPE_KPROBE :: int
  BPF_PROG_TYPE_TRACEPOINT :: int
  BPF_PROG_TYPE_XDP :: int
  BPF_PROG_TYPE_PERF_EVENT :: int
  BPF_PROG_TYPE_CGROUP_SKB :: int
  BPF_PROG_TYPE_CGROUP_SOCK :: int
  BPF_PROG_TYPE_SOCK_OPS :: int
  BPF_PROG_TYPE_SK_SKB :: int
  BPF_MAP_TYPE_ARRAY_OF_MAPS :: u32
  BPF_MAP_TYPE_HASH_OF_MAPS :: u32
  BPF_MAP_TYPE_PROG_ARRAY :: u32
  BPF_F_NUMA_NODE :: u32
  BPF_ANY :: int
  EINVAL :: int
  EFBIG :: int

record loader =
  license :: "u8 list"
  kern_version :: u32
  processed_sec :: "bool list"
  map_fd :: "int list"
  prog_fd :: "int list"
  event_fd :: "int list"
  prog_cnt :: nat
  prog_array_fd :: int
  map_data :: "bpf_map_data list"
  map_data_count :: nat
  sections :: "nat \<Rightarrow> u8 list"
  calls :: "syscall list"

definition loader_start :: loader where
  "loader_start =
     \<lparr>license = replicate 128 0, kern_version = 0, processed_sec = replicate 128 False,
      map_fd = replicate MAX_MAPS 0, prog_fd = replicate MAX_PROGS 0, event_fd = replicate MAX_PROGS 0,
      prog_cnt = 0, prog_array_fd = - 1, map_data = replicate MAX_MAPS empty_map_data, map_data_count = 0,
      sections = (\<lambda>_. []), calls = []\<rparr>"

type_synonym 'a load_cmd = "(loader, 'a) cmd"

definition kernel_call :: "platform \<Rightarrow> syscall \<Rightarrow> int load_cmd" where
  "kernel_call P c = (\<lambda>s. Inr (answer P (calls s) c, s\<lparr>calls := calls s @ [c]\<rparr>))"

text \<open>Writing one element of a static array: outside it, the access is bad.\<close>

definition wr :: "'a list \<Rightarrow> nat \<Rightarrow> 'a \<Rightarrow> 'a list result" where
  "wr xs i x = (if i < length xs then Inr (xs[i := x]) else Inl Bad_access)"

definition set_map_fd :: "nat \<Rightarrow> int \<Rightarrow> unit load_cmd" where
  "set_map_fd i fd =
     bnd (gets map_fd) (\<lambda>a. bnd (lift (wr a i fd)) (\<lambda>a'. modify (\<lambda>s. s\<lparr>map_fd := a'\<rparr>)))"

definition set_map_data :: "nat \<Rightarrow> bpf_map_data \<Rightarrow> unit load_cmd" where
  "set_map_data i m =
     bnd (gets map_data) (\<lambda>a. bnd (lift (wr a i m)) (\<lambda>a'. modify (\<lambda>s. s\<lparr>map_data := a'\<rparr>)))"

definition set_processed :: "nat \<Rightarrow> unit load_cmd" where
  "set_processed i =
     bnd (gets processed_sec) (\<lambda>a. bnd (lift (wr a i True)) (\<lambda>a'. modify (\<lambda>s. s\<lparr>processed_sec := a'\<rparr>)))"

section \<open>Loading and attaching a program\<close>

definition populate_prog_array :: "platform \<Rightarrow> string \<Rightarrow> int \<Rightarrow> int load_cmd" where
  "populate_prog_array P event fd =
     bnd (lift (atoi event)) (\<lambda>ind.
     bnd (gets prog_array_fd) (\<lambda>array_fd.
     bnd (kernel_call P (Sys_bpf_map_update_elem array_fd ind fd (BPF_ANY P))) (\<lambda>err.
     ret (if err < 0 then - 1 else 0))))"

record event_kind =
  is_socket :: bool
  is_kprobe :: bool
  is_kretprobe :: bool
  is_tracepoint :: bool
  is_xdp :: bool
  is_perf_event :: bool
  is_cgroup_skb :: bool
  is_cgroup_sk :: bool
  is_sockops :: bool
  is_sk_skb :: bool

definition begins_with :: "string \<Rightarrow> string \<Rightarrow> bool result" where
  "begins_with event t = bnd_r (strncmp event (cstring t) (length t)) (\<lambda>d. Inr (d = 0))"

definition event_kind_of :: "string \<Rightarrow> event_kind result" where
  "event_kind_of event =
     bnd_r (begins_with event ''socket'') (\<lambda>socket.
     bnd_r (begins_with event ''kprobe/'') (\<lambda>kprobe.
     bnd_r (begins_with event ''kretprobe/'') (\<lambda>kretprobe.
     bnd_r (begins_with event ''tracepoint/'') (\<lambda>tracepoint.
     bnd_r (begins_with event ''xdp'') (\<lambda>xdp.
     bnd_r (begins_with event ''perf_event'') (\<lambda>perf_event.
     bnd_r (begins_with event ''cgroup/skb'') (\<lambda>cgroup_skb.
     bnd_r (begins_with event ''cgroup/sock'') (\<lambda>cgroup_sk.
     bnd_r (begins_with event ''sockops'') (\<lambda>sockops.
     bnd_r (begins_with event ''sk_skb'') (\<lambda>sk_skb.
     Inr \<lparr>is_socket = socket, is_kprobe = kprobe, is_kretprobe = kretprobe, is_tracepoint = tracepoint,
          is_xdp = xdp, is_perf_event = perf_event, is_cgroup_skb = cgroup_skb, is_cgroup_sk = cgroup_sk,
          is_sockops = sockops, is_sk_skb = sk_skb\<rparr>))))))))))"

definition prog_type_of :: "platform \<Rightarrow> event_kind \<Rightarrow> int option" where
  "prog_type_of P k =
     (if is_socket k then Some (BPF_PROG_TYPE_SOCKET_FILTER P)
      else if is_kprobe k \<or> is_kretprobe k then Some (BPF_PROG_TYPE_KPROBE P)
      else if is_tracepoint k then Some (BPF_PROG_TYPE_TRACEPOINT P)
      else if is_xdp k then Some (BPF_PROG_TYPE_XDP P)
      else if is_perf_event k then Some (BPF_PROG_TYPE_PERF_EVENT P)
      else if is_cgroup_skb k then Some (BPF_PROG_TYPE_CGROUP_SKB P)
      else if is_cgroup_sk k then Some (BPF_PROG_TYPE_CGROUP_SOCK P)
      else if is_sockops k then Some (BPF_PROG_TYPE_SOCK_OPS P)
      else if is_sk_skb k then Some (BPF_PROG_TYPE_SK_SKB P)
      else None)"

definition push_prog_fd :: "int \<Rightarrow> unit load_cmd" where
  "push_prog_fd fd =
     bnd (gets prog_fd) (\<lambda>a. bnd (gets prog_cnt) (\<lambda>n. bnd (lift (wr a n fd)) (\<lambda>a'.
     modify (\<lambda>s. s\<lparr>prog_fd := a', prog_cnt := n + 1\<rparr>))))"

text \<open>A socket program may name its index in the program array behind a slash.\<close>

definition attach_to_prog_array :: "platform \<Rightarrow> event_kind \<Rightarrow> string \<Rightarrow> int \<Rightarrow> int load_cmd" where
  "attach_to_prog_array P k event fd =
     (let event = drop (if is_socket k then 6 else 7) event
      in bnd (lift (rd event 0)) (\<lambda>c.
         if c \<noteq> CHR ''/'' then ret 0
         else let event = drop 1 event
              in bnd (lift (rd event 0)) (\<lambda>c.
                 if \<not> isdigit c then ret (- 1) else populate_prog_array P event fd)))"

text \<open>The perf event of a probe or tracepoint, whose number stands in the file \<open>path\<close>.\<close>

definition attach_perf_event :: "platform \<Rightarrow> string \<Rightarrow> int \<Rightarrow> int load_cmd" where
  "attach_perf_event P path fd =
     bnd (kernel_call P (Sys_open path)) (\<lambda>efd.
     if efd < 0 then ret (- 1)
     else bnd (kernel_call P (Sys_read efd 256)) (\<lambda>err.
     if err < 0 \<or> err \<ge> 256 then ret (- 1)
     else bnd (gets (\<lambda>s. take (nat err) (input P (calls s)))) (\<lambda>buf.
     bnd (kernel_call P (Sys_close efd)) (\<lambda>_.
     bnd (lift (atoi (cstring buf))) (\<lambda>id.
     bnd (kernel_call P (Sys_perf_event_open id)) (\<lambda>efd.
     if efd < 0 then ret (- 1)
     else bnd (gets event_fd) (\<lambda>a.
     bnd (gets prog_cnt) (\<lambda>n.
     bnd (lift (wr a (n - 1) efd)) (\<lambda>a'.
     bnd (modify (\<lambda>s. s\<lparr>event_fd := a'\<rparr>)) (\<lambda>_.
     bnd (kernel_call P (Sys_ioctl_enable efd)) (\<lambda>err.
     if err < 0 then ret (- 1)
     else bnd (kernel_call P (Sys_ioctl_set_bpf efd fd)) (\<lambda>err.
     ret (if err < 0 then - 1 else 0)))))))))))))"

definition attach_kprobe :: "platform \<Rightarrow> event_kind \<Rightarrow> string \<Rightarrow> int \<Rightarrow> int load_cmd" where
  "attach_kprobe P k event fd =
     (let event = drop (if is_kprobe k then 7 else 10) event
      in bnd (lift (rd event 0)) (\<lambda>c.
         if c = NUL then ret (- 1)
         else if isdigit c then populate_prog_array P event fd
         else bnd (lift (string_of event)) (\<lambda>name.
              bnd (kernel_call P (Sys_system (snprintf 256
                (''echo '' @ [CHR 0x27] @ (if is_kprobe k then ''p'' else ''r'') @ '':'' @ name @ '' '' @ name @
                 [CHR 0x27] @ '' >> /sys/kernel/debug/tracing/kprobe_events'')))) (\<lambda>err.
              if err < 0 then ret (- 1)
              else bnd (lift (fits_buffer 256 (DEBUGFS @ ''events/kprobes/'' @ name @ ''/id''))) (\<lambda>path.
                   attach_perf_event P path fd)))))"

definition attach_tracepoint :: "platform \<Rightarrow> string \<Rightarrow> int \<Rightarrow> int load_cmd" where
  "attach_tracepoint P event fd =
     (let event = drop 11 event
      in bnd (lift (rd event 0)) (\<lambda>c.
         if c = NUL then ret (- 1)
         else bnd (lift (string_of event)) (\<lambda>name.
              bnd (lift (fits_buffer 256 (DEBUGFS @ ''events/'' @ name @ ''/id''))) (\<lambda>path.
              attach_perf_event P path fd))))"

definition load_and_attach :: "platform \<Rightarrow> string \<Rightarrow> u8 list \<Rightarrow> int load_cmd" where
  "load_and_attach P event prog =
     bnd (lift (event_kind_of event)) (\<lambda>k.
     case prog_type_of P k of
       None \<Rightarrow> ret (- 1)
     | Some prog_type \<Rightarrow>
         let insns_cnt = length prog div sizeof_insn
         in bnd (gets license) (\<lambda>lic.
            bnd (gets kern_version) (\<lambda>version.
            bnd (kernel_call P (Sys_bpf_load_program prog_type (take (sizeof_insn * insns_cnt) prog) insns_cnt lic version)) (\<lambda>fd.
            if fd < 0 then ret (- 1)
            else bnd (push_prog_fd fd) (\<lambda>_.
                 if is_xdp k \<or> is_perf_event k \<or> is_cgroup_skb k \<or> is_cgroup_sk k then ret 0
                 else if is_socket k \<or> is_sockops k \<or> is_sk_skb k then attach_to_prog_array P k event fd
                 else if is_kprobe k \<or> is_kretprobe k then attach_kprobe P k event fd
                 else attach_tracepoint P event fd)))))"

section \<open>Maps\<close>

definition create_map :: "platform \<Rightarrow> bpf_map_data \<Rightarrow> int load_cmd" where
  "create_map P m =
     (let d = md_def m;
          node = (if map_flags d AND BPF_F_NUMA_NODE P \<noteq> 0 then sint (numa_node d) else - 1)
      in if map_type d = BPF_MAP_TYPE_ARRAY_OF_MAPS P \<or> map_type d = BPF_MAP_TYPE_HASH_OF_MAPS P then
           bnd (gets map_fd) (\<lambda>a.
           bnd (lift (rd a (unat (inner_map_idx d)))) (\<lambda>inner_map_fd.
           kernel_call P (Sys_bpf_create_map_in_map_node (map_type d) (md_name m) (key_size d) inner_map_fd
             (max_entries d) (map_flags d) node)))
         else kernel_call P (Sys_bpf_create_map_node (map_type d) (md_name m) (key_size d) (value_size d)
             (max_entries d) (map_flags d) node))"

text \<open>One round of \<open>load_maps\<close>; the result says whether the loop goes on.\<close>

definition load_map :: "platform \<Rightarrow> (bpf_map_data \<Rightarrow> nat \<Rightarrow> bpf_map_data) option \<Rightarrow> nat \<Rightarrow> bool load_cmd" where
  "load_map P fixup_map i =
     bnd (gets map_data) (\<lambda>maps.
     bnd (lift (rd maps i)) (\<lambda>m0.
     let m = (case fixup_map of None \<Rightarrow> m0 | Some f \<Rightarrow> f m0 i)
     in bnd (set_map_data i m) (\<lambda>_.
        if fixup_map \<noteq> None \<and> md_fd m \<noteq> - 1 then bnd (set_map_fd i (md_fd m)) (\<lambda>_. ret True)
        else bnd (create_map P m) (\<lambda>fd.
             bnd (set_map_fd i fd) (\<lambda>_.
             if fd < 0 then ret False
             else bnd (set_map_data i (m\<lparr>md_fd := fd\<rparr>)) (\<lambda>_.
                  bnd (if map_type (md_def m) = BPF_MAP_TYPE_PROG_ARRAY P
                       then modify (\<lambda>s. s\<lparr>prog_array_fd := fd\<rparr>) else ret ()) (\<lambda>_.
                  ret True)))))))"

primrec load_maps_from ::
  "platform \<Rightarrow> (bpf_map_data \<Rightarrow> nat \<Rightarrow> bpf_map_data) option \<Rightarrow> nat list \<Rightarrow> int load_cmd" where
  "load_maps_from P fixup_map [] = ret 0"
| "load_maps_from P fixup_map (i # is) =
     bnd (load_map P fixup_map i) (\<lambda>go. if go then load_maps_from P fixup_map is else ret 1)"

definition load_maps :: "platform \<Rightarrow> (bpf_map_data \<Rightarrow> nat \<Rightarrow> bpf_map_data) option \<Rightarrow> nat \<Rightarrow> int load_cmd" where
  "load_maps P fixup_map nr_maps = load_maps_from P fixup_map [0..<nr_maps]"

end
