(* ===== verification/BpfFile.thy ===== *)
theory BpfFile
  imports BpfLoad
begin

text \<open>
  bpf\_load.c, second part: the sections of the object file, the relocations, the maps section, and
  the order in which \<open>do_load_bpf_file\<close> takes them.
\<close>

unbundle bit_operations_syntax

section \<open>Sections\<close>

text \<open>The name and header of a section whose data is one descriptor, or the code of what is missing.\<close>

definition get_sec :: "libelf \<Rightarrow> nat \<Rightarrow> int + (string \<times> elf_shdr)" where
  "get_sec E i =
     (if \<not> elf_getscn E i then Inl 1
      else case gelf_getshdr E i of None \<Rightarrow> Inl 2
      | Some shdr \<Rightarrow>
          case elf_strptr E (e_shstrndx E) (sh_name shdr) of None \<Rightarrow> Inl 3
          | Some shname \<Rightarrow>
              if sh_size shdr = 0 then Inl 3
              else if elf_getdata E i \<noteq> 1 then Inl 4
              else Inr (shname, shdr))"

section \<open>Relocations\<close>

definition set_insn :: "platform \<Rightarrow> nat \<Rightarrow> nat \<Rightarrow> (bpf_insn \<Rightarrow> bpf_insn) \<Rightarrow> unit load_cmd" where
  "set_insn P prog idx f =
     bnd (gets (\<lambda>s. sections s prog)) (\<lambda>b.
     bnd (lift (load_insn (hdrs P) b idx)) (\<lambda>i.
     bnd (lift (store_insn (hdrs P) b idx (f i))) (\<lambda>b'.
     modify (\<lambda>s. s\<lparr>sections := (sections s)(prog := b')\<rparr>))))"

text \<open>The first map that begins at the offset, among those with the indices \<open>is\<close>.\<close>

primrec find_map :: "bpf_map_data list \<Rightarrow> nat \<Rightarrow> nat list \<Rightarrow> nat option result" where
  "find_map maps offset [] = Inr None"
| "find_map maps offset (i # is) =
     bnd_r (rd maps i) (\<lambda>m. if elf_offset m = offset then Inr (Some i) else find_map maps offset is)"

text \<open>The opcode of the instruction that loads a 64-bit constant, in the order the code has it.\<close>

definition ld_imm64_code :: "platform \<Rightarrow> u8" where
  "ld_imm64_code P = BPF_LD (opcodes P) OR BPF_IMM (opcodes P) OR BPF_DW (opcodes P)"

text \<open>
  \<open>data\<close>, \<open>symbols\<close> and \<open>prog\<close> are sections; one round of the loop, whose result says whether the loop
  goes on.
\<close>

definition apply_relo :: "platform \<Rightarrow> nat \<Rightarrow> nat \<Rightarrow> nat \<Rightarrow> nat \<Rightarrow> nat \<Rightarrow> bool load_cmd" where
  "apply_relo P data symbols prog nr_maps i =
     bnd (gets (\<lambda>s. gelf_getrel (elf P) (sections s data) i)) (\<lambda>rel.
     bnd (lift (case rel of None \<Rightarrow> Inl Bad_access | Some r \<Rightarrow> Inr r)) (\<lambda>rel.
     let insn_idx = (r_offset rel div sizeof_insn) mod 2 ^ 32
     in bnd (gets (\<lambda>s. gelf_getsym (elf P) (sections s symbols) (GELF_R_SYM (elf P) (r_info rel)))) (\<lambda>x.
        bnd (lift (case x of None \<Rightarrow> Inl Bad_access | Some x \<Rightarrow> Inr x)) (\<lambda>x.
        bnd (gets (\<lambda>s. load_insn (hdrs P) (sections s prog) insn_idx)) (\<lambda>insn.
        bnd (lift insn) (\<lambda>insn.
        if i_code insn \<noteq> ld_imm64_code P then ret False
        else bnd (set_insn P prog insn_idx (\<lambda>x. x\<lparr>i_src_reg := word_of_int BPF_PSEUDO_MAP_FD\<rparr>)) (\<lambda>_.
             bnd (gets map_data) (\<lambda>maps.
             bnd (lift (find_map maps (st_value x) [0..<nr_maps])) (\<lambda>match.
             case match of
               None \<Rightarrow> ret False
             | Some map_idx \<Rightarrow>
                 bnd (lift (rd maps map_idx)) (\<lambda>m.
                 bnd (set_insn P prog insn_idx (\<lambda>x. x\<lparr>i_imm := word_of_int (md_fd m)\<rparr>)) (\<lambda>_.
                 ret True)))))))))))"

primrec apply_relos :: "platform \<Rightarrow> nat \<Rightarrow> nat \<Rightarrow> nat \<Rightarrow> nat \<Rightarrow> nat list \<Rightarrow> int load_cmd" where
  "apply_relos P data symbols prog nr_maps [] = ret 0"
| "apply_relos P data symbols prog nr_maps (i # is) =
     bnd (apply_relo P data symbols prog nr_maps i) (\<lambda>go.
     if go then apply_relos P data symbols prog nr_maps is else ret 1)"

definition parse_relo_and_apply :: "platform \<Rightarrow> nat \<Rightarrow> nat \<Rightarrow> elf_shdr \<Rightarrow> nat \<Rightarrow> nat \<Rightarrow> int load_cmd" where
  "parse_relo_and_apply P data symbols shdr prog nr_maps =
     (if sh_entsize shdr = 0 then fail Bad_access
      else apply_relos P data symbols prog nr_maps [0..<sh_size shdr div sh_entsize shdr])"

section \<open>The maps section\<close>

definition cmp_symbols :: "elf_sym \<Rightarrow> elf_sym \<Rightarrow> int" where
  "cmp_symbols l r = (if st_value l < st_value r then - 1 else if st_value l > st_value r then 1 else 0)"

text \<open>The symbols of the maps section, in an array of \<open>MAX_MAPS + 1\<close>.\<close>

primrec collect_symbols :: "libelf \<Rightarrow> u8 list \<Rightarrow> nat \<Rightarrow> nat list \<Rightarrow> elf_sym list \<Rightarrow> elf_sym list result" where
  "collect_symbols E symbols maps_shndx [] syms = Inr syms"
| "collect_symbols E symbols maps_shndx (i # is) syms =
     (if length syms < MAX_MAPS + 1 then
        (case gelf_getsym E symbols i of
           None \<Rightarrow> collect_symbols E symbols maps_shndx is syms
         | Some x \<Rightarrow>
             if st_shndx x \<noteq> maps_shndx then collect_symbols E symbols maps_shndx is syms
             else collect_symbols E symbols maps_shndx is (syms @ [x]))
      else Inl Assert_failed)"

text \<open>Whether the bytes with the indices \<open>is\<close> are zero; the loop ends at the first that is not.\<close>

primrec zero_bytes :: "u8 list \<Rightarrow> nat list \<Rightarrow> bool result" where
  "zero_bytes b [] = Inr True"
| "zero_bytes b (i # is) = bnd_r (rd b i) (\<lambda>x. if x \<noteq> 0 then Inr False else zero_bytes b is)"

text \<open>
  One symbol: its name and offset, and as much of the file's definition as both sides know; the
  result says whether nothing else was requested.
\<close>

definition copy_map :: "platform \<Rightarrow> u8 list \<Rightarrow> nat \<Rightarrow> nat \<Rightarrow> nat \<Rightarrow> elf_sym \<Rightarrow> bool load_cmd" where
  "copy_map P data strtabidx map_sz_elf i x =
     bnd (lift (case elf_strptr (elf P) strtabidx (st_name x) of None \<Rightarrow> Inl Bad_access | Some s \<Rightarrow> string_of s)) (\<lambda>name.
     bnd (gets map_data) (\<lambda>maps.
     bnd (lift (rd maps i)) (\<lambda>m.
     let offset = st_value x; map_sz_copy = min map_sz_elf sizeof_map_def
     in bnd (lift (if offset + map_sz_copy \<le> length data then Inr () else Inl Bad_access)) (\<lambda>_.
        bnd (set_map_data i (m\<lparr>md_name := name, elf_offset := offset,
          md_def := map_def_of (hdrs P) (take map_sz_copy (drop offset data) @ replicate (sizeof_map_def - map_sz_copy) 0)\<rparr>)) (\<lambda>_.
        if map_sz_elf > sizeof_map_def
        then lift (zero_bytes data [offset + map_sz_copy..<offset + map_sz_elf])
        else ret True)))))"

primrec copy_maps :: "platform \<Rightarrow> u8 list \<Rightarrow> nat \<Rightarrow> nat \<Rightarrow> nat \<Rightarrow> elf_sym list \<Rightarrow> bool load_cmd" where
  "copy_maps P data strtabidx map_sz_elf i [] = ret True"
| "copy_maps P data strtabidx map_sz_elf i (x # syms) =
     bnd (copy_map P data strtabidx map_sz_elf i x) (\<lambda>go.
     if go then copy_maps P data strtabidx map_sz_elf (Suc i) syms else ret False)"

text \<open>The tests of \<open>maps_shndx\<close> and \<open>symbols\<close> at the start always hold where it is called.\<close>

definition load_elf_maps_section :: "platform \<Rightarrow> nat \<Rightarrow> nat \<Rightarrow> nat \<Rightarrow> int load_cmd" where
  "load_elf_maps_section P maps_shndx symbols strtabidx =
     (if \<not> elf_getscn (elf P) maps_shndx \<or> elf_getdata (elf P) maps_shndx = 0 then ret (- EINVAL P)
      else bnd (gets (\<lambda>s. sections s symbols)) (\<lambda>symtab.
           bnd (gets (\<lambda>s. sections s maps_shndx)) (\<lambda>data.
           bnd (lift (collect_symbols (elf P) symtab maps_shndx [0..<length symtab div sizeof_GElf_Sym (elf P)] [])) (\<lambda>syms.
           let syms = qsort cmp_symbols syms; nr_maps = length syms
           in if nr_maps = 0 then fail Bad_access
              else bnd (copy_maps P data strtabidx (length data div nr_maps) 0 syms) (\<lambda>ok.
                   ret (if ok then int nr_maps else - EFBIG P))))))"

section \<open>The file\<close>

record scan =
  maps_shndx :: "nat option"
  symbols :: "nat option"
  strtabidx :: nat

definition name_is :: "string \<Rightarrow> string \<Rightarrow> bool result" where
  "name_is shname t = bnd_r (strcmp shname (cstring t)) (\<lambda>d. Inr (d = 0))"

text \<open>
  One section of the first pass, which finds the license, the version, the maps and the symbols;
  \<open>None\<close> is the early return.
\<close>

definition scan_section :: "platform \<Rightarrow> nat \<Rightarrow> scan \<Rightarrow> scan option load_cmd" where
  "scan_section P i sc =
     (case get_sec (elf P) i of
        Inl _ \<Rightarrow> ret (Some sc)
      | Inr (shname, shdr) \<Rightarrow>
          bnd (gets (\<lambda>s. sections s i)) (\<lambda>data.
          bnd (lift (name_is shname ''license'')) (\<lambda>is_license.
          if is_license then
            bnd (set_processed i) (\<lambda>_.
            bnd (gets license) (\<lambda>l.
            if length data > length l then fail Bad_access
            else bnd (modify (\<lambda>s. s\<lparr>license := data @ drop (length data) l\<rparr>)) (\<lambda>_. ret (Some sc))))
          else bnd (lift (name_is shname ''version'')) (\<lambda>is_version.
          if is_version then
            bnd (set_processed i) (\<lambda>_.
            if length data \<noteq> 4 then ret None
            else bnd (lift (load32 (hdrs P) data 0)) (\<lambda>v.
                 bnd (modify (\<lambda>s. s\<lparr>kern_version := v\<rparr>)) (\<lambda>_. ret (Some sc))))
          else bnd (lift (name_is shname ''maps'')) (\<lambda>is_maps.
          if is_maps then
            bnd (modify (\<lambda>s. s\<lparr>map_data := map (\<lambda>m. m\<lparr>md_fd := - 1\<rparr>) (map_data s)\<rparr>)) (\<lambda>_.
            ret (Some (sc\<lparr>maps_shndx := Some i\<rparr>)))
          else if sh_type shdr = SHT_SYMTAB (elf P) then
            ret (Some (sc\<lparr>symbols := Some i, strtabidx := sh_link shdr\<rparr>))
          else ret (Some sc))))))"

primrec scan_sections :: "platform \<Rightarrow> nat list \<Rightarrow> scan \<Rightarrow> scan option load_cmd" where
  "scan_sections P [] sc = ret (Some sc)"
| "scan_sections P (i # is) sc =
     bnd (scan_section P i sc) (\<lambda>r. case r of None \<Rightarrow> ret None | Some sc' \<Rightarrow> scan_sections P is sc')"

text \<open>One section of the second pass; what a relocation section returns is not looked at.\<close>

definition relocate_section :: "platform \<Rightarrow> nat \<Rightarrow> nat \<Rightarrow> nat \<Rightarrow> unit load_cmd" where
  "relocate_section P symtab nr_maps i =
     bnd (gets processed_sec) (\<lambda>processed.
     bnd (lift (rd processed i)) (\<lambda>done_already.
     if done_already then ret ()
     else case get_sec (elf P) i of
       Inl _ \<Rightarrow> ret ()
     | Inr (shname, shdr) \<Rightarrow>
         if sh_type shdr = SHT_REL (elf P) then
           (case get_sec (elf P) (sh_info shdr) of
              Inl _ \<Rightarrow> ret ()
            | Inr (shname_prog, shdr_prog) \<Rightarrow>
                if sh_type shdr_prog \<noteq> SHT_PROGBITS (elf P) \<or> sh_flags shdr_prog AND SHF_EXECINSTR (elf P) = 0
                then ret ()
                else bnd (set_processed i) (\<lambda>_.
                     bnd (parse_relo_and_apply P i symtab shdr (sh_info shdr) nr_maps) (\<lambda>_. ret ())))
         else ret ()))"

primrec relocate_sections :: "platform \<Rightarrow> nat \<Rightarrow> nat \<Rightarrow> nat list \<Rightarrow> unit load_cmd" where
  "relocate_sections P symtab nr_maps [] = ret ()"
| "relocate_sections P symtab nr_maps (i # is) =
     bnd (relocate_section P symtab nr_maps i) (\<lambda>_. relocate_sections P symtab nr_maps is)"

text \<open>The names of program sections: the first of the prefixes that matches ends the test.\<close>

definition program_prefixes :: "string list" where
  "program_prefixes = [''kprobe/'', ''kretprobe/'', ''tracepoint/'', ''xdp'', ''perf_event'', ''socket'', ''cgroup/'',
     ''sockops'', ''sk_skb'']"

primrec has_program_prefix :: "string \<Rightarrow> string list \<Rightarrow> bool result" where
  "has_program_prefix shname [] = Inr False"
| "has_program_prefix shname (t # ts) =
     bnd_r (memcmp shname (cstring t) (length t)) (\<lambda>d. if d = 0 then Inr True else has_program_prefix shname ts)"

text \<open>The third pass; its result is that of the first program that does not load, or 0.\<close>

definition load_section :: "platform \<Rightarrow> nat \<Rightarrow> int load_cmd" where
  "load_section P i =
     bnd (gets processed_sec) (\<lambda>processed.
     bnd (lift (rd processed i)) (\<lambda>done_already.
     if done_already then ret 0
     else case get_sec (elf P) i of
       Inl _ \<Rightarrow> ret 0
     | Inr (shname, shdr) \<Rightarrow>
         bnd (lift (has_program_prefix shname program_prefixes)) (\<lambda>program.
         if program then bnd (gets (\<lambda>s. sections s i)) (\<lambda>data. load_and_attach P shname data) else ret 0)))"

primrec load_sections :: "platform \<Rightarrow> nat list \<Rightarrow> int load_cmd" where
  "load_sections P [] = ret 0"
| "load_sections P (i # is) =
     bnd (load_section P i) (\<lambda>r. if r \<noteq> 0 then ret r else load_sections P is)"

text \<open>
  What \<open>do_load_bpf_file\<close> does between the first pass and \<open>done\<close>: the maps, if there is a section of
  them (\<open>None\<close> is the jump to \<open>done\<close>), and the other two passes.
\<close>

definition load_file_maps ::
  "platform \<Rightarrow> (bpf_map_data \<Rightarrow> nat \<Rightarrow> bpf_map_data) option \<Rightarrow> scan \<Rightarrow> nat \<Rightarrow> nat option load_cmd" where
  "load_file_maps P fixup_map sc symtab =
     (case maps_shndx sc of
        None \<Rightarrow> ret (Some 0)
      | Some shndx \<Rightarrow>
          bnd (load_elf_maps_section P shndx symtab (strtabidx sc)) (\<lambda>nr_maps.
          if nr_maps < 0 then ret None
          else bnd (load_maps P fixup_map (nat nr_maps)) (\<lambda>failed.
               if failed \<noteq> 0 then ret None
               else bnd (modify (\<lambda>s. s\<lparr>map_data_count := nat nr_maps\<rparr>)) (\<lambda>_.
                    bnd (set_processed shndx) (\<lambda>_. ret (Some (nat nr_maps)))))))"

definition load_maps_and_programs ::
  "platform \<Rightarrow> (bpf_map_data \<Rightarrow> nat \<Rightarrow> bpf_map_data) option \<Rightarrow> scan \<Rightarrow> int load_cmd" where
  "load_maps_and_programs P fixup_map sc =
     (case symbols sc of
        None \<Rightarrow> ret 1
      | Some symtab \<Rightarrow>
          bnd (load_file_maps P fixup_map sc symtab) (\<lambda>r.
          case r of
            None \<Rightarrow> ret 1
          | Some nr_maps \<Rightarrow>
              bnd (relocate_sections P symtab nr_maps [1..<e_shnum (elf P)]) (\<lambda>_.
              load_sections P [1..<e_shnum (elf P)])))"

definition do_load_bpf_file ::
  "platform \<Rightarrow> string \<Rightarrow> (bpf_map_data \<Rightarrow> nat \<Rightarrow> bpf_map_data) option \<Rightarrow> int load_cmd" where
  "do_load_bpf_file P path fixup_map =
     bnd (modify (\<lambda>s. s\<lparr>kern_version := 0, license := replicate 128 0, processed_sec := replicate 128 False\<rparr>)) (\<lambda>_.
     if \<not> elf_version_known (elf P) then ret 1
     else bnd (kernel_call P (Sys_open path)) (\<lambda>fd.
     if fd < 0 then ret 1
     else if \<not> elf_begin_ok (elf P) then ret 1
     else if \<not> gelf_getehdr_ok (elf P) then ret 1
     else bnd (kernel_call P (Sys_system ''echo \"\" > /sys/kernel/debug/tracing/kprobe_events'')) (\<lambda>_.
          bnd (modify (\<lambda>s. s\<lparr>sections := elf_contents (elf P)\<rparr>)) (\<lambda>_.
          bnd (scan_sections P [1..<e_shnum (elf P)] \<lparr>maps_shndx = None, symbols = None, strtabidx = 0\<rparr>) (\<lambda>r.
          case r of
            None \<Rightarrow> ret 1
          | Some sc \<Rightarrow>
              bnd (load_maps_and_programs P fixup_map sc) (\<lambda>ret_val.
              bnd (kernel_call P (Sys_close fd)) (\<lambda>_. ret ret_val)))))))"

definition load_bpf_file :: "platform \<Rightarrow> string \<Rightarrow> int load_cmd" where
  "load_bpf_file P path = do_load_bpf_file P path None"

definition load_bpf_file_fixup_map ::
  "platform \<Rightarrow> string \<Rightarrow> (bpf_map_data \<Rightarrow> nat \<Rightarrow> bpf_map_data) option \<Rightarrow> int load_cmd" where
  "load_bpf_file_fixup_map P path fixup_map = do_load_bpf_file P path fixup_map"

end
