(* ===== verification/BpfRelo.thy ===== *)
theory BpfRelo
  imports BpfFile
begin

text \<open>
  What the relocations of the loader do: they return 0 exactly when every one can be applied, and
  then the instructions they name load the maps their symbols stand for.
\<close>

unbundle bit_operations_syntax

section \<open>What a relocation means\<close>

text \<open>
  The instruction a relocation refers to, and the descriptor of the map its symbol stands for: the
  first map that begins at the value of the symbol.
\<close>

definition relo_insn :: "platform \<Rightarrow> loader \<Rightarrow> nat \<Rightarrow> nat \<Rightarrow> nat option" where
  "relo_insn P s data i =
     map_option (\<lambda>rel. r_offset rel div sizeof_insn mod 2 ^ 32) (gelf_getrel (elf P) (sections s data) i)"

definition relo_fd :: "platform \<Rightarrow> loader \<Rightarrow> nat \<Rightarrow> nat \<Rightarrow> nat \<Rightarrow> nat \<Rightarrow> int option" where
  "relo_fd P s data symtab nr_maps i =
     Option.bind (gelf_getrel (elf P) (sections s data) i) (\<lambda>rel.
     Option.bind (gelf_getsym (elf P) (sections s symtab) (GELF_R_SYM (elf P) (r_info rel))) (\<lambda>x.
     map_option (\<lambda>k. md_fd (map_data s ! k))
       (List.find (\<lambda>k. elf_offset (map_data s ! k) = st_value x) [0..<nr_maps])))"

text \<open>The relocation is one that can be applied to the instructions of \<open>prog\<close>.\<close>

definition relo_ok :: "platform \<Rightarrow> loader \<Rightarrow> nat \<Rightarrow> nat \<Rightarrow> nat \<Rightarrow> nat \<Rightarrow> nat \<Rightarrow> bool" where
  "relo_ok P s data symtab prog nr_maps i \<longleftrightarrow>
     (case relo_insn P s data i of None \<Rightarrow> False
      | Some idx \<Rightarrow>
          (case load_insn (hdrs P) (sections s prog) idx of Inl _ \<Rightarrow> False
           | Inr x \<Rightarrow> i_code x = ld_imm64_code P \<and> relo_fd P s data symtab nr_maps i \<noteq> None))"

definition with_map_fd :: "int \<Rightarrow> bpf_insn \<Rightarrow> bpf_insn" where
  "with_map_fd fd x = x\<lparr>i_src_reg := word_of_int BPF_PSEUDO_MAP_FD, i_imm := word_of_int fd\<rparr>"

lemma with_map_fd_twice [simp]: "with_map_fd fd (with_map_fd fd' x) = with_map_fd fd x"
  by (simp add: with_map_fd_def)

lemma i_code_with_map_fd [simp]: "i_code (with_map_fd fd x) = i_code x"
  by (simp add: with_map_fd_def)

text \<open>The load of the constant 0 becomes the load of the map: the macros of bpf\_insn.h agree.\<close>

lemma with_map_fd_macro:
  assumes "0 \<le> fd" "fd < 2 ^ 31"
  shows "[with_map_fd fd (BPF_LD_IMM64 K dst 0 ! 0), BPF_LD_IMM64 K dst 0 ! 1] = BPF_LD_MAP_FD K dst fd"
proof -
  have "uint (word_of_int fd :: u64) = fd"
    using assms by (simp add: uint_word_of_int)
  then have "uint (drop_bit 32 (word_of_int fd :: u64)) = 0"
    using assms by (simp only: unsigned_drop_bit_eq) (simp add: drop_bit_eq_div take_bit_int_eq_self)
  then have "drop_bit 32 (word_of_int fd :: u64) = 0"
    by (rule uint_0_iff [THEN iffD1])
  then show ?thesis
    by (simp add: insn_macros insn_def with_map_fd_def)
qed

section \<open>Applying relocations\<close>

lemma find_map_find:
  "\<forall>i\<in>set is. i < length maps \<Longrightarrow> find_map maps v is = Inr (List.find (\<lambda>k. elf_offset (maps ! k) = v) is)"
  by (induction "is") auto

lemma load_store_ok: "load_insn H b i = Inr x \<Longrightarrow> \<exists>b'. store_insn H b i y = Inr b'"
  by (auto simp: load_insn_def store_insn_def split: if_splits)

lemma set_insn_ok:
  assumes "load_insn (hdrs P) (sections s prog) idx = Inr x"
  shows "\<exists>b. set_insn P prog idx f s = Inr ((), s\<lparr>sections := (sections s)(prog := b)\<rparr>) \<and>
    length b = length (sections s prog) \<and>
    (\<forall>j. load_insn (hdrs P) b j = (if j = idx then Inr (f x) else load_insn (hdrs P) (sections s prog) j))"
proof -
  obtain b where b: "store_insn (hdrs P) (sections s prog) idx (f x) = Inr b"
    using load_store_ok [OF assms] by blast
  then have "set_insn P prog idx f s = Inr ((), s\<lparr>sections := (sections s)(prog := b)\<rparr>)"
    using assms by (simp add: set_insn_def bnd_def gets_def lift_def modify_def)
  with load_store_insn [OF b] show ?thesis by auto
qed

lemma apply_relo_ok:
  assumes "relo_ok P s data symtab prog nr_maps i" "nr_maps \<le> length (map_data s)"
  shows "\<exists>idx x fd b. relo_insn P s data i = Some idx \<and> load_insn (hdrs P) (sections s prog) idx = Inr x \<and>
    i_code x = ld_imm64_code P \<and>
    relo_fd P s data symtab nr_maps i = Some fd \<and>
    apply_relo P data symtab prog nr_maps i s = Inr (True, s\<lparr>sections := (sections s)(prog := b)\<rparr>) \<and>
    length b = length (sections s prog) \<and>
    (\<forall>j. load_insn (hdrs P) b j = (if j = idx then Inr (with_map_fd fd x) else load_insn (hdrs P) (sections s prog) j))"
proof -
  obtain idx x fd where v: "relo_insn P s data i = Some idx" "load_insn (hdrs P) (sections s prog) idx = Inr x"
      "i_code x = ld_imm64_code P" "relo_fd P s data symtab nr_maps i = Some fd"
    using assms(1) by (auto simp: relo_ok_def split: option.splits sum.splits)
  obtain rel where rel: "gelf_getrel (elf P) (sections s data) i = Some rel" "idx = r_offset rel div sizeof_insn mod 2 ^ 32"
    using v(1) by (auto simp: relo_insn_def)
  obtain y k where y: "gelf_getsym (elf P) (sections s symtab) (GELF_R_SYM (elf P) (r_info rel)) = Some y"
      and k: "List.find (\<lambda>k. elf_offset (map_data s ! k) = st_value y) [0..<nr_maps] = Some k" "fd = md_fd (map_data s ! k)"
    using v(4) rel(1) by (auto simp: relo_fd_def bind_eq_Some_conv)
  have kn: "k < length (map_data s)" using k(1) assms(2) by (auto simp: find_Some_iff)
  obtain b1 where b1: "set_insn P prog idx (\<lambda>x. x\<lparr>i_src_reg := word_of_int BPF_PSEUDO_MAP_FD\<rparr>) s =
        Inr ((), s\<lparr>sections := (sections s)(prog := b1)\<rparr>)" "length b1 = length (sections s prog)"
      "\<forall>j. load_insn (hdrs P) b1 j = (if j = idx then Inr (x\<lparr>i_src_reg := word_of_int BPF_PSEUDO_MAP_FD\<rparr>)
        else load_insn (hdrs P) (sections s prog) j)"
    using set_insn_ok [OF v(2)] by blast
  let ?s1 = "s\<lparr>sections := (sections s)(prog := b1)\<rparr>"
  have "load_insn (hdrs P) (sections ?s1 prog) idx = Inr (x\<lparr>i_src_reg := word_of_int BPF_PSEUDO_MAP_FD\<rparr>)"
    using b1(3) by simp
  from set_insn_ok [OF this, of "\<lambda>x. x\<lparr>i_imm := word_of_int fd\<rparr>"]
  obtain b2 where b2: "set_insn P prog idx (\<lambda>x. x\<lparr>i_imm := word_of_int fd\<rparr>) ?s1 =
        Inr ((), ?s1\<lparr>sections := (sections ?s1)(prog := b2)\<rparr>)" "length b2 = length b1"
      "\<forall>j. load_insn (hdrs P) b2 j = (if j = idx then Inr (x\<lparr>i_src_reg := word_of_int BPF_PSEUDO_MAP_FD\<rparr>\<lparr>i_imm := word_of_int fd\<rparr>)
        else load_insn (hdrs P) b1 j)"
    by auto
  have "apply_relo P data symtab prog nr_maps i s = Inr (True, s\<lparr>sections := (sections s)(prog := b2)\<rparr>)"
    using rel y k v(2,3) kn b1(1) b2(1) assms(2)
    by (simp add: apply_relo_def bnd_def gets_def lift_def ret_def find_map_find Let_def)
  with v b1 b2 show ?thesis
    by (intro exI [of _ idx] exI [of _ x] exI [of _ fd] exI [of _ b2]) (simp add: with_map_fd_def)
qed

text \<open>The last relocation of an instruction decides; instructions without one stay as they are.\<close>

definition relocated :: "platform \<Rightarrow> loader \<Rightarrow> nat \<Rightarrow> nat \<Rightarrow> nat \<Rightarrow> nat \<Rightarrow> nat list \<Rightarrow> nat \<Rightarrow> bpf_insn result" where
  "relocated P s data symtab prog nr_maps is j =
     (let js = filter (\<lambda>i. relo_insn P s data i = Some j) is; x = load_insn (hdrs P) (sections s prog) j
      in if js = [] then x else bnd_r x (\<lambda>x. Inr (with_map_fd (the (relo_fd P s data symtab nr_maps (last js))) x)))"

lemma relo_other_section [simp]:
  "data \<noteq> prog \<Longrightarrow> relo_insn P (s\<lparr>sections := (sections s)(prog := b)\<rparr>) data i = relo_insn P s data i"
  "data \<noteq> prog \<Longrightarrow> symtab \<noteq> prog \<Longrightarrow>
   relo_fd P (s\<lparr>sections := (sections s)(prog := b)\<rparr>) data symtab nr_maps i = relo_fd P s data symtab nr_maps i"
  by (simp_all add: relo_insn_def relo_fd_def)

lemma relo_ok_patched:
  assumes "data \<noteq> prog" "symtab \<noteq> prog"
    and "load_insn (hdrs P) (sections s prog) idx = Inr x"
    and "\<forall>j. load_insn (hdrs P) b j = (if j = idx then Inr (with_map_fd fd x) else load_insn (hdrs P) (sections s prog) j)"
  shows "relo_ok P (s\<lparr>sections := (sections s)(prog := b)\<rparr>) data symtab prog nr_maps i =
    relo_ok P s data symtab prog nr_maps i"
  using assms by (simp add: relo_ok_def split: option.splits sum.splits)

lemma apply_relos_ok:
  assumes "data \<noteq> prog" "symtab \<noteq> prog"
  shows "nr_maps \<le> length (map_data s) \<Longrightarrow> \<forall>i\<in>set is. relo_ok P s data symtab prog nr_maps i \<Longrightarrow>
    \<exists>b. apply_relos P data symtab prog nr_maps is s = Inr (0, s\<lparr>sections := (sections s)(prog := b)\<rparr>) \<and>
      length b = length (sections s prog) \<and>
      (\<forall>j. load_insn (hdrs P) b j = relocated P s data symtab prog nr_maps is j)"
proof (induction "is" arbitrary: s)
  case Nil
  have "s\<lparr>sections := (sections s)(prog := sections s prog)\<rparr> = s" by simp
  then show ?case
    by (intro exI [of _ "sections s prog"]) (simp add: ret_def relocated_def)
next
  case (Cons i "is")
  obtain idx x fd b where step: "relo_insn P s data i = Some idx" "load_insn (hdrs P) (sections s prog) idx = Inr x"
      "relo_fd P s data symtab nr_maps i = Some fd"
      "apply_relo P data symtab prog nr_maps i s = Inr (True, s\<lparr>sections := (sections s)(prog := b)\<rparr>)"
      "length b = length (sections s prog)"
      "\<forall>j. load_insn (hdrs P) b j = (if j = idx then Inr (with_map_fd fd x) else load_insn (hdrs P) (sections s prog) j)"
    using apply_relo_ok [of P s data symtab prog nr_maps i] Cons.prems by auto
  let ?s = "s\<lparr>sections := (sections s)(prog := b)\<rparr>"
  have "nr_maps \<le> length (map_data ?s)" "\<forall>i\<in>set is. relo_ok P ?s data symtab prog nr_maps i"
    using Cons.prems relo_ok_patched [OF assms step(2,6)] by simp_all
  from Cons.IH [OF this] obtain b' where
      IH: "apply_relos P data symtab prog nr_maps is ?s = Inr (0, ?s\<lparr>sections := (sections ?s)(prog := b')\<rparr>)"
      "length b' = length (sections ?s prog)" "\<forall>j. load_insn (hdrs P) b' j = relocated P ?s data symtab prog nr_maps is j"
    by blast
  have "load_insn (hdrs P) b' j = relocated P s data symtab prog nr_maps (i # is) j" for j
    using step(1,2,3,6) by (cases "j = idx") (simp_all add: IH(3) relocated_def Let_def assms)
  moreover have "?s\<lparr>sections := (sections ?s)(prog := b')\<rparr> = s\<lparr>sections := (sections s)(prog := b')\<rparr>"
    by simp
  ultimately show ?case
    using IH(1,2) step(4,5) by (intro exI [of _ b']) (simp add: bnd_def fun_upd_same del: fun_upd_apply fun_upd_upd)
qed

lemma apply_relo_True:
  assumes "apply_relo P data symtab prog nr_maps i s = Inr (True, s')" "nr_maps \<le> length (map_data s)"
  shows "relo_ok P s data symtab prog nr_maps i"
  using assms
  by (auto simp: apply_relo_def bnd_def gets_def lift_def ret_def find_map_find Let_def relo_ok_def relo_insn_def relo_fd_def
      set_insn_def modify_def
      split: option.splits sum.splits if_splits prod.splits)

lemma apply_relos_0:
  assumes "data \<noteq> prog" "symtab \<noteq> prog"
  shows "nr_maps \<le> length (map_data s) \<Longrightarrow> apply_relos P data symtab prog nr_maps is s = Inr (0, s') \<Longrightarrow>
    \<forall>i\<in>set is. relo_ok P s data symtab prog nr_maps i"
proof (induction "is" arbitrary: s)
  case (Cons i "is")
  obtain s1 where s1: "apply_relo P data symtab prog nr_maps i s = Inr (True, s1)"
      "apply_relos P data symtab prog nr_maps is s1 = Inr (0, s')"
    using Cons.prems(2) by (auto simp: bnd_def ret_def split: sum.splits prod.splits if_splits)
  have ok: "relo_ok P s data symtab prog nr_maps i"
    using apply_relo_True [OF s1(1) Cons.prems(1)] .
  from apply_relo_ok [OF ok Cons.prems(1)] s1(1)
  obtain idx x fd b where step: "load_insn (hdrs P) (sections s prog) idx = Inr x" "s1 = s\<lparr>sections := (sections s)(prog := b)\<rparr>"
      "\<forall>j. load_insn (hdrs P) b j = (if j = idx then Inr (with_map_fd fd x) else load_insn (hdrs P) (sections s prog) j)"
    by auto
  have "\<forall>i\<in>set is. relo_ok P s1 data symtab prog nr_maps i"
    using Cons.IH [OF _ s1(2)] Cons.prems(1) step(2) by simp
  with ok show ?case
    unfolding step(2) relo_ok_patched [OF assms step(1,3)] by simp
qed simp

text \<open>C14: relocation puts the descriptors of the maps into the instructions that load them. It returns 0
  exactly when every relocation names a load of a 64-bit constant inside the program and a symbol at which a
  map begins; then each instruction with a relocation has the mark of a map descriptor and the descriptor of
  that map as its constant, and nothing else in memory has changed.\<close>

theorem relocations_applied:
  assumes "data \<noteq> prog" "symtab \<noteq> prog" "nr_maps \<le> length (map_data s)" "sh_entsize shdr \<noteq> 0"
    and "is = [0..<sh_size shdr div sh_entsize shdr]"
  shows "if \<forall>i\<in>set is. relo_ok P s data symtab prog nr_maps i
    then \<exists>b. parse_relo_and_apply P data symtab shdr prog nr_maps s = Inr (0, s\<lparr>sections := (sections s)(prog := b)\<rparr>) \<and>
      length b = length (sections s prog) \<and>
      (\<forall>j. load_insn (hdrs P) b j = relocated P s data symtab prog nr_maps is j)
    else \<nexists>s'. parse_relo_and_apply P data symtab shdr prog nr_maps s = Inr (0, s')"
proof -
  have p: "parse_relo_and_apply P data symtab shdr prog nr_maps s = apply_relos P data symtab prog nr_maps is s"
    using assms(4,5) by (simp add: parse_relo_and_apply_def)
  show ?thesis
    unfolding p using apply_relos_ok [OF assms(1-3)] apply_relos_0 [OF assms(1-3)] by auto
qed
end
