(* ===== verification/BpfAttach.thy ===== *)
theory BpfAttach
  imports BpfFile
begin

text \<open>
  Loading one program when the kernel accepts every call: what the names of sections say, the kinds of
  programs with their types, what a name must be for a program to be attached, and the log of the calls
  with the kernel's answers. The kinds are stated here as a table, apart from the chains of tests in
  \<open>load_and_attach\<close> and \<open>do_load_bpf_file\<close>.
\<close>

section \<open>Names of sections\<close>

text \<open>
  The text of a name. The first pass reads a name to its end; the tests for programs compare up to 11 bytes with
  \<open>memcmp\<close>, so that many must stand behind the name's beginning in the string table (\<open>name_ok\<close>).
\<close>

definition name_text :: "string \<Rightarrow> string" where
  "name_text nm = takeWhile (\<lambda>c. c \<noteq> NUL) nm"

definition name_ok :: "string \<Rightarrow> bool" where
  "name_ok nm \<longleftrightarrow> NUL \<in> set nm \<and> 11 \<le> length nm"

definition starts :: "string \<Rightarrow> string \<Rightarrow> bool" where
  "starts t w \<longleftrightarrow> take (length t) w = t"

lemma starts_simps [simp]:
  "starts [] w" "\<not> starts (a # t) []" "starts (a # t) (b # w) \<longleftrightarrow> a = b \<and> starts t w"
  by (auto simp: starts_def)

lemma startsD: "starts t w \<Longrightarrow> \<exists>r. w = t @ r"
  unfolding starts_def by (metis append_take_drop_id)

lemma name_is_text: "NUL \<in> set nm \<Longrightarrow> nul_free t \<Longrightarrow> name_is nm t = Inr (name_text nm = t)"
  using strcmp_literal [of nm t] by (auto simp: name_is_def name_text_def)

lemma begins_with_text: "NUL \<in> set nm \<Longrightarrow> nul_free t \<Longrightarrow> begins_with nm t = Inr (starts t (name_text nm))"
  using strncmp_literal [of nm t] by (auto simp: begins_with_def name_text_def starts_def)

lemma take_text: "nul_free t \<Longrightarrow> starts t nm \<longleftrightarrow> starts t (name_text nm)"
proof (induction t arbitrary: nm)
  case (Cons a t)
  then show ?case by (cases nm) (auto simp: name_text_def nul_free_def starts_def)
qed simp

text \<open>The name behind its first \<open>n\<close> characters goes on with the text, its NUL, and what follows.\<close>

lemma drop_name:
  assumes "NUL \<in> set nm" "n \<le> length (name_text nm)"
  shows "\<exists>r. drop n nm = drop n (name_text nm) @ NUL # r"
proof -
  obtain r where "dropWhile (\<lambda>c. c \<noteq> NUL) nm = NUL # r"
    using assms(1) by (cases "dropWhile (\<lambda>c. c \<noteq> NUL) nm") (use hd_dropWhile [of "\<lambda>c. c \<noteq> NUL" nm] in \<open>auto simp: dropWhile_eq_Nil_conv\<close>)
  then have "nm = name_text nm @ NUL # r"
    unfolding name_text_def by (metis takeWhile_dropWhile_id)
  then have "drop n nm = drop n (name_text nm @ NUL # r)" by simp
  with assms(2) show ?thesis by simp
qed

lemma name_text_chars: "NUL \<notin> set (drop n (name_text nm))"
  by (auto simp: name_text_def dest!: in_set_dropD set_takeWhileD)

section \<open>Kinds of programs\<close>

text \<open>The beginnings of the names of programs and the types their programs are loaded with.\<close>

definition program_kinds :: "platform \<Rightarrow> (string \<times> int) list" where
  "program_kinds P =
     [(''socket'', BPF_PROG_TYPE_SOCKET_FILTER P), (''kprobe/'', BPF_PROG_TYPE_KPROBE P),
      (''kretprobe/'', BPF_PROG_TYPE_KPROBE P), (''tracepoint/'', BPF_PROG_TYPE_TRACEPOINT P),
      (''xdp'', BPF_PROG_TYPE_XDP P), (''perf_event'', BPF_PROG_TYPE_PERF_EVENT P),
      (''cgroup/skb'', BPF_PROG_TYPE_CGROUP_SKB P), (''cgroup/sock'', BPF_PROG_TYPE_CGROUP_SOCK P),
      (''sockops'', BPF_PROG_TYPE_SOCK_OPS P), (''sk_skb'', BPF_PROG_TYPE_SK_SKB P)]"

definition text_type :: "platform \<Rightarrow> string \<Rightarrow> int option" where
  "text_type P w = map_option snd (List.find (\<lambda>(t, ty). starts t w) (program_kinds P))"

definition text_kind :: "string \<Rightarrow> event_kind" where
  "text_kind w =
     \<lparr>is_socket = starts ''socket'' w, is_kprobe = starts ''kprobe/'' w, is_kretprobe = starts ''kretprobe/'' w,
      is_tracepoint = starts ''tracepoint/'' w, is_xdp = starts ''xdp'' w, is_perf_event = starts ''perf_event'' w,
      is_cgroup_skb = starts ''cgroup/skb'' w, is_cgroup_sk = starts ''cgroup/sock'' w, is_sockops = starts ''sockops'' w,
      is_sk_skb = starts ''sk_skb'' w\<rparr>"

lemma event_kind_text: "NUL \<in> set nm \<Longrightarrow> event_kind_of nm = Inr (text_kind (name_text nm))"
  by (simp add: event_kind_of_def begins_with_text nul_free_def text_kind_def)

lemma prog_type_text: "prog_type_of P (text_kind w) = text_type P w"
  by (simp add: prog_type_of_def text_kind_def text_type_def program_kinds_def)

lemma has_prefix_text:
  assumes "name_ok nm"
  shows "\<forall>t\<in>set ts. nul_free t \<and> length t \<le> 11 \<Longrightarrow>
    has_program_prefix nm ts = Inr (\<exists>t\<in>set ts. starts t (name_text nm))"
proof (induction ts)
  case (Cons t ts)
  then obtain d where "memcmp nm (cstring t) (length t) = Inr d" "d = 0 \<longleftrightarrow> starts t (name_text nm)"
    using memcmp_literal [of t nm] assms take_text [of t nm] by (auto simp: name_ok_def starts_def)
  with Cons show ?case by auto
qed simp

text \<open>The third pass takes every name with a kind, and also the other names that begin with \<open>cgroup/\<close>.\<close>

definition unknown_cgroup :: "platform \<Rightarrow> string \<Rightarrow> bool" where
  "unknown_cgroup P w \<longleftrightarrow> starts ''cgroup/'' w \<and> text_type P w = None"

lemma has_program_prefix:
  assumes "name_ok nm" "\<not> unknown_cgroup P (name_text nm)"
  shows "has_program_prefix nm program_prefixes = Inr (text_type P (name_text nm) \<noteq> None)"
proof -
  have "text_type P w \<noteq> None \<longleftrightarrow> (\<exists>t\<in>set (map fst (program_kinds P)). starts t w)" for w
    by (auto simp: text_type_def find_None_iff program_kinds_def)
  moreover have "starts ''cgroup/'' w" if "starts ''cgroup/skb'' w \<or> starts ''cgroup/sock'' w" for w
    using that by (auto dest!: startsD)
  ultimately have "(\<exists>t\<in>set program_prefixes. starts t (name_text nm)) \<longleftrightarrow> text_type P (name_text nm) \<noteq> None"
    using assms(2) by (auto simp: unknown_cgroup_def program_prefixes_def program_kinds_def)
  then show ?thesis
    using has_prefix_text [of nm program_prefixes] assms(1) by (simp add: program_prefixes_def nul_free_def)
qed

section \<open>The log\<close>

definition accepting :: "platform \<Rightarrow> bool" where
  "accepting P \<longleftrightarrow> (\<forall>cs c. 0 \<le> answer P cs c)"

text \<open>The calls \<open>cs\<close>, made after the calls \<open>before\<close>, each with the kernel's answer to it.\<close>

primrec transcript :: "platform \<Rightarrow> syscall list \<Rightarrow> syscall list \<Rightarrow> (syscall \<times> int) list" where
  "transcript P before [] = []"
| "transcript P before (c # cs) = (c, answer P before c) # transcript P (before @ [c]) cs"

lemma transcript_append [simp]: "transcript P b (cs @ cs') = transcript P b cs @ transcript P (b @ cs) cs'"
  by (induction cs arbitrary: b) simp_all

lemma transcript_answer: "(c, fd) \<in> set (transcript P b cs) \<Longrightarrow> \<exists>before. fd = answer P before c"
  by (induction cs arbitrary: b) auto

lemma map_fst_transcript [simp]: "map fst (transcript P b cs) = cs"
  by (induction cs arbitrary: b) simp_all

fun is_load :: "syscall \<Rightarrow> bool" where
  "is_load (Sys_bpf_load_program ty insns cnt lic version) = True"
| "is_load c = False"

fun is_create :: "syscall \<Rightarrow> bool" where
  "is_create (Sys_bpf_create_map_node ty nm ks vs n flags node) = True"
| "is_create (Sys_bpf_create_map_in_map_node ty nm ks fd n flags node) = True"
| "is_create c = False"

text \<open>The calls that change an interface or a map's entries.\<close>

fun is_effect :: "syscall \<Rightarrow> bool" where
  "is_effect (Sys_send sock req) = True"
| "is_effect (Sys_bpf_map_update_elem fd k v flags) = True"
| "is_effect c = False"

text \<open>The calls that load a program or create a map, and those that do neither.\<close>

definition is_request :: "syscall \<Rightarrow> bool" where
  "is_request c \<longleftrightarrow> is_load c \<or> is_create c"

definition quiet :: "syscall \<Rightarrow> bool" where
  "quiet c \<longleftrightarrow> \<not> is_request c"

lemma quiet_transcript: "list_all quiet cs \<Longrightarrow> filter (is_request \<circ> fst) (transcript P b cs) = []"
  by (induction cs arbitrary: b) (auto simp: quiet_def)

lemma filter_load_requests: "filter is_load cs = filter is_load (map fst (filter (is_request \<circ> fst) (transcript P b cs)))"
  by (induction cs arbitrary: b) (auto simp: is_request_def)

section \<open>Attaching\<close>

text \<open>Behind the kind, a socket program may have a slash and then the number of its slot.\<close>

definition slot_ok :: "string \<Rightarrow> bool" where
  "slot_ok r \<longleftrightarrow> r = [] \<or> hd r \<noteq> CHR ''/'' \<or> 1 < length r \<and> isdigit (r ! 1)"

text \<open>A perf event has a name whose path fits the buffer, and the file of its number is shorter than the buffer.\<close>

definition event_ok :: "platform \<Rightarrow> string \<Rightarrow> string \<Rightarrow> bool" where
  "event_ok P dir r \<longleftrightarrow> r \<noteq> [] \<and> length (DEBUGFS @ dir @ r @ ''/id'') < 256 \<and>
     (\<forall>cs fd. answer P cs (Sys_read fd 256) < 256)"

definition probe_ok :: "platform \<Rightarrow> string \<Rightarrow> bool" where
  "probe_ok P r \<longleftrightarrow> r \<noteq> [] \<and> (isdigit (hd r) \<or> event_ok P ''events/kprobes/'' r)"

text \<open>
  The names of programs that an accepting kernel attaches. For \<open>sk_skb\<close> the loader looks for the slash
  behind seven characters.
\<close>

definition attachable :: "platform \<Rightarrow> string \<Rightarrow> bool" where
  "attachable P w \<longleftrightarrow> text_type P w \<noteq> None \<and>
     (starts ''socket'' w \<longrightarrow> slot_ok (drop 6 w)) \<and> (starts ''sockops'' w \<longrightarrow> slot_ok (drop 7 w)) \<and>
     (starts ''sk_skb'' w \<longrightarrow> 7 \<le> length w \<and> slot_ok (drop 7 w)) \<and>
     (starts ''kprobe/'' w \<longrightarrow> probe_ok P (drop 7 w)) \<and> (starts ''kretprobe/'' w \<longrightarrow> probe_ok P (drop 10 w)) \<and>
     (starts ''tracepoint/'' w \<longrightarrow> event_ok P ''events/'' (drop 11 w))"

definition load_call :: "platform \<Rightarrow> int \<Rightarrow> loader \<Rightarrow> u8 list \<Rightarrow> syscall" where
  "load_call P ty s b =
     Sys_bpf_load_program ty (take (sizeof_insn * (length b div sizeof_insn)) b) (length b div sizeof_insn)
       (license s) (kern_version s)"

text \<open>What attaching leaves behind: perf events and calls, none of which loads a program or creates a map.\<close>

definition attached :: "(int \<times> loader) result \<Rightarrow> loader \<Rightarrow> bool" where
  "attached r s \<longleftrightarrow> (\<exists>E cs. r = Inr (0, s\<lparr>event_fd := E, calls := calls s @ cs\<rparr>) \<and>
     length E = length (event_fd s) \<and> list_all quiet cs)"

lemma atoi_defined:
  assumes "NUL \<in> set s"
  shows "\<exists>n. atoi s = Inr n"
proof -
  have nul: "\<not> isdigit NUL" "\<not> isspace NUL" by (simp_all add: isdigit_def isspace_def Cstr.code_def)
  have "NUL \<in> set (snd (digits u n))" if "NUL \<in> set u" for u n
    using that nul by (induction u n rule: digits.induct) auto
  moreover have "NUL \<in> set (snd (sign u))" if "NUL \<in> set u" for u
    using that by (cases u) (auto simp: sign_def)
  moreover have "NUL \<in> set (skip_space s)"
    using assms nul by (induction s) auto
  ultimately have "snd (digits (snd (sign (skip_space s))) 0) \<noteq> []" by (metis empty_iff empty_set)
  then show ?thesis by (auto simp: atoi_def scan_number_def split: prod.splits)
qed

lemma populate_attaches:
  assumes "accepting P" "NUL \<in> set event"
  shows "attached (populate_prog_array P event fd s) s"
proof -
  obtain n where "atoi event = Inr n" using atoi_defined [OF assms(2)] by blast
  moreover have "0 \<le> answer P (calls s) (Sys_bpf_map_update_elem (prog_array_fd s) n fd (BPF_ANY P))"
    using assms(1) by (simp add: accepting_def)
  ultimately have "populate_prog_array P event fd s = Inr (0, s\<lparr>event_fd := event_fd s,
      calls := calls s @ [Sys_bpf_map_update_elem (prog_array_fd s) n fd (BPF_ANY P)]\<rparr>)"
    by (simp add: populate_prog_array_def bnd_def lift_def gets_def kernel_call_def ret_def)
  then show ?thesis
    unfolding attached_def by (intro exI [of _ "event_fd s"] exI conjI) (auto simp: quiet_def is_request_def)
qed

lemma attached_after:
  assumes "attached r (s\<lparr>calls := calls s @ cs\<rparr>)" "list_all quiet cs"
  shows "attached r s"
proof -
  obtain E cs' where "r = Inr (0, s\<lparr>event_fd := E, calls := calls s @ cs @ cs'\<rparr>)" "length E = length (event_fd s)" "list_all quiet cs'"
    using assms(1) by (auto simp: attached_def)
  then show ?thesis
    unfolding attached_def using assms(2) by (intro exI [of _ E] exI [of _ "cs @ cs'"]) simp
qed

lemma perf_event_attaches:
  assumes "accepting P" "\<forall>cs fd. answer P cs (Sys_read fd 256) < 256" "0 < prog_cnt s" "prog_cnt s \<le> length (event_fd s)"
  shows "attached (attach_perf_event P path fd s) s"
proof -
  have ok: "\<not> answer P cs c < 0" "\<not> answer P cs (Sys_read fd 256) \<ge> 256" for cs c fd
    using assms(1,2) by (auto simp: accepting_def not_less not_le)
  let ?c1 = "Sys_open path"
  let ?efd = "answer P (calls s) ?c1"
  let ?c2 = "Sys_read ?efd 256"
  let ?c3 = "Sys_close ?efd"
  let ?cs = "calls s @ [?c1, ?c2]"
  let ?buf = "take (nat (answer P (calls s @ [?c1]) ?c2)) (input P ?cs)"
  obtain n where n: "atoi (cstring ?buf) = Inr n" using atoi_defined [of "cstring ?buf"] by (auto simp: cstring_def)
  let ?c4 = "Sys_perf_event_open n"
  let ?e = "answer P (?cs @ [?c3]) ?c4"
  let ?cs' = "[?c1, ?c2, ?c3, ?c4, Sys_ioctl_enable ?e, Sys_ioctl_set_bpf ?e fd]"
  have "attach_perf_event P path fd s = Inr (0, s\<lparr>event_fd := (event_fd s)[prog_cnt s - 1 := ?e], calls := calls s @ ?cs'\<rparr>)"
    using n assms(3,4)
    by (simp add: attach_perf_event_def bnd_def kernel_call_def ok gets_def lift_def ret_def wr_def modify_def)
  then show ?thesis
    unfolding attached_def
    by (intro exI [of _ "(event_fd s)[prog_cnt s - 1 := ?e]"] exI [of _ ?cs']) (simp add: quiet_def is_request_def)
qed

lemma slot_attaches:
  assumes "accepting P" "NUL \<in> set nm" "n \<le> length (name_text nm)" "slot_ok (drop n (name_text nm))"
    and "n = (if is_socket k then 6 else 7)"
  shows "attached (attach_to_prog_array P k nm fd s) s"
proof -
  obtain r where r: "drop n nm = drop n (name_text nm) @ NUL # r" using drop_name [OF assms(2,3)] by blast
  have here: "attached (Inr (0, s)) s"
    unfolding attached_def by (intro exI [of _ "event_fd s"] exI [of _ "[]"]) simp
  consider "drop n (name_text nm) = []" | c u where "drop n (name_text nm) = c # u" "c \<noteq> CHR ''/''"
    | d u where "drop n (name_text nm) = CHR ''/'' # d # u" "isdigit d"
    using assms(4) by (cases "drop n (name_text nm)"; cases "tl (drop n (name_text nm))") (auto simp: slot_ok_def)
  then show ?thesis
  proof cases
    case 1
    with r here assms(5) show ?thesis
      by (simp add: attach_to_prog_array_def bnd_def lift_def rd_def ret_def)
  next
    case 2
    with r here assms(5) show ?thesis
      by (simp add: attach_to_prog_array_def bnd_def lift_def rd_def ret_def)
  next
    case 3
    have "attached (populate_prog_array P (d # u @ NUL # r) fd s) s"
      by (rule populate_attaches [OF assms(1)]) simp
    with r 3 assms(5) show ?thesis
      by (simp add: attach_to_prog_array_def bnd_def lift_def rd_def)
  qed
qed

lemma drop_nonempty:
  assumes "NUL \<in> set nm" "drop n (name_text nm) \<noteq> []"
  shows "\<exists>c u r. drop n (name_text nm) = c # u \<and> drop n nm = c # u @ NUL # r \<and> c \<noteq> NUL \<and>
    takeWhile (\<lambda>c. c \<noteq> NUL) (drop n nm) = drop n (name_text nm)"
proof -
  from assms(2) have "n \<le> length (name_text nm)" by (metis drop_all nle_le)
  then obtain r where r: "drop n nm = drop n (name_text nm) @ NUL # r" using drop_name [OF assms(1)] by blast
  obtain c u where cu: "drop n (name_text nm) = c # u" using assms(2) by (cases "drop n (name_text nm)") auto
  then have "NUL \<notin> set (c # u)" using name_text_chars [of n nm] by simp
  then show ?thesis using r cu by (auto simp: takeWhile_append)
qed

lemma probe_attaches:
  assumes "accepting P" "NUL \<in> set nm" "probe_ok P (drop n (name_text nm))" "n = (if is_kprobe k then 7 else 10)"
    and "0 < prog_cnt s" "prog_cnt s \<le> length (event_fd s)"
  shows "attached (attach_kprobe P k nm fd s) s"
proof -
  obtain c u r where cu: "drop n (name_text nm) = c # u" "drop n nm = c # u @ NUL # r" "c \<noteq> NUL"
      "takeWhile (\<lambda>c. c \<noteq> NUL) (drop n nm) = drop n (name_text nm)"
    using drop_nonempty [OF assms(2)] assms(3) unfolding probe_ok_def by blast
  show ?thesis
  proof (cases "isdigit c")
    case True
    have "attached (populate_prog_array P (c # u @ NUL # r) fd s) s"
      by (rule populate_attaches [OF assms(1)]) simp
    with True cu assms(4) show ?thesis
      by (simp add: attach_kprobe_def bnd_def lift_def rd_def)
  next
    case False
    let ?c = "Sys_system (snprintf 256 (''echo '' @ [CHR 0x27] @ (if is_kprobe k then ''p'' else ''r'') @ '':'' @ (c # u) @ '' '' @ (c # u) @
                 [CHR 0x27] @ '' >> /sys/kernel/debug/tracing/kprobe_events''))"
    let ?path = "DEBUGFS @ ''events/kprobes/'' @ (c # u) @ ''/id''"
    have ev: "length ?path < 256" "\<forall>cs fd. answer P cs (Sys_read fd 256) < 256"
      using assms(3) cu(1) False by (auto simp: probe_ok_def event_ok_def)
    have "\<not> answer P (calls s) ?c < 0" using assms(1) by (simp add: accepting_def not_less)
    moreover have "string_of (c # u @ NUL # r) = Inr (c # u)" using cu by (simp add: string_of_def)
    moreover have "fits_buffer 256 ?path = Inr ?path" using ev(1) by (simp add: fits_buffer_def)
    ultimately have run: "attach_kprobe P k nm fd s = attach_perf_event P ?path fd (s\<lparr>calls := calls s @ [?c]\<rparr>)"
      using False cu(2,3) assms(4) by (simp add: attach_kprobe_def bnd_def lift_def rd_def kernel_call_def Let_def)
    have "attached (attach_perf_event P ?path fd (s\<lparr>calls := calls s @ [?c]\<rparr>)) (s\<lparr>calls := calls s @ [?c]\<rparr>)"
      using assms(5,6) by (intro perf_event_attaches [OF assms(1) ev(2)]) simp_all
    then show ?thesis unfolding run by (rule attached_after) (simp add: quiet_def is_request_def)
  qed
qed

lemma tracepoint_attaches:
  assumes "accepting P" "NUL \<in> set nm" "event_ok P ''events/'' (drop 11 (name_text nm))"
    and "0 < prog_cnt s" "prog_cnt s \<le> length (event_fd s)"
  shows "attached (attach_tracepoint P nm fd s) s"
proof -
  obtain c u r where cu: "drop 11 (name_text nm) = c # u" "drop 11 nm = c # u @ NUL # r" "c \<noteq> NUL"
      "takeWhile (\<lambda>c. c \<noteq> NUL) (drop 11 nm) = drop 11 (name_text nm)"
    using drop_nonempty [OF assms(2)] assms(3) unfolding event_ok_def by blast
  let ?path = "DEBUGFS @ ''events/'' @ (c # u) @ ''/id''"
  have ev: "length ?path < 256" "\<forall>cs fd. answer P cs (Sys_read fd 256) < 256"
    using assms(3) cu(1) by (auto simp: event_ok_def)
  have "string_of (c # u @ NUL # r) = Inr (c # u)" using cu by (simp add: string_of_def)
  moreover have "fits_buffer 256 ?path = Inr ?path" using ev(1) by (simp add: fits_buffer_def)
  ultimately have "attach_tracepoint P nm fd s = attach_perf_event P ?path fd s"
    using cu(2,3) by (simp add: attach_tracepoint_def bnd_def lift_def rd_def Let_def)
  with perf_event_attaches [OF assms(1) ev(2) assms(4,5)] show ?thesis by simp
qed

text \<open>What \<open>load_and_attach\<close> does once the program is loaded.\<close>

definition attach :: "platform \<Rightarrow> event_kind \<Rightarrow> string \<Rightarrow> int \<Rightarrow> int load_cmd" where
  "attach P k event fd =
     (if is_xdp k \<or> is_perf_event k \<or> is_cgroup_skb k \<or> is_cgroup_sk k then ret 0
      else if is_socket k \<or> is_sockops k \<or> is_sk_skb k then attach_to_prog_array P k event fd
      else if is_kprobe k \<or> is_kretprobe k then attach_kprobe P k event fd
      else attach_tracepoint P event fd)"

lemma attach_attaches:
  assumes "NUL \<in> set nm" "attachable P (name_text nm)" "accepting P" "0 < prog_cnt s" "prog_cnt s \<le> length (event_fd s)"
  shows "attached (attach P (text_kind (name_text nm)) nm fd s) s"
proof -
  have here: "attached (Inr (0, s)) s"
    unfolding attached_def by (intro exI [of _ "event_fd s"] exI [of _ "[]"]) simp
  have "\<exists>(t, ty)\<in>set (program_kinds P). starts t (name_text nm)"
    using assms(2) unfolding attachable_def text_type_def option.map_disc_iff find_None_iff by fast
  then obtain t ty where "(t, ty) \<in> set (program_kinds P)" "starts t (name_text nm)" by blast
  then obtain r where t: "t \<in> set (map fst (program_kinds P))" "name_text nm = t @ r" by (force dest: startsD)
  note ok = assms(2) [unfolded attachable_def t(2)]
  consider "t = ''xdp'' \<or> t = ''perf_event'' \<or> t = ''cgroup/skb'' \<or> t = ''cgroup/sock''" | "t = ''socket''" | "t = ''sockops''"
    | "t = ''sk_skb''" | "t = ''kprobe/''" | "t = ''kretprobe/''" | "t = ''tracepoint/''"
    using t(1) unfolding program_kinds_def list.map fst_conv list.set insert_iff empty_iff by metis
  then show ?thesis
  proof cases
    case 1
    with here t(2) show ?thesis by (auto simp: attach_def text_kind_def ret_def)
  next
    case 2
    with slot_attaches [OF assms(3,1), of 6] ok t(2) show ?thesis
      by (simp add: attach_def text_kind_def)
  next
    case 3
    with slot_attaches [OF assms(3,1), of 7] ok t(2) show ?thesis
      by (simp add: attach_def text_kind_def)
  next
    case 4
    with slot_attaches [OF assms(3,1), of 7] ok t(2) show ?thesis
      by (simp add: attach_def text_kind_def)
  next
    case 5
    with probe_attaches [OF assms(3,1), of 7] ok t(2) assms(4,5) show ?thesis
      by (simp add: attach_def text_kind_def)
  next
    case 6
    with probe_attaches [OF assms(3,1), of 10] ok t(2) assms(4,5) show ?thesis
      by (simp add: attach_def text_kind_def)
  next
    case 7
    with tracepoint_attaches [OF assms(3,1)] ok t(2) assms(4,5) show ?thesis
      by (simp add: attach_def text_kind_def)
  qed
qed

lemma load_and_attach_ok:
  assumes "NUL \<in> set nm" "attachable P (name_text nm)" "accepting P"
    and "prog_cnt s < length (prog_fd s)" "length (event_fd s) = length (prog_fd s)"
  shows "\<exists>ty E cs. text_type P (name_text nm) = Some ty \<and>
    load_and_attach P nm b s = Inr (0, s\<lparr>prog_fd := (prog_fd s)[prog_cnt s := answer P (calls s) (load_call P ty s b)],
      prog_cnt := prog_cnt s + 1, event_fd := E, calls := calls s @ load_call P ty s b # cs\<rparr>) \<and>
    length E = length (event_fd s) \<and> list_all quiet cs \<and> (starts ''xdp'' (name_text nm) \<longrightarrow> cs = [])"
proof -
  let ?k = "text_kind (name_text nm)"
  obtain ty where ty: "text_type P (name_text nm) = Some ty" using assms(2) by (auto simp: attachable_def)
  let ?c = "load_call P ty s b"
  let ?fd = "answer P (calls s) ?c"
  let ?s = "s\<lparr>calls := calls s @ [?c], prog_fd := (prog_fd s)[prog_cnt s := ?fd], prog_cnt := prog_cnt s + 1\<rparr>"
  have "\<not> ?fd < 0" using assms(3) by (simp add: accepting_def not_less)
  then have run: "load_and_attach P nm b s = attach P ?k nm ?fd ?s"
    using assms(4) ty
    by (simp add: load_and_attach_def event_kind_text [OF assms(1)] prog_type_text bnd_def lift_def gets_def kernel_call_def
        push_prog_fd_def wr_def modify_def Let_def load_call_def attach_def)
  have "attached (attach P ?k nm ?fd ?s) ?s"
    by (rule attach_attaches [OF assms(1-3)]) (use assms(4,5) in simp_all)
  then obtain E cs where a: "attach P ?k nm ?fd ?s = Inr (0, ?s\<lparr>event_fd := E, calls := calls ?s @ cs\<rparr>)"
      "length E = length (event_fd s)" "list_all quiet cs"
    by (auto simp: attached_def)
  have "cs = []" if "starts ''xdp'' (name_text nm)"
  proof -
    have "attach P ?k nm ?fd ?s = Inr (0, ?s)" using that by (simp add: attach_def text_kind_def ret_def)
    with a(1) have "calls (?s\<lparr>event_fd := E, calls := calls ?s @ cs\<rparr>) = calls ?s" by simp
    then show ?thesis by simp
  qed
  with run a ty show ?thesis by (intro exI [of _ ty] exI [of _ E] exI [of _ cs]) (cases s, simp)
qed

end
