(* ===== verification/BpfPasses.thy ===== *)
theory BpfPasses
  imports BpfRelo BpfAttach
begin

text \<open>
  What the passes of the loader over an object file do when the kernel accepts every call: which
  sections are noted, which maps are created, which instructions a relocation section changes, and
  which programs are loaded.
\<close>

unbundle bit_operations_syntax

section \<open>Loading the programs\<close>

text \<open>The type of the program in a section, if its name is that of a program, and the call that loads it.\<close>

definition section_type :: "platform \<Rightarrow> nat \<Rightarrow> int option" where
  "section_type P i = (case get_sec (elf P) i of Inl _ \<Rightarrow> None | Inr (nm, shdr) \<Rightarrow> text_type P (name_text nm))"

definition program_call :: "platform \<Rightarrow> loader \<Rightarrow> nat \<Rightarrow> syscall" where
  "program_call P s i = load_call P (the (section_type P i)) s (sections s i)"

definition xdp_section :: "platform \<Rightarrow> nat \<Rightarrow> bool" where
  "xdp_section P i \<longleftrightarrow>
     (case get_sec (elf P) i of Inl _ \<Rightarrow> False | Inr (nm, shdr) \<Rightarrow> starts ''xdp'' (name_text nm))"

text \<open>
  What loading the programs \<open>ps\<close> leaves alone, and what it adds: the calls that load them, whose answers are the new
  descriptors, no other call that loads a program or creates a map, and for XDP programs nothing that touches an interface or a map.
\<close>

definition loads :: "platform \<Rightarrow> nat list \<Rightarrow> loader \<Rightarrow> loader \<Rightarrow> bool" where
  "loads P ps s s' \<longleftrightarrow>
     (\<exists>fds E cs. length fds = length ps \<and> length E = length (event_fd s) \<and>
       filter (is_request \<circ> fst) (transcript P (calls s) cs) = zip (map (program_call P s) ps) fds \<and>
       ((\<forall>i\<in>set ps. xdp_section P i) \<longrightarrow> filter is_effect cs = []) \<and>
       s' = s\<lparr>prog_fd := take (prog_cnt s) (prog_fd s) @ fds @ drop (prog_cnt s + length ps) (prog_fd s),
              prog_cnt := prog_cnt s + length ps, event_fd := E, calls := calls s @ cs\<rparr>)"

lemma loads_Nil: "prog_cnt s \<le> length (prog_fd s) \<Longrightarrow> loads P [] s s"
  unfolding loads_def by (intro exI [of _ "[]"] exI [of _ "event_fd s"]) simp

text \<open>The third pass takes the sections that are programs, in their order.\<close>

definition loadable :: "platform \<Rightarrow> bool list \<Rightarrow> nat \<Rightarrow> bool" where
  "loadable P processed i \<longleftrightarrow> \<not> processed ! i \<and> section_type P i \<noteq> None"

text \<open>A section the third pass can deal with: its name can be compared, and a program can be attached.\<close>

definition program_ok :: "platform \<Rightarrow> nat \<Rightarrow> bool" where
  "program_ok P i \<longleftrightarrow>
     (case get_sec (elf P) i of Inl _ \<Rightarrow> True
      | Inr (nm, shdr) \<Rightarrow> name_ok nm \<and> \<not> unknown_cgroup P (name_text nm) \<and>
          (text_type P (name_text nm) \<noteq> None \<longrightarrow> attachable P (name_text nm)))"

lemma load_section_skip:
  assumes "i < length (processed_sec s)" "\<not> loadable P (processed_sec s) i" "\<not> processed_sec s ! i \<longrightarrow> program_ok P i"
  shows "load_section P i s = Inr (0, s)"
proof (cases "processed_sec s ! i")
  case True
  with assms(1) show ?thesis by (simp add: load_section_def bnd_def gets_def lift_def ret_def)
next
  case False
  show ?thesis
  proof (cases "get_sec (elf P) i")
    case (Inr r)
    obtain nm shdr where r: "r = (nm, shdr)" by (cases r)
    with assms(2,3) False Inr have "name_ok nm" "\<not> unknown_cgroup P (name_text nm)" "text_type P (name_text nm) = None"
      by (auto simp: loadable_def section_type_def program_ok_def)
    with assms(1) False Inr r show ?thesis
      by (simp add: load_section_def bnd_def gets_def lift_def ret_def has_program_prefix [of _ P])
  qed (use assms(1) False in \<open>simp add: load_section_def bnd_def gets_def lift_def ret_def\<close>)
qed

lemma load_section_loads:
  assumes "accepting P" "i < length (processed_sec s)" "loadable P (processed_sec s) i" "program_ok P i"
    and "prog_cnt s < length (prog_fd s)" "length (event_fd s) = length (prog_fd s)"
  shows "\<exists>E cs. load_section P i s = Inr (0, s\<lparr>prog_fd := (prog_fd s)[prog_cnt s := answer P (calls s) (program_call P s i)],
      prog_cnt := prog_cnt s + 1, event_fd := E, calls := calls s @ program_call P s i # cs\<rparr>) \<and>
    length E = length (event_fd s) \<and> list_all quiet cs \<and> (xdp_section P i \<longrightarrow> cs = [])"
proof -
  obtain nm shdr where sec: "get_sec (elf P) i = Inr (nm, shdr)" "text_type P (name_text nm) \<noteq> None" "\<not> processed_sec s ! i"
    using assms(3) by (auto simp: loadable_def section_type_def split: sum.splits)
  with assms(4) have nm: "name_ok nm" "\<not> unknown_cgroup P (name_text nm)" "attachable P (name_text nm)" "NUL \<in> set nm"
    by (auto simp: program_ok_def name_ok_def)
  from load_and_attach_ok [OF nm(4,3) assms(1,5,6), of "sections s i"] obtain ty E cs where l: "text_type P (name_text nm) = Some ty"
      "load_and_attach P nm (sections s i) s = Inr (0, s\<lparr>prog_fd := (prog_fd s)[prog_cnt s := answer P (calls s) (load_call P ty s (sections s i))],
        prog_cnt := prog_cnt s + 1, event_fd := E, calls := calls s @ load_call P ty s (sections s i) # cs\<rparr>)"
      "length E = length (event_fd s)" "list_all quiet cs" "starts ''xdp'' (name_text nm) \<longrightarrow> cs = []"
    by blast
  have "program_call P s i = load_call P ty s (sections s i)"
    using l(1) sec(1) by (simp add: program_call_def section_type_def)
  moreover have "load_section P i s = load_and_attach P nm (sections s i) s"
    using sec nm(1,2) assms(2) by (simp add: load_section_def bnd_def gets_def lift_def has_program_prefix [of _ P])
  ultimately show ?thesis
    using l(2-5) sec(1) by (intro exI [of _ E] exI [of _ cs]) (simp add: xdp_section_def)
qed

lemma program_call_same:
  "license s' = license s \<Longrightarrow> kern_version s' = kern_version s \<Longrightarrow> sections s' = sections s \<Longrightarrow> program_call P s' = program_call P s"
  by (simp add: fun_eq_iff program_call_def load_call_def)

lemma is_load_program_call [simp]: "is_load (program_call P s i)" "is_request (program_call P s i)" "\<not> is_effect (program_call P s i)"
  by (simp_all add: program_call_def load_call_def is_request_def)

lemma loads_Cons:
  assumes "prog_cnt s < length (prog_fd s)" "length E = length (event_fd s)" "list_all quiet cs" "xdp_section P i \<longrightarrow> cs = []"
    and "loads P ps (s\<lparr>prog_fd := (prog_fd s)[prog_cnt s := answer P (calls s) (program_call P s i)],
      prog_cnt := prog_cnt s + 1, event_fd := E, calls := calls s @ program_call P s i # cs\<rparr>) s'" (is "loads P ps ?s s'")
  shows "loads P (i # ps) s s'"
proof -
  have pc: "program_call P ?s = program_call P s" by (rule program_call_same) simp_all
  obtain fds E' cs' where r: "length fds = length ps" "length E' = length (event_fd ?s)"
      "filter (is_request \<circ> fst) (transcript P (calls ?s) cs') = zip (map (program_call P s) ps) fds"
      "(\<forall>i\<in>set ps. xdp_section P i) \<longrightarrow> filter is_effect cs' = []"
      "s' = ?s\<lparr>prog_fd := take (prog_cnt ?s) (prog_fd ?s) @ fds @ drop (prog_cnt ?s + length ps) (prog_fd ?s),
              prog_cnt := prog_cnt ?s + length ps, event_fd := E', calls := calls ?s @ cs'\<rparr>"
    using assms(5) unfolding loads_def pc by blast
  let ?c = "program_call P s i"
  have "take (prog_cnt s + 1) (prog_fd ?s) = take (prog_cnt s) (prog_fd s) @ [answer P (calls s) ?c]"
    using assms(1) by (simp add: take_Suc_conv_app_nth)
  then have "s' = s\<lparr>prog_fd := take (prog_cnt s) (prog_fd s) @ (answer P (calls s) ?c # fds) @ drop (prog_cnt s + length (i # ps)) (prog_fd s),
              prog_cnt := prog_cnt s + length (i # ps), event_fd := E', calls := calls s @ ((?c # cs) @ cs')\<rparr>"
    using r(5) by simp
  moreover have "filter (is_request \<circ> fst) (transcript P (calls s) ((?c # cs) @ cs')) =
      zip (map (program_call P s) (i # ps)) (answer P (calls s) ?c # fds)"
    using r(3) quiet_transcript [OF assms(3)] by simp
  ultimately show ?thesis
    unfolding loads_def using r(1,2,4) assms(2,4)
    by (intro exI [of _ "answer P (calls s) ?c # fds"] exI [of _ E'] exI [of _ "(?c # cs) @ cs'"]) simp
qed

lemma load_sections_ok:
  assumes "accepting P"
  shows "\<forall>i\<in>set is. i < length (processed_sec s) \<and> (\<not> processed_sec s ! i \<longrightarrow> program_ok P i) \<Longrightarrow>
    prog_cnt s + length (filter (loadable P (processed_sec s)) is) \<le> length (prog_fd s) \<Longrightarrow>
    length (event_fd s) = length (prog_fd s) \<Longrightarrow>
    \<exists>s'. load_sections P is s = Inr (0, s') \<and> loads P (filter (loadable P (processed_sec s)) is) s s'"
proof (induction "is" arbitrary: s)
  case Nil
  then show ?case using loads_Nil [of s P] by (simp add: ret_def)
next
  case (Cons i "is")
  let ?ps = "filter (loadable P (processed_sec s))"
  show ?case
  proof (cases "loadable P (processed_sec s) i")
    case False
    with load_section_skip [of i s P] Cons.IH [of s] Cons.prems show ?thesis by (simp add: bnd_def)
  next
    case True
    then have i: "i < length (processed_sec s)" "program_ok P i" "prog_cnt s < length (prog_fd s)"
      using Cons.prems by (auto simp: loadable_def)
    obtain E cs where step: "load_section P i s = Inr (0, s\<lparr>prog_fd := (prog_fd s)[prog_cnt s := answer P (calls s) (program_call P s i)],
        prog_cnt := prog_cnt s + 1, event_fd := E, calls := calls s @ program_call P s i # cs\<rparr>)" (is "_ = Inr (0, ?s)")
      and E: "length E = length (event_fd s)" "list_all quiet cs" "xdp_section P i \<longrightarrow> cs = []"
      using load_section_loads [OF assms i(1) True i(2,3) Cons.prems(3)] by blast
    obtain s' where s': "load_sections P is ?s = Inr (0, s')" "loads P (?ps is) ?s s'"
      using Cons.IH [of ?s] Cons.prems True E(1) by auto
    with step True loads_Cons [OF i(3) E s'(2)] show ?thesis by (simp add: bnd_def)
  qed
qed

section \<open>The second pass\<close>

text \<open>The sections of relocations for instructions, what they refer to, and how many entries they have.\<close>

definition applies :: "platform \<Rightarrow> nat \<Rightarrow> bool" where
  "applies P i \<longleftrightarrow>
     (case get_sec (elf P) i of Inl _ \<Rightarrow> False
      | Inr (nm, shdr) \<Rightarrow> sh_type shdr = SHT_REL (elf P) \<and>
          (case get_sec (elf P) (sh_info shdr) of Inl _ \<Rightarrow> False
           | Inr (nm', shdr') \<Rightarrow> sh_type shdr' = SHT_PROGBITS (elf P) \<and> sh_flags shdr' AND SHF_EXECINSTR (elf P) \<noteq> 0))"

definition target :: "platform \<Rightarrow> nat \<Rightarrow> nat" where
  "target P i = (case get_sec (elf P) i of Inl _ \<Rightarrow> 0 | Inr (nm, shdr) \<Rightarrow> sh_info shdr)"

definition entries :: "platform \<Rightarrow> nat \<Rightarrow> nat list" where
  "entries P i = (case get_sec (elf P) i of Inl _ \<Rightarrow> [] | Inr (nm, shdr) \<Rightarrow> [0..<sh_size shdr div sh_entsize shdr])"

definition relocs_ok :: "platform \<Rightarrow> loader \<Rightarrow> nat \<Rightarrow> nat \<Rightarrow> nat \<Rightarrow> bool" where
  "relocs_ok P s symtab nr_maps i \<longleftrightarrow>
     target P i \<noteq> symtab \<and> \<not> applies P (target P i) \<and>
     (case get_sec (elf P) i of Inl _ \<Rightarrow> True | Inr (nm, shdr) \<Rightarrow> sh_entsize shdr \<noteq> 0) \<and>
     (\<forall>k\<in>set (entries P i). relo_ok P s i symtab (target P i) nr_maps k)"

text \<open>The relocations of an instruction in the order they are applied, and what the last one leaves.\<close>

definition relos_of :: "platform \<Rightarrow> loader \<Rightarrow> nat list \<Rightarrow> nat \<Rightarrow> nat \<Rightarrow> (nat \<times> nat) list" where
  "relos_of P s R t j =
     concat (map (\<lambda>i. map (Pair i) (filter (\<lambda>k. relo_insn P s i k = Some j) (entries P i))) (filter (\<lambda>i. target P i = t) R))"

definition final_insn :: "platform \<Rightarrow> loader \<Rightarrow> nat \<Rightarrow> nat \<Rightarrow> nat list \<Rightarrow> nat \<Rightarrow> nat \<Rightarrow> bpf_insn result" where
  "final_insn P s symtab nr_maps R t j =
     (let x = load_insn (hdrs P) (sections s t) j; js = relos_of P s R t j
      in if js = [] then x
         else bnd_r x (\<lambda>x. Inr (with_map_fd (the (relo_fd P s (fst (last js)) symtab nr_maps (snd (last js)))) x)))"

definition same_codes :: "platform \<Rightarrow> u8 list \<Rightarrow> u8 list \<Rightarrow> bool" where
  "same_codes P b b' \<longleftrightarrow>
     (\<forall>j. case load_insn (hdrs P) b j of Inl e \<Rightarrow> load_insn (hdrs P) b' j = Inl e
          | Inr x \<Rightarrow> \<exists>y. load_insn (hdrs P) b' j = Inr y \<and> i_code y = i_code x)"

lemma relocated_codes:
  assumes "\<forall>j. load_insn (hdrs P) b j = relocated P s data symtab prog nr_maps is j"
  shows "same_codes P (sections s prog) b"
  using assms by (auto simp: same_codes_def relocated_def Let_def split: sum.splits)

lemma relo_ok_other:
  assumes "same_codes P (sections s t) b" "i \<noteq> t" "symtab \<noteq> t"
  shows "relo_ok P (s\<lparr>sections := (sections s)(t := b), processed_sec := pr\<rparr>) i symtab t' nr_maps k = relo_ok P s i symtab t' nr_maps k"
proof -
  let ?s = "s\<lparr>sections := (sections s)(t := b), processed_sec := pr\<rparr>"
  have r: "relo_insn P ?s i k = relo_insn P s i k" "relo_fd P ?s i symtab nr_maps k = relo_fd P s i symtab nr_maps k"
    using assms(2,3) by (simp_all add: relo_insn_def relo_fd_def)
  show ?thesis
  proof (cases "relo_insn P s i k")
    case (Some j)
    from assms(1) have "case load_insn (hdrs P) (sections s t) j of Inl e \<Rightarrow> load_insn (hdrs P) b j = Inl e
          | Inr x \<Rightarrow> \<exists>y. load_insn (hdrs P) b j = Inr y \<and> i_code y = i_code x"
      by (simp add: same_codes_def)
    then show ?thesis
      by (cases "t' = t"; cases "load_insn (hdrs P) (sections s t) j") (auto simp: relo_ok_def r Some split: sum.splits)
  qed (simp add: relo_ok_def r)
qed

lemma relocate_section_skip:
  "i < length (processed_sec s) \<Longrightarrow> processed_sec s ! i \<or> \<not> applies P i \<Longrightarrow> relocate_section P symtab nr_maps i s = Inr ((), s)"
  by (auto simp: relocate_section_def applies_def bnd_def gets_def lift_def ret_def split: sum.splits)

lemma relocate_section_ok:
  assumes "i < length (processed_sec s)" "\<not> processed_sec s ! i" "applies P i" "relocs_ok P s symtab nr_maps i"
    "nr_maps \<le> length (map_data s)"
  shows "\<exists>b. relocate_section P symtab nr_maps i s =
      Inr ((), s\<lparr>sections := (sections s)(target P i := b), processed_sec := (processed_sec s)[i := True]\<rparr>) \<and>
    length b = length (sections s (target P i)) \<and>
    (\<forall>j. load_insn (hdrs P) b j = relocated P s i symtab (target P i) nr_maps (entries P i) j)"
proof -
  let ?s = "s\<lparr>processed_sec := (processed_sec s)[i := True]\<rparr>"
  obtain nm shdr where sec1: "get_sec (elf P) i = Inr (nm, shdr)"
    using assms(3) by (auto simp: applies_def split: sum.splits)
  then obtain nm' shdr' where sec: "get_sec (elf P) i = Inr (nm, shdr)" "sh_type shdr = SHT_REL (elf P)"
      "get_sec (elf P) (sh_info shdr) = Inr (nm', shdr')" "sh_type shdr' = SHT_PROGBITS (elf P)"
      "sh_flags shdr' AND SHF_EXECINSTR (elf P) \<noteq> 0"
    using assms(3) by (auto simp: applies_def split: sum.splits)
  have t: "target P i = sh_info shdr" "entries P i = [0..<sh_size shdr div sh_entsize shdr]" "sh_entsize shdr \<noteq> 0"
    using sec(1) assms(4) by (simp_all add: target_def entries_def relocs_ok_def)
  have ne: "i \<noteq> target P i" "symtab \<noteq> target P i"
    using assms(3,4) by (auto simp: relocs_ok_def)
  have [simp]: "relo_insn P ?s i k = relo_insn P s i k" "relo_fd P ?s i symtab nr_maps k = relo_fd P s i symtab nr_maps k" for k
    by (simp_all add: relo_insn_def relo_fd_def)
  have ok: "\<forall>k\<in>set (entries P i). relo_ok P ?s i symtab (target P i) nr_maps k"
    using assms(4) by (auto simp: relocs_ok_def relo_ok_def split: option.splits sum.splits)
  have m: "nr_maps \<le> length (map_data ?s)" using assms(5) by simp
  from apply_relos_ok [OF ne m ok] obtain b where b: "apply_relos P i symtab (target P i) nr_maps (entries P i) ?s =
        Inr (0, ?s\<lparr>sections := (sections ?s)(target P i := b)\<rparr>)" "length b = length (sections ?s (target P i))"
      "\<forall>j. load_insn (hdrs P) b j = relocated P ?s i symtab (target P i) nr_maps (entries P i) j"
    by blast
  have "relocate_section P symtab nr_maps i s = Inr ((), ?s\<lparr>sections := (sections ?s)(target P i := b)\<rparr>)"
    using sec assms(1,2) b(1) t
    by (simp add: relocate_section_def bnd_def gets_def lift_def set_processed_def wr_def modify_def parse_relo_and_apply_def ret_def)
  moreover have "relocated P ?s i symtab (target P i) nr_maps (entries P i) j = relocated P s i symtab (target P i) nr_maps (entries P i) j" for j
    by (simp add: relocated_def Let_def)
  ultimately show ?thesis
    using b(2,3) by (intro exI [of _ b]) (cases s, simp)
qed

lemma final_insn_step:
  assumes "\<forall>j. load_insn (hdrs P) b j = relocated P s i symtab (target P i) nr_maps (entries P i) j"
    "\<forall>i'\<in>set R. i' \<noteq> target P i" "symtab \<noteq> target P i"
  shows "final_insn P (s\<lparr>sections := (sections s)(target P i := b), processed_sec := pr\<rparr>) symtab nr_maps R t j =
    final_insn P s symtab nr_maps (i # R) t j"
proof -
  let ?s = "s\<lparr>sections := (sections s)(target P i := b), processed_sec := pr\<rparr>"
  have r: "relo_insn P ?s i' k = relo_insn P s i' k" "relo_fd P ?s i' symtab nr_maps k = relo_fd P s i' symtab nr_maps k"
    if "i' \<in> set R" for i' k
    using assms(2,3) that by (auto simp: relo_insn_def relo_fd_def)
  have same: "relos_of P ?s R t j = relos_of P s R t j"
    unfolding relos_of_def using r(1) by (intro arg_cong [of _ _ concat] map_cong refl) (auto intro!: filter_cong)
  have cons: "relos_of P s (i # R) t j =
      (if target P i = t then map (Pair i) (filter (\<lambda>k. relo_insn P s i k = Some j) (entries P i)) else []) @ relos_of P s R t j"
    by (simp add: relos_of_def)
  have fd: "relo_fd P ?s (fst (last (relos_of P s R t j))) symtab nr_maps k = relo_fd P s (fst (last (relos_of P s R t j))) symtab nr_maps k"
    if "relos_of P s R t j \<noteq> []" for k
    using last_in_set [OF that] r(2) by (auto simp: relos_of_def)
  show ?thesis
  proof (cases "target P i = t")
    case False
    then show ?thesis using same cons fd by (simp add: final_insn_def Let_def)
  next
    case True
    let ?js = "filter (\<lambda>k. relo_insn P s i k = Some j) (entries P i)"
    have l: "last (map (Pair i) ?js) = (i, last ?js)" if "?js \<noteq> []"
      using that by (simp add: last_map)
    have "load_insn (hdrs P) b j = (if ?js = [] then load_insn (hdrs P) (sections s t) j
        else bnd_r (load_insn (hdrs P) (sections s t) j) (\<lambda>x. Inr (with_map_fd (the (relo_fd P s i symtab nr_maps (last ?js))) x)))"
      using assms(1) True by (simp add: relocated_def Let_def)
    then show ?thesis
      using True same cons fd l by (cases "load_insn (hdrs P) (sections s t) j") (auto simp: final_insn_def Let_def)
  qed
qed

lemma relocate_sections_ok:
  "distinct is \<Longrightarrow> \<forall>i\<in>set is. i < length (processed_sec s) \<Longrightarrow> nr_maps \<le> length (map_data s) \<Longrightarrow>
   \<forall>i\<in>set is. \<not> processed_sec s ! i \<longrightarrow> applies P i \<longrightarrow> relocs_ok P s symtab nr_maps i \<Longrightarrow>
   \<exists>S pr. relocate_sections P symtab nr_maps is s = Inr ((), s\<lparr>sections := S, processed_sec := pr\<rparr>) \<and>
     length pr = length (processed_sec s) \<and>
     (\<forall>i<length pr. pr ! i \<longleftrightarrow> processed_sec s ! i \<or> i \<in> set is \<and> applies P i) \<and>
     (\<forall>t. length (S t) = length (sections s t)) \<and>
     (\<forall>t j. load_insn (hdrs P) (S t) j =
        final_insn P s symtab nr_maps (filter (\<lambda>i. \<not> processed_sec s ! i \<and> applies P i) is) t j)"
proof (induction "is" arbitrary: s)
  case Nil
  show ?case
    by (intro exI [of _ "sections s"] exI [of _ "processed_sec s"]) (simp add: ret_def final_insn_def relos_of_def)
next
  case (Cons i "is")
  show ?case
  proof (cases "processed_sec s ! i \<or> \<not> applies P i")
    case True
    with relocate_section_skip [of i s P symtab nr_maps] Cons.prems
    have "relocate_sections P symtab nr_maps (i # is) s = relocate_sections P symtab nr_maps is s"
      by (simp add: bnd_def)
    moreover have "filter (\<lambda>i. \<not> processed_sec s ! i \<and> applies P i) (i # is) = filter (\<lambda>i. \<not> processed_sec s ! i \<and> applies P i) is"
      using True by auto
    moreover have d: "distinct is" "\<forall>i\<in>set is. i < length (processed_sec s)"
        "\<forall>i\<in>set is. \<not> processed_sec s ! i \<longrightarrow> applies P i \<longrightarrow> relocs_ok P s symtab nr_maps i"
      using Cons.prems by auto
    moreover obtain S pr where "relocate_sections P symtab nr_maps is s = Inr ((), s\<lparr>sections := S, processed_sec := pr\<rparr>)"
        "length pr = length (processed_sec s)" "\<forall>i<length pr. pr ! i \<longleftrightarrow> processed_sec s ! i \<or> i \<in> set is \<and> applies P i"
        "\<forall>t. length (S t) = length (sections s t)" "\<forall>t j. load_insn (hdrs P) (S t) j =
          final_insn P s symtab nr_maps (filter (\<lambda>i. \<not> processed_sec s ! i \<and> applies P i) is) t j"
      using Cons.IH [OF d(1,2) Cons.prems(3) d(3)] by blast
    ultimately show ?thesis
      using True by (intro exI [of _ S] exI [of _ pr]) auto
  next
    case False
    then have a: "\<not> processed_sec s ! i" "applies P i" by simp_all
    with Cons.prems have ok: "relocs_ok P s symtab nr_maps i" "i < length (processed_sec s)" by auto
    obtain b where b: "relocate_section P symtab nr_maps i s =
          Inr ((), s\<lparr>sections := (sections s)(target P i := b), processed_sec := (processed_sec s)[i := True]\<rparr>)"
        "length b = length (sections s (target P i))"
        "\<forall>j. load_insn (hdrs P) b j = relocated P s i symtab (target P i) nr_maps (entries P i) j"
      using relocate_section_ok [OF ok(2) a ok(1) Cons.prems(3)] by blast
    let ?s = "s\<lparr>sections := (sections s)(target P i := b), processed_sec := (processed_sec s)[i := True]\<rparr>"
    have other: "i' \<noteq> target P i" if "applies P i'" for i'
      using ok(1) that by (auto simp: relocs_ok_def)
    have sym: "symtab \<noteq> target P i" using ok(1) by (auto simp: relocs_ok_def)
    have pr: "processed_sec ?s ! i' = processed_sec s ! i'" if "i' \<in> set is" for i'
      using Cons.prems(1) that by (cases "i' = i") auto
    have "relocs_ok P ?s symtab nr_maps i'" if "i' \<in> set is" "\<not> processed_sec ?s ! i'" "applies P i'" for i'
      using Cons.prems(4) that pr [OF that(1)] relo_ok_other [OF relocated_codes [OF b(3)] other [OF that(3)] sym]
      by (simp add: relocs_ok_def)
    moreover have "distinct is" "\<forall>i\<in>set is. i < length (processed_sec ?s)" "nr_maps \<le> length (map_data ?s)"
      using Cons.prems by auto
    ultimately obtain S pr' where IH: "relocate_sections P symtab nr_maps is ?s = Inr ((), ?s\<lparr>sections := S, processed_sec := pr'\<rparr>)"
        "length pr' = length (processed_sec ?s)"
        "\<forall>i'<length pr'. pr' ! i' \<longleftrightarrow> processed_sec ?s ! i' \<or> i' \<in> set is \<and> applies P i'"
        "\<forall>t. length (S t) = length (sections ?s t)"
        "\<forall>t j. load_insn (hdrs P) (S t) j =
          final_insn P ?s symtab nr_maps (filter (\<lambda>i. \<not> processed_sec ?s ! i \<and> applies P i) is) t j"
      using Cons.IH [of ?s] by blast
    have f: "filter (\<lambda>i. \<not> processed_sec ?s ! i \<and> applies P i) is = filter (\<lambda>i. \<not> processed_sec s ! i \<and> applies P i) is"
      using pr by (intro filter_cong) auto
    have fin: "final_insn P ?s symtab nr_maps (filter (\<lambda>i. \<not> processed_sec s ! i \<and> applies P i) is) t j =
        final_insn P s symtab nr_maps (filter (\<lambda>i. \<not> processed_sec s ! i \<and> applies P i) (i # is)) t j" for t j
      using final_insn_step [OF b(3) _ sym, of "filter (\<lambda>i. \<not> processed_sec s ! i \<and> applies P i) is"] other a by auto
    show ?thesis
      using IH b(1,2) a ok(2) unfolding f fin
      by (intro exI [of _ S] exI [of _ pr']) (auto simp: bnd_def nth_list_update)
  qed
qed

section \<open>The maps section\<close>

text \<open>The entry that a symbol gives, in the place of an old one.\<close>

definition map_entry :: "platform \<Rightarrow> u8 list \<Rightarrow> nat \<Rightarrow> nat \<Rightarrow> elf_sym \<Rightarrow> bpf_map_data \<Rightarrow> bpf_map_data" where
  "map_entry P data strtab sz x m =
     m\<lparr>md_name := name_text (the (elf_strptr (elf P) strtab (st_name x))), elf_offset := st_value x,
       md_def := map_def_of (hdrs P) (take (min sz sizeof_map_def) (drop (st_value x) data) @ replicate (sizeof_map_def - sz) 0)\<rparr>"

text \<open>
  A symbol with a name and a definition inside the section; of a definition longer than the loader knows, the rest
  is zero.
\<close>

definition map_symbol_ok :: "platform \<Rightarrow> u8 list \<Rightarrow> nat \<Rightarrow> nat \<Rightarrow> elf_sym \<Rightarrow> bool" where
  "map_symbol_ok P data strtab sz x \<longleftrightarrow>
     st_value x + sz \<le> length data \<and> (\<forall>k. sizeof_map_def \<le> k \<and> k < sz \<longrightarrow> data ! (st_value x + k) = 0) \<and>
     (case elf_strptr (elf P) strtab (st_name x) of None \<Rightarrow> False | Some nm \<Rightarrow> NUL \<in> set nm)"

lemma zero_bytes_ok: "\<forall>i\<in>set is. i < length b \<and> b ! i = 0 \<Longrightarrow> zero_bytes b is = Inr True"
  by (induction "is") (simp_all add: rd_def)

lemma copy_map_ok:
  assumes "map_symbol_ok P data strtab sz x" "i < length (map_data s)"
  shows "copy_map P data strtab sz i x s =
    Inr (True, s\<lparr>map_data := (map_data s)[i := map_entry P data strtab sz x (map_data s ! i)]\<rparr>)"
proof -
  have z: "zero_bytes data [st_value x + min sz sizeof_map_def..<st_value x + sz] = Inr True" if "sizeof_map_def < sz"
  proof (rule zero_bytes_ok, intro ballI)
    fix k
    assume "k \<in> set [st_value x + min sz sizeof_map_def..<st_value x + sz]"
    then show "k < length data \<and> data ! k = 0"
      using assms(1) that spec [of "\<lambda>j. sizeof_map_def \<le> j \<and> j < sz \<longrightarrow> data ! (st_value x + j) = 0" "k - st_value x"]
      by (auto simp: map_symbol_ok_def)
  qed
  have len: "st_value x + min sz sizeof_map_def \<le> length data"
    using assms(1) by (auto simp: map_symbol_ok_def min_def)
  obtain nm where nm: "elf_strptr (elf P) strtab (st_name x) = Some nm" "NUL \<in> set nm"
    using assms(1) by (auto simp: map_symbol_ok_def split: option.splits)
  have e: "sizeof_map_def - min sz sizeof_map_def = sizeof_map_def - sz" by simp
  show ?thesis
    using z len nm assms(2)
    by (simp add: copy_map_def bnd_def gets_def lift_def ret_def Let_def set_map_data_def wr_def modify_def
        map_entry_def string_of_def name_text_def e del: min_less_iff_disj)
qed

lemma copy_maps_ok:
  "\<forall>x\<in>set xs. map_symbol_ok P data strtab sz x \<Longrightarrow> i + length xs \<le> length (map_data s) \<Longrightarrow>
   \<exists>M. copy_maps P data strtab sz i xs s = Inr (True, s\<lparr>map_data := M\<rparr>) \<and> length M = length (map_data s) \<and>
     (\<forall>k<length M. M ! k = (if i \<le> k \<and> k < i + length xs then map_entry P data strtab sz (xs ! (k - i)) (map_data s ! k)
       else map_data s ! k))"
proof (induction xs arbitrary: i s)
  case Nil
  then show ?case by (intro exI [of _ "map_data s"]) (auto simp: ret_def)
next
  case (Cons x xs)
  let ?M = "(map_data s)[i := map_entry P data strtab sz x (map_data s ! i)]"
  have "\<forall>x\<in>set xs. map_symbol_ok P data strtab sz x" "Suc i + length xs \<le> length (map_data (s\<lparr>map_data := ?M\<rparr>))"
    using Cons.prems by simp_all
  from Cons.IH [OF this] obtain M where M: "copy_maps P data strtab sz (Suc i) xs (s\<lparr>map_data := ?M\<rparr>) = Inr (True, s\<lparr>map_data := M\<rparr>)"
      "length M = length (map_data s)"
      "\<forall>k<length M. M ! k = (if Suc i \<le> k \<and> k < Suc i + length xs then map_entry P data strtab sz (xs ! (k - Suc i)) (?M ! k) else ?M ! k)"
    by auto
  moreover have "copy_map P data strtab sz i x s = Inr (True, s\<lparr>map_data := ?M\<rparr>)"
    using Cons.prems by (intro copy_map_ok) simp_all
  moreover have "M ! k = (if i \<le> k \<and> k < i + length (x # xs) then map_entry P data strtab sz ((x # xs) ! (k - i)) (map_data s ! k)
      else map_data s ! k)" if "k < length M" for k
    using M(2,3) Cons.prems(2) that by (cases "k = i") (auto simp: nth_Cons')
  ultimately show ?case
    using M(2) by (intro exI [of _ M]) (auto simp: bnd_def)
qed

text \<open>
  The file's symbols of the section are at most 32, at least one, and give maps; then the entries
  stand in the order of the symbols' values.
\<close>

definition maps_ok :: "platform \<Rightarrow> (nat \<Rightarrow> u8 list) \<Rightarrow> nat \<Rightarrow> nat \<Rightarrow> nat \<Rightarrow> elf_sym list \<Rightarrow> bool" where
  "maps_ok P S shndx symtab strtab xs \<longleftrightarrow>
     elf_getscn (elf P) shndx \<and> elf_getdata (elf P) shndx \<noteq> 0 \<and>
     collect_symbols (elf P) (S symtab) shndx [0..<length (S symtab) div sizeof_GElf_Sym (elf P)] [] = Inr xs \<and>
     xs \<noteq> [] \<and> length xs \<le> MAX_MAPS \<and>
     (\<forall>x\<in>set xs. map_symbol_ok P (S shndx) strtab (length (S shndx) div length xs) x)"

lemma cmp_symbols_sorts: "sorted (map st_value (qsort cmp_symbols xs))"
proof -
  have "sorted (map (\<lambda>x. int (st_value x)) (qsort cmp_symbols xs))"
    by (rule sorted_qsort) (auto simp: compares_by_def cmp_symbols_def)
  then show ?thesis by (simp add: sorted_iff_nth_mono)
qed

lemma load_elf_maps_section_ok:
  assumes "maps_ok P (sections s) shndx symtab strtab xs" "length (map_data s) = MAX_MAPS"
  shows "\<exists>M. load_elf_maps_section P shndx symtab strtab s = Inr (int (length xs), s\<lparr>map_data := M\<rparr>) \<and>
    length M = MAX_MAPS \<and>
    (\<forall>k<length xs. M ! k = map_entry P (sections s shndx) strtab (length (sections s shndx) div length xs)
      (qsort cmp_symbols xs ! k) (map_data s ! k)) \<and> (\<forall>k. length xs \<le> k \<longrightarrow> k < MAX_MAPS \<longrightarrow> M ! k = map_data s ! k)"
proof -
  let ?ys = "qsort cmp_symbols xs" and ?sz = "length (sections s shndx) div length xs"
  have "\<forall>x\<in>set ?ys. map_symbol_ok P (sections s shndx) strtab ?sz x" "0 + length ?ys \<le> length (map_data s)"
    using assms by (simp_all add: maps_ok_def)
  from copy_maps_ok [OF this] obtain M where M: "copy_maps P (sections s shndx) strtab ?sz 0 ?ys s = Inr (True, s\<lparr>map_data := M\<rparr>)"
      "length M = length (map_data s)"
      "\<forall>k<length M. M ! k = (if 0 \<le> k \<and> k < 0 + length ?ys then map_entry P (sections s shndx) strtab ?sz (?ys ! (k - 0)) (map_data s ! k)
       else map_data s ! k)"
    by blast
  moreover have "?ys \<noteq> []" using assms(1) length_qsort [of cmp_symbols xs] by (auto simp: maps_ok_def simp del: length_qsort)
  ultimately show ?thesis
    using assms
    by (intro exI [of _ M]) (auto simp: load_elf_maps_section_def maps_ok_def bnd_def gets_def lift_def ret_def Let_def)
qed

section \<open>Creating the maps\<close>

text \<open>
  The call that creates a map: one of maps has the descriptor \<open>inner\<close> of its inner map, which is the map of the
  same file with the number \<open>inner_map_idx\<close> if it is created before, or what stood there before the load.
\<close>

definition is_map_of_maps :: "platform \<Rightarrow> bpf_map_data \<Rightarrow> bool" where
  "is_map_of_maps P m \<longleftrightarrow> map_type (md_def m) \<in> {BPF_MAP_TYPE_ARRAY_OF_MAPS P, BPF_MAP_TYPE_HASH_OF_MAPS P}"

definition map_call :: "platform \<Rightarrow> bpf_map_data \<Rightarrow> int \<Rightarrow> syscall" where
  "map_call P m inner =
     (let node = (if map_flags (md_def m) AND BPF_F_NUMA_NODE P = 0 then - 1 else sint (numa_node (md_def m)))
      in if is_map_of_maps P m
         then Sys_bpf_create_map_in_map_node (map_type (md_def m)) (md_name m) (key_size (md_def m)) inner
                (max_entries (md_def m)) (map_flags (md_def m)) node
         else Sys_bpf_create_map_node (map_type (md_def m)) (md_name m) (key_size (md_def m)) (value_size (md_def m))
                (max_entries (md_def m)) (map_flags (md_def m)) node)"

definition inner_fd :: "int list \<Rightarrow> int list \<Rightarrow> nat \<Rightarrow> bpf_map_data \<Rightarrow> int" where
  "inner_fd old new k m = (let i = unat (inner_map_idx (md_def m)) in if i < k then new ! i else old ! i)"

text \<open>What creating the maps from \<open>i\<close> to \<open>n\<close> changes: their descriptors, which are the answers to the calls.\<close>

definition maps_created :: "platform \<Rightarrow> nat \<Rightarrow> nat \<Rightarrow> loader \<Rightarrow> loader \<Rightarrow> bool" where
  "maps_created P i n s s' \<longleftrightarrow>
     (\<exists>fds arr M cs. s' = s\<lparr>map_fd := fds, prog_array_fd := arr, map_data := M, calls := calls s @ cs\<rparr> \<and>
       length fds = length (map_fd s) \<and> length M = length (map_data s) \<and>
       (\<forall>k<length M. M ! k = (if i \<le> k \<and> k < n then (map_data s ! k)\<lparr>md_fd := fds ! k\<rparr> else map_data s ! k)) \<and>
       (\<forall>k. k < i \<or> n \<le> k \<longrightarrow> fds ! k = map_fd s ! k) \<and> (\<forall>k. i \<le> k \<and> k < n \<longrightarrow> 0 \<le> fds ! k) \<and>
       transcript P (calls s) cs =
         map (\<lambda>k. (map_call P (map_data s ! k) (inner_fd (map_fd s) fds k (map_data s ! k)), fds ! k)) [i..<n])"

text \<open>The inner map of a map of maps has a place in the array.\<close>

definition creatable :: "platform \<Rightarrow> nat \<Rightarrow> bpf_map_data \<Rightarrow> bool" where
  "creatable P n m \<longleftrightarrow> (is_map_of_maps P m \<longrightarrow> unat (inner_map_idx (md_def m)) < n)"

lemma create_map_ok:
  assumes "creatable P (length (map_fd s)) m"
  shows "create_map P m s = kernel_call P (map_call P m (map_fd s ! unat (inner_map_idx (md_def m)))) s"
  using assms
  by (simp add: create_map_def creatable_def map_call_def is_map_of_maps_def Let_def bnd_def gets_def lift_def rd_def)

lemma map_call_old: "map_call P (m\<lparr>md_fd := fd\<rparr>) = map_call P m" "inner_fd old new k (m\<lparr>md_fd := fd\<rparr>) = inner_fd old new k m"
  by (simp_all add: fun_eq_iff map_call_def inner_fd_def is_map_of_maps_def Let_def)

lemma load_map_ok:
  assumes "creatable P (length (map_fd s)) (map_data s ! i)" "accepting P" "i < length (map_fd s)" "i < length (map_data s)"
  shows "\<exists>fd arr. load_map P None i s = Inr (True, s\<lparr>map_fd := (map_fd s)[i := fd], prog_array_fd := arr,
      map_data := (map_data s)[i := (map_data s ! i)\<lparr>md_fd := fd\<rparr>],
      calls := calls s @ [map_call P (map_data s ! i) (map_fd s ! unat (inner_map_idx (md_def (map_data s ! i))))]\<rparr>) \<and>
    0 \<le> fd \<and> fd = answer P (calls s) (map_call P (map_data s ! i) (map_fd s ! unat (inner_map_idx (md_def (map_data s ! i)))))"
proof -
  let ?m = "map_data s ! i"
  let ?c = "map_call P ?m (map_fd s ! unat (inner_map_idx (md_def ?m)))"
  define fd where "fd = answer P (calls s) ?c"
  have c: "create_map P ?m s = Inr (fd, s\<lparr>calls := calls s @ [?c]\<rparr>)" "0 \<le> fd"
    using assms(2) by (simp_all add: create_map_ok [OF assms(1)] kernel_call_def fd_def accepting_def)
  let ?arr = "if map_type (md_def ?m) = BPF_MAP_TYPE_PROG_ARRAY P then fd else prog_array_fd s"
  have "load_map P None i s = Inr (True, s\<lparr>map_fd := (map_fd s)[i := fd], prog_array_fd := ?arr,
      map_data := (map_data s)[i := ?m\<lparr>md_fd := fd\<rparr>], calls := calls s @ [?c]\<rparr>)"
    using c assms(3,4)
    by (cases s) (simp add: load_map_def bnd_def gets_def lift_def set_map_data_def set_map_fd_def wr_def modify_def ret_def Let_def)
  with c(2) fd_def show ?thesis by blast
qed

lemma load_maps_ok:
  "accepting P \<Longrightarrow> length (map_fd s) = MAX_MAPS \<Longrightarrow> i \<le> n \<Longrightarrow> n \<le> MAX_MAPS \<Longrightarrow> n \<le> length (map_data s) \<Longrightarrow>
   \<forall>k. i \<le> k \<and> k < n \<longrightarrow> creatable P MAX_MAPS (map_data s ! k) \<Longrightarrow>
   \<exists>s'. load_maps_from P None [i..<n] s = Inr (0, s') \<and> maps_created P i n s s'"
proof (induction "n - i" arbitrary: i s)
  case 0
  then have "maps_created P i n s s"
    unfolding maps_created_def
    by (intro exI [of _ "map_fd s"] exI [of _ "prog_array_fd s"] exI [of _ "map_data s"] exI [of _ "[]"]) simp
  with 0 show ?case by (simp add: ret_def)
next
  case (Suc d)
  then have i: "i < n" "i < length (map_fd s)" "i < length (map_data s)" "[i..<n] = i # [Suc i..<n]"
    by (simp_all add: upt_conv_Cons)
  let ?m = "map_data s ! i"
  let ?c = "map_call P ?m (map_fd s ! unat (inner_map_idx (md_def ?m)))"
  have "creatable P (length (map_fd s)) ?m" using Suc.prems(2,6) i(1) by simp
  from load_map_ok [OF this Suc.prems(1) i(2,3)] obtain fd arr where
      step: "load_map P None i s = Inr (True, s\<lparr>map_fd := (map_fd s)[i := fd], prog_array_fd := arr,
        map_data := (map_data s)[i := ?m\<lparr>md_fd := fd\<rparr>], calls := calls s @ [?c]\<rparr>)" (is "_ = Inr (True, ?s)")
      and fd: "0 \<le> fd" "fd = answer P (calls s) ?c"
    by blast
  have "\<forall>k. Suc i \<le> k \<and> k < n \<longrightarrow> creatable P MAX_MAPS (map_data ?s ! k)"
    using Suc.prems(6) by simp
  then have "\<exists>s'. load_maps_from P None [Suc i..<n] ?s = Inr (0, s') \<and> maps_created P (Suc i) n ?s s'"
    using Suc.hyps(2) Suc.prems(1-5) i(1) by (intro Suc.hyps(1)) simp_all
  then obtain s' where s': "load_maps_from P None [Suc i..<n] ?s = Inr (0, s')" "maps_created P (Suc i) n ?s s'" by blast
  then obtain fds arr' M cs where r: "s' = ?s\<lparr>map_fd := fds, prog_array_fd := arr', map_data := M, calls := calls ?s @ cs\<rparr>"
      "length fds = length (map_fd s)" "length M = length (map_data s)"
      "\<forall>k<length M. M ! k = (if Suc i \<le> k \<and> k < n then (map_data ?s ! k)\<lparr>md_fd := fds ! k\<rparr> else map_data ?s ! k)"
      "\<forall>k. k < Suc i \<or> n \<le> k \<longrightarrow> fds ! k = map_fd ?s ! k" "\<forall>k. Suc i \<le> k \<and> k < n \<longrightarrow> 0 \<le> fds ! k"
      "transcript P (calls ?s) cs =
         map (\<lambda>k. (map_call P (map_data ?s ! k) (inner_fd (map_fd ?s) fds k (map_data ?s ! k)), fds ! k)) [Suc i..<n]"
    unfolding maps_created_def by auto
  have at: "fds ! i = fd" using r(5) i(2) by simp
  have inner: "inner_fd (map_fd s) fds i ?m = map_fd s ! unat (inner_map_idx (md_def ?m))"
    using r(5) by (simp add: inner_fd_def Let_def)
  have rest: "(map_call P (map_data ?s ! k) (inner_fd (map_fd ?s) fds k (map_data ?s ! k)), fds ! k) =
      (map_call P (map_data s ! k) (inner_fd (map_fd s) fds k (map_data s ! k)), fds ! k)" if "k \<in> set [Suc i..<n]" for k
    using that by (simp add: inner_fd_def Let_def)
  let ?pair = "\<lambda>k. (map_call P (map_data s ! k) (inner_fd (map_fd s) fds k (map_data s ! k)), fds ! k)"
  have "transcript P (calls ?s) cs = map ?pair [Suc i..<n]"
    unfolding r(7) by (rule map_cong [OF refl]) (rule rest)
  moreover have "transcript P (calls s) (?c # cs) = (?c, fd) # transcript P (calls ?s) cs"
    using fd(2) by simp
  moreover have "?pair i = (?c, fd)" using at inner by simp
  ultimately have "transcript P (calls s) (?c # cs) = map ?pair [i..<n]"
    unfolding i(4) by (simp only: list.map)
  moreover have "M ! k = (if i \<le> k \<and> k < n then (map_data s ! k)\<lparr>md_fd := fds ! k\<rparr> else map_data s ! k)" if "k < length M" for k
    using r(3,4) at i(1) that by (cases "k = i") auto
  moreover have "fds ! k = map_fd s ! k" if "k < i \<or> n \<le> k" for k
    using r(5) that i(1) by auto
  moreover have "0 \<le> fds ! k" if "i \<le> k \<and> k < n" for k
    using r(6) at fd(1) that by (cases "k = i") auto
  ultimately have "maps_created P i n s s'"
    unfolding maps_created_def using r(1-3)
    by (intro exI [of _ fds] exI [of _ arr'] exI [of _ M] exI [of _ "?c # cs"]) simp
  with step s'(1) show ?case unfolding i(4) by (simp add: bnd_def)
qed

section \<open>The first pass\<close>

definition sec_name :: "platform \<Rightarrow> nat \<Rightarrow> string option" where
  "sec_name P i = (case get_sec (elf P) i of Inl _ \<Rightarrow> None | Inr (nm, shdr) \<Rightarrow> Some (name_text nm))"

definition marked :: "platform \<Rightarrow> nat \<Rightarrow> bool" where
  "marked P i \<longleftrightarrow> sec_name P i = Some ''license'' \<or> sec_name P i = Some ''version''"

text \<open>A section whose name can be compared, with a license that fits and a version of four bytes.\<close>

definition header_ok :: "platform \<Rightarrow> nat \<Rightarrow> bool" where
  "header_ok P i \<longleftrightarrow>
     (case get_sec (elf P) i of Inl _ \<Rightarrow> True
      | Inr (nm, shdr) \<Rightarrow> NUL \<in> set nm \<and> (name_text nm = ''license'' \<longrightarrow> length (elf_contents (elf P) i) \<le> 128) \<and>
          (name_text nm = ''version'' \<longrightarrow> length (elf_contents (elf P) i) = 4))"

text \<open>What is noted of a section: the last maps section and symbol table count, the last license, and the last version.\<close>

definition note_section :: "platform \<Rightarrow> nat \<Rightarrow> scan \<Rightarrow> scan" where
  "note_section P i sc =
     (case get_sec (elf P) i of Inl _ \<Rightarrow> sc
      | Inr (nm, shdr) \<Rightarrow>
          if marked P i then sc
          else if name_text nm = ''maps'' then sc\<lparr>maps_shndx := Some i\<rparr>
          else if sh_type shdr = SHT_SYMTAB (elf P) then sc\<lparr>symbols := Some i, strtabidx := sh_link shdr\<rparr>
          else sc)"

definition note_license :: "platform \<Rightarrow> nat \<Rightarrow> u8 list \<Rightarrow> u8 list" where
  "note_license P i l =
     (if sec_name P i = Some ''license''
      then elf_contents (elf P) i @ drop (length (elf_contents (elf P) i)) l else l)"

definition note_version :: "platform \<Rightarrow> nat \<Rightarrow> u32 \<Rightarrow> u32" where
  "note_version P i v =
     (let b = elf_contents (elf P) i
      in if sec_name P i = Some ''version'' then word32 (little_endian (hdrs P)) (b ! 0) (b ! 1) (b ! 2) (b ! 3) else v)"

definition scanned :: "platform \<Rightarrow> nat list \<Rightarrow> loader \<Rightarrow> loader \<Rightarrow> bool" where
  "scanned P is s s' \<longleftrightarrow>
     (\<exists>pr M. s' = s\<lparr>license := fold (note_license P) is (license s), kern_version := fold (note_version P) is (kern_version s),
         processed_sec := pr, map_data := M\<rparr> \<and>
       length pr = length (processed_sec s) \<and> length M = length (map_data s) \<and>
       (\<forall>i<length pr. pr ! i \<longleftrightarrow> processed_sec s ! i \<or> i \<in> set is \<and> marked P i))"

lemma scan_section_ok:
  assumes "header_ok P i" "i < length (processed_sec s)" "length (license s) = 128" "sections s = elf_contents (elf P)"
  shows "\<exists>s'. scan_section P i sc s = Inr (Some (note_section P i sc), s') \<and> scanned P [i] s s'"
proof (cases "get_sec (elf P) i")
  case (Inl e)
  have "scanned P [i] s s"
    unfolding scanned_def
    by (intro exI [of _ "processed_sec s"] exI [of _ "map_data s"])
      (auto simp: note_license_def note_version_def marked_def sec_name_def Inl)
  with Inl show ?thesis by (simp add: scan_section_def note_section_def ret_def)
next
  case (Inr r)
  obtain nm shdr where r: "r = (nm, shdr)" by (cases r)
  have ok: "NUL \<in> set nm" using assms(1) by (simp add: header_ok_def Inr r)
  have nm: "sec_name P i = Some (name_text nm)" by (simp add: sec_name_def Inr r)
  note named = name_is_text [OF ok]
  let ?c = "elf_contents (elf P) i"
  have frame: "scanned P [i] s (s\<lparr>license := note_license P i (license s), kern_version := note_version P i (kern_version s),
      processed_sec := pr, map_data := M\<rparr>)"
    if "length M = length (map_data s)" "pr = (if marked P i then (processed_sec s)[i := True] else processed_sec s)" for pr M
    unfolding scanned_def using that assms(2)
    by (intro exI [of _ pr] exI [of _ M]) (auto simp: nth_list_update)
  consider (lic) "name_text nm = ''license''" | (ver) "name_text nm = ''version''"
    | (maps) "name_text nm = ''maps''" | (rest) "name_text nm \<notin> {''license'', ''version'', ''maps''}" by blast
  then show ?thesis
  proof cases
    case lic
    then have l: "length ?c \<le> 128" "marked P i" "note_license P i (license s) = ?c @ drop (length ?c) (license s)"
        "note_version P i (kern_version s) = kern_version s"
      using assms(1) nm by (simp_all add: header_ok_def Inr r marked_def note_license_def note_version_def)
    have "scan_section P i sc s = Inr (Some sc, s\<lparr>license := note_license P i (license s),
        kern_version := note_version P i (kern_version s), processed_sec := (processed_sec s)[i := True], map_data := map_data s\<rparr>)"
      using lic l assms(2-4) named [of "''license''"]
      by (cases s) (simp add: scan_section_def Inr r bnd_def gets_def lift_def nul_free_def set_processed_def wr_def modify_def ret_def)
    with frame [of "map_data s" "(processed_sec s)[i := True]"] l(2) show ?thesis
      by (simp add: note_section_def Inr r)
  next
    case ver
    then have l: "length ?c = 4" "marked P i" "note_license P i (license s) = license s"
      using assms(1) nm by (simp_all add: header_ok_def Inr r marked_def note_license_def)
    have v: "load32 (hdrs P) ?c 0 = Inr (note_version P i (kern_version s))"
      using l(1) nm ver by (simp add: load32_def note_version_def Let_def numeral_eq_Suc)
    have "scan_section P i sc s = Inr (Some sc, s\<lparr>license := license s,
        kern_version := note_version P i (kern_version s), processed_sec := (processed_sec s)[i := True], map_data := map_data s\<rparr>)"
      using ver l(1) v assms(2-4) named [of "''license''"] named [of "''version''"]
      by (cases s) (simp add: scan_section_def Inr r bnd_def gets_def lift_def nul_free_def set_processed_def wr_def modify_def ret_def)
    with frame [of "map_data s" "(processed_sec s)[i := True]"] l(2,3) show ?thesis
      by (simp add: note_section_def Inr r)
  next
    case maps
    then have l: "\<not> marked P i" "note_license P i (license s) = license s" "note_version P i (kern_version s) = kern_version s"
      using nm by (simp_all add: marked_def note_license_def note_version_def)
    have "scan_section P i sc s = Inr (Some (sc\<lparr>maps_shndx := Some i\<rparr>), s\<lparr>license := license s,
        kern_version := note_version P i (kern_version s), processed_sec := processed_sec s, map_data := map (\<lambda>m. m\<lparr>md_fd := - 1\<rparr>) (map_data s)\<rparr>)"
      using maps l(3) named [of "''license''"] named [of "''version''"] named [of "''maps''"]
      by (cases s) (simp add: scan_section_def Inr r bnd_def gets_def lift_def nul_free_def modify_def ret_def)
    with frame [of "map (\<lambda>m. m\<lparr>md_fd := - 1\<rparr>) (map_data s)" "processed_sec s"] l maps show ?thesis
      by (simp add: note_section_def Inr r)
  next
    case rest
    then have l: "\<not> marked P i" "note_license P i (license s) = license s" "note_version P i (kern_version s) = kern_version s"
      using nm by (simp_all add: marked_def note_license_def note_version_def)
    have "scan_section P i sc s = Inr (Some (note_section P i sc), s)"
      using rest l(1) named [of "''license''"] named [of "''version''"] named [of "''maps''"]
      by (simp add: scan_section_def note_section_def Inr r bnd_def gets_def lift_def nul_free_def ret_def)
    with frame [of "map_data s" "processed_sec s"] l show ?thesis by simp
  qed
qed

lemma scanned_trans:
  assumes "scanned P [i] s s1" "scanned P is s1 s2"
  shows "scanned P (i # is) s s2"
proof -
  obtain pr M where 1: "s1 = s\<lparr>license := fold (note_license P) [i] (license s), kern_version := fold (note_version P) [i] (kern_version s),
        processed_sec := pr, map_data := M\<rparr>"
      "length pr = length (processed_sec s)" "length M = length (map_data s)"
      "\<forall>k<length pr. pr ! k \<longleftrightarrow> processed_sec s ! k \<or> k \<in> set [i] \<and> marked P k"
    using assms(1) unfolding scanned_def by blast
  obtain pr' M' where 2: "s2 = s1\<lparr>license := fold (note_license P) is (license s1), kern_version := fold (note_version P) is (kern_version s1),
        processed_sec := pr', map_data := M'\<rparr>"
      "length pr' = length (processed_sec s1)" "length M' = length (map_data s1)"
      "\<forall>k<length pr'. pr' ! k \<longleftrightarrow> processed_sec s1 ! k \<or> k \<in> set is \<and> marked P k"
    using assms(2) unfolding scanned_def by blast
  show ?thesis
    unfolding scanned_def using 1 2
    by (intro exI [of _ pr'] exI [of _ M']) auto
qed

lemma length_note_license:
  "header_ok P i \<Longrightarrow> length l = 128 \<Longrightarrow> length (note_license P i l) = 128"
  by (auto simp: note_license_def header_ok_def sec_name_def split: sum.splits)

lemma scan_sections_ok:
  "\<forall>i\<in>set is. header_ok P i \<and> i < length (processed_sec s) \<Longrightarrow> length (license s) = 128 \<Longrightarrow>
   sections s = elf_contents (elf P) \<Longrightarrow>
   \<exists>s'. scan_sections P is sc s = Inr (Some (fold (note_section P) is sc), s') \<and> scanned P is s s'"
proof (induction "is" arbitrary: s sc)
  case Nil
  have "scanned P [] s s"
    unfolding scanned_def
    by (intro exI [of _ "processed_sec s"] exI [of _ "map_data s"]) simp
  then show ?case by (simp add: ret_def)
next
  case (Cons i "is")
  obtain s1 where s1: "scan_section P i sc s = Inr (Some (note_section P i sc), s1)" "scanned P [i] s s1"
    using scan_section_ok [of P i s sc] Cons.prems by auto
  then have "\<forall>i\<in>set is. header_ok P i \<and> i < length (processed_sec s1)" "length (license s1) = 128" "sections s1 = elf_contents (elf P)"
    using Cons.prems length_note_license [of P i "license s"] unfolding scanned_def by auto
  from Cons.IH [OF this, of "note_section P i sc"] obtain s2 where
      "scan_sections P is (note_section P i sc) s1 = Inr (Some (fold (note_section P) is (note_section P i sc)), s2)"
      "scanned P is s1 s2"
    by blast
  with s1 scanned_trans [OF s1(2)] show ?case by (auto simp: bnd_def)
qed

end
