(* ===== verification/BpfProps.thy ===== *)
theory BpfProps
  imports BpfPasses
begin

text \<open>
  The whole load: what \<open>load_bpf_file\<close> does with a well-formed object file when the kernel accepts
  its calls, and an example of such a file.
\<close>

unbundle bit_operations_syntax

section \<open>A file that loads\<close>

definition found :: "platform \<Rightarrow> scan" where
  "found P = fold (note_section P) [1..<e_shnum (elf P)] \<lparr>maps_shndx = None, symbols = None, strtabidx = 0\<rparr>"

text \<open>The relocation sections that are applied, and the sections of programs.\<close>

definition relo_sections :: "platform \<Rightarrow> nat list" where
  "relo_sections P = filter (\<lambda>i. \<not> marked P i \<and> maps_shndx (found P) \<noteq> Some i \<and> applies P i) [1..<e_shnum (elf P)]"

definition programs :: "platform \<Rightarrow> nat list" where
  "programs P = filter (\<lambda>i. section_type P i \<noteq> None \<and> i \<notin> set (relo_sections P)) [1..<e_shnum (elf P)]"

text \<open>An entry names a load of a constant in the program, and a symbol at which a map of the file begins.\<close>

definition entry_ok :: "platform \<Rightarrow> nat \<Rightarrow> elf_sym list \<Rightarrow> nat \<Rightarrow> nat \<Rightarrow> bool" where
  "entry_ok P symtab xs i k \<longleftrightarrow>
     (case gelf_getrel (elf P) (elf_contents (elf P) i) k of None \<Rightarrow> False
      | Some rel \<Rightarrow>
          (case gelf_getsym (elf P) (elf_contents (elf P) symtab) (GELF_R_SYM (elf P) (r_info rel)) of None \<Rightarrow> False
           | Some y \<Rightarrow> st_value y \<in> st_value ` set xs \<and>
               (case load_insn (hdrs P) (elf_contents (elf P) (target P i)) (r_offset rel div sizeof_insn mod 2 ^ 32) of
                  Inl _ \<Rightarrow> False | Inr x \<Rightarrow> i_code x = ld_imm64_code P)))"

definition relo_section_ok :: "platform \<Rightarrow> nat \<Rightarrow> elf_sym list \<Rightarrow> nat \<Rightarrow> bool" where
  "relo_section_ok P symtab xs i \<longleftrightarrow>
     target P i \<noteq> symtab \<and> \<not> applies P (target P i) \<and>
     (case get_sec (elf P) i of Inl _ \<Rightarrow> True | Inr (nm, shdr) \<Rightarrow> sh_entsize shdr \<noteq> 0) \<and>
     (\<forall>k\<in>set (entries P i). entry_ok P symtab xs i k)"

text \<open>The map with the number \<open>k\<close> of the file, before it has a descriptor.\<close>

definition file_map :: "platform \<Rightarrow> elf_sym list \<Rightarrow> nat \<Rightarrow> bpf_map_data" where
  "file_map P xs k =
     (case maps_shndx (found P) of None \<Rightarrow> empty_map_data
      | Some m \<Rightarrow> map_entry P (elf_contents (elf P) m) (strtabidx (found P)) (length (elf_contents (elf P) m) div length xs)
          (qsort cmp_symbols xs ! k) empty_map_data)"

definition file_maps_ok :: "platform \<Rightarrow> nat \<Rightarrow> elf_sym list \<Rightarrow> bool" where
  "file_maps_ok P symtab xs \<longleftrightarrow>
     (case maps_shndx (found P) of None \<Rightarrow> xs = []
      | Some m \<Rightarrow> maps_ok P (elf_contents (elf P)) m symtab (strtabidx (found P)) xs \<and>
          (\<forall>k<length xs. creatable P MAX_MAPS (file_map P xs k)))"

text \<open>
  The object file is well formed: \<open>symtab\<close> is its symbol table, and \<open>xs\<close> the symbols of its maps. The sections
  that are left for the third pass, which are neither the license, the version or the maps nor relocations that were
  applied, are of programs it can attach, or have other names.
\<close>

definition file_ok :: "platform \<Rightarrow> nat \<Rightarrow> elf_sym list \<Rightarrow> bool" where
  "file_ok P symtab xs \<longleftrightarrow>
     elf_version_known (elf P) \<and> elf_begin_ok (elf P) \<and> gelf_getehdr_ok (elf P) \<and> e_shnum (elf P) \<le> 128 \<and>
     (\<forall>i\<in>set [1..<e_shnum (elf P)]. header_ok P i \<and>
        (\<not> marked P i \<and> maps_shndx (found P) \<noteq> Some i \<and> i \<notin> set (relo_sections P) \<longrightarrow> program_ok P i)) \<and>
     symbols (found P) = Some symtab \<and> file_maps_ok P symtab xs \<and>
     (\<forall>i\<in>set (relo_sections P). relo_section_ok P symtab xs i)"

text \<open>The arrays of the loader have their sizes.\<close>

definition loader_ok :: "loader \<Rightarrow> bool" where
  "loader_ok s \<longleftrightarrow> length (map_fd s) = MAX_MAPS \<and> length (map_data s) = MAX_MAPS \<and> length (prog_fd s) = MAX_PROGS \<and>
     length (event_fd s) = MAX_PROGS"

lemma maps_shndx_note:
  "maps_shndx (note_section P i sc) = (if sec_name P i = Some ''maps'' then Some i else maps_shndx sc)"
  by (auto simp: note_section_def sec_name_def marked_def split: sum.splits)

lemma found_maps: "maps_shndx (found P) = Some m \<Longrightarrow> m < e_shnum (elf P) \<and> sec_name P m = Some ''maps''"
proof -
  have "maps_shndx (fold (note_section P) is sc) = Some m \<Longrightarrow>
      maps_shndx sc = Some m \<or> m \<in> set is \<and> sec_name P m = Some ''maps''" for "is" sc
  proof (induction "is" arbitrary: sc)
    case (Cons i "is")
    from Cons.IH [of "note_section P i sc"] Cons.prems show ?case
      by (auto simp: maps_shndx_note split: if_splits)
  qed simp
  then show "maps_shndx (found P) = Some m \<Longrightarrow> m < e_shnum (elf P) \<and> sec_name P m = Some ''maps''"
    unfolding found_def by fastforce
qed

text \<open>The maps as they stand after they were created: the file's, each with its descriptor.\<close>

definition maps_ready :: "platform \<Rightarrow> elf_sym list \<Rightarrow> loader \<Rightarrow> bool" where
  "maps_ready P xs s \<longleftrightarrow>
     (\<forall>k<length xs. map_data s ! k = (file_map P xs k)\<lparr>md_fd := map_fd s ! k\<rparr> \<and> 0 \<le> map_fd s ! k)"

text \<open>The calls that create the maps of a file, in the order of the maps, with the answers that become the descriptors.\<close>

definition map_calls :: "platform \<Rightarrow> elf_sym list \<Rightarrow> int list \<Rightarrow> int list \<Rightarrow> (syscall \<times> int) list" where
  "map_calls P xs old new =
     map (\<lambda>k. (map_call P (file_map P xs k) (inner_fd old new k (file_map P xs k)), new ! k)) [0..<length xs]"

lemma map_call_create: "is_create (map_call P m inner)" "\<not> is_load (map_call P m inner)" "\<not> is_effect (map_call P m inner)"
  by (simp_all add: map_call_def Let_def)

lemma map_calls_requests:
  "filter (is_request \<circ> fst) (map_calls P xs old new) = map_calls P xs old new"
  "filter is_load (map fst (map_calls P xs old new)) = []" "filter is_effect (map fst (map_calls P xs old new)) = []"
  by (auto simp: map_calls_def map_call_create is_request_def filter_id_conv filter_empty_conv)

lemma maps_ready_offset:
  "file_maps_ok P symtab xs \<Longrightarrow> maps_ready P xs s \<Longrightarrow> k < length xs \<Longrightarrow>
   elf_offset (map_data s ! k) = st_value (qsort cmp_symbols xs ! k)"
  by (auto simp: maps_ready_def file_maps_ok_def file_map_def map_entry_def split: option.splits)

lemma relocs_ok_file:
  assumes "relo_section_ok P symtab xs i" "sections s = elf_contents (elf P)" "maps_ready P xs s" "file_maps_ok P symtab xs"
  shows "relocs_ok P s symtab (length xs) i"
proof -
  have "relo_ok P s i symtab (target P i) (length xs) k" if k: "k \<in> set (entries P i)" for k
  proof -
    from k assms(1) have e: "entry_ok P symtab xs i k" by (simp add: relo_section_ok_def)
    then obtain rel y x where v: "gelf_getrel (elf P) (elf_contents (elf P) i) k = Some rel"
        "gelf_getsym (elf P) (elf_contents (elf P) symtab) (GELF_R_SYM (elf P) (r_info rel)) = Some y"
        "st_value y \<in> st_value ` set xs"
        "load_insn (hdrs P) (elf_contents (elf P) (target P i)) (r_offset rel div sizeof_insn mod 2 ^ 32) = Inr x"
        "i_code x = ld_imm64_code P"
      by (auto simp: entry_ok_def split: option.splits sum.splits)
    then have "st_value y \<in> st_value ` set (qsort cmp_symbols xs)" by simp
    then obtain n where "n < length xs" "st_value (qsort cmp_symbols xs ! n) = st_value y"
      by (metis imageE in_set_conv_nth length_qsort)
    then have "\<exists>n\<in>set [0..<length xs]. elf_offset (map_data s ! n) = st_value y"
      using maps_ready_offset [OF assms(4,3)] by auto
    then have "List.find (\<lambda>n. elf_offset (map_data s ! n) = st_value y) [0..<length xs] \<noteq> None"
      by (auto simp: find_None_iff)
    then show ?thesis
      using v assms(2) by (auto simp: relo_ok_def relo_insn_def relo_fd_def)
  qed
  with assms(1) show ?thesis by (simp add: relocs_ok_def relo_section_ok_def)
qed

lemma load_file_maps_ok:
  assumes "file_ok P symtab xs" "accepting P" "sections s = elf_contents (elf P)" "loader_ok s"
    "length (processed_sec s) = 128"
  shows "\<exists>fds arr M cs n pr. load_file_maps P None (found P) symtab s =
      Inr (Some (length xs), s\<lparr>map_fd := fds, prog_array_fd := arr, map_data := M, calls := calls s @ cs,
        map_data_count := n, processed_sec := pr\<rparr>) \<and>
    length fds = MAX_MAPS \<and> length M = MAX_MAPS \<and> transcript P (calls s) cs = map_calls P xs (map_fd s) fds \<and> length pr = 128 \<and>
    maps_ready P xs (s\<lparr>map_fd := fds, map_data := M\<rparr>) \<and>
    (\<forall>i<128. pr ! i \<longleftrightarrow> processed_sec s ! i \<or> maps_shndx (found P) = Some i)"
proof (cases "maps_shndx (found P)")
  case None
  with assms show ?thesis
    by (intro exI [of _ "map_fd s"] exI [of _ "prog_array_fd s"] exI [of _ "map_data s"] exI [of _ "[]"]
        exI [of _ "map_data_count s"] exI [of _ "processed_sec s"])
      (simp add: load_file_maps_def ret_def file_ok_def file_maps_ok_def maps_ready_def loader_ok_def map_calls_def)
next
  case (Some m)
  let ?strtab = "strtabidx (found P)" and ?ys = "qsort cmp_symbols xs"
  let ?sz = "length (sections s m) div length xs"
  have m: "maps_ok P (sections s) m symtab ?strtab xs" "m < 128" "\<forall>k<length xs. creatable P MAX_MAPS (file_map P xs k)"
    using assms(1,3) Some found_maps [OF Some] by (auto simp: file_ok_def file_maps_ok_def)
  have n: "length xs \<le> MAX_MAPS" using m(1) by (simp add: maps_ok_def)
  obtain M where M: "load_elf_maps_section P m symtab ?strtab s = Inr (int (length xs), s\<lparr>map_data := M\<rparr>)" "length M = MAX_MAPS"
      "\<forall>k<length xs. M ! k = map_entry P (sections s m) ?strtab ?sz (?ys ! k) (map_data s ! k)"
    using load_elf_maps_section_ok [OF m(1)] assms(4) by (auto simp: loader_ok_def)
  let ?s = "s\<lparr>map_data := M\<rparr>"
  have entry: "(M ! k)\<lparr>md_fd := fd\<rparr> = (file_map P xs k)\<lparr>md_fd := fd\<rparr>" if "k < length xs" for k fd
    using M(3) that Some assms(3) by (cases "map_data s ! k") (simp add: file_map_def map_entry_def empty_map_data_def)
  have same: "map_call P (M ! k) = map_call P (file_map P xs k)" "inner_fd old new k (M ! k) = inner_fd old new k (file_map P xs k)"
      "creatable P MAX_MAPS (M ! k)" if "k < length xs" for k old new
  proof -
    have "md_def (M ! k) = md_def (file_map P xs k)" "md_name (M ! k) = md_name (file_map P xs k)"
      using arg_cong [OF entry [OF that, of 0], of md_def] arg_cong [OF entry [OF that, of 0], of md_name] by simp_all
    then show "map_call P (M ! k) = map_call P (file_map P xs k)" "inner_fd old new k (M ! k) = inner_fd old new k (file_map P xs k)"
      "creatable P MAX_MAPS (M ! k)"
      using m(3) that by (simp_all add: fun_eq_iff map_call_def inner_fd_def is_map_of_maps_def creatable_def Let_def)
  qed
  have "\<exists>s'. load_maps_from P None [0..<length xs] ?s = Inr (0, s') \<and> maps_created P 0 (length xs) ?s s'"
    using assms(2,4) n M(2) same(3) by (intro load_maps_ok) (simp_all add: loader_ok_def)
  then obtain s' where s': "load_maps_from P None [0..<length xs] ?s = Inr (0, s')" "maps_created P 0 (length xs) ?s s'" by blast
  then obtain fds arr M' cs where c: "s' = ?s\<lparr>map_fd := fds, prog_array_fd := arr, map_data := M', calls := calls ?s @ cs\<rparr>"
      "length fds = length (map_fd s)" "length M' = length M"
      "\<forall>k<length M'. M' ! k = (if 0 \<le> k \<and> k < length xs then (M ! k)\<lparr>md_fd := fds ! k\<rparr> else M ! k)"
      "\<forall>k. 0 \<le> k \<and> k < length xs \<longrightarrow> 0 \<le> fds ! k"
      "transcript P (calls s) cs = map (\<lambda>k. (map_call P (M ! k) (inner_fd (map_fd s) fds k (M ! k)), fds ! k)) [0..<length xs]"
    unfolding maps_created_def by auto
  let ?pr = "(processed_sec s)[m := True]"
  have "load_file_maps P None (found P) symtab s =
      Inr (Some (length xs), s\<lparr>map_fd := fds, prog_array_fd := arr, map_data := M', calls := calls s @ cs,
        map_data_count := length xs, processed_sec := ?pr\<rparr>)"
    using M(1) s'(1) c(1) Some assms(5) m(2)
    by (cases s) (simp add: load_file_maps_def bnd_def gets_def lift_def load_maps_def set_processed_def wr_def modify_def ret_def)
  moreover have "maps_ready P xs (s\<lparr>map_fd := fds, map_data := M'\<rparr>)"
    using c(3-5) n M(2) entry by (simp add: maps_ready_def)
  moreover have "transcript P (calls s) cs = map_calls P xs (map_fd s) fds"
    unfolding c(6) map_calls_def by (rule map_cong [OF refl]) (simp add: same)
  ultimately show ?thesis
    using c(2,3) M(2) assms(4,5) m(2) Some
    by (intro exI [of _ fds] exI [of _ arr] exI [of _ M'] exI [of _ cs] exI [of _ "length xs"] exI [of _ ?pr])
      (auto simp: loader_ok_def nth_list_update)
qed

section \<open>The whole load\<close>

text \<open>What has become of the instructions of a section: the file's, with the descriptors of the maps.\<close>

definition file_insn :: "platform \<Rightarrow> nat \<Rightarrow> elf_sym list \<Rightarrow> loader \<Rightarrow> nat \<Rightarrow> nat \<Rightarrow> bpf_insn result" where
  "file_insn P symtab xs s = final_insn P (s\<lparr>sections := elf_contents (elf P)\<rparr>) symtab (length xs) (relo_sections P)"

lemma final_insn_cong:
  assumes "sections s = sections s'" "map_data s = map_data s'"
  shows "final_insn P s symtab nr_maps R t j = final_insn P s' symtab nr_maps R t j"
proof -
  have "relo_insn P s = relo_insn P s'" "relo_fd P s = relo_fd P s'"
    using assms by (simp_all add: fun_eq_iff relo_insn_def relo_fd_def)
  then show ?thesis
    using assms(1) by (simp only: final_insn_def relos_of_def Let_def)
qed

lemma program_not_named:
  "section_type P i \<noteq> None \<Longrightarrow> \<not> marked P i \<and> sec_name P i \<noteq> Some ''maps''"
  by (auto simp: section_type_def text_type_def program_kinds_def marked_def sec_name_def split: sum.splits)

lemma loadable_programs:
  assumes "length pr = 128" "e_shnum (elf P) \<le> 128"
    and "\<forall>i<128. pr ! i \<longleftrightarrow> (i < e_shnum (elf P) \<and> 1 \<le> i \<and> marked P i) \<or> maps_shndx (found P) = Some i \<or> i \<in> set (relo_sections P)"
  shows "filter (loadable P pr) [1..<e_shnum (elf P)] = programs P"
  unfolding programs_def
proof (rule filter_cong [OF refl])
  fix i
  assume "i \<in> set [1..<e_shnum (elf P)]"
  with assms have i: "pr ! i \<longleftrightarrow> marked P i \<or> maps_shndx (found P) = Some i \<or> i \<in> set (relo_sections P)" by auto
  show "loadable P pr i \<longleftrightarrow> section_type P i \<noteq> None \<and> i \<notin> set (relo_sections P)"
    using i found_maps [of P i] program_not_named [of P i] by (auto simp: loadable_def)
qed

lemma relocate_file_ok:
  assumes "file_ok P symtab xs" "sections s = elf_contents (elf P)" "maps_ready P xs s" "length (map_data s) = MAX_MAPS"
    "length (processed_sec s) = 128" "length xs \<le> MAX_MAPS"
    "\<forall>i<128. processed_sec s ! i \<longleftrightarrow> i < e_shnum (elf P) \<and> 1 \<le> i \<and> marked P i \<or> maps_shndx (found P) = Some i"
  shows "\<exists>S pr. relocate_sections P symtab (length xs) [1..<e_shnum (elf P)] s = Inr ((), s\<lparr>sections := S, processed_sec := pr\<rparr>) \<and>
    length pr = 128 \<and> filter (loadable P pr) [1..<e_shnum (elf P)] = programs P \<and>
    (\<forall>i\<in>set [1..<e_shnum (elf P)]. \<not> pr ! i \<longrightarrow> program_ok P i) \<and>
    (\<forall>t. length (S t) = length (elf_contents (elf P) t)) \<and>
    (\<forall>t j. load_insn (hdrs P) (S t) j = file_insn P symtab xs s t j)"
proof -
  let ?is = "[1..<e_shnum (elf P)]"
  have n: "e_shnum (elf P) \<le> 128" using assms(1) by (simp add: file_ok_def)
  have R: "filter (\<lambda>i. \<not> processed_sec s ! i \<and> applies P i) ?is = relo_sections P"
    unfolding relo_sections_def using assms(7) n by (intro filter_cong) auto
  have "relocs_ok P s symtab (length xs) i" if "i \<in> set ?is" "\<not> processed_sec s ! i" "applies P i" for i
  proof -
    have "i \<in> set (relo_sections P)" using that unfolding R [symmetric] by simp
    with assms(1) have "relo_section_ok P symtab xs i" "file_maps_ok P symtab xs" by (simp_all add: file_ok_def)
    then show ?thesis using relocs_ok_file [OF _ assms(2,3)] by blast
  qed
  with relocate_sections_ok [of ?is s "length xs" P symtab] n assms(4-6)
  obtain S pr where r: "relocate_sections P symtab (length xs) ?is s = Inr ((), s\<lparr>sections := S, processed_sec := pr\<rparr>)"
      "length pr = length (processed_sec s)" "\<forall>i<length pr. pr ! i \<longleftrightarrow> processed_sec s ! i \<or> i \<in> set ?is \<and> applies P i"
      "\<forall>t. length (S t) = length (sections s t)"
      "\<forall>t j. load_insn (hdrs P) (S t) j = final_insn P s symtab (length xs) (relo_sections P) t j"
    unfolding R by auto
  have "\<forall>i<128. pr ! i \<longleftrightarrow> (i < e_shnum (elf P) \<and> 1 \<le> i \<and> marked P i) \<or> maps_shndx (found P) = Some i \<or> i \<in> set (relo_sections P)"
    using r(2,3) assms(5,7) unfolding R [symmetric] by auto
  then have "filter (loadable P pr) ?is = programs P"
    using r(2) assms(5) n by (intro loadable_programs) auto
  moreover have "\<forall>i\<in>set ?is. \<not> pr ! i \<longrightarrow> program_ok P i"
    using assms(1) \<open>\<forall>i<128. pr ! i \<longleftrightarrow> _ i\<close> n by (auto simp: file_ok_def)
  moreover have "file_insn P symtab xs s t j = final_insn P s symtab (length xs) (relo_sections P) t j" for t j
    unfolding file_insn_def using assms(2) by (intro final_insn_cong) simp_all
  ultimately show ?thesis
    using r assms(2,5) by (intro exI [of _ S] exI [of _ pr]) simp
qed

lemma load_file_ok:
  assumes "file_ok P symtab xs" "accepting P" "loader_ok s" "prog_cnt s + length (programs P) \<le> MAX_PROGS"
  shows "\<exists>s' cs. load_bpf_file P path s = Inr (0, s') \<and> prog_cnt s' = prog_cnt s + length (programs P) \<and>
    take (prog_cnt s) (prog_fd s') = take (prog_cnt s) (prog_fd s) \<and> calls s' = calls s @ cs \<and>
    filter (is_request \<circ> fst) (transcript P (calls s) cs) =
      map_calls P xs (map_fd s) (map_fd s') @
      zip (map (program_call P s') (programs P)) (take (length (programs P)) (drop (prog_cnt s) (prog_fd s'))) \<and>
    maps_ready P xs s' \<and>
    license s' = fold (note_license P) [1..<e_shnum (elf P)] (replicate 128 0) \<and>
    kern_version s' = fold (note_version P) [1..<e_shnum (elf P)] 0 \<and>
    (\<forall>t. length (sections s' t) = length (elf_contents (elf P) t)) \<and>
    (\<forall>t j. load_insn (hdrs P) (sections s' t) j = file_insn P symtab xs s' t j) \<and>
    ((\<forall>i\<in>set (programs P). xdp_section P i) \<longrightarrow> filter is_effect cs = []) \<and> loader_ok s'"
proof -
  let ?is = "[1..<e_shnum (elf P)]"
  have ok: "0 \<le> answer P cs c" for cs c using assms(2) by (simp add: accepting_def)
  have flags: "elf_version_known (elf P)" "elf_begin_ok (elf P)" "gelf_getehdr_ok (elf P)" "e_shnum (elf P) \<le> 128"
      "symbols (found P) = Some symtab"
    using assms(1) by (simp_all add: file_ok_def)
  define cs0 where "cs0 = [Sys_open path, Sys_system ''echo \"\" > /sys/kernel/debug/tracing/kprobe_events'']"
  define s0 where "s0 = s\<lparr>kern_version := 0, license := replicate 128 0, processed_sec := replicate 128 False,
    calls := calls s @ cs0, sections := elf_contents (elf P)\<rparr>"
  have "\<forall>i\<in>set ?is. header_ok P i \<and> i < length (processed_sec s0)" "length (license s0) = 128" "sections s0 = elf_contents (elf P)"
    using assms(1) by (auto simp: file_ok_def s0_def)
  from scan_sections_ok [OF this] obtain s1 where s1: "scan_sections P ?is \<lparr>maps_shndx = None, symbols = None, strtabidx = 0\<rparr> s0 =
        Inr (Some (found P), s1)" "scanned P ?is s0 s1"
    unfolding found_def by blast
  obtain pr M where c1: "s1 = s0\<lparr>license := fold (note_license P) ?is (replicate 128 0), kern_version := fold (note_version P) ?is 0,
        processed_sec := pr, map_data := M\<rparr>"
      "length pr = 128" "length M = MAX_MAPS" "\<forall>i<128. pr ! i \<longleftrightarrow> i \<in> set ?is \<and> marked P i"
    using s1(2) assms(3) by (auto simp: scanned_def s0_def loader_ok_def)
  have "sections s1 = elf_contents (elf P)" "loader_ok s1" "length (processed_sec s1) = 128"
    using c1 assms(3) by (simp_all add: s0_def loader_ok_def)
  from load_file_maps_ok [OF assms(1,2) this] obtain fds arr M' cs n pr' where
      s2: "load_file_maps P None (found P) symtab s1 = Inr (Some (length xs), s1\<lparr>map_fd := fds, prog_array_fd := arr,
        map_data := M', calls := calls s1 @ cs, map_data_count := n, processed_sec := pr'\<rparr>)"
      "length fds = MAX_MAPS" "length M' = MAX_MAPS" "transcript P (calls s1) cs = map_calls P xs (map_fd s1) fds" "length pr' = 128"
      "maps_ready P xs (s1\<lparr>map_fd := fds, map_data := M'\<rparr>)"
      "\<forall>i<128. pr' ! i \<longleftrightarrow> processed_sec s1 ! i \<or> maps_shndx (found P) = Some i"
    by blast
  define s2 where "s2 = s1\<lparr>map_fd := fds, prog_array_fd := arr, map_data := M', calls := calls s1 @ cs,
    map_data_count := n, processed_sec := pr'\<rparr>"
  have xs: "length xs \<le> MAX_MAPS"
    using assms(1) by (auto simp: file_ok_def file_maps_ok_def maps_ok_def MAX_MAPS_def split: option.splits)
  have r2: "sections s2 = elf_contents (elf P)" "maps_ready P xs s2" "length (map_data s2) = MAX_MAPS" "length (processed_sec s2) = 128"
      "\<forall>i<128. processed_sec s2 ! i \<longleftrightarrow> i < e_shnum (elf P) \<and> 1 \<le> i \<and> marked P i \<or> maps_shndx (found P) = Some i"
    using s2 c1 by (auto simp: s2_def s0_def maps_ready_def)
  from relocate_file_ok [OF assms(1) r2(1-4) xs r2(5)] obtain S pr3 where
      s3: "relocate_sections P symtab (length xs) ?is s2 = Inr ((), s2\<lparr>sections := S, processed_sec := pr3\<rparr>)"
      "length pr3 = 128" "filter (loadable P pr3) ?is = programs P" "\<forall>i\<in>set ?is. \<not> pr3 ! i \<longrightarrow> program_ok P i"
      "\<forall>t. length (S t) = length (elf_contents (elf P) t)" "\<forall>t j. load_insn (hdrs P) (S t) j = file_insn P symtab xs s2 t j"
    by blast
  define s3 where "s3 = s2\<lparr>sections := S, processed_sec := pr3\<rparr>"
  have old: "prog_fd s3 = prog_fd s" "prog_cnt s3 = prog_cnt s" "event_fd s3 = event_fd s" "calls s3 = calls s @ cs0 @ cs"
      "map_fd s1 = map_fd s" "calls s1 = calls s @ cs0"
    using c1(1) by (simp_all add: s3_def s2_def s0_def)
  have "\<forall>i\<in>set ?is. i < length (processed_sec s3) \<and> (\<not> processed_sec s3 ! i \<longrightarrow> program_ok P i)"
      "prog_cnt s3 + length (filter (loadable P (processed_sec s3)) ?is) \<le> length (prog_fd s3)" "length (event_fd s3) = length (prog_fd s3)"
    using flags(4) assms(3,4) s3(2-4) old by (auto simp: s3_def loader_ok_def)
  from load_sections_ok [OF assms(2) this] obtain s4 where s4: "load_sections P ?is s3 = Inr (0, s4)" "loads P (programs P) s3 s4"
    using s3(3) by (auto simp: s3_def)
  obtain fd4 E cs4 where c4: "length fd4 = length (programs P)" "length E = length (event_fd s3)"
      "filter (is_request \<circ> fst) (transcript P (calls s3) cs4) = zip (map (program_call P s3) (programs P)) fd4"
      "(\<forall>i\<in>set (programs P). xdp_section P i) \<longrightarrow> filter is_effect cs4 = []"
      "s4 = s3\<lparr>prog_fd := take (prog_cnt s3) (prog_fd s3) @ fd4 @ drop (prog_cnt s3 + length (programs P)) (prog_fd s3),
         prog_cnt := prog_cnt s3 + length (programs P), event_fd := E, calls := calls s3 @ cs4\<rparr>"
    using s4(2) unfolding loads_def by blast
  define c5 where "c5 = Sys_close (answer P (calls s) (Sys_open path))"
  let ?s = "s4\<lparr>calls := calls s4 @ [c5]\<rparr>" and ?cs = "cs0 @ cs @ cs4 @ [c5]"
  have "load_maps_and_programs P None (found P) s1 = Inr (0, s4)"
    using s2(1) s3(1) s4(1) flags(5) by (simp add: load_maps_and_programs_def bnd_def s2_def s3_def)
  then have run: "load_bpf_file P path s = Inr (0, ?s)"
    using s1(1) flags ok
    by (simp add: load_bpf_file_def do_load_bpf_file_def bnd_def modify_def kernel_call_def ret_def not_less s0_def cs0_def c5_def)
  have same: "program_call P ?s = program_call P s3" "sections ?s = S" "map_data ?s = map_data s2" "map_fd ?s = fds"
      "license ?s = fold (note_license P) ?is (replicate 128 0)" "kern_version ?s = fold (note_version P) ?is 0"
    using c1(1) c4(5) by (simp_all add: program_call_same s3_def s2_def)
  have fin: "file_insn P symtab xs ?s t j = file_insn P symtab xs s2 t j" for t j
    unfolding file_insn_def using same(3) by (intro final_insn_cong) simp_all
  have n: "prog_cnt s + length (programs P) \<le> length (prog_fd s)" using assms(3,4) by (simp add: loader_ok_def)
  have "\<not> is_request c \<and> \<not> is_effect c" if "c \<in> set (cs0 @ [c5])" for c
    using that by (auto simp: cs0_def c5_def is_request_def)
  then have none: "list_all quiet cs0" "list_all quiet [c5]" "filter is_effect cs0 = []" "filter is_effect [c5] = []"
    by (auto simp: list_all_iff quiet_def filter_empty_conv)
  have maps: "transcript P (calls s @ cs0) cs = map_calls P xs (map_fd s) fds" using s2(4) old by simp
  then have "cs = map fst (map_calls P xs (map_fd s) fds)" by (metis map_fst_transcript)
  then have eff: "filter is_effect cs = []" using map_calls_requests(3) by metis
  show ?thesis
  proof (intro exI [of _ ?s] exI [of _ ?cs] conjI run same impI)
    show "maps_ready P xs ?s" using r2(2) same(3,4) unfolding maps_ready_def by (simp add: s2_def)
    show "filter (is_request \<circ> fst) (transcript P (calls s) ?cs) = map_calls P xs (map_fd s) (map_fd ?s) @
      zip (map (program_call P ?s) (programs P)) (take (length (programs P)) (drop (prog_cnt s) (prog_fd ?s)))"
      unfolding same(1,4) using c4(1,3,5) old n quiet_transcript [OF none(1)] quiet_transcript [OF none(2)] maps map_calls_requests(1)
      by simp
    show "take (prog_cnt s) (prog_fd ?s) = take (prog_cnt s) (prog_fd s)"
      using c4(5) old n by simp
    show "\<forall>t j. load_insn (hdrs P) (sections ?s t) j = file_insn P symtab xs ?s t j"
      unfolding fin same(2) by (rule s3(6))
    show "\<forall>t. length (sections ?s t) = length (elf_contents (elf P) t)"
      unfolding same(2) by (rule s3(5))
    show "filter is_effect ?cs = []" if "\<forall>i\<in>set (programs P). xdp_section P i"
      using c4(4) that none(3,4) eff by simp
    show "loader_ok ?s"
      using assms(3,4) s2(2,3) c4(1,2,5) old(1-3) by (simp add: loader_ok_def s3_def s2_def)
  qed (use c4(5) old in simp_all)
qed

text \<open>C9: whenever the kernel accepts the calls, every well-formed object file is loaded: \<open>load_bpf_file\<close> ends
  with 0. Well formed (\<open>file_ok\<close>) means that the license and the version have their sizes, that a maps section
  is covered by the definitions its symbols stand for, that relocations of programs name loads of constants and symbols of
  maps, that every section left for the third pass has 11 bytes behind the beginning of its name in the string table, as
  the tests with \<open>memcmp\<close> read, and that the name of a program, of whichever of the ten kinds, is one that can be
  attached (\<open>attachable\<close>). The kernel is then asked to create the maps of the file in the order of their symbols' values
  and to load the sections of programs in the order of the file, each once, with the type of its kind and under the
  license and version of the file, and nothing else of this kind. The answers to the first are the
  descriptors of the maps and the answers to the second stand in \<open>prog_fd\<close> behind the programs of earlier files. In what is loaded,
  every instruction that a relocation names has the descriptor of the map that its symbol stands for, and all
  others are the file's. What else attaching asks the kernel for is not part of the claim.\<close>

theorem load_bpf_file_loads_programs:
  assumes "file_ok P symtab xs" "accepting P" "loader_ok s" "prog_cnt s + length (programs P) \<le> MAX_PROGS"
  shows "\<exists>s' cs. load_bpf_file P path s = Inr (0, s') \<and> prog_cnt s' = prog_cnt s + length (programs P) \<and>
    take (prog_cnt s) (prog_fd s') = take (prog_cnt s) (prog_fd s) \<and> calls s' = calls s @ cs \<and>
    filter (is_request \<circ> fst) (transcript P (calls s) cs) =
      map_calls P xs (map_fd s) (map_fd s') @
      zip (map (program_call P s') (programs P)) (take (length (programs P)) (drop (prog_cnt s) (prog_fd s'))) \<and>
    maps_ready P xs s' \<and>
    license s' = fold (note_license P) [1..<e_shnum (elf P)] (replicate 128 0) \<and>
    kern_version s' = fold (note_version P) [1..<e_shnum (elf P)] 0 \<and>
    (\<forall>t. length (sections s' t) = length (elf_contents (elf P) t)) \<and>
    (\<forall>t j. load_insn (hdrs P) (sections s' t) j = file_insn P symtab xs s' t j) \<and> loader_ok s'"
proof -
  from load_file_ok [OF assms, of path] show ?thesis by blast
qed

end
