(* ===== verification/BpfExample.thy ===== *)
theory BpfExample
  imports BpfProps
begin

text \<open>
  An object file with two programs, a map and a relocation, for which the loader's theorems are
  applied.
\<close>

unbundle bit_operations_syntax

section \<open>An object file\<close>

text \<open>
  An XDP program of three instructions that loads one map and another of one instruction, as clang lays
  them out: the first program, its relocation, the definition of the map, the license, the symbol table
  with the symbol of the map, and the second program.
\<close>

definition le_nat :: "u8 list \<Rightarrow> nat" where
  "le_nat b = foldr (\<lambda>x n. unat x + 256 * n) b 0"

definition relocation_at :: "u8 list \<Rightarrow> nat \<Rightarrow> elf_rel option" where
  "relocation_at b i = (if 16 * i + 16 \<le> length b
     then Some \<lparr>r_offset = le_nat (take 8 (drop (16 * i) b)), r_info = le_nat (take 8 (drop (16 * i + 8) b))\<rparr> else None)"

definition symbol_at :: "u8 list \<Rightarrow> nat \<Rightarrow> elf_sym option" where
  "symbol_at b i = (if 24 * i + 24 \<le> length b
     then Some \<lparr>st_name = le_nat (take 4 (drop (24 * i) b)), st_value = le_nat (take 8 (drop (24 * i + 8) b)),
       st_shndx = le_nat (take 2 (drop (24 * i + 6) b))\<rparr> else None)"

definition example_contents :: "nat \<Rightarrow> u8 list" where
  "example_contents i =
     (if i = 1 then [0x18, 1, 0, 0, 0, 0, 0, 0,  0, 0, 0, 0, 0, 0, 0, 0,  0x95, 0, 0, 0, 0, 0, 0, 0]
      else if i = 2 then [0, 0, 0, 0, 0, 0, 0, 0,  1, 0, 0, 0, 0, 0, 0, 0]
      else if i = 3 then [2, 0, 0, 0,  4, 0, 0, 0,  8, 0, 0, 0,  1, 0, 0, 0,  0, 0, 0, 0,  0, 0, 0, 0,  0, 0, 0, 0]
      else if i = 4 then [71, 80, 76, 0]
      else if i = 5 then [1, 0, 0, 0,  0, 0,  3, 0,  0, 0, 0, 0, 0, 0, 0, 0,  0, 0, 0, 0, 0, 0, 0, 0]
      else if i = 6 then [0x95, 0, 0, 0, 0, 0, 0, 0]
      else [])"

definition example_header :: "nat \<Rightarrow> elf_shdr option" where
  "example_header i =
     (let h = (\<lambda>nm ty fl link info entsize. Some \<lparr>sh_name = nm, sh_type = ty, sh_flags = fl,
          sh_size = length (example_contents i), sh_link = link, sh_info = info, sh_entsize = entsize\<rparr>)
      in if i = 1 then h 0 1 6 0 0 0 else if i = 2 then h 1 9 0 5 1 16 else if i = 3 then h 2 1 3 0 0 0
         else if i = 4 then h 3 1 3 0 0 0 else if i = 5 then h 4 2 0 7 1 24 else if i = 6 then h 5 1 6 0 0 0 else None)"

definition example_names :: "nat \<Rightarrow> nat \<Rightarrow> string option" where
  "example_names tab i =
     (if tab = 7 then Some (''rxcnt'' @ [NUL])
      else Some ((if i = 0 then ''xdp'' else if i = 1 then ''.relxdp'' else if i = 2 then ''maps''
                  else if i = 3 then ''license'' else if i = 4 then ''.symtab'' else ''xdp_pass'') @ [NUL] @ ''............''))"

definition example_elf :: libelf where
  "example_elf = \<lparr>elf_version_known = True, elf_begin_ok = True, gelf_getehdr_ok = True, e_shnum = 7, e_shstrndx = 8,
     elf_getscn = (\<lambda>i. True), gelf_getshdr = example_header, elf_strptr = example_names, elf_getdata = (\<lambda>i. 1),
     elf_contents = example_contents, gelf_getsym = symbol_at, gelf_getrel = relocation_at,
     GELF_R_SYM = (\<lambda>info. info div 2 ^ 32), sizeof_GElf_Sym = 24, SHT_SYMTAB = 2, SHT_REL = 9, SHT_PROGBITS = 1,
     SHF_EXECINSTR = 4\<rparr>"

definition example_opcodes :: bpf_opcodes where
  "example_opcodes = \<lparr>BPF_LD = 0, BPF_LDX = 1, BPF_ST = 2, BPF_STX = 3, BPF_ALU = 4, BPF_JMP = 5, BPF_JMP32 = 6,
     BPF_ALU64 = 7, BPF_K = 0, BPF_X = 8, BPF_W = 0, BPF_B = 0x10, BPF_DW = 0x18, BPF_IMM = 0, BPF_ABS = 0x20,
     BPF_MEM = 0x60, BPF_XADD = 0xc0, BPF_ADD = 0, BPF_MOV = 0xb0, BPF_JEQ = 0x10, BPF_CALL = 0x80, BPF_EXIT = 0x90,
     BPF_OP = (\<lambda>c. c AND 0xf0), BPF_SIZE = (\<lambda>c. c AND 0x18), BPF_FUNC_map_lookup_elem = 1\<rparr>"

definition example_answer :: "syscall list \<Rightarrow> syscall \<Rightarrow> int" where
  "example_answer cs c = (case c of Sys_bpf_map_update_elem fd k v flags \<Rightarrow> 0 | _ \<Rightarrow> 3 + int (length cs))"

definition example_platform :: platform where
  "example_platform = \<lparr>hdrs = little_headers, opcodes = example_opcodes, elf = example_elf,
     answer = example_answer, input = (\<lambda>cs. []), replies = (\<lambda>cs. []), getpid = 1,
     BPF_PROG_TYPE_SOCKET_FILTER = 1, BPF_PROG_TYPE_KPROBE = 2, BPF_PROG_TYPE_TRACEPOINT = 5, BPF_PROG_TYPE_XDP = 6,
     BPF_PROG_TYPE_PERF_EVENT = 7, BPF_PROG_TYPE_CGROUP_SKB = 8, BPF_PROG_TYPE_CGROUP_SOCK = 9,
     BPF_PROG_TYPE_SOCK_OPS = 13, BPF_PROG_TYPE_SK_SKB = 14, BPF_MAP_TYPE_ARRAY_OF_MAPS = 12,
     BPF_MAP_TYPE_HASH_OF_MAPS = 13, BPF_MAP_TYPE_PROG_ARRAY = 3, BPF_F_NUMA_NODE = 4, BPF_ANY = 0, EINVAL = 22, EFBIG = 27\<rparr>"

definition example_symbol :: elf_sym where
  "example_symbol = \<lparr>st_name = 1, st_value = 0, st_shndx = 3\<rparr>"


lemma example_fields [simp]:
  "elf example_platform = example_elf" "hdrs example_platform = little_headers" "opcodes example_platform = example_opcodes"
  "elf_contents example_elf = example_contents" "e_shnum example_elf = 7" "SHT_REL example_elf = 9" "SHT_SYMTAB example_elf = 2"
  "SHT_PROGBITS example_elf = 1" "SHF_EXECINSTR example_elf = 4" "gelf_getsym example_elf = symbol_at" "gelf_getrel example_elf = relocation_at"
  "elf_strptr example_elf = example_names" "elf_getdata example_elf = (\<lambda>i. 1)" "elf_getscn example_elf = (\<lambda>i. True)"
  "sizeof_GElf_Sym example_elf = 24" "GELF_R_SYM example_elf = (\<lambda>info. info div 2 ^ 32)"
  by (simp_all add: example_platform_def example_elf_def)

lemma example_sections:
  "get_sec example_elf 1 = Inr (''xdp'' @ [NUL] @ ''............'', \<lparr>sh_name = 0, sh_type = 1, sh_flags = 6, sh_size = 24,
     sh_link = 0, sh_info = 0, sh_entsize = 0\<rparr>)"
  "get_sec example_elf 2 = Inr (''.relxdp'' @ [NUL] @ ''............'', \<lparr>sh_name = 1, sh_type = 9, sh_flags = 0, sh_size = 16,
     sh_link = 5, sh_info = 1, sh_entsize = 16\<rparr>)"
  "get_sec example_elf 3 = Inr (''maps'' @ [NUL] @ ''............'', \<lparr>sh_name = 2, sh_type = 1, sh_flags = 3, sh_size = 28,
     sh_link = 0, sh_info = 0, sh_entsize = 0\<rparr>)"
  "get_sec example_elf 4 = Inr (''license'' @ [NUL] @ ''............'', \<lparr>sh_name = 3, sh_type = 1, sh_flags = 3, sh_size = 4,
     sh_link = 0, sh_info = 0, sh_entsize = 0\<rparr>)"
  "get_sec example_elf 5 = Inr (''.symtab'' @ [NUL] @ ''............'', \<lparr>sh_name = 4, sh_type = 2, sh_flags = 0, sh_size = 24,
     sh_link = 7, sh_info = 1, sh_entsize = 24\<rparr>)"
  "get_sec example_elf 6 = Inr (''xdp_pass'' @ [NUL] @ ''............'', \<lparr>sh_name = 5, sh_type = 1, sh_flags = 6, sh_size = 8,
     sh_link = 0, sh_info = 0, sh_entsize = 0\<rparr>)"
  by (simp_all add: get_sec_def example_elf_def example_header_def example_names_def example_contents_def del: One_nat_def)

lemma example_range: "[1..<7] = [1, 2, 3, 4, 5, 6 :: nat]"
  by (simp add: upt_rec)

lemma example_marked: "marked example_platform 1 = False" "marked example_platform 2 = False" "marked example_platform 3 = False"
  "marked example_platform 4 = True" "marked example_platform 5 = False" "marked example_platform 6 = False"
  by (simp_all add: marked_def sec_name_def example_sections name_text_def del: One_nat_def)

lemma example_found: "found example_platform = \<lparr>maps_shndx = Some 3, symbols = Some 5, strtabidx = 7\<rparr>"
  by (simp add: found_def example_range note_section_def example_sections example_marked name_text_def del: One_nat_def)

lemma example_applies: "applies example_platform 1 = False" "applies example_platform 2 = True" "applies example_platform 3 = False"
  "applies example_platform 4 = False" "applies example_platform 5 = False" "applies example_platform 6 = False"
  by (simp_all add: applies_def example_sections del: One_nat_def)

lemma example_relo_sections: "relo_sections example_platform = [2]"
  by (simp add: relo_sections_def example_range example_marked example_found example_applies del: One_nat_def)

lemma example_programs: "programs example_platform = [1, 6]"
  by (simp add: programs_def example_range example_relo_sections section_type_def example_sections text_type_def program_kinds_def
      name_text_def del: One_nat_def)

lemma example_names_ok: "header_ok example_platform i \<and> program_ok example_platform i" if "i \<in> {1, 2, 3, 4, 5, 6}"
  using that by (auto simp: header_ok_def program_ok_def example_sections name_ok_def name_text_def text_type_def unknown_cgroup_def
      attachable_def program_kinds_def example_contents_def simp del: One_nat_def)

lemma example_file_map: "file_map example_platform [example_symbol] 0 =
  \<lparr>md_fd = 0, md_name = ''rxcnt'', elf_offset = 0, md_def = \<lparr>map_type = 2, key_size = 4, value_size = 8, max_entries = 1,
    map_flags = 0, inner_map_idx = 0, numa_node = 0\<rparr>\<rparr>"
  by (simp add: file_map_def example_found map_entry_def map_def_of_def example_symbol_def example_names_def name_text_def
      example_contents_def sizeof_map_def_def word32_def little_headers_def Let_def empty_map_data_def)

lemma example_symbols: "symbol_at (example_contents 5) 0 = Some example_symbol"
  by (simp add: symbol_at_def le_nat_def example_contents_def example_symbol_def)

lemma example_entry: "relocation_at (example_contents 2) 0 = Some \<lparr>r_offset = 0, r_info = 1\<rparr>"
  by (simp add: relocation_at_def le_nat_def example_contents_def)

lemma example_insn: "load_insn little_headers (example_contents 1) 0 = Inr (insn 0x18 1 0 0 0)"
  by (simp add: load_insn_def decode_insn_def example_contents_def sizeof_insn_def Let_def word16_def word32_def insn_def little_headers_def)

lemma example_target: "target example_platform 2 = 1" "entries example_platform 2 = [0]"
  by (simp_all add: target_def entries_def example_sections)

lemma example_lengths: "length (example_contents 3) = 28" "length (example_contents 5) = 24"
  by (simp_all add: example_contents_def)

lemma example_file_ok: "file_ok example_platform 5 [example_symbol]"
proof -
  have "map_symbol_ok example_platform (example_contents 3) 7 28 example_symbol"
    by (simp add: map_symbol_ok_def example_symbol_def example_names_def sizeof_map_def_def example_contents_def)
  moreover have "collect_symbols example_elf (example_contents 5) 3 [0..<length (example_contents 5) div 24] [] = Inr [example_symbol]"
    using example_symbols by (simp add: example_lengths MAX_MAPS_def) (simp add: example_symbol_def)
  ultimately have maps: "maps_ok example_platform example_contents 3 5 7 [example_symbol]"
    by (simp add: maps_ok_def MAX_MAPS_def example_lengths)
  have creat: "creatable example_platform MAX_MAPS (file_map example_platform [example_symbol] 0)"
    unfolding example_file_map by (simp add: creatable_def is_map_of_maps_def example_platform_def)
  have entry: "entry_ok example_platform 5 [example_symbol] 2 0"
    using example_symbols example_insn
    by (simp add: entry_ok_def example_entry example_target insn_def ld_imm64_code_def example_opcodes_def)
  then have "relo_section_ok example_platform 5 [example_symbol] 2"
    by (simp add: relo_section_ok_def example_target example_applies example_sections del: One_nat_def)
  moreover have "file_maps_ok example_platform 5 [example_symbol]"
    using maps creat by (simp add: file_maps_ok_def example_found example_lengths)
  ultimately show ?thesis
    using example_names_ok by (simp add: file_ok_def example_found example_relo_sections example_range del: One_nat_def) (simp add: example_elf_def)
qed

lemma example_accepting: "accepting example_platform"
  by (simp add: accepting_def example_platform_def example_answer_def split: syscall.split)

lemma loader_start_ok: "loader_ok loader_start"
  by (simp add: loader_ok_def loader_start_def)

theorem load_bpf_file_loads_programs_witness:
  "\<exists>s' rest. load_bpf_file example_platform ''xdp_kern.o'' loader_start = Inr (0, s') \<and> prog_cnt s' = 2 \<and>
     filter (is_request \<circ> fst) (transcript example_platform [] (calls s')) =
       [(Sys_bpf_create_map_node 2 ''rxcnt'' 4 8 1 0 (- 1), map_fd s' ! 0),
        (load_call example_platform 6 s' (sections s' 1), prog_fd s' ! 0),
        (load_call example_platform 6 s' (sections s' 6), prog_fd s' ! 1)] \<and>
     license s' = 71 # 80 # 76 # 0 # rest"
proof -
  have start: "prog_cnt loader_start = 0" "calls loader_start = []"
    by (simp_all add: loader_start_def)
  then have "prog_cnt loader_start + length (programs example_platform) \<le> MAX_PROGS"
    by (simp add: example_programs MAX_PROGS_def)
  from load_bpf_file_loads_programs [OF example_file_ok example_accepting loader_start_ok this, of "''xdp_kern.o''"]
  obtain s' where s': "load_bpf_file example_platform ''xdp_kern.o'' loader_start = Inr (0, s')" "prog_cnt s' = 2"
      "filter (is_request \<circ> fst) (transcript example_platform [] (calls s')) =
        map_calls example_platform [example_symbol] (map_fd loader_start) (map_fd s') @
        zip [program_call example_platform s' 1, program_call example_platform s' 6] (take 2 (prog_fd s'))"
      "license s' = fold (note_license example_platform) [1, 2, 3, 4, 5, 6] (replicate 128 0)" "loader_ok s'"
    using start by (auto simp: example_programs example_range numeral_2_eq_2 simp del: One_nat_def)
  have "map_call example_platform (file_map example_platform [example_symbol] 0) inner = Sys_bpf_create_map_node 2 ''rxcnt'' 4 8 1 0 (- 1)" for inner
    unfolding example_file_map by (simp add: map_call_def is_map_of_maps_def Let_def example_platform_def)
  then have maps: "map_calls example_platform [example_symbol] (map_fd loader_start) (map_fd s') =
      [(Sys_bpf_create_map_node 2 ''rxcnt'' 4 8 1 0 (- 1), map_fd s' ! 0)]"
    by (simp add: map_calls_def)
  obtain fd fd' r where "prog_fd s' = fd # fd' # r"
    using s'(5) by (cases "prog_fd s'"; cases "tl (prog_fd s')") (auto simp: loader_ok_def MAX_PROGS_def)
  moreover have "program_call example_platform s' i = load_call example_platform 6 s' (sections s' i)" if "i \<in> {1, 6}" for i
    using that by (auto simp: program_call_def section_type_def example_sections text_type_def program_kinds_def name_text_def
        example_platform_def simp del: One_nat_def)
  moreover have "license s' = 71 # 80 # 76 # 0 # drop 4 (replicate 128 0)"
    unfolding s'(4) by (simp add: note_license_def sec_name_def example_sections name_text_def example_contents_def del: One_nat_def)
  ultimately show ?thesis
    using s'(1-3) maps by (intro exI [of _ s'] exI [of _ "drop 4 (replicate 128 0)"]) (simp del: One_nat_def)
qed

text \<open>Names of programs of other kinds.\<close>

lemma example_attachable:
  "list_all (attachable example_platform) [''socket'', ''socket/3'', ''sockops/12'', ''sk_skb1'', ''cgroup/skb'', ''perf_event'', ''kprobe/7'']"
  "\<not> attachable example_platform ''socket/x''" "\<not> attachable example_platform ''kretprobe/''" "\<not> attachable example_platform ''cgroup/dev''"
  by (simp_all add: attachable_def text_type_def program_kinds_def slot_ok_def probe_ok_def isdigit_def Cstr.code_def)

section \<open>Its relocation\<close>

text \<open>The loader with the file's sections and its map, which has the descriptor 7.\<close>

definition example_loader :: loader where
  "example_loader = loader_start\<lparr>sections := example_contents, map_data := [empty_map_data\<lparr>md_fd := 7\<rparr>]\<rparr>"

definition example_relo_header :: elf_shdr where
  "example_relo_header = \<lparr>sh_name = 1, sh_type = 9, sh_flags = 0, sh_size = 16, sh_link = 5, sh_info = 1, sh_entsize = 16\<rparr>"

lemma example_loader_fields [simp]:
  "sections example_loader = example_contents" "map_data example_loader = [empty_map_data\<lparr>md_fd := 7\<rparr>]"
  by (simp_all add: example_loader_def)

lemma example_relo:
  "relo_insn example_platform example_loader 2 0 = Some 0" "relo_fd example_platform example_loader 2 5 1 0 = Some 7"
  by (simp_all add: relo_insn_def relo_fd_def example_entry example_symbols empty_map_data_def example_symbol_def)

lemma example_relo_ok: "relo_ok example_platform example_loader 2 5 1 1 0"
  using example_insn
  by (simp add: relo_ok_def example_relo insn_def ld_imm64_code_def example_opcodes_def del: One_nat_def)

theorem relocations_applied_witness:
  "\<exists>b. parse_relo_and_apply example_platform 2 5 example_relo_header 1 1 example_loader =
      Inr (0, example_loader\<lparr>sections := (sections example_loader)(1 := b)\<rparr>) \<and>
    load_insn little_headers b 0 = Inr (BPF_LD_MAP_FD example_opcodes 1 7 ! 0)"
proof -
  have "with_map_fd 7 (insn 0x18 1 0 0 0) = BPF_LD_MAP_FD example_opcodes 1 7 ! 0"
    by (simp add: with_map_fd_def insn_macros insn_def example_opcodes_def)
  then have "relocated example_platform example_loader 2 5 1 1 [0] 0 = Inr (BPF_LD_MAP_FD example_opcodes 1 7 ! 0)"
    using example_insn by (simp add: relocated_def example_relo Let_def del: One_nat_def)
  moreover have "if \<forall>i\<in>set [0]. relo_ok example_platform example_loader 2 5 1 1 i
    then \<exists>b. parse_relo_and_apply example_platform 2 5 example_relo_header 1 1 example_loader =
        Inr (0, example_loader\<lparr>sections := (sections example_loader)(1 := b)\<rparr>) \<and>
      length b = length (sections example_loader 1) \<and>
      (\<forall>j. load_insn (hdrs example_platform) b j = relocated example_platform example_loader 2 5 1 1 [0] j)
    else \<nexists>s'. parse_relo_and_apply example_platform 2 5 example_relo_header 1 1 example_loader = Inr (0, s')"
    by (rule relocations_applied) (simp_all add: example_relo_header_def)
  ultimately show ?thesis
    using example_relo_ok by (auto simp del: One_nat_def)
qed

end
