(* ===== verification/Netlink.thy ===== *)
theory Netlink
  imports BpfLoad
begin

text \<open>
  bpf\_load.c, \<open>set_link_xdp_fd\<close>: the request that puts a packet program on an interface, as the
  bytes of its nested attributes, and the walk over the replies. The sizes and numbers of the
  kernel's netlink headers are the record \<open>netlink\<close>, a parameter with the documented values
  \<open>netlink_ok\<close>.
\<close>

unbundle bit_operations_syntax

record netlink =
  NLMSG_LENGTH_ifinfomsg :: nat
  NLMSG_ALIGN :: "nat \<Rightarrow> nat"
  NLA_ALIGN :: "nat \<Rightarrow> nat"
  NLA_HDRLEN :: nat
  nla_len_at :: nat
  nla_type_at :: nat
  attrbuf_at :: nat
  NLA_F_NESTED :: u16
  NLM_F_REQUEST :: u16
  NLM_F_ACK :: u16
  RTM_SETLINK :: u16
  AF_UNSPEC :: u8
  NLMSG_ERROR :: u16

definition netlink_ok :: "netlink \<Rightarrow> bool" where
  "netlink_ok N \<longleftrightarrow> NLMSG_LENGTH_ifinfomsg N = 32 \<and> (\<forall>n. NLMSG_ALIGN N n = 4 * ((n + 3) div 4)) \<and>
     (\<forall>n. NLA_ALIGN N n = 4 * ((n + 3) div 4)) \<and> NLA_HDRLEN N = 4 \<and> nla_len_at N = 0 \<and> nla_type_at N = 2 \<and>
     attrbuf_at N = 32 \<and> NLA_F_NESTED N = 0x8000 \<and> NLM_F_REQUEST N = 1 \<and> NLM_F_ACK N = 4 \<and>
     RTM_SETLINK N = 19 \<and> AF_UNSPEC N = 0 \<and> NLMSG_ERROR N = 2"

section \<open>The request\<close>

definition store16 :: "linux_headers \<Rightarrow> u8 list \<Rightarrow> nat \<Rightarrow> u16 \<Rightarrow> u8 list result" where
  "store16 H p i v =
     (if i + 2 \<le> length p then
        (let lo = word_of_int (uint v) :: u8; hi = word_of_int (uint v div 2 ^ 8) :: u8
         in Inr (if little_endian H then p[i := lo, i + 1 := hi] else p[i := hi, i + 1 := lo]))
      else Inl Bad_access)"

text \<open>
  An attribute with a 32-bit value at \<open>at\<close>; the fields of the two structures are written in the
  order of the code, and \<open>nla_len\<close> is counted up in place.
\<close>

definition put_attr :: "netlink \<Rightarrow> linux_headers \<Rightarrow> u8 list \<Rightarrow> nat \<Rightarrow> u16 \<Rightarrow> u32 \<Rightarrow> u8 list result" where
  "put_attr N H b at ty v =
     bnd_r (store16 H b (at + nla_type_at N) ty) (\<lambda>b.
     bnd_r (store16 H b (at + nla_len_at N) (word_of_nat (NLA_HDRLEN N + 4))) (\<lambda>b.
     store32 H b (at + NLA_HDRLEN N) v))"

definition add_attr :: "netlink \<Rightarrow> linux_headers \<Rightarrow> u8 list \<Rightarrow> nat \<Rightarrow> u16 \<Rightarrow> u32 \<Rightarrow> u8 list result" where
  "add_attr N H b nla ty v =
     bnd_r (load16 H b (nla + nla_len_at N)) (\<lambda>l.
     bnd_r (put_attr N H b (nla + unat l) ty v) (\<lambda>b.
     bnd_r (load16 H b (nla + unat l + nla_len_at N)) (\<lambda>l'.
     store16 H b (nla + nla_len_at N) (l + l'))))"

text \<open>The buffer of 64 bytes behind the interface message, and the length of the nested attribute.\<close>

definition xdp_attributes :: "netlink \<Rightarrow> linux_headers \<Rightarrow> int \<Rightarrow> u32 \<Rightarrow> (u8 list \<times> nat) result" where
  "xdp_attributes N H fd flags =
     (let b = replicate 64 0; nla = NLMSG_ALIGN N (NLMSG_LENGTH_ifinfomsg N) - attrbuf_at N
      in bnd_r (store16 H b (nla + nla_type_at N) (NLA_F_NESTED N OR 43)) (\<lambda>b.
         bnd_r (store16 H b (nla + nla_len_at N) (word_of_nat (NLA_HDRLEN N))) (\<lambda>b.
         bnd_r (add_attr N H b nla 1 (word_of_int fd)) (\<lambda>b.
         bnd_r (if flags \<noteq> 0 then add_attr N H b nla 3 flags else Inr b) (\<lambda>b.
         bnd_r (load16 H b (nla + nla_len_at N)) (\<lambda>l. Inr (b, unat l)))))))"

definition link_request :: "netlink \<Rightarrow> linux_headers \<Rightarrow> int \<Rightarrow> int \<Rightarrow> u32 \<Rightarrow> nl_request result" where
  "link_request N H ifindex fd flags =
     bnd_r (xdp_attributes N H fd flags) (\<lambda>(b, nla_len).
     let len = NLMSG_LENGTH_ifinfomsg N + NLA_ALIGN N nla_len
     in Inr \<lparr>nlmsg_len = word_of_nat len, nlmsg_type = RTM_SETLINK N,
          nlmsg_flags = NLM_F_REQUEST N OR NLM_F_ACK N, nlmsg_seq = 1, nlmsg_pid = 0,
          ifi_family = AF_UNSPEC N, ifi_index = ifindex, attrbuf = take (len - attrbuf_at N) b\<rparr>)"

section \<open>The replies\<close>

text \<open>\<open>NLMSG_DONE\<close> leaves only the \<open>switch\<close>, so the walk goes over every message.\<close>

primrec check_replies :: "netlink \<Rightarrow> int \<Rightarrow> u32 \<Rightarrow> nl_reply list \<Rightarrow> int" where
  "check_replies N pid seq [] = 0"
| "check_replies N pid seq (nh # rest) =
     (if reply_pid nh \<noteq> pid then - 1
      else if reply_seq nh \<noteq> seq then - 1
      else if reply_type nh = NLMSG_ERROR N \<and> reply_error nh \<noteq> 0 then - 1
      else check_replies N pid seq rest)"

definition set_link_xdp_fd :: "netlink \<Rightarrow> platform \<Rightarrow> int \<Rightarrow> int \<Rightarrow> u32 \<Rightarrow> int load_cmd" where
  "set_link_xdp_fd N P ifindex fd flags =
     bnd (kernel_call P Sys_socket_netlink) (\<lambda>sock.
     if sock < 0 then ret (- 1)
     else bnd (bnd (kernel_call P (Sys_bind_netlink sock)) (\<lambda>r.
               if r < 0 then ret (- 1)
               else bnd (lift (link_request N (hdrs P) ifindex fd flags)) (\<lambda>req.
                    bnd (kernel_call P (Sys_send sock req)) (\<lambda>r.
                    if r < 0 then ret (- 1)
                    else bnd (kernel_call P (Sys_recv sock 4096)) (\<lambda>len.
                         if len < 0 then ret (- 1)
                         else bnd (gets (\<lambda>s. replies P (calls s))) (\<lambda>rs.
                              ret (check_replies N (getpid P) 1 rs))))))) (\<lambda>result_val.
          bnd (kernel_call P (Sys_close sock)) (\<lambda>_. ret result_val)))"

section \<open>Bytes of a message\<close>

lemma byte_of: "(word_of_int (uint v div 2 ^ n) :: u8) = ucast (drop_bit n v)" for v :: "'a::len word"
proof -
  have "uint (drop_bit n v) = uint v div 2 ^ n"
    by (simp only: unsigned_drop_bit_eq) (simp add: drop_bit_eq_div take_bit_int_eq_self)
  then show ?thesis by (metis word_of_int_uint ucast_eq)
qed

section \<open>The attributes as a reader sees them\<close>

text \<open>
  A sequence of attributes: a length that counts the header of four bytes, a type, the value, and
  padding to a multiple of four. \<open>None\<close> when a length does not fit.
\<close>

function attributes :: "bool \<Rightarrow> u8 list \<Rightarrow> (u16 \<times> u8 list) list option" where
  "attributes le b =
     (if b = [] then Some []
      else if length b < 4 then None
      else let l = unat (word16 le (b ! 0) (b ! 1))
           in if l < 4 \<or> length b < l then None
              else map_option (Cons (word16 le (b ! 2) (b ! 3), take (l - 4) (drop 4 b)))
                     (attributes le (drop (4 * ((l + 3) div 4)) b)))"
  by pat_completeness auto
termination
  by (relation "measure (\<lambda>(le, b). length b)") auto

declare attributes.simps [simp del]

definition value32 :: "bool \<Rightarrow> u8 list \<Rightarrow> u32" where
  "value32 le b = word32 le (b ! 0) (b ! 1) (b ! 2) (b ! 3)"

lemma netlink_okD:
  assumes "netlink_ok N"
  shows "NLMSG_LENGTH_ifinfomsg N = 32" "NLMSG_ALIGN N n = 4 * ((n + 3) div 4)" "NLA_ALIGN N n = 4 * ((n + 3) div 4)"
    "NLA_HDRLEN N = 4" "nla_len_at N = 0" "nla_type_at N = 2" "attrbuf_at N = 32"
  using assms by (simp_all add: netlink_ok_def)

text \<open>The bytes of the two fields of an attribute, and of its value.\<close>

definition bytes16 :: "bool \<Rightarrow> u16 \<Rightarrow> u8 list" where
  "bytes16 le v = (if le then [ucast v, ucast (drop_bit 8 v)] else [ucast (drop_bit 8 v), ucast v])"

definition bytes32 :: "bool \<Rightarrow> u32 \<Rightarrow> u8 list" where
  "bytes32 le v = (let l = [ucast v, ucast (drop_bit 8 v), ucast (drop_bit 16 v), ucast (drop_bit 24 v)] in if le then l else rev l)"

lemma list_put2: "length pre = i \<Longrightarrow> (pre @ a # b # r)[i := x, i + 1 := y] = pre @ x # y # r"
  by (simp add: list_update_append)

lemma store16_append:
  "length pre = i \<Longrightarrow> store16 H (pre @ a # b # r) i v = Inr (pre @ bytes16 (little_endian H) v @ r)"
  using byte_of [of v 0] byte_of [of v 8]
  by (auto simp: store16_def bytes16_def list_update_append)

lemma store32_append:
  "length pre = i \<Longrightarrow> store32 H (pre @ a # b # c # d # r) i v = Inr (pre @ bytes32 (little_endian H) v @ r)"
  using byte_of [of v 0] byte_of [of v 8] byte_of [of v 16] byte_of [of v 24]
  by (auto simp: store32_def bytes32_def list_update_append eval_nat_numeral)

lemma load16_append:
  "length pre = i \<Longrightarrow> load16 H (pre @ bytes16 (little_endian H) v @ r) i = Inr v"
  by (auto simp: load16_def bytes16_def nth_append word16_bytes)


lemma put_attr_append:
  assumes "netlink_ok N" "length pre = at" "length z = 8"
  shows "put_attr N H (pre @ z @ r) at ty v =
    Inr (pre @ bytes16 (little_endian H) 8 @ bytes16 (little_endian H) ty @ bytes32 (little_endian H) v @ r)"
proof -
  obtain a b c d e f g h where z: "z = [a, b, c, d, e, f, g, h]"
    using assms(3) by (auto simp: length_Suc_conv eval_nat_numeral)
  have "store16 H (pre @ z @ r) (at + 2) ty = Inr (pre @ [a, b] @ bytes16 (little_endian H) ty @ [e, f, g, h] @ r)"
    using store16_append [of "pre @ [a, b]" "at + 2" H c d "[e, f, g, h] @ r" ty] assms(2) by (simp add: z)
  moreover have "store16 H (pre @ [a, b] @ bytes16 (little_endian H) ty @ [e, f, g, h] @ r) at 8 =
      Inr (pre @ bytes16 (little_endian H) 8 @ bytes16 (little_endian H) ty @ [e, f, g, h] @ r)"
    using store16_append [OF assms(2), of H a b "bytes16 (little_endian H) ty @ [e, f, g, h] @ r" 8] by simp
  moreover have "store32 H (pre @ bytes16 (little_endian H) 8 @ bytes16 (little_endian H) ty @ [e, f, g, h] @ r) (at + 4) v =
      Inr (pre @ bytes16 (little_endian H) 8 @ bytes16 (little_endian H) ty @ bytes32 (little_endian H) v @ r)"
    using store32_append [of "pre @ bytes16 (little_endian H) 8 @ bytes16 (little_endian H) ty" "at + 4" H e f g h r v] assms(2)
    by (simp add: bytes16_def)
  ultimately show ?thesis
    using netlink_okD [OF assms(1)] by (simp add: put_attr_def)
qed

lemma add_attr_append:
  assumes "netlink_ok N" "length pre + 2 = unat l" "length z = 8"
  shows "add_attr N H (bytes16 (little_endian H) l @ pre @ z @ r) 0 ty v =
    Inr (bytes16 (little_endian H) (l + 8) @ pre @ bytes16 (little_endian H) 8 @ bytes16 (little_endian H) ty @
      bytes32 (little_endian H) v @ r)"
proof -
  have len: "length (bytes16 (little_endian H) l @ pre) = unat l" for l'
    using assms(2) by (simp add: bytes16_def)
  obtain a b where ab: "bytes16 (little_endian H) l = [a, b]" by (cases "little_endian H") (simp_all add: bytes16_def)
  show ?thesis
    using put_attr_append [OF assms(1) len assms(3), of H r ty v]
      load16_append [of "[]" 0 H l "pre @ z @ r"]
      load16_append [OF len, of H 8 "bytes16 (little_endian H) ty @ bytes32 (little_endian H) v @ r"]
      store16_append [of "[]" 0 H a b "pre @ bytes16 (little_endian H) 8 @ bytes16 (little_endian H) ty @ bytes32 (little_endian H) v @ r" "l + 8"]
      netlink_okD [OF assms(1)]
    by (simp add: add_attr_def ab)
qed

text \<open>The bytes of the request, with and without flags.\<close>

definition fd_attr :: "linux_headers \<Rightarrow> int \<Rightarrow> u8 list" where
  "fd_attr H fd = bytes16 (little_endian H) 8 @ bytes16 (little_endian H) 1 @ bytes32 (little_endian H) (word_of_int fd)"

definition flags_attr :: "linux_headers \<Rightarrow> u32 \<Rightarrow> u8 list" where
  "flags_attr H flags =
     (if flags = 0 then [] else bytes16 (little_endian H) 8 @ bytes16 (little_endian H) 3 @ bytes32 (little_endian H) flags)"

definition nested_length :: "u32 \<Rightarrow> u16" where
  "nested_length flags = (if flags = 0 then 12 else 20)"

lemma xdp_attributes_bytes:
  assumes "netlink_ok N"
  shows "xdp_attributes N H fd flags =
    Inr (bytes16 (little_endian H) (nested_length flags) @ bytes16 (little_endian H) (NLA_F_NESTED N OR 43) @
      fd_attr H fd @ flags_attr H flags @ replicate (if flags = 0 then 52 else 44) 0, unat (nested_length flags))"
proof -
  let ?le = "little_endian H" and ?t = "NLA_F_NESTED N OR 43"
  have z: "replicate 64 (0 :: u8) = [0, 0] @ 0 # 0 # replicate 60 0" "replicate 60 (0 :: u8) = replicate 8 0 @ replicate 52 0"
    "replicate 52 (0 :: u8) = replicate 8 0 @ replicate 44 0"
    by (simp_all add: eval_nat_numeral)
  have s1: "store16 H (replicate 64 0) 2 ?t = Inr ([0, 0] @ bytes16 ?le ?t @ replicate 60 0)"
    unfolding z(1) by (rule store16_append) simp
  have s2: "store16 H ([0, 0] @ bytes16 ?le ?t @ replicate 60 0) 0 4 = Inr (bytes16 ?le 4 @ bytes16 ?le ?t @ replicate 60 0)"
    using store16_append [of "[]" 0 H 0 0 "bytes16 ?le ?t @ replicate 60 0" 4] by simp
  have s3: "add_attr N H (bytes16 ?le 4 @ bytes16 ?le ?t @ replicate 60 0) 0 1 (word_of_int fd) =
      Inr (bytes16 ?le 12 @ bytes16 ?le ?t @ fd_attr H fd @ replicate 52 0)"
    unfolding z(2) using add_attr_append [OF assms, of "bytes16 ?le ?t" 4 "replicate 8 0" H "replicate 52 0" 1 "word_of_int fd"]
    by (simp add: fd_attr_def bytes16_def [of _ ?t])
  have s4: "add_attr N H (bytes16 ?le 12 @ bytes16 ?le ?t @ fd_attr H fd @ replicate 52 0) 0 3 flags =
      Inr (bytes16 ?le 20 @ bytes16 ?le ?t @ fd_attr H fd @ flags_attr H flags @ replicate 44 0)" if "flags \<noteq> 0"
    unfolding z(3) using that add_attr_append [OF assms, of "bytes16 ?le ?t @ fd_attr H fd" 12 "replicate 8 0" H "replicate 44 0" 3 flags]
    by (simp add: flags_attr_def fd_attr_def bytes16_def bytes32_def)
  have l: "load16 H (bytes16 ?le v @ r) 0 = Inr v" for v r
    using load16_append [of "[]" 0 H v r] by simp
  show ?thesis
    using s1 s2 s3 s4 l netlink_okD [OF assms]
    by (simp add: xdp_attributes_def Let_def nested_length_def flags_attr_def del: add_2_eq_Suc add_2_eq_Suc')
qed

lemma link_request_total: "netlink_ok N \<Longrightarrow> \<exists>req. link_request N H ifindex fd flags = Inr req"
  by (simp add: link_request_def xdp_attributes_bytes Let_def)

lemma attributes_Nil [simp]: "attributes le [] = Some []"
  by (simp add: attributes.simps)

lemma word16_bytes16 [simp]: "word16 le (bytes16 le v ! 0) (bytes16 le v ! 1) = v"
  by (simp add: bytes16_def word16_bytes)

lemma value32_bytes32 [simp]: "value32 le (bytes32 le v) = v"
  by (simp add: value32_def bytes32_def word32_bytes Let_def)

lemma length_bytes [simp]: "length (bytes16 le v) = 2" "length (bytes32 le w) = 4"
  by (simp_all add: bytes16_def bytes32_def Let_def)

lemma attributes_attr:
  assumes "unat n = 4 + length v" "4 dvd unat n"
  shows "attributes le (bytes16 le n @ bytes16 le t @ v @ r) = map_option (Cons (t, v)) (attributes le r)"
proof -
  let ?b = "bytes16 le n @ bytes16 le t @ v @ r"
  have n: "word16 le (?b ! 0) (?b ! 1) = n" and t: "word16 le (?b ! 2) (?b ! 3) = t"
    by (simp_all add: bytes16_def word16_bytes nth_append)
  have "4 * ((unat n + 3) div 4) = unat n"
    using assms(2) by (auto elim!: dvdE)
  moreover have "drop (unat n) ?b = r" "take (unat n - 4) (drop 4 ?b) = v"
    using assms(1) by (simp_all add: bytes16_def)
  moreover have "?b \<noteq> []" "4 \<le> length ?b" "unat n \<le> length ?b" "4 \<le> unat n"
    using assms(1) by (auto simp: bytes16_def)
  ultimately show ?thesis
    unfolding attributes.simps [of le ?b] by (simp only: n t Let_def if_False linorder_not_less [symmetric] simp_thms)
qed

text \<open>C18: the request that \<open>set_link_xdp_fd\<close> sends is well formed: the lengths add up, nothing is written
  outside the buffer, and who reads it finds one nested attribute that holds the descriptor of the program
  (type 1) and, when they are not zero, the flags (type 3), on either byte order.\<close>

theorem link_request_readable:
  assumes "netlink_ok N"
  shows "\<exists>r p. link_request N H ifindex fd flags = Inr r \<and> ifi_index r = ifindex \<and>
    unat (nlmsg_len r) = 32 + length (attrbuf r) \<and>
    attributes (little_endian H) (attrbuf r) = Some [(0x8000 OR 43, p)] \<and>
    map_option (map (\<lambda>(t, v). (t, length v, value32 (little_endian H) v))) (attributes (little_endian H) p) =
      Some ((1, 4, word_of_int fd) # (if flags = 0 then [] else [(3, 4, flags)]))"
proof -
  let ?le = "little_endian H" and ?p = "fd_attr H fd @ flags_attr H flags"
  let ?n = "nested_length flags"
  let ?a = "bytes16 ?le ?n @ bytes16 ?le (0x8000 OR 43) @ ?p @ []"
  have t: "NLA_F_NESTED N = 0x8000" using assms by (simp add: netlink_ok_def)
  have n: "unat ?n = 4 + length ?p" "4 dvd unat ?n"
    by (simp_all add: nested_length_def fd_attr_def flags_attr_def)
  have len: "4 * ((unat ?n + 3) div 4) = length ?a"
    by (simp add: nested_length_def fd_attr_def flags_attr_def)
  have b: "bytes16 ?le ?n @ bytes16 ?le (0x8000 OR 43) @ fd_attr H fd @ flags_attr H flags @ z = ?a @ z" for z
    by simp
  obtain r where r: "link_request N H ifindex fd flags = Inr r" "ifi_index r = ifindex"
      "nlmsg_len r = word_of_nat (32 + length ?a)" "attrbuf r = ?a"
    using netlink_okD [OF assms]
    by (simp only: link_request_def xdp_attributes_bytes [OF assms] Let_def t bnd_r_simps prod.case len b) simp
  have "attributes ?le ?a = Some [((0x8000 OR 43), ?p)]"
    using attributes_attr [OF n, of ?le "0x8000 OR 43" "[]"] by simp
  moreover have "attributes ?le ?p = Some ((1, bytes32 ?le (word_of_int fd)) # (if flags = 0 then [] else [(3, bytes32 ?le flags)]))"
    using attributes_attr [of 8 "bytes32 ?le (word_of_int fd)" ?le 1 "flags_attr H flags"] attributes_attr [of 8 "bytes32 ?le flags" ?le 3 "[]"]
    by (simp add: fd_attr_def flags_attr_def)
  moreover have "unat (nlmsg_len r) = 32 + length (attrbuf r)"
    by (simp add: r(3,4)) (simp add: fd_attr_def flags_attr_def)
  ultimately show ?thesis
    using r by (intro exI [of _ r] exI [of _ ?p]) simp
qed

definition linux_netlink :: netlink where
  "linux_netlink = \<lparr>NLMSG_LENGTH_ifinfomsg = 32, NLMSG_ALIGN = (\<lambda>n. 4 * ((n + 3) div 4)),
     NLA_ALIGN = (\<lambda>n. 4 * ((n + 3) div 4)), NLA_HDRLEN = 4, nla_len_at = 0, nla_type_at = 2, attrbuf_at = 32,
     NLA_F_NESTED = 0x8000, NLM_F_REQUEST = 1, NLM_F_ACK = 4, RTM_SETLINK = 19, AF_UNSPEC = 0, NLMSG_ERROR = 2\<rparr>"

theorem link_request_readable_witness:
  "\<exists>r p. link_request linux_netlink little_headers 3 7 2 = Inr r \<and> unat (nlmsg_len r) = 32 + length (attrbuf r) \<and>
    attributes True (attrbuf r) = Some [(0x8000 OR 43, p)] \<and>
    map_option (map (\<lambda>(t, v). (t, length v, value32 True v))) (attributes True p) = Some [(1, 4, 7), (3, 4, 2)]"
  using link_request_readable [of linux_netlink little_headers 3 7 2]
  by (auto simp: netlink_ok_def linux_netlink_def little_headers_def)

end
