(* ===== verification/BpfUtil.thy ===== *)
theory BpfUtil
  imports CLib PrintAst
begin

text \<open>
  bpf\_util.h: the number of CPUs, from the list of ranges in a file of the kernel. The rows of the
  statistics loops have this length. A decimal numeral in the statements is what \<open>show_nat\<close> prints.
\<close>

text \<open>
  The loop over the characters of \<open>buff\<close>: a separator is overwritten by a NUL and the range that
  begins at \<open>j\<close> is added. \<open>exit(1)\<close> with a message is an \<open>Error_exit\<close>.
\<close>

primrec count_ranges :: "string \<Rightarrow> nat \<Rightarrow> u32 \<Rightarrow> nat list \<Rightarrow> u32 result" where
  "count_ranges buff j possible_cpus [] = Inr possible_cpus"
| "count_ranges buff j possible_cpus (i # is) =
     bnd_r (rd buff i) (\<lambda>c.
     if c = CHR '','' \<or> c = NUL then
       let buff = buff[i := NUL]
       in bnd_r (sscanf_range (drop j buff)) (\<lambda>(n, start, e).
          if n \<le> 0 then Inl (Error_exit 0 ''Failed to retrieve # possible CPUs!'' [])
          else let e = (if n = 1 then start else e)
               in count_ranges buff (i + 1) (possible_cpus + (e - start + 1)) is)
     else count_ranges buff j possible_cpus is)"

definition bpf_num_possible_cpus :: "string option \<Rightarrow> u32 result" where
  "bpf_num_possible_cpus fp =
     (case fp of
        None \<Rightarrow> Inl (Error_exit 0 ''Failed to open'' ''/sys/devices/system/cpu/possible'')
      | Some f \<Rightarrow>
          (case fgets 128 f of
             None \<Rightarrow> Inl (Error_exit 0 ''Failed to read'' ''/sys/devices/system/cpu/possible'')
           | Some (buff, _) \<Rightarrow>
               bnd_r (string_of buff) (\<lambda>s. count_ranges buff 0 0 [0..<length s + 1])))"

section \<open>What is counted\<close>

lemma decimal_char:
  assumes "k < 10"
  shows "isdigit (''0123456789'' ! k)" "Cstr.code (''0123456789'' ! k) - 48 = int k"
proof -
  have "\<forall>k\<in>set [0..<10]. isdigit (''0123456789'' ! k) \<and> Cstr.code (''0123456789'' ! k) - 48 = int k"
    by code_simp
  with assms show "isdigit (''0123456789'' ! k)" "Cstr.code (''0123456789'' ! k) - 48 = int k"
    by simp_all
qed

lemma numeral_step: "show_nat n = (if n < 10 then [] else show_nat (n div 10)) @ [''0123456789'' ! (n mod 10)]"
  by (simp add: show_nat.simps [of n])

lemma numeral_digits: "x \<in> set (show_nat n) \<Longrightarrow> isdigit x"
proof (induction n rule: show_nat.induct)
  case (1 n)
  with decimal_char(1) [of "n mod 10"] show ?case
    by (subst (asm) (2) numeral_step) (auto split: if_splits)
qed

lemma digits_numeral: "digits (show_nat n @ s) m = digits s (m * 10 ^ length (show_nat n) + int n)"
proof (induction n arbitrary: m s rule: show_nat.induct)
  case (1 n)
  note d = decimal_char [of "n mod 10"]
  show ?case
  proof (cases "n < 10")
    case True
    with d show ?thesis by (simp add: numeral_step [of n] algebra_simps)
  next
    case False
    have "int n = 10 * int (n div 10) + int (n mod 10)" by (simp add: zdiv_int zmod_int)
    with 1 [OF False, of "(''0123456789'' ! (n mod 10)) # s" m] d False show ?thesis
      by (simp add: numeral_step [of n] algebra_simps)
  qed
qed

lemma numeral_start: "\<exists>d r. show_nat n = d # r \<and> isdigit d"
proof -
  have "show_nat n \<noteq> []" by (subst numeral_step) simp
  with numeral_digits [of "hd (show_nat n)" n] show ?thesis
    by (metis hd_in_set list.exhaust_sel)
qed

lemma digit_no_space: "isdigit d \<Longrightarrow> \<not> isspace d \<and> d \<noteq> CHR ''-'' \<and> d \<noteq> CHR ''+'' \<and> d \<noteq> NUL \<and> d \<noteq> CHR '',''"
  by (auto simp: isdigit_def isspace_def Cstr.code_def)

lemma scan_numeral:
  assumes "\<not> isdigit c"
  shows "scan_number (show_nat n @ c # s) = Inr (Some (int n, c # s))"
proof -
  obtain d r where d: "show_nat n = d # r" "isdigit d" using numeral_start by blast
  have "digits (show_nat n @ c # s) 0 = (int n, c # s)"
    using assms digits_numeral [of n "c # s" 0] by simp
  with d digit_no_space [OF d(2)] show ?thesis
    by (auto simp: scan_number_def sign_def)
qed

text \<open>A range as the kernel writes it.\<close>

definition range_text :: "nat \<times> nat \<Rightarrow> string" where
  "range_text = (\<lambda>(a, b). if a = b then show_nat a else show_nat a @ ''-'' @ show_nat b)"

lemma sscanf_range_text:
  assumes "c = NUL \<or> c = LF"
  shows "\<exists>e. sscanf_range (range_text (a, b) @ c # s) = Inr (if a = b then 1 else 2, word_of_nat a, e) \<and>
    (a \<noteq> b \<longrightarrow> e = word_of_nat b)"
proof -
  have c: "\<not> isdigit c" "c \<noteq> CHR ''-''"
    using assms by (auto simp: isdigit_def Cstr.code_def)
  moreover have "\<not> isdigit (CHR ''-'')" by (simp add: isdigit_def Cstr.code_def)
  ultimately show ?thesis
    by (auto simp: sscanf_range_def range_text_def scan_numeral)
qed

lemma range_text_chars: "x \<in> set (range_text r) \<Longrightarrow> x \<noteq> NUL \<and> x \<noteq> CHR '','' \<and> x \<noteq> LF"
proof -
  have "x \<in> set (range_text r) \<Longrightarrow> isdigit x \<or> x = CHR ''-''"
    by (cases r) (auto simp: range_text_def dest: numeral_digits split: if_splits)
  then show "x \<in> set (range_text r) \<Longrightarrow> x \<noteq> NUL \<and> x \<noteq> CHR '','' \<and> x \<noteq> LF"
    by (auto simp: isdigit_def Cstr.code_def)
qed

text \<open>The characters of a range are passed.\<close>

lemma count_ranges_pass:
  assumes "\<forall>x\<in>set t. x \<noteq> NUL \<and> x \<noteq> CHR '',''" "length pre = k"
  shows "count_ranges (pre @ t @ s) j n ([k..<k + length t] @ is) = count_ranges (pre @ t @ s) j n is"
  using assms
proof (induction t arbitrary: pre k)
  case (Cons c t)
  from Cons.prems have "count_ranges ((pre @ [c]) @ t @ s) j n ([Suc k..<Suc k + length t] @ is) = count_ranges ((pre @ [c]) @ t @ s) j n is"
    by (intro Cons.IH) auto
  moreover have "[k..<k + length (c # t)] = k # [Suc k..<Suc k + length t]"
    by (simp add: upt_conv_Cons del: upt_Suc)
  ultimately show ?case
    using Cons.prems by (auto simp: nth_append)
qed simp

definition range_size :: "nat \<times> nat \<Rightarrow> nat" where
  "range_size = (\<lambda>(a, b). b - a + 1)"

lemma range_size_word:
  assumes "a \<le> b"
  shows "(if a = b then word_of_nat a else word_of_nat b) - word_of_nat a + 1 = (word_of_nat (range_size (a, b)) :: u32)"
  using assms by (simp add: range_size_def of_nat_diff)

text \<open>One range with what closes it: a comma, or the line end with the NUL.\<close>

lemma count_ranges_one:
  assumes "length pre = k" "c = CHR '','' \<and> l = [] \<or> c = NUL \<and> l = [LF]" "fst r \<le> snd r"
  shows "count_ranges (pre @ range_text r @ l @ c # s) k n ([k..<k + length (range_text r @ l)] @ (k + length (range_text r @ l)) # is) =
    count_ranges ((pre @ range_text r @ l @ [NUL]) @ s) (k + length (range_text r @ l) + 1) (n + word_of_nat (range_size r)) is"
proof -
  let ?t = "range_text r @ l" and ?i = "k + length (range_text r @ l)"
  obtain a b where r: "r = (a, b)" "a \<le> b" using assms(3) by (cases r) auto
  have "\<forall>x\<in>set ?t. x \<noteq> NUL \<and> x \<noteq> CHR '',''"
    using range_text_chars [of _ r] assms(2) by auto
  then have "count_ranges (pre @ ?t @ c # s) k n ([k..<?i] @ ?i # is) = count_ranges (pre @ ?t @ c # s) k n (?i # is)"
    using assms(1) by (intro count_ranges_pass) auto
  moreover have upd: "(pre @ ?t @ c # s)[?i := NUL] = pre @ ?t @ NUL # s" "rd (pre @ ?t @ c # s) ?i = Inr c"
    using assms(1) by (simp_all add: list_update_append rd_def nth_append)
  moreover have "drop k (pre @ ?t @ NUL # s) = ?t @ NUL # s"
    using assms(1) by simp
  moreover obtain e where "sscanf_range (?t @ NUL # s) = Inr (if a = b then 1 else 2, word_of_nat a, e)"
      "a \<noteq> b \<longrightarrow> e = word_of_nat b"
    using sscanf_range_text [of NUL a b s] sscanf_range_text [of LF a b "NUL # s"] assms(2) r(1) by fastforce
  moreover have "c = CHR '','' \<or> c = NUL" using assms(2) by auto
  ultimately show ?thesis
    using range_size_word [OF r(2)] r(1)
    by (cases "a = b") (simp_all only: count_ranges.simps bnd_r_simps Let_def prod.case if_True if_False simp_thms
      add.assoc append_assoc append.simps, simp_all)
qed

fun cpu_list :: "(nat \<times> nat) list \<Rightarrow> string" where
  "cpu_list [] = []"
| "cpu_list [r] = range_text r @ [LF]"
| "cpu_list (r # rs) = range_text r @ '','' @ cpu_list rs"

lemma count_ranges_list:
  assumes "rs \<noteq> []" "\<forall>r\<in>set rs. fst r \<le> snd r" "length pre = k"
  shows "count_ranges (pre @ cpu_list rs @ [NUL]) k n [k..<k + length (cpu_list rs) + 1] =
    Inr (n + word_of_nat (sum_list (map range_size rs)))"
  using assms
proof (induction rs arbitrary: pre k n rule: cpu_list.induct)
  case (2 r)
  have "[k..<k + length (cpu_list [r]) + 1] = [k..<k + length (range_text r @ [LF])] @ [k + length (range_text r @ [LF])]"
    by simp
  with 2 count_ranges_one [of pre k NUL "[LF]" r "[]" n "[]"] show ?case
    by simp
next
  case (3 r r' rs)
  let ?i = "k + length (range_text r)" and ?l = "cpu_list (r' # rs)"
  have "[k..<k + length (cpu_list (r # r' # rs)) + 1] = [k..<?i] @ ?i # [?i + 1..<?i + 1 + length ?l + 1]"
    using upt_add_eq_append [of k ?i "length ?l + 2"] by (simp add: upt_conv_Cons add.assoc del: upt_Suc)
  then have "count_ranges (pre @ cpu_list (r # r' # rs) @ [NUL]) k n [k..<k + length (cpu_list (r # r' # rs)) + 1] =
      count_ranges ((pre @ range_text r @ [NUL]) @ ?l @ [NUL]) (?i + 1) (n + word_of_nat (range_size r))
        [?i + 1..<?i + 1 + length ?l + 1]"
    using count_ranges_one [of pre k "CHR '',''" "[]" r "?l @ [NUL]" n "[?i + 1..<?i + 1 + length ?l + 1]"] 3
    by (simp del: upt_Suc)
  also have "\<dots> = Inr (n + word_of_nat (range_size r) + word_of_nat (sum_list (map range_size (r' # rs))))"
    using "3.prems" by (intro "3.IH") auto
  finally show ?case by (simp add: add.assoc)
qed simp

lemma cpu_list_chars: "x \<in> set (cpu_list rs) \<Longrightarrow> x \<noteq> NUL"
  by (induction rs rule: cpu_list.induct) (auto dest: range_text_chars)

lemma cpu_list_line: "rs \<noteq> [] \<Longrightarrow> \<exists>l. cpu_list rs = l @ [LF] \<and> LF \<notin> set l"
proof (induction rs rule: cpu_list.induct)
  case (2 r)
  then show ?case by (auto dest: range_text_chars)
next
  case (3 r r' rs)
  then obtain l where "cpu_list (r' # rs) = l @ [LF]" "LF \<notin> set l" by auto
  then show ?case
    by (intro exI [of _ "range_text r @ '','' @ l"]) (auto dest: range_text_chars)
qed simp

text \<open>C33: \<open>bpf_num_possible_cpus\<close> counts the CPUs of every list of ranges that fits its buffer of 128
  bytes: the result is the sum of the sizes of the ranges, as an unsigned int.\<close>

theorem possible_cpus_counted:
  assumes "rs \<noteq> []" "\<forall>(a, b)\<in>set rs. a \<le> b" "length (cpu_list rs) < 128"
  shows "bpf_num_possible_cpus (Some (cpu_list rs @ f)) = Inr (word_of_nat (\<Sum>(a, b)\<leftarrow>rs. b - a + 1))"
proof -
  obtain l where l: "cpu_list rs = l @ [LF]" "LF \<notin> set l" using cpu_list_line [OF assms(1)] by blast
  have s: "string_of (cpu_list rs @ [NUL]) = Inr (cpu_list rs)"
    using cpu_list_chars [of _ rs] by (auto simp: string_of_def takeWhile_append)
  have "count_ranges ([] @ cpu_list rs @ [NUL]) 0 0 [0..<0 + length (cpu_list rs) + 1] =
      Inr (0 + word_of_nat (sum_list (map range_size rs)))"
    using assms by (intro count_ranges_list) auto
  then show ?thesis
    using fgets_line [OF l(2), of 128 f] s assms(3) l(1) by (simp add: bpf_num_possible_cpus_def range_size_def)
qed

theorem possible_cpus_counted_witness: "bpf_num_possible_cpus (Some (''0-3,7'' @ [LF])) = Inr 5"
  using possible_cpus_counted [of "[(0, 3), (7, 7)]" "[]"] by (simp add: range_text_def show_nat.simps)

end
