(* ===== verification/Loaders.thy ===== *)
theory Loaders
  imports BpfProps Netlink BpfUtil
begin

text \<open>
  The loaders of the packet programs (xdp\_redirect\_user.c, xdp\_ip\_fixup.c, count\_packets.c): their
  options and operands, the load of the object file, the programs put on interfaces, the ports written
  to the map, up to the loop that goes on until a signal comes. \<open>getopt\<close> is a parameter: the options it
  returns and the operands that are left. \<open>strtoul\<close>, the flags of linux/if\_link.h and the object file are
  parameters as well.
\<close>

unbundle bit_operations_syntax

record loader_args =
  argv0 :: string
  options :: string
  operands :: "string list"

record xdp_flag_values =
  XDP_FLAGS_SKB_MODE :: u32
  XDP_FLAGS_DRV_MODE :: u32

text \<open>How a loader ends: it returns, or it goes on to its endless loop.\<close>

datatype loader_end = Returns int | Waits

text \<open>The flags of the options; \<open>None\<close> is the usage message.\<close>

primrec xdp_options :: "xdp_flag_values \<Rightarrow> string \<Rightarrow> u32 \<Rightarrow> u32 option" where
  "xdp_options X [] flags = Some flags"
| "xdp_options X (opt # opts) flags =
     (if opt = CHR ''S'' then xdp_options X opts (flags OR XDP_FLAGS_SKB_MODE X)
      else if opt = CHR ''N'' then xdp_options X opts (flags OR XDP_FLAGS_DRV_MODE X)
      else None)"

definition kern_file :: "loader_args \<Rightarrow> string" where
  "kern_file A = snprintf 256 (argv0 A @ ''_kern.o'')"

section \<open>xdp\_redirect\_user.c\<close>

text \<open>The two entries of the map of ports; a failed update goes to \<open>out\<close>, which returns 0.\<close>

definition write_ports :: "platform \<Rightarrow> int \<Rightarrow> int \<Rightarrow> loader_end load_cmd" where
  "write_ports P ifindex_in ifindex_out =
     bnd (gets map_fd) (\<lambda>fds. bnd (lift (rd fds 0)) (\<lambda>tx_port.
     bnd (kernel_call P (Sys_bpf_map_update_elem tx_port 0 ifindex_out 0)) (\<lambda>r.
     if r \<noteq> 0 then ret (Returns 0)
     else bnd (kernel_call P (Sys_bpf_map_update_elem tx_port 1 ifindex_in 0)) (\<lambda>r.
          ret (if r \<noteq> 0 then Returns 0 else Waits)))))"

definition redirect_main :: "netlink \<Rightarrow> xdp_flag_values \<Rightarrow> platform \<Rightarrow> (string \<Rightarrow> u64) \<Rightarrow> loader_args \<Rightarrow> loader_end load_cmd" where
  "redirect_main N X P strtoul A =
     (case xdp_options X (options A) 0 of
        None \<Rightarrow> ret (Returns 1)
      | Some xdp_flags \<Rightarrow>
          bnd (lift (interfaces strtoul (operands A))) (\<lambda>r.
          case r of
            None \<Rightarrow> ret (Returns 1)
          | Some (ifindex_in, ifindex_out) \<Rightarrow>
              bnd (load_bpf_file P (kern_file A)) (\<lambda>failed.
              if failed \<noteq> 0 then ret (Returns 1)
              else bnd (gets prog_fd) (\<lambda>progs.
                   bnd (lift (rd progs 0)) (\<lambda>prog0.
                   bnd (lift (rd progs 1)) (\<lambda>prog1.
                   if prog0 = 0 then ret (Returns 1)
                   else bnd (set_link_xdp_fd N P ifindex_in prog0 xdp_flags) (\<lambda>r.
                        if r < 0 then ret (Returns 1)
                        else bnd (set_link_xdp_fd N P ifindex_out prog1 xdp_flags) (\<lambda>r.
                             if r < 0 then ret (Returns 1)
                             else write_ports P ifindex_in ifindex_out))))))))"

text \<open>On a signal both interfaces lose their program.\<close>

definition redirect_interrupt :: "netlink \<Rightarrow> platform \<Rightarrow> int \<Rightarrow> int \<Rightarrow> u32 \<Rightarrow> loader_end load_cmd" where
  "redirect_interrupt N P ifindex_in ifindex_out xdp_flags =
     bnd (set_link_xdp_fd N P ifindex_in (- 1) xdp_flags) (\<lambda>_.
     bnd (set_link_xdp_fd N P ifindex_out (- 1) xdp_flags) (\<lambda>_. ret (Returns 0)))"

section \<open>xdp\_ip\_fixup.c, count\_packets.c\<close>

definition fixup_main :: "netlink \<Rightarrow> xdp_flag_values \<Rightarrow> platform \<Rightarrow> (string \<Rightarrow> u64) \<Rightarrow> loader_args \<Rightarrow> loader_end load_cmd" where
  "fixup_main N X P strtoul A =
     (case xdp_options X (options A) 0 of
        None \<Rightarrow> ret (Returns 1)
      | Some xdp_flags \<Rightarrow>
          (case operands A of
             [] \<Rightarrow> ret (Returns 1)
           | ifindex # _ \<Rightarrow>
               bnd (load_bpf_file P (kern_file A)) (\<lambda>failed.
               if failed \<noteq> 0 then ret (Returns 1)
               else bnd (gets prog_fd) (\<lambda>progs.
                    bnd (lift (rd progs 0)) (\<lambda>prog0.
                    bnd (set_link_xdp_fd N P (ifindex_of strtoul ifindex) prog0 xdp_flags) (\<lambda>r.
                    ret (if r < 0 then Returns 1 else Waits)))))))"

text \<open>One interface whose number is fixed, and no options.\<close>

definition count_main :: "netlink \<Rightarrow> xdp_flag_values \<Rightarrow> platform \<Rightarrow> loader_args \<Rightarrow> loader_end load_cmd" where
  "count_main N X P A =
     bnd (load_bpf_file P (kern_file A)) (\<lambda>failed.
     if failed \<noteq> 0 then ret (Returns 1)
     else bnd (gets prog_fd) (\<lambda>progs.
          bnd (lift (rd progs 0)) (\<lambda>prog0.
          if prog0 = 0 then ret (Returns 1)
          else bnd (set_link_xdp_fd N P 4 prog0 (XDP_FLAGS_SKB_MODE X)) (\<lambda>r.
               ret (if r < 0 then Returns 1 else Waits)))))"

definition interrupt_exit :: "netlink \<Rightarrow> platform \<Rightarrow> int \<Rightarrow> u32 \<Rightarrow> loader_end load_cmd" where
  "interrupt_exit N P ifindex xdp_flags =
     bnd (set_link_xdp_fd N P ifindex (- 1) xdp_flags) (\<lambda>_. ret (Returns 0))"

section \<open>What the loader of the redirect programs has done\<close>

text \<open>The kernel accepts, its replies are acknowledgements, and it takes a map update with 0.\<close>

definition cooperative :: "netlink \<Rightarrow> platform \<Rightarrow> bool" where
  "cooperative N P \<longleftrightarrow> accepting P \<and> netlink_ok N \<and> (\<forall>cs. check_replies N (getpid P) 1 (replies P cs) = 0) \<and>
     (\<forall>cs ty insns n lic version. 0 < answer P cs (Sys_bpf_load_program ty insns n lic version)) \<and>
     (\<forall>cs fd k v flags. answer P cs (Sys_bpf_map_update_elem fd k v flags) = 0)"

text \<open>The message that puts a program on an interface.\<close>

definition sends :: "netlink \<Rightarrow> platform \<Rightarrow> int \<Rightarrow> int \<Rightarrow> u32 \<Rightarrow> syscall \<Rightarrow> bool" where
  "sends N P ifindex fd flags c \<longleftrightarrow> (\<exists>sock req. c = Sys_send sock req \<and> link_request N (hdrs P) ifindex fd flags = Inr req)"

lemma set_link_ok:
  assumes "cooperative N P"
  shows "\<exists>c cs. set_link_xdp_fd N P ifindex fd flags s = Inr (0, s\<lparr>calls := calls s @ cs\<rparr>) \<and>
    filter is_effect cs = [c] \<and> filter is_load cs = [] \<and> sends N P ifindex fd flags c"
proof -
  have ok: "0 \<le> answer P cs c" "check_replies N (getpid P) 1 (replies P cs) = 0" for cs c
    using assms by (simp_all add: cooperative_def accepting_def)
  obtain req where req: "link_request N (hdrs P) ifindex fd flags = Inr req"
    using assms link_request_total [of N "hdrs P" ifindex fd flags] by (auto simp: cooperative_def)
  let ?sock = "answer P (calls s) Sys_socket_netlink"
  let ?cs = "[Sys_socket_netlink, Sys_bind_netlink ?sock, Sys_send ?sock req, Sys_recv ?sock 4096, Sys_close ?sock]"
  have "set_link_xdp_fd N P ifindex fd flags s = Inr (0, s\<lparr>calls := calls s @ ?cs\<rparr>)"
    using ok by (simp add: set_link_xdp_fd_def bnd_def kernel_call_def lift_def gets_def ret_def req not_less)
  moreover have "sends N P ifindex fd flags (Sys_send ?sock req)"
    using req by (auto simp: sends_def)
  ultimately show ?thesis
    by (intro exI [of _ "Sys_send ?sock req"] exI [of _ ?cs]) simp
qed


lemma xdp_program_call:
  assumes "xdp_section P i"
  shows "program_call P s i = load_call P (BPF_PROG_TYPE_XDP P) s (sections s i)"
proof -
  obtain nm shdr where sec: "get_sec (elf P) i = Inr (nm, shdr)" "starts ''xdp'' (name_text nm)"
    using assms by (auto simp: xdp_section_def split: sum.splits)
  then obtain r where "name_text nm = ''xdp'' @ r" using startsD by blast
  with sec(1) show ?thesis by (simp add: program_call_def section_type_def text_type_def program_kinds_def)
qed

text \<open>C15: the loader of the redirect programs, run on a well-formed object file with two XDP programs and a map, by a
  kernel that cooperates, ends in its endless loop. Until then it has sent two messages, which put the first program
  on the incoming interface and the second on the outgoing one with the flags of its options, and it has written
  the outgoing interface under port 0 of the first map and the incoming one under port 1, in this order; nothing
  else was sent or written.\<close>

theorem redirect_main_connects:
  assumes "file_ok P symtab xs" "xs \<noteq> []" "length (programs P) = 2" "\<forall>i\<in>set (programs P). xdp_section P i" "cooperative N P" "loader_ok s" "prog_cnt s = 0"
    and "xdp_options X (options A) 0 = Some flags" "operands A = a # b # rest"
  shows "\<exists>s' to_in to_out. redirect_main N X P strtoul A s = Inr (Waits, s') \<and>
    sends N P (ifindex_of strtoul a) (prog_fd s' ! 0) flags to_in \<and> sends N P (ifindex_of strtoul b) (prog_fd s' ! 1) flags to_out \<and>
    filter is_effect (calls s') = filter is_effect (calls s) @
      [to_in, to_out, Sys_bpf_map_update_elem (map_fd s' ! 0) 0 (ifindex_of strtoul b) 0,
       Sys_bpf_map_update_elem (map_fd s' ! 0) 1 (ifindex_of strtoul a) 0] \<and>
    filter is_load (calls s') = filter is_load (calls s) @ map (\<lambda>i. load_call P (BPF_PROG_TYPE_XDP P) s' (sections s' i)) (programs P)"
proof -
  have acc: "accepting P" using assms(5) by (simp add: cooperative_def)
  have "prog_cnt s + length (programs P) \<le> MAX_PROGS" using assms(3,7) by (simp add: MAX_PROGS_def)
  from load_file_ok [OF assms(1) acc assms(6) this, of "kern_file A"] obtain s1 cs1 where
      s1: "load_bpf_file P (kern_file A) s = Inr (0, s1)" "calls s1 = calls s @ cs1" "loader_ok s1"
        "(\<forall>i\<in>set (programs P). xdp_section P i) \<longrightarrow> filter is_effect cs1 = []"
      and progs: "filter (is_request \<circ> fst) (transcript P (calls s) cs1) = map_calls P xs (map_fd s) (map_fd s1) @
        zip (map (program_call P s1) (programs P)) (take (length (programs P)) (drop (prog_cnt s) (prog_fd s1)))"
    by blast
  have eff: "filter is_effect (calls s1) = filter is_effect (calls s)" using s1(2,4) assms(4) by simp
  have lens: "0 < length (map_fd s1)" "1 < length (prog_fd s1)"
    using s1(3) by (simp_all add: loader_ok_def MAX_MAPS_def MAX_PROGS_def)
  have len2: "length (take (length (programs P)) (drop (prog_cnt s) (prog_fd s1))) = length (programs P)"
    using lens(2) assms(3,7) by simp
  have "filter is_load (program_call P s1 i # cs) = program_call P s1 i # filter is_load cs" for i cs by simp
  then have isl: "filter is_load (map (program_call P s1) ps) = map (program_call P s1) ps" for ps
    by (induction ps) simp_all
  have "filter is_load cs1 = filter is_load (map fst (filter (is_request \<circ> fst) (transcript P (calls s) cs1)))"
    by (rule filter_load_requests)
  also have "\<dots> = map (program_call P s1) (programs P)"
    unfolding progs map_append filter_append map_calls_requests(2) using len2 isl by (simp add: map_fst_zip)
  finally have loaded: "filter is_load (calls s1) = filter is_load (calls s) @ map (program_call P s1) (programs P)"
    using s1(2) by simp
  obtain p q where pq: "programs P = [p, q]" using assms(3) by (auto simp: length_Suc_conv numeral_2_eq_2)
  obtain fd fd' rest' where "prog_fd s1 = fd # fd' # rest'"
    using lens(2) by (cases "prog_fd s1"; cases "tl (prog_fd s1)") auto
  then have "(program_call P s1 p, prog_fd s1 ! 0) \<in> set (transcript P (calls s) cs1)"
    using arg_cong [OF progs, of set] pq assms(7) by auto
  then obtain before where "prog_fd s1 ! 0 = answer P before (program_call P s1 p)"
    using transcript_answer by blast
  moreover have "0 < answer P before (program_call P s1 p)"
    using assms(5) by (simp add: cooperative_def program_call_def load_call_def)
  ultimately have p0: "prog_fd s1 ! 0 \<noteq> 0" by simp
  obtain c2 cs2 where s2: "set_link_xdp_fd N P (ifindex_of strtoul a) (prog_fd s1 ! 0) flags s1 = Inr (0, s1\<lparr>calls := calls s1 @ cs2\<rparr>)"
      "filter is_effect cs2 = [c2]" "filter is_load cs2 = []" "sends N P (ifindex_of strtoul a) (prog_fd s1 ! 0) flags c2"
    using set_link_ok [OF assms(5)] by blast
  let ?s2 = "s1\<lparr>calls := calls s1 @ cs2\<rparr>"
  obtain c3 cs3 where s3: "set_link_xdp_fd N P (ifindex_of strtoul b) (prog_fd s1 ! 1) flags ?s2 = Inr (0, ?s2\<lparr>calls := calls ?s2 @ cs3\<rparr>)"
      "filter is_effect cs3 = [c3]" "filter is_load cs3 = []" "sends N P (ifindex_of strtoul b) (prog_fd s1 ! 1) flags c3"
    using set_link_ok [OF assms(5)] by blast
  let ?s3 = "?s2\<lparr>calls := calls ?s2 @ cs3\<rparr>"
  let ?us = "[Sys_bpf_map_update_elem (map_fd s1 ! 0) 0 (ifindex_of strtoul b) 0, Sys_bpf_map_update_elem (map_fd s1 ! 0) 1 (ifindex_of strtoul a) 0]"
  let ?s4 = "?s3\<lparr>calls := calls ?s3 @ ?us\<rparr>"
  have ports: "write_ports P (ifindex_of strtoul a) (ifindex_of strtoul b) ?s3 = Inr (Waits, ?s4)"
    using assms(5) lens(1) by (simp add: write_ports_def bnd_def gets_def lift_def kernel_call_def ret_def cooperative_def)
  have "rd (prog_fd s1) 0 = Inr (prog_fd s1 ! 0)" "rd (prog_fd s1) 1 = Inr (prog_fd s1 ! 1)"
    using lens(2) by (auto simp: rd_def)
  then have "redirect_main N X P strtoul A s = Inr (Waits, ?s4)"
    using assms(8,9) s1(1) s2(1) s3(1) ports p0
    by (simp add: redirect_main_def interfaces_def bnd_def lift_def gets_def)
  moreover have "map (program_call P s1) (programs P) =
      map (\<lambda>i. load_call P (BPF_PROG_TYPE_XDP P) ?s4 (sections ?s4 i)) (programs P)"
    using assms(4) by (auto simp: xdp_program_call load_call_def)
  ultimately show ?thesis
    using eff loaded s2(2-4) s3(2-4) by (intro exI [of _ ?s4] exI [of _ c2] exI [of _ c3]) simp
qed

end
