(* ===== verification/LoaderExample.thy ===== *)
theory LoaderExample
  imports BpfExample Loaders
begin

text \<open>
  The loader of the redirect programs, run on the example object file: the ports 3 and 5 are connected.
\<close>

definition example_args :: loader_args where
  "example_args = \<lparr>argv0 = ''xdp_redirect'', options = ''S'', operands = [''3'', ''5'']\<rparr>"

definition example_strtoul :: "string \<Rightarrow> u64" where
  "example_strtoul s = (if s = ''3'' then 3 else 5)"

definition example_flags :: xdp_flag_values where
  "example_flags = \<lparr>XDP_FLAGS_SKB_MODE = 2, XDP_FLAGS_DRV_MODE = 4\<rparr>"

lemma example_cooperative: "cooperative linux_netlink example_platform"
proof -
  have "0 < answer example_platform cs (Sys_bpf_load_program ty insns n lic version)"
    "answer example_platform cs (Sys_bpf_map_update_elem fd k v flags) = 0" "replies example_platform cs = []"
    for cs ty insns n lic version fd k v flags
    by (simp_all add: example_platform_def example_answer_def)
  moreover have "netlink_ok linux_netlink"
    by (simp add: netlink_ok_def linux_netlink_def)
  ultimately show ?thesis
    using example_accepting by (simp add: cooperative_def)
qed

lemma example_xdp: "\<forall>i\<in>set (programs example_platform). xdp_section example_platform i"
  by (simp add: example_programs xdp_section_def example_sections name_text_def del: One_nat_def)

theorem redirect_main_connects_witness:
  "\<exists>s' to_in to_out. redirect_main linux_netlink example_flags example_platform example_strtoul example_args loader_start = Inr (Waits, s') \<and>
    sends linux_netlink example_platform 3 (prog_fd s' ! 0) 2 to_in \<and> sends linux_netlink example_platform 5 (prog_fd s' ! 1) 2 to_out \<and>
    filter is_effect (calls s') =
      [to_in, to_out, Sys_bpf_map_update_elem (map_fd s' ! 0) 0 5 0, Sys_bpf_map_update_elem (map_fd s' ! 0) 1 3 0]"
proof -
  have start: "prog_cnt loader_start = 0" "calls loader_start = []"
    by (simp_all add: loader_start_def)
  have "length (programs example_platform) = 2" "xdp_options example_flags (options example_args) 0 = Some 2"
    "operands example_args = ''3'' # ''5'' # []" "ifindex_of example_strtoul ''3'' = 3" "ifindex_of example_strtoul ''5'' = 5"
    by (simp_all add: example_programs example_args_def example_flags_def ifindex_of_def example_strtoul_def)
  with redirect_main_connects [OF example_file_ok _ _ example_xdp example_cooperative loader_start_ok start(1), of example_flags example_args 2 "''3''" "''5''" "[]" example_strtoul]
  show ?thesis using start(2) by fastforce
qed

end
