(* ===== verification/Ksyms.thy ===== *)
theory Ksyms
  imports CLib "HOL-Library.Multiset"
begin

text \<open>
  bpf\_load.c, the kernel's symbols: \<open>load_kallsyms\<close> reads and sorts them, \<open>ksym_search\<close> finds the
  symbol an address belongs to by bisection. An address is a \<open>long\<close>; the comparisons reduce the
  difference of two addresses to \<open>int\<close>, which is right only when they are less than 2^31 apart.

  The array \<open>syms\<close> is the list of its elements that were ever written; the others are zero.
\<close>

definition MAX_SYMS :: nat where "MAX_SYMS = 300000"

record ksym =
  addr :: int
  ksym_name :: string

type_synonym ksyms = "ksym list"

definition read_sym :: "ksyms \<Rightarrow> nat \<Rightarrow> ksym result" where
  "read_sym a i =
     (if i < length a then Inr (a ! i)
      else if i < MAX_SYMS then Inr \<lparr>addr = 0, ksym_name = []\<rparr> else Inl Bad_access)"

definition write_sym :: "ksyms \<Rightarrow> nat \<Rightarrow> ksym \<Rightarrow> ksyms result" where
  "write_sym a i x =
     (if i \<ge> MAX_SYMS then Inl Bad_access else Inr (if i < length a then a[i := x] else a @ [x]))"

section \<open>Reading\<close>

text \<open>\<open>sscanf(buf, "%p %c %s", \<dots>)\<close> on a line that begins with hexadecimal digits; \<open>None\<close> is a result below 3.\<close>

definition hex_digit :: "char \<Rightarrow> int option" where
  "hex_digit c =
     (if isdigit c then Some (Cstr.code c - 48)
      else if 97 \<le> Cstr.code c \<and> Cstr.code c \<le> 102 then Some (Cstr.code c - 87)
      else if 65 \<le> Cstr.code c \<and> Cstr.code c \<le> 70 then Some (Cstr.code c - 55) else None)"

fun hex_digits :: "string \<Rightarrow> int \<Rightarrow> int \<times> string" where
  "hex_digits [] n = (n, [])"
| "hex_digits (c # s) n =
     (case hex_digit c of None \<Rightarrow> (n, c # s) | Some d \<Rightarrow> hex_digits s (16 * n + d))"

definition sscanf_ksym :: "string \<Rightarrow> (u64 \<times> char \<times> string) option" where
  "sscanf_ksym buf =
     (let s1 = skip_space buf;
          s1 = (if take 2 s1 = ''0x'' then drop 2 s1 else s1)
      in case hex_digits s1 0 of (n, s2) \<Rightarrow>
         if s2 = s1 then None
         else case skip_space s2 of
           [] \<Rightarrow> None
         | c # s3 \<Rightarrow>
             let s4 = skip_space s3; word = takeWhile (\<lambda>x. \<not> isspace x \<and> x \<noteq> NUL) s4
             in if c = NUL \<or> word = [] then None else Some (word_of_int (min n (2 ^ 64 - 1)), c, word))"

lemma read_line_shorter: "case read_line n f of (l, r) \<Rightarrow> length r \<le> length f \<and> (f \<noteq> [] \<longrightarrow> 0 < n \<longrightarrow> length r < length f)"
proof (induction n f rule: read_line.induct)
  case (3 n c f)
  then show ?case by (auto split: prod.splits)
qed auto

lemma fgets_shorter: "fgets n f = Some (l, r) \<Longrightarrow> 1 < n \<Longrightarrow> length r < length f"
  using read_line_shorter [where n = "n - 1" and f = f] by (auto simp: fgets_def split: if_splits prod.splits)

function load_lines :: "string \<Rightarrow> ksyms \<Rightarrow> nat \<Rightarrow> (ksyms \<times> nat) result" where
  "load_lines f a i =
     (case fgets 256 f of
        None \<Rightarrow> Inr (a, i)
      | Some (buf, rest) \<Rightarrow>
          (case sscanf_ksym buf of
             None \<Rightarrow> Inr (a, i)
           | Some (p, _, func) \<Rightarrow>
               if p = 0 then load_lines rest a i
               else (case write_sym a i \<lparr>addr = sint p, ksym_name = func\<rparr> of
                       Inl e \<Rightarrow> Inl e | Inr a' \<Rightarrow> load_lines rest a' (i + 1))))"
  by pat_completeness auto
termination
  by (relation "measure (\<lambda>(f, a, i). length f)") (auto dest: fgets_shorter)

declare load_lines.simps [simp del]

text \<open>The difference of two \<open>long\<close> values, as \<open>int\<close>.\<close>

definition ksym_cmp :: "ksym \<Rightarrow> ksym \<Rightarrow> int" where
  "ksym_cmp p1 p2 = sint32 (addr p1 - addr p2)"

text \<open>The result, with the array and the number of symbols; \<open>ENOENT\<close> when the file does not open.\<close>

definition load_kallsyms :: "int \<Rightarrow> string option \<Rightarrow> ksyms \<times> nat \<Rightarrow> (int \<times> ksyms \<times> nat) result" where
  "load_kallsyms ENOENT f st =
     (case f of
        None \<Rightarrow> Inr (- ENOENT, st)
      | Some f \<Rightarrow>
          bnd_r (load_lines f (fst st) 0) (\<lambda>(a, sym_cnt).
          Inr (0, qsort ksym_cmp (take sym_cnt a) @ drop sym_cnt a, sym_cnt)))"

section \<open>Bisection\<close>

text \<open>The loop: the symbol with the address \<open>key\<close>, or where it would be.\<close>

function ksym_bisect :: "ksyms \<Rightarrow> int \<Rightarrow> nat \<Rightarrow> nat \<Rightarrow> (nat option \<times> nat) result" where
  "ksym_bisect a key start e =
     (if start < e then
        (let mid = start + (e - start) div 2
         in case read_sym a mid of
              Inl f \<Rightarrow> Inl f
            | Inr x \<Rightarrow>
                (let r = sint32 (key - addr x)
                 in if r < 0 then ksym_bisect a key start mid
                    else if r > 0 then ksym_bisect a key (mid + 1) e
                    else Inr (Some mid, start)))
      else Inr (None, start))"
  by pat_completeness auto
termination
  by (relation "measure (\<lambda>(a, key, start, e). e - start)") auto

declare ksym_bisect.simps [simp del]

text \<open>The index of the symbol whose address is returned.\<close>

definition ksym_search :: "ksyms \<Rightarrow> nat \<Rightarrow> int \<Rightarrow> nat result" where
  "ksym_search a sym_cnt key =
     bnd_r (ksym_bisect a key 0 sym_cnt) (\<lambda>(found, start).
     case found of
       Some mid \<Rightarrow> Inr mid
     | None \<Rightarrow>
         if start \<ge> 1 then
           bnd_r (read_sym a (start - 1)) (\<lambda>before.
           if addr before < key then
             bnd_r (read_sym a start) (\<lambda>behind. Inr (if key < addr behind then start - 1 else 0))
           else Inr 0)
         else Inr 0)"

section \<open>What the search finds\<close>

lemma sint32_id: "\<bar>n\<bar> < 2 ^ 31 \<Longrightarrow> sint32 n = n"
  unfolding sint32_def sint_sbintrunc' by (simp add: signed_take_bit_int_eq_self_iff abs_less_iff)

text \<open>All addresses are near the key, so the differences are what they stand for.\<close>

definition near :: "ksyms \<Rightarrow> int \<Rightarrow> bool" where
  "near a key \<longleftrightarrow> (\<forall>x\<in>set a. \<bar>key - addr x\<bar> < 2 ^ 31)"

lemma near_nth: "near a key \<Longrightarrow> i < length a \<Longrightarrow> sint32 (key - addr (a ! i)) = key - addr (a ! i)"
  by (simp add: near_def sint32_id)

lemma addr_mono: "sorted (map addr a) \<Longrightarrow> i \<le> j \<Longrightarrow> j < length a \<Longrightarrow> addr (a ! i) \<le> addr (a ! j)"
  using sorted_nth_mono [of "map addr a" i j] by simp

text \<open>Everything before \<open>i\<close> is below the key, everything from \<open>j\<close> on above it.\<close>

definition bracket :: "ksyms \<Rightarrow> int \<Rightarrow> nat \<Rightarrow> nat \<Rightarrow> bool" where
  "bracket a key i j \<longleftrightarrow>
     (\<forall>k. k < i \<longrightarrow> addr (a ! k) < key) \<and> (\<forall>k. j \<le> k \<and> k < length a \<longrightarrow> key < addr (a ! k))"

lemma bracket_left:
  "sorted (map addr a) \<Longrightarrow> bracket a key i j \<Longrightarrow> m < length a \<Longrightarrow> addr (a ! m) < key \<Longrightarrow> bracket a key (m + 1) j"
  by (auto simp: bracket_def) (metis addr_mono less_Suc_eq_le order_le_less_trans)

lemma bracket_right:
  "sorted (map addr a) \<Longrightarrow> bracket a key i j \<Longrightarrow> m < length a \<Longrightarrow> key < addr (a ! m) \<Longrightarrow> bracket a key i m"
  by (auto simp: bracket_def) (metis addr_mono order_less_le_trans)

lemma ksym_bisect_finds:
  "sorted (map addr a) \<Longrightarrow> near a key \<Longrightarrow> start \<le> e \<Longrightarrow> e \<le> length a \<Longrightarrow> bracket a key start e \<Longrightarrow>
   \<exists>r st. ksym_bisect a key start e = Inr (r, st) \<and>
     (case r of Some m \<Rightarrow> m < length a \<and> addr (a ! m) = key
      | None \<Rightarrow> st \<le> length a \<and> bracket a key st st)"
proof (induction a key start e rule: ksym_bisect.induct)
  case (1 a key start e)
  show ?case
  proof (cases "start < e")
    case False
    with 1(5) have "start = e" by simp
    with 1(5-) show ?thesis by (simp add: ksym_bisect.simps [of a key e e])
  next
    case True
    define mid where "mid = start + (e - start) div 2"
    with True have mid: "start \<le> mid" "mid < e" by (auto simp: mid_def)
    with 1 have len: "mid < length a" by simp
    then have rd: "read_sym a mid = Inr (a ! mid)" by (simp add: read_sym_def)
    have d: "sint32 (key - addr (a ! mid)) = key - addr (a ! mid)"
      using 1(4) len by (rule near_nth)
    note step = ksym_bisect.simps [of a key start e, folded mid_def]
    consider "key < addr (a ! mid)" | "key > addr (a ! mid)" | "key = addr (a ! mid)" by linarith
    then show ?thesis
    proof cases
      case c: 1
      with 1(1) [OF True mid_def rd d [symmetric]] 1(3-) mid len bracket_right [OF 1(3,7) len] show ?thesis
        by (simp add: step True rd d)
    next
      case c: 2
      with 1(2) [OF True mid_def rd d [symmetric]] 1(3-) mid len bracket_left [OF 1(3,7) len] show ?thesis
        by (simp add: step True rd d)
    next
      case c: 3
      from d c have "ksym_bisect a key start e = Inr (Some mid, start)"
        by (subst step) (simp add: True rd)
      with len c show ?thesis by simp
    qed
  qed
qed

text \<open>The symbol an address belongs to: the last one that does not begin behind it.\<close>

definition owns :: "ksyms \<Rightarrow> int \<Rightarrow> nat \<Rightarrow> bool" where
  "owns a key i \<longleftrightarrow> i < length a \<and> addr (a ! i) \<le> key \<and> (\<forall>x\<in>set a. addr x \<le> key \<longrightarrow> addr x \<le> addr (a ! i))"

lemma ownsI:
  assumes "sorted (map addr a)" "i < length a" "addr (a ! i) \<le> key" "\<And>j. i < j \<Longrightarrow> j < length a \<Longrightarrow> key < addr (a ! j) \<or> addr (a ! j) = addr (a ! i)"
  shows "owns a key i"
  unfolding owns_def
proof (intro conjI ballI impI)
  fix x
  assume "x \<in> set a" "addr x \<le> key"
  then obtain j where "j < length a" "x = a ! j" by (metis in_set_conv_nth)
  then show "addr x \<le> addr (a ! i)"
    using assms(1,2) assms(4) [of j] \<open>addr x \<le> key\<close> addr_mono [of a j i] by (cases "j \<le> i") auto
qed (use assms in auto)

lemma owns_at: "sorted (map addr a) \<Longrightarrow> i < length a \<Longrightarrow> addr (a ! i) = key \<Longrightarrow> owns a key i"
  by (auto simp: owns_def)

lemma ksym_search_owner:
  assumes a: "sorted (map addr a)" "near a key" "a \<noteq> []" "length a < MAX_SYMS"
  shows "\<exists>i. ksym_search a (length a) key = Inr i \<and>
    (if addr (hd a) \<le> key \<and> (key \<le> addr (last a) \<or> key < 0) then owns a key i else i = 0)"
proof -
  have len: "0 < length a" using a(3) by simp
  obtain r st where b: "ksym_bisect a key 0 (length a) = Inr (r, st)"
    and r: "case r of Some m \<Rightarrow> m < length a \<and> addr (a ! m) = key | None \<Rightarrow> st \<le> length a \<and> bracket a key st st"
    using ksym_bisect_finds [OF a(1,2), of 0 "length a"] by (auto simp: bracket_def)
  show ?thesis
  proof (cases r)
    case (Some m)
    have "addr (hd a) \<le> key" "key \<le> addr (last a)"
      using r Some a(3) addr_mono [OF a(1), of 0 m] addr_mono [OF a(1), of m "length a - 1"]
      by (auto simp: hd_conv_nth last_conv_nth)
    with r Some owns_at [OF a(1), of m key] show ?thesis by (simp add: ksym_search_def b)
  next
    case None
    with r have st: "st \<le> length a" "bracket a key st st" by auto
    consider "st = 0" | "0 < st" "st < length a" | "st = length a" "0 < st" using st(1) len by linarith
    then show ?thesis
    proof cases
      case 1
      with st(2) len have "key < addr (hd a)" by (auto simp: bracket_def hd_conv_nth)
      with 1 show ?thesis by (simp add: ksym_search_def b None)
    next
      case 2
      then have k: "addr (a ! (st - 1)) < key" "key < addr (a ! st)"
        using st(2) by (auto simp: bracket_def)
      have "addr (hd a) \<le> key" "key \<le> addr (last a)"
        using k order_trans [OF addr_mono [OF a(1), of 0 "st - 1"], of key] order_trans [OF _ addr_mono [OF a(1), of st "length a - 1"], of key] 2 a(3)
        by (simp_all add: hd_conv_nth last_conv_nth)
      moreover have "owns a key (st - 1)"
        using k 2 st(2) by (intro ownsI [OF a(1)]) (auto simp: bracket_def intro: less_imp_le)
      moreover have "read_sym a (st - 1) = Inr (a ! (st - 1))" "read_sym a st = Inr (a ! st)"
        using 2 by (auto simp: read_sym_def less_imp_diff_less)
      ultimately show ?thesis
        using 2 k by (simp add: ksym_search_def b None)
    next
      case 3
      then have k: "addr (last a) < key"
        using st(2) a(3) by (simp add: bracket_def last_conv_nth)
      have h: "addr (hd a) \<le> key"
        using k a(3) len addr_mono [OF a(1), of 0 "length a - 1"] by (simp add: hd_conv_nth last_conv_nth)
      have o: "owns a key (length a - 1)"
        using k a(3) len by (intro ownsI [OF a(1)]) (auto simp: last_conv_nth)
      have rd: "read_sym a (length a - 1) = Inr (last a)" "read_sym a (length a) = Inr \<lparr>addr = 0, ksym_name = []\<rparr>"
        using a(3,4) by (simp_all add: read_sym_def last_conv_nth)
      show ?thesis
        using 3 k h o rd by (auto simp: ksym_search_def b None)
    qed
  qed
qed

section \<open>What is read\<close>

text \<open>
  The file as the kernel writes it (\<open>"%016lx %c %s"\<close> and a line end): an address of 16 hexadecimal digits, a
  type, a name and, for a symbol of a module, more behind white space.
\<close>

primrec hex_text :: "nat \<Rightarrow> nat \<Rightarrow> string" where
  "hex_text 0 n = []"
| "hex_text (Suc k) n = hex_text k (n div 16) @ [''0123456789abcdef'' ! (n mod 16)]"

record kallsym =
  ks_addr :: u64
  ks_type :: char
  ks_name :: string
  ks_module :: string

definition kallsym_line :: "kallsym \<Rightarrow> string" where
  "kallsym_line e = hex_text 16 (unat (ks_addr e)) @ '' '' @ [ks_type e] @ '' '' @ ks_name e @ ks_module e @ [LF]"

definition kallsyms_text :: "kallsym list \<Rightarrow> string" where
  "kallsyms_text es = concat (map kallsym_line es)"

text \<open>Printable fields, and a line that fits the buffer of 256 characters.\<close>

definition kallsym_ok :: "kallsym \<Rightarrow> bool" where
  "kallsym_ok e \<longleftrightarrow> \<not> isspace (ks_type e) \<and> ks_type e \<noteq> NUL \<and> ks_name e \<noteq> [] \<and>
     (\<forall>c\<in>set (ks_name e). \<not> isspace c \<and> c \<noteq> NUL) \<and> LF \<notin> set (ks_module e) \<and>
     (ks_module e \<noteq> [] \<longrightarrow> isspace (hd (ks_module e))) \<and> length (ks_name e @ ks_module e) \<le> 235"

text \<open>The symbols of a file: those whose address is not zero, with the address read as a \<open>long\<close>.\<close>

definition ksyms_of :: "kallsym list \<Rightarrow> ksyms" where
  "ksyms_of es = map (\<lambda>e. \<lparr>addr = sint (ks_addr e), ksym_name = ks_name e\<rparr>) (filter (\<lambda>e. ks_addr e \<noteq> 0) es)"

lemma hex_char:
  assumes "d < 16"
  shows "hex_digit (''0123456789abcdef'' ! d) = Some (int d)" "\<not> isspace (''0123456789abcdef'' ! d)"
    "''0123456789abcdef'' ! d \<noteq> CHR ''x''" "''0123456789abcdef'' ! d \<noteq> LF"
proof -
  have "\<forall>d\<in>set [0..<16]. hex_digit (''0123456789abcdef'' ! d) = Some (int d) \<and> \<not> isspace (''0123456789abcdef'' ! d) \<and>
    ''0123456789abcdef'' ! d \<noteq> CHR ''x'' \<and> ''0123456789abcdef'' ! d \<noteq> LF"
    by code_simp
  with assms show "hex_digit (''0123456789abcdef'' ! d) = Some (int d)" "\<not> isspace (''0123456789abcdef'' ! d)"
    "''0123456789abcdef'' ! d \<noteq> CHR ''x''" "''0123456789abcdef'' ! d \<noteq> LF"
    by simp_all
qed

lemma hex_text_chars: "c \<in> set (hex_text k n) \<Longrightarrow> \<not> isspace c \<and> c \<noteq> CHR ''x'' \<and> c \<noteq> LF"
  by (induction k arbitrary: n) (use hex_char in auto)

lemma length_hex_text [simp]: "length (hex_text k n) = k"
  by (induction k arbitrary: n) simp_all

lemma hex_digits_text: "hex_digits (hex_text k n @ s) m = hex_digits s (m * 16 ^ k + int (n mod 16 ^ k))"
proof (induction k arbitrary: n s)
  case (Suc k)
  have "n mod 16 ^ Suc k = 16 * (n div 16 mod 16 ^ k) + n mod 16"
    by (simp add: mod_mult2_eq)
  then show ?case
    using hex_char(1) [of "n mod 16"] by (simp add: Suc.IH algebra_simps)
qed simp

lemma skip_no_space: "s \<noteq> [] \<Longrightarrow> \<not> isspace (hd s) \<Longrightarrow> skip_space s = s"
  by (cases s) simp_all

lemma sscanf_fields:
  assumes "skip_space buf = buf" "take 2 buf \<noteq> ''0x''" "hex_digits buf 0 = (n, s2)" "s2 \<noteq> buf" "skip_space s2 = c # s3"
    and "c \<noteq> NUL" "takeWhile (\<lambda>x. \<not> isspace x \<and> x \<noteq> NUL) (skip_space s3) = w" "w \<noteq> []"
  shows "sscanf_ksym buf = Some (word_of_int (min n (2 ^ 64 - 1)), c, w)"
  using assms by (simp add: sscanf_ksym_def Let_def)

lemma word_name: "kallsym_ok e \<Longrightarrow>
  takeWhile (\<lambda>x. \<not> isspace x \<and> x \<noteq> NUL) (skip_space ('' '' @ ks_name e @ ks_module e @ [LF, NUL])) = ks_name e"
proof -
  assume ok: "kallsym_ok e"
  have sp: "isspace (CHR '' '')" "isspace LF" by (simp_all add: isspace_def Cstr.code_def)
  have "takeWhile (\<lambda>x. \<not> isspace x \<and> x \<noteq> NUL) (ks_module e @ [LF, NUL]) = []"
    using ok sp by (cases "ks_module e") (simp_all add: kallsym_ok_def)
  moreover have "skip_space ('' '' @ ks_name e @ ks_module e @ [LF, NUL]) = ks_name e @ ks_module e @ [LF, NUL]"
    using ok sp by (cases "ks_name e") (simp_all add: kallsym_ok_def)
  ultimately show ?thesis using ok by (simp add: kallsym_ok_def)
qed

lemma sscanf_line:
  assumes "kallsym_ok e"
  shows "sscanf_ksym (kallsym_line e @ [NUL]) = Some (ks_addr e, ks_type e, ks_name e)"
proof -
  let ?h = "hex_text 16 (unat (ks_addr e))"
  let ?t = "'' '' @ ks_name e @ ks_module e @ [LF, NUL]"
  let ?r = "CHR '' '' # ks_type e # ?t"
  have sp: "isspace (CHR '' '')" by (simp add: isspace_def Cstr.code_def)
  obtain c d r where h: "?h = c # d # r"
    using length_hex_text [of 16 "unat (ks_addr e)"] by (cases ?h; cases "tl ?h") auto
  then have "\<not> isspace c" "d \<noteq> CHR ''x''"
    using hex_text_chars [of _ 16 "unat (ks_addr e)"] by auto
  then have skip: "skip_space (?h @ ?r) = ?h @ ?r" "take 2 (?h @ ?r) \<noteq> ''0x''"
    by (simp_all add: h)
  have n: "unat (ks_addr e) < 16 ^ 16" "uint (ks_addr e) \<le> 2 ^ 64 - 1"
    using unsigned_less [of "ks_addr e", where ?'a = nat] unsigned_less [of "ks_addr e", where ?'a = int] by simp_all
  have "hex_digit (CHR '' '') = None" by code_simp
  with n(1) have num: "hex_digits (?h @ ?r) 0 = (uint (ks_addr e), ?r)"
    by (simp add: hex_digits_text)
  have type: "skip_space ?r = ks_type e # ?t"
    using assms sp by (simp add: kallsym_ok_def)
  have "sscanf_ksym (?h @ ?r) = Some (word_of_int (min (uint (ks_addr e)) (2 ^ 64 - 1)), ks_type e, ks_name e)"
    by (rule sscanf_fields [OF skip num _ type _ word_name [OF assms]]) (use assms h in \<open>simp_all add: kallsym_ok_def\<close>)
  moreover have "kallsym_line e @ [NUL] = ?h @ ?r" by (simp add: kallsym_line_def)
  ultimately show ?thesis using n(2) by (simp add: min_absorb1)
qed

lemma fgets_kallsym: "kallsym_ok e \<Longrightarrow> fgets 256 (kallsym_line e @ f) = Some (kallsym_line e @ [NUL], f)"
proof -
  assume ok: "kallsym_ok e"
  define l where "l = hex_text 16 (unat (ks_addr e)) @ '' '' @ [ks_type e] @ '' '' @ ks_name e @ ks_module e"
  have sp: "isspace LF" by (simp add: isspace_def Cstr.code_def)
  have "LF \<notin> set l"
  proof -
    have "LF \<notin> set (hex_text 16 (unat (ks_addr e)))" using hex_text_chars by blast
    moreover have "LF \<noteq> CHR '' ''" by simp
    moreover from ok have "\<not> isspace (ks_type e)" "\<forall>c\<in>set (ks_name e). \<not> isspace c" "LF \<notin> set (ks_module e)"
      by (simp_all add: kallsym_ok_def)
    moreover from this sp have "LF \<noteq> ks_type e" "LF \<notin> set (ks_name e)" by metis+
    ultimately show ?thesis
      by (simp only: l_def set_append Un_iff list.set insert_iff empty_iff de_Morgan_disj simp_thms)
  qed
  moreover have "length l + 1 < 256" using ok by (simp add: kallsym_ok_def l_def)
  moreover have "kallsym_line e = l @ [LF]" by (simp add: kallsym_line_def l_def)
  ultimately show ?thesis using fgets_line [of l 256 f] by simp
qed

lemma load_lines_text:
  "\<forall>e\<in>set es. kallsym_ok e \<Longrightarrow> length a + length (ksyms_of es) \<le> MAX_SYMS \<Longrightarrow>
   load_lines (kallsyms_text es) a (length a) = Inr (a @ ksyms_of es, length a + length (ksyms_of es))"
proof (induction es arbitrary: a)
  case Nil
  then show ?case by (simp add: load_lines.simps kallsyms_text_def ksyms_of_def fgets_def)
next
  case (Cons e es)
  have cons: "kallsyms_text (e # es) = kallsym_line e @ kallsyms_text es" by (simp add: kallsyms_text_def)
  note line = fgets_kallsym [of e "kallsyms_text es"] sscanf_line [of e]
  show ?case
  proof (cases "ks_addr e = 0")
    case True
    with Cons line show ?thesis by (simp add: cons load_lines.simps [of "kallsym_line e @ kallsyms_text es"] ksyms_of_def)
  next
    case False
    let ?x = "\<lparr>addr = sint (ks_addr e), ksym_name = ks_name e\<rparr>"
    have len: "length a < MAX_SYMS" using Cons.prems(2) False by (simp add: ksyms_of_def)
    have "load_lines (kallsyms_text es) (a @ [?x]) (length (a @ [?x])) =
        Inr ((a @ [?x]) @ ksyms_of es, length (a @ [?x]) + length (ksyms_of es))"
      by (rule Cons.IH) (use Cons.prems False in \<open>simp_all add: ksyms_of_def\<close>)
    with line Cons.prems(1) False len show ?thesis
      by (simp add: cons load_lines.simps [of "kallsym_line e @ kallsyms_text es"] ksyms_of_def write_sym_def)
  qed
qed

lemma mset_qsort: "mset (qsort cmp xs) = mset xs"
proof -
  have "mset (insert_by cmp x ys) = add_mset x (mset ys)" for x ys by (induction ys) auto
  then show ?thesis by (induction xs) simp_all
qed

text \<open>C25: \<open>load_kallsyms\<close> reads every symbol of the kernel's file whose address is not zero, with its address
  and its name, and nothing else, and sorts them when they are less than 2^31 apart. Then, for a key less than 2^31
  from all of them, \<open>ksym_search\<close> ends without a bad access and gives the symbol that owns the key. It gives the
  first symbol when the key is below all symbols, and when it is behind the last one, unless the key is negative
  as a \<open>long\<close>, as kernel addresses are.\<close>

theorem ksym_search_after_load:
  assumes "\<forall>e\<in>set es. kallsym_ok e" and "ksyms_of es \<noteq> []" "length (ksyms_of es) < MAX_SYMS"
    and "\<forall>x\<in>set (ksyms_of es). \<forall>y\<in>set (ksyms_of es). \<bar>addr x - addr y\<bar> < 2 ^ 31"
    and "\<forall>x\<in>set (ksyms_of es). \<bar>key - addr x\<bar> < 2 ^ 31"
  shows "\<exists>a. load_kallsyms ENOENT (Some (kallsyms_text es)) ([], 0) = Inr (0, a, length (ksyms_of es)) \<and>
    mset a = mset (ksyms_of es) \<and> sorted (map addr a) \<and> (\<exists>i. ksym_search a (length (ksyms_of es)) key = Inr i \<and>
    (if addr (hd a) \<le> key \<and> (key \<le> addr (last a) \<or> key < 0)
     then i < length a \<and> addr (a ! i) \<le> key \<and> (\<forall>x\<in>set a. addr x \<le> key \<longrightarrow> addr x \<le> addr (a ! i))
     else i = 0))"
proof -
  let ?s = "ksyms_of es"
  let ?a = "qsort ksym_cmp ?s"
  have load: "load_kallsyms ENOENT (Some (kallsyms_text es)) ([], 0) = Inr (0, ?a, length ?s)"
    using load_lines_text [OF assms(1), of "[]"] assms(3) by (simp add: load_kallsyms_def)
  have "compares_by ksym_cmp addr (set ?s)"
    using assms(4) by (auto simp: compares_by_def ksym_cmp_def sint32_id)
  then have s: "sorted (map addr ?a)" by (rule sorted_qsort)
  have near: "near ?a key" using assms(5) by (simp add: near_def)
  have "?a \<noteq> []" "length ?a < MAX_SYMS" using assms(2,3) length_qsort [of ksym_cmp ?s] by (auto simp del: length_qsort)
  from ksym_search_owner [OF s near this] load s show ?thesis
    unfolding owns_def by (intro exI [of _ ?a]) (simp add: mset_qsort)
qed

definition kallsyms_example :: "kallsym list" where
  "kallsyms_example = [\<lparr>ks_addr = 0x2000, ks_type = CHR ''T'', ks_name = ''beta'', ks_module = '' [net]''\<rparr>,
     \<lparr>ks_addr = 0, ks_type = CHR ''a'', ks_name = ''zero'', ks_module = []\<rparr>,
     \<lparr>ks_addr = 0x1000, ks_type = CHR ''T'', ks_name = ''alpha'', ks_module = []\<rparr>]"

lemma kallsyms_example_ok:
  "\<forall>e\<in>set kallsyms_example. kallsym_ok e"
  "ksyms_of kallsyms_example = [\<lparr>addr = 0x2000, ksym_name = ''beta''\<rparr>, \<lparr>addr = 0x1000, ksym_name = ''alpha''\<rparr>]"
  by (simp_all add: kallsyms_example_def kallsym_ok_def ksyms_of_def isspace_def Cstr.code_def)

theorem ksym_search_after_load_witness:
  "\<exists>a i. load_kallsyms 2 (Some (kallsyms_text kallsyms_example)) ([], 0) = Inr (0, a, 2) \<and>
     ksym_search a 2 0x1234 = Inr i \<and> addr (a ! i) = 0x1000"
proof -
  let ?s = "ksyms_of kallsyms_example"
  have "\<exists>a. load_kallsyms 2 (Some (kallsyms_text kallsyms_example)) ([], 0) = Inr (0, a, length ?s) \<and>
    mset a = mset ?s \<and> sorted (map addr a) \<and> (\<exists>i. ksym_search a (length ?s) 0x1234 = Inr i \<and>
    (if addr (hd a) \<le> 0x1234 \<and> (0x1234 \<le> addr (last a) \<or> (0x1234::int) < 0)
     then i < length a \<and> addr (a ! i) \<le> 0x1234 \<and> (\<forall>x\<in>set a. addr x \<le> 0x1234 \<longrightarrow> addr x \<le> addr (a ! i))
     else i = 0))"
    by (rule ksym_search_after_load [OF kallsyms_example_ok(1)]) (simp_all add: kallsyms_example_ok(2) MAX_SYMS_def)
  then obtain a i where a: "load_kallsyms 2 (Some (kallsyms_text kallsyms_example)) ([], 0) = Inr (0, a, length ?s)"
      "mset a = mset ?s" "ksym_search a (length ?s) 0x1234 = Inr i"
      "if addr (hd a) \<le> 0x1234 \<and> (0x1234 \<le> addr (last a) \<or> (0x1234::int) < 0)
       then i < length a \<and> addr (a ! i) \<le> 0x1234 \<and> (\<forall>x\<in>set a. addr x \<le> 0x1234 \<longrightarrow> addr x \<le> addr (a ! i))
       else i = 0"
      "sorted (map addr a)"
    by blast
  have "mset a = {#\<lparr>addr = 0x2000, ksym_name = ''beta''\<rparr>, \<lparr>addr = 0x1000, ksym_name = ''alpha''\<rparr>#}"
    using a(2) by (simp add: kallsyms_example_ok(2))
  from arg_cong [OF this, of size] arg_cong [OF this, of set_mset]
  have m: "length a = 2" "set a = {\<lparr>addr = 0x2000, ksym_name = ''beta''\<rparr>, \<lparr>addr = 0x1000, ksym_name = ''alpha''\<rparr>}"
    by simp_all
  then obtain x y where xy: "a = [x, y]" by (auto simp: length_Suc_conv numeral_2_eq_2)
  with a(5) m(2) have xa: "addr x = 0x1000" "addr y = 0x2000" by (auto simp: doubleton_eq_iff)
  have "length ?s = 2" by (simp add: kallsyms_example_ok(2))
  moreover have "addr (a ! i) = 0x1000"
    using a(4) xy xa by (cases i) (auto simp: less_Suc_eq)
  ultimately show ?thesis using a(1,3) by metis
qed

end
