(* ===== verification/Spec2Isabelle.thy ===== *)
theory Spec2Isabelle
  imports Constants TreeProps ArenaProps LoaderExample Ksyms
begin

text \<open>
  ashp4c, a P4-16 compiler front end in C: it reads a P4 program, scans it into an array of
  tokens, parses the array into an abstract syntax tree, declares the names of the tree in a
  symbol table, and prints the tree. Beside it stand a few XDP packet programs with their
  loaders. This library models both function by function and proves what makes their components
  correct.

  \<^bold>\<open>How the program fits together.\<close> \<open>main\<close> (ashp4c.c) reserves memory (arena.c), classifies the
  command line, reads the source file, calls \<open>lex_tokenize\<close> (lex.c), \<open>symtable_init\<close>
  (symtable.c), \<open>build_ast_program\<close> (build_ast.c), \<open>symtable_flush\<close>, \<open>build_symtable_program\<close>
  (build_symtable.c) and \<open>print_ast\<close> (print_ast.c). Scanner and parser share the token array,
  an \<open>UnboundedArray\<close> of arena.c. The parser asks the symbol table for the class of an
  identifier (a type name, a keyword or a plain name) and declares type names in it as it goes;
  that is the only feedback between phases. All phases build the tree of ast.c, whose nodes
  keep their children in a small hash table of named attributes. The packet programs of ebpf/
  are independent of the compiler. Their loaders (xdp_redirect_user.c, xdp_ip_fixup.c,
  count_packets.c) read the object file of the programs through bpf_load.c, which creates its maps,
  writes their descriptors into the instructions and hands the programs to the kernel, put a program
  on an interface through a netlink message, and then share the kernel's maps with it.

  \<^bold>\<open>The model.\<close>
  \<^item> \<open>Prelude\<close>: failures, commands over the static variables, loops with fuel and the
    weakest-precondition rules. A failure is an assertion, an \<open>error\<close> with line and text, lack
    of memory, an access outside an object, or lack of fuel.
  \<^item> \<open>Cstr\<close> (basic.c), \<open>Hash\<close> (hash.c), \<open>Arena\<close> and \<open>UArray\<close> (arena.c), \<open>AstKinds\<close> and \<open>AstTab\<close>
    (ast.h, ast.c), \<open>Token\<close> (token.h), \<open>Lexer\<close> (lex.c, a state machine on the record \<open>lexer\<close>),
    \<open>Symtab\<close> (symtable.c).
  \<^item> \<open>ParseBase\<close>, \<open>ParseTypes\<close>, \<open>ParseExpr\<close>, \<open>ParseStmt\<close>, \<open>ParseProgram\<close> (build_ast.c): one
    definition per \<open>build_\<close> function, with memory for nodes, lists and links taken to be there. The functions that C declares forward are reached through
    an environment that \<open>ParseProgram\<close> unfolds as deep as its fuel.
  \<^item> \<open>BuildSymtab\<close> (build_symtable.c), \<open>PrintAst\<close> (print_ast.c), \<open>Driver\<close> (ashp4c.c).
  \<^item> \<open>Xdp\<close> (ebpf/): the packet programs over the bytes of a packet and the loops of their loaders.
  \<^item> \<open>CLib\<close>: what the loaders use of the C library on terminated strings. \<open>BpfInsn\<close>
    (bpf_insn.h): instructions with their layout in memory. \<open>BpfLoad\<close>, \<open>BpfFile\<close>, \<open>Ksyms\<close> and
    \<open>Netlink\<close> (bpf_load.c): the static variables with the buffers of the sections and a log of the
    calls to the kernel are the record \<open>loader\<close>; loading and attaching, maps, relocations, the three
    passes over the sections, the kernel's symbols, and the request that puts a program on an
    interface. \<open>BpfUtil\<close> (bpf_util.h) counts processors. \<open>Loaders\<close>: the three \<open>main\<close>
    functions. libelf with the open file and the kernel's answers are the record \<open>platform\<close>, an argument.

  \<^bold>\<open>What is proved.\<close>
  \<^item> Memory: \<open>ArenaLists\<close>, \<open>ArenaOps\<close> and \<open>ArenaProps\<close> carry an invariant through every statement
    of the page allocator and conclude that the reserved range is divided between the free list
    and the arenas, that a push hands out unused memory, which no later push hands out again, when a push or a delete can
    fail, that the descriptors of blocks lie in accessible memory, and that a delete gives back everything. \<open>UArray\<close> shows that the segmented array is the list it
    holds, \<open>AstTab\<close> that the attribute table is a map and its iterator an enumeration.
  \<^item> Strings and hashes: \<open>Cstr\<close> and \<open>Hash\<close> decide what the helpers compute and that a hash is an
    index of the table.
  \<^item> Scanner: \<open>LexerProps\<close> proves its invariant for every state of the \<open>switch\<close>, hence that it
    ends and brackets the token array, and describes single token kinds; \<open>LexInts\<close> has the values of
    digit strings. \<open>Lexicon\<close> gives the lexical grammar (words of every token class with what they spell,
    and white space); \<open>ScanWords\<close> and \<open>ScanText\<close> show that every text spelled from it is scanned
    to exactly its tokens, from which the round trip of decimal numbers follows. Comments are not part of
    this grammar.
  \<^item> Symbol table: \<open>SymtabProps\<close> refines the hash table with its growth to one triple of stacks
    per name, \<open>Keywords\<close> computes the initial table.
  \<^item> Parser: \<open>ParseCalc\<close> and \<open>ParseTerm\<close> show that it ends, \<open>TreeCalc\<close> and \<open>TreeProps\<close> that every
    tree it returns is well formed and when it can be printed, \<open>ParseRun\<close> and \<open>ExprParse\<close> that
    \<open>build_expression\<close> follows the precedence grammar of expressions.
  \<^item> From text to tree: \<open>Constants\<close> joins scanner, keyword table and parser on programs of constant
    declarations: the text of a derivation ends as the tree of the derivation. The programs have at
    most 400 words, so that their names fit the table beside the keywords before it grows.
  \<^item> Whole compiler: \<open>Stops\<close>, \<open>WalkProps\<close> and \<open>ProgramProps\<close> show that the walks over the tree end
    and that \<open>main\<close> ends for every input.
  \<^item> Packet programs: \<open>XdpProps\<close> reduces their verdicts to conditions on packet bytes, for both
    byte orders, and composes the redirect programs with the loader that fills their maps.
  \<^item> Loaders: \<open>BpfRelo\<close> says which instructions relocation changes and how, and when it fails.
    \<open>BpfAttach\<close> has the kinds of programs and what an accepting kernel attaches, \<open>BpfPasses\<close> follows the three
    passes of \<open>do_load_bpf_file\<close>, and \<open>BpfProps\<close> concludes that a well-formed file, with programs of any kind, is loaded
    completely, in order and with its maps, by every kernel that accepts the calls. \<open>Ksyms\<close>, \<open>Netlink\<close> and \<open>BpfUtil\<close> have reading and searching the kernel's symbols, the request read back by
    an independent reader of attributes, and the number of processors; \<open>Loaders\<close> follows the loader of
    the redirect programs to its endless loop. \<open>BpfExample\<close> and \<open>LoaderExample\<close> apply these theorems
    to an object file with two programs, a map and a relocation.

  \<^bold>\<open>Interfaces.\<close> \<open>growable_array\<close> (UArray) is what scanner and parser need of the token array,
  interpreted on the segmented array. \<open>keyed_table\<close> (AstTab) is the contract of a table under
  names: a stored value is found and no other name changes; it is interpreted on the attribute
  table of a node and on the symbol table.

  \<^bold>\<open>Bounds and fuel.\<close> Loops that the code writes as \<open>while\<close> run under a bound. The scanner's
  loops run under the text length: each round moves right, and \<open>lex_tokenize_bracketed\<close> shows
  that the bound is never met. The parser runs under \<open>parse_fuel\<close>, two levels of
  recursion for each token and two more: \<open>ParseTerm\<close> shows that every recursive call has consumed
  a token or leads to one that has, and that every loop round consumes one. The one exception
  is an empty statement in a parser state, which is never consumed, so a \<open>;\<close> directly after a
  brace or another \<open>;\<close> can make the parser go on until the memory is used up
  (\<open>parser_state_semicolon_not_passed\<close>; the model of the parser takes memory to be there and so never ends); the
  termination theorems exclude such sources. Printer and symbol table pass run under the size of the tree, walks over block
  lists under \<open>walk_fuel\<close>, which exceeds the number of descriptors the reserved memory can hold.
  \<open>arena_push\<close> calls itself for descriptors, at most three levels deep.
  Words are kept at their width in the hash functions, the sizes of memory requests, integer
  literals and packets; counters and positions are integers.

  \<^bold>\<open>Not modelled.\<close> The contents of memory outside the objects named above, the effect of
  \<open>mmap\<close> and \<open>mprotect\<close> beyond success or failure (parameters of \<open>Arena\<close>), the printing of
  diagnostics, debug output, and reading the source file. Of ebpf/: \<open>read_trace_pipe\<close>, which copies to
  the output for ever; the socket calls and the polling of sock_example.c; bpf_helpers.h, libbpf.h (the
  macros of bpf_insn.h once more), perf-sys.h and sock_example.h, which declare calls into the kernel. The
  kernel itself, so also what a loaded program computes when its instructions run, libelf, \<open>getopt\<close>
  and \<open>strtoul\<close> are parameters; \<open>strdup\<close> and \<open>calloc\<close> are taken to succeed. What packet programs
  and loaders take from the kernel headers is an argument of their definitions.
\<close>

end
